(* ===== verification/XchPrelude.thy ===== *)
theory XchPrelude
  imports Main "HOL-Library.Word" "HOL-Library.Multiset"
begin

text \<open>
  Shared vocabulary of the development: Rust's unsigned integers as words, fallible code as a sum
  with the error on the left, the checked and saturating operations of the standard library, and
  big-endian byte encodings. Arithmetic written with plain \<open>+\<close>, \<open>-\<close> and \<open>*\<close> in the source wraps
  in a release build (the workspace sets no overflow checks there), which is what the word
  operations do; a division or a remainder by zero panics in every build and is made explicit.
\<close>

unbundle bit_operations_syntax

named_theorems res_simps \<open>evaluation of the result combinators\<close>
named_theorems byte_simps \<open>byte and big-endian arithmetic\<close>

type_synonym u8 = "8 word"
type_synonym u16 = "16 word"
type_synonym u32 = "32 word"
type_synonym u64 = "64 word"
type_synonym u128 = "128 word"
type_synonym byte = u8
type_synonym bytes = "byte list"

text \<open>A hash function is code outside the repository and stays a parameter.\<close>

type_synonym hash_fn = "bytes \<Rightarrow> bytes"

section \<open>Results\<close>

text \<open>The \<open>?\<close> operator: an error leaves the function, a value is passed on.\<close>

definition bind_res :: "'e + 'a \<Rightarrow> ('a \<Rightarrow> 'e + 'b) \<Rightarrow> 'e + 'b" where
  "bind_res r f = (case r of Inl e \<Rightarrow> Inl e | Inr x \<Rightarrow> f x)"

text \<open>\<open>Option::ok_or\<close>.\<close>

definition ok_or :: "'a option \<Rightarrow> 'e \<Rightarrow> 'e + 'a" where
  "ok_or x e = (case x of None \<Rightarrow> Inl e | Some y \<Rightarrow> Inr y)"

definition is_ok :: "'e + 'a \<Rightarrow> bool" where
  "is_ok r = (case r of Inl _ \<Rightarrow> False | Inr _ \<Rightarrow> True)"

text \<open>A \<open>Vec\<close> used as a stack has its top at the end in the source and at the head here.\<close>

definition ensure :: "bool \<Rightarrow> 'e \<Rightarrow> 'e + unit" where
  "ensure b e = (if b then Inr () else Inl e)"

lemma bind_res_Inl [simp, res_simps]: "bind_res (Inl e) f = Inl e"
  by (simp add: bind_res_def)

lemma bind_res_Inr [simp, res_simps]: "bind_res (Inr x) f = f x"
  by (simp add: bind_res_def)

lemma bind_resE [elim!]:
  "bind_res r f = Inr y \<Longrightarrow> (\<And>x. r = Inr x \<Longrightarrow> f x = Inr y \<Longrightarrow> P) \<Longrightarrow> P"
  by (cases r) auto

lemma bind_res_eq_Inr: "bind_res r f = Inr y \<longleftrightarrow> (\<exists>x. r = Inr x \<and> f x = Inr y)"
  by (cases r) auto

lemma bind_res_eq_Inl:
  "bind_res r f = Inl e \<longleftrightarrow> r = Inl e \<or> (\<exists>x. r = Inr x \<and> f x = Inl e)"
  by (cases r) auto

lemma bind_res_cong [fundef_cong]:
  "r = r' \<Longrightarrow> (\<And>x. r' = Inr x \<Longrightarrow> f x = g x) \<Longrightarrow> bind_res r f = bind_res r' g"
  by (cases r') auto

lemma bind_res_assoc: "bind_res (bind_res r f) g = bind_res r (\<lambda>x. bind_res (f x) g)"
  by (cases r) simp_all

lemma ok_or_simps [simp, res_simps]: "ok_or None e = Inl e" "ok_or (Some x) e = Inr x"
  by (simp_all add: ok_or_def)

lemma ok_or_eq_Inr [simp]: "ok_or x e = Inr y \<longleftrightarrow> x = Some y"
  by (cases x) auto

lemma is_ok_simps [simp, res_simps]: "is_ok (Inr x)" "\<not> is_ok (Inl e)"
  by (simp_all add: is_ok_def)

lemma is_okE [elim]: "is_ok r \<Longrightarrow> (\<And>x. r = Inr x \<Longrightarrow> P) \<Longrightarrow> P"
  by (cases r) auto

lemma ensure_eq_Inr [simp]: "ensure b e = Inr u \<longleftrightarrow> b"
  by (cases u) (simp add: ensure_def)

lemma ensure_True [simp, res_simps]: "ensure True e = Inr ()"
  by (simp add: ensure_def)

lemma ensure_False [simp, res_simps]: "ensure False e = Inl e"
  by (simp add: ensure_def)

text \<open>
  A loop the code does not bound is an option: \<open>None\<close> when it never returns, and \<open>?\<close> on what it
  returns otherwise.
\<close>

definition bind_opt :: "('e + 'a) option \<Rightarrow> ('a \<Rightarrow> ('e + 'b) option) \<Rightarrow> ('e + 'b) option" where
  "bind_opt r f = Option.bind r (\<lambda>x. case x of Inl e \<Rightarrow> Some (Inl e) | Inr y \<Rightarrow> f y)"

lemma bind_opt_simps [simp]:
  "bind_opt None f = None" "bind_opt (Some (Inl e)) f = Some (Inl e)" "bind_opt (Some (Inr x)) f = f x"
  by (simp_all add: bind_opt_def)

lemma bind_opt_eq_Inr:
  "bind_opt r f = Some (Inr y) \<longleftrightarrow> (\<exists>x. r = Some (Inr x) \<and> f x = Some (Inr y))"
  by (cases r; cases "the r") auto

lemma bind_opt_eq_None: "bind_opt r f = None \<longleftrightarrow> r = None \<or> (\<exists>x. r = Some (Inr x) \<and> f x = None)"
  by (cases r; cases "the r") auto

lemma bind_opt_returns:
  "\<exists>y. r = Some y \<Longrightarrow> (\<And>x. r = Some (Inr x) \<Longrightarrow> \<exists>y. f x = Some y) \<Longrightarrow> \<exists>y. bind_opt r f = Some y"
  by (cases r; cases "the r") auto

lemma bind_opt_cong [fundef_cong]:
  "r = r' \<Longrightarrow> (\<And>x. r' = Some (Inr x) \<Longrightarrow> f x = g x) \<Longrightarrow> bind_opt r f = bind_opt r' g"
  by (cases r'; cases "the r'") auto

section \<open>Integer operations of the standard library\<close>

definition saturating_sub :: "'a::len word \<Rightarrow> 'a word \<Rightarrow> 'a word" where
  "saturating_sub a b = (if a < b then 0 else a - b)"

definition saturating_add :: "'a::len word \<Rightarrow> 'a word \<Rightarrow> 'a word" where
  "saturating_add a b = (if unat a + unat b < 2 ^ LENGTH('a) then a + b else - 1)"

definition checked_sub :: "'a::len word \<Rightarrow> 'a word \<Rightarrow> 'a word option" where
  "checked_sub a b = (if b \<le> a then Some (a - b) else None)"

text \<open>\<open>u64::try_from\<close> and its kin: a narrowing that fails when the value does not fit.\<close>

definition try_narrow :: "'a::len word \<Rightarrow> 'b::len word option" where
  "try_narrow w = (if unat w < 2 ^ LENGTH('b) then Some (ucast w) else None)"

lemma unat_saturating_sub: "unat (saturating_sub a b) = unat a - unat b"
  by (auto simp: saturating_sub_def word_less_nat_alt unat_sub word_le_nat_alt)

lemma unat_saturating_add:
  "unat (saturating_add a (b :: 'a::len word)) = min (unat a + unat b) (2 ^ LENGTH('a) - 1)"
proof (cases "unat a + unat b < 2 ^ LENGTH('a)")
  case True
  then have "unat (a + b) = unat a + unat b"
    by (simp add: unat_word_ariths)
  with True show ?thesis by (simp add: saturating_add_def)
next
  case False
  then show ?thesis by (simp add: saturating_add_def unsigned_minus_1_eq_mask mask_eq_exp_minus_1)
qed

lemma checked_sub_Some: "checked_sub a b = Some c \<Longrightarrow> unat c = unat a - unat b \<and> unat b \<le> unat a"
  by (auto simp: checked_sub_def unat_sub word_le_nat_alt split: if_splits)

lemma try_narrow_Some:
  "try_narrow (w :: 'a::len word) = Some (v :: 'b::len word) \<Longrightarrow> unat v = unat w"
  by (auto simp: try_narrow_def unsigned_ucast_eq take_bit_nat_eq_self split: if_splits)

lemma unat_add_small: "unat a + unat b < 2 ^ LENGTH('a) \<Longrightarrow> unat (a + b) = unat a + unat (b :: 'a::len word)"
  by (simp add: unat_word_ariths)

lemma unat_mult_small: "unat a * unat b < 2 ^ LENGTH('a) \<Longrightarrow> unat (a * b) = unat a * unat (b :: 'a::len word)"
  by (simp add: unat_word_ariths)

lemma unat_pos_iff: "0 < unat w \<longleftrightarrow> 0 < (w :: 'a::len word)"
  by (simp add: word_less_nat_alt)

lemma unat_max: "unat (max a b) = max (unat a) (unat (b :: 'a::len word))"
  by (simp add: max_def word_le_nat_alt)

lemma unat_min: "unat (min a b) = min (unat a) (unat (b :: 'a::len word))"
  by (simp add: min_def word_le_nat_alt)

lemma unat_ucast_widen [simp]:
  "LENGTH('a) \<le> LENGTH('b) \<Longrightarrow> unat (ucast (w :: 'a::len word) :: 'b::len word) = unat w"
proof -
  assume "LENGTH('a) \<le> LENGTH('b)"
  then have "(2::nat) ^ LENGTH('a) \<le> 2 ^ LENGTH('b)" by simp
  with unsigned_less [of w, where ?'a = nat] have "unat w < 2 ^ LENGTH('b)"
    by (rule less_le_trans)
  then show ?thesis by (simp add: unsigned_ucast_eq take_bit_nat_eq_self)
qed

section \<open>Big-endian byte strings\<close>

text \<open>\<open>be_bytes n v\<close> is the low \<open>n\<close> bytes of \<open>v\<close>, most significant first.\<close>

fun be_bytes :: "nat \<Rightarrow> nat \<Rightarrow> bytes" where
  "be_bytes 0 v = []"
| "be_bytes (Suc n) v = of_nat (v div 256 ^ n) # be_bytes n v"

definition be_nat :: "bytes \<Rightarrow> nat" where
  "be_nat bs = foldl (\<lambda>a b. a * 256 + unat b) 0 bs"

lemma length_be_bytes [simp]: "length (be_bytes n v) = n"
  by (induction n) auto

lemma be_bytes_zero: "be_bytes n 0 = replicate n 0"
  by (induction n) auto

lemma drop_be_bytes: "drop k (be_bytes (k + n) v) = be_bytes n v"
  by (induction k) auto

lemma be_bytes_numeral:
  "be_bytes (numeral k) v = of_nat (v div 256 ^ pred_numeral k) # be_bytes (pred_numeral k) v"
  by (simp add: numeral_eq_Suc)

lemma be_nat_acc: "foldl (\<lambda>a b. a * 256 + unat b) c bs = c * 256 ^ length bs + be_nat bs"
proof (induction bs arbitrary: c)
  case Nil
  show ?case by (simp add: be_nat_def)
next
  case (Cons b bs)
  show ?case
    using Cons.IH [of "c * 256 + unat b"] Cons.IH [of "unat b"]
    by (simp add: be_nat_def algebra_simps)
qed

lemma be_nat_Nil [simp, byte_simps]: "be_nat [] = 0"
  by (simp add: be_nat_def)

lemma be_nat_Cons [simp, byte_simps]: "be_nat (b # bs) = unat b * 256 ^ length bs + be_nat bs"
  by (simp add: be_nat_def be_nat_acc [of "unat b"])

lemma unat_byte_less [simp]: "unat (b :: byte) < 256"
  using unsigned_less [of b, where ?'a = nat] by simp

lemma unat_of_nat_byte [simp]: "unat (of_nat v :: byte) = v mod 256"
  by (simp add: unat_of_nat)

lemma be_nat_less: "be_nat bs < 256 ^ length bs"
proof (induction bs)
  case Nil
  show ?case by simp
next
  case (Cons b bs)
  have "unat b + 1 \<le> 256" using unat_byte_less [of b] by linarith
  then have "(unat b + 1) * 256 ^ length bs \<le> 256 * 256 ^ length bs"
    by (rule mult_right_mono) simp
  then have "unat b * 256 ^ length bs + 256 ^ length bs \<le> 256 ^ length (b # bs)"
    by (simp only: distrib_right mult_1 length_Cons power_Suc)
  with Cons show ?case by (simp only: be_nat_Cons)
qed

lemma be_nat_be_bytes [simp]: "be_nat (be_bytes n v) = v mod 256 ^ n"
proof (induction n)
  case 0
  show ?case by simp
next
  case (Suc n)
  have "v mod (256 ^ n * 256) = 256 ^ n * (v div 256 ^ n mod 256) + v mod 256 ^ n"
    by (rule mod_mult2_eq)
  with Suc show ?case by (simp add: ac_simps)
qed

lemma be_bytes_be_nat: "be_bytes (length bs) (be_nat bs + k * 256 ^ length bs) = bs"
proof (induction bs arbitrary: k)
  case Nil
  show ?case by simp
next
  case (Cons b bs)
  have "(be_nat bs + (unat b + k * 256) * 256 ^ length bs) div 256 ^ length bs = unat b + k * 256"
    using be_nat_less [of bs] by simp
  moreover have "(of_nat (unat b + k * 256) :: byte) = b"
    by (rule word_unat_eq_iff [THEN iffD2]) (simp only: unat_of_nat_byte, simp)
  ultimately show ?case
    using Cons.IH [of "unat b + k * 256"] by (simp add: algebra_simps)
qed

lemma be_bytes_inverse: "length bs = n \<Longrightarrow> be_bytes n (be_nat bs) = bs"
  using be_bytes_be_nat [of bs 0] by simp

lemma be_nat_append: "be_nat (xs @ ys) = be_nat xs * 256 ^ length ys + be_nat ys"
  by (induction xs) (auto simp: algebra_simps power_add)

section \<open>Lists\<close>

text \<open>\<open>Read::read_exact\<close> on a cursor over a slice, seen through what is left to read.\<close>

definition take_exact :: "nat \<Rightarrow> 'a list \<Rightarrow> ('a list \<times> 'a list) option" where
  "take_exact n xs = (if n \<le> length xs then Some (take n xs, drop n xs) else None)"

lemma take_exact_append [simp]: "length xs = n \<Longrightarrow> take_exact n (xs @ ys) = Some (xs, ys)"
  by (simp add: take_exact_def)

lemma take_exact_SomeD:
  "take_exact n xs = Some (ys, zs) \<Longrightarrow> xs = ys @ zs \<and> length ys = n"
  by (auto simp: take_exact_def split: if_splits)

lemma take_exact_0 [simp]: "take_exact 0 xs = Some ([], xs)"
  by (simp add: take_exact_def)

lemma take_exact_Suc_Cons [simp]:
  "take_exact (Suc n) (x # xs) = map_option (\<lambda>(ys, zs). (x # ys, zs)) (take_exact n xs)"
  by (simp add: take_exact_def)

end
