(* ===== verification/ChiaSerialize.thy ===== *)
theory ChiaSerialize
  imports XchPrelude
begin

text \<open>
  The streamable wire format of \<^verbatim>\<open>serialize/src/lib.rs\<close>. A decoder takes what is left of the cursor
  and returns the value with what is left after it; an encoder returns the bytes. The trait
  \<^verbatim>\<open>ChiaSerialize\<close> is the locale \<open>chia_codec\<close>: decoding inverts encoding whatever follows, and the
  only bytes a decoder accepts are those its encoder writes. The instances of the source are
  interpretations of it, and the generic instances (\<^verbatim>\<open>Option\<close>, pairs, triples, \<^verbatim>\<open>Vec\<close>) are proved once
  inside it for any element type.
\<close>

datatype error_kind = InvalidInput | InvalidData | UnexpectedEof | Other

datatype io_error = IoError error_kind string

type_synonym 'a encoder = "'a \<Rightarrow> io_error + bytes"
type_synonym 'a decoder = "bytes \<Rightarrow> io_error + 'a \<times> bytes"

section \<open>Readers and instances\<close>

text \<open>\<^verbatim>\<open>Cursor::read_exact\<close> into a buffer of \<open>n\<close> bytes.\<close>

definition read_exact :: "nat \<Rightarrow> bytes decoder" where
  "read_exact n bs = ok_or (take_exact n bs) (IoError UnexpectedEof ''failed to fill whole buffer'')"

text \<open>\<^verbatim>\<open>from_bytes_exact\<close>: the whole buffer has to be consumed.\<close>

definition from_bytes_exact :: "'a decoder \<Rightarrow> bytes \<Rightarrow> io_error + 'a" where
  "from_bytes_exact dec bs =
     bind_res (dec bs) (\<lambda>(x, rest).
       if rest \<noteq> [] then Inl (IoError InvalidData ''bytes not consumed'') else Inr x)"

text \<open>\<^verbatim>\<open>impl_primitives\<close>: every fixed-width integer, by its bit pattern.\<close>

definition uint_to_bytes :: "'a::len word encoder" where
  "uint_to_bytes w = Inr (be_bytes (LENGTH('a) div 8) (unat w))"

definition uint_from_bytes :: "'a::len word decoder" where
  "uint_from_bytes bs =
     (if length bs < LENGTH('a) div 8 then Inl (IoError InvalidInput ''Failed to Parse'')
      else bind_res (read_exact (LENGTH('a) div 8) bs) (\<lambda>(buf, rest). Inr (of_nat (be_nat buf), rest)))"

text \<open>\<^verbatim>\<open>impl_arrays\<close>: a byte array of a fixed length.\<close>

definition array_to_bytes :: "bytes encoder" where
  "array_to_bytes a = Inr a"

definition array_from_bytes :: "nat \<Rightarrow> bytes decoder" where
  "array_from_bytes n bs =
     (if length bs < n then Inl (IoError InvalidInput ''Failed to Parse'') else read_exact n bs)"

text \<open>\<^verbatim>\<open>impl_nz_primitives\<close>: the zero pattern is refused.\<close>

definition nz_to_bytes :: "'a::len word encoder" where
  "nz_to_bytes w = Inr (be_bytes (LENGTH('a) div 8) (unat w))"

definition nz_from_bytes :: "'a::len word decoder" where
  "nz_from_bytes bs =
     bind_res (read_exact (LENGTH('a) div 8) bs) (\<lambda>(buf, rest).
       let v = of_nat (be_nat buf) :: 'a word
       in if v = 0 then Inl (IoError InvalidData ''cannot be zero'') else Inr (v, rest))"

definition bool_to_bytes :: "bool encoder" where
  "bool_to_bytes b = Inr [if b then 1 else 0]"

definition bool_from_bytes :: "bool decoder" where
  "bool_from_bytes bs =
     bind_res (read_exact 1 bs) (\<lambda>(buf, rest).
       if buf = [0] then Inr (False, rest)
       else if buf = [1] then Inr (True, rest)
       else Inl (IoError InvalidInput ''Failed to parse bool''))"

definition option_to_bytes :: "'a encoder \<Rightarrow> 'a option encoder" where
  "option_to_bytes enc x =
     (case x of
        Some t \<Rightarrow> bind_res (enc t) (\<lambda>bs. Inr (1 # bs))
      | None \<Rightarrow> Inr [0])"

definition option_from_bytes :: "'a decoder \<Rightarrow> 'a option decoder" where
  "option_from_bytes dec bs =
     bind_res (read_exact 1 bs) (\<lambda>(buf, rest).
       if buf = [0] then Inr (None, rest)
       else if buf = [1] then bind_res (dec rest) (\<lambda>(t, rest'). Inr (Some t, rest'))
       else Inl (IoError InvalidInput ''Optional must be 0 or 1''))"

definition pair_to_bytes :: "'a encoder \<Rightarrow> 'b encoder \<Rightarrow> ('a \<times> 'b) encoder" where
  "pair_to_bytes enc1 enc2 p =
     bind_res (enc1 (fst p)) (\<lambda>b1. bind_res (enc2 (snd p)) (\<lambda>b2. Inr (b1 @ b2)))"

definition pair_from_bytes :: "'a decoder \<Rightarrow> 'b decoder \<Rightarrow> ('a \<times> 'b) decoder" where
  "pair_from_bytes dec1 dec2 bs =
     bind_res (dec1 bs) (\<lambda>(t, bs1). bind_res (dec2 bs1) (\<lambda>(u, bs2). Inr ((t, u), bs2)))"

definition triple_to_bytes :: "'a encoder \<Rightarrow> 'b encoder \<Rightarrow> 'c encoder \<Rightarrow> ('a \<times> 'b \<times> 'c) encoder" where
  "triple_to_bytes enc1 enc2 enc3 p =
     bind_res (enc1 (fst p)) (\<lambda>b1. bind_res (enc2 (fst (snd p))) (\<lambda>b2.
       bind_res (enc3 (snd (snd p))) (\<lambda>b3. Inr (b1 @ b2 @ b3))))"

definition triple_from_bytes :: "'a decoder \<Rightarrow> 'b decoder \<Rightarrow> 'c decoder \<Rightarrow> ('a \<times> 'b \<times> 'c) decoder" where
  "triple_from_bytes dec1 dec2 dec3 bs =
     bind_res (dec1 bs) (\<lambda>(t, bs1). bind_res (dec2 bs1) (\<lambda>(u, bs2).
       bind_res (dec3 bs2) (\<lambda>(v, bs3). Inr ((t, u, v), bs3))))"

text \<open>The element loops of \<^verbatim>\<open>Vec\<close>: writing every element, reading \<open>n\<close> of them.\<close>

fun encode_all :: "'a encoder \<Rightarrow> 'a list encoder" where
  "encode_all enc [] = Inr []"
| "encode_all enc (x # xs) =
     bind_res (enc x) (\<lambda>b. bind_res (encode_all enc xs) (\<lambda>bs. Inr (b @ bs)))"

fun parse_n :: "'a decoder \<Rightarrow> nat \<Rightarrow> 'a list decoder" where
  "parse_n dec 0 bs = Inr ([], bs)"
| "parse_n dec (Suc n) bs =
     bind_res (dec bs) (\<lambda>(x, bs1). bind_res (parse_n dec n bs1) (\<lambda>(xs, bs2). Inr (x # xs, bs2)))"

text \<open>The length goes through \<^verbatim>\<open>self.len() as u32\<close>, which truncates.\<close>

definition vec_to_bytes :: "'a encoder \<Rightarrow> 'a list encoder" where
  "vec_to_bytes enc xs =
     bind_res (encode_all enc xs) (\<lambda>bs. Inr (be_bytes 4 (unat (of_nat (length xs) :: u32)) @ bs))"

definition vec_from_bytes :: "'a decoder \<Rightarrow> 'a list decoder" where
  "vec_from_bytes dec bs =
     bind_res (read_exact 4 bs) (\<lambda>(buf, rest). parse_n dec (unat (of_nat (be_nat buf) :: u32)) rest)"

text \<open>
  \<^verbatim>\<open>parse_vec_limited\<close>: at most \<open>max_items\<close> elements are parsed. With a fixed element size the rest is
  skipped by moving the cursor, clamped to the end of the buffer; the product saturates at the
  largest \<open>u64\<close>, which no buffer reaches.
\<close>

definition parse_vec_limited :: "'a decoder \<Rightarrow> u32 \<Rightarrow> u64 option \<Rightarrow> 'a list decoder" where
  "parse_vec_limited dec max_items element_fixed_size bs =
     bind_res (read_exact 4 bs) (\<lambda>(buf, rest0).
       let claimed = of_nat (be_nat buf) :: u32;
           to_parse = min claimed max_items;
           remaining = claimed - to_parse
       in bind_res (parse_n dec (unat to_parse) rest0) (\<lambda>(out, rest).
            if remaining > 0 then
              (case element_fixed_size of
                 Some sz \<Rightarrow> Inr (out, drop (min (unat remaining * unat sz) (2 ^ 64 - 1)) rest)
               | None \<Rightarrow> bind_res (parse_n dec (unat remaining) rest) (\<lambda>(_, rest'). Inr (out, rest')))
            else Inr (out, rest)))"

section \<open>The trait as an interface\<close>

text \<open>
  \<open>valid\<close> is the set of values the Rust type has (a byte array of its length, a non-zero integer,
  a vector whose length fits the prefix).
\<close>

locale chia_codec =
  fixes valid :: "'a \<Rightarrow> bool"
    and enc :: "'a encoder"
    and dec :: "'a decoder"
  assumes enc_total: "valid x \<Longrightarrow> is_ok (enc x)"
    and roundtrip: "valid x \<Longrightarrow> enc x = Inr bs \<Longrightarrow> dec (bs @ rest) = Inr (x, rest)"
    and canonical: "dec bs = Inr (x, rest) \<Longrightarrow> valid x \<and> (\<exists>p. enc x = Inr p \<and> bs = p @ rest)"
begin

lemma exact_iff: "from_bytes_exact dec bs = Inr x \<longleftrightarrow> valid x \<and> enc x = Inr bs"
proof
  assume "from_bytes_exact dec bs = Inr x"
  then have "dec bs = Inr (x, [])" by (auto simp: from_bytes_exact_def split: if_splits)
  from canonical [OF this] show "valid x \<and> enc x = Inr bs" by auto
next
  assume "valid x \<and> enc x = Inr bs"
  with roundtrip [of x bs "[]"] show "from_bytes_exact dec bs = Inr x"
    by (simp add: from_bytes_exact_def)
qed

lemma enc_inj: "valid x \<Longrightarrow> valid y \<Longrightarrow> enc x = Inr bs \<Longrightarrow> enc y = Inr bs \<Longrightarrow> x = y"
  using exact_iff by (metis sum.inject(2))

lemma suffix: "dec bs = Inr (x, rest) \<Longrightarrow> length rest \<le> length bs"
  using canonical by fastforce

lemma parse_n_roundtrip:
  "\<forall>x \<in> set xs. valid x \<Longrightarrow> encode_all enc xs = Inr bs \<Longrightarrow>
   parse_n dec (length xs) (bs @ rest) = Inr (xs, rest)"
  by (induction xs arbitrary: bs) (auto simp: roundtrip)

lemma parse_n_canonical:
  "parse_n dec n bs = Inr (xs, rest) \<Longrightarrow>
   length xs = n \<and> (\<forall>x \<in> set xs. valid x) \<and> (\<exists>p. encode_all enc xs = Inr p \<and> bs = p @ rest)"
proof (induction n arbitrary: bs xs)
  case 0
  then show ?case by simp
next
  case (Suc n)
  then obtain x bs1 ys where x: "dec bs = Inr (x, bs1)"
    and ys: "parse_n dec n bs1 = Inr (ys, rest)" and xs: "xs = x # ys"
    by (auto split: prod.splits)
  from canonical [OF x] Suc.IH [OF ys] xs show ?case by fastforce
qed

lemma encode_all_total: "\<forall>x \<in> set xs. valid x \<Longrightarrow> is_ok (encode_all enc xs)"
  by (induction xs) (auto elim!: is_okE dest!: enc_total)

lemma parse_n_append:
  "parse_n dec (n + m) bs =
   bind_res (parse_n dec n bs) (\<lambda>(ys, mid).
     bind_res (parse_n dec m mid) (\<lambda>(zs, rest). Inr (ys @ zs, rest)))"
proof (induction n arbitrary: bs)
  case 0
  show ?case by (cases "parse_n dec m bs") auto
next
  case (Suc n)
  then show ?case by (simp add: bind_res_def split: sum.splits prod.splits)
qed

end

section \<open>Instances\<close>

lemma read_exact_append [simp]: "length xs = n \<Longrightarrow> read_exact n (xs @ ys) = Inr (xs, ys)"
  by (simp add: read_exact_def)

lemma read_exact_InrD: "read_exact n bs = Inr (xs, ys) \<Longrightarrow> bs = xs @ ys \<and> length xs = n"
  by (auto simp: read_exact_def dest: take_exact_SomeD)

lemma read_exact_1:
  "read_exact (Suc 0) bs = (case bs of [] \<Rightarrow> Inl (IoError UnexpectedEof ''failed to fill whole buffer'')
     | b # r \<Rightarrow> Inr ([b], r))"
  by (cases bs) (simp_all add: read_exact_def take_exact_def)

definition byte_width :: "'a::len itself \<Rightarrow> bool" where
  "byte_width _ \<longleftrightarrow> (2::nat) ^ LENGTH('a) = 256 ^ (LENGTH('a) div 8)"

lemma unat_mod_width [simp]: "byte_width TYPE('a) \<Longrightarrow> unat (w :: 'a::len word) mod 256 ^ (LENGTH('a) div 8) = unat w"
  using unsigned_less [of w, where ?'a = nat] by (simp add: byte_width_def)

lemma unat_of_be_nat:
  "byte_width TYPE('a) \<Longrightarrow> length bs = LENGTH('a) div 8 \<Longrightarrow> unat (of_nat (be_nat bs) :: 'a::len word) = be_nat bs"
  using be_nat_less [of bs] by (simp add: byte_width_def unat_of_nat)

lemma uint_codec:
  assumes "byte_width TYPE('a::len)"
  shows "chia_codec (\<lambda>_. True) (uint_to_bytes :: 'a word encoder) uint_from_bytes"
proof (unfold_locales, goal_cases)
  case (1 x)
  show ?case by (simp add: uint_to_bytes_def)
next
  case (2 x bs rest)
  with assms show ?case by (auto simp: uint_to_bytes_def uint_from_bytes_def)
next
  case (3 bs x rest)
  with assms show ?case
    by (auto simp: uint_to_bytes_def uint_from_bytes_def unat_of_be_nat be_bytes_inverse
        dest!: read_exact_InrD split: if_splits prod.splits)
qed

lemma byte_widths [simp]:
  "byte_width TYPE(8)" "byte_width TYPE(16)" "byte_width TYPE(32)" "byte_width TYPE(64)"
  "byte_width TYPE(128)"
  by (simp_all add: byte_width_def)

interpretation u8c: chia_codec "\<lambda>_. True" "uint_to_bytes :: u8 encoder" uint_from_bytes
  by (rule uint_codec) simp

interpretation u16c: chia_codec "\<lambda>_. True" "uint_to_bytes :: u16 encoder" uint_from_bytes
  by (rule uint_codec) simp

interpretation u32c: chia_codec "\<lambda>_. True" "uint_to_bytes :: u32 encoder" uint_from_bytes
  by (rule uint_codec) simp

interpretation u64c: chia_codec "\<lambda>_. True" "uint_to_bytes :: u64 encoder" uint_from_bytes
  by (rule uint_codec) simp

interpretation u128c: chia_codec "\<lambda>_. True" "uint_to_bytes :: u128 encoder" uint_from_bytes
  by (rule uint_codec) simp

interpretation arrayc: chia_codec "\<lambda>a. length a = n" array_to_bytes "array_from_bytes n" for n
  by unfold_locales
    (auto simp: array_to_bytes_def array_from_bytes_def dest!: read_exact_InrD split: if_splits)

interpretation boolc: chia_codec "\<lambda>_. True" bool_to_bytes bool_from_bytes
proof (unfold_locales, goal_cases)
  case (1 x)
  show ?case by (simp add: bool_to_bytes_def)
next
  case (2 x bs rest)
  then have "bs = [if x then 1 else 0]" by (simp add: bool_to_bytes_def)
  then show ?case by (simp add: bool_from_bytes_def read_exact_1)
next
  case (3 bs x rest)
  then show ?case
    by (cases bs) (simp_all add: bool_to_bytes_def bool_from_bytes_def read_exact_1 split: if_splits)
qed

lemma nz_codec:
  assumes "byte_width TYPE('a::len)"
  shows "chia_codec (\<lambda>w. w \<noteq> 0) (nz_to_bytes :: 'a word encoder) nz_from_bytes"
proof (unfold_locales, goal_cases)
  case (1 x)
  show ?case by (simp add: nz_to_bytes_def)
next
  case (2 x bs rest)
  with assms show ?case by (auto simp: nz_to_bytes_def nz_from_bytes_def)
next
  case (3 bs x rest)
  with assms show ?case
    by (auto simp: nz_to_bytes_def nz_from_bytes_def Let_def unat_of_be_nat be_bytes_inverse
        dest!: read_exact_InrD split: if_splits prod.splits)
qed

interpretation nz64c: chia_codec "\<lambda>w. w \<noteq> 0" "nz_to_bytes :: u64 encoder" nz_from_bytes
  by (rule nz_codec) simp

text \<open>The generic instances, for any element that is a codec.\<close>

definition vec_valid :: "('a \<Rightarrow> bool) \<Rightarrow> 'a list \<Rightarrow> bool" where
  "vec_valid valid xs \<longleftrightarrow> length xs < 2 ^ 32 \<and> (\<forall>x \<in> set xs. valid x)"

lemma unat_vec_len [simp]: "length xs < 2 ^ 32 \<Longrightarrow> unat (of_nat (length xs) :: u32) = length xs"
  by (simp add: unat_of_nat)

lemma unat_vec_prefix [simp]: "length buf = 4 \<Longrightarrow> unat (of_nat (be_nat buf) :: u32) = be_nat buf"
  using unat_of_be_nat [of buf, where ?'a = 32] by simp

lemma unat_len_mod [simp]: "unat (w :: u32) mod 256 ^ 4 = unat w"
  using unat_mod_width [of w] by simp

context chia_codec
begin

lemma option_codec:
  "chia_codec (\<lambda>x. \<forall>y. x = Some y \<longrightarrow> valid y) (option_to_bytes enc) (option_from_bytes dec)"
proof (unfold_locales, goal_cases)
  case (1 x)
  then show ?case by (cases x) (auto simp: option_to_bytes_def elim!: is_okE dest!: enc_total)
next
  case (2 x bs rest)
  show ?case
  proof (cases x)
    case None
    with 2(2) have "bs = [0]" by (simp add: option_to_bytes_def)
    with None show ?thesis by (simp add: option_from_bytes_def read_exact_1)
  next
    case (Some t)
    with 2 obtain p where "valid t" "enc t = Inr p" "bs = 1 # p" by (auto simp: option_to_bytes_def)
    with Some roundtrip [of t p rest] show ?thesis by (simp add: option_from_bytes_def read_exact_1)
  qed
next
  case (3 bs x rest)
  then obtain b r where bs: "bs = b # r"
    by (cases bs) (simp_all add: option_from_bytes_def read_exact_1)
  consider (none) "b = 0" "x = None" "r = rest"
    | (some) t where "b = 1" "x = Some t" "dec r = Inr (t, rest)"
    using 3 by (auto simp: bs option_from_bytes_def read_exact_1 split: if_splits)
  then show ?case
    by cases (auto simp: bs option_to_bytes_def dest!: canonical)
qed

lemma vec_codec: "chia_codec (vec_valid valid) (vec_to_bytes enc) (vec_from_bytes dec)"
proof (unfold_locales, goal_cases)
  case (1 xs)
  then have "is_ok (encode_all enc xs)" by (simp add: vec_valid_def encode_all_total)
  then show ?case by (auto simp: vec_to_bytes_def)
next
  case (2 xs bs rest)
  then obtain p where p: "encode_all enc xs = Inr p"
    and bs: "bs = be_bytes 4 (unat (of_nat (length xs) :: u32)) @ p"
    by (auto simp: vec_to_bytes_def)
  from 2(1) have "length xs < 2 ^ 32" "\<forall>x \<in> set xs. valid x" by (auto simp: vec_valid_def)
  with p bs parse_n_roundtrip [of xs p rest] show ?case by (simp add: vec_from_bytes_def)
next
  case (3 bs xs rest)
  then obtain buf r where buf: "bs = buf @ r" "length buf = 4"
    and r: "parse_n dec (unat (of_nat (be_nat buf) :: u32)) r = Inr (xs, rest)"
    by (auto simp: vec_from_bytes_def dest: read_exact_InrD)
  have "be_nat buf < 2 ^ 32" using be_nat_less [of buf] buf(2) by simp
  with parse_n_canonical [OF r] buf show ?case
    by (auto simp: vec_valid_def vec_to_bytes_def be_bytes_inverse)
qed

end

lemma pair_codec:
  assumes "chia_codec valid1 enc1 dec1" "chia_codec valid2 enc2 dec2"
  shows "chia_codec (\<lambda>(x, y). valid1 x \<and> valid2 y) (pair_to_bytes enc1 enc2) (pair_from_bytes dec1 dec2)"
proof (unfold_locales, goal_cases)
  case (1 p)
  then show ?case
    by (auto simp: pair_to_bytes_def elim!: is_okE
        dest!: chia_codec.enc_total [OF assms(1)] chia_codec.enc_total [OF assms(2)])
next
  case (2 p bs rest)
  then show ?case
    by (auto simp: pair_to_bytes_def pair_from_bytes_def
        chia_codec.roundtrip [OF assms(1)] chia_codec.roundtrip [OF assms(2)])
next
  case (3 bs p rest)
  then show ?case
    by (fastforce simp: pair_to_bytes_def pair_from_bytes_def
        dest!: chia_codec.canonical [OF assms(1)] chia_codec.canonical [OF assms(2)] split: prod.splits)
qed

text \<open>A triple is a pair whose second component is a pair, byte for byte.\<close>

lemma triple_is_nested_pair:
  "triple_to_bytes enc1 enc2 enc3 = pair_to_bytes enc1 (pair_to_bytes enc2 enc3)"
  "triple_from_bytes dec1 dec2 dec3 = pair_from_bytes dec1 (pair_from_bytes dec2 dec3)"
  by (auto simp: triple_to_bytes_def pair_to_bytes_def triple_from_bytes_def pair_from_bytes_def
      bind_res_def fun_eq_iff split: sum.splits prod.splits)

text \<open>\<^verbatim>\<open>ConfigureWindowSizes\<close> carries a \<^verbatim>\<open>Vec<(u8, u16)>\<close>.\<close>

lemma window_entry_codec:
  "chia_codec (\<lambda>_. True) (pair_to_bytes uint_to_bytes uint_to_bytes :: (u8 \<times> u16) encoder)
     (pair_from_bytes uint_from_bytes uint_from_bytes)"
  using pair_codec [OF u8c.chia_codec_axioms u16c.chia_codec_axioms] by (simp add: case_prod_unfold)

interpretation window_entry: chia_codec "\<lambda>_. True"
  "pair_to_bytes uint_to_bytes uint_to_bytes :: (u8 \<times> u16) encoder"
  "pair_from_bytes uint_from_bytes uint_from_bytes"
  by (rule window_entry_codec)

section \<open>Decoding a limited vector\<close>

text \<open>An element type whose encodings all have the same length.\<close>

locale fixed_codec = chia_codec +
  fixes width :: nat
  assumes enc_width: "valid x \<Longrightarrow> enc x = Inr bs \<Longrightarrow> length bs = width"
begin

lemma encode_all_width:
  "\<forall>x \<in> set xs. valid x \<Longrightarrow> encode_all enc xs = Inr bs \<Longrightarrow> length bs = length xs * width"
  by (induction xs arbitrary: bs) (auto dest: enc_width)

lemma parse_n_skip:
  "parse_n dec n bs = Inr (xs, rest) \<Longrightarrow> drop (n * width) bs = rest \<and> n * width \<le> length bs"
  using parse_n_canonical encode_all_width by fastforce

end

interpretation window_entry_fixed: fixed_codec "\<lambda>_. True"
  "pair_to_bytes uint_to_bytes uint_to_bytes :: (u8 \<times> u16) encoder"
  "pair_from_bytes uint_from_bytes uint_from_bytes" 3
  by unfold_locales (auto simp: pair_to_bytes_def uint_to_bytes_def)

interpretation array_fixed: fixed_codec "\<lambda>a. length a = n" array_to_bytes "array_from_bytes n" n for n
  by unfold_locales (simp add: array_to_bytes_def)

context chia_codec
begin

lemma limited_prefix:
  assumes "vec_from_bytes dec bs = Inr (xs, rest)"
  obtains buf r0 mid where "read_exact 4 bs = Inr (buf, r0)"
    and "parse_n dec (unat (min (of_nat (be_nat buf)) m :: u32)) r0 = Inr (take (unat m) xs, mid)"
    and "parse_n dec (unat (of_nat (be_nat buf) - min (of_nat (be_nat buf)) m :: u32)) mid
           = Inr (drop (unat m) xs, rest)"
proof -
  from assms obtain buf r0 where buf: "read_exact 4 bs = Inr (buf, r0)"
    and r0: "parse_n dec (unat (of_nat (be_nat buf) :: u32)) r0 = Inr (xs, rest)"
    by (auto simp: vec_from_bytes_def)
  define c where "c = (of_nat (be_nat buf) :: u32)"
  have split: "unat c = unat (min c m) + unat (c - min c m)"
    by (simp add: unat_sub min_def word_le_nat_alt)
  have len: "length xs = unat c" using parse_n_canonical [OF r0] by (simp add: c_def)
  have "parse_n dec (unat (min c m) + unat (c - min c m)) r0 = Inr (xs, rest)"
    using r0 by (simp only: c_def [symmetric] split [symmetric])
  then obtain ys zs mid where
    ys: "parse_n dec (unat (min c m)) r0 = Inr (ys, mid)" and
    zs: "parse_n dec (unat (c - min c m)) mid = Inr (zs, rest)" and xs: "xs = ys @ zs"
    by (auto simp: parse_n_append)
  have lens: "length ys = unat (min c m)" "length zs = unat (c - min c m)"
    using parse_n_canonical [OF ys] parse_n_canonical [OF zs] by auto
  have "length ys \<le> unat m" by (simp add: lens(1) min_def word_le_nat_alt)
  moreover have "zs = []" if "length ys \<noteq> unat m"
  proof -
    from that have "c \<le> m" by (simp add: lens(1) min_def split: if_splits)
    then show ?thesis using lens(2) by simp
  qed
  ultimately have "take (unat m) xs = ys" "drop (unat m) xs = zs"
    unfolding xs by (cases "length ys = unat m"; simp)+
  with that [OF buf] ys zs show ?thesis by (simp add: c_def)
qed

lemma limited_variable:
  assumes "vec_from_bytes dec bs = Inr (xs, rest)"
  shows "parse_vec_limited dec m None bs = Inr (take (unat m) xs, rest)"
proof -
  obtain buf r0 mid where *: "read_exact 4 bs = Inr (buf, r0)"
    "parse_n dec (unat (min (of_nat (be_nat buf)) m :: u32)) r0 = Inr (take (unat m) xs, mid)"
    "parse_n dec (unat (of_nat (be_nat buf) - min (of_nat (be_nat buf)) m :: u32)) mid
       = Inr (drop (unat m) xs, rest)"
    using assms by (rule limited_prefix)
  then show ?thesis by (cases "of_nat (be_nat buf) - min (of_nat (be_nat buf)) m = (0 :: u32)")
      (simp_all add: parse_vec_limited_def Let_def word_gt_0)
qed

end

context fixed_codec
begin

lemma limited_fixed:
  assumes "vec_from_bytes dec bs = Inr (xs, rest)" and "unat sz = width" and "length bs < 2 ^ 63"
  shows "parse_vec_limited dec m (Some sz) bs = Inr (take (unat m) xs, rest)"
proof -
  obtain buf r0 mid where *: "read_exact 4 bs = Inr (buf, r0)"
    "parse_n dec (unat (min (of_nat (be_nat buf)) m :: u32)) r0 = Inr (take (unat m) xs, mid)"
    "parse_n dec (unat (of_nat (be_nat buf) - min (of_nat (be_nat buf)) m :: u32)) mid
       = Inr (drop (unat m) xs, rest)"
    using assms(1) by (rule limited_prefix)
  let ?k = "unat (of_nat (be_nat buf) - min (of_nat (be_nat buf)) m :: u32)"
  have skip: "drop (?k * width) mid = rest" "?k * width \<le> length mid"
    using parse_n_skip [OF *(3)] by auto
  have "length mid \<le> length r0" using parse_n_canonical [OF *(2)] by auto
  moreover have "length r0 \<le> length bs" using read_exact_InrD [OF *(1)] by simp
  ultimately have "?k * width < 2 ^ 64 - 1" using skip(2) assms(3) by simp
  then show ?thesis
    using * skip(1) assms(2)
    by (cases "of_nat (be_nat buf) - min (of_nat (be_nat buf)) m = (0 :: u32)")
      (simp_all add: parse_vec_limited_def Let_def word_gt_0 min_absorb1)
qed

end

section \<open>What the format guarantees\<close>

text \<open>
  C5: for any element type that is a codec, decoding a whole buffer as a vector is exactly the
  inverse of encoding: the decoder returns \<open>xs\<close> if and only if \<open>xs\<close> fits the length prefix and the
  buffer is, byte for byte, what the encoder writes for it. So no two buffers decode to the same
  vector and no valid vector is refused.
\<close>

theorem vec_exact_iff:
  assumes "chia_codec valid enc dec"
  shows "from_bytes_exact (vec_from_bytes dec) bs = Inr xs \<longleftrightarrow>
         vec_valid valid xs \<and> vec_to_bytes enc xs = Inr bs"
  by (rule chia_codec.exact_iff [OF chia_codec.vec_codec [OF assms]])

lemma vec_exact_iff_witness:
  "from_bytes_exact (vec_from_bytes uint_from_bytes) [0, 0, 0, 1, 7, 9] = Inr [1801 :: u16]"
proof -
  have "vec_to_bytes uint_to_bytes [1801 :: u16] = Inr [0, 0, 0, 1, 7, 9]"
    by (simp add: vec_to_bytes_def uint_to_bytes_def be_bytes_numeral)
  then show ?thesis
    using vec_exact_iff [OF u16c.chia_codec_axioms, of "[0, 0, 0, 1, 7, 9]" "[1801]"]
    by (simp add: vec_valid_def)
qed

text \<open>
  On a buffer that holds a complete vector, the bounded decoder returns the first \<open>m\<close> elements
  and leaves the cursor where the full decoder leaves it, both when it skips the tail by its fixed
  size and when it has to parse the tail.
\<close>

lemma parse_vec_limited_agrees:
  assumes "fixed_codec valid enc dec width" and "unat sz = width"
    and "vec_from_bytes dec bs = Inr (xs, rest)" and "length bs < 2 ^ 63"
  shows "parse_vec_limited dec m (Some sz) bs = Inr (take (unat m) xs, rest) \<and>
         parse_vec_limited dec m None bs = Inr (take (unat m) xs, rest)"
proof -
  have "chia_codec valid enc dec" using assms(1) by (simp add: fixed_codec_def)
  with assms show ?thesis
    by (simp add: fixed_codec.limited_fixed chia_codec.limited_variable)
qed

lemma parse_vec_limited_agrees_witness:
  "parse_vec_limited (array_from_bytes 2) 1 (Some 2) [0, 0, 0, 2, 5, 6, 7, 8, 9] = Inr ([[5, 6]], [9])"
proof -
  have w: "unat (2 :: u64) = 2" by simp
  have d: "vec_from_bytes (array_from_bytes 2) [0, 0, 0, 2, 5, 6, 7, 8, 9] = Inr ([[5, 6], [7, 8]], [9])"
    by code_simp
  show ?thesis
    using parse_vec_limited_agrees [OF array_fixed.fixed_codec_axioms w d, of 1] by simp
qed

end
