(* ===== verification/ClvmSize.thy ===== *)
theory ClvmSize
  imports ChiaSerialize
begin

text \<open>
  The length prefix of a CLVM atom: \<^verbatim>\<open>encode_size\<close> and \<^verbatim>\<open>decode_size\<close> of \<^verbatim>\<open>serialize/src/lib.rs\<close>. The
  number of leading one bits of the first byte is the number of prefix bytes; the remaining bits
  and the following bytes are the length, big-endian.
\<close>

definition MAX_DECODE_SIZE :: u64 where "MAX_DECODE_SIZE = 0x400000000"
definition CONS_BOX_MARKER :: u8 where "CONS_BOX_MARKER = 0xff"
definition MAX_SINGLE_BYTE :: u8 where "MAX_SINGLE_BYTE = 0x7f"

definition encode_size :: "u64 \<Rightarrow> io_error + bytes" where
  "encode_size sz =
     (if sz < 0x40 then Inr [ucast (0x80 OR sz)]
      else if sz < 0x2000 then
        Inr [ucast (0xc0 OR drop_bit 8 sz), ucast (sz AND 0xff)]
      else if sz < 0x100000 then
        Inr [ucast (0xe0 OR drop_bit 16 sz), ucast (drop_bit 8 sz AND 0xff), ucast (sz AND 0xff)]
      else if sz < 0x8000000 then
        Inr [ucast (0xf0 OR drop_bit 24 sz), ucast (drop_bit 16 sz AND 0xff),
             ucast (drop_bit 8 sz AND 0xff), ucast (sz AND 0xff)]
      else if sz < 0x400000000 then
        Inr [ucast (0xf8 OR drop_bit 32 sz), ucast (drop_bit 24 sz AND 0xff),
             ucast (drop_bit 16 sz AND 0xff), ucast (drop_bit 8 sz AND 0xff), ucast (sz AND 0xff)]
      else Inl (IoError InvalidData ''atom too big''))"

text \<open>The loop over the leading one bits: the byte with those bits cleared, and their number.\<close>

lemma drop_bit_1_less: "b AND m \<noteq> 0 \<Longrightarrow> unat (drop_bit 1 m) < unat (m :: u8)"
proof -
  assume "b AND m \<noteq> 0"
  then have "m \<noteq> 0" by auto
  then have "0 < unat m" by (simp add: unat_gt_0)
  moreover have "unat (drop_bit 1 m) = unat m div 2"
    by (simp only: unat_drop_bit_eq) (simp add: drop_bit_eq_div)
  ultimately show ?thesis by simp
qed

function size_prefix :: "u8 \<Rightarrow> u8 \<Rightarrow> nat \<Rightarrow> u8 \<times> nat" where
  "size_prefix b bit_mask bit_count =
     (if b AND bit_mask \<noteq> 0
      then size_prefix (b AND (0xff XOR bit_mask)) (drop_bit 1 bit_mask) (bit_count + 1)
      else (b, bit_count))"
  by pat_completeness auto
termination
  by (relation "measure (\<lambda>(b, bit_mask, bit_count). unat bit_mask)") (auto dest: drop_bit_1_less)

declare size_prefix.simps [simp del]

text \<open>\<^verbatim>\<open>v <<= 8; v += u64::from(b)\<close> over the size bytes.\<close>

definition size_value :: "bytes \<Rightarrow> u64" where
  "size_value blob = foldl (\<lambda>v b. push_bit 8 v + ucast b) 0 blob"

definition decode_size :: "bytes \<Rightarrow> u8 \<Rightarrow> io_error + u64 \<times> bytes" where
  "decode_size stream initial_b =
     (if initial_b AND 0x80 = 0 then Inl (IoError InvalidInput ''bad encoding'')
      else let (b, bit_count) = size_prefix initial_b 0x80 0
        in bind_res (if bit_count > 1 then read_exact (bit_count - 1) stream else Inr ([], stream))
             (\<lambda>(tail, rest).
               if bit_count > 6 then Inl (IoError InvalidInput ''bad encoding'')
               else let v = size_value (b # tail)
                 in if v \<ge> MAX_DECODE_SIZE then Inl (IoError InvalidInput ''bad encoding'')
                    else Inr (v, rest)))"

section \<open>What the loop computes\<close>

text \<open>The first byte of a prefix of \<open>k\<close> bytes, with its marker bits and what is left of it.\<close>

definition prefix_class :: "u8 \<Rightarrow> u8 \<times> nat" where
  "prefix_class b =
     (if b < 0x80 then (b, 0) else if b < 0xc0 then (b - 0x80, 1) else if b < 0xe0 then (b - 0xc0, 2)
      else if b < 0xf0 then (b - 0xe0, 3) else if b < 0xf8 then (b - 0xf0, 4)
      else if b < 0xfc then (b - 0xf8, 5) else if b < 0xfe then (b - 0xfc, 6)
      else if b < 0xff then (0, 7) else (0, 8))"

lemma forall_bytes: "(\<forall>b :: u8. P b) \<longleftrightarrow> (\<forall>n \<in> set [0..255 :: int]. P (word_of_int n))"
proof
  assume *: "\<forall>n \<in> set [0..255 :: int]. P (word_of_int n)"
  show "\<forall>b :: u8. P b"
  proof
    fix b :: u8
    have "uint b \<in> set [0..255 :: int]" using uint_lt2p [of b] by simp
    with * have "P (word_of_int (uint b))" by blast
    then show "P b" by simp
  qed
qed simp

lemma size_prefix_class: "size_prefix b 0x80 0 = prefix_class b"
proof -
  have "\<forall>b. size_prefix b 0x80 0 = prefix_class b"
    unfolding forall_bytes by code_simp
  then show ?thesis ..
qed

section \<open>Encoding in arithmetic\<close>

text \<open>The marker of a prefix of \<open>k\<close> bytes and the lengths that need exactly \<open>k\<close> bytes.\<close>

definition prefix_mark :: "nat \<Rightarrow> nat" where
  "prefix_mark k = 256 - 2 ^ (8 - k)"

definition size_bytes :: "nat \<Rightarrow> nat" where
  "size_bytes n =
     (if n < 0x40 then 1 else if n < 0x2000 then 2 else if n < 0x100000 then 3
      else if n < 0x8000000 then 4 else 5)"

lemma take_bit_small: "unat x < 2 ^ m \<Longrightarrow> take_bit m x = (x :: 'a::len word)"
  by (rule word_unat_eq_iff [THEN iffD2]) (simp add: unsigned_take_bit_eq take_bit_nat_eq_self)

lemma or_mark:
  fixes c x :: "'a::len word"
  assumes "unat x < 2 ^ m" and "c AND mask m = 0"
  shows "c OR x = c + x"
proof -
  have "c AND x = c AND (x AND mask m)"
    using take_bit_small [OF assms(1)] by (simp add: take_bit_eq_mask)
  also have "\<dots> = (c AND mask m) AND x" by (simp add: ac_simps)
  finally have "c AND x = 0" using assms(2) by simp
  then show ?thesis by (simp add: disjunctive_add_eq_or)
qed

lemma unat_low_byte: "unat (ucast (w AND 0xff :: u64) :: u8) = unat w mod 256"
proof -
  have "w AND 0xff = take_bit 8 w" by (simp add: take_bit_eq_mask mask_eq_exp_minus_1)
  then show ?thesis by (simp add: unsigned_ucast_eq unsigned_take_bit_eq take_bit_eq_mod unat_mod)
qed

lemma unat_drop_u64: "unat (drop_bit k (w :: u64)) = unat w div 2 ^ k"
  by (simp only: unat_drop_bit_eq) (simp add: drop_bit_eq_div)

lemma unat_mark:
  assumes "unat x < 2 ^ m" "c AND mask m = 0" "unat c + 2 ^ m \<le> 256"
  shows "unat (ucast (c OR x :: u64) :: u8) = unat c + unat x"
proof -
  have "unat (c + x) = unat c + unat x" using assms(1,3) by (simp add: unat_word_ariths)
  with assms show ?thesis
    by (simp add: or_mark [OF assms(1,2)] unsigned_ucast_eq take_bit_nat_eq_self)
qed

lemma marks:
  "0x80 AND mask 6 = (0 :: u64)" "0xc0 AND mask 5 = (0 :: u64)" "0xe0 AND mask 4 = (0 :: u64)"
  "0xf0 AND mask 3 = (0 :: u64)" "0xf8 AND mask 2 = (0 :: u64)"
  by (simp_all add: mask_eq_exp_minus_1)

lemmas unat_marks =
  unat_mark [OF _ marks(1)] unat_mark [OF _ marks(2)] unat_mark [OF _ marks(3)]
  unat_mark [OF _ marks(4)] unat_mark [OF _ marks(5)]

lemmas encode_unats = unat_marks unat_low_byte unat_drop_u64 be_bytes_numeral prefix_mark_def

lemma encode_size_nat:
  assumes "unat sz < 2 ^ 34"
  shows "encode_size sz =
    (let n = unat sz; k = size_bytes n
     in Inr (of_nat (prefix_mark k + n div 256 ^ (k - 1)) # be_bytes (k - 1) n))"
proof -
  define n where "n = unat sz"
  have cmp: "sz < 0x40 \<longleftrightarrow> n < 0x40" "sz < 0x2000 \<longleftrightarrow> n < 0x2000"
    "sz < 0x100000 \<longleftrightarrow> n < 0x100000" "sz < 0x8000000 \<longleftrightarrow> n < 0x8000000"
    "sz < 0x400000000 \<longleftrightarrow> n < 0x400000000"
    by (simp_all add: n_def word_less_nat_alt)
  consider "n < 0x40" | "\<not> n < 0x40" "n < 0x2000" | "\<not> n < 0x2000" "n < 0x100000"
    | "\<not> n < 0x100000" "n < 0x8000000" | "\<not> n < 0x8000000" "n < 0x400000000"
    using assms n_def by force
  then show ?thesis
    unfolding encode_size_def cmp n_def [symmetric] Let_def size_bytes_def
    by cases (simp_all add: encode_unats n_def [symmetric] word_unat_eq_iff unat_word_ariths)
qed

lemma encode_size_bound: "encode_size sz = Inr bs \<Longrightarrow> unat sz < 2 ^ 34"
proof (rule ccontr)
  assume "encode_size sz = Inr bs" "\<not> unat sz < 2 ^ 34"
  then show False by (simp add: encode_size_def word_less_nat_alt)
qed

section \<open>Decoding in arithmetic\<close>

lemma size_value_acc:
  "length bs \<le> 6 \<Longrightarrow> unat c * 256 ^ length bs + be_nat bs < 2 ^ 64 \<Longrightarrow>
   unat (foldl (\<lambda>v b. push_bit 8 v + ucast b) (c :: u64) bs) = unat c * 256 ^ length bs + be_nat bs"
proof (induction bs arbitrary: c)
  case Nil
  show ?case by simp
next
  case (Cons b bs)
  let ?c = "push_bit 8 c + ucast b :: u64"
  have le: "unat c * 256 + unat b \<le> unat c * 256 ^ length (b # bs) + be_nat (b # bs)"
  proof -
    have "(unat c * 256 + unat b) * 1 \<le> (unat c * 256 + unat b) * 256 ^ length bs"
      by (rule mult_le_mono2) simp
    then show ?thesis by (simp add: algebra_simps)
  qed
  from le Cons.prems(2) have small: "unat c * 256 + unat b < 2 ^ 64" by (rule le_less_trans)
  then have "unat (push_bit 8 c) = unat c * 256"
    by (simp add: push_bit_eq_mult unat_word_ariths)
  with small have c: "unat ?c = unat c * 256 + unat b" by (simp add: unat_word_ariths)
  show ?case
    using Cons.IH [of ?c] Cons.prems c by (simp add: algebra_simps)
qed

lemma unat_size_value: "length bs \<le> 6 \<Longrightarrow> unat (size_value bs) = be_nat bs"
proof -
  assume len: "length bs \<le> 6"
  have "be_nat bs < 256 ^ length bs" by (rule be_nat_less)
  also have "\<dots> \<le> 256 ^ 6" using len by (intro power_increasing) simp_all
  finally show ?thesis using size_value_acc [of bs 0] len by (simp add: size_value_def)
qed

text \<open>
  \<open>decode_size\<close> in closed form: the class of the first byte says how many bytes follow, and a class
  of more than six bytes is refused after they were read.
\<close>

lemma msb_clear: "b AND 0x80 = 0 \<longleftrightarrow> b < (0x80 :: u8)"
proof -
  have "\<forall>b :: u8. b AND 0x80 = 0 \<longleftrightarrow> b < 0x80" unfolding forall_bytes by code_simp
  then show ?thesis ..
qed

lemma prefix_class_width: "snd (prefix_class b) \<le> 6 \<longleftrightarrow> b < 0xfe"
  by (simp add: prefix_class_def word_less_nat_alt)

lemma decode_size_Inr:
  assumes "decode_size stream b = Inr (v, rest)"
  obtains tail where "0x80 \<le> b" "b < 0xfe" "stream = tail @ rest"
    "length tail = snd (prefix_class b) - 1" "unat v = be_nat (fst (prefix_class b) # tail)"
    "unat v < 2 ^ 34"
proof -
  obtain h k where hk: "prefix_class b = (h, k)" by fastforce
  from assms have b: "\<not> b < 0x80" by (auto simp: decode_size_def msb_clear split: if_splits)
  with hk have k: "k \<ge> 1" by (auto simp: prefix_class_def split: if_splits)
  from assms b obtain tail where t: "stream = tail @ rest" "length tail = k - 1"
    and k6: "k \<le> 6" and v: "v = size_value (h # tail)" and m: "\<not> v \<ge> MAX_DECODE_SIZE"
    by (auto simp: decode_size_def msb_clear size_prefix_class hk Let_def
        dest!: read_exact_InrD split: if_splits)
  from k6 hk have "b < 0xfe" using prefix_class_width [of b] by simp
  moreover have "unat v = be_nat (h # tail)" using t(2) k k6 unat_size_value [of "h # tail"] v by simp
  moreover have "unat v < 2 ^ 34" using m by (simp add: MAX_DECODE_SIZE_def not_le word_less_nat_alt)
  ultimately show ?thesis using that t hk b by (simp add: not_less)
qed

lemma decode_sizeI:
  assumes "0x80 \<le> b" "prefix_class b = (h, k)" "k \<le> 6" "length tail = k - 1"
    and "be_nat (h # tail) < 2 ^ 34"
  shows "decode_size (tail @ rest) b = Inr (size_value (h # tail), rest)"
proof -
  have "k \<ge> 1" using assms(1,2) by (auto simp: prefix_class_def split: if_splits)
  with assms(3,4) have "unat (size_value (h # tail)) = be_nat (h # tail)"
    by (intro unat_size_value) simp
  with assms(5) have "\<not> size_value (h # tail) \<ge> MAX_DECODE_SIZE"
    by (simp add: MAX_DECODE_SIZE_def not_le word_less_nat_alt)
  with assms show ?thesis
    by (auto simp: decode_size_def msb_clear size_prefix_class Let_def not_less)
qed

lemma prefix_class_of_nat:
  assumes "m < 256"
  shows "prefix_class (of_nat m) =
     (if m < 0x80 then (of_nat m, 0) else if m < 0xc0 then (of_nat (m - 0x80), 1)
      else if m < 0xe0 then (of_nat (m - 0xc0), 2) else if m < 0xf0 then (of_nat (m - 0xe0), 3)
      else if m < 0xf8 then (of_nat (m - 0xf0), 4) else if m < 0xfc then (of_nat (m - 0xf8), 5)
      else if m < 0xfe then (of_nat (m - 0xfc), 6) else if m < 0xff then (0, 7) else (0, 8))"
proof -
  have cmp: "(of_nat m :: u8) < 0x80 \<longleftrightarrow> m < 0x80" "(of_nat m :: u8) < 0xc0 \<longleftrightarrow> m < 0xc0"
    "(of_nat m :: u8) < 0xe0 \<longleftrightarrow> m < 0xe0" "(of_nat m :: u8) < 0xf0 \<longleftrightarrow> m < 0xf0"
    "(of_nat m :: u8) < 0xf8 \<longleftrightarrow> m < 0xf8" "(of_nat m :: u8) < 0xfc \<longleftrightarrow> m < 0xfc"
    "(of_nat m :: u8) < 0xfe \<longleftrightarrow> m < 0xfe" "(of_nat m :: u8) < 0xff \<longleftrightarrow> m < 0xff"
    using assms by (simp_all add: word_less_nat_alt)
  show ?thesis unfolding prefix_class_def cmp by simp
qed

lemma prefix_class_mark:
  assumes "1 \<le> k" "k \<le> 5" "h < 2 ^ (7 - k)"
  shows "prefix_class (of_nat (prefix_mark k + h)) = (of_nat h, k)"
    and "0x80 \<le> (of_nat (prefix_mark k + h) :: u8)"
proof -
  consider "k = 1" | "k = 2" | "k = 3" | "k = 4" | "k = 5" using assms(1,2) by linarith
  then have m: "prefix_mark k + h < 256" "0x80 \<le> prefix_mark k + h"
    using assms(3) by (cases; simp add: prefix_mark_def)+
  consider "k = 1" | "k = 2" | "k = 3" | "k = 4" | "k = 5" using assms(1,2) by linarith
  then show "prefix_class (of_nat (prefix_mark k + h)) = (of_nat h, k)"
    unfolding prefix_class_of_nat [OF m(1)]
    using assms(3) by (cases; simp add: prefix_mark_def)
  show "0x80 \<le> (of_nat (prefix_mark k + h) :: u8)"
    using m by (simp only: word_le_nat_alt unat_of_nat_byte) simp
qed

text \<open>The codec law of the length prefix: what was encoded is read back, whatever follows.\<close>

lemma size_head_bound: "n < 2 ^ 34 \<Longrightarrow> n div 256 ^ (size_bytes n - 1) < 2 ^ (7 - size_bytes n)"
  by (auto simp: size_bytes_def div_less_iff_less_mult)

lemma size_bytes_range: "1 \<le> size_bytes n" "size_bytes n \<le> 5"
  by (auto simp: size_bytes_def)

lemma decode_encode_size:
  assumes "encode_size sz = Inr (b # p)"
  shows "decode_size (p @ rest) b = Inr (sz, rest)"
proof -
  let ?n = "unat sz" and ?k = "size_bytes (unat sz)"
  have n: "?n < 2 ^ 34" using assms by (rule encode_size_bound)
  with assms have b: "b = of_nat (prefix_mark ?k + ?n div 256 ^ (?k - 1))"
    and p: "p = be_bytes (?k - 1) ?n"
    by (simp_all add: encode_size_nat Let_def)
  have h: "?n div 256 ^ (?k - 1) < 2 ^ (7 - ?k)" using n by (rule size_head_bound)
  then have "?n div 256 ^ (?k - 1) < 256"
    by (rule less_le_trans) (use power_increasing [of "7 - ?k" 8 "2::nat"] in simp)
  then have val: "be_nat (of_nat (?n div 256 ^ (?k - 1)) # p) = ?n"
    by (simp add: p div_mult_mod_eq)
  have "decode_size (p @ rest) b = Inr (size_value (of_nat (?n div 256 ^ (?k - 1)) # p), rest)"
    using prefix_class_mark [OF size_bytes_range h] size_bytes_range [of ?n] n val
    by (intro decode_sizeI [where k = ?k]) (simp_all add: b p)
  moreover have "unat (size_value (of_nat (?n div 256 ^ (?k - 1)) # p)) = ?n"
    using size_bytes_range [of ?n] unat_size_value [of "of_nat (?n div 256 ^ (?k - 1)) # p"]
    by (simp only: val) (simp add: p)
  ultimately show ?thesis by (simp add: word_unat_eq_iff)
qed

lemma encode_size_Cons: "encode_size sz = Inr bs \<Longrightarrow> \<exists>b p. bs = b # p"
  by (frule encode_size_bound) (auto simp: encode_size_nat Let_def)

end
