(* ===== verification/ClvmSexp.thy ===== *)
theory ClvmSexp
  imports ClvmSize
begin

text \<open>
  CLVM values and their serialization: \<^verbatim>\<open>core/src/clvm/parser.rs\<close> (the two stack-machine parsers, the
  printer and the canonical check) and \<^verbatim>\<open>is_clvm_canonical\<close> of \<^verbatim>\<open>core/src/clvm/utils.rs\<close>. The stacks of
  the source grow at the end of a vector; here the top is the head of the list.
\<close>

section \<open>Values and errors\<close>

text \<open>An atom is a byte string; the owned and borrowed buffer variants of the source do not differ in value.\<close>

datatype sexp = Atom bytes | Pair sexp sexp

definition NULL_SEXP :: sexp where "NULL_SEXP = Atom []"

datatype clvm_error =
    UnexpectedEndOfValues
  | BadEncoding
  | InvalidSyntax
  | SerializationError string
  | ClvmIo io_error

text \<open>\<^verbatim>\<open>From<io::Error>\<close>, applied by \<open>?\<close>.\<close>

definition lift_io :: "io_error + 'a \<Rightarrow> clvm_error + 'a" where
  "lift_io r = (case r of Inl e \<Rightarrow> Inl (ClvmIo e) | Inr x \<Rightarrow> Inr x)"

lemma lift_io_simps [simp, res_simps]: "lift_io (Inl e) = Inl (ClvmIo e)" "lift_io (Inr x) = Inr x"
  by (simp_all add: lift_io_def)

lemma lift_io_eq_Inr [simp]: "lift_io r = Inr x \<longleftrightarrow> r = Inr x"
  by (cases r) auto

datatype parser_op = Exp | Cons

definition BACK_REFERENCE :: u8 where "BACK_REFERENCE = 0xfe"

lemmas markers = CONS_BOX_MARKER_def MAX_SINGLE_BYTE_def BACK_REFERENCE_def

lemma decode_size_shorter: "decode_size stream b = Inr (v, rest) \<Longrightarrow> length rest \<le> length stream"
  by (erule decode_size_Inr) simp

section \<open>The plain parser\<close>

function sexp_from_bytes_loop :: "parser_op list \<Rightarrow> sexp list \<Rightarrow> bytes \<Rightarrow> clvm_error + sexp \<times> bytes" where
  "sexp_from_bytes_loop [] val_buf stream =
     (case val_buf of [] \<Rightarrow> Inl InvalidSyntax | v # _ \<Rightarrow> Inr (v, stream))"
| "sexp_from_bytes_loop (Exp # op_buf) val_buf stream =
     (case stream of
        [] \<Rightarrow> Inl UnexpectedEndOfValues
      | b # rest \<Rightarrow>
          if b = CONS_BOX_MARKER then sexp_from_bytes_loop (Exp # Exp # Cons # op_buf) val_buf rest
          else if b = 0x80 then sexp_from_bytes_loop op_buf (NULL_SEXP # val_buf) rest
          else if b \<le> MAX_SINGLE_BYTE then sexp_from_bytes_loop op_buf (Atom [b] # val_buf) rest
          else bind_res (lift_io (decode_size rest b)) (\<lambda>r.
            if length (snd r) < unat (fst r) then Inl BadEncoding
            else sexp_from_bytes_loop op_buf (Atom (take (unat (fst r)) (snd r)) # val_buf)
                   (drop (unat (fst r)) (snd r))))"
| "sexp_from_bytes_loop (Cons # op_buf) val_buf stream =
     (case val_buf of
        second # first # vs \<Rightarrow> sexp_from_bytes_loop op_buf (Pair first second # vs) stream
      | _ \<Rightarrow> Inl BadEncoding)"
  by pat_completeness auto
termination
proof (relation "measure (\<lambda>(op_buf, val_buf, stream). 3 * length stream + length op_buf)",
    goal_cases)
  case (5 op_buf val_buf stream b rest x)
  then have "length (snd x) \<le> length rest" by (cases x) (auto dest: decode_size_shorter)
  with 5 show ?case by simp
qed auto

definition sexp_from_bytes :: "bytes \<Rightarrow> clvm_error + sexp \<times> bytes" where
  "sexp_from_bytes stream =
     (if stream = [] then Inr (NULL_SEXP, []) else sexp_from_bytes_loop [Exp] [] stream)"

section \<open>The parser with back-references\<close>

definition parse_atom_from_first_byte :: "bytes \<Rightarrow> u8 \<Rightarrow> clvm_error + sexp \<times> bytes" where
  "parse_atom_from_first_byte stream first_byte =
     (if first_byte = 0x80 then Inr (NULL_SEXP, stream)
      else if first_byte \<le> MAX_SINGLE_BYTE then Inr (Atom [first_byte], stream)
      else bind_res (lift_io (decode_size stream first_byte)) (\<lambda>(blob_size, rest).
        if length rest < unat blob_size then Inl BadEncoding
        else Inr (Atom (take (unat blob_size) rest), drop (unat blob_size) rest)))"

definition parse_backref_path :: "bytes \<Rightarrow> clvm_error + bytes \<times> bytes" where
  "parse_backref_path stream =
     (case stream of
        [] \<Rightarrow> Inl UnexpectedEndOfValues
      | b # rest \<Rightarrow>
          if b = CONS_BOX_MARKER \<or> b = BACK_REFERENCE
          then Inl (SerializationError ''Backreference path must be an atom'')
          else bind_res (parse_atom_from_first_byte rest b) (\<lambda>(s, rest').
            case s of Atom a \<Rightarrow> Inr (a, rest')
                    | Pair _ _ \<Rightarrow> Inl (SerializationError ''unreachable'')))"

text \<open>\<^verbatim>\<open>leading_zeros\<close> of a byte, and the index of its highest set bit (the sentinel is \<open>2 ^ msb\<close>).\<close>

definition leading_zeros8 :: "u8 \<Rightarrow> nat" where
  "leading_zeros8 b = length (takeWhile (\<lambda>i. \<not> bit b i) [7, 6, 5, 4, 3, 2, 1, 0])"

definition msb_index :: "u8 \<Rightarrow> nat" where
  "msb_index b = 7 - leading_zeros8 b"

definition first_non_zero :: "bytes \<Rightarrow> nat" where
  "first_non_zero path = length (takeWhile (\<lambda>b. b = 0) path)"

text \<open>
  The walk of a back-reference. \<open>bit_idx\<close> is the position of the one set bit of \<^verbatim>\<open>bitmask\<close>; the walk is
  over the value stack until it leaves it, then inside a value (\<open>parsing\<close>). \<open>values ! i\<close> of the source
  is entry \<open>i\<close> from the bottom of the stack.
\<close>

type_synonym val_entry = "sexp \<times> sexp option"

definition stack_entry :: "val_entry list \<Rightarrow> nat \<Rightarrow> val_entry" where
  "stack_entry values i = rev values ! i"

record backref_walk =
  parsing :: bool
  stack_index :: nat
  current :: sexp

definition backref_step :: "val_entry list \<Rightarrow> bool \<Rightarrow> backref_walk \<Rightarrow> clvm_error + backref_walk" where
  "backref_step values take_rest w =
     (if parsing w then
        (case current w of
           Pair a d \<Rightarrow> Inr (w\<lparr>current := (if take_rest then d else a)\<rparr>)
         | Atom _ \<Rightarrow> Inl (SerializationError ''Backreference path entered an atom''))
      else if take_rest then
        (if stack_index w = 0 then Inr (w\<lparr>parsing := True, current := NULL_SEXP\<rparr>)
         else Inr (w\<lparr>stack_index := stack_index w - 1\<rparr>))
      else Inr (w\<lparr>parsing := True, current := fst (stack_entry values (stack_index w))\<rparr>))"

lemma msb_index_le: "msb_index b \<le> 7"
  by (simp add: msb_index_def)

function backref_loop :: "val_entry list \<Rightarrow> bytes \<Rightarrow> nat \<Rightarrow> nat \<Rightarrow> nat \<Rightarrow> backref_walk \<Rightarrow>
    clvm_error + backref_walk" where
  "backref_loop values path fnz byte_index bit_idx w =
     (if bit_idx < 8 \<and> (byte_index > fnz \<or> bit_idx < msb_index (path ! fnz)) then
        bind_res (backref_step values (bit (path ! byte_index) bit_idx) w) (\<lambda>w'.
          if bit_idx = 7 then backref_loop values path fnz (byte_index - 1) 0 w'
          else backref_loop values path fnz byte_index (bit_idx + 1) w')
      else Inr w)"
  by pat_completeness auto
termination
proof (relation "measure (\<lambda>(values, path, fnz, byte_index, bit_idx, w). 8 * byte_index + (8 - bit_idx))",
    goal_cases)
  case (2 vals path fnz byte_index bit_idx w x)
  then show ?case using msb_index_le [of "path ! fnz"] by simp
qed auto

declare backref_loop.simps [simp del]

text \<open>
  The spine of the stack from the bottom up to an entry, with the lists built on the way cached in
  the entries. The entries come bottom first.
\<close>

fun stack_spine :: "val_entry list \<Rightarrow> sexp \<Rightarrow> sexp \<times> val_entry list" where
  "stack_spine [] stack_list = (stack_list, [])"
| "stack_spine ((v, cache) # es) stack_list =
     (case cache of
        Some cached \<Rightarrow>
          (case stack_spine es cached of (r, es') \<Rightarrow> (r, (v, cache) # es'))
      | None \<Rightarrow>
          (let l = Pair v stack_list
           in case stack_spine es l of (r, es') \<Rightarrow> (r, (v, Some l) # es')))"

definition traverse_backref_path :: "val_entry list \<Rightarrow> bytes \<Rightarrow> clvm_error + sexp \<times> val_entry list" where
  "traverse_backref_path values path =
     (let fnz = first_non_zero path
      in if fnz \<ge> length path then Inr (NULL_SEXP, values)
         else bind_res
           (backref_loop values path fnz (length path - 1) 0
              \<lparr>parsing = (values = []), stack_index = length values - 1, current = NULL_SEXP\<rparr>)
           (\<lambda>w. if parsing w then Inr (current w, values)
                 else let bottom = take (stack_index w + 1) (rev values);
                          above = drop (stack_index w + 1) (rev values)
                      in case stack_spine bottom NULL_SEXP of (r, bottom') \<Rightarrow>
                           Inr (r, rev (bottom' @ above))))"

function sexp_from_bytes_backrefs_loop ::
    "parser_op list \<Rightarrow> val_entry list \<Rightarrow> bytes \<Rightarrow> clvm_error + sexp \<times> bytes" where
  "sexp_from_bytes_backrefs_loop [] val_buf stream =
     (case val_buf of [] \<Rightarrow> Inl InvalidSyntax | (v, _) # _ \<Rightarrow> Inr (v, stream))"
| "sexp_from_bytes_backrefs_loop (Exp # op_buf) val_buf stream =
     (case stream of
        [] \<Rightarrow> Inl UnexpectedEndOfValues
      | b # rest \<Rightarrow>
          if b = CONS_BOX_MARKER
          then sexp_from_bytes_backrefs_loop (Exp # Exp # Cons # op_buf) val_buf rest
          else if b = BACK_REFERENCE then
            bind_res (parse_backref_path rest) (\<lambda>p.
              bind_res (traverse_backref_path val_buf (fst p)) (\<lambda>t.
                sexp_from_bytes_backrefs_loop op_buf ((fst t, None) # snd t) (snd p)))
          else bind_res (parse_atom_from_first_byte rest b) (\<lambda>a.
            sexp_from_bytes_backrefs_loop op_buf ((fst a, None) # val_buf) (snd a)))"
| "sexp_from_bytes_backrefs_loop (Cons # op_buf) val_buf stream =
     (case val_buf of
        (second, _) # (first, _) # vs \<Rightarrow>
          sexp_from_bytes_backrefs_loop op_buf ((Pair first second, None) # vs) stream
      | _ \<Rightarrow> Inl BadEncoding)"
  by pat_completeness auto

lemma parse_atom_shorter:
  "parse_atom_from_first_byte stream b = Inr (s, rest) \<Longrightarrow> length rest \<le> length stream"
  by (auto simp: parse_atom_from_first_byte_def dest!: decode_size_shorter split: if_splits)

lemma parse_backref_path_shorter:
  "parse_backref_path stream = Inr (p, rest) \<Longrightarrow> length rest < length stream"
  by (auto simp: parse_backref_path_def dest!: parse_atom_shorter split: list.splits if_splits sexp.splits)

termination sexp_from_bytes_backrefs_loop
proof (relation "measure (\<lambda>(op_buf, val_buf, stream). 3 * length stream + length op_buf)",
    goal_cases)
  case (3 op_buf val_buf stream b rest x xa)
  then have "length (snd x) < length rest" by (cases x) (auto dest: parse_backref_path_shorter)
  with 3 show ?case by simp
next
  case (4 op_buf val_buf stream b rest x)
  then have "length (snd x) \<le> length rest" by (cases x) (auto dest: parse_atom_shorter)
  with 4 show ?case by simp
qed auto

definition sexp_from_bytes_backrefs :: "bytes \<Rightarrow> clvm_error + sexp \<times> bytes" where
  "sexp_from_bytes_backrefs stream =
     (if stream = [] then Inr (NULL_SEXP, []) else sexp_from_bytes_backrefs_loop [Exp] [] stream)"

section \<open>The printer\<close>

function sexp_to_bytes_loop :: "sexp list \<Rightarrow> bytes \<Rightarrow> io_error + bytes" where
  "sexp_to_bytes_loop [] buffer = Inr buffer"
| "sexp_to_bytes_loop (Atom data # stack) buffer =
     (if data = [] then sexp_to_bytes_loop stack (buffer @ [0x80])
      else if length data = 1 \<and> data ! 0 \<le> MAX_SINGLE_BYTE
      then sexp_to_bytes_loop stack (buffer @ [data ! 0])
      else bind_res (encode_size (of_nat (length data))) (\<lambda>prefix.
        sexp_to_bytes_loop stack (buffer @ prefix @ data)))"
| "sexp_to_bytes_loop (Pair first rest # stack) buffer =
     sexp_to_bytes_loop (first # rest # stack) (buffer @ [CONS_BOX_MARKER])"
  by pat_completeness auto
termination
  by (relation "measure (\<lambda>(stack, buffer). sum_list (map (\<lambda>s. 2 * size s + 1) stack))") auto

definition sexp_to_bytes :: "sexp \<Rightarrow> io_error + bytes" where
  "sexp_to_bytes s = sexp_to_bytes_loop [s] []"

section \<open>The canonical checks\<close>

definition leading_ones8 :: "u8 \<Rightarrow> nat" where
  "leading_ones8 b = length (takeWhile (bit b) [7, 6, 5, 4, 3, 2, 1, 0])"

text \<open>
  \<^verbatim>\<open>is_canonical_atom\<close>: the verdict and the cursor position after it. The position is counted from the
  start of the buffer, and a seek may move it past the end.
\<close>

definition min_prefix_value :: "nat \<Rightarrow> nat option" where
  "min_prefix_value prefix_len =
     (if prefix_len = 1 then Some 1 else if prefix_len = 2 then Some (2 ^ 6)
      else if prefix_len = 3 then Some (2 ^ 13) else if prefix_len = 4 then Some (2 ^ 20)
      else if prefix_len = 5 then Some (2 ^ 28) else if prefix_len = 6 then Some (2 ^ 36)
      else None)"

definition is_canonical_atom :: "bytes \<Rightarrow> nat \<Rightarrow> u8 \<Rightarrow> bool \<times> nat" where
  "is_canonical_atom bytes pos first_byte =
     (if first_byte = 0x80 \<or> first_byte \<le> MAX_SINGLE_BYTE then (True, pos)
      else case decode_size (drop pos bytes) first_byte of
          Inl _ \<Rightarrow> (False, pos)
        | Inr (atom_len, rest) \<Rightarrow>
            (case min_prefix_value (leading_ones8 first_byte) of
               None \<Rightarrow> (False, pos)
             | Some min_value \<Rightarrow>
                 if unat atom_len \<ge> 2 ^ 63 then (False, pos)
                 else (unat atom_len \<ge> min_value, length bytes - length rest + unat atom_len)))"

lemma is_canonical_atom_pos:
  assumes "is_canonical_atom bytes pos b = (ok, pos')" and "pos \<le> length bytes"
  shows "pos \<le> pos'"
proof (cases "decode_size (drop pos bytes) b")
  case (Inl e)
  with assms show ?thesis by (simp add: is_canonical_atom_def split: if_splits)
next
  case (Inr r)
  then obtain v rest where r: "decode_size (drop pos bytes) b = Inr (v, rest)" by (cases r) auto
  from decode_size_shorter [OF this] r assms show ?thesis
    by (auto simp: is_canonical_atom_def split: option.splits if_splits)
qed

function canonical_loop :: "bytes \<Rightarrow> nat \<Rightarrow> nat \<Rightarrow> bool" where
  "canonical_loop bytes pos counter =
     (if counter = 0 then length bytes = pos
      else if length bytes \<le> pos then False
      else let b = bytes ! pos; pos1 = pos + 1; counter' = counter - 1
        in if b = CONS_BOX_MARKER then
             (if length bytes < pos1 then False else canonical_loop bytes pos1 (counter' + 2))
           else if b = BACK_REFERENCE then
             (if length bytes \<le> pos1 then False
              else let (ok, pos2) = is_canonical_atom bytes (pos1 + 1) (bytes ! pos1)
                in if \<not> ok then False
                   else if length bytes < pos2 then False
                   else canonical_loop bytes pos2 counter')
           else let (ok, pos2) = is_canonical_atom bytes pos1 b
             in if \<not> ok then False
                else if length bytes < pos2 then False
                else canonical_loop bytes pos2 counter')"
  by pat_completeness auto
termination
proof (relation "measure (\<lambda>(bytes, pos, counter). length bytes - pos)", goal_cases)
  case (3 bytes pos counter x xa xb xc ok pos2)
  then have "xa + 1 \<le> pos2" by (intro is_canonical_atom_pos [of bytes "xa + 1" "bytes ! xa" ok pos2]) simp_all
  with 3 show ?case by auto
next
  case (4 bytes pos counter x xa xb xc ok pos2)
  then have "xa \<le> pos2" by (intro is_canonical_atom_pos [of bytes xa x ok pos2]) simp_all
  with 4 show ?case by auto
qed auto

declare canonical_loop.simps [simp del]

definition is_canonical_serialization :: "bytes \<Rightarrow> bool" where
  "is_canonical_serialization bytes = canonical_loop bytes 0 1"

text \<open>
  \<^verbatim>\<open>is_clvm_canonical\<close> of the CLVM utilities: the same question with no back-references allowed. The
  prefix class gives the number of further size bytes, the mask of the size bits in the first byte
  and the least length that needs this class.
\<close>

definition atom_prefix :: "u8 \<Rightarrow> nat \<times> u8 \<times> u64" where
  "atom_prefix b =
     (if b AND 0xc0 = 0x80 then (0, 0x3f, 1)
      else if b AND 0xe0 = 0xc0 then (1, 0x1f, push_bit 6 1)
      else if b AND 0xf0 = 0xe0 then (2, 0x0f, push_bit 13 1)
      else if b AND 0xf8 = 0xf0 then (3, 0x07, push_bit 20 1)
      else if b AND 0xfc = 0xf8 then (4, 0x03, push_bit 27 1)
      else (5, 0x01, push_bit 34 1))"

fun read_size :: "bytes \<Rightarrow> nat \<Rightarrow> nat \<Rightarrow> u64 \<Rightarrow> u64 option" where
  "read_size clvm at 0 atom_len = Some atom_len"
| "read_size clvm at (Suc n) atom_len =
     (if at < length clvm
      then read_size clvm (at + 1) n (push_bit 8 atom_len OR ucast (clvm ! at)) else None)"

function clvm_canonical_loop :: "bytes \<Rightarrow> nat \<Rightarrow> nat \<Rightarrow> bool" where
  "clvm_canonical_loop clvm offset tokens_left =
     (if length clvm \<le> offset then False
      else let b = clvm ! offset
        in if b = 0xff then clvm_canonical_loop clvm (offset + 1) (tokens_left + 1)
           else if b = 0xfe then False
           else if b \<le> 0x80 then
             (if tokens_left - 1 = 0 then offset + 1 = length clvm
              else clvm_canonical_loop clvm (offset + 1) (tokens_left - 1))
           else let (prefix_len, m, min_value) = atom_prefix b
             in case read_size clvm (offset + 1) prefix_len (ucast (b AND m)) of
                  None \<Rightarrow> False
                | Some atom_len \<Rightarrow>
                    if atom_len < min_value then False
                    else let next_offset = offset + 1 + prefix_len + unat atom_len
                      in if next_offset \<ge> 2 ^ 64 then False
                         else if tokens_left - 1 = 0 then next_offset = length clvm
                         else clvm_canonical_loop clvm next_offset (tokens_left - 1))"
  by pat_completeness auto
termination
  by (relation "measure (\<lambda>(clvm, offset, tokens_left). length clvm - offset)") auto

declare clvm_canonical_loop.simps [simp del]

definition is_clvm_canonical :: "bytes \<Rightarrow> bool" where
  "is_clvm_canonical clvm = (clvm \<noteq> [] \<and> clvm_canonical_loop clvm 0 1)"

section \<open>The printer as a recursive function\<close>

text \<open>What is written for one atom, and for a value.\<close>

definition atom_bytes :: "bytes \<Rightarrow> io_error + bytes" where
  "atom_bytes data =
     (if data = [] then Inr [0x80]
      else if length data = 1 \<and> data ! 0 \<le> MAX_SINGLE_BYTE then Inr [data ! 0]
      else bind_res (encode_size (of_nat (length data))) (\<lambda>p. Inr (p @ data)))"

fun sexp_bytes :: "sexp \<Rightarrow> io_error + bytes" where
  "sexp_bytes (Atom data) = atom_bytes data"
| "sexp_bytes (Pair a d) =
     bind_res (sexp_bytes a) (\<lambda>x. bind_res (sexp_bytes d) (\<lambda>y. Inr (CONS_BOX_MARKER # x @ y)))"

lemma sexp_to_bytes_loop_Cons:
  "sexp_to_bytes_loop (s # stack) buffer =
     bind_res (sexp_bytes s) (\<lambda>b. sexp_to_bytes_loop stack (buffer @ b))"
  by (induction s arbitrary: stack buffer) (simp_all add: atom_bytes_def bind_res_assoc)

lemma sexp_to_bytes_eq: "sexp_to_bytes s = sexp_bytes s"
  by (cases "sexp_bytes s") (simp_all add: sexp_to_bytes_def sexp_to_bytes_loop_Cons)

section \<open>Reading back what was printed\<close>

text \<open>A slice is shorter than \<open>2 ^ 63\<close> bytes, so the cast of its length to \<open>u64\<close> is exact.\<close>

fun atoms_below :: "nat \<Rightarrow> sexp \<Rightarrow> bool" where
  "atoms_below n (Atom data) = (length data < n)"
| "atoms_below n (Pair a d) = (atoms_below n a \<and> atoms_below n d)"

lemma sexp_from_bytes_loop_atom:
  "b \<noteq> CONS_BOX_MARKER \<Longrightarrow>
   sexp_from_bytes_loop (Exp # ops) vals (b # rest) =
     bind_res (parse_atom_from_first_byte rest b) (\<lambda>(a, rest'). sexp_from_bytes_loop ops (a # vals) rest')"
  by (simp add: parse_atom_from_first_byte_def bind_res_def lift_io_def split: sum.splits)

lemma sexp_backrefs_loop_atom:
  "b \<noteq> CONS_BOX_MARKER \<Longrightarrow> b \<noteq> BACK_REFERENCE \<Longrightarrow>
   sexp_from_bytes_backrefs_loop (Exp # ops) vals (b # rest) =
     bind_res (parse_atom_from_first_byte rest b)
       (\<lambda>(a, rest'). sexp_from_bytes_backrefs_loop ops ((a, None) # vals) rest')"
  by (simp add: case_prod_unfold)

lemma sexp_loop_cons:
  "sexp_from_bytes_loop (Exp # ops) vals (CONS_BOX_MARKER # rest) =
     sexp_from_bytes_loop (Exp # Exp # Cons # ops) vals rest"
  "sexp_from_bytes_backrefs_loop (Exp # ops) vals' (CONS_BOX_MARKER # rest) =
     sexp_from_bytes_backrefs_loop (Exp # Exp # Cons # ops) vals' rest"
  by simp_all

declare sexp_from_bytes_loop.simps(2) [simp del] sexp_from_bytes_backrefs_loop.simps(2) [simp del]

text \<open>The first byte of a prefixed atom lies strictly between the single bytes and the two markers.\<close>

lemma encode_size_head:
  assumes "encode_size sz = Inr (b # p)"
  shows "0x80 \<le> b" "b < 0xfe" "b = 0x80 \<Longrightarrow> sz = 0"
proof -
  have d: "decode_size (p @ []) b = Inr (sz, [])" using assms by (rule decode_encode_size)
  then obtain tail where t: "0x80 \<le> b" "b < 0xfe" "length tail = snd (prefix_class b) - 1"
    "unat sz = be_nat (fst (prefix_class b) # tail)" by (rule decode_size_Inr)
  then show "0x80 \<le> b" "b < 0xfe" by auto
  assume "b = 0x80"
  with t(3,4) have "unat sz = 0" by (simp add: prefix_class_def)
  then show "sz = 0" by (simp add: unat_0_iff)
qed

lemma parse_atom_bytes:
  assumes "atom_bytes data = Inr bs" "length data < 2 ^ 63"
  obtains b p where "bs = b # p" "b \<noteq> CONS_BOX_MARKER" "b \<noteq> BACK_REFERENCE"
    "\<forall>rest. parse_atom_from_first_byte (p @ rest) b = Inr (Atom data, rest)"
proof (cases "data = [] \<or> length data = 1 \<and> data ! 0 \<le> MAX_SINGLE_BYTE")
  case True
  then consider "data = []" | d where "data = [d]" "d \<le> MAX_SINGLE_BYTE" 
    by (auto simp: length_Suc_conv)
  then show ?thesis
  proof cases
    case 1
    with assms(1) show ?thesis
      by (intro that [of "0x80" "[]"])
        (simp_all add: atom_bytes_def markers parse_atom_from_first_byte_def NULL_SEXP_def)
  next
    case 2
    then have "d \<noteq> 0x80" "d \<noteq> 0xff" "d \<noteq> 0xfe" by (auto simp: markers)
    with 2 assms(1) show ?thesis
      by (intro that [of d "[]"])
        (simp_all add: atom_bytes_def parse_atom_from_first_byte_def CONS_BOX_MARKER_def BACK_REFERENCE_def)
  qed
next
  case False
  then obtain pre where pre: "encode_size (of_nat (length data)) = Inr pre" and bs: "bs = pre @ data"
    using assms(1) by (auto simp: atom_bytes_def)
  obtain b p where bp: "pre = b # p" using encode_size_Cons [OF pre] by blast
  note enc = pre [unfolded bp]
  have len: "unat (of_nat (length data) :: u64) = length data"
    using assms(2) by (simp add: unat_of_nat)
  have b80: "b \<noteq> 0x80"
  proof
    assume "b = 0x80"
    with encode_size_head(3) [OF enc] have "unat (of_nat (length data) :: u64) = 0" by simp
    with len False show False by simp
  qed
  have b: "\<not> b \<le> MAX_SINGLE_BYTE" "b \<noteq> CONS_BOX_MARKER" "b \<noteq> BACK_REFERENCE"
    using encode_size_head(1,2) [OF enc] by (auto simp: markers word_less_nat_alt word_le_nat_alt)
  show ?thesis
  proof (rule that [of b "p @ data"])
    have "parse_atom_from_first_byte ((p @ data) @ rest) b = Inr (Atom data, rest)" for rest
      using decode_encode_size [OF enc, of "data @ rest"] b80 b(1)
      by (simp add: parse_atom_from_first_byte_def len)
    then show "\<forall>rest. parse_atom_from_first_byte ((p @ data) @ rest) b = Inr (Atom data, rest)" ..
  qed (use b bp bs in auto)
qed

lemma loop_roundtrip:
  "sexp_bytes s = Inr bs \<Longrightarrow> atoms_below (2 ^ 63) s \<Longrightarrow>
   sexp_from_bytes_loop (Exp # ops) vals (bs @ rest) = sexp_from_bytes_loop ops (s # vals) rest"
proof (induction s arbitrary: bs ops vals rest)
  case (Atom data)
  then have "atom_bytes data = Inr bs" "length data < 2 ^ 63" by auto
  then obtain b p where "bs = b # p" "b \<noteq> CONS_BOX_MARKER" "b \<noteq> BACK_REFERENCE"
    and "\<forall>rest. parse_atom_from_first_byte (p @ rest) b = Inr (Atom data, rest)"
    by (rule parse_atom_bytes)
  then show ?case by (simp add: sexp_from_bytes_loop_atom)
next
  case (Pair a d)
  then obtain x y where "sexp_bytes a = Inr x" "sexp_bytes d = Inr y" "bs = CONS_BOX_MARKER # x @ y"
    by auto
  with Pair show ?case by (simp add: sexp_loop_cons)
qed

lemma sexp_bytes_nonempty: "sexp_bytes s = Inr bs \<Longrightarrow> bs \<noteq> []"
  by (cases s) (auto simp: atom_bytes_def dest: encode_size_Cons split: if_splits)

lemma sexp_bytes_total: "atoms_below (2 ^ 34) s \<Longrightarrow> is_ok (sexp_bytes s)"
proof (induction s)
  case (Atom data)
  then have "unat (of_nat (length data) :: u64) < 2 ^ 34" by (simp add: unat_of_nat)
  then have "is_ok (encode_size (of_nat (length data)))" by (simp add: encode_size_nat Let_def)
  then show ?case by (auto simp: atom_bytes_def)
qed (auto elim!: is_okE)

lemma sexp_bytes_bound: "sexp_bytes s = Inr bs \<Longrightarrow> atoms_below (2 ^ 63) s \<Longrightarrow> atoms_below (2 ^ 34) s"
proof (induction s arbitrary: bs)
  case (Atom data)
  show ?case
  proof (cases "data = [] \<or> length data = 1")
    case False
    with Atom obtain p where "encode_size (of_nat (length data)) = Inr p" by (auto simp: atom_bytes_def)
    from encode_size_bound [OF this] Atom(2) show ?thesis by (simp add: unat_of_nat)
  qed auto
qed auto

section \<open>The two parsers agree\<close>

lemma decode_size_backref: "decode_size stream BACK_REFERENCE \<noteq> Inr r"
proof
  assume *: "decode_size stream BACK_REFERENCE = Inr r"
  obtain v rest where "r = (v, rest)" by fastforce
  with * have "decode_size stream BACK_REFERENCE = Inr (v, rest)" by simp
  then show False by (rule decode_size_Inr) (simp add: BACK_REFERENCE_def)
qed

lemma parse_atom_not_backref: "parse_atom_from_first_byte stream BACK_REFERENCE \<noteq> Inr r"
  using decode_size_backref [of stream]
  by (auto simp: parse_atom_from_first_byte_def markers split: if_splits)

lemma backrefs_loop_extends:
  "sexp_from_bytes_loop ops vals stream = Inr r \<Longrightarrow> map fst vals' = vals \<Longrightarrow>
   sexp_from_bytes_backrefs_loop ops vals' stream = Inr r"
proof (induction "3 * length stream + length ops" arbitrary: ops vals vals' stream rule: less_induct)
  case less
  consider (fin) "ops = []" | (exp) ops' where "ops = Exp # ops'" | (cons) ops' where "ops = Cons # ops'"
    by (metis list.exhaust parser_op.exhaust)
  then show ?case
  proof cases
    case fin
    with less.prems show ?thesis by (cases vals') (auto split: list.splits)
  next
    case exp
    with less.prems(1) obtain b rest where st: "stream = b # rest"
      by (cases stream) (simp_all add: sexp_from_bytes_loop.simps(2))
    show ?thesis
    proof (cases "b = CONS_BOX_MARKER")
      case True
      with less exp st show ?thesis
        by (simp add: sexp_loop_cons)
    next
      case False
      from less.prems(1) obtain a rest' where a: "parse_atom_from_first_byte rest b = Inr (a, rest')"
        and tail: "sexp_from_bytes_loop ops' (a # vals) rest' = Inr r"
        by (auto simp: st exp sexp_from_bytes_loop_atom [OF False])
      have "b \<noteq> BACK_REFERENCE" using a parse_atom_not_backref by metis
      moreover have "sexp_from_bytes_backrefs_loop ops' ((a, None) # vals') rest' = Inr r"
        using parse_atom_shorter [OF a] less.prems(2)
        by (intro less.hyps [OF _ tail]) (simp_all add: st exp)
      ultimately show ?thesis by (simp add: a st exp False sexp_backrefs_loop_atom)
    qed
  next
    case cons
    with less.prems(1) obtain second first vs where "vals = second # first # vs"
      by (auto split: list.splits)
    with less cons show ?thesis by (auto split: list.splits)
  qed
qed

section \<open>What the serialization guarantees\<close>

text \<open>
  C6: every value whose atoms fit the format (below \<open>2 ^ 34\<close> bytes) is serialized, and both parsers
  read it back from the front of any stream and leave exactly the rest.
\<close>

theorem sexp_roundtrip:
  assumes "atoms_below (2 ^ 34) s"
  shows "\<exists>bs. sexp_to_bytes s = Inr bs \<and>
    (\<forall>rest. sexp_from_bytes (bs @ rest) = Inr (s, rest) \<and>
            sexp_from_bytes_backrefs (bs @ rest) = Inr (s, rest))"
proof -
  have mono: "atoms_below (2 ^ 34) t \<Longrightarrow> atoms_below (2 ^ 63) t" for t by (induction t) auto
  obtain bs where bs: "sexp_bytes s = Inr bs" using sexp_bytes_total [OF assms] by (rule is_okE)
  have p: "sexp_from_bytes_loop [Exp] [] (bs @ rest) = Inr (s, rest)" for rest
    using loop_roundtrip [OF bs mono [OF assms], of "[]" "[]"] by simp
  have "sexp_from_bytes_backrefs_loop [Exp] [] (bs @ rest) = Inr (s, rest)" for rest
    using backrefs_loop_extends [OF p, of "[]"] by simp
  with p bs sexp_bytes_nonempty [OF bs] show ?thesis
    by (auto simp: sexp_to_bytes_eq sexp_from_bytes_def sexp_from_bytes_backrefs_def)
qed

lemma sexp_roundtrip_witness:
  "\<exists>bs. sexp_to_bytes (Pair (Atom [1, 2]) (Atom [])) = Inr bs \<and>
    sexp_from_bytes (bs @ [7]) = Inr (Pair (Atom [1, 2]) (Atom []), [7])"
  using sexp_roundtrip [of "Pair (Atom [1, 2]) (Atom [])"] by auto

end
