(* ===== verification/ClvmBackrefs.thy ===== *)
theory ClvmBackrefs
  imports ClvmSexp
begin

text \<open>
  The meaning of a back-reference of \<^verbatim>\<open>core/src/clvm/parser.rs\<close>: \<^verbatim>\<open>traverse_backref_path\<close> is a path lookup in
  the value stack read as a list, and the whole parser is a reference parser that does just that.
\<close>

section \<open>What a back-reference denotes\<close>

text \<open>
  A path is a number: from its low end each bit chooses the first or the rest of a pair, up to the
  highest bit, which ends it. The value stack is read as a list, top first, ended by the null atom.
\<close>

fun path_lookup :: "nat \<Rightarrow> sexp \<Rightarrow> sexp option" where
  "path_lookup n s =
     (if n = 0 then Some NULL_SEXP else if n = 1 then Some s
      else case s of Pair a d \<Rightarrow> path_lookup (n div 2) (if odd n then d else a) | Atom _ \<Rightarrow> None)"

declare path_lookup.simps [simp del]

lemma path_lookup_simps [simp]:
  "path_lookup 0 s = Some NULL_SEXP" "path_lookup (Suc 0) s = Some s"
  "1 < n \<Longrightarrow> path_lookup n (Pair a d) = path_lookup (n div 2) (if odd n then d else a)"
  "1 < n \<Longrightarrow> path_lookup n (Atom b) = None"
  by (subst path_lookup.simps; simp)+

definition stack_list :: "val_entry list \<Rightarrow> sexp" where
  "stack_list vals = foldr (\<lambda>v r. Pair (fst v) r) vals NULL_SEXP"

text \<open>The caches of the stack are right: each holds the list from its entry down.\<close>

fun caches_ok :: "val_entry list \<Rightarrow> bool" where
  "caches_ok [] = True"
| "caches_ok ((v, c) # vs) =
     ((c = None \<or> c = Some (stack_list ((v, c) # vs))) \<and> caches_ok vs)"

lemma stack_list_simps [simp]:
  "stack_list [] = NULL_SEXP" "stack_list (v # vs) = Pair (fst v) (stack_list vs)"
  by (simp_all add: stack_list_def)

definition walk_value :: "val_entry list \<Rightarrow> backref_walk \<Rightarrow> sexp" where
  "walk_value vals w =
     (if parsing w then current w else stack_list (drop (length vals - 1 - stack_index w) vals))"

definition walk_ok :: "val_entry list \<Rightarrow> backref_walk \<Rightarrow> bool" where
  "walk_ok vals w \<longleftrightarrow> parsing w \<or> stack_index w < length vals"

lemma backref_step_value:
  assumes "walk_ok vals w"
  shows "case walk_value vals w of
      Pair a d \<Rightarrow> \<exists>w'. backref_step vals t w = Inr w' \<and> walk_ok vals w' \<and>
        walk_value vals w' = (if t then d else a)
    | Atom _ \<Rightarrow> backref_step vals t w = Inl (SerializationError ''Backreference path entered an atom'')"
proof (cases "parsing w")
  case True
  then show ?thesis
    by (cases "current w") (auto simp: walk_value_def walk_ok_def backref_step_def)
next
  case False
  with assms have i: "stack_index w < length vals" by (simp add: walk_ok_def)
  let ?k = "length vals - 1 - stack_index w"
  from i have k: "?k < length vals" by simp
  have e: "stack_entry vals (stack_index w) = vals ! ?k"
    using i by (simp add: stack_entry_def rev_nth)
  have d: "drop ?k vals = vals ! ?k # drop (Suc ?k) vals" by (rule Cons_nth_drop_Suc [OF k, symmetric])
  have wv: "walk_value vals w = Pair (fst (vals ! ?k)) (stack_list (drop (Suc ?k) vals))"
    using False by (simp only: walk_value_def if_False d stack_list_simps)
  show ?thesis
  proof (cases "stack_index w = 0")
    case True
    with False wv e i show ?thesis by (auto simp: backref_step_def walk_ok_def walk_value_def)
  next
    case nz: False
    then have "Suc ?k = length vals - 1 - (stack_index w - 1)" using i by simp
    with nz False wv e i show ?thesis by (auto simp: backref_step_def walk_ok_def walk_value_def)
  qed
qed

lemma msb_index_bounds:
  assumes "b \<noteq> 0"
  shows "2 ^ msb_index b \<le> unat b" "unat b < 2 ^ Suc (msb_index b)"
proof -
  have "\<forall>b :: u8. b = 0 \<or> 2 ^ msb_index b \<le> uint b \<and> uint b < 2 ^ Suc (msb_index b)"
    unfolding forall_bytes by code_simp
  with assms have *: "2 ^ msb_index b \<le> uint b" "uint b < 2 ^ Suc (msb_index b)" by blast+
  have "int (2 ^ msb_index b) \<le> int (unat b)" using *(1) by simp
  then show "2 ^ msb_index b \<le> unat b" by (simp only: of_nat_le_iff)
  have "int (unat b) < int (2 ^ Suc (msb_index b))" using *(2) by simp
  then show "unat b < 2 ^ Suc (msb_index b)" by (simp only: of_nat_less_iff)
qed

lemma bit_be_nat:
  assumes "j < length path" "i < 8"
  shows "bit (be_nat path) (8 * (length path - 1 - j) + i) = bit (path ! j) i"
proof -
  let ?m = "length path - 1 - j" and ?u = "unat (path ! j)"
  define A where "A = be_nat (take j path)"
  define B where "B = be_nat (drop (Suc j) path)"
  have B: "B < 256 ^ ?m" using be_nat_less [of "drop (Suc j) path"] by (simp add: B_def)
  have "be_nat path = be_nat (take j path @ path ! j # drop (Suc j) path)"
    using id_take_nth_drop [OF assms(1)] by simp
  also have "\<dots> = (A * 256 + ?u) * 256 ^ ?m + B"
    using assms(1) by (simp add: be_nat_append A_def B_def algebra_simps)
  finally have n: "be_nat path = (A * 256 + ?u) * 256 ^ ?m + B" .
  have "be_nat path div 2 ^ (8 * ?m + i) = be_nat path div 256 ^ ?m div 2 ^ i"
    by (simp add: power_add power_mult div_mult2_eq)
  also have "be_nat path div 256 ^ ?m = A * 256 + ?u" using B by (simp add: n)
  also have "(A * 256 + ?u) div 2 ^ i = A * 2 ^ (8 - i) + ?u div 2 ^ i"
  proof -
    have "(2::nat) ^ 8 = 2 ^ (8 - i) * 2 ^ i" using assms(2) by (simp flip: power_add)
    then have "A * 256 + ?u = ?u + A * 2 ^ (8 - i) * 2 ^ i" by simp
    then show ?thesis by (simp only: div_mult_self1 power_not_zero zero_neq_numeral not_False_eq_True)
  qed
  finally have "odd (be_nat path div 2 ^ (8 * ?m + i)) \<longleftrightarrow> odd (?u div 2 ^ i)"
    using assms(2) by (simp add: even_mult_iff)
  then have "bit (be_nat path) (8 * ?m + i) \<longleftrightarrow> bit ?u i" by (simp only: bit_iff_odd)
  then show ?thesis by (simp add: bit_unsigned_iff)
qed

text \<open>The number of bits of a path below its sentinel.\<close>

definition path_depth :: "bytes \<Rightarrow> nat" where
  "path_depth path =
     8 * (length path - 1 - first_non_zero path) + msb_index (path ! first_non_zero path)"

lemma first_non_zero_prefix:
  "take (first_non_zero path) path = replicate (first_non_zero path) 0"
  by (induction path) (auto simp: first_non_zero_def)

lemma be_nat_zeros [simp]: "be_nat (replicate n 0) = 0"
  by (induction n) auto

lemma first_non_zero_nth:
  "first_non_zero path < length path \<Longrightarrow> path ! first_non_zero path \<noteq> 0"
  unfolding first_non_zero_def using nth_length_takeWhile by blast

lemma first_non_zero_all: "\<not> first_non_zero path < length path \<Longrightarrow> be_nat path = 0"
  using first_non_zero_prefix [of path] by (metis be_nat_zeros not_less take_all)

lemma path_depth_bounds:
  assumes "first_non_zero path < length path"
  shows "2 ^ path_depth path \<le> be_nat path" "be_nat path < 2 ^ Suc (path_depth path)"
proof -
  let ?f = "first_non_zero path"
  let ?m = "length path - 1 - ?f" and ?u = "unat (path ! ?f)"
  let ?k = "msb_index (path ! ?f)"
  define B where "B = be_nat (drop (Suc ?f) path)"
  have B: "B < 256 ^ ?m" using be_nat_less [of "drop (Suc ?f) path"] by (simp add: B_def)
  have "be_nat path = be_nat (replicate ?f 0 @ path ! ?f # drop (Suc ?f) path)"
    using id_take_nth_drop [OF assms] first_non_zero_prefix [of path] by simp
  then have n: "be_nat path = ?u * 256 ^ ?m + B"
    using assms by (simp add: be_nat_append B_def)
  have k: "2 ^ ?k \<le> ?u" "?u + 1 \<le> 2 ^ Suc ?k"
    using msb_index_bounds [OF first_non_zero_nth [OF assms]] by auto
  have e: "(2::nat) ^ path_depth path = 2 ^ ?k * 256 ^ ?m"
    by (simp add: path_depth_def power_add power_mult)
  have "(2::nat) ^ ?k * 256 ^ ?m \<le> ?u * 256 ^ ?m" using k(1) by (rule mult_le_mono1)
  then show "2 ^ path_depth path \<le> be_nat path" unfolding n e by (rule trans_le_add1)
  have "(?u + 1) * 256 ^ ?m \<le> 2 ^ Suc ?k * 256 ^ ?m" using k(2) by (rule mult_le_mono1)
  then show "be_nat path < 2 ^ Suc (path_depth path)" using B by (simp add: n e)
qed

lemma backref_loop_lookup:
  assumes "first_non_zero path < length path" "walk_ok vals w"
    and "first_non_zero path \<le> j" "j < length path" "i < 8"
    and "8 * (length path - 1 - j) + i \<le> path_depth path"
  shows "case path_lookup (be_nat path div 2 ^ (8 * (length path - 1 - j) + i)) (walk_value vals w) of
      Some r \<Rightarrow> \<exists>w'. backref_loop vals path (first_non_zero path) j i w = Inr w' \<and>
        walk_ok vals w' \<and> walk_value vals w' = r
    | None \<Rightarrow> backref_loop vals path (first_non_zero path) j i w =
        Inl (SerializationError ''Backreference path entered an atom'')"
  using assms(2-)
proof (induction "path_depth path - (8 * (length path - 1 - j) + i)" arbitrary: w i j rule: less_induct)
  case less
  let ?f = "first_non_zero path" and ?e = "8 * (length path - 1 - j) + i"
  let ?n = "be_nat path div 2 ^ ?e"
  note bounds = path_depth_bounds [OF assms(1)]
  show ?case
  proof (cases "?e = path_depth path")
    case True
    then have "?n = 1" using bounds by (intro div_nat_eqI) simp_all
    moreover have "\<not> (j > ?f \<or> i < msb_index (path ! ?f))"
      using True less.prems msb_index_le [of "path ! ?f"] by (auto simp: path_depth_def)
    ultimately show ?thesis using less.prems by (auto simp: backref_loop.simps [of _ _ _ j i])
  next
    case False
    then have lt: "?e < path_depth path" using less.prems by simp
    have "2 ^ Suc ?e \<le> be_nat path"
      using lt bounds(1) power_increasing [of "Suc ?e" "path_depth path" "2::nat"] by simp
    then have "2 ^ Suc ?e div 2 ^ ?e \<le> ?n" by (rule div_le_mono)
    then have n: "1 < ?n" by simp
    have half: "?n div 2 = be_nat path div 2 ^ Suc ?e" by (metis div_mult2_eq power_Suc2)
    have o: "odd ?n \<longleftrightarrow> bit (path ! j) i"
      using bit_be_nat [OF less.prems(3,4)] by (simp add: bit_iff_odd)
    have go: "j > ?f \<or> i < msb_index (path ! ?f)"
      using lt less.prems by (auto simp: path_depth_def)
    show ?thesis
    proof (cases "walk_value vals w")
      case (Atom b)
      with backref_step_value [OF less.prems(1), of "bit (path ! j) i"] n go less.prems
      show ?thesis by (simp add: backref_loop.simps [of _ _ _ j i])
    next
      case (Pair a d)
      with backref_step_value [OF less.prems(1), of "bit (path ! j) i"] obtain w' where
        w': "backref_step vals (bit (path ! j) i) w = Inr w'" "walk_ok vals w'"
          "walk_value vals w' = (if bit (path ! j) i then d else a)" by auto
      have next_val: "path_lookup ?n (walk_value vals w) =
          path_lookup (be_nat path div 2 ^ Suc ?e) (walk_value vals w')"
        using n Pair w'(3) o half by simp
      have step: "backref_loop vals path ?f j i w =
          (if i = 7 then backref_loop vals path ?f (j - 1) 0 w' else backref_loop vals path ?f j (i + 1) w')"
        using go less.prems w'(1) by (simp add: backref_loop.simps [of _ _ _ j i])
      show ?thesis
      proof (cases "i = 7")
        case True
        then have j: "?f < j" using go msb_index_le [of "path ! ?f"] by auto
        then have e: "8 * (length path - 1 - (j - 1)) + 0 = Suc ?e" using True less.prems by simp
        have st: "backref_loop vals path ?f j i w = backref_loop vals path ?f (j - 1) 0 w'"
          using step True by simp
        show ?thesis
          unfolding next_val st using less.hyps [of "j - 1" 0 w', unfolded e] lt j less.prems w'(2) by simp
      next
        case False
        have e: "8 * (length path - 1 - j) + (i + 1) = Suc ?e" by simp
        have st: "backref_loop vals path ?f j i w = backref_loop vals path ?f j (i + 1) w'"
          using step False by simp
        show ?thesis
          unfolding next_val st
          using less.hyps [of j "i + 1" w', unfolded e] lt less.prems w'(2) False by simp
      qed
    qed
  qed
qed

text \<open>Building the spine keeps the values and leaves right caches behind.\<close>

lemma stack_list_map_fst: "map fst xs = map fst ys \<Longrightarrow> stack_list xs = stack_list ys"
proof -
  have *: "stack_list vs = foldr Pair (map fst vs) NULL_SEXP" for vs
    by (simp add: stack_list_def foldr_map comp_def)
  show "map fst xs = map fst ys \<Longrightarrow> stack_list xs = stack_list ys" by (simp add: *)
qed

lemma caches_ok_cong:
  "caches_ok (xs @ ys) \<Longrightarrow> map fst ys = map fst ys' \<Longrightarrow> caches_ok ys' \<Longrightarrow> caches_ok (xs @ ys')"
proof (induction xs)
  case (Cons x xs)
  obtain v c where x: "x = (v, c)" by fastforce
  have "stack_list (xs @ ys) = stack_list (xs @ ys')"
    using Cons.prems by (intro stack_list_map_fst) simp
  moreover have "caches_ok (xs @ ys')" using Cons by (simp add: x)
  ultimately show ?case using Cons.prems(1) by (simp add: x)
qed simp

lemma caches_ok_suffix: "caches_ok (xs @ ys) \<Longrightarrow> caches_ok ys"
  by (induction xs) auto

lemma stack_spine_ok:
  "caches_ok (rev es @ vals) \<Longrightarrow> stack_spine es (stack_list vals) = (r, es') \<Longrightarrow>
   r = stack_list (rev es @ vals) \<and> map fst es' = map fst es \<and> caches_ok (rev es' @ vals)"
proof (induction es arbitrary: vals r es')
  case Nil
  then show ?case by simp
next
  case (Cons e es)
  obtain v c where e: "e = (v, c)" by fastforce
  let ?c = "Some (Pair v (stack_list vals))"
  have tail: "caches_ok ((v, c) # vals)"
    using Cons.prems(1) caches_ok_suffix [of "rev es" "(v, c) # vals"] by (simp add: e)
  obtain es'' where es'': "stack_spine es (Pair v (stack_list vals)) = (r, es'')" "es' = (v, ?c) # es''"
    using Cons.prems(2) tail by (cases c) (auto simp: e Let_def split: prod.splits)
  have "caches_ok (rev es @ (v, ?c) # vals)"
  proof (rule caches_ok_cong [of _ "(v, c) # vals"])
    show "caches_ok (rev es @ (v, c) # vals)" using Cons.prems(1) by (simp add: e)
    show "caches_ok ((v, ?c) # vals)" using tail by simp
  qed simp
  with Cons.IH [of "(v, ?c) # vals" r es''] es''
  have *: "r = stack_list (rev es @ (v, ?c) # vals)" "map fst es'' = map fst es"
    "caches_ok (rev es'' @ (v, ?c) # vals)" by simp_all
  have "stack_list (rev es @ (v, ?c) # vals) = stack_list (rev es @ (v, c) # vals)"
    by (rule stack_list_map_fst) simp
  with * show ?case by (simp add: es''(2) e)
qed


lemma traverse_lookup:
  assumes "caches_ok vals"
  shows "case path_lookup (be_nat path) (stack_list vals) of
      Some r \<Rightarrow> \<exists>vals'. traverse_backref_path vals path = Inr (r, vals') \<and>
        map fst vals' = map fst vals \<and> caches_ok vals'
    | None \<Rightarrow> traverse_backref_path vals path =
        Inl (SerializationError ''Backreference path entered an atom'')"
proof (cases "first_non_zero path < length path")
  case False
  with assms first_non_zero_all [OF this] show ?thesis by (simp add: traverse_backref_path_def)
next
  case True
  let ?w = "\<lparr>parsing = (vals = []), stack_index = length vals - 1, current = NULL_SEXP\<rparr>"
  let ?loop = "backref_loop vals path (first_non_zero path) (length path - 1) 0 ?w"
  have start: "walk_ok vals ?w" "walk_value vals ?w = stack_list vals"
    by (cases vals; simp add: walk_ok_def walk_value_def)+
  have loop: "case path_lookup (be_nat path) (stack_list vals) of
      Some r \<Rightarrow> \<exists>w'. ?loop = Inr w' \<and> walk_ok vals w' \<and> walk_value vals w' = r
    | None \<Rightarrow> ?loop = Inl (SerializationError ''Backreference path entered an atom'')"
    using backref_loop_lookup [OF True start(1), of "length path - 1" 0] True start(2) by simp
  show ?thesis
  proof (cases "path_lookup (be_nat path) (stack_list vals)")
    case None
    with loop True show ?thesis by (simp add: traverse_backref_path_def Let_def)
  next
    case (Some r)
    with loop obtain w where w: "?loop = Inr w" "walk_ok vals w" "walk_value vals w = r" by auto
    show ?thesis
    proof (cases "parsing w")
      case True
      with w Some \<open>first_non_zero path < _\<close> assms show ?thesis
        by (simp add: traverse_backref_path_def Let_def walk_value_def)
    next
      case False
      with w(2) have i: "stack_index w < length vals" by (simp add: walk_ok_def)
      let ?k = "length vals - 1 - stack_index w"
      define es where "es = take (stack_index w + 1) (rev vals)"
      have es: "rev es = drop ?k vals" using i by (simp add: es_def take_rev)
      have above: "rev (drop (stack_index w + 1) (rev vals)) = take ?k vals"
        using i by (simp add: drop_rev)
      obtain r' es' where sp: "stack_spine es NULL_SEXP = (r', es')" by fastforce
      have ok: "caches_ok (drop ?k vals)"
        using assms caches_ok_suffix [of "take ?k vals" "drop ?k vals"] by simp
      with stack_spine_ok [of es "[]" r' es'] sp es
      have r': "r' = r" "map fst es' = map fst es" "caches_ok (rev es')"
        using w(3) False by (auto simp: walk_value_def)
      have m: "map fst (rev es') = map fst (drop ?k vals)"
        using r'(2) es by (metis rev_map)
      then have "map fst (take ?k vals @ rev es') = map fst vals"
        by (metis append_take_drop_id map_append)
      moreover have "caches_ok (take ?k vals @ rev es')"
        by (rule caches_ok_cong [of "take ?k vals" "drop ?k vals"])
          (simp_all only: append_take_drop_id assms m r'(3))
      ultimately show ?thesis
        using w(1) Some True False sp r'(1) above
        by (simp add: traverse_backref_path_def Let_def es_def)
    qed
  qed
qed

section \<open>The back-reference parser against a reference\<close>

text \<open>
  The reference parser keeps plain values on its stack and resolves a back-reference by looking its
  path up in the stack read as a list; there are no cached spines and no index arithmetic.
\<close>

definition resolve_backref :: "sexp list \<Rightarrow> bytes \<Rightarrow> clvm_error + sexp" where
  "resolve_backref vals path =
     ok_or (path_lookup (be_nat path) (foldr Pair vals NULL_SEXP))
       (SerializationError ''Backreference path entered an atom'')"

function backrefs_spec :: "parser_op list \<Rightarrow> sexp list \<Rightarrow> bytes \<Rightarrow> clvm_error + sexp \<times> bytes" where
  "backrefs_spec [] vals stream = (case vals of [] \<Rightarrow> Inl InvalidSyntax | v # _ \<Rightarrow> Inr (v, stream))"
| "backrefs_spec (Exp # ops) vals stream =
     (case stream of
        [] \<Rightarrow> Inl UnexpectedEndOfValues
      | b # rest \<Rightarrow>
          if b = CONS_BOX_MARKER then backrefs_spec (Exp # Exp # Cons # ops) vals rest
          else if b = BACK_REFERENCE then
            bind_res (parse_backref_path rest) (\<lambda>p.
              bind_res (resolve_backref vals (fst p)) (\<lambda>v. backrefs_spec ops (v # vals) (snd p)))
          else bind_res (parse_atom_from_first_byte rest b) (\<lambda>a.
            backrefs_spec ops (fst a # vals) (snd a)))"
| "backrefs_spec (Cons # ops) vals stream =
     (case vals of y # x # vs \<Rightarrow> backrefs_spec ops (Pair x y # vs) stream | _ \<Rightarrow> Inl BadEncoding)"
  by pat_completeness auto
termination
proof (relation "measure (\<lambda>(ops, vals, stream). 3 * length stream + length ops)", goal_cases)
  case (3 ops vals stream b rest p v)
  then have "length (snd p) < length rest" by (cases p) (auto dest: parse_backref_path_shorter)
  with 3 show ?case by simp
next
  case (4 ops vals stream b rest a)
  then have "length (snd a) \<le> length rest" by (cases a) (auto dest: parse_atom_shorter)
  with 4 show ?case by simp
qed auto

declare backrefs_spec.simps(2) [simp del]

lemma stack_list_fst: "stack_list vals = foldr Pair (map fst vals) NULL_SEXP"
  by (simp add: stack_list_def foldr_map comp_def)

lemma traverse_resolve:
  assumes "caches_ok vals"
  shows "case traverse_backref_path vals path of
      Inl e \<Rightarrow> resolve_backref (map fst vals) path = Inl e
    | Inr (v, vals') \<Rightarrow> resolve_backref (map fst vals) path = Inr v \<and>
        map fst vals' = map fst vals \<and> caches_ok vals'"
  using traverse_lookup [OF assms, of path]
  by (auto simp: resolve_backref_def stack_list_fst split: option.splits)

lemma backrefs_loop_spec:
  "caches_ok vals \<Longrightarrow> sexp_from_bytes_backrefs_loop ops vals stream = backrefs_spec ops (map fst vals) stream"
proof (induction ops vals stream rule: sexp_from_bytes_backrefs_loop.induct)
  case (1 vals stream)
  show ?case by (cases vals) auto
next
  case (2 ops vals stream)
  show ?case
  proof (cases stream)
    case Nil
    then show ?thesis by (simp add: sexp_from_bytes_backrefs_loop.simps(2) backrefs_spec.simps(2))
  next
    case (Cons b rest)
    consider "b = CONS_BOX_MARKER" | "b \<noteq> CONS_BOX_MARKER" "b = BACK_REFERENCE"
      | "b \<noteq> CONS_BOX_MARKER" "b \<noteq> BACK_REFERENCE" by blast
    then show ?thesis
    proof cases
      case 1
      with 2 Cons show ?thesis
        by (simp add: sexp_from_bytes_backrefs_loop.simps(2) backrefs_spec.simps(2))
    next
      case b: 2
      have "bind_res (traverse_backref_path vals (fst p)) (\<lambda>t.
              sexp_from_bytes_backrefs_loop ops ((fst t, None) # snd t) (snd p)) =
            bind_res (resolve_backref (map fst vals) (fst p)) (\<lambda>v.
              backrefs_spec ops (v # map fst vals) (snd p))"
        if "parse_backref_path rest = Inr p" for p
        using traverse_resolve [OF 2(4), of "fst p"] 2(2) [OF Cons b that]
        by (cases "traverse_backref_path vals (fst p)") (auto split: prod.splits)
      with b Cons show ?thesis
        by (simp add: sexp_from_bytes_backrefs_loop.simps(2) backrefs_spec.simps(2) cong: bind_res_cong)
    next
      case b: 3
      with 2(3) [OF Cons b] 2(4) Cons show ?thesis
        by (simp add: sexp_from_bytes_backrefs_loop.simps(2) backrefs_spec.simps(2) cong: bind_res_cong)
    qed
  qed
next
  case (3 ops vals stream)
  then show ?case by (auto split: list.splits)
qed

text \<open>
  C7: the parser with back-references, with its cached spines, its index into the value stack and
  its byte and bit cursors, computes what the reference parser computes, errors included.
\<close>

theorem sexp_from_bytes_backrefs_spec:
  "sexp_from_bytes_backrefs stream =
     (if stream = [] then Inr (NULL_SEXP, []) else backrefs_spec [Exp] [] stream)"
  by (simp add: sexp_from_bytes_backrefs_def backrefs_loop_spec)

text \<open>
  C8: a stream the plain parser accepts has no back-reference, and the other parser reads it to the
  same value and the same rest.
\<close>

theorem backrefs_extend_plain:
  assumes "sexp_from_bytes stream = Inr r"
  shows "sexp_from_bytes_backrefs stream = Inr r"
  using assms backrefs_loop_extends [of "[Exp]" "[]" stream r "[]"]
  by (auto simp: sexp_from_bytes_def sexp_from_bytes_backrefs_def split: if_splits)

lemma backrefs_extend_plain_witness:
  "sexp_from_bytes_backrefs [0xff, 5, 0x80, 9] = Inr (Pair (Atom [5]) NULL_SEXP, [9])"
  by (rule backrefs_extend_plain)
    (simp add: sexp_from_bytes_def sexp_from_bytes_loop.simps(2) markers)

end
