(* ===== verification/ClvmCanonical.thy ===== *)
theory ClvmCanonical
  imports ClvmSexp
begin

text \<open>
  The two canonical checks, \<^verbatim>\<open>is_clvm_canonical\<close> (\<^verbatim>\<open>core/src/clvm/utils.rs\<close>) and \<^verbatim>\<open>is_canonical_serialization\<close>
  (\<^verbatim>\<open>core/src/clvm/parser.rs\<close>), against the printer and the parser.
\<close>

section \<open>What the canonical checks accept\<close>

text \<open>The size bytes of an atom, read with shift and or, have the value of \<open>size_value\<close>.\<close>

lemma shift_or_add: "push_bit 8 v OR ucast (c :: u8) = push_bit 8 (v :: u64) + ucast c"
proof -
  have "push_bit 8 v AND mask 8 = 0" by (simp add: bit_eq_iff bit_simps)
  then show ?thesis by (intro or_mark [where m = 8]) simp_all
qed

lemma read_size_eq:
  "read_size clvm at n v =
     (if at + n \<le> length clvm \<or> n = 0
      then Some (foldl (\<lambda>v b. push_bit 8 v + ucast b) v (take n (drop at clvm))) else None)"
proof (induction n arbitrary: at v)
  case (Suc n)
  show ?case
  proof (cases "at < length clvm")
    case True
    then have "drop at clvm = clvm ! at # drop (Suc at) clvm" by (rule Cons_nth_drop_Suc [symmetric])
    with True Suc show ?thesis by (auto simp: shift_or_add)
  qed simp
qed simp

text \<open>The least length whose prefix needs \<open>k\<close> bytes.\<close>

definition class_floor :: "nat \<Rightarrow> nat" where
  "class_floor k = (if k \<le> 1 then 1 else 2 ^ (7 * k - 8))"

lemma prefix_masks:
  fixes b :: u8
  shows "b AND 0xc0 = 0x80 \<longleftrightarrow> 0x80 \<le> b \<and> b < 0xc0" "b AND 0xe0 = 0xc0 \<longleftrightarrow> 0xc0 \<le> b \<and> b < 0xe0"
    "b AND 0xf0 = 0xe0 \<longleftrightarrow> 0xe0 \<le> b \<and> b < 0xf0" "b AND 0xf8 = 0xf0 \<longleftrightarrow> 0xf0 \<le> b \<and> b < 0xf8"
    "b AND 0xfc = 0xf8 \<longleftrightarrow> 0xf8 \<le> b \<and> b < 0xfc"
proof -
  have "\<forall>b :: u8. (b AND 0xc0 = 0x80 \<longleftrightarrow> 0x80 \<le> b \<and> b < 0xc0) \<and>
      (b AND 0xe0 = 0xc0 \<longleftrightarrow> 0xc0 \<le> b \<and> b < 0xe0) \<and> (b AND 0xf0 = 0xe0 \<longleftrightarrow> 0xe0 \<le> b \<and> b < 0xf0) \<and>
      (b AND 0xf8 = 0xf0 \<longleftrightarrow> 0xf0 \<le> b \<and> b < 0xf8) \<and> (b AND 0xfc = 0xf8 \<longleftrightarrow> 0xf8 \<le> b \<and> b < 0xfc)"
    unfolding forall_bytes by code_simp
  then show "b AND 0xc0 = 0x80 \<longleftrightarrow> 0x80 \<le> b \<and> b < 0xc0" "b AND 0xe0 = 0xc0 \<longleftrightarrow> 0xc0 \<le> b \<and> b < 0xe0"
    "b AND 0xf0 = 0xe0 \<longleftrightarrow> 0xe0 \<le> b \<and> b < 0xf0" "b AND 0xf8 = 0xf0 \<longleftrightarrow> 0xf0 \<le> b \<and> b < 0xf8"
    "b AND 0xfc = 0xf8 \<longleftrightarrow> 0xf8 \<le> b \<and> b < 0xfc" by blast+
qed

lemma prefix_payload:
  fixes b :: u8
  shows "0x80 \<le> b \<Longrightarrow> b < 0xc0 \<Longrightarrow> b AND 0x3f = b - 0x80" "0xc0 \<le> b \<Longrightarrow> b < 0xe0 \<Longrightarrow> b AND 0x1f = b - 0xc0"
    "0xe0 \<le> b \<Longrightarrow> b < 0xf0 \<Longrightarrow> b AND 0x0f = b - 0xe0" "0xf0 \<le> b \<Longrightarrow> b < 0xf8 \<Longrightarrow> b AND 0x07 = b - 0xf0"
    "0xf8 \<le> b \<Longrightarrow> b < 0xfc \<Longrightarrow> b AND 0x03 = b - 0xf8" "0xfc \<le> b \<Longrightarrow> b < 0xfe \<Longrightarrow> b AND 0x01 = b - 0xfc"
proof -
  have "\<forall>b :: u8. (b < 0x80 \<or> \<not> b < 0xc0 \<or> b AND 0x3f = b - 0x80) \<and> (b < 0xc0 \<or> \<not> b < 0xe0 \<or> b AND 0x1f = b - 0xc0) \<and>
     (b < 0xe0 \<or> \<not> b < 0xf0 \<or> b AND 0x0f = b - 0xe0) \<and> (b < 0xf0 \<or> \<not> b < 0xf8 \<or> b AND 0x07 = b - 0xf0) \<and>
     (b < 0xf8 \<or> \<not> b < 0xfc \<or> b AND 0x03 = b - 0xf8) \<and> (b < 0xfc \<or> \<not> b < 0xfe \<or> b AND 0x01 = b - 0xfc)"
    unfolding forall_bytes by code_simp
  then show "0x80 \<le> b \<Longrightarrow> b < 0xc0 \<Longrightarrow> b AND 0x3f = b - 0x80" "0xc0 \<le> b \<Longrightarrow> b < 0xe0 \<Longrightarrow> b AND 0x1f = b - 0xc0"
    "0xe0 \<le> b \<Longrightarrow> b < 0xf0 \<Longrightarrow> b AND 0x0f = b - 0xe0" "0xf0 \<le> b \<Longrightarrow> b < 0xf8 \<Longrightarrow> b AND 0x07 = b - 0xf0"
    "0xf8 \<le> b \<Longrightarrow> b < 0xfc \<Longrightarrow> b AND 0x03 = b - 0xf8" "0xfc \<le> b \<Longrightarrow> b < 0xfe \<Longrightarrow> b AND 0x01 = b - 0xfc"
    by (simp_all only: not_less [symmetric]) blast+
qed

lemmas prefix_simps =
  prefix_payload [unfolded word_less_nat_alt word_le_nat_alt]
  atom_prefix_def [unfolded prefix_masks, unfolded word_less_nat_alt word_le_nat_alt]
  prefix_class_def [unfolded word_less_nat_alt word_le_nat_alt] class_floor_def

lemma atom_prefix_class:
  assumes "0x80 \<le> b" "b < 0xfe"
  obtains m where "atom_prefix b = (snd (prefix_class b) - 1, m, of_nat (class_floor (snd (prefix_class b))))"
    "b AND m = fst (prefix_class b)"
proof -
  have r: "0x80 \<le> unat b" "unat b < 0xfe" using assms by (simp_all add: word_le_nat_alt word_less_nat_alt)
  then consider "unat b < 0xc0" | "0xc0 \<le> unat b" "unat b < 0xe0" | "0xe0 \<le> unat b" "unat b < 0xf0"
    | "0xf0 \<le> unat b" "unat b < 0xf8" | "0xf8 \<le> unat b" "unat b < 0xfc" | "0xfc \<le> unat b" by linarith
  then show ?thesis
  proof cases
    case 1
    with r show ?thesis by (intro that [of "0x3f"]) (simp_all add: prefix_simps)
  next
    case 2
    with r show ?thesis by (intro that [of "0x1f"]) (simp_all add: prefix_simps)
  next
    case 3
    with r show ?thesis by (intro that [of "0x0f"]) (simp_all add: prefix_simps)
  next
    case 4
    with r show ?thesis by (intro that [of "0x07"]) (simp_all add: prefix_simps)
  next
    case 5
    with r show ?thesis by (intro that [of "0x03"]) (simp_all add: prefix_simps)
  next
    case 6
    with r show ?thesis by (intro that [of "0x01"]) (simp_all add: prefix_simps)
  qed
qed

lemma class_floor_of_size: "1 \<le> n \<Longrightarrow> class_floor (size_bytes n) \<le> n"
  by (auto simp: class_floor_def size_bytes_def)

lemma unat_class_floor: "k \<le> 6 \<Longrightarrow> unat (of_nat (class_floor k) :: u64) = class_floor k"
proof -
  assume "k \<le> 6"
  then consider "k = 0" | "k = 1" | "k = 2" | "k = 3" | "k = 4" | "k = 5" | "k = 6" by linarith
  then show ?thesis by cases (simp_all add: class_floor_def)
qed

text \<open>One token of a buffer: what the checker does with a pair and with an atom.\<close>

lemma canonical_pair:
  "off < length clvm \<Longrightarrow> clvm ! off = 0xff \<Longrightarrow>
   clvm_canonical_loop clvm off t = clvm_canonical_loop clvm (off + 1) (t + 1)"
  by (simp add: clvm_canonical_loop.simps [of clvm off])

lemma canonical_short:
  "off < length clvm \<Longrightarrow> clvm ! off \<le> 0x80 \<Longrightarrow>
   clvm_canonical_loop clvm off (Suc t) =
     (if t = 0 then off + 1 = length clvm else clvm_canonical_loop clvm (off + 1) t)"
  by (subst clvm_canonical_loop.simps) (auto simp: Let_def)

lemma canonical_long:
  assumes off: "off < length clvm" "clvm ! off = b" and b: "0x80 < b" "b < 0xfe"
    and k: "k = snd (prefix_class b)"
    and n: "n = be_nat (fst (prefix_class b) # take (k - 1) (drop (off + 1) clvm))"
    and len: "length clvm < 2 ^ 63"
  shows "clvm_canonical_loop clvm off (Suc t) \<longleftrightarrow>
     off + k \<le> length clvm \<and> class_floor k \<le> n \<and>
     (if t = 0 then off + k + n = length clvm else clvm_canonical_loop clvm (off + k + n) t)"
proof -
  have k6: "1 \<le> k" "k \<le> 6" using b by (auto simp: k prefix_class_def)
  obtain m where m: "atom_prefix b = (k - 1, m, of_nat (class_floor k))" "b AND m = fst (prefix_class b)"
    unfolding k using b by (blast intro: atom_prefix_class less_imp_le)
  define v where "v = size_value (fst (prefix_class b) # take (k - 1) (drop (off + 1) clvm))"
  have v: "unat v = n" using k6 unat_size_value [of "fst (prefix_class b) # take (k - 1) (drop (off + 1) clvm)"]
    by (simp add: v_def n)
  have n48: "n < 2 ^ 48"
  proof -
    have "n < 256 ^ length (fst (prefix_class b) # take (k - 1) (drop (off + 1) clvm))"
      unfolding n by (rule be_nat_less)
    also have "\<dots> \<le> 256 ^ 6" using k6 by (intro power_increasing) auto
    finally show ?thesis by simp
  qed
  have rd: "read_size clvm (Suc off) (k - 1) (ucast (fst (prefix_class b))) =
      (if off + k \<le> length clvm then Some v else None)"
    using k6 off(1) by (auto simp: read_size_eq v_def size_value_def)
  have nb: "b \<noteq> 0xff" "b \<noteq> 0xfe" "\<not> b \<le> 0x80" using b by auto
  have cmp: "v < of_nat (class_floor k) \<longleftrightarrow> \<not> class_floor k \<le> n"
    using unat_class_floor [OF k6(2)] by (simp add: word_less_nat_alt v not_le)
  have "off + 1 + (k - 1) + unat v = off + k + n" using k6 v by simp
  moreover have "\<not> off + k + n \<ge> 2 ^ 64" using n48 k6 off(1) len by simp
  ultimately show ?thesis
    using off nb m rd cmp k6 v
    by (subst clvm_canonical_loop.simps) (auto simp: Let_def)
qed


text \<open>The printer's output is accepted: the length prefix of an atom is the one of its length.\<close>

lemma encode_size_class:
  assumes "encode_size sz = Inr (b # p)"
  shows "snd (prefix_class b) = size_bytes (unat sz)" "length p = size_bytes (unat sz) - 1"
    "be_nat (fst (prefix_class b) # p) = unat sz"
proof -
  let ?n = "unat sz" and ?k = "size_bytes (unat sz)"
  have n: "?n < 2 ^ 34" using assms by (rule encode_size_bound)
  with assms have b: "b = of_nat (prefix_mark ?k + ?n div 256 ^ (?k - 1))"
    and p: "p = be_bytes (?k - 1) ?n"
    by (simp_all add: encode_size_nat Let_def)
  show l: "length p = ?k - 1" by (simp add: p)
  show c: "snd (prefix_class b) = ?k"
    using prefix_class_mark(1) [OF size_bytes_range size_head_bound [OF n]] by (simp add: b)
  have d: "decode_size (p @ []) b = Inr (sz, [])" using assms by (rule decode_encode_size)
  then obtain tail where "p @ [] = tail @ []" "?n = be_nat (fst (prefix_class b) # tail)"
    by (rule decode_size_Inr)
  then show "be_nat (fst (prefix_class b) # p) = ?n" by simp
qed

lemma atom_bytes_cases:
  assumes "atom_bytes data = Inr bs"
  obtains (short) b where "bs = [b]" "b \<le> 0x80"
  | (long) b p where "bs = b # p @ data" "encode_size (of_nat (length data)) = Inr (b # p)" "data \<noteq> []"
proof -
  consider "data = []" | d where "data = [d]" "d \<le> MAX_SINGLE_BYTE"
    | "data \<noteq> []" "\<not> (length data = 1 \<and> data ! 0 \<le> MAX_SINGLE_BYTE)"
    by (cases data) (use that in auto)
  then show ?thesis
  proof cases
    case 1
    with assms show ?thesis by (intro short [of "0x80"]) (simp_all add: atom_bytes_def)
  next
    case 2
    then have "d \<le> 0x80" by (simp add: markers word_le_nat_alt)
    with 2 assms show ?thesis by (intro short [of d]) (simp_all add: atom_bytes_def)
  next
    case 3
    with assms obtain pre where pre: "encode_size (of_nat (length data)) = Inr pre" "bs = pre @ data"
      by (auto simp: atom_bytes_def)
    obtain b p where "pre = b # p" using encode_size_Cons [OF pre(1)] by blast
    with pre 3 show ?thesis by (intro long [of b p]) simp_all
  qed
qed

lemma canonical_atom_bytes:
  assumes "atom_bytes data = Inr bs" and len: "length (pre @ bs @ rest) < 2 ^ 63"
  shows "clvm_canonical_loop (pre @ bs @ rest) (length pre) (Suc t) =
     (if t = 0 then rest = [] else clvm_canonical_loop (pre @ bs @ rest) (length pre + length bs) t)"
  using assms(1)
proof (cases rule: atom_bytes_cases)
  case (short b)
  with canonical_short [of "length pre" "pre @ bs @ rest" t] show ?thesis by simp
next
  case (long b p)
  let ?c = "pre @ bs @ rest" and ?n = "length data"
  have n: "unat (of_nat ?n :: u64) = ?n" using len long(1) by (simp add: unat_of_nat)
  note cls = encode_size_class [OF long(2), unfolded n]
  have h: "0x80 \<le> b" "b < 0xfe" "b \<noteq> 0x80"
    using encode_size_head [OF long(2)] long(3) n by (auto simp: word_unat_eq_iff)
  then have b: "0x80 < b" "b < 0xfe" by simp_all
  have k: "1 \<le> size_bytes ?n" by (rule size_bytes_range)
  have tk: "take (size_bytes ?n - 1) (drop (length pre + 1) ?c) = p"
    using cls(2) by (simp add: long(1))
  have "class_floor (size_bytes ?n) \<le> ?n" using long(3) by (intro class_floor_of_size) (simp add: Suc_leI)
  moreover have "length pre + size_bytes ?n + ?n = length pre + length bs"
    using cls(2) k by (simp add: long(1))
  moreover have "length pre < length ?c" "?c ! length pre = b" by (simp_all add: long(1))
  moreover have "length pre + size_bytes ?n \<le> length ?c" using cls(2) k by (simp add: long(1))
  moreover have "length pre + length bs = length ?c \<longleftrightarrow> rest = []" by simp
  moreover have "?n = be_nat (fst (prefix_class b) # take (size_bytes ?n - 1) (drop (length pre + 1) ?c))"
    by (simp only: tk cls(3))
  ultimately show ?thesis
    using canonical_long [of "length pre" ?c b "size_bytes ?n" ?n t, OF _ _ b cls(1) [symmetric] _ len]
    by metis
qed

lemma canonical_sexp_bytes:
  "sexp_bytes s = Inr bs \<Longrightarrow> length (pre @ bs @ rest) < 2 ^ 63 \<Longrightarrow>
   clvm_canonical_loop (pre @ bs @ rest) (length pre) (Suc t) =
     (if t = 0 then rest = [] else clvm_canonical_loop (pre @ bs @ rest) (length pre + length bs) t)"
proof (induction s arbitrary: bs pre rest t)
  case (Atom data)
  then show ?case by (simp add: canonical_atom_bytes)
next
  case (Pair a d)
  then obtain x y where xy: "sexp_bytes a = Inr x" "sexp_bytes d = Inr y" "bs = 0xff # x @ y"
    by (auto simp: CONS_BOX_MARKER_def)
  let ?c = "pre @ bs @ rest"
  have "clvm_canonical_loop ?c (length pre) (Suc t) = clvm_canonical_loop ?c (length pre + 1) (Suc (Suc t))"
    using canonical_pair [of "length pre" ?c "Suc t"] xy(3) by simp
  also have "\<dots> = clvm_canonical_loop ?c (length pre + 1 + length x) (Suc t)"
    using Pair.IH(1) [OF xy(1), of "pre @ [0xff]" "y @ rest" "Suc t"] Pair.prems xy(3) by simp
  also have "\<dots> = (if t = 0 then rest = [] else clvm_canonical_loop ?c (length pre + length bs) t)"
    using Pair.IH(2) [OF xy(2), of "pre @ [0xff] @ x" rest t] Pair.prems xy(3) by (simp add: add.assoc)
  finally show ?case .
qed


text \<open>
  What is accepted parses. The operations still to be done fit the values on the stack; an accepted
  buffer has one token for each pending expression.
\<close>

fun ops_fit :: "parser_op list \<Rightarrow> nat \<Rightarrow> bool" where
  "ops_fit [] n = (n = 1)"
| "ops_fit (Exp # ops) n = ops_fit ops (Suc n)"
| "ops_fit (Cons # ops) n = (2 \<le> n \<and> ops_fit ops (n - 1))"

definition pending :: "parser_op list \<Rightarrow> nat" where
  "pending ops = length (filter (\<lambda>p. p = Exp) ops)"

lemma pending_simps [simp]:
  "pending [] = 0" "pending (Exp # ops) = Suc (pending ops)" "pending (Cons # ops) = pending ops"
  by (simp_all add: pending_def)

lemma loop_no_pending:
  "pending ops = 0 \<Longrightarrow> ops_fit ops (length vals) \<Longrightarrow> \<exists>s. sexp_from_bytes_loop ops vals stream = Inr (s, stream)"
proof (induction ops arbitrary: vals)
  case Nil
  then show ?case by (cases vals) auto
next
  case (Cons p ops)
  then have p: "p = Cons" by (cases p) auto
  with Cons.prems obtain x y vs where "vals = x # y # vs"
    by (metis One_nat_def Suc_1 Suc_le_length_iff ops_fit.simps(3))
  with Cons p show ?case by simp
qed

lemma parse_atom_canonical:
  assumes tok: "clvm_canonical_loop clvm off (Suc t)" and len: "length clvm < 2 ^ 34"
    and st: "drop off clvm = b # rest" "b \<noteq> CONS_BOX_MARKER"
  obtains a off' where "parse_atom_from_first_byte rest b = Inr (a, drop off' clvm)" "off < off'"
    "t = 0 \<longrightarrow> off' = length clvm" "0 < t \<longrightarrow> clvm_canonical_loop clvm off' t"
proof -
  have off: "off < length clvm" "clvm ! off = b" "rest = drop (off + 1) clvm"
    using st(1) by (metis drop_all list.distinct(1) not_less, metis nth_via_drop, metis Suc_eq_plus1 drop_Suc list.sel(3) tl_drop)
  show ?thesis
  proof (cases "b \<le> 0x80")
    case True
    then have "b = 0x80 \<or> b \<le> MAX_SINGLE_BYTE"
      by (auto simp: markers word_le_nat_alt word_unat_eq_iff)
    then obtain a where "parse_atom_from_first_byte rest b = Inr (a, rest)"
      by (cases "b = 0x80") (auto simp: parse_atom_from_first_byte_def)
    with tok canonical_short [OF off(1)] True off show ?thesis by (intro that [of a "off + 1"]) auto
  next
    case False
    have "b \<noteq> 0xfe" using tok off by (auto simp: clvm_canonical_loop.simps [of clvm off])
    then have "unat b \<noteq> 0xfe" "unat b \<noteq> 0xff" using st(2) by (auto simp: markers word_unat_eq_iff)
    with unat_byte_less [of b] have "unat b < 0xfe" by linarith
    with False have b: "0x80 < b" "b < 0xfe" by (simp_all add: word_less_nat_alt not_le)
    obtain h k where hk: "prefix_class b = (h, k)" by fastforce
    have k6: "1 \<le> k" "k \<le> 6" using b hk by (auto simp: prefix_class_def split: if_splits)
    define p where "p = take (k - 1) rest"
    let ?n = "be_nat (h # p)"
    have can: "off + k \<le> length clvm" "if t = 0 then off + k + ?n = length clvm
        else clvm_canonical_loop clvm (off + k + ?n) t"
      using canonical_long [OF off(1,2) b, of k ?n t] tok len hk off(3) by (auto simp: p_def)
    have n: "off + k + ?n \<le> length clvm"
    proof (cases "t = 0")
      case False
      with can(2) show ?thesis by (subst (asm) clvm_canonical_loop.simps) (auto split: if_splits)
    qed (use can in simp)
    have rest: "rest = p @ drop (k - 1) rest" "length p = k - 1"
      using can(1) k6 off by (simp_all add: p_def del: drop_drop)
    have d: "decode_size rest b = Inr (size_value (h # p), drop (k - 1) rest)"
      using decode_sizeI [of b h k p "drop (k - 1) rest"] b hk k6 rest n len by simp
    have v: "unat (size_value (h # p)) = ?n" using k6 rest(2) by (intro unat_size_value) simp
    have "b \<noteq> 0x80" "\<not> b \<le> MAX_SINGLE_BYTE" using b by (auto simp: markers word_less_nat_alt word_le_nat_alt)
    then have "parse_atom_from_first_byte rest b =
        Inr (Atom (take ?n (drop (k - 1) rest)), drop (off + k + ?n) clvm)"
      using d v n k6 off by (simp add: parse_atom_from_first_byte_def add.commute add.left_commute)
    with can(2) k6 show ?thesis by (intro that [of _ "off + k + ?n"]) auto
  qed
qed

lemma canonical_parses:
  "ops_fit ops (length vals) \<Longrightarrow> pending ops = Suc t \<Longrightarrow> length clvm < 2 ^ 34 \<Longrightarrow>
   clvm_canonical_loop clvm off (Suc t) \<Longrightarrow>
   \<exists>s. sexp_from_bytes_loop ops vals (drop off clvm) = Inr (s, [])"
proof (induction "3 * (length clvm - off) + length ops" arbitrary: ops vals t off rule: less_induct)
  case less
  have off: "off < length clvm"
    using less.prems(4) by (auto simp: clvm_canonical_loop.simps [of clvm off] split: if_splits)
  then obtain b rest where st: "drop off clvm = b # rest" by (metis Cons_nth_drop_Suc)
  then have b: "clvm ! off = b" "drop (off + 1) clvm = rest"
    by (metis nth_via_drop, metis Suc_eq_plus1 drop_Suc list.sel(3) tl_drop)
  obtain p ops' where ops: "ops = p # ops'" using less.prems(2) by (cases ops) auto
  show ?case
  proof (cases p)
    case Exp
    show ?thesis
    proof (cases "b = CONS_BOX_MARKER")
      case True
      then have "clvm_canonical_loop clvm (off + 1) (Suc (Suc t))"
        using canonical_pair [OF off] b less.prems(4) by (simp add: CONS_BOX_MARKER_def)
      moreover have "3 * (length clvm - (off + 1)) + length (Exp # Exp # Cons # ops') < 3 * (length clvm - off) + length ops"
        using off by (simp add: ops)
      ultimately have "\<exists>s. sexp_from_bytes_loop (Exp # Exp # Cons # ops') vals (drop (off + 1) clvm) = Inr (s, [])"
        using less.prems by (intro less.hyps [of "off + 1" _ _ "Suc t"]) (simp_all add: ops Exp)
      then show ?thesis by (simp add: st ops Exp True sexp_loop_cons b(2) [simplified])
    next
      case False
      obtain a off' where a: "parse_atom_from_first_byte rest b = Inr (a, drop off' clvm)" "off < off'"
        "t = 0 \<longrightarrow> off' = length clvm" "0 < t \<longrightarrow> clvm_canonical_loop clvm off' t"
        using less.prems(4,3) st False by (rule parse_atom_canonical)
      have fit: "ops_fit ops' (length (a # vals))" "pending ops' = t"
        using less.prems(1,2) by (simp_all add: ops Exp)
      have "\<exists>s. sexp_from_bytes_loop ops' (a # vals) (drop off' clvm) = Inr (s, [])"
      proof (cases t)
        case 0
        with a(3) fit loop_no_pending [of ops' "a # vals" "[]"] show ?thesis by simp
      next
        case (Suc t')
        moreover have "3 * (length clvm - off') + length ops' < 3 * (length clvm - off) + length ops"
          using a(2) by (simp add: ops)
        ultimately show ?thesis
          using a(4) fit less.prems(3) by (intro less.hyps [of off' ops' _ t']) simp_all
      qed
      then show ?thesis by (simp add: st ops Exp False sexp_from_bytes_loop_atom a(1))
    qed
  next
    case Cons
    with less.prems(1) obtain x y vs where vals: "vals = x # y # vs"
      by (metis One_nat_def Suc_1 Suc_le_length_iff ops ops_fit.simps(3))
    have "\<exists>s. sexp_from_bytes_loop ops' (Pair y x # vs) (drop off clvm) = Inr (s, [])"
      using less.prems Cons by (intro less.hyps [of off ops' _ t]) (simp_all add: ops vals)
    then show ?thesis by (simp add: ops Cons vals)
  qed
qed


text \<open>The check that allows back-references, on what the printer writes for one atom.\<close>

lemma leading_ones8_class: "leading_ones8 b = snd (prefix_class b)"
proof -
  have "\<forall>b. leading_ones8 b = snd (prefix_class b)" unfolding forall_bytes by code_simp
  then show ?thesis ..
qed

lemma min_prefix_value_size:
  assumes "1 \<le> n"
  obtains m where "min_prefix_value (size_bytes n) = Some m" "m \<le> n \<longleftrightarrow> n < 2 ^ 27 \<or> 2 ^ 28 \<le> n"
proof -
  consider "n < 0x40" | "\<not> n < 0x40" "n < 0x2000" | "\<not> n < 0x2000" "n < 0x100000"
    | "\<not> n < 0x100000" "n < 0x8000000" | "\<not> n < 0x8000000" by linarith
  then show ?thesis
  proof cases
    case 1
    with assms show ?thesis by (intro that [of 1]) (simp_all add: min_prefix_value_def size_bytes_def)
  next
    case 2
    then show ?thesis by (intro that [of "2 ^ 6"]) (simp_all add: min_prefix_value_def size_bytes_def)
  next
    case 3
    then show ?thesis by (intro that [of "2 ^ 13"]) (simp_all add: min_prefix_value_def size_bytes_def)
  next
    case 4
    then show ?thesis by (intro that [of "2 ^ 20"]) (simp_all add: min_prefix_value_def size_bytes_def)
  next
    case 5
    then show ?thesis by (intro that [of "2 ^ 28"]) (simp_all add: min_prefix_value_def size_bytes_def)
  qed
qed

lemma is_canonical_atom_bytes:
  assumes "atom_bytes data = Inr (b # p)" and len: "length (pre @ (b # p) @ rest) < 2 ^ 63"
  shows "is_canonical_atom (pre @ (b # p) @ rest) (length pre + 1) b =
       (length data < 2 ^ 27 \<or> 2 ^ 28 \<le> length data, length pre + 1 + length p)"
  using assms(1)
proof (cases rule: atom_bytes_cases)
  case (short b')
  then have "b = 0x80 \<or> b \<le> MAX_SINGLE_BYTE"
    by (auto simp: markers word_le_nat_alt word_unat_eq_iff)
  moreover have "length data \<le> 1"
    using assms(1) short by (auto simp: atom_bytes_def dest!: encode_size_Cons split: if_splits)
  ultimately show ?thesis using short by (auto simp: is_canonical_atom_def)
next
  case (long b' q)
  let ?c = "pre @ (b # p) @ rest" and ?n = "length data"
  from long(1) have q: "b' = b" "p = q @ data" by auto
  have n: "unat (of_nat ?n :: u64) = ?n" using len q by (simp add: unat_of_nat)
  note enc = long(2) [unfolded q(1)]
  note cls = encode_size_class [OF enc, unfolded n]
  have h: "0x80 \<le> b" "b \<noteq> 0x80" using encode_size_head [OF enc] long(3) n by (auto simp: word_unat_eq_iff)
  then have b: "b \<noteq> 0x80" "\<not> b \<le> MAX_SINGLE_BYTE"
    by (auto simp: markers word_less_nat_alt word_le_nat_alt)
  have d: "decode_size (drop (length pre + 1) ?c) b = Inr (of_nat ?n, data @ rest)"
    using decode_encode_size [OF enc, of "data @ rest"] by (simp add: q)
  have "1 \<le> ?n" using long(3) by (simp add: Suc_leI)
  then obtain m where m: "min_prefix_value (size_bytes ?n) = Some m" "m \<le> ?n \<longleftrightarrow> ?n < 2 ^ 27 \<or> 2 ^ 28 \<le> ?n"
    by (rule min_prefix_value_size)
  have "\<not> 2 ^ 63 \<le> ?n" using len by (simp add: q)
  then have "is_canonical_atom ?c (length pre + 1) b =
      (m \<le> ?n, length ?c - length (data @ rest) + ?n)"
    unfolding is_canonical_atom_def d leading_ones8_class cls(1) using b m(1) n by simp
  with m(2) show ?thesis by (simp add: q)
qed

text \<open>No atom of the value has a length whose prefix the check calls too wide.\<close>

fun lengths_accepted :: "sexp \<Rightarrow> bool" where
  "lengths_accepted (Atom data) = (length data < 2 ^ 27 \<or> 2 ^ 28 \<le> length data)"
| "lengths_accepted (Pair a d) = (lengths_accepted a \<and> lengths_accepted d)"

lemma atoms_below_accepted: "atoms_below n s \<Longrightarrow> n \<le> 2 ^ 27 \<Longrightarrow> lengths_accepted s"
  by (induction s) auto

lemma canonical_loop_pair:
  "pos < length bs \<Longrightarrow> bs ! pos = CONS_BOX_MARKER \<Longrightarrow>
   canonical_loop bs pos (Suc t) = canonical_loop bs (pos + 1) (Suc (Suc t))"
  by (subst canonical_loop.simps) simp

lemma canonical_loop_atom:
  assumes "pos < length bs" "bs ! pos = b" "b \<noteq> CONS_BOX_MARKER" "b \<noteq> BACK_REFERENCE"
    and "is_canonical_atom bs (pos + 1) b = (ok, pos')" "pos' \<le> length bs"
  shows "canonical_loop bs pos (Suc t) = (ok \<and> canonical_loop bs pos' t)"
  using assms by (subst canonical_loop.simps) (simp add: Let_def)

lemma canonical_serialization_sexp:
  "sexp_bytes s = Inr bs \<Longrightarrow> length (pre @ bs @ rest) < 2 ^ 63 \<Longrightarrow>
   canonical_loop (pre @ bs @ rest) (length pre) (Suc t) =
     (lengths_accepted s \<and> canonical_loop (pre @ bs @ rest) (length pre + length bs) t)"
proof (induction s arbitrary: bs pre rest t)
  case (Atom data)
  then have data: "atom_bytes data = Inr bs" by simp
  moreover have "length data < 2 ^ 63"
    using Atom data by (auto simp: atom_bytes_def split: if_splits)
  ultimately obtain b p where b: "bs = b # p" "b \<noteq> CONS_BOX_MARKER" "b \<noteq> BACK_REFERENCE"
    by (rule parse_atom_bytes)
  then have "is_canonical_atom (pre @ bs @ rest) (length pre + 1) b =
      (lengths_accepted (Atom data), length pre + length bs)"
    using is_canonical_atom_bytes [of data b p pre rest] data Atom.prems(2) by simp
  then show ?case
    using b by (intro canonical_loop_atom) simp_all
next
  case (Pair a d)
  then obtain x y where xy: "sexp_bytes a = Inr x" "sexp_bytes d = Inr y" "bs = CONS_BOX_MARKER # x @ y"
    by auto
  let ?c = "pre @ bs @ rest"
  have "canonical_loop ?c (length pre) (Suc t) = canonical_loop ?c (length pre + 1) (Suc (Suc t))"
    by (rule canonical_loop_pair) (simp_all add: xy(3))
  also have "\<dots> = (lengths_accepted a \<and> canonical_loop ?c (length pre + 1 + length x) (Suc t))"
    using Pair.IH(1) [OF xy(1), of "pre @ [CONS_BOX_MARKER]" "y @ rest" "Suc t"] Pair.prems xy(3) by simp
  also have "canonical_loop ?c (length pre + 1 + length x) (Suc t) =
      (lengths_accepted d \<and> canonical_loop ?c (length pre + length bs) t)"
    using Pair.IH(2) [OF xy(2), of "pre @ [CONS_BOX_MARKER] @ x" rest t] Pair.prems xy(3)
    by (simp add: add.assoc)
  finally show ?case by simp
qed

lemma atom_bytes_length:
  assumes "atom_bytes data = Inr bs"
  shows "length bs \<le> length data + 5"
  using assms
proof (cases rule: atom_bytes_cases)
  case (long b p)
  then show ?thesis
    using encode_size_class(2) [OF long(2)] size_bytes_range(2) [of "unat (of_nat (length data) :: u64)"]
    by (simp add: long(1))
qed simp_all

section \<open>What the checks guarantee\<close>

text \<open>
  C9: what the printer writes passes \<^verbatim>\<open>is_clvm_canonical\<close>; \<^verbatim>\<open>is_canonical_serialization\<close> accepts it
  exactly when no atom has a length from \<open>2 ^ 27\<close> up to \<open>2 ^ 28 - 1\<close>. The two checks disagree on such
  atoms: the latter's floors for five and six prefix bytes are \<open>2 ^ 28\<close> and \<open>2 ^ 36\<close>, while the
  encoder starts to use five bytes at \<open>2 ^ 27\<close>.
\<close>

theorem printed_canonical:
  assumes "sexp_to_bytes s = Inr bs" and "length bs < 2 ^ 63"
  shows "is_clvm_canonical bs \<and> (is_canonical_serialization bs \<longleftrightarrow> lengths_accepted s)"
proof -
  have bs: "sexp_bytes s = Inr bs" using assms(1) by (simp add: sexp_to_bytes_eq)
  have "is_clvm_canonical bs"
    using canonical_sexp_bytes [OF bs, of "[]" "[]" 0] assms(2) sexp_bytes_nonempty [OF bs]
    by (simp add: is_clvm_canonical_def)
  moreover have "is_canonical_serialization bs \<longleftrightarrow> lengths_accepted s"
    using canonical_serialization_sexp [OF bs, of "[]" "[]" 0] assms(2)
    by (simp add: is_canonical_serialization_def canonical_loop.simps [of bs "length bs"])
  ultimately show ?thesis ..
qed

lemma printed_canonical_witness:
  "\<exists>bs. sexp_to_bytes (Atom (replicate (2 ^ 27) 0)) = Inr bs \<and>
        is_clvm_canonical bs \<and> \<not> is_canonical_serialization bs"
proof -
  define data :: bytes where "data = replicate (2 ^ 27) 0"
  have len: "length data = 2 ^ 27" unfolding data_def by (rule length_replicate)
  then have "atoms_below (2 ^ 34) (Atom data)" by simp
  then obtain bs where bs: "sexp_bytes (Atom data) = Inr bs"
    by (blast dest: sexp_bytes_total elim: is_okE)
  with len atom_bytes_length [of data bs] have "length bs < 2 ^ 63" by simp
  moreover have "\<not> lengths_accepted (Atom data)" using len by simp
  ultimately show ?thesis
    unfolding data_def [symmetric] using printed_canonical [of "Atom data" bs] bs
    by (auto simp: sexp_to_bytes_eq)
qed

text \<open>
  C10: a buffer accepted by \<^verbatim>\<open>is_clvm_canonical\<close> is one complete value: the parser succeeds on it and
  consumes it to the last byte. The bound is the largest atom the format can describe.
\<close>

theorem canonical_buffer_parses:
  assumes "is_clvm_canonical clvm" and "length clvm < 2 ^ 34"
  shows "\<exists>s. sexp_from_bytes clvm = Inr (s, [])"
  using canonical_parses [of "[Exp]" "[]" 0 clvm 0] assms
  by (auto simp: is_clvm_canonical_def sexp_from_bytes_def)

lemma canonical_buffer_parses_witness:
  "\<exists>s. sexp_from_bytes [0xff, 0x82, 1, 2, 0x80] = Inr (s, [])"
proof (rule canonical_buffer_parses)
  show "is_clvm_canonical [0xff, 0x82, 1, 2, 0x80]" 
    by (simp add: is_clvm_canonical_def clvm_canonical_loop.simps atom_prefix_def)
qed simp

end
