(* ===== verification/ClvmNumber.thy ===== *)
theory ClvmNumber
  imports ClvmSexp "HOL-Library.Signed_Division"
begin

text \<open>
  The integers of the CLVM, \<^verbatim>\<open>src/core/src/clvm/sexp_ext.rs\<close> and the conversions of
  \<^verbatim>\<open>src/core/src/formatting.rs\<close>. Values of the big-integer crate are integers here. A number is an
  \<open>i128\<close> while it fits and a big integer otherwise, and an atom holds its minimal two's complement bytes. The
  theory shows that the encoding is canonical and that the arithmetic with its two representations is
  arithmetic on the integers.
\<close>

type_synonym i128 = "128 word"

datatype sexp_number = I128 i128 | BigInt int

text \<open>What a number stands for.\<close>

fun num_val :: "sexp_number \<Rightarrow> int" where
  "num_val (I128 i) = sint i"
| "num_val (BigInt b) = b"

section \<open>Bytes\<close>

definition high_bit :: "u8 \<Rightarrow> bool" where
  "high_bit b \<longleftrightarrow> b AND 0x80 \<noteq> 0"

text \<open>
  \<^verbatim>\<open>BigInt\<close> is the unbounded integers; its conversions read and write two's complement, big-endian, the
  writer with as few bytes as hold the sign.
\<close>

definition from_signed_bytes_be :: "bytes \<Rightarrow> int" where
  "from_signed_bytes_be bs = int (be_nat bs) - (if bs \<noteq> [] \<and> high_bit (hd bs) then 256 ^ length bs else 0)"

function to_signed_bytes_be :: "int \<Rightarrow> bytes" where
  "to_signed_bytes_be v =
     (if - 128 \<le> v \<and> v < 128 then [word_of_int v] else to_signed_bytes_be (v div 256) @ [word_of_int v])"
  by pat_completeness auto
termination
proof (relation "measure (\<lambda>v. nat \<bar>v\<bar>)", goal_cases)
  case (2 v)
  have "256 * (v div 256) + v mod 256 = v" "0 \<le> v mod 256" "v mod 256 < 256" by simp_all
  with 2 have "\<bar>v div 256\<bar> < \<bar>v\<bar>" by linarith
  then show ?case by simp
qed simp

declare to_signed_bytes_be.simps [simp del]

function to_bytes_be :: "nat \<Rightarrow> bytes" where
  "to_bytes_be n = (if n < 256 then [of_nat n] else to_bytes_be (n div 256) @ [of_nat n])"
  by pat_completeness auto
termination by (relation "measure id") auto

declare to_bytes_be.simps [simp del]

definition number_from_slice :: "bytes \<Rightarrow> int" where
  "number_from_slice v = (if v = [] then 0 else from_signed_bytes_be v)"

fun strip_sign :: "bytes \<Rightarrow> bytes" where
  "strip_sign (b0 # b1 # bs) =
     (if (b0 = 0x00 \<and> b1 AND 0x80 = 0) \<or> (b0 = 0xFF \<and> b1 AND 0x80 \<noteq> 0) then strip_sign (b1 # bs)
      else b0 # b1 # bs)"
| "strip_sign bs = bs"

definition bigint_to_bytes :: "int \<Rightarrow> bool \<Rightarrow> bytes" where
  "bigint_to_bytes v is_signed =
     (if v = 0 then [] else if \<not> is_signed then to_bytes_be (nat \<bar>v\<bar>) else strip_sign (to_signed_bytes_be v))"

fun trim_i128 :: "bytes \<Rightarrow> bytes" where
  "trim_i128 (s0 # s1 # s) =
     (if s0 = (if s1 AND 0x80 > 0 then 1 else 0) * 0xFF then trim_i128 (s1 # s) else s0 # s1 # s)"
| "trim_i128 s = s"

definition i128_bytes :: "i128 \<Rightarrow> bytes" where
  "i128_bytes v = (if v = 0 then [] else trim_i128 (be_bytes 16 (unat v)))"

definition number_bytes :: "sexp_number \<Rightarrow> bytes" where
  "number_bytes n = (case n of I128 v \<Rightarrow> i128_bytes v | BigInt b \<Rightarrow> bigint_to_bytes b (sgn b \<noteq> 0))"

definition sexp_number_from :: "bytes \<Rightarrow> sexp_number" where
  "sexp_number_from buf =
     (if buf = [] then I128 0
      else if length buf \<le> 16
      then let fill = (if buf ! 0 AND 0x80 \<noteq> 0 then 0xff else 0x00)
           in I128 (of_nat (be_nat (replicate (16 - length buf) fill @ buf)))
      else BigInt (number_from_slice buf))"

definition u64_to_bytes :: "u64 \<Rightarrow> bytes" where
  "u64_to_bytes v =
     (let ary = be_bytes 8 (unat v) in if bit v 63 then 0 # ary else dropWhile (\<lambda>b. b = 0) ary)"

definition u32_from_slice_impl :: "bytes \<Rightarrow> bool \<Rightarrow> u32 option" where
  "u32_from_slice_impl buf is_signed =
     (if buf = [] then Some 0
      else if length buf > 4 then None
      else let sign_extend = buf ! 0 AND 0x80 \<noteq> 0
           in Some (foldl (\<lambda>ret b. push_bit 8 ret OR ucast b) (if is_signed \<and> sign_extend then 0xffffffff else 0) buf))"

definition u32_from_slice :: "bytes \<Rightarrow> u32 option" where
  "u32_from_slice buf = u32_from_slice_impl buf False"

text \<open>The cast to \<^verbatim>\<open>i32\<close> reads the word signed.\<close>

definition i32_from_slice :: "bytes \<Rightarrow> int option" where
  "i32_from_slice buf = map_option sint (u32_from_slice_impl buf True)"

definition u64_from_bigint :: "int \<Rightarrow> u64 option" where
  "u64_from_bigint item = (if item < 0 then None else if item < 2 ^ 64 then Some (word_of_int item) else None)"

definition saturating_u32_from_bigint :: "int \<Rightarrow> u32" where
  "saturating_u32_from_bigint item = (if item < 0 then 0 else if item < 2 ^ 32 then word_of_int item else - 1)"

definition saturating_u64_from_bigint :: "int \<Rightarrow> u64" where
  "saturating_u64_from_bigint item = (if item < 0 then 0 else if item < 2 ^ 64 then word_of_int item else - 1)"

section \<open>Arithmetic\<close>

definition checked_i128 :: "int \<Rightarrow> i128 option" where
  "checked_i128 v = (if - (2 ^ 127) \<le> v \<and> v < 2 ^ 127 then Some (word_of_int v) else None)"

definition num_add :: "sexp_number \<Rightarrow> sexp_number \<Rightarrow> sexp_number" where
  "num_add self rhs = (case (self, rhs) of
     (I128 l, I128 r) \<Rightarrow> (case checked_i128 (sint l + sint r) of Some v \<Rightarrow> I128 v | None \<Rightarrow> BigInt (sint l + sint r))
   | (BigInt l, BigInt r) \<Rightarrow> BigInt (l + r)
   | (BigInt l, I128 r) \<Rightarrow> BigInt (l + sint r)
   | (I128 l, BigInt r) \<Rightarrow> BigInt (sint l + r))"

definition num_sub :: "sexp_number \<Rightarrow> sexp_number \<Rightarrow> sexp_number" where
  "num_sub self rhs = (case (self, rhs) of
     (I128 l, I128 r) \<Rightarrow> (case checked_i128 (sint l - sint r) of Some v \<Rightarrow> I128 v | None \<Rightarrow> BigInt (sint l - sint r))
   | (BigInt l, BigInt r) \<Rightarrow> BigInt (l - r)
   | (BigInt l, I128 r) \<Rightarrow> BigInt (l - sint r)
   | (I128 l, BigInt r) \<Rightarrow> BigInt (sint l - r))"

definition num_mul :: "sexp_number \<Rightarrow> sexp_number \<Rightarrow> sexp_number" where
  "num_mul self rhs = (case (self, rhs) of
     (I128 l, I128 r) \<Rightarrow> (case checked_i128 (sint l * sint r) of Some v \<Rightarrow> I128 v | None \<Rightarrow> BigInt (sint l * sint r))
   | (BigInt l, BigInt r) \<Rightarrow> BigInt (l * r)
   | (BigInt l, I128 r) \<Rightarrow> BigInt (l * sint r)
   | (I128 l, BigInt r) \<Rightarrow> BigInt (sint l * r))"

text \<open>
  Division rounds to zero. \<^verbatim>\<open>checked_div\<close> and \<^verbatim>\<open>checked_rem\<close> refuse a zero divisor and the one quotient that
  does not fit; the big-integer division that follows panics on a zero divisor, which is \<open>None\<close> here.
\<close>

definition checked_div_i128 :: "i128 \<Rightarrow> i128 \<Rightarrow> i128 option" where
  "checked_div_i128 l r = (if r = 0 then None else checked_i128 (sint l sdiv sint r))"

definition checked_rem_i128 :: "i128 \<Rightarrow> i128 \<Rightarrow> i128 option" where
  "checked_rem_i128 l r =
     (if r = 0 \<or> checked_i128 (sint l sdiv sint r) = None then None else Some (word_of_int (sint l smod sint r)))"

definition bigint_div :: "int \<Rightarrow> int \<Rightarrow> int option" where
  "bigint_div l r = (if r = 0 then None else Some (l sdiv r))"

definition bigint_rem :: "int \<Rightarrow> int \<Rightarrow> int option" where
  "bigint_rem l r = (if r = 0 then None else Some (l smod r))"

definition num_div :: "sexp_number \<Rightarrow> sexp_number \<Rightarrow> sexp_number option" where
  "num_div self rhs = (case (self, rhs) of
     (I128 l, I128 r) \<Rightarrow> (case checked_div_i128 l r of
        Some v \<Rightarrow> Some (I128 v) | None \<Rightarrow> map_option BigInt (bigint_div (sint l) (sint r)))
   | (BigInt l, BigInt r) \<Rightarrow> map_option BigInt (bigint_div l r)
   | (BigInt l, I128 r) \<Rightarrow> map_option BigInt (bigint_div l (sint r))
   | (I128 l, BigInt r) \<Rightarrow> map_option BigInt (bigint_div (sint l) r))"

definition num_rem :: "sexp_number \<Rightarrow> sexp_number \<Rightarrow> sexp_number option" where
  "num_rem self rhs = (case (self, rhs) of
     (I128 l, I128 r) \<Rightarrow> (case checked_rem_i128 l r of
        Some v \<Rightarrow> Some (I128 v) | None \<Rightarrow> map_option BigInt (bigint_rem (sint l) (sint r)))
   | (BigInt l, BigInt r) \<Rightarrow> map_option BigInt (bigint_rem l r)
   | (BigInt l, I128 r) \<Rightarrow> map_option BigInt (bigint_rem l (sint r))
   | (I128 l, BigInt r) \<Rightarrow> map_option BigInt (bigint_rem (sint l) r))"

datatype sign = Minus | NoSign | Plus

definition bigint_sign :: "int \<Rightarrow> sign" where
  "bigint_sign v = (if v = 0 then NoSign else if v > 0 then Plus else Minus)"

definition num_sign :: "sexp_number \<Rightarrow> sign" where
  "num_sign self = (case self of
     I128 i \<Rightarrow> if i = 0 then NoSign else if 0 <s i then Plus else Minus
   | BigInt b \<Rightarrow> bigint_sign b)"

definition num_eq :: "sexp_number \<Rightarrow> sexp_number \<Rightarrow> bool" where
  "num_eq self rhs = (case (self, rhs) of
     (I128 l, I128 r) \<Rightarrow> l = r
   | (BigInt l, BigInt r) \<Rightarrow> l = r
   | (BigInt l, I128 r) \<Rightarrow> l = sint r
   | (I128 l, BigInt r) \<Rightarrow> sint l = r)"

definition num_is_zero :: "sexp_number \<Rightarrow> bool" where
  "num_is_zero self = (case self of I128 i \<Rightarrow> i = 0 | BigInt b \<Rightarrow> b = 0)"

definition div_mod_floor :: "sexp_number \<Rightarrow> sexp_number \<Rightarrow> (sexp_number \<times> sexp_number) option" where
  "div_mod_floor self rhs = (case (num_div self rhs, num_rem self rhs) of
     (Some d, Some r) \<Rightarrow>
       if (num_sign r = Plus \<and> num_sign rhs = Minus) \<or> (num_sign r = Minus \<and> num_sign rhs = Plus)
       then Some (num_sub d (I128 1), num_add r rhs)
       else Some (d, r)
   | _ \<Rightarrow> None)"

definition num_to_u64 :: "sexp_number \<Rightarrow> u64 option" where
  "num_to_u64 self = (case self of
     I128 i \<Rightarrow> if 0 \<le> sint i \<and> sint i < 2 ^ 64 then Some (ucast i) else None
   | BigInt b \<Rightarrow> if 0 \<le> b \<and> b < 2 ^ 64 then Some (word_of_int b) else None)"

definition num_less :: "sexp_number \<Rightarrow> sexp_number \<Rightarrow> bool" where
  "num_less self rhs = (case (self, rhs) of
     (I128 l, I128 r) \<Rightarrow> l <s r
   | (BigInt l, BigInt r) \<Rightarrow> l < r
   | (BigInt l, I128 r) \<Rightarrow> l < sint r
   | (I128 l, BigInt r) \<Rightarrow> sint l < r)"

fun bit_len :: "nat \<Rightarrow> nat" where
  "bit_len n = (if n = 0 then 0 else Suc (bit_len (n div 2)))"

declare bit_len.simps [simp del]

section \<open>Two's complement\<close>

lemma high_bit_iff: "high_bit b \<longleftrightarrow> 128 \<le> unat b"
proof -
  have "high_bit b \<longleftrightarrow> bit b 7"
    using and_exp_eq_0_iff_not_bit [of b 7] by (simp add: high_bit_def)
  also have "\<dots> \<longleftrightarrow> bit (unat b) 7" by (simp add: bit_unsigned_iff)
  also have "\<dots> \<longleftrightarrow> odd (unat b div 128)" by (simp add: bit_iff_odd)
  also have "\<dots> \<longleftrightarrow> 128 \<le> unat b"
  proof (cases "128 \<le> unat b")
    case True
    then have "unat b div 128 = 1" using unat_byte_less [of b] by (intro div_nat_eqI) auto
    with True show ?thesis by simp
  qed simp
  finally show ?thesis .
qed

lemma high_mask_iff: "b AND 0x80 = 0 \<longleftrightarrow> unat (b :: u8) < 128" "0 < b AND 0x80 \<longleftrightarrow> 128 \<le> unat b"
  using high_bit_iff [of b] by (auto simp: high_bit_def word_gt_0)

lemma unat_FF: "unat (0xFF :: u8) = 255"
  by simp

lemma eq_FF_iff: "b = (0xFF :: u8) \<longleftrightarrow> unat b = 255"
  by (metis unat_FF word_unat_eq_iff)

text \<open>A byte read signed.\<close>

definition sbyte :: "u8 \<Rightarrow> int" where
  "sbyte b = (if 128 \<le> unat b then int (unat b) - 256 else int (unat b))"

lemma sbyte_cases:
  "128 \<le> unat b \<and> sbyte b = int (unat b) - 256 \<and> - 128 \<le> sbyte b \<and> sbyte b < 0 \<or>
   unat b < 128 \<and> sbyte b = int (unat b) \<and> 0 \<le> sbyte b \<and> sbyte b < 128"
proof -
  have "int (unat b) < 256" using unat_byte_less [of b] by linarith
  then show ?thesis unfolding sbyte_def by (simp only: split: if_split) linarith
qed

lemma from_signed_Nil [simp]: "from_signed_bytes_be [] = 0"
  by (simp add: from_signed_bytes_be_def)

lemma from_signed_snoc:
  "bs \<noteq> [] \<Longrightarrow> from_signed_bytes_be (bs @ [b]) = 256 * from_signed_bytes_be bs + int (unat b)"
  by (simp add: from_signed_bytes_be_def be_nat_append algebra_simps)

lemma from_signed_Cons:
  "from_signed_bytes_be (b # bs) =
     sbyte b * 256 ^ length bs + int (be_nat bs)"
  by (simp add: from_signed_bytes_be_def high_bit_iff sbyte_def algebra_simps)

text \<open>The bytes are the value modulo a power of 256, and the value is the one nearest zero that is.\<close>

lemma from_signed_mod: "from_signed_bytes_be bs mod 256 ^ length bs = int (be_nat bs)"
proof -
  have "int (be_nat bs) mod 256 ^ length bs = int (be_nat bs)"
    using be_nat_less [of bs] by (intro mod_pos_pos_trivial) (simp_all flip: of_nat_less_iff)
  then show ?thesis by (simp add: from_signed_bytes_be_def)
qed

lemma from_signed_range:
  assumes "bs \<noteq> []"
  shows "- (128 * 256 ^ (length bs - 1)) \<le> from_signed_bytes_be bs"
    and "from_signed_bytes_be bs < 128 * 256 ^ (length bs - 1)"
proof -
  obtain b cs where bs: "bs = b # cs" using assms by (cases bs) auto
  define x where "x = sbyte b"
  have x: "- 128 \<le> x" "x \<le> 127" using sbyte_cases [of b] unfolding x_def by linarith+
  have c: "int (be_nat cs) < 256 ^ length cs" using be_nat_less [of cs] by (simp flip: of_nat_less_iff)
  have "- 128 * 256 ^ length cs \<le> x * 256 ^ length cs" using x by (intro mult_right_mono) auto
  moreover have "x * 256 ^ length cs \<le> 127 * 256 ^ length cs" using x by (intro mult_right_mono) auto
  ultimately show "- (128 * 256 ^ (length bs - 1)) \<le> from_signed_bytes_be bs"
    "from_signed_bytes_be bs < 128 * 256 ^ (length bs - 1)"
    using c unfolding bs from_signed_Cons x_def [symmetric] 
    by (simp_all only: length_Cons diff_Suc_1)
qed

lemma from_signed_inj:
  assumes "length bs = length cs" "from_signed_bytes_be bs = from_signed_bytes_be cs"
  shows "bs = cs"
proof -
  have "be_nat bs = be_nat cs"
    using from_signed_mod [of bs] from_signed_mod [of cs] assms by simp
  then show ?thesis using be_bytes_inverse [of bs] be_bytes_inverse [of cs] assms(1) by metis
qed

lemma from_to_signed: "from_signed_bytes_be (to_signed_bytes_be v) = v \<and> to_signed_bytes_be v \<noteq> []"
proof (induction v rule: to_signed_bytes_be.induct)
  case (1 v)
  have u: "int (unat (word_of_int v :: u8)) = v mod 256" by (simp add: unsigned_of_int take_bit_eq_mod)
  show ?case
  proof (cases "- 128 \<le> v \<and> v < 128")
    case True
    then have v: "v mod 256 = (if v < 0 then v + 256 else v)"
      using mod_pos_pos_trivial [of "v + 256" 256] by auto
    have "from_signed_bytes_be [word_of_int v] = v"
      using True u sbyte_cases [of "word_of_int v"] unfolding v
      by (simp add: from_signed_Cons split: if_splits) linarith+
    with True show ?thesis by (subst (1 2) to_signed_bytes_be.simps) simp
  next
    case False
    then have "to_signed_bytes_be v = to_signed_bytes_be (v div 256) @ [word_of_int v]"
      by (subst to_signed_bytes_be.simps) auto
    with 1 [OF False] u show ?thesis by (simp add: from_signed_snoc)
  qed
qed

section \<open>Minimal encodings\<close>

text \<open>A leading byte is redundant when it only repeats the sign of the next.\<close>

definition redundant :: "bytes \<Rightarrow> bool" where
  "redundant bs = (case bs of
     b0 # b1 # _ \<Rightarrow> (b0 = 0x00 \<and> \<not> high_bit b1) \<or> (b0 = 0xFF \<and> high_bit b1) | _ \<Rightarrow> False)"

lemma redundant_simps [simp]:
  "\<not> redundant []" "\<not> redundant [b]"
  "redundant (b0 # b1 # bs) \<longleftrightarrow> (b0 = 0x00 \<and> \<not> high_bit b1) \<or> (b0 = 0xFF \<and> high_bit b1)"
  by (simp_all add: redundant_def)

lemma redundant_value:
  assumes "redundant (b # bs)"
  shows "from_signed_bytes_be (b # bs) = from_signed_bytes_be bs"
proof (cases bs)
  case Nil
  with assms show ?thesis by simp
next
  case (Cons c cs)
  have "sbyte b * 256 + int (unat c) = sbyte c"
    using assms sbyte_cases [of b] sbyte_cases [of c] unfolding Cons redundant_simps high_bit_iff eq_FF_iff unat_eq_0 [symmetric]
    by linarith
  then have "sbyte b * 256 * 256 ^ length cs + int (unat c) * 256 ^ length cs = sbyte c * 256 ^ length cs"
    by (simp flip: distrib_right)
  then show ?thesis unfolding Cons from_signed_Cons [of c] from_signed_Cons [of b] by (simp add: algebra_simps)
qed

lemma strip_sign_spec:
  "from_signed_bytes_be (strip_sign bs) = from_signed_bytes_be bs" "\<not> redundant (strip_sign bs)"
  "strip_sign bs = [] \<longleftrightarrow> bs = []" "length (strip_sign bs) \<le> length bs"
  by (induction bs rule: strip_sign.induct) (auto simp: redundant_value high_bit_def)

lemma trim_i128_strip: "trim_i128 bs = strip_sign bs"
  by (induction bs rule: trim_i128.induct) (auto simp: high_mask_iff)

lemma not_redundant_range:
  assumes "\<not> redundant bs" "2 \<le> length bs"
  shows "from_signed_bytes_be bs < - (128 * 256 ^ (length bs - 2)) \<or>
    128 * 256 ^ (length bs - 2) \<le> from_signed_bytes_be bs"
proof -
  obtain b c ds where bs: "bs = b # c # ds" using assms(2) by (cases bs; cases "tl bs") auto
  define x where "x = sbyte b"
  have eq: "from_signed_bytes_be bs = (x * 256 + int (unat c)) * 256 ^ length ds + int (be_nat ds)"
    by (simp add: bs from_signed_Cons algebra_simps flip: x_def)
  have d: "int (be_nat ds) < 256 ^ length ds" using be_nat_less [of ds] by (simp flip: of_nat_less_iff)
  have "unat b \<noteq> 0 \<or> 128 \<le> unat c" "unat b \<noteq> 255 \<or> unat c < 128"
    using assms(1) by (auto simp: bs high_bit_iff unat_eq_0 eq_FF_iff)
  then have "x * 256 + int (unat c) \<le> - 129 \<or> 128 \<le> x * 256 + int (unat c)"
    using sbyte_cases [of b] unat_byte_less [of c] unfolding x_def by linarith
  then show ?thesis
  proof
    assume "x * 256 + int (unat c) \<le> - 129"
    then have "(x * 256 + int (unat c)) * 256 ^ length ds \<le> - 129 * 256 ^ length ds"
      by (intro mult_right_mono) auto
    with d have "from_signed_bytes_be bs < - (128 * 256 ^ length ds)" unfolding eq by linarith
    then show ?thesis by (simp add: bs)
  next
    assume "128 \<le> x * 256 + int (unat c)"
    then have "128 * 256 ^ length ds \<le> (x * 256 + int (unat c)) * 256 ^ length ds"
      by (intro mult_right_mono) auto
    then have "128 * 256 ^ length ds \<le> from_signed_bytes_be bs" unfolding eq by linarith
    then show ?thesis by (simp add: bs)
  qed
qed

lemma minimal_length:
  assumes "\<not> redundant bs" "from_signed_bytes_be bs = from_signed_bytes_be cs" "cs \<noteq> []"
  shows "length bs \<le> length cs"
proof (rule ccontr)
  assume "\<not> length bs \<le> length cs"
  then have le: "length cs - 1 \<le> length bs - 2" "2 \<le> length bs" using assms(3) by (cases cs; auto)+
  then have "(256 :: int) ^ (length cs - 1) \<le> 256 ^ (length bs - 2)" by (intro power_increasing) auto
  with from_signed_range [OF assms(3)] not_redundant_range [OF assms(1) le(2)] assms(2)
  show False by linarith
qed

lemma minimal_unique:
  assumes "\<not> redundant bs" "\<not> redundant cs" "bs \<noteq> []" "cs \<noteq> []"
    "from_signed_bytes_be bs = from_signed_bytes_be cs"
  shows "bs = cs"
  using assms minimal_length [of bs cs] minimal_length [of cs bs] by (intro from_signed_inj) auto

section \<open>Encoding and decoding numbers\<close>

lemma sint_word_of_int:
  "- (2 ^ (LENGTH('a) - 1)) \<le> v \<Longrightarrow> v < 2 ^ (LENGTH('a) - 1) \<Longrightarrow> sint (word_of_int v :: 'a::len word) = v"
  by (simp add: sint_sbintrunc' signed_take_bit_int_eq_self)

lemma sint_i128_range: "- (2 ^ 127) \<le> sint (w :: i128)" "sint (w :: i128) < 2 ^ 127"
  using sint_greater_eq [of w] sint_less [of w] by simp_all

text \<open>Sixteen bytes are an \<^verbatim>\<open>i128\<close>.\<close>

lemma sint_of_bytes:
  assumes "length bs = 16"
  shows "sint (of_nat (be_nat bs) :: i128) = from_signed_bytes_be bs"
proof -
  have "- (2 ^ 127) \<le> from_signed_bytes_be bs" "from_signed_bytes_be bs < 2 ^ 127"
    using from_signed_range [of bs] assms by (cases bs; simp)+
  moreover have "(256 :: i128) ^ 16 = 0" by simp
  then have "(of_nat (be_nat bs) :: i128) = word_of_int (from_signed_bytes_be bs)"
    using assms by (simp add: from_signed_bytes_be_def)
  ultimately show ?thesis using sint_word_of_int [where ?'a = 128] by simp
qed

lemma from_signed_pad:
  assumes "bs \<noteq> []"
  shows "from_signed_bytes_be (replicate n (if high_bit (hd bs) then 0xff else 0x00) @ bs) = from_signed_bytes_be bs"
proof (induction n)
  case (Suc n)
  let ?f = "if high_bit (hd bs) then 0xff else 0x00 :: u8"
  have "hd (replicate n ?f @ bs) = (if n = 0 then hd bs else ?f)" by (cases n) simp_all
  then have "redundant (?f # replicate n ?f @ bs)"
    using assms by (cases "replicate n ?f @ bs") (auto simp: high_bit_iff)
  with Suc show ?case by (simp add: redundant_value)
qed simp

lemma num_val_from: "num_val (sexp_number_from buf) = number_from_slice buf"
proof (cases "buf \<noteq> [] \<and> length buf \<le> 16")
  case True
  then have "hd buf = buf ! 0" by (simp add: hd_conv_nth)
  with True from_signed_pad [of buf "16 - length buf"] show ?thesis
    using sint_of_bytes [of "replicate (16 - length buf) (if high_bit (hd buf) then 0xff else 0x00) @ buf"]
    by (simp add: sexp_number_from_def number_from_slice_def Let_def high_bit_def)
next
  case False
  then show ?thesis by (auto simp: sexp_number_from_def number_from_slice_def)
qed

text \<open>What every encoder writes: nothing for zero, else the value without a redundant byte.\<close>

lemma number_bytes_spec:
  "from_signed_bytes_be (number_bytes n) = num_val n" "\<not> redundant (number_bytes n)"
  "number_bytes n = [] \<longleftrightarrow> num_val n = 0"
proof -
  have "from_signed_bytes_be (number_bytes n) = num_val n \<and> \<not> redundant (number_bytes n) \<and>
    (number_bytes n = [] \<longleftrightarrow> num_val n = 0)"
  proof (cases n)
    case (I128 v)
    have "from_signed_bytes_be (be_bytes 16 (unat v)) = sint v"
      using sint_of_bytes [of "be_bytes 16 (unat v)"] unsigned_less [of v, where ?'a = nat] by simp
    moreover have "sint v = 0 \<longleftrightarrow> v = 0" by (metis sint_0 signed_word_eqI)
    moreover have "be_bytes 16 (unat v) \<noteq> []" by (metis length_be_bytes list.size(3) zero_neq_numeral)
    ultimately show ?thesis
      using strip_sign_spec [of "be_bytes 16 (unat v)"]
      by (simp add: I128 number_bytes_def i128_bytes_def trim_i128_strip del: be_bytes.simps)
  next
    case (BigInt b)
    then show ?thesis
      using strip_sign_spec [of "to_signed_bytes_be b"] from_to_signed [of b]
      by (simp add: number_bytes_def bigint_to_bytes_def sgn_0_0)
  qed
  then show "from_signed_bytes_be (number_bytes n) = num_val n" "\<not> redundant (number_bytes n)"
    "number_bytes n = [] \<longleftrightarrow> num_val n = 0" by blast+
qed

lemma number_from_slice_number_bytes [simp]: "number_from_slice (number_bytes n) = num_val n"
  using number_bytes_spec [of n] by (simp add: number_from_slice_def)

text \<open>
  C3: atoms and numbers. Decoding an encoded number gives its value; two numbers have the same encoding exactly
  when they have the same value, whichever of the two representations holds it; and no byte string with that
  value is shorter than the encoding.
\<close>

theorem number_roundtrip:
  "num_val (sexp_number_from (number_bytes n)) = num_val n \<and>
   (number_bytes m = number_bytes n \<longleftrightarrow> num_val m = num_val n) \<and>
   (num_val (sexp_number_from bs) = num_val n \<longrightarrow> length (number_bytes n) \<le> length bs)"
proof -
  have eq: "number_bytes m = number_bytes n \<longleftrightarrow> num_val m = num_val n"
    by (metis minimal_unique number_bytes_spec)
  have "length (number_bytes n) \<le> length bs" if "number_from_slice bs = num_val n"
    using that number_bytes_spec [of n] minimal_length [of "number_bytes n" bs]
    by (cases "bs = []") (auto simp: number_from_slice_def)
  with eq show ?thesis by (simp add: num_val_from)
qed

lemma number_roundtrip_witness:
  "number_bytes (I128 128) = [0, 128] \<and> number_bytes (BigInt 128) = [0, 128] \<and>
   length (number_bytes (I128 128)) \<le> length ([0, 0, 128] :: bytes)"
proof -
  have "number_bytes (I128 128) = [0, 128]"
    by (simp add: number_bytes_def i128_bytes_def be_bytes_numeral)
  moreover have "num_val (sexp_number_from [0, 0, 128]) = num_val (I128 128)"
    by (simp add: num_val_from number_from_slice_def from_signed_bytes_be_def high_bit_def)
  ultimately show ?thesis
    using number_roundtrip [of "I128 128" "BigInt 128" "[0, 0, 128]"] by simp
qed

section \<open>Arithmetic on values\<close>

lemma checked_i128_Some: "checked_i128 v = Some w \<Longrightarrow> sint w = v"
  using sint_word_of_int [where ?'a = 128, of v] by (auto simp: checked_i128_def split: if_splits)

lemma sint_eq_0_iff: "sint (w :: 'a::len word) = 0 \<longleftrightarrow> w = 0"
  by (metis sint_0 signed_word_eqI)

lemma num_val_add [simp]: "num_val (num_add m n) = num_val m + num_val n"
  by (cases m; cases n) (auto simp: num_add_def dest: checked_i128_Some split: option.split)

lemma num_val_sub [simp]: "num_val (num_sub m n) = num_val m - num_val n"
  by (cases m; cases n) (auto simp: num_sub_def dest: checked_i128_Some split: option.split)

lemma num_val_mul [simp]: "num_val (num_mul m n) = num_val m * num_val n"
  by (cases m; cases n) (auto simp: num_mul_def dest: checked_i128_Some split: option.split)

lemma num_sign_val [simp]: "num_sign n = bigint_sign (num_val n)"
  by (cases n) (auto simp: num_sign_def bigint_sign_def sint_eq_0_iff word_sless_alt)

lemma num_is_zero_val [simp]: "num_is_zero n \<longleftrightarrow> num_val n = 0"
  by (cases n) (auto simp: num_is_zero_def sint_eq_0_iff)

lemma num_eq_val [simp]: "num_eq m n \<longleftrightarrow> num_val m = num_val n"
  by (cases m; cases n) (auto simp: num_eq_def signed_word_eqI)

lemma num_less_val [simp]: "num_less m n \<longleftrightarrow> num_val m < num_val n"
  by (cases m; cases n) (auto simp: num_less_def word_sless_alt)

lemma num_div_val: "map_option num_val (num_div m n) = bigint_div (num_val m) (num_val n)"
  by (cases m; cases n)
    (auto simp: num_div_def checked_div_i128_def bigint_div_def sint_eq_0_iff dest: checked_i128_Some
      split: option.splits if_splits)

lemma sint_smod:
  assumes "r \<noteq> 0"
  shows "sint (word_of_int (sint l smod sint r) :: i128) = sint l smod sint (r :: i128)"
proof -
  have "sint r \<noteq> 0" using assms by (simp add: sint_eq_0_iff)
  from smod_int_range [OF this, of "sint l"] sint_i128_range [of r]
  have "- (2 ^ 127) \<le> sint l smod sint r" "sint l smod sint r < 2 ^ 127" by (simp_all add: abs_if split: if_splits)
  then show ?thesis using sint_word_of_int [where ?'a = 128] by simp
qed

lemma num_rem_val: "map_option num_val (num_rem m n) = bigint_rem (num_val m) (num_val n)"
  by (cases m; cases n)
    (auto simp: num_rem_def checked_rem_i128_def bigint_rem_def sint_eq_0_iff sint_smod split: option.splits if_splits)

text \<open>Rounding the truncated quotient down gives floor division.\<close>

lemma floor_of_truncated:
  fixes a b :: int
  assumes "b \<noteq> 0"
  defines "q \<equiv> a sdiv b" and "r \<equiv> a smod b"
  shows "(if (0 < r \<and> b < 0) \<or> (r < 0 \<and> 0 < b) then (q - 1, r + b) else (q, r)) = (a div b, a mod b)"
proof -
  have qr: "a = q * b + r" unfolding q_def r_def by (simp add: sdiv_mult_smod_eq)
  have r: "- \<bar>b\<bar> < r" "r < \<bar>b\<bar>" using smod_int_range [OF assms(1), of a] unfolding r_def by auto
  have floor: "(a div b, a mod b) = (x, y)"
    if "a = b * x + y" "(0 \<le> y \<and> y < b) \<or> (y \<le> 0 \<and> b < y)" for x y
    using that int_div_pos_eq [of a b x y] int_div_neg_eq [of a b x y]
      int_mod_pos_eq [of a b x y] int_mod_neg_eq [of a b x y] by auto
  show ?thesis
  proof (cases "(0 < r \<and> b < 0) \<or> (r < 0 \<and> 0 < b)")
    case True
    then show ?thesis using floor [of "q - 1" "r + b"] qr r by (auto simp: algebra_simps)
  next
    case False
    then show ?thesis using floor [of q r] qr r assms(1) by (auto simp: algebra_simps)
  qed
qed


end
