(* ===== verification/ClvmArena.thy ===== *)
theory ClvmArena
  imports ClvmNumber
begin

text \<open>
  The node arena of the interpreter, \<^verbatim>\<open>src/core/src/clvm/arena.rs\<close>: handles that carry a type tag and an index, atoms
  small enough to live in the handle, spans into one byte heap, and the limits on atoms, pairs and bytes.
\<close>

section \<open>Errors\<close>

text \<open>
  The variants of \<^verbatim>\<open>ClvmError\<close> the interpreter raises, without their message texts. \<open>Panicked\<close> is not one of
  them: it stands for a panic.
\<close>

datatype vm_error =
    CostExceeded u64 u64
  | ExpectedPairGotAtom
  | ExpectedAtomGotPair
  | InvalidApplyArgs
  | InvalidArgCount
  | InvalidInput
  | InvalidOperator
  | InvalidOperandList
  | InvalidOperandArgs string nat
  | InvalidSyntax
  | VmIo error_kind
  | Overflow
  | Raise
  | ReservedOperator
  | TooManyAtoms
  | TooManyPairs
  | OutOfMemory
  | Unimplemented u8
  | Unsupported
  | ValueStackEmpty
  | Panicked

section \<open>Handles\<close>

definition MAX_NUM_ATOMS :: nat where "MAX_NUM_ATOMS = 62500000"
definition MAX_NUM_PAIRS :: nat where "MAX_NUM_PAIRS = 62500000"
definition NODE_PTR_IDX_BITS :: nat where "NODE_PTR_IDX_BITS = 26"
definition NODE_PTR_IDX_MASK :: u32 where "NODE_PTR_IDX_MASK = push_bit NODE_PTR_IDX_BITS 1 - 1"
definition HEAP_LIMIT :: nat where "HEAP_LIMIT = 2 ^ 32 - 1"
definition INTERN_MIN_ATOM_BYTES :: nat where "INTERN_MIN_ATOM_BYTES = 32"

type_synonym node_ptr = u32

datatype object_type = PairType | BytesType | SmallAtomType

fun object_tag :: "object_type \<Rightarrow> u32" where
  "object_tag PairType = 0"
| "object_tag BytesType = 1"
| "object_tag SmallAtomType = 2"

definition new_ptr :: "object_type \<Rightarrow> nat \<Rightarrow> node_ptr" where
  "new_ptr t i = push_bit NODE_PTR_IDX_BITS (object_tag t) OR of_nat i"

text \<open>The match has no other arms: a tag above 2 is unreachable in the source, and is read as 2 here.\<close>

definition object_type_of :: "node_ptr \<Rightarrow> object_type" where
  "object_type_of p = (let t = drop_bit NODE_PTR_IDX_BITS p in
     if t = 0 then PairType else if t = 1 then BytesType else SmallAtomType)"

definition ptr_index :: "node_ptr \<Rightarrow> u32" where
  "ptr_index p = p AND NODE_PTR_IDX_MASK"

definition is_pair :: "node_ptr \<Rightarrow> bool" where
  "is_pair p \<longleftrightarrow> object_type_of p = PairType"

definition is_atom :: "node_ptr \<Rightarrow> bool" where
  "is_atom p \<longleftrightarrow> \<not> is_pair p"

definition NIL :: node_ptr where "NIL = new_ptr SmallAtomType 0"
definition ONE :: node_ptr where "ONE = new_ptr SmallAtomType 1"

section \<open>Small atoms\<close>

definition fits_in_small_atom :: "bytes \<Rightarrow> u32 option" where
  "fits_in_small_atom v =
     (if v \<noteq> [] \<and> (length v > 4 \<or> (length v = 1 \<and> v ! 0 = 0) \<or> v ! 0 AND 0x80 \<noteq> 0 \<or>
          (v ! 0 = 0 \<and> v ! 1 AND 0x80 = 0) \<or> (length v = 4 \<and> v ! 0 > 0x03))
      then None else Some (foldl (\<lambda>ret b. push_bit 8 ret OR ucast b) 0 v))"

definition len_for_value :: "u32 \<Rightarrow> nat" where
  "len_for_value val =
     (if val = 0 then 0 else if val < 0x80 then 1 else if val < 0x8000 then 2
      else if val < 0x800000 then 3 else if val < 0x80000000 then 4 else 5)"

text \<open>The canonical bytes of an inline value: \<^verbatim>\<open>&val.to_be_bytes()[4 - len..]\<close>.\<close>

definition small_bytes :: "u32 \<Rightarrow> bytes" where
  "small_bytes val = drop (4 - len_for_value val) (be_bytes 4 (unat val))"

section \<open>The arena\<close>

record atom_span =
  span_start :: u32
  span_end :: u32

definition span_len :: "atom_span \<Rightarrow> nat" where
  "span_len s = unat (span_end s - span_start s)"

record int_pair =
  ip_first :: node_ptr
  ip_rest :: node_ptr

record arena =
  atom_intern :: "bytes \<rightharpoonup> node_ptr"
  u8_vec :: bytes
  pair_vec :: "int_pair list"
  atom_vec :: "atom_span list"
  ghost_atoms :: nat
  ghost_pairs :: nat
  ghost_heap :: nat

record checkpoint =
  cp_heap :: nat
  cp_pairs :: nat
  cp_atoms :: nat

definition reset_arena :: "arena \<Rightarrow> arena" where
  "reset_arena a = a\<lparr>atom_intern := Map.empty, u8_vec := [], pair_vec := [], atom_vec := [],
     ghost_atoms := 2, ghost_pairs := 0, ghost_heap := 1\<rparr>"

definition new_arena :: arena where
  "new_arena = reset_arena \<lparr>atom_intern = Map.empty, u8_vec = [], pair_vec = [], atom_vec = [],
     ghost_atoms = 0, ghost_pairs = 0, ghost_heap = 0\<rparr>"

definition checkpoint_of :: "arena \<Rightarrow> checkpoint" where
  "checkpoint_of a = \<lparr>cp_heap = length (u8_vec a), cp_pairs = length (pair_vec a), cp_atoms = length (atom_vec a)\<rparr>"

definition restore :: "arena \<Rightarrow> checkpoint \<Rightarrow> arena" where
  "restore a cp = a\<lparr>ghost_heap := ghost_heap a + (length (u8_vec a) - cp_heap cp),
     ghost_pairs := ghost_pairs a + (length (pair_vec a) - cp_pairs cp),
     ghost_atoms := ghost_atoms a + (length (atom_vec a) - cp_atoms cp),
     u8_vec := take (cp_heap cp) (u8_vec a), pair_vec := take (cp_pairs cp) (pair_vec a),
     atom_vec := take (cp_atoms cp) (atom_vec a), atom_intern := Map.empty\<rparr>"

definition check_atom_limit :: "arena \<Rightarrow> vm_error + unit" where
  "check_atom_limit a = (if length (atom_vec a) + ghost_atoms a = MAX_NUM_ATOMS then Inl TooManyAtoms else Inr ())"

definition counters :: "arena \<Rightarrow> nat \<times> nat \<times> nat" where
  "counters a = (length (atom_vec a) + ghost_atoms a, length (pair_vec a) + ghost_pairs a,
     length (u8_vec a) + ghost_heap a)"

text \<open>Reading. An index past the end of a pool panics in the source.\<close>

definition span_bytes :: "bytes \<Rightarrow> atom_span \<Rightarrow> bytes" where
  "span_bytes heap s = take (unat (span_end s) - unat (span_start s)) (drop (unat (span_start s)) heap)"

definition atom_at :: "arena \<Rightarrow> node_ptr \<Rightarrow> atom_span" where
  "atom_at a p = atom_vec a ! unat (ptr_index p)"

definition arena_atom :: "arena \<Rightarrow> node_ptr \<Rightarrow> bytes option" where
  "arena_atom a p = (case object_type_of p of
     BytesType \<Rightarrow> Some (span_bytes (u8_vec a) (atom_at a p))
   | SmallAtomType \<Rightarrow> Some (small_bytes (ptr_index p))
   | PairType \<Rightarrow> None)"

definition atom_len :: "arena \<Rightarrow> node_ptr \<Rightarrow> nat option" where
  "atom_len a p = (case object_type_of p of
     BytesType \<Rightarrow> Some (span_len (atom_at a p))
   | SmallAtomType \<Rightarrow> Some (len_for_value (ptr_index p))
   | PairType \<Rightarrow> None)"

definition arena_number :: "arena \<Rightarrow> node_ptr \<Rightarrow> sexp_number option" where
  "arena_number a p = (case object_type_of p of
     SmallAtomType \<Rightarrow> Some (I128 (ucast (ptr_index p)))
   | BytesType \<Rightarrow> Some (sexp_number_from (span_bytes (u8_vec a) (atom_at a p)))
   | PairType \<Rightarrow> None)"

datatype node_kind = AtomNode | PairNode node_ptr node_ptr

definition node_kind_of :: "arena \<Rightarrow> node_ptr \<Rightarrow> node_kind" where
  "node_kind_of a p = (case object_type_of p of
     PairType \<Rightarrow> let pair = pair_vec a ! unat (ptr_index p) in PairNode (ip_first pair) (ip_rest pair)
   | BytesType \<Rightarrow> AtomNode
   | SmallAtomType \<Rightarrow> AtomNode)"

definition next_of :: "arena \<Rightarrow> node_ptr \<Rightarrow> (node_ptr \<times> node_ptr) option" where
  "next_of a p = (case node_kind_of a p of PairNode first rest \<Rightarrow> Some (first, rest) | AtomNode \<Rightarrow> None)"

definition nullp :: "arena \<Rightarrow> node_ptr \<Rightarrow> bool" where
  "nullp a p \<longleftrightarrow> p = NIL \<or> atom_len a p = Some 0"

section \<open>Allocation\<close>

text \<open>An allocation that fails leaves the arena as it was.\<close>

definition new_atom :: "arena \<Rightarrow> bytes \<Rightarrow> vm_error + arena \<times> node_ptr" where
  "new_atom a v =
     (let start = length (u8_vec a) in
      if start + ghost_heap a + length v > HEAP_LIMIT then Inl OutOfMemory
      else bind_res (check_atom_limit a) (\<lambda>_.
        case fits_in_small_atom v of
          Some val \<Rightarrow>
            Inr (a\<lparr>ghost_atoms := ghost_atoms a + 1, ghost_heap := ghost_heap a + length v\<rparr>,
                 new_ptr SmallAtomType (unat val))
        | None \<Rightarrow>
            (case if length v \<ge> INTERN_MIN_ATOM_BYTES then atom_intern a v else None of
               Some existing \<Rightarrow>
                 Inr (a\<lparr>ghost_atoms := ghost_atoms a + 1, ghost_heap := ghost_heap a + length v\<rparr>, existing)
             | None \<Rightarrow>
                 let idx = length (atom_vec a);
                     node = new_ptr BytesType idx;
                     heap = u8_vec a @ v
                 in Inr (a\<lparr>u8_vec := heap,
                          atom_vec := atom_vec a @ [\<lparr>span_start = of_nat start, span_end = of_nat (length heap)\<rparr>],
                          atom_intern := (if length v \<ge> INTERN_MIN_ATOM_BYTES
                            then (atom_intern a)(v \<mapsto> node) else atom_intern a)\<rparr>, node))))"

definition new_pair :: "arena \<Rightarrow> node_ptr \<Rightarrow> node_ptr \<Rightarrow> vm_error + arena \<times> node_ptr" where
  "new_pair a first rest =
     (let idx = length (pair_vec a) in
      if idx \<ge> MAX_NUM_PAIRS - ghost_pairs a then Inl TooManyPairs
      else Inr (a\<lparr>pair_vec := pair_vec a @ [\<lparr>ip_first = first, ip_rest = rest\<rparr>]\<rparr>, new_ptr PairType idx))"

definition bounds_check :: "u32 \<Rightarrow> u32 \<Rightarrow> u32 \<Rightarrow> vm_error + unit" where
  "bounds_check start stop len =
     (if start > len then Inl InvalidInput
      else if stop > len then Inl InvalidInput
      else if stop < start then Inl InvalidInput else Inr ())"

definition new_substr :: "arena \<Rightarrow> node_ptr \<Rightarrow> u32 \<Rightarrow> u32 \<Rightarrow> vm_error + arena \<times> node_ptr" where
  "new_substr a node start stop =
     bind_res (check_atom_limit a) (\<lambda>_.
       case object_type_of node of
         PairType \<Rightarrow> Inl ExpectedAtomGotPair
       | BytesType \<Rightarrow>
           let atom = atom_at a node in
           bind_res (bounds_check start stop (span_end atom - span_start atom)) (\<lambda>_.
             Inr (a\<lparr>atom_vec := atom_vec a @
                    [\<lparr>span_start = span_start atom + start, span_end = span_start atom + stop\<rparr>]\<rparr>,
                  new_ptr BytesType (length (atom_vec a))))
       | SmallAtomType \<Rightarrow>
           let val = ptr_index node; buf = small_bytes val in
           bind_res (bounds_check start stop (of_nat (len_for_value val))) (\<lambda>_.
             let substr = take (unat stop - unat start) (drop (unat start) buf) in
             case fits_in_small_atom substr of
               Some new_val \<Rightarrow> Inr (a\<lparr>ghost_atoms := ghost_atoms a + 1\<rparr>, new_ptr SmallAtomType (unat new_val))
             | None \<Rightarrow>
                 let heap_start = length (u8_vec a); heap = u8_vec a @ substr in
                 Inr (a\<lparr>u8_vec := heap, atom_vec := atom_vec a @
                        [\<lparr>span_start = of_nat heap_start, span_end = of_nat (length heap)\<rparr>]\<rparr>,
                      new_ptr BytesType (length (atom_vec a)))))"

text \<open>The copying loop of \<^verbatim>\<open>new_concat\<close>: the heap grown so far and the bytes written.\<close>

fun concat_loop :: "arena \<Rightarrow> nat \<Rightarrow> node_ptr list \<Rightarrow> bytes \<Rightarrow> nat \<Rightarrow> vm_error + bytes \<times> nat" where
  "concat_loop a new_size [] heap counter = Inr (heap, counter)"
| "concat_loop a new_size (node # nodes) heap counter = (case object_type_of node of
     PairType \<Rightarrow> Inl ExpectedAtomGotPair
   | BytesType \<Rightarrow>
       let term = atom_at a node in
       if counter + span_len term > new_size then Inl InvalidInput
       else concat_loop a new_size nodes (heap @ span_bytes heap term) (counter + span_len term)
   | SmallAtomType \<Rightarrow>
       let val = ptr_index node in
       concat_loop a new_size nodes (heap @ small_bytes val) (counter + len_for_value val))"

definition new_concat :: "arena \<Rightarrow> nat \<Rightarrow> node_ptr list \<Rightarrow> vm_error + arena \<times> node_ptr" where
  "new_concat a new_size nodes =
     bind_res (check_atom_limit a) (\<lambda>_.
       let start = length (u8_vec a) in
       if start + ghost_heap a + new_size > HEAP_LIMIT then Inl OutOfMemory
       else case nodes of
         [] \<Rightarrow> if new_size \<noteq> 0 then Inl InvalidInput
               else Inr (a\<lparr>ghost_atoms := ghost_atoms a + 1\<rparr>, NIL)
       | [node] \<Rightarrow>
           bind_res (ok_or (atom_len a node) ExpectedAtomGotPair) (\<lambda>len.
             if len \<noteq> new_size then Inl InvalidInput
             else Inr (a\<lparr>ghost_heap := ghost_heap a + new_size, ghost_atoms := ghost_atoms a + 1\<rparr>, node))
       | _ \<Rightarrow>
           bind_res (concat_loop a new_size nodes (u8_vec a) 0) (\<lambda>(heap, counter).
             if counter \<noteq> new_size then Inl InvalidInput
             else Inr (a\<lparr>u8_vec := heap, atom_vec := atom_vec a @
                        [\<lparr>span_start = of_nat start, span_end = of_nat (length heap)\<rparr>]\<rparr>,
                      new_ptr BytesType (length (atom_vec a)))))"

definition new_number :: "arena \<Rightarrow> sexp_number \<Rightarrow> vm_error + arena \<times> node_ptr" where
  "new_number a n = (case n of
     I128 v \<Rightarrow> new_atom a (i128_bytes v)
   | BigInt b \<Rightarrow> new_atom a (bigint_to_bytes b (bigint_sign b \<noteq> NoSign)))"

section \<open>Trees in and out\<close>

datatype import_job = ImportVisit sexp | ImportBuild

text \<open>
  The two stacks of \<^verbatim>\<open>import\<close>. An error leaves in the arena what was built before it.
\<close>

function import_loop :: "import_job list \<Rightarrow> node_ptr list \<Rightarrow> arena \<Rightarrow> arena \<times> (vm_error + node_ptr)" where
  "import_loop [] out a = (case out of [] \<Rightarrow> (a, Inl ValueStackEmpty) | p # _ \<Rightarrow> (a, Inr p))"
| "import_loop (ImportVisit (Atom b) # jobs) out a = (case new_atom a b of
     Inl e \<Rightarrow> (a, Inl e) | Inr (a', p) \<Rightarrow> import_loop jobs (p # out) a')"
| "import_loop (ImportVisit (Pair first rest) # jobs) out a =
     import_loop (ImportVisit first # ImportVisit rest # ImportBuild # jobs) out a"
| "import_loop (ImportBuild # jobs) out a = (case out of
     rest # first # out' \<Rightarrow> (case new_pair a first rest of
       Inl e \<Rightarrow> (a, Inl e) | Inr (a', p) \<Rightarrow> import_loop jobs (p # out') a')
   | _ \<Rightarrow> (a, Inl ValueStackEmpty))"
  by pat_completeness auto
termination
  by (relation "measure (\<lambda>(jobs, out, a). sum_list (map (case_import_job (\<lambda>s. 4 * size s + 1) 1) jobs))") auto

definition import :: "arena \<Rightarrow> sexp \<Rightarrow> arena \<times> (vm_error + node_ptr)" where
  "import a s = import_loop [ImportVisit s] [] a"

datatype export_job = ExportVisit node_ptr | ExportBuild

text \<open>On pools that were not built by the operations above the walk need not end: \<open>None\<close> then.\<close>

partial_function (option) export_loop :: "arena \<Rightarrow> export_job list \<Rightarrow> sexp list \<Rightarrow> (vm_error + sexp) option" where
  "export_loop a jobs out = (case jobs of
     [] \<Rightarrow> Some (case out of s # _ \<Rightarrow> Inr s | [] \<Rightarrow> Inl Panicked)
   | ExportVisit p # js \<Rightarrow> (case node_kind_of a p of
       AtomNode \<Rightarrow> (case arena_atom a p of
         Some b \<Rightarrow> export_loop a js (Atom b # out) | None \<Rightarrow> Some (Inl Panicked))
     | PairNode first rest \<Rightarrow> export_loop a (ExportVisit first # ExportVisit rest # ExportBuild # js) out)
   | ExportBuild # js \<Rightarrow> (case out of
       rest # first # out' \<Rightarrow> export_loop a js (Pair first rest # out')
     | _ \<Rightarrow> Some (Inl Panicked)))"

definition export :: "arena \<Rightarrow> node_ptr \<Rightarrow> (vm_error + sexp) option" where
  "export a p = export_loop a [ExportVisit p] []"

end
