(* ===== verification/ClvmOps.thy ===== *)
theory ClvmOps
  imports ClvmArena
begin

text \<open>
  The operators of \<^verbatim>\<open>src/core/src/clvm/core_ops.rs\<close> and \<^verbatim>\<open>more_ops.rs\<close>, with their argument readers
  (\<^verbatim>\<open>src/core/src/clvm/utils.rs\<close>) and costs. SHA-256 is a parameter. An operator reads nodes and describes its
  result; \<^verbatim>\<open>materialize\<close> allocates it.
\<close>

section \<open>The read interface\<close>

text \<open>
  Operators read the arena through a shared borrow and cannot allocate. What they can see of it is this record; the
  operators below are written over it, so that they run on an arena (\<open>arena_view\<close>) and on trees (\<open>sexp_view\<close>).
\<close>

record 'n view =
  v_next :: "'n \<Rightarrow> ('n \<times> 'n) option"
  v_atom :: "'n \<Rightarrow> bytes option"
  v_len :: "'n \<Rightarrow> nat option"
  v_number :: "'n \<Rightarrow> sexp_number option"
  v_nullp :: "'n \<Rightarrow> bool"
  v_nil :: 'n
  v_one :: 'n

definition arena_view :: "arena \<Rightarrow> node_ptr view" where
  "arena_view a = \<lparr>v_next = next_of a, v_atom = arena_atom a, v_len = atom_len a, v_number = arena_number a,
     v_nullp = nullp a, v_nil = NIL, v_one = ONE\<rparr>"

fun sexp_next :: "sexp \<Rightarrow> (sexp \<times> sexp) option" where
  "sexp_next (Pair s t) = Some (s, t)"
| "sexp_next (Atom b) = None"

fun sexp_atom :: "sexp \<Rightarrow> bytes option" where
  "sexp_atom (Atom b) = Some b"
| "sexp_atom (Pair s t) = None"

definition sexp_view :: "sexp view" where
  "sexp_view = \<lparr>v_next = sexp_next, v_atom = sexp_atom, v_len = (\<lambda>s. map_option length (sexp_atom s)),
     v_number = (\<lambda>s. map_option sexp_number_from (sexp_atom s)), v_nullp = (\<lambda>s. s = Atom []),
     v_nil = Atom [], v_one = Atom [1]\<rparr>"

section \<open>Walking argument lists\<close>

function arg_count_loop :: "'n view \<Rightarrow> 'n \<Rightarrow> nat \<Rightarrow> nat \<Rightarrow> nat" where
  "arg_count_loop v ptr k return_early_if_exceeds = (case v_next v ptr of
     None \<Rightarrow> k
   | Some (_, rest) \<Rightarrow>
       if k + 1 > return_early_if_exceeds then k + 1
       else arg_count_loop v rest (k + 1) return_early_if_exceeds)"
  by pat_completeness auto
termination by (relation "measure (\<lambda>(v, p, k, n). n - k)") auto

declare arg_count_loop.simps [simp del]

definition arg_count :: "'n view \<Rightarrow> 'n \<Rightarrow> nat \<Rightarrow> nat" where
  "arg_count v node return_early_if_exceeds = arg_count_loop v node 0 return_early_if_exceeds"

fun arg_count_is :: "'n view \<Rightarrow> 'n \<Rightarrow> nat \<Rightarrow> bool" where
  "arg_count_is v ptr 0 = v_nullp v ptr"
| "arg_count_is v ptr (Suc n) = (case v_next v ptr of Some (_, rest) \<Rightarrow> arg_count_is v rest n | None \<Rightarrow> False)"

datatype 'n arg_cursor = ArgCursor 'n bool

definition cursor_new :: "'n \<Rightarrow> 'n arg_cursor" where
  "cursor_new args = ArgCursor args False"

fun cursor_next :: "'n view \<Rightarrow> 'n arg_cursor \<Rightarrow> 'n option \<times> 'n arg_cursor" where
  "cursor_next v (ArgCursor cur is_done) =
     (if is_done then (None, ArgCursor cur is_done)
      else case v_next v cur of
        Some (first, rest) \<Rightarrow> (Some first, ArgCursor rest is_done)
      | None \<Rightarrow> (if v_nullp v cur then None else Some cur, ArgCursor cur True))"

text \<open>
  \<^verbatim>\<open>while let Some(arg) = cursor.next(arena) { .. }\<close> with the variables the body updates as the accumulator; an
  error leaves the loop. A cyclic arena would never end it: \<open>None\<close>.
\<close>

partial_function (option) cursor_loop ::
  "'n view \<Rightarrow> ('acc \<Rightarrow> 'n \<Rightarrow> vm_error + 'acc) \<Rightarrow> 'n arg_cursor \<Rightarrow> 'acc \<Rightarrow> (vm_error + 'acc) option" where
  "cursor_loop v body c acc = (case cursor_next v c of
     (None, _) \<Rightarrow> Some (Inr acc)
   | (Some arg, c') \<Rightarrow> (case body acc arg of
       Inl e \<Rightarrow> Some (Inl e) | Inr acc' \<Rightarrow> cursor_loop v body c' acc'))"

text \<open>\<^verbatim>\<open>while let Some((first, rest)) = arena.next(cur) { .. }\<close>: a non-pair tail ends the list silently.\<close>

partial_function (option) pair_loop ::
  "'n view \<Rightarrow> ('acc \<Rightarrow> 'n \<Rightarrow> vm_error + 'acc) \<Rightarrow> 'n \<Rightarrow> 'acc \<Rightarrow> (vm_error + 'acc) option" where
  "pair_loop v body cur acc = (case v_next v cur of
     None \<Rightarrow> Some (Inr acc)
   | Some (first, rest) \<Rightarrow> (case body acc first of
       Inl e \<Rightarrow> Some (Inl e) | Inr acc' \<Rightarrow> pair_loop v body rest acc'))"

text \<open>The early \<^verbatim>\<open>return vec![]\<close> of \<^verbatim>\<open>as_atom_list\<close> leaves its loop like an error, with the empty list as result.\<close>

definition as_atom_list :: "'n view \<Rightarrow> 'n \<Rightarrow> bytes list option" where
  "as_atom_list v node = map_option (\<lambda>r. case r of Inl _ \<Rightarrow> [] | Inr rtn \<Rightarrow> rtn)
     (pair_loop v (\<lambda>rtn first. case v_atom v first of Some a \<Rightarrow> Inr (rtn @ [a]) | None \<Rightarrow> Inl ExpectedAtomGotPair) node [])"

section \<open>Argument helpers\<close>

text \<open>\<^verbatim>\<open>len as u64\<close>.\<close>

abbreviation len64 :: "nat \<Rightarrow> u64" where
  "len64 n \<equiv> of_nat n"

definition check_cost :: "u64 \<Rightarrow> u64 \<Rightarrow> vm_error + unit" where
  "check_cost cost max_cost = (if cost > max_cost then Inl (VmIo InvalidData) else Inr ())"

definition check_arg_count :: "'n view \<Rightarrow> 'n \<Rightarrow> nat \<Rightarrow> string \<Rightarrow> vm_error + unit" where
  "check_arg_count v args expected name =
     (if arg_count v args expected = expected then Inr () else Inl (InvalidOperandArgs name expected))"

definition split_node :: "'n view \<Rightarrow> 'n \<Rightarrow> vm_error + 'n \<times> 'n" where
  "split_node v node = ok_or (v_next v node) ExpectedPairGotAtom"

definition int_atom :: "'n view \<Rightarrow> 'n \<Rightarrow> vm_error + bytes" where
  "int_atom v node = ok_or (v_atom v node) (VmIo error_kind.InvalidInput)"

definition atom_arg :: "'n view \<Rightarrow> 'n \<Rightarrow> vm_error + bytes" where
  "atom_arg v node = ok_or (v_atom v node) (VmIo error_kind.InvalidInput)"

definition number_with_len :: "'n view \<Rightarrow> 'n \<Rightarrow> vm_error + sexp_number \<times> nat" where
  "number_with_len v node = (case (v_number v node, v_len v node) of
     (Some n, Some len) \<Rightarrow> Inr (n, len) | _ \<Rightarrow> Inl ExpectedAtomGotPair)"

definition two_ints :: "'n view \<Rightarrow> 'n \<Rightarrow> string \<Rightarrow> vm_error + (sexp_number \<times> nat) \<times> (sexp_number \<times> nat)" where
  "two_ints v args op_name =
     bind_res (check_arg_count v args 2 op_name) (\<lambda>_.
     bind_res (split_node v args) (\<lambda>(first, rest).
     bind_res (split_node v rest) (\<lambda>(second, _).
     bind_res (number_with_len v first) (\<lambda>x.
     bind_res (number_with_len v second) (\<lambda>y. Inr (x, y))))))"

definition i32_atom :: "'n view \<Rightarrow> 'n \<Rightarrow> vm_error + int" where
  "i32_atom v node = (case v_atom v node of
     None \<Rightarrow> Inl (VmIo InvalidData)
   | Some buf \<Rightarrow> ok_or (i32_from_slice buf) (VmIo InvalidData))"

section \<open>Described results\<close>

datatype 'n op_out =
    Same 'n
  | OutPair 'n 'n
  | OutNumber sexp_number
  | Small bytes
  | Concat "'n list" nat
  | Substr 'n u32 u32
  | NumberPair sexp_number sexp_number

type_synonym 'n op_result = "vm_error + u64 \<times> 'n op_out"

definition MALLOC_COST_PER_BYTE :: u64 where "MALLOC_COST_PER_BYTE = 10"

fun is_self_contained :: "'n op_out \<Rightarrow> bool" where
  "is_self_contained (OutNumber n) = True"
| "is_self_contained (Small b) = True"
| "is_self_contained _ = False"

text \<open>The buffer of a small result holds 96 bytes; the copy into it panics beyond that.\<close>

definition new_atom_and_cost :: "u64 \<Rightarrow> bytes \<Rightarrow> 'n op_result" where
  "new_atom_and_cost cost buf =
     (if length buf > 96 then Inl Panicked else Inr (cost + len64 (length buf) * MALLOC_COST_PER_BYTE, Small buf))"

text \<open>Materialization, the one place that allocates; an error can leave a first number behind.\<close>

definition materialize :: "node_ptr op_out \<Rightarrow> arena \<Rightarrow> u64 \<Rightarrow> arena \<times> (vm_error + u64 \<times> node_ptr)" where
  "materialize out a cost = (case out of
     Same node \<Rightarrow> (a, Inr (cost, node))
   | OutPair first rest \<Rightarrow> (case new_pair a first rest of
       Inl e \<Rightarrow> (a, Inl e) | Inr (a', p) \<Rightarrow> (a', Inr (cost, p)))
   | OutNumber n \<Rightarrow> (case new_number a n of
       Inl e \<Rightarrow> (a, Inl e)
     | Inr (a', p) \<Rightarrow> (case atom_len a' p of
         None \<Rightarrow> (a', Inl ExpectedAtomGotPair)
       | Some len \<Rightarrow> (a', Inr (cost + len64 len * MALLOC_COST_PER_BYTE, p))))
   | Small b \<Rightarrow> (case new_atom a b of
       Inl e \<Rightarrow> (a, Inl e) | Inr (a', p) \<Rightarrow> (a', Inr (cost, p)))
   | Concat nodes total_len \<Rightarrow> (case new_concat a total_len nodes of
       Inl e \<Rightarrow> (a, Inl e) | Inr (a', p) \<Rightarrow> (a', Inr (cost, p)))
   | Substr node start stop \<Rightarrow> (case new_substr a node start stop of
       Inl e \<Rightarrow> (a, Inl e) | Inr (a', p) \<Rightarrow> (a', Inr (cost, p)))
   | NumberPair q r \<Rightarrow> (case new_number a q of
       Inl e \<Rightarrow> (a, Inl e)
     | Inr (a1, q1) \<Rightarrow> (case new_number a1 r of
         Inl e \<Rightarrow> (a1, Inl e)
       | Inr (a2, r1) \<Rightarrow>
           let c = len64 ((case atom_len a2 q1 of Some n \<Rightarrow> n | None \<Rightarrow> 0) +
                          (case atom_len a2 r1 of Some n \<Rightarrow> n | None \<Rightarrow> 0)) * MALLOC_COST_PER_BYTE
           in (case new_pair a2 q1 r1 of
                 Inl e \<Rightarrow> (a2, Inl e) | Inr (a3, p) \<Rightarrow> (a3, Inr (cost + c, p))))))"

section \<open>Costs and flags\<close>

text \<open>The operator costs of \<^verbatim>\<open>core_ops.rs\<close> and \<^verbatim>\<open>more_ops.rs\<close>, and the flags of \<^verbatim>\<open>utils.rs\<close> that operators read.\<close>

definition FIRST_COST :: u64 where "FIRST_COST = 30"
definition IF_COST :: u64 where "IF_COST = 33"
definition CONS_COST :: u64 where "CONS_COST = 50"
definition REST_COST :: u64 where "REST_COST = 30"
definition LISTP_COST :: u64 where "LISTP_COST = 19"
definition EQ_BASE_COST :: u64 where "EQ_BASE_COST = 117"
definition EQ_COST_PER_BYTE :: u64 where "EQ_COST_PER_BYTE = 1"
definition ARITH_BASE_COST :: u64 where "ARITH_BASE_COST = 99"
definition MODPOW_BASE_COST :: u64 where "MODPOW_BASE_COST = 17000"
definition MODPOW_COST_PER_BYTE_BASE_VALUE :: u64 where "MODPOW_COST_PER_BYTE_BASE_VALUE = 38"
definition MODPOW_COST_PER_BYTE_EXPONENT :: u64 where "MODPOW_COST_PER_BYTE_EXPONENT = 3"
definition MODPOW_COST_PER_BYTE_MOD :: u64 where "MODPOW_COST_PER_BYTE_MOD = 21"
definition NEW_MODPOW_PER_ITERATION_COST :: u64 where "NEW_MODPOW_PER_ITERATION_COST = 4000"
definition NEW_MODPOW_EXPONENT_MULTIPLIER :: u64 where "NEW_MODPOW_EXPONENT_MULTIPLIER = 8"
definition NEW_DIV_BASE_COST :: u64 where "NEW_DIV_BASE_COST = 1000"
definition NEW_DIV_LINEAR_COST_PER_BYTE :: u64 where "NEW_DIV_LINEAR_COST_PER_BYTE = 50"
definition NEW_DIV_SQUARE_COST_PER_BYTE_DIVIDER :: u64 where "NEW_DIV_SQUARE_COST_PER_BYTE_DIVIDER = 10"
definition ARITH_COST_PER_ARG :: u64 where "ARITH_COST_PER_ARG = 320"
definition ARITH_COST_PER_BYTE :: u64 where "ARITH_COST_PER_BYTE = 3"
definition LOG_BASE_COST :: u64 where "LOG_BASE_COST = 100"
definition LOG_COST_PER_ARG :: u64 where "LOG_COST_PER_ARG = 264"
definition LOG_COST_PER_BYTE :: u64 where "LOG_COST_PER_BYTE = 3"
definition LOG_NOT_BASE_COST :: u64 where "LOG_NOT_BASE_COST = 331"
definition LOG_NOT_COST_PER_BYTE :: u64 where "LOG_NOT_COST_PER_BYTE = 3"
definition MUL_BASE_COST :: u64 where "MUL_BASE_COST = 92"
definition MUL_COST_PER_OP :: u64 where "MUL_COST_PER_OP = 885"
definition MUL_LINEAR_COST_PER_BYTE :: u64 where "MUL_LINEAR_COST_PER_BYTE = 6"
definition MUL_SQUARE_COST_PER_BYTE_DIVIDER :: u64 where "MUL_SQUARE_COST_PER_BYTE_DIVIDER = 128"
definition GR_BASE_COST :: u64 where "GR_BASE_COST = 498"
definition GR_COST_PER_BYTE :: u64 where "GR_COST_PER_BYTE = 2"
definition GRS_BASE_COST :: u64 where "GRS_BASE_COST = 117"
definition GRS_COST_PER_BYTE :: u64 where "GRS_COST_PER_BYTE = 1"
definition STRLEN_BASE_COST :: u64 where "STRLEN_BASE_COST = 173"
definition STRLEN_COST_PER_BYTE :: u64 where "STRLEN_COST_PER_BYTE = 1"
definition CONCAT_BASE_COST :: u64 where "CONCAT_BASE_COST = 142"
definition CONCAT_COST_PER_ARG :: u64 where "CONCAT_COST_PER_ARG = 135"
definition CONCAT_COST_PER_BYTE :: u64 where "CONCAT_COST_PER_BYTE = 3"
definition DIV_MOD_BASE_COST :: u64 where "DIV_MOD_BASE_COST = 1116"
definition DIV_MOD_COST_PER_BYTE :: u64 where "DIV_MOD_COST_PER_BYTE = 6"
definition DIV_BASE_COST :: u64 where "DIV_BASE_COST = 988"
definition DIV_COST_PER_BYTE :: u64 where "DIV_COST_PER_BYTE = 4"
definition SHA256_BASE_COST :: u64 where "SHA256_BASE_COST = 87"
definition SHA256_COST_PER_ARG :: u64 where "SHA256_COST_PER_ARG = 134"
definition SHA256_COST_PER_BYTE :: u64 where "SHA256_COST_PER_BYTE = 2"
definition A_SHIFT_BASE_COST :: u64 where "A_SHIFT_BASE_COST = 596"
definition A_SHIFT_COST_PER_BYTE :: u64 where "A_SHIFT_COST_PER_BYTE = 3"
definition LSHIFT_BASE_COST :: u64 where "LSHIFT_BASE_COST = 277"
definition LSHIFT_COST_PER_BYTE :: u64 where "LSHIFT_COST_PER_BYTE = 3"
definition BOOL_BASE_COST :: u64 where "BOOL_BASE_COST = 200"
definition BOOL_COST_PER_ARG :: u64 where "BOOL_COST_PER_ARG = 300"
definition POINT_ADD_BASE_COST :: u64 where "POINT_ADD_BASE_COST = 101094"
definition POINT_ADD_COST_PER_ARG :: u64 where "POINT_ADD_COST_PER_ARG = 1343980"
definition PUBKEY_BASE_COST :: u64 where "PUBKEY_BASE_COST = 1325730"
definition PUBKEY_COST_PER_BYTE :: u64 where "PUBKEY_COST_PER_BYTE = 38"
definition COIN_ID_COST :: u64 where
  "COIN_ID_COST = SHA256_BASE_COST + SHA256_COST_PER_ARG * 3 + SHA256_COST_PER_BYTE * (32 + 32 + 8) - 153"

definition NO_NEG_DIV :: u32 where "NO_NEG_DIV = 0x0001"
definition NO_UNKNOWN_OPS :: u32 where "NO_UNKNOWN_OPS = 0x00000002"
definition NEW_COST_MODEL :: u32 where "NEW_COST_MODEL = 0x00002000"
definition DISABLE_OP :: u32 where "DISABLE_OP = 0x00000200"
definition LIMITS :: u32 where "LIMITS = 0x00000040"
definition CANONICAL_INTS :: u32 where "CANONICAL_INTS = 0x04000000"
definition RELAXED_BLS :: u32 where "RELAXED_BLS = 0x00004000"

definition flag_set :: "u32 \<Rightarrow> u32 \<Rightarrow> bool" where
  "flag_set flags f \<longleftrightarrow> flags AND f \<noteq> 0"

section \<open>Core operators\<close>

definition op_if :: "'n view \<Rightarrow> 'n \<Rightarrow> 'n op_result" where
  "op_if v args =
     bind_res (check_arg_count v args 3 ''i'') (\<lambda>_.
     bind_res (split_node v args) (\<lambda>(cnd, chosen).
     bind_res (if v_nullp v cnd then bind_res (split_node v chosen) (\<lambda>(_, r). Inr r) else Inr chosen) (\<lambda>chosen_node.
     bind_res (split_node v chosen_node) (\<lambda>(res, _). Inr (IF_COST, Same res)))))"

definition op_cons :: "'n view \<Rightarrow> 'n \<Rightarrow> 'n op_result" where
  "op_cons v args =
     bind_res (check_arg_count v args 2 ''c'') (\<lambda>_.
     bind_res (split_node v args) (\<lambda>(first, rest).
     bind_res (split_node v rest) (\<lambda>(second, _). Inr (CONS_COST, OutPair first second))))"

definition op_first :: "'n view \<Rightarrow> 'n \<Rightarrow> 'n op_result" where
  "op_first v args =
     bind_res (check_arg_count v args 1 ''f'') (\<lambda>_.
     bind_res (split_node v args) (\<lambda>(inner, _).
     bind_res (split_node v inner) (\<lambda>(first, _). Inr (FIRST_COST, Same first))))"

definition op_rest :: "'n view \<Rightarrow> 'n \<Rightarrow> 'n op_result" where
  "op_rest v args =
     bind_res (check_arg_count v args 1 ''r'') (\<lambda>_.
     bind_res (split_node v args) (\<lambda>(inner, _).
     bind_res (split_node v inner) (\<lambda>(_, rest). Inr (REST_COST, Same rest))))"

definition op_listp :: "'n view \<Rightarrow> 'n \<Rightarrow> 'n op_result" where
  "op_listp v args =
     bind_res (check_arg_count v args 1 ''l'') (\<lambda>_.
     bind_res (split_node v args) (\<lambda>(inner, _).
     Inr (LISTP_COST, Same (case v_next v inner of Some _ \<Rightarrow> v_one v | None \<Rightarrow> v_nil v))))"

definition op_raise :: "'n view \<Rightarrow> 'n \<Rightarrow> 'n op_result" where
  "op_raise v args = (case v_next v args of
     None \<Rightarrow> Inl Raise
   | Some (first, rest) \<Rightarrow>
       if v_nullp v rest then (case v_atom v first of None \<Rightarrow> Inl ExpectedAtomGotPair | Some _ \<Rightarrow> Inl Raise)
       else Inl Raise)"

definition op_eq :: "'n view \<Rightarrow> 'n \<Rightarrow> 'n op_result" where
  "op_eq v args =
     bind_res (check_arg_count v args 2 ''='') (\<lambda>_.
     bind_res (split_node v args) (\<lambda>(a0, rest).
     bind_res (split_node v rest) (\<lambda>(a1, _).
     bind_res (atom_arg v a0) (\<lambda>s0.
     bind_res (atom_arg v a1) (\<lambda>s1.
     Inr (EQ_BASE_COST + (len64 (length s0) + len64 (length s1)) * EQ_COST_PER_BYTE,
          Same (if s0 = s1 then v_one v else v_nil v)))))))"

section \<open>Numbers and their cost\<close>

definition limbs_for_int :: "int \<Rightarrow> u64" where
  "limbs_for_int n = of_nat ((bit_len (nat \<bar>n\<bar>) + 7) div 8)"

definition limbs_for_num :: "sexp_number \<Rightarrow> u64" where
  "limbs_for_num n = (case n of
     BigInt b \<Rightarrow> of_nat ((bit_len (nat \<bar>b\<bar>) + 7) div 8)
   | I128 i \<Rightarrow> of_nat ((bit_len (nat \<bar>sint i\<bar>) + 7) div 8))"

definition malloc_number :: "u64 \<Rightarrow> sexp_number \<Rightarrow> 'n op_result" where
  "malloc_number cost n = Inr (cost, OutNumber n)"

definition malloc_bigint :: "u64 \<Rightarrow> int \<Rightarrow> 'n op_result" where
  "malloc_bigint cost n = Inr (cost, OutNumber (BigInt n))"

section \<open>Unknown operators\<close>

definition unknown_arith :: "'n view \<Rightarrow> 'n \<Rightarrow> u64 \<Rightarrow> (vm_error + u64) option" where
  "unknown_arith v args max_cost =
     bind_opt (cursor_loop v (\<lambda>(cost, byte_count) arg.
         let cost = cost + ARITH_COST_PER_ARG in
         bind_res (int_atom v arg) (\<lambda>blob.
         let byte_count = byte_count + len64 (length blob) in
         bind_res (check_cost (cost + byte_count * ARITH_COST_PER_BYTE) max_cost) (\<lambda>_.
         Inr (cost, byte_count)))) (cursor_new args) (ARITH_BASE_COST, 0))
       (\<lambda>(cost, byte_count). Some (Inr (cost + byte_count * ARITH_COST_PER_BYTE)))"

text \<open>The three additions that price one multiplication.\<close>

definition mul_step_cost :: "u64 \<Rightarrow> u64 \<Rightarrow> u64 \<Rightarrow> u64" where
  "mul_step_cost cost l0 l1 =
     cost + MUL_COST_PER_OP + (l0 + l1) * MUL_LINEAR_COST_PER_BYTE + (l0 * l1) div MUL_SQUARE_COST_PER_BYTE_DIVIDER"

definition unknown_mul :: "'n view \<Rightarrow> 'n \<Rightarrow> u64 \<Rightarrow> (vm_error + u64) option" where
  "unknown_mul v args max_cost =
     bind_opt (cursor_loop v (\<lambda>(cost, first_iter, l0) arg.
         bind_res (int_atom v arg) (\<lambda>blob.
         if first_iter then Inr (cost, False, len64 (length blob))
         else
           let l1 = len64 (length blob); cost = mul_step_cost cost l0 l1
           in bind_res (check_cost cost max_cost) (\<lambda>_. Inr (cost, False, l0 + l1))))
         (cursor_new args) (MUL_BASE_COST, True, 0))
       (\<lambda>(cost, _, _). Some (Inr cost))"

definition unknown_concat :: "'n view \<Rightarrow> 'n \<Rightarrow> u64 \<Rightarrow> (vm_error + u64) option" where
  "unknown_concat v args max_cost =
     bind_opt (cursor_loop v (\<lambda>(cost, total_size) arg.
         let cost = cost + CONCAT_COST_PER_ARG in
         bind_res (atom_arg v arg) (\<lambda>blob.
         let total_size = total_size + len64 (length blob) in
         bind_res (check_cost (cost + total_size * CONCAT_COST_PER_BYTE) max_cost) (\<lambda>_.
         Inr (cost, total_size)))) (cursor_new args) (CONCAT_BASE_COST, 0))
       (\<lambda>(cost, total_size). Some (Inr (cost + total_size * CONCAT_COST_PER_BYTE)))"

definition op_unknown :: "'n view \<Rightarrow> 'n \<Rightarrow> 'n \<Rightarrow> u64 \<Rightarrow> 'n op_result option" where
  "op_unknown v opn args max_cost = (case v_atom v opn of
     None \<Rightarrow> Some (Inl ExpectedAtomGotPair)
   | Some opb \<Rightarrow>
       if opb = [] \<or> (length opb \<ge> 2 \<and> opb ! 0 = 0xff \<and> opb ! 1 = 0xff) then Some (Inl ReservedOperator)
       else
         let cost_function = drop_bit 6 (last opb AND 0xC0) in
         (case u32_from_slice (butlast opb) of
            None \<Rightarrow> Some (Inl InvalidOperator)
          | Some m \<Rightarrow>
              let cost_multiplier = ucast m in
              bind_opt (if cost_function = 1 then unknown_arith v args max_cost
                        else if cost_function = 2 then unknown_mul v args max_cost
                        else if cost_function = 3 then unknown_concat v args max_cost
                        else Some (Inr 1)) (\<lambda>cost.
              bind_opt (Some (check_cost cost max_cost)) (\<lambda>_.
              let cost = cost * (cost_multiplier + 1) in
              if cost > 0xffffffff then Some (Inl Unsupported) else Some (Inr (cost, Same (v_nil v)))))))"

section \<open>Hashing\<close>

text \<open>SHA-256 is a parameter, applied to the concatenation of what the hasher was fed.\<close>

definition op_sha256 :: "hash_fn \<Rightarrow> 'n view \<Rightarrow> 'n \<Rightarrow> u64 \<Rightarrow> 'n op_result option" where
  "op_sha256 sha v args max_cost =
     bind_opt (cursor_loop v (\<lambda>(cost, byte_count, fed) arg.
         let cost = cost + SHA256_COST_PER_ARG in
         bind_res (check_cost (cost + byte_count * SHA256_COST_PER_BYTE) max_cost) (\<lambda>_.
         bind_res (atom_arg v arg) (\<lambda>blob.
         Inr (cost, byte_count + len64 (length blob), fed @ blob))))
         (cursor_new args) (SHA256_BASE_COST, 0, []))
       (\<lambda>(cost, byte_count, fed). Some (new_atom_and_cost (cost + byte_count * SHA256_COST_PER_BYTE) (sha fed)))"

text \<open>\<^verbatim>\<open>Coin::coin_id\<close>, with the fields of the coin as arguments.\<close>

definition coin_amount_bytes :: "u64 \<Rightarrow> bytes" where
  "coin_amount_bytes amount =
     (let amount_bytes = be_bytes 8 (unat amount) in
      if amount \<ge> 0x8000000000000000 then 0 # amount_bytes
      else let start = (if amount = 0 then 8 else (64 - bit_len (unat amount) + 7) div 8 - 1)
           in drop start amount_bytes)"

definition coin_id :: "hash_fn \<Rightarrow> bytes \<Rightarrow> bytes \<Rightarrow> u64 \<Rightarrow> bytes" where
  "coin_id sha parent_coin_info puzzle_hash amount =
     sha (parent_coin_info @ puzzle_hash @ coin_amount_bytes amount)"

definition op_coinid :: "hash_fn \<Rightarrow> 'n view \<Rightarrow> 'n \<Rightarrow> 'n op_result option" where
  "op_coinid sha v args = map_option (\<lambda>args_list. case args_list of
     [parent_coin_info, puzzle_hash, amount] \<Rightarrow>
       if length parent_coin_info \<noteq> 32 then Inl InvalidInput
       else if length puzzle_hash \<noteq> 32 then Inl InvalidInput
       else bind_res
         (if amount \<noteq> [] then
            let as_int = number_from_slice amount in
            if as_int < 0 then Inl InvalidInput
            else if length amount > 9 \<or> (length amount = 9 \<and> amount ! 0 \<noteq> 0) then Inl InvalidInput
            else Inr as_int
          else Inr 0) (\<lambda>as_int.
         bind_res (ok_or (u64_from_bigint as_int) (VmIo InvalidData)) (\<lambda>amount.
         new_atom_and_cost COIN_ID_COST (coin_id sha parent_coin_info puzzle_hash amount)))
   | _ \<Rightarrow> Inl InvalidArgCount) (as_atom_list v args)"

section \<open>Arithmetic\<close>

definition op_add :: "'n view \<Rightarrow> 'n \<Rightarrow> u64 \<Rightarrow> 'n op_result option" where
  "op_add v args max_cost =
     bind_opt (cursor_loop v (\<lambda>(cost, byte_count, acc) blob.
         let cost = cost + ARITH_COST_PER_ARG in
         bind_res (check_cost (cost + byte_count * ARITH_COST_PER_BYTE) max_cost) (\<lambda>_.
         bind_res (number_with_len v blob) (\<lambda>(n, len).
         Inr (cost, byte_count + len64 len, num_add acc n))))
         (cursor_new args) (ARITH_BASE_COST, 0, I128 0))
       (\<lambda>(cost, byte_count, acc). Some (malloc_number (cost + byte_count * ARITH_COST_PER_BYTE) acc))"

definition op_subtract :: "'n view \<Rightarrow> 'n \<Rightarrow> u64 \<Rightarrow> 'n op_result option" where
  "op_subtract v args max_cost =
     bind_opt (cursor_loop v (\<lambda>(cost, byte_count, first, acc) blob.
         let cost = cost + ARITH_COST_PER_ARG in
         bind_res (check_cost (cost + byte_count * ARITH_COST_PER_BYTE) max_cost) (\<lambda>_.
         bind_res (number_with_len v blob) (\<lambda>(n, len).
         Inr (cost, byte_count + len64 len, False, if first then n else num_sub acc n))))
         (cursor_new args) (ARITH_BASE_COST, 0, True, I128 0))
       (\<lambda>(cost, byte_count, _, acc). Some (malloc_number (cost + byte_count * ARITH_COST_PER_BYTE) acc))"

definition op_multiply :: "'n view \<Rightarrow> 'n \<Rightarrow> u64 \<Rightarrow> 'n op_result option" where
  "op_multiply v args max_cost =
     bind_opt (cursor_loop v (\<lambda>(cost, first, acc, l0) blob.
         bind_res (check_cost cost max_cost) (\<lambda>_.
         bind_res (number_with_len v blob) (\<lambda>(n, len).
         if first then Inr (cost, False, n, len64 len)
         else
           let acc = num_mul acc n
           in Inr (mul_step_cost cost l0 (len64 len), False, acc, limbs_for_num acc))))
         (cursor_new args) (MUL_BASE_COST, True, I128 1, 0))
       (\<lambda>(cost, _, acc, _). Some (malloc_number cost acc))"

definition op_div_impl :: "'n view \<Rightarrow> 'n \<Rightarrow> bool \<Rightarrow> 'n op_result" where
  "op_div_impl v args mempool =
     bind_res (two_ints v args ''/'') (\<lambda>((a0, l0), (a1, l1)).
     let cost = DIV_BASE_COST + len64 (l0 + l1) * DIV_COST_PER_BYTE in
     if num_sign a1 = NoSign then Inl Unsupported
     else if mempool \<and> (num_sign a0 = Minus \<or> num_sign a1 = Minus) then Inl Unsupported
     else bind_res (ok_or (div_mod_floor a0 a1) Panicked) (\<lambda>(q, r).
       let q = (if num_eq q (I128 (- 1)) \<and> \<not> num_is_zero r then num_add q (I128 1) else q)
       in malloc_number cost q))"

definition op_div :: "'n view \<Rightarrow> 'n \<Rightarrow> 'n op_result" where
  "op_div v args = op_div_impl v args False"

definition op_div_deprecated :: "'n view \<Rightarrow> 'n \<Rightarrow> 'n op_result" where
  "op_div_deprecated v args = op_div_impl v args True"

definition checked_mul64 :: "u64 \<Rightarrow> u64 \<Rightarrow> u64 option" where
  "checked_mul64 a b = (if unat a * unat b < 2 ^ 64 then Some (a * b) else None)"

definition checked_add64 :: "u64 \<Rightarrow> u64 \<Rightarrow> u64 option" where
  "checked_add64 a b = (if unat a + unat b < 2 ^ 64 then Some (a + b) else None)"

definition compute_new_div_cost :: "nat \<Rightarrow> nat \<Rightarrow> vm_error + u64" where
  "compute_new_div_cost l0 l1 =
     (let cost = NEW_DIV_BASE_COST + (len64 l0 + len64 l1) * NEW_DIV_LINEAR_COST_PER_BYTE in
      bind_res (ok_or (checked_mul64 (len64 l0) (len64 l1)) Overflow) (\<lambda>square.
      Inr (cost + square div NEW_DIV_SQUARE_COST_PER_BYTE_DIVIDER)))"

definition compute_modpow_cost :: "nat \<Rightarrow> nat \<Rightarrow> nat \<Rightarrow> bool \<Rightarrow> vm_error + u64" where
  "compute_modpow_cost bsize esize msize new_cost_model =
     (if new_cost_model then
        let m = len64 msize in
        bind_res (ok_or (Option.bind (checked_mul64 m m)
          (\<lambda>mm. checked_add64 mm NEW_MODPOW_PER_ITERATION_COST)) Overflow) (\<lambda>inner.
        bind_res (ok_or (Option.bind (checked_mul64 (len64 esize) NEW_MODPOW_EXPONENT_MULTIPLIER)
          (\<lambda>e. checked_mul64 e inner)) Overflow) (\<lambda>exp_term.
        ok_or (Option.bind (checked_add64 MODPOW_BASE_COST exp_term)
          (\<lambda>c. Option.bind (checked_mul64 (len64 bsize) m) (checked_add64 c))) Overflow))
      else
        Inr (MODPOW_BASE_COST + len64 bsize * MODPOW_COST_PER_BYTE_BASE_VALUE +
             (len64 esize * len64 esize) * MODPOW_COST_PER_BYTE_EXPONENT +
             (len64 msize * len64 msize) * MODPOW_COST_PER_BYTE_MOD))"

definition op_mod :: "'n view \<Rightarrow> 'n \<Rightarrow> u32 \<Rightarrow> 'n op_result" where
  "op_mod v args flags =
     (let new_cost_model = flag_set flags NEW_COST_MODEL in
      bind_res (two_ints v args ''mod'') (\<lambda>((a0, l0), (a1, l1)).
      if flag_set flags DISABLE_OP \<and> \<not> new_cost_model \<and> l0 > 2048 then Inl Unsupported
      else if flag_set flags LIMITS \<and> \<not> new_cost_model \<and> (l0 > 256 \<or> l1 > 1024) then Inl Unsupported
      else bind_res (if new_cost_model then compute_new_div_cost l0 l1
                     else Inr (DIV_BASE_COST + len64 (l0 + l1) * DIV_COST_PER_BYTE)) (\<lambda>cost.
      if num_sign a1 = NoSign then Inl Unsupported
      else bind_res (ok_or (div_mod_floor a0 a1) Panicked) (\<lambda>(_, r). malloc_number cost r))))"

text \<open>\<^verbatim>\<open>BigInt::modpow\<close> rounds like \<^verbatim>\<open>mod_floor\<close>.\<close>

definition op_modpow :: "'n view \<Rightarrow> 'n \<Rightarrow> u64 \<Rightarrow> u32 \<Rightarrow> 'n op_result" where
  "op_modpow v args max_cost flags =
     (let new_cost_model = flag_set flags NEW_COST_MODEL in
      bind_res (check_arg_count v args 3 ''modpow'') (\<lambda>_.
      bind_res (split_node v args) (\<lambda>(first, rest).
      bind_res (number_with_len v first) (\<lambda>(bs, bsize).
      bind_res (split_node v rest) (\<lambda>(second, rest).
      bind_res (number_with_len v second) (\<lambda>(ex, esize).
      bind_res (split_node v rest) (\<lambda>(third, _).
      bind_res (number_with_len v third) (\<lambda>(md, msize).
      bind_res (compute_modpow_cost bsize esize msize new_cost_model) (\<lambda>cost.
      bind_res (check_cost cost max_cost) (\<lambda>_.
      if flag_set flags LIMITS \<and> \<not> new_cost_model \<and> (bsize > 256 \<or> esize > 256 \<or> msize > 256) then Inl Unsupported
      else if num_sign ex = Minus then Inl Unsupported
      else if num_sign md = NoSign then Inl Unsupported
      else malloc_bigint cost (num_val bs ^ nat (num_val ex) mod num_val md)))))))))))"

definition op_divmod :: "'n view \<Rightarrow> 'n \<Rightarrow> 'n op_result" where
  "op_divmod v args =
     bind_res (two_ints v args ''/'') (\<lambda>((a0, l0), (a1, l1)).
     let cost = DIV_MOD_BASE_COST + len64 (l0 + l1) * DIV_MOD_COST_PER_BYTE in
     if num_sign a1 = NoSign then Inl Unsupported
     else bind_res (ok_or (div_mod_floor a0 a1) Panicked) (\<lambda>(q, r). Inr (cost, NumberPair q r)))"

definition op_gr :: "'n view \<Rightarrow> 'n \<Rightarrow> 'n op_result" where
  "op_gr v args =
     bind_res (check_arg_count v args 2 ''>'') (\<lambda>_.
     bind_res (split_node v args) (\<lambda>(a0, rest).
     bind_res (split_node v rest) (\<lambda>(a1, _).
     bind_res (int_atom v a0) (\<lambda>v0.
     bind_res (int_atom v a1) (\<lambda>v1.
     Inr (GR_BASE_COST + len64 (length v0 + length v1) * GR_COST_PER_BYTE,
          Same (if number_from_slice v0 > number_from_slice v1 then v_one v else v_nil v)))))))"

text \<open>The order of byte slices is lexicographic.\<close>

fun bytes_less :: "bytes \<Rightarrow> bytes \<Rightarrow> bool" where
  "bytes_less xs [] = False"
| "bytes_less [] (y # ys) = True"
| "bytes_less (x # xs) (y # ys) = (x < y \<or> x = y \<and> bytes_less xs ys)"

definition op_gr_bytes :: "'n view \<Rightarrow> 'n \<Rightarrow> 'n op_result" where
  "op_gr_bytes v args =
     bind_res (check_arg_count v args 2 ''>s'') (\<lambda>_.
     bind_res (split_node v args) (\<lambda>(a0, rest).
     bind_res (split_node v rest) (\<lambda>(a1, _).
     bind_res (atom_arg v a0) (\<lambda>v0.
     bind_res (atom_arg v a1) (\<lambda>v1.
     Inr (GRS_BASE_COST + len64 (length v0 + length v1) * GRS_COST_PER_BYTE,
          Same (if bytes_less v1 v0 then v_one v else v_nil v)))))))"

section \<open>Strings and bits\<close>

definition op_strlen :: "'n view \<Rightarrow> 'n \<Rightarrow> 'n op_result" where
  "op_strlen v args =
     bind_res (check_arg_count v args 1 ''strlen'') (\<lambda>_.
     bind_res (split_node v args) (\<lambda>(a0, _).
     bind_res (atom_arg v a0) (\<lambda>b.
     malloc_number (STRLEN_BASE_COST + len64 (length b) * STRLEN_COST_PER_BYTE) (I128 (of_nat (length b))))))"

text \<open>\<^verbatim>\<open>size as i32\<close> keeps the low 32 bits, read signed.\<close>

definition op_substr :: "'n view \<Rightarrow> 'n \<Rightarrow> 'n op_result" where
  "op_substr v args =
     (let ac = arg_count v args 3 in
      if \<not> (2 \<le> ac \<and> ac \<le> 3) then Inl Unsupported
      else
        bind_res (split_node v args) (\<lambda>(a0, rest).
        bind_res (atom_arg v a0) (\<lambda>b.
        bind_res (split_node v rest) (\<lambda>(i1_node, rest).
        bind_res (i32_atom v i1_node) (\<lambda>i1.
        bind_res (if ac = 3 then bind_res (split_node v rest) (\<lambda>(i2_node, _). i32_atom v i2_node)
                  else Inr (sint (of_nat (length b) :: u32))) (\<lambda>i2.
        if i2 < 0 \<or> i1 < 0 \<or> nat i2 > length b \<or> i2 < i1 then Inl Unsupported
        else Inr (1, Substr a0 (word_of_int i1) (word_of_int i2))))))))"

definition op_concat :: "'n view \<Rightarrow> 'n \<Rightarrow> u64 \<Rightarrow> 'n op_result option" where
  "op_concat v args max_cost =
     bind_opt (cursor_loop v (\<lambda>(cost, total_size, terms) arg.
         let cost = cost + CONCAT_COST_PER_ARG in
         bind_res (check_cost (cost + len64 total_size * CONCAT_COST_PER_BYTE) max_cost) (\<lambda>_.
         case v_len v arg of
           None \<Rightarrow> Inl Unsupported
         | Some len \<Rightarrow> Inr (cost, total_size + len, terms @ [arg])))
         (cursor_new args) (CONCAT_BASE_COST, 0, []))
       (\<lambda>(cost, total_size, terms).
         let cost = cost + len64 total_size * CONCAT_COST_PER_BYTE + len64 total_size * MALLOC_COST_PER_BYTE in
         bind_opt (Some (check_cost cost max_cost)) (\<lambda>_. Some (Inr (cost, Concat terms total_size))))"

definition shift_int :: "int \<Rightarrow> int \<Rightarrow> int" where
  "shift_int i a = (if a > 0 then push_bit (nat a) i else drop_bit (nat (- a)) i)"

definition op_ash :: "'n view \<Rightarrow> 'n \<Rightarrow> 'n op_result" where
  "op_ash v args =
     bind_res (check_arg_count v args 2 ''ash'') (\<lambda>_.
     bind_res (split_node v args) (\<lambda>(a0, rest).
     bind_res (int_atom v a0) (\<lambda>b0.
     bind_res (split_node v rest) (\<lambda>(a1_node, _).
     bind_res (i32_atom v a1_node) (\<lambda>a1.
     if \<not> (- 65535 \<le> a1 \<and> a1 \<le> 65535) then Inl Unsupported
     else
       let r = shift_int (number_from_slice b0) a1 in
       malloc_bigint (A_SHIFT_BASE_COST + (len64 (length b0) + limbs_for_int r) * A_SHIFT_COST_PER_BYTE) r)))))"

definition op_lsh :: "'n view \<Rightarrow> 'n \<Rightarrow> 'n op_result" where
  "op_lsh v args =
     bind_res (check_arg_count v args 2 ''lsh'') (\<lambda>_.
     bind_res (split_node v args) (\<lambda>(a0, rest).
     bind_res (int_atom v a0) (\<lambda>b0.
     bind_res (split_node v rest) (\<lambda>(a1_node, _).
     bind_res (i32_atom v a1_node) (\<lambda>a1.
     if \<not> (- 65535 \<le> a1 \<and> a1 \<le> 65535) then Inl Unsupported
     else
       let r = shift_int (int (be_nat b0)) a1 in
       malloc_bigint (LSHIFT_BASE_COST + (len64 (length b0) + limbs_for_int r) * LSHIFT_COST_PER_BYTE) r)))))"

definition binop_reduction ::
    "int \<Rightarrow> (int \<Rightarrow> int \<Rightarrow> int) \<Rightarrow> 'n view \<Rightarrow> 'n \<Rightarrow> u64 \<Rightarrow> 'n op_result option" where
  "binop_reduction initial_value op_f v input max_cost =
     bind_opt (cursor_loop v (\<lambda>(acc, arg_size, cost) arg.
         bind_res (int_atom v arg) (\<lambda>blob.
         let acc = op_f acc (number_from_slice blob);
             arg_size = arg_size + len64 (length blob);
             cost = cost + LOG_COST_PER_ARG in
         bind_res (check_cost (cost + arg_size * LOG_COST_PER_BYTE) max_cost) (\<lambda>_. Inr (acc, arg_size, cost))))
         (cursor_new input) (initial_value, 0, LOG_BASE_COST))
       (\<lambda>(acc, arg_size, cost). Some (malloc_bigint (cost + arg_size * LOG_COST_PER_BYTE) acc))"

definition op_logand :: "'n view \<Rightarrow> 'n \<Rightarrow> u64 \<Rightarrow> 'n op_result option" where
  "op_logand v args max_cost = binop_reduction (- 1) (\<lambda>a b. a AND b) v args max_cost"

definition op_logior :: "'n view \<Rightarrow> 'n \<Rightarrow> u64 \<Rightarrow> 'n op_result option" where
  "op_logior v args max_cost = binop_reduction 0 (\<lambda>a b. a OR b) v args max_cost"

definition op_logxor :: "'n view \<Rightarrow> 'n \<Rightarrow> u64 \<Rightarrow> 'n op_result option" where
  "op_logxor v args max_cost = binop_reduction 0 (\<lambda>a b. a XOR b) v args max_cost"

definition op_lognot :: "'n view \<Rightarrow> 'n \<Rightarrow> 'n op_result" where
  "op_lognot v args =
     bind_res (check_arg_count v args 1 ''lognot'') (\<lambda>_.
     bind_res (split_node v args) (\<lambda>(a0, _).
     bind_res (int_atom v a0) (\<lambda>v0.
     malloc_bigint (LOG_NOT_BASE_COST + len64 (length v0) * LOG_NOT_COST_PER_BYTE) (NOT (number_from_slice v0)))))"

section \<open>Booleans and the soft-fork guard\<close>

definition op_not :: "'n view \<Rightarrow> 'n \<Rightarrow> 'n op_result" where
  "op_not v args =
     bind_res (check_arg_count v args 1 ''not'') (\<lambda>_.
     bind_res (split_node v args) (\<lambda>(a0, _).
     Inr (BOOL_BASE_COST, Same (if \<not> v_nullp v a0 then v_nil v else v_one v))))"

definition op_any :: "'n view \<Rightarrow> 'n \<Rightarrow> u64 \<Rightarrow> 'n op_result option" where
  "op_any v args max_cost =
     bind_opt (cursor_loop v (\<lambda>(cost, is_any) arg.
         let cost = cost + BOOL_COST_PER_ARG in
         bind_res (check_cost cost max_cost) (\<lambda>_. Inr (cost, is_any \<or> \<not> v_nullp v arg)))
         (cursor_new args) (BOOL_BASE_COST, False))
       (\<lambda>(cost, is_any). Some (Inr (cost, Same (if is_any then v_one v else v_nil v))))"

text \<open>The bytes of \<^verbatim>\<open>$print$\<close>.\<close>

definition print_kw :: bytes where
  "print_kw = [0x24, 0x70, 0x72, 0x69, 0x6e, 0x74, 0x24]"

text \<open>The print case collects the other arguments only for a log line.\<close>

definition op_all :: "'n view \<Rightarrow> 'n \<Rightarrow> u64 \<Rightarrow> 'n op_result option" where
  "op_all v args max_cost = (case v_next v args of
     Some (first, _) \<Rightarrow>
       if v_atom v first = Some print_kw
       then Some (Inr (BOOL_BASE_COST + BOOL_COST_PER_ARG * 3, Same (v_one v)))
       else bind_opt (cursor_loop v (\<lambda>(cost, is_all) arg.
           let cost = cost + BOOL_COST_PER_ARG in
           bind_res (check_cost cost max_cost) (\<lambda>_. Inr (cost, is_all \<and> \<not> v_nullp v arg)))
           (cursor_new args) (BOOL_BASE_COST, True))
         (\<lambda>(cost, is_all). Some (Inr (cost, Same (if is_all then v_one v else v_nil v))))
   | None \<Rightarrow> Some (Inr (BOOL_BASE_COST, Same (v_one v))))"

definition op_softfork :: "'n view \<Rightarrow> 'n \<Rightarrow> u64 \<Rightarrow> u32 \<Rightarrow> 'n op_result" where
  "op_softfork v args max_cost flags = (case v_next v args of
     Some (first, _) \<Rightarrow>
       bind_res (int_atom v first) (\<lambda>buf.
       if flag_set flags CANONICAL_INTS \<and> buf \<noteq> [] \<and> buf ! 0 = 0 \<and> (length buf < 2 \<or> buf ! 1 AND 0x80 = 0)
       then Inl Unsupported
       else
         let n = number_from_slice buf in
         if bigint_sign n = Plus then
           if n > uint max_cost then Inl Unsupported
           else if n < 2 ^ 64 then Inr (word_of_int n, Same (v_nil v)) else Inl Unsupported
         else Inl Unsupported)
   | None \<Rightarrow> Inl Unsupported)"

end
