(* ===== verification/ClvmBls.thy ===== *)
theory ClvmBls
  imports ClvmOps
begin

text \<open>
  The operators on BLS12-381 points, \<^verbatim>\<open>src/core/src/clvm/bls_ops.rs\<close>, over a record of the functions of the blst
  crate they call, and the dispatch of the dialect (\<^verbatim>\<open>dialect.rs\<close>) from an operator atom to its function.
\<close>

section \<open>The pairing library\<close>

text \<open>
  What the operators call of the \<^verbatim>\<open>blst\<close> crate, as parameters: affine and projective points of the first group,
  points of the second, and the pairing checks. A scalar is given by its big-endian bytes.
\<close>

record ('a1, 'p1, 'p2) blst =
  p1_uncompress :: "bytes \<Rightarrow> 'a1 option"
  p1_affine_in_g1 :: "'a1 \<Rightarrow> bool"
  p1_affine_inf :: 'a1
  p1_inf :: 'p1
  p1_from_affine :: "'a1 \<Rightarrow> 'p1"
  p1_add_affine :: "'p1 \<Rightarrow> 'a1 \<Rightarrow> 'p1"
  p1_add :: "'p1 \<Rightarrow> 'p1 \<Rightarrow> 'p1"
  p1_cneg :: "'p1 \<Rightarrow> 'p1"
  p1_mult :: "'p1 \<Rightarrow> bytes \<Rightarrow> 'p1"
  p1_generator :: 'p1
  p1_compress :: "'p1 \<Rightarrow> bytes"
  p1_hash :: "bytes \<Rightarrow> bytes \<Rightarrow> 'p1"
  p2_uncompress :: "bytes \<Rightarrow> 'p2 option"
  p2_inf :: 'p2
  p2_is_inf :: "'p2 \<Rightarrow> bool"
  p2_in_g2 :: "'p2 \<Rightarrow> bool"
  p2_add :: "'p2 \<Rightarrow> 'p2 \<Rightarrow> 'p2"
  p2_cneg :: "'p2 \<Rightarrow> 'p2"
  p2_mult :: "'p2 \<Rightarrow> bytes \<Rightarrow> 'p2"
  p2_compress :: "'p2 \<Rightarrow> bytes"
  p2_hash :: "bytes \<Rightarrow> bytes \<Rightarrow> 'p2"
  pairing_is_one :: "('p1 \<times> 'p2) list \<Rightarrow> bool"
  pk_aggregates :: "'p1 \<Rightarrow> bytes \<Rightarrow> bool"
  pairing_equals :: "'p2 \<Rightarrow> ('p1 \<times> bytes) list \<Rightarrow> bool"

section \<open>Costs\<close>

definition BLS_G1_SUBTRACT_BASE_COST :: u64 where "BLS_G1_SUBTRACT_BASE_COST = 101094"
definition BLS_G1_SUBTRACT_COST_PER_ARG :: u64 where "BLS_G1_SUBTRACT_COST_PER_ARG = 1343980"
definition BLS_G1_MULTIPLY_BASE_COST :: u64 where "BLS_G1_MULTIPLY_BASE_COST = 705500"
definition BLS_G1_MULTIPLY_COST_PER_BYTE :: u64 where "BLS_G1_MULTIPLY_COST_PER_BYTE = 10"
definition BLS_G1_NEGATE_BASE_COST :: u64 where "BLS_G1_NEGATE_BASE_COST = 1396 - 480"
definition BLS_G2_ADD_BASE_COST :: u64 where "BLS_G2_ADD_BASE_COST = 80000"
definition BLS_G2_ADD_COST_PER_ARG :: u64 where "BLS_G2_ADD_COST_PER_ARG = 1950000"
definition BLS_G2_SUBTRACT_BASE_COST :: u64 where "BLS_G2_SUBTRACT_BASE_COST = 80000"
definition BLS_G2_SUBTRACT_COST_PER_ARG :: u64 where "BLS_G2_SUBTRACT_COST_PER_ARG = 1950000"
definition BLS_G2_MULTIPLY_BASE_COST :: u64 where "BLS_G2_MULTIPLY_BASE_COST = 2100000"
definition BLS_G2_MULTIPLY_COST_PER_BYTE :: u64 where "BLS_G2_MULTIPLY_COST_PER_BYTE = 5"
definition BLS_G2_NEGATE_BASE_COST :: u64 where "BLS_G2_NEGATE_BASE_COST = 2164 - 960"
definition BLS_MAP_TO_G1_BASE_COST :: u64 where "BLS_MAP_TO_G1_BASE_COST = 195000"
definition BLS_MAP_TO_G1_COST_PER_BYTE :: u64 where "BLS_MAP_TO_G1_COST_PER_BYTE = 4"
definition BLS_MAP_TO_G1_COST_PER_DST_BYTE :: u64 where "BLS_MAP_TO_G1_COST_PER_DST_BYTE = 4"
definition BLS_MAP_TO_G2_BASE_COST :: u64 where "BLS_MAP_TO_G2_BASE_COST = 815000"
definition BLS_MAP_TO_G2_COST_PER_BYTE :: u64 where "BLS_MAP_TO_G2_COST_PER_BYTE = 4"
definition BLS_MAP_TO_G2_COST_PER_DST_BYTE :: u64 where "BLS_MAP_TO_G2_COST_PER_DST_BYTE = 4"
definition BLS_PAIRING_BASE_COST :: u64 where "BLS_PAIRING_BASE_COST = 3000000"
definition BLS_PAIRING_COST_PER_ARG :: u64 where "BLS_PAIRING_COST_PER_ARG = 1200000"

definition DST_G1 :: bytes where
  "DST_G1 = map (\<lambda>c. of_nat (of_char c)) ''BLS_SIG_BLS12381G1_XMD:SHA-256_SSWU_RO_AUG_''"

definition DST_G2 :: bytes where
  "DST_G2 = map (\<lambda>c. of_nat (of_char c)) ''BLS_SIG_BLS12381G2_XMD:SHA-256_SSWU_RO_AUG_''"

section \<open>Points\<close>

definition GROUP_ORDER :: int where
  "GROUP_ORDER = 0x73eda753299d7d483339d80809a1d80553bda402fffe5bfeffffffff00000001"

definition mod_group_order :: "int \<Rightarrow> int" where
  "mod_group_order n =
     (let remainder = n mod GROUP_ORDER in
      if bigint_sign remainder = Minus then remainder + GROUP_ORDER else remainder)"

definition scalar_bytes :: "int \<Rightarrow> bytes" where
  "scalar_bytes n = to_bytes_be (nat \<bar>n\<bar>)"

definition parse_g1_compressed :: "('a1, 'p1, 'p2) blst \<Rightarrow> bytes \<Rightarrow> 'a1 option" where
  "parse_g1_compressed bl bs =
     (let zeros_only = list_all (\<lambda>b. b = 0) (tl bs); b0 = hd bs in
      if b0 AND 0xc0 = 0xc0 then if b0 \<noteq> 0xc0 \<or> \<not> zeros_only then None else Some (p1_affine_inf bl)
      else if b0 AND 0xc0 \<noteq> 0x80 then None
      else if zeros_only \<and> b0 AND 0x3f = 0 then None
      else case p1_uncompress bl bs of
        None \<Rightarrow> None
      | Some affine \<Rightarrow> if p1_affine_in_g1 bl affine then Some affine else None)"

definition g2_is_valid :: "('a1, 'p1, 'p2) blst \<Rightarrow> 'p2 \<Rightarrow> bool" where
  "g2_is_valid bl p \<longleftrightarrow> p2_is_inf bl p \<or> p2_in_g2 bl p"

definition parse_g2_compressed :: "('a1, 'p1, 'p2) blst \<Rightarrow> bytes \<Rightarrow> 'p2 option" where
  "parse_g2_compressed bl bs = (case p2_uncompress bl bs of
     None \<Rightarrow> None | Some p2 \<Rightarrow> if g2_is_valid bl p2 then Some p2 else None)"

definition g1_sub_assign :: "('a1, 'p1, 'p2) blst \<Rightarrow> 'p1 \<Rightarrow> 'p1 \<Rightarrow> 'p1" where
  "g1_sub_assign bl acc p = p1_add bl acc (p1_cneg bl p)"

definition g2_sub_assign :: "('a1, 'p1, 'p2) blst \<Rightarrow> 'p2 \<Rightarrow> 'p2 \<Rightarrow> 'p2" where
  "g2_sub_assign bl acc p = p2_add bl acc (p2_cneg bl p)"

definition aggregate_pairing :: "('a1, 'p1, 'p2) blst \<Rightarrow> ('p1 \<times> 'p2) list \<Rightarrow> bool" where
  "aggregate_pairing bl items = (if items = [] then True else pairing_is_one bl items)"

text \<open>Each message is prefixed with its key; a key the library refuses ends the check.\<close>

definition aggregate_verify :: "('a1, 'p1, 'p2) blst \<Rightarrow> 'p2 \<Rightarrow> ('p1 \<times> bytes) list \<Rightarrow> bool" where
  "aggregate_verify bl sig items =
     (if items = [] then p2_is_inf bl sig
      else let augmented = map (\<lambda>(pk, msg). (pk, p1_compress bl pk @ msg)) items in
        if list_all (\<lambda>(pk, msg). pk_aggregates bl pk msg) augmented then pairing_equals bl sig augmented else False)"

section \<open>Arguments\<close>

definition g1_arg :: "('a1, 'p1, 'p2) blst \<Rightarrow> 'n view \<Rightarrow> 'n \<Rightarrow> vm_error + 'a1" where
  "g1_arg bl v node =
     bind_res (atom_arg v node) (\<lambda>blob.
     if length blob \<noteq> 48 then Inl InvalidInput else ok_or (parse_g1_compressed bl blob) InvalidInput)"

definition g2_arg :: "('a1, 'p1, 'p2) blst \<Rightarrow> 'n view \<Rightarrow> 'n \<Rightarrow> vm_error + 'p2" where
  "g2_arg bl v node =
     bind_res (atom_arg v node) (\<lambda>blob.
     if length blob \<noteq> 96 then Inl InvalidInput else ok_or (parse_g2_compressed bl blob) InvalidInput)"

fun get_args_loop :: "'n view \<Rightarrow> nat \<Rightarrow> string \<Rightarrow> nat \<Rightarrow> 'n \<Rightarrow> 'n list \<Rightarrow> vm_error + 'n list" where
  "get_args_loop v n op_name 0 rest out =
     (if v_nullp v rest then Inr out else Inl (InvalidOperandArgs op_name n))"
| "get_args_loop v n op_name (Suc k) rest out =
     bind_res (split_node v rest) (\<lambda>(first, r). get_args_loop v n op_name k r (out @ [first]))"

definition get_args :: "'n view \<Rightarrow> nat \<Rightarrow> 'n \<Rightarrow> string \<Rightarrow> vm_error + 'n list" where
  "get_args v n args op_name = get_args_loop v n op_name n args []"

text \<open>The filled part of the argument array; its length is the count.\<close>

definition get_varargs :: "'n view \<Rightarrow> nat \<Rightarrow> 'n \<Rightarrow> string \<Rightarrow> (vm_error + 'n list) option" where
  "get_varargs v n args op_name =
     pair_loop v (\<lambda>out first. if length out = n then Inl (InvalidOperandArgs op_name n) else Inr (out @ [first])) args []"

section \<open>Operators of the first group\<close>

definition op_pubkey_for_exp :: "('a1, 'p1, 'p2) blst \<Rightarrow> 'n view \<Rightarrow> 'n \<Rightarrow> u64 \<Rightarrow> 'n op_result" where
  "op_pubkey_for_exp bl v args max_cost =
     bind_res (check_arg_count v args 1 ''pubkey_for_exp'') (\<lambda>_.
     bind_res (split_node v args) (\<lambda>(a0, _).
     bind_res (int_atom v a0) (\<lambda>v0.
     let ex = mod_group_order (number_from_slice v0);
         cost = PUBKEY_BASE_COST + len64 (length v0) * PUBKEY_COST_PER_BYTE in
     bind_res (check_cost cost max_cost) (\<lambda>_.
     new_atom_and_cost cost (p1_compress bl (p1_mult bl (p1_generator bl) (scalar_bytes ex)))))))"

definition op_point_add :: "('a1, 'p1, 'p2) blst \<Rightarrow> 'n view \<Rightarrow> 'n \<Rightarrow> u64 \<Rightarrow> 'n op_result option" where
  "op_point_add bl v args max_cost =
     bind_opt (cursor_loop v (\<lambda>(cost, acc) arg.
         let cost = cost + POINT_ADD_COST_PER_ARG in
         bind_res (check_cost cost max_cost) (\<lambda>_.
         bind_res (atom_arg v arg) (\<lambda>blob.
         if length blob = 48 then
           (case parse_g1_compressed bl blob of
              Some point \<Rightarrow> Inr (cost, p1_add_affine bl acc point)
            | None \<Rightarrow> Inl InvalidInput)
         else Inl Unsupported)))
         (cursor_new args) (POINT_ADD_BASE_COST, p1_inf bl))
       (\<lambda>(cost, acc). Some (new_atom_and_cost cost (p1_compress bl acc)))"

definition op_bls_g1_subtract :: "('a1, 'p1, 'p2) blst \<Rightarrow> 'n view \<Rightarrow> 'n \<Rightarrow> u64 \<Rightarrow> 'n op_result option" where
  "op_bls_g1_subtract bl v args max_cost =
     bind_opt (Some (check_cost BLS_G1_SUBTRACT_BASE_COST max_cost)) (\<lambda>_.
     bind_opt (pair_loop v (\<lambda>(cost, is_first, acc) arg.
         bind_res (g1_arg bl v arg) (\<lambda>point.
         let cost = cost + BLS_G1_SUBTRACT_COST_PER_ARG in
         bind_res (check_cost cost max_cost) (\<lambda>_.
         Inr (cost, False, if is_first then p1_from_affine bl point
                           else g1_sub_assign bl acc (p1_from_affine bl point)))))
         args (BLS_G1_SUBTRACT_BASE_COST, True, p1_inf bl))
       (\<lambda>(cost, _, acc). Some (new_atom_and_cost cost (p1_compress bl acc))))"

definition op_bls_g1_multiply :: "('a1, 'p1, 'p2) blst \<Rightarrow> 'n view \<Rightarrow> 'n \<Rightarrow> u64 \<Rightarrow> u32 \<Rightarrow> 'n op_result" where
  "op_bls_g1_multiply bl v args max_cost flags =
     bind_res (get_args v 2 args ''g1_multiply'') (\<lambda>as. case as of
       [point, scalar] \<Rightarrow>
         bind_res (check_cost BLS_G1_MULTIPLY_BASE_COST max_cost) (\<lambda>_.
         bind_res (g1_arg bl v point) (\<lambda>g.
         bind_res (int_atom v scalar) (\<lambda>s.
         if flag_set flags LIMITS \<and> length s > 1024 then Inl InvalidInput
         else
           let cost = BLS_G1_MULTIPLY_BASE_COST + len64 (length s) * BLS_G1_MULTIPLY_COST_PER_BYTE in
           bind_res (check_cost cost max_cost) (\<lambda>_.
           new_atom_and_cost cost (p1_compress bl (p1_mult bl (p1_from_affine bl g)
             (scalar_bytes (mod_group_order (number_from_slice s)))))))))
     | _ \<Rightarrow> Inl Panicked)"

definition op_bls_g1_negate :: "('a1, 'p1, 'p2) blst \<Rightarrow> 'n view \<Rightarrow> 'n \<Rightarrow> u32 \<Rightarrow> 'n op_result" where
  "op_bls_g1_negate bl v args flags =
     (let strict = \<not> flag_set flags RELAXED_BLS in
      bind_res (get_args v 1 args ''g1_negate'') (\<lambda>as. case as of
        [point] \<Rightarrow>
          bind_res (atom_arg v point) (\<lambda>blob.
          if length blob \<noteq> 48 then Inl InvalidInput
          else if strict \<and> Option.is_none (parse_g1_compressed bl blob) then Inl InvalidInput
          else if blob ! 0 AND 0xe0 = 0xc0
          then Inr (BLS_G1_NEGATE_BASE_COST + 48 * MALLOC_COST_PER_BYTE, Same point)
          else new_atom_and_cost BLS_G1_NEGATE_BASE_COST (blob[0 := blob ! 0 XOR 0x20]))
      | _ \<Rightarrow> Inl Panicked))"

section \<open>Operators of the second group\<close>

definition op_bls_g2_add :: "('a1, 'p1, 'p2) blst \<Rightarrow> 'n view \<Rightarrow> 'n \<Rightarrow> u64 \<Rightarrow> 'n op_result option" where
  "op_bls_g2_add bl v args max_cost =
     bind_opt (Some (check_cost BLS_G2_ADD_BASE_COST max_cost)) (\<lambda>_.
     bind_opt (pair_loop v (\<lambda>(cost, acc) arg.
         bind_res (g2_arg bl v arg) (\<lambda>point.
         let cost = cost + BLS_G2_ADD_COST_PER_ARG in
         bind_res (check_cost cost max_cost) (\<lambda>_. Inr (cost, p2_add bl acc point))))
         args (BLS_G2_ADD_BASE_COST, p2_inf bl))
       (\<lambda>(cost, acc). Some (new_atom_and_cost cost (p2_compress bl acc))))"

definition op_bls_g2_subtract :: "('a1, 'p1, 'p2) blst \<Rightarrow> 'n view \<Rightarrow> 'n \<Rightarrow> u64 \<Rightarrow> 'n op_result option" where
  "op_bls_g2_subtract bl v args max_cost =
     bind_opt (Some (check_cost BLS_G2_SUBTRACT_BASE_COST max_cost)) (\<lambda>_.
     bind_opt (pair_loop v (\<lambda>(cost, is_first, acc) arg.
         bind_res (g2_arg bl v arg) (\<lambda>point.
         let cost = cost + BLS_G2_SUBTRACT_COST_PER_ARG in
         bind_res (check_cost cost max_cost) (\<lambda>_.
         Inr (cost, False, if is_first then point else g2_sub_assign bl acc point))))
         args (BLS_G2_SUBTRACT_BASE_COST, True, p2_inf bl))
       (\<lambda>(cost, _, acc). Some (new_atom_and_cost cost (p2_compress bl acc))))"

definition op_bls_g2_multiply :: "('a1, 'p1, 'p2) blst \<Rightarrow> 'n view \<Rightarrow> 'n \<Rightarrow> u64 \<Rightarrow> u32 \<Rightarrow> 'n op_result" where
  "op_bls_g2_multiply bl v args max_cost flags =
     bind_res (get_args v 2 args ''g2_multiply'') (\<lambda>as. case as of
       [point, scalar] \<Rightarrow>
         bind_res (check_cost BLS_G2_MULTIPLY_BASE_COST max_cost) (\<lambda>_.
         bind_res (g2_arg bl v point) (\<lambda>g.
         bind_res (int_atom v scalar) (\<lambda>s.
         if flag_set flags LIMITS \<and> length s > 1024 then Inl InvalidInput
         else
           let cost = BLS_G2_MULTIPLY_BASE_COST + len64 (length s) * BLS_G2_MULTIPLY_COST_PER_BYTE in
           bind_res (check_cost cost max_cost) (\<lambda>_.
           new_atom_and_cost cost (p2_compress bl (p2_mult bl g
             (scalar_bytes (mod_group_order (number_from_slice s)))))))))
     | _ \<Rightarrow> Inl Panicked)"

definition op_bls_g2_negate :: "('a1, 'p1, 'p2) blst \<Rightarrow> 'n view \<Rightarrow> 'n \<Rightarrow> u32 \<Rightarrow> 'n op_result" where
  "op_bls_g2_negate bl v args flags =
     (let strict = \<not> flag_set flags RELAXED_BLS in
      bind_res (get_args v 1 args ''g2_negate'') (\<lambda>as. case as of
        [point] \<Rightarrow>
          bind_res (atom_arg v point) (\<lambda>blob.
          if length blob \<noteq> 96 then Inl InvalidInput
          else if strict \<and> Option.is_none (parse_g2_compressed bl blob) then Inl InvalidInput
          else if blob ! 0 AND 0xe0 = 0xc0
          then Inr (BLS_G2_NEGATE_BASE_COST + 96 * MALLOC_COST_PER_BYTE, Same point)
          else new_atom_and_cost BLS_G2_NEGATE_BASE_COST (blob[0 := blob ! 0 XOR 0x20]))
      | _ \<Rightarrow> Inl Panicked))"

section \<open>Hashing to the curve\<close>

definition op_bls_map_to_g1 :: "('a1, 'p1, 'p2) blst \<Rightarrow> 'n view \<Rightarrow> 'n \<Rightarrow> u64 \<Rightarrow> 'n op_result option" where
  "op_bls_map_to_g1 bl v args max_cost =
     bind_opt (get_varargs v 2 args ''g1_map'') (\<lambda>as. Some (case as of
       [] \<Rightarrow> Inl InvalidArgCount
     | msg_node # others \<Rightarrow>
         bind_res (check_cost BLS_MAP_TO_G1_BASE_COST max_cost) (\<lambda>_.
         bind_res (atom_arg v msg_node) (\<lambda>msg.
         let cost = BLS_MAP_TO_G1_BASE_COST + len64 (length msg) * BLS_MAP_TO_G1_COST_PER_BYTE in
         bind_res (check_cost cost max_cost) (\<lambda>_.
         bind_res (case others of dst_node # _ \<Rightarrow> atom_arg v dst_node | [] \<Rightarrow> Inr DST_G1) (\<lambda>dst.
         let cost = cost + len64 (length dst) * BLS_MAP_TO_G1_COST_PER_DST_BYTE in
         bind_res (check_cost cost max_cost) (\<lambda>_.
         new_atom_and_cost cost (p1_compress bl (p1_hash bl msg dst)))))))))"

definition op_bls_map_to_g2 :: "('a1, 'p1, 'p2) blst \<Rightarrow> 'n view \<Rightarrow> 'n \<Rightarrow> u64 \<Rightarrow> 'n op_result option" where
  "op_bls_map_to_g2 bl v args max_cost =
     bind_opt (get_varargs v 2 args ''g2_map'') (\<lambda>as. Some (case as of
       [] \<Rightarrow> Inl InvalidArgCount
     | msg_node # others \<Rightarrow>
         bind_res (check_cost BLS_MAP_TO_G2_BASE_COST max_cost) (\<lambda>_.
         bind_res (atom_arg v msg_node) (\<lambda>msg.
         let cost = BLS_MAP_TO_G2_BASE_COST + len64 (length msg) * BLS_MAP_TO_G2_COST_PER_BYTE in
         bind_res (case others of dst_node # _ \<Rightarrow> atom_arg v dst_node | [] \<Rightarrow> Inr DST_G2) (\<lambda>dst.
         let cost = cost + len64 (length dst) * BLS_MAP_TO_G2_COST_PER_DST_BYTE in
         bind_res (check_cost cost max_cost) (\<lambda>_.
         new_atom_and_cost cost (p2_compress bl (p2_hash bl msg dst))))))))"

section \<open>Pairing checks\<close>

text \<open>\<^verbatim>\<open>while !arena.nullp(rest)\<close>, taking two arguments a round.\<close>

partial_function (option) two_by_two ::
  "'n view \<Rightarrow> ('acc \<Rightarrow> 'n \<Rightarrow> vm_error + 'acc \<times> 'n) \<Rightarrow> 'n \<Rightarrow> 'acc \<Rightarrow> (vm_error + 'acc) option" where
  "two_by_two v body rest acc =
     (if v_nullp v rest then Some (Inr acc)
      else case body acc rest of
        Inl e \<Rightarrow> Some (Inl e) | Inr (acc', rest') \<Rightarrow> two_by_two v body rest' acc')"

definition pairing_round :: "('a1, 'p1, 'p2) blst \<Rightarrow> 'n view \<Rightarrow> u64 \<Rightarrow> u64 \<times> ('p1 \<times> 'p2) list \<Rightarrow> 'n \<Rightarrow>
    vm_error + (u64 \<times> ('p1 \<times> 'p2) list) \<times> 'n" where
  "pairing_round bl v max_cost = (\<lambda>(cost, items) rest.
     let cost = cost + BLS_PAIRING_COST_PER_ARG in
     bind_res (check_cost cost max_cost) (\<lambda>_.
     bind_res (split_node v rest) (\<lambda>(g1_node, r).
     bind_res (g1_arg bl v g1_node) (\<lambda>g1.
     bind_res (split_node v r) (\<lambda>(g2_node, r).
     bind_res (g2_arg bl v g2_node) (\<lambda>g2.
     Inr ((cost, items @ [(p1_from_affine bl g1, g2)]), r)))))))"

definition op_bls_pairing_identity :: "('a1, 'p1, 'p2) blst \<Rightarrow> 'n view \<Rightarrow> 'n \<Rightarrow> u64 \<Rightarrow> 'n op_result option" where
  "op_bls_pairing_identity bl v args max_cost =
     bind_opt (Some (check_cost BLS_PAIRING_BASE_COST max_cost)) (\<lambda>_.
     bind_opt (two_by_two v (pairing_round bl v max_cost) args (BLS_PAIRING_BASE_COST, []))
       (\<lambda>(cost, items). Some
         (if aggregate_pairing bl items then Inr (cost, Same (v_nil v)) else Inl InvalidInput)))"

definition verify_round :: "('a1, 'p1, 'p2) blst \<Rightarrow> 'n view \<Rightarrow> u64 \<Rightarrow> u64 \<times> ('p1 \<times> bytes) list \<Rightarrow> 'n \<Rightarrow>
    vm_error + (u64 \<times> ('p1 \<times> bytes) list) \<times> 'n" where
  "verify_round bl v max_cost = (\<lambda>(cost, items) rest.
     bind_res (split_node v rest) (\<lambda>(pk_node, r).
     bind_res (g1_arg bl v pk_node) (\<lambda>pk.
     bind_res (split_node v r) (\<lambda>(msg_node, r).
     bind_res (atom_arg v msg_node) (\<lambda>msg.
     let cost = cost + BLS_PAIRING_COST_PER_ARG;
         cost = cost + len64 (length msg) * BLS_MAP_TO_G2_COST_PER_BYTE;
         cost = cost + len64 (length DST_G2) * BLS_MAP_TO_G2_COST_PER_DST_BYTE in
     bind_res (check_cost cost max_cost) (\<lambda>_.
     Inr ((cost, items @ [(p1_from_affine bl pk, msg)]), r)))))))"

definition op_bls_verify :: "('a1, 'p1, 'p2) blst \<Rightarrow> 'n view \<Rightarrow> 'n \<Rightarrow> u64 \<Rightarrow> 'n op_result option" where
  "op_bls_verify bl v args max_cost =
     bind_opt (Some (check_cost BLS_PAIRING_BASE_COST max_cost)) (\<lambda>_.
     bind_opt (Some (split_node v args)) (\<lambda>(sig_node, rest).
     bind_opt (Some (g2_arg bl v sig_node)) (\<lambda>signature.
     bind_opt (two_by_two v (verify_round bl v max_cost) rest (BLS_PAIRING_BASE_COST, []))
       (\<lambda>(cost, items). Some
         (if aggregate_verify bl signature items then Inr (cost, Same (v_nil v)) else Inl InvalidInput)))))"

section \<open>Dispatch\<close>

definition quote_kw :: bytes where "quote_kw = [1]"
definition apply_kw :: bytes where "apply_kw = [2]"

record ('a1, 'p1, 'p2) dialect =
  dialect_flags :: u32
  dialect_sha256 :: hash_fn
  dialect_blst :: "('a1, 'p1, 'p2) blst"

definition dialect_op ::
    "('a1, 'p1, 'p2) dialect \<Rightarrow> 'n view \<Rightarrow> 'n \<Rightarrow> 'n \<Rightarrow> u64 \<Rightarrow> 'n op_result option" where
  "dialect_op d v opn args max_cost =
     (let flags = dialect_flags d; sha = dialect_sha256 d; bl = dialect_blst d in
      case v_atom v opn of
        None \<Rightarrow> Some (Inl ExpectedAtomGotPair)
      | Some b \<Rightarrow>
        if length b \<noteq> 1 then
          if flag_set flags NO_UNKNOWN_OPS then Some (Inl (Unimplemented (case b of b0 # _ \<Rightarrow> b0 | [] \<Rightarrow> 0)))
          else op_unknown v opn args max_cost
        else
        let c = b ! 0 in
        if c = 3 then Some (op_if v args)
        else if c = 4 then Some (op_cons v args)
        else if c = 5 then Some (op_first v args)
        else if c = 6 then Some (op_rest v args)
        else if c = 7 then Some (op_listp v args)
        else if c = 8 then Some (op_raise v args)
        else if c = 9 then Some (op_eq v args)
        else if c = 10 then Some (op_gr_bytes v args)
        else if c = 11 then op_sha256 sha v args max_cost
        else if c = 12 then Some (op_substr v args)
        else if c = 13 then Some (op_strlen v args)
        else if c = 14 then op_concat v args max_cost
        else if c = 16 then op_add v args max_cost
        else if c = 17 then op_subtract v args max_cost
        else if c = 18 then op_multiply v args max_cost
        else if c = 19 then Some (if flag_set flags NO_NEG_DIV then op_div_deprecated v args else op_div v args)
        else if c = 20 then Some (op_divmod v args)
        else if c = 21 then Some (op_gr v args)
        else if c = 22 then Some (op_ash v args)
        else if c = 23 then Some (op_lsh v args)
        else if c = 24 then op_logand v args max_cost
        else if c = 25 then op_logior v args max_cost
        else if c = 26 then op_logxor v args max_cost
        else if c = 27 then Some (op_lognot v args)
        else if c = 29 then op_point_add bl v args max_cost
        else if c = 30 then Some (op_pubkey_for_exp bl v args max_cost)
        else if c = 32 then Some (op_not v args)
        else if c = 33 then op_any v args max_cost
        else if c = 34 then op_all v args max_cost
        else if c = 36 then Some (op_softfork v args max_cost flags)
        else if c = 48 then op_coinid sha v args
        else if c = 49 then op_bls_g1_subtract bl v args max_cost
        else if c = 50 then Some (op_bls_g1_multiply bl v args max_cost flags)
        else if c = 51 then Some (op_bls_g1_negate bl v args flags)
        else if c = 52 then op_bls_g2_add bl v args max_cost
        else if c = 53 then op_bls_g2_subtract bl v args max_cost
        else if c = 54 then Some (op_bls_g2_multiply bl v args max_cost flags)
        else if c = 55 then Some (op_bls_g2_negate bl v args flags)
        else if c = 56 then op_bls_map_to_g1 bl v args max_cost
        else if c = 57 then op_bls_map_to_g2 bl v args max_cost
        else if c = 58 then op_bls_pairing_identity bl v args max_cost
        else if c = 59 then op_bls_verify bl v args max_cost
        else if c = 60 then
          if flag_set flags DISABLE_OP \<and> \<not> flag_set flags NEW_COST_MODEL then Some (Inl (Unimplemented c))
          else Some (op_modpow v args max_cost flags)
        else if c = 61 then Some (op_mod v args flags)
        else if flag_set flags NO_UNKNOWN_OPS then Some (Inl (Unimplemented c))
        else op_unknown v opn args max_cost)"

end
