(* ===== verification/ClvmRuntime.thy ===== *)
theory ClvmRuntime
  imports ClvmBls
begin

text \<open>
  The interpreter loop, \<^verbatim>\<open>src/core/src/clvm/runtime.rs\<close>: a machine with a value stack, an operation stack and an
  environment stack over one arena, which charges every step and restores the arena after operators whose result
  holds no new node.
\<close>

section \<open>Costs and state\<close>

definition QUOTE_COST :: u64 where "QUOTE_COST = 20"
definition APPLY_COST :: u64 where "APPLY_COST = 90"
definition OP_COST :: u64 where "OP_COST = 1"
definition TRAVERSE_BASE_COST :: u64 where "TRAVERSE_BASE_COST = 40"
definition TRAVERSE_COST_PER_ZERO_BYTE :: u64 where "TRAVERSE_COST_PER_ZERO_BYTE = 4"
definition TRAVERSE_COST_PER_BIT :: u64 where "TRAVERSE_COST_PER_BIT = 4"

datatype operation = ApplyOp | ConsOp | EvalOp | SwapEvalOp

record ('a1, 'p1, 'p2) runtime =
  rt_dialect :: "('a1, 'p1, 'p2) dialect"
  rt_arena :: arena
  value_stack :: "node_ptr list"
  op_stack :: "operation list"
  checkpoint_stack :: "checkpoint list"
  rt_max_cost :: u64

definition new_runtime :: "('a1, 'p1, 'p2) dialect \<Rightarrow> u64 \<Rightarrow> ('a1, 'p1, 'p2) runtime" where
  "new_runtime d max_cost = \<lparr>rt_dialect = d, rt_arena = new_arena, value_stack = [], op_stack = [],
     checkpoint_stack = [], rt_max_cost = max_cost\<rparr>"

definition reset_runtime :: "('a1, 'p1, 'p2) runtime \<Rightarrow> ('a1, 'p1, 'p2) runtime" where
  "reset_runtime rt = rt\<lparr>value_stack := [], op_stack := [], checkpoint_stack := [],
     rt_arena := reset_arena (rt_arena rt)\<rparr>"

text \<open>A method on \<^verbatim>\<open>&mut self\<close>: the new state, and the result.\<close>

type_synonym ('a1, 'p1, 'p2, 'r) rt_step = "('a1, 'p1, 'p2) runtime \<times> (vm_error + 'r)"

section \<open>Paths\<close>

definition msb_mask :: "u8 \<Rightarrow> u8" where
  "msb_mask b =
     (let x = (ucast (b OR drop_bit 1 b) :: u32);
          x = x OR drop_bit 2 x;
          x = x OR drop_bit 4 x
      in ucast (drop_bit 1 (x + 1)))"

fun first_non_zero_from :: "bytes \<Rightarrow> nat \<Rightarrow> nat" where
  "first_non_zero_from [] c = c"
| "first_non_zero_from (b # buf) c = (if b = 0 then first_non_zero_from buf (c + 1) else c)"

text \<open>The walk down a path: the bit mask is \<open>1 << k\<close>.\<close>

function traverse_loop :: "'n view \<Rightarrow> bytes \<Rightarrow> nat \<Rightarrow> u8 \<Rightarrow> nat \<Rightarrow> nat \<Rightarrow> 'n \<Rightarrow> u64 \<Rightarrow> vm_error + u64 \<times> 'n" where
  "traverse_loop v node_index first_byte last_bitmask byte_idx k arg_list cost =
     (if byte_idx > first_byte \<or> push_bit k 1 < last_bitmask then
        (case v_next v arg_list of
           None \<Rightarrow> Inl ExpectedPairGotAtom
         | Some (first, rest) \<Rightarrow>
             let arg_list = (if node_index ! byte_idx AND push_bit k 1 \<noteq> 0 then rest else first);
                 cost = cost + TRAVERSE_COST_PER_BIT
             in if k \<ge> 7
                then if byte_idx = 0 then Inl Panicked
                     else traverse_loop v node_index first_byte last_bitmask (byte_idx - 1) 0 arg_list cost
                else traverse_loop v node_index first_byte last_bitmask byte_idx (k + 1) arg_list cost)
      else Inr (cost, arg_list))"
  by pat_completeness auto
termination
  by (relation "measure (\<lambda>(v, node_index, first_byte, last_bitmask, byte_idx, k, arg_list, cost).
        8 * byte_idx + (7 - k))") auto

declare traverse_loop.simps [simp del]

definition traverse_path :: "'n view \<Rightarrow> bytes \<Rightarrow> 'n \<Rightarrow> vm_error + u64 \<times> 'n" where
  "traverse_path v node_index args =
     (let first_bit_byte_index = first_non_zero_from node_index 0;
          cost = TRAVERSE_BASE_COST + of_nat first_bit_byte_index * TRAVERSE_COST_PER_ZERO_BYTE + TRAVERSE_COST_PER_BIT
      in if first_bit_byte_index \<ge> length node_index then Inr (cost, v_nil v)
         else traverse_loop v node_index first_bit_byte_index (msb_mask (node_index ! first_bit_byte_index))
                (length node_index - 1) 0 args cost)"

section \<open>Evaluation\<close>

definition cons_step :: "('a1, 'p1, 'p2) runtime \<Rightarrow> ('a1, 'p1, 'p2, u64) rt_step" where
  "cons_step rt = (case value_stack rt of
     first # rest # vs \<Rightarrow> (case new_pair (rt_arena rt) first rest of
       Inl e \<Rightarrow> (rt\<lparr>value_stack := vs\<rparr>, Inl e)
     | Inr (a, pair) \<Rightarrow> (rt\<lparr>rt_arena := a, value_stack := pair # vs\<rparr>, Inr 0))
   | _ \<Rightarrow> (rt\<lparr>value_stack := []\<rparr>, Inl ValueStackEmpty))"

text \<open>The operands of an application: each leaves a pending evaluation and two values.\<close>

partial_function (option) operand_loop :: "'n view \<Rightarrow> 'n \<Rightarrow> 'n \<Rightarrow> operation list \<Rightarrow> 'n list \<Rightarrow>
    (operation list \<times> 'n list \<times> (vm_error + unit)) option" where
  "operand_loop v args operands ops vals = (case v_next v operands of
     None \<Rightarrow> Some (ops, vals, if v_nullp v operands then Inr () else Inl InvalidOperandList)
   | Some (first, rest) \<Rightarrow> operand_loop v args rest (SwapEvalOp # ops) (first # args # vals))"

definition eval_op_atom ::
    "('a1, 'p1, 'p2) runtime \<Rightarrow> node_ptr \<Rightarrow> node_ptr \<Rightarrow> node_ptr \<Rightarrow> ('a1, 'p1, 'p2, u64) rt_step option" where
  "eval_op_atom rt operator_node operand_list args = (case arena_atom (rt_arena rt) operator_node of
     None \<Rightarrow> Some (rt, Inl ExpectedAtomGotPair)
   | Some op_atom \<Rightarrow>
       if op_atom = quote_kw then Some (rt\<lparr>value_stack := operand_list # value_stack rt\<rparr>, Inr QUOTE_COST)
       else map_option (\<lambda>(ops, vals, r).
           let rt' = rt\<lparr>checkpoint_stack := checkpoint_of (rt_arena rt) # checkpoint_stack rt, op_stack := ops\<rparr> in
           case r of
             Inl e \<Rightarrow> (rt'\<lparr>value_stack := vals\<rparr>, Inl e)
           | Inr _ \<Rightarrow> (rt'\<lparr>value_stack := NIL # vals\<rparr>, Inr OP_COST))
         (operand_loop (arena_view (rt_arena rt)) args operand_list (ApplyOp # op_stack rt)
            (operator_node # value_stack rt)))"

definition eval_pair :: "('a1, 'p1, 'p2) runtime \<Rightarrow> node_ptr \<Rightarrow> node_ptr \<Rightarrow> ('a1, 'p1, 'p2, u64) rt_step option" where
  "eval_pair rt program args = (let a = rt_arena rt in case node_kind_of a program of
     AtomNode \<Rightarrow> Some (case arena_atom a program of
         None \<Rightarrow> (rt, Inl Panicked)
       | Some path \<Rightarrow> (case traverse_path (arena_view a) path args of
           Inl e \<Rightarrow> (rt, Inl e)
         | Inr (cost, node) \<Rightarrow> (rt\<lparr>value_stack := node # value_stack rt\<rparr>, Inr cost)))
   | PairNode op_node op_list \<Rightarrow> (case node_kind_of a op_node of
       PairNode inner_first inner_rest \<Rightarrow> Some (
         if node_kind_of a inner_first = AtomNode \<and> nullp a inner_rest
         then (rt\<lparr>value_stack := op_list # inner_first # value_stack rt, op_stack := ApplyOp # op_stack rt,
                  checkpoint_stack := checkpoint_of a # checkpoint_stack rt\<rparr>, Inr APPLY_COST)
         else (rt, Inl InvalidSyntax))
     | AtomNode \<Rightarrow> eval_op_atom rt op_node op_list args))"

definition swap_eval_op :: "('a1, 'p1, 'p2) runtime \<Rightarrow> ('a1, 'p1, 'p2, u64) rt_step option" where
  "swap_eval_op rt = (case value_stack rt of
     v2 # program # args # vs \<Rightarrow> eval_pair (rt\<lparr>value_stack := v2 # vs, op_stack := ConsOp # op_stack rt\<rparr>) program args
   | _ \<Rightarrow> Some (rt\<lparr>value_stack := []\<rparr>, Inl ValueStackEmpty))"

definition eval_op :: "('a1, 'p1, 'p2) runtime \<Rightarrow> ('a1, 'p1, 'p2, u64) rt_step option" where
  "eval_op rt = (case value_stack rt of
     args # program # vs \<Rightarrow> eval_pair (rt\<lparr>value_stack := vs\<rparr>) program args
   | _ \<Rightarrow> Some (rt\<lparr>value_stack := []\<rparr>, Inl ValueStackEmpty))"

text \<open>The application of \<^verbatim>\<open>a\<close>: its checkpoint is released, and evaluation goes on with the applied program.\<close>

definition apply_program :: "('a1, 'p1, 'p2) runtime \<Rightarrow> node_ptr \<Rightarrow> ('a1, 'p1, 'p2, u64) rt_step option" where
  "apply_program rt operand_list =
     (let a = rt_arena rt; rt = rt\<lparr>checkpoint_stack := tl (checkpoint_stack rt)\<rparr> in
      if arg_count_is (arena_view a) operand_list 2 then
        (case next_of a operand_list of
           None \<Rightarrow> Some (rt, Inl ExpectedPairGotAtom)
         | Some (new_program, arg_wrap) \<Rightarrow> (case next_of a arg_wrap of
             None \<Rightarrow> Some (rt, Inl ExpectedPairGotAtom)
           | Some (new_args, _) \<Rightarrow>
               map_option (\<lambda>(rt', r). (rt', map_sum id (\<lambda>c. c + APPLY_COST) r)) (eval_pair rt new_program new_args)))
      else Some (rt, Inl InvalidApplyArgs))"

text \<open>
  Any other operator: a self-contained result borrows nothing, so the arena is rewound to where it was before
  the operands were evaluated; then the result is written.
\<close>

definition finish_op ::
    "('a1, 'p1, 'p2) runtime \<Rightarrow> u64 \<Rightarrow> node_ptr op_out \<Rightarrow> ('a1, 'p1, 'p2, u64) rt_step" where
  "finish_op rt cost out =
     (let a = (if is_self_contained out
               then case checkpoint_stack rt of cp # _ \<Rightarrow> restore (rt_arena rt) cp | [] \<Rightarrow> rt_arena rt
               else rt_arena rt);
          (a', r) = materialize out a cost;
          rt = rt\<lparr>checkpoint_stack := tl (checkpoint_stack rt), rt_arena := a'\<rparr>
      in case r of
           Inl e \<Rightarrow> (rt, Inl e)
         | Inr (c, p) \<Rightarrow> (rt\<lparr>value_stack := p # value_stack rt\<rparr>, Inr c))"

definition apply_op :: "('a1, 'p1, 'p2) runtime \<Rightarrow> u64 \<Rightarrow> ('a1, 'p1, 'p2, u64) rt_step option" where
  "apply_op rt max_cost = (case value_stack rt of
     operand_list # operator # vs \<Rightarrow>
       let rt = rt\<lparr>value_stack := vs\<rparr> in
       (case arena_atom (rt_arena rt) operator of
          None \<Rightarrow> Some (rt, Inl ExpectedAtomGotPair)
        | Some op_atom \<Rightarrow>
            if op_atom = apply_kw then apply_program rt operand_list
            else map_option (\<lambda>r. case r of
                Inl e \<Rightarrow> (rt, Inl e) | Inr (cost, out) \<Rightarrow> finish_op rt cost out)
              (dialect_op (rt_dialect rt) (arena_view (rt_arena rt)) operator operand_list max_cost))
   | _ \<Rightarrow> Some (rt\<lparr>value_stack := []\<rparr>, Inl ValueStackEmpty))"

fun run_op :: "operation \<Rightarrow> ('a1, 'p1, 'p2) runtime \<Rightarrow> u64 \<Rightarrow> ('a1, 'p1, 'p2, u64) rt_step option" where
  "run_op ApplyOp rt remaining = apply_op rt remaining"
| "run_op ConsOp rt remaining = Some (cons_step rt)"
| "run_op EvalOp rt remaining = eval_op rt"
| "run_op SwapEvalOp rt remaining = swap_eval_op rt"

partial_function (option) run_loop ::
  "('a1, 'p1, 'p2) runtime \<Rightarrow> u64 \<Rightarrow> u64 \<Rightarrow> ('a1, 'p1, 'p2, u64) rt_step option" where
  "run_loop rt max_cost current_cost = (case op_stack rt of
     [] \<Rightarrow> Some (rt, Inr current_cost)
   | op # ops \<Rightarrow> (case run_op op (rt\<lparr>op_stack := ops\<rparr>) (max_cost - current_cost) of
       None \<Rightarrow> None
     | Some (rt', Inl e) \<Rightarrow> Some (rt', Inl e)
     | Some (rt', Inr c) \<Rightarrow>
         if current_cost + c > max_cost
         then Some (rt', Inl (CostExceeded (current_cost + c) (rt_max_cost rt')))
         else run_loop rt' max_cost (current_cost + c)))"

definition run_in_arena ::
    "('a1, 'p1, 'p2) runtime \<Rightarrow> sexp \<Rightarrow> sexp \<Rightarrow> ('a1, 'p1, 'p2, u64 \<times> node_ptr) rt_step option" where
  "run_in_arena rt program args =
     (let rt = reset_runtime rt in case import (rt_arena rt) program of
        (a, Inl e) \<Rightarrow> Some (rt\<lparr>rt_arena := a\<rparr>, Inl e)
      | (a, Inr p) \<Rightarrow> (case import a args of
          (a', Inl e) \<Rightarrow> Some (rt\<lparr>rt_arena := a'\<rparr>, Inl e)
        | (a', Inr q) \<Rightarrow>
            let rt = rt\<lparr>rt_arena := a', value_stack := [q, p], op_stack := [EvalOp]\<rparr>;
                max_cost = (if rt_max_cost rt = 0 then - 1 else rt_max_cost rt)
            in map_option (\<lambda>(rt', r). case r of
                 Inl e \<Rightarrow> (rt', Inl e)
               | Inr cost \<Rightarrow> (case value_stack rt' of
                   [] \<Rightarrow> (rt', Inl ValueStackEmpty)
                 | v # vs \<Rightarrow> (rt'\<lparr>value_stack := vs\<rparr>, Inr (cost, v)))) (run_loop rt max_cost 0)))"

definition run ::
    "('a1, 'p1, 'p2) runtime \<Rightarrow> sexp \<Rightarrow> sexp \<Rightarrow> ('a1, 'p1, 'p2, u64 \<times> sexp) rt_step option" where
  "run rt program args = Option.bind (run_in_arena rt program args) (\<lambda>(rt', r). case r of
     Inl e \<Rightarrow> Some (rt', Inl e)
   | Inr (cost, node) \<Rightarrow> map_option (\<lambda>x. case x of
       Inl e \<Rightarrow> (rt', Inl e) | Inr s \<Rightarrow> (rt', Inr (cost, s))) (export (rt_arena rt') node))"

end
