(* ===== verification/ArenaSound.thy ===== *)
theory ArenaSound
  imports ClvmArena
begin

text \<open>
  Correctness of the arena. A live handle of an arena whose contents are in order denotes one tree (\<open>den\<close>); the
  allocators extend the arena without changing what older handles denote; a restore undoes the allocations made
  since its checkpoint; a tree that is imported is exported again.
\<close>

section \<open>Handles\<close>

lemma IDX_MASK: "NODE_PTR_IDX_MASK = mask 26"
  by (simp add: NODE_PTR_IDX_MASK_def NODE_PTR_IDX_BITS_def mask_eq_exp_minus_1 push_bit_eq_mult)

lemma ptr_index_take: "ptr_index p = take_bit 26 p"
  by (simp add: ptr_index_def IDX_MASK take_bit_eq_mask)

lemma unat_ptr_index: "unat (ptr_index p) < 2 ^ 26"
  using take_bit_nat_less_exp [of 26 "unat p"] by (simp add: ptr_index_take unsigned_take_bit_eq)

lemma of_nat_small_bits:
  assumes "i < 2 ^ 26"
  shows "take_bit 26 (of_nat i :: u32) = of_nat i" "drop_bit 26 (of_nat i :: u32) = 0"
proof -
  have "unat (of_nat i :: u32) = i" using assms by (simp add: unat_of_nat)
  with assms show "take_bit 26 (of_nat i :: u32) = of_nat i" "drop_bit 26 (of_nat i :: u32) = 0"
    by (simp_all add: word_unat_eq_iff unsigned_take_bit_eq unsigned_drop_bit_eq take_bit_nat_eq_self)
      (simp add: drop_bit_eq_div)
qed

lemma unat_ptr_index_new [simp]:
  assumes "i < 2 ^ 26"
  shows "ptr_index (new_ptr t i) = of_nat i" "unat (ptr_index (new_ptr t i)) = i"
proof -
  show "ptr_index (new_ptr t i) = of_nat i"
    by (simp add: ptr_index_take new_ptr_def NODE_PTR_IDX_BITS_def take_bit_push_bit of_nat_small_bits [OF assms])
  then show "unat (ptr_index (new_ptr t i)) = i" using assms by (simp add: unat_of_nat)
qed

lemma object_type_new [simp]: "i < 2 ^ 26 \<Longrightarrow> object_type_of (new_ptr t i) = t"
  by (cases t) (simp_all add: object_type_of_def new_ptr_def NODE_PTR_IDX_BITS_def drop_bit_push_bit of_nat_small_bits)

lemma NIL_small [simp]: "object_type_of NIL = SmallAtomType" "ptr_index NIL = 0"
  by (simp_all add: NIL_def)

lemma ONE_small [simp]: "object_type_of ONE = SmallAtomType" "ptr_index ONE = 1"
  by (simp_all add: ONE_def)

section \<open>Small atoms\<close>

lemma foldl_bytes_word:
  "foldl (\<lambda>ret b. push_bit 8 ret OR ucast b) (of_nat n) (v :: bytes) =
     (of_nat (foldl (\<lambda>a b. a * 256 + unat b) n v) :: u32)"
proof (induction v arbitrary: n)
  case (Cons b v)
  have "push_bit 8 (of_nat n) OR (ucast b :: u32) = push_bit 8 (of_nat n) + ucast b"
    by (rule disjunctive_add [symmetric]) (auto simp: bit_simps dest: bit_imp_le_length)
  also have "\<dots> = of_nat (n * 256 + unat b)"
    by (simp add: push_bit_eq_mult algebra_simps)
  finally show ?case using Cons [of "n * 256 + unat b"] by (simp only: foldl.simps)
qed simp

lemma len_for_value_bound:
  assumes "unat w < 2 ^ 26"
  shows "len_for_value w \<le> 4" "w \<noteq> 0 \<Longrightarrow> unat w < 128 * 256 ^ (len_for_value w - 1)"
    "2 \<le> len_for_value w \<Longrightarrow> 128 * 256 ^ (len_for_value w - 2) \<le> unat w"
  using assms by (auto simp: len_for_value_def word_less_nat_alt split: if_splits)

lemma len_for_value_0 [simp]: "len_for_value w = 0 \<longleftrightarrow> w = 0"
  by (auto simp: len_for_value_def)

lemma small_bytes_be: "unat w < 2 ^ 26 \<Longrightarrow> small_bytes w = be_bytes (len_for_value w) (unat w)"
  using len_for_value_bound(1) [of w] drop_be_bytes [of "4 - len_for_value w" "len_for_value w" "unat w"]
  by (simp add: small_bytes_def)

lemma length_small_bytes: "unat w < 2 ^ 26 \<Longrightarrow> length (small_bytes w) = len_for_value w"
  by (simp add: small_bytes_be)

lemma small_bytes_value:
  assumes "unat w < 2 ^ 26"
  shows "from_signed_bytes_be (small_bytes w) = int (unat w)" "\<not> redundant (small_bytes w)"
    "small_bytes w = [] \<longleftrightarrow> w = 0"
proof -
  let ?n = "len_for_value w"
  show nil: "small_bytes w = [] \<longleftrightarrow> w = 0"
    using length_small_bytes [OF assms] by (metis len_for_value_0 length_0_conv)
  have nat: "be_nat (small_bytes w) = unat w"
  proof (cases "w = 0")
    case False
    then have "unat w < 256 ^ ?n" using len_for_value_bound(2) [OF assms False]
      by (cases ?n) auto
    then show ?thesis by (simp add: small_bytes_be [OF assms])
  qed (simp add: small_bytes_be)
  have hd: "unat (hd (small_bytes w)) = unat w div 256 ^ (?n - 1)" if "w \<noteq> 0"
  proof -
    obtain k where k: "?n = Suc k" using \<open>w \<noteq> 0\<close> by (cases ?n) auto
    have "unat w div 256 ^ k < 128"
      using len_for_value_bound(2) [OF assms that] by (simp add: k less_mult_imp_div_less)
    then show ?thesis by (simp add: small_bytes_be [OF assms] k)
  qed
  have low: "unat (hd (small_bytes w)) < 128" if "w \<noteq> 0"
    using hd [OF that] len_for_value_bound(2) [OF assms that] by (simp add: less_mult_imp_div_less)
  show val: "from_signed_bytes_be (small_bytes w) = int (unat w)"
    using low nat nil unfolding from_signed_bytes_be_def high_bit_iff by auto
  show "\<not> redundant (small_bytes w)"
  proof
    assume r: "redundant (small_bytes w)"
    then obtain b0 b1 bs where b: "small_bytes w = b0 # b1 # bs"
      by (auto simp: redundant_def split: list.splits)
    then have n: "?n = length bs + 2" "w \<noteq> 0" using length_small_bytes [OF assms] nil by auto
    have "from_signed_bytes_be (b1 # bs) = int (unat w)"
      using r val redundant_value [of b0 "b1 # bs"] by (simp add: b)
    moreover have "from_signed_bytes_be (b1 # bs) < 128 * 256 ^ length bs"
      using from_signed_range(2) [of "b1 # bs"] by simp
    ultimately have "unat w < 128 * 256 ^ length bs" 
      using of_nat_less_iff [of "unat w" "128 * 256 ^ length bs", where ?'a = int] by simp
    with len_for_value_bound(3) [OF assms] n show False by simp
  qed
qed

lemma fits_in_small_atom_Some:
  assumes "fits_in_small_atom v = Some w"
  shows "unat w < 2 ^ 26" "small_bytes w = v"
proof -
  have v: "length v \<le> 4" "\<not> redundant v" "v \<noteq> [] \<Longrightarrow> unat (v ! 0) < 128" "v \<noteq> [0]"
    "length v = 4 \<Longrightarrow> unat (v ! 0) \<le> 3"
    and w: "w = of_nat (be_nat v)"
    using assms foldl_bytes_word [of 0 v]
    by (auto simp: fits_in_small_atom_def high_mask_iff high_bit_iff redundant_def be_nat_def word_less_nat_alt
        split: if_splits list.splits)
  have small: "be_nat v < 2 ^ 26"
  proof (cases "length v = 4")
    case True
    then obtain b bs where v4: "v = b # bs" "length bs = 3" by (cases v) auto
    with v(5) True be_nat_less [of bs] show ?thesis by simp
  next
    case False
    with v(1) have "(256 :: nat) ^ length v \<le> 256 ^ 3" by (intro power_increasing) auto
    with be_nat_less [of v] show ?thesis by simp
  qed
  then show wb: "unat w < 2 ^ 26" by (simp add: w unat_of_nat)
  have wv: "unat w = be_nat v" using small by (simp add: w unat_of_nat)
  show "small_bytes w = v"
  proof (cases "v = []")
    case True
    with w small_bytes_value(3) [OF wb] show ?thesis by simp
  next
    case False
    then have "from_signed_bytes_be v = int (be_nat v)"
      using v(3) by (simp add: from_signed_bytes_be_def high_bit_iff hd_conv_nth)
    moreover have "w \<noteq> 0"
    proof
      assume "w = 0"
      with wv have "be_nat v = 0" by simp
      then have "from_signed_bytes_be v = from_signed_bytes_be [0]"
        using calculation by (simp add: from_signed_bytes_be_def high_bit_iff)
      with minimal_unique [of v "[0]"] v False show False by simp
    qed
    ultimately show ?thesis
      using minimal_unique [of "small_bytes w" v] small_bytes_value [OF wb] v(2) False wv by simp
  qed
qed

lemma fits_in_small_atom_Nil [simp]: "fits_in_small_atom [] = Some 0"
  by (simp add: fits_in_small_atom_def)

lemma small_number:
  assumes "unat w < 2 ^ 26"
  shows "sexp_number_from (small_bytes w) = I128 (ucast w)"
proof -
  have len: "length (small_bytes w) \<le> 16"
    using length_small_bytes [OF assms] len_for_value_bound(1) [OF assms] by simp
  then obtain x where x: "sexp_number_from (small_bytes w) = I128 x"
    by (cases "small_bytes w = []") (simp_all add: sexp_number_from_def Let_def)
  have "sint x = int (unat w)"
    using num_val_from [of "small_bytes w"] small_bytes_value(1) [OF assms]
    by (auto simp: x number_from_slice_def)
  moreover have "sint (ucast w :: i128) = int (unat w)"
  proof -
    have "int (unat w) < 2 ^ 127" using unsigned_less [of w, where ?'a = int] by simp
    then have "sint (word_of_int (int (unat w)) :: i128) = int (unat w)"
      by (intro sint_word_of_int) (auto intro: order_trans [OF _ uint_ge_0])
    moreover have "(ucast w :: i128) = word_of_int (int (unat w))"
      by (simp only: of_nat_unat ucast_eq)
    ultimately show ?thesis by (rule ssubst [rotated])
  qed
  ultimately show ?thesis using x by (metis signed_word_eqI)
qed

section \<open>Live regions\<close>

text \<open>
  A handle lies below a pair count and an atom count when it denotes one of the first so many entries of the
  pools; an inline atom always does.
\<close>

definition below :: "nat \<Rightarrow> nat \<Rightarrow> node_ptr \<Rightarrow> bool" where
  "below np na p = (case object_type_of p of
     PairType \<Rightarrow> unat (ptr_index p) < np | BytesType \<Rightarrow> unat (ptr_index p) < na | SmallAtomType \<Rightarrow> True)"

lemma below_mono: "below np na p \<Longrightarrow> np \<le> np' \<Longrightarrow> na \<le> na' \<Longrightarrow> below np' na' p"
  by (auto simp: below_def split: object_type.splits)

lemma below_NIL_ONE [simp]: "below np na NIL" "below np na ONE"
  by (simp_all add: below_def)

text \<open>The first \<open>np\<close> pairs have their children among earlier pairs and the first \<open>na\<close> atoms.\<close>

definition pairs_ok :: "arena \<Rightarrow> nat \<Rightarrow> nat \<Rightarrow> bool" where
  "pairs_ok a np na \<longleftrightarrow> np \<le> length (pair_vec a) \<and> na \<le> length (atom_vec a) \<and>
     (\<forall>i < np. below i na (ip_first (pair_vec a ! i)) \<and> below i na (ip_rest (pair_vec a ! i)))"

text \<open>The first \<open>na\<close> spans lie in the first \<open>nh\<close> bytes.\<close>

definition spans_ok :: "arena \<Rightarrow> nat \<Rightarrow> nat \<Rightarrow> bool" where
  "spans_ok a na nh \<longleftrightarrow> na \<le> length (atom_vec a) \<and> nh \<le> length (u8_vec a) \<and>
     (\<forall>s \<in> set (take na (atom_vec a)). unat (span_start s) \<le> unat (span_end s) \<and> unat (span_end s) \<le> nh)"

definition live :: "arena \<Rightarrow> node_ptr \<Rightarrow> bool" where
  "live a p \<longleftrightarrow> below (length (pair_vec a)) (length (atom_vec a)) p"

definition intern_ok :: "arena \<Rightarrow> bool" where
  "intern_ok a \<longleftrightarrow> (\<forall>v p. atom_intern a v = Some p \<longrightarrow> object_type_of p = BytesType \<and> live a p)"

text \<open>The structural invariant: handles point into the pools, and the counters are within their ceilings.\<close>

definition indexed :: "arena \<Rightarrow> bool" where
  "indexed a \<longleftrightarrow> pairs_ok a (length (pair_vec a)) (length (atom_vec a)) \<and> intern_ok a \<and>
     length (atom_vec a) + ghost_atoms a \<le> MAX_NUM_ATOMS \<and> length (pair_vec a) + ghost_pairs a \<le> MAX_NUM_PAIRS"

text \<open>The invariant of the contents: every span lies in the heap, and an interned body is what its handle reads.\<close>

definition contents_ok :: "arena \<Rightarrow> bool" where
  "contents_ok a \<longleftrightarrow> spans_ok a (length (atom_vec a)) (length (u8_vec a)) \<and>
     (\<forall>v p. atom_intern a v = Some p \<longrightarrow> arena_atom a p = Some v)"

abbreviation heap_used :: "arena \<Rightarrow> nat" where
  "heap_used a \<equiv> length (u8_vec a) + ghost_heap a"

lemma indexedD:
  assumes "indexed a"
  shows "pairs_ok a (length (pair_vec a)) (length (atom_vec a))" "intern_ok a"
    "length (atom_vec a) < 2 ^ 26" "length (pair_vec a) < 2 ^ 26"
  using assms by (simp_all add: indexed_def MAX_NUM_ATOMS_def MAX_NUM_PAIRS_def)

lemma live_atomI: "object_type_of p \<noteq> PairType \<Longrightarrow> object_type_of p \<noteq> BytesType \<Longrightarrow> live a p"
  by (cases "object_type_of p") (simp_all add: live_def below_def)

lemma live_NIL_ONE [simp]: "live a NIL" "live a ONE"
  by (simp_all add: live_def)

section \<open>What a handle denotes\<close>

inductive den :: "arena \<Rightarrow> node_ptr \<Rightarrow> sexp \<Rightarrow> bool" for a where
  den_atom: "object_type_of p \<noteq> PairType \<Longrightarrow> live a p \<Longrightarrow> arena_atom a p = Some b \<Longrightarrow> den a p (Atom b)"
| den_pair: "object_type_of p = PairType \<Longrightarrow> live a p \<Longrightarrow> node_kind_of a p = PairNode x y \<Longrightarrow>
     den a x s \<Longrightarrow> den a y t \<Longrightarrow> den a p (Pair s t)"

inductive_cases den_AtomE: "den a p (Atom b)"
inductive_cases den_PairE: "den a p (Pair s t)"

lemma den_live: "den a p s \<Longrightarrow> live a p"
  by (erule den.cases) auto

lemma den_fun: "den a p s \<Longrightarrow> den a p t \<Longrightarrow> s = t"
proof (induction arbitrary: t rule: den.induct)
  case (den_atom p b)
  from den_atom.prems den_atom.hyps show ?case by (cases rule: den.cases) auto
next
  case (den_pair p x y s1 t1)
  from den_pair.prems den_pair.hyps(1,3) obtain s' t' where "t = Pair s' t'" "den a x s'" "den a y t'"
    by (cases rule: den.cases) auto
  with den_pair.IH show ?case by simp
qed

lemma node_kind_pair: "object_type_of p = PairType \<Longrightarrow>
    node_kind_of a p = PairNode (ip_first (pair_vec a ! unat (ptr_index p))) (ip_rest (pair_vec a ! unat (ptr_index p)))"
  by (simp add: node_kind_of_def Let_def)

lemma node_kind_atom: "object_type_of p \<noteq> PairType \<Longrightarrow> node_kind_of a p = AtomNode"
  by (cases "object_type_of p") (simp_all add: node_kind_of_def)

lemma arena_atom_ex: "object_type_of p \<noteq> PairType \<Longrightarrow> \<exists>b. arena_atom a p = Some b"
  by (cases "object_type_of p") (simp_all add: arena_atom_def)

lemma children_below:
  assumes "pairs_ok a np na" "object_type_of p = PairType" "below np na p" "node_kind_of a p = PairNode x y"
  shows "below (unat (ptr_index p)) na x" "below (unat (ptr_index p)) na y"
  using assms by (auto simp: pairs_ok_def below_def node_kind_pair)

text \<open>Every handle of a structurally sound arena denotes exactly one tree.\<close>

lemma den_total_below:
  assumes "pairs_ok a np na" "below np na p"
  shows "\<exists>s. den a p s"
proof -
  define rank where "rank p = (if object_type_of p = PairType then Suc (unat (ptr_index p)) else 0)" for p
  from assms(2) show ?thesis
  proof (induction "rank p" arbitrary: p rule: less_induct)
    case less
    have live: "live a p" using less.prems assms(1) below_mono by (auto simp: live_def pairs_ok_def)
    show ?case
    proof (cases "object_type_of p = PairType")
      case True
      obtain x y where xy: "node_kind_of a p = PairNode x y" using node_kind_pair [OF True] by blast
      note ch = children_below [OF assms(1) True less.prems xy]
      have np: "unat (ptr_index p) \<le> np" using less.prems True by (simp add: below_def)
      have "rank x < rank p" "rank y < rank p"
        using ch True by (auto simp: rank_def below_def)
      with less.hyps [of x] less.hyps [of y] below_mono [OF ch(1) np order_refl] below_mono [OF ch(2) np order_refl]
      obtain s t where "den a x s" "den a y t" by blast
      with True live xy show ?thesis by (blast intro: den_pair)
    next
      case False
      with arena_atom_ex [OF False, of a] live show ?thesis by (blast intro: den_atom)
    qed
  qed
qed

lemma den_total: "indexed a \<Longrightarrow> live a p \<Longrightarrow> \<exists>s. den a p s"
  using den_total_below by (auto simp: live_def dest: indexedD)

section \<open>Growing and shrinking\<close>

text \<open>An arena grown by allocation: the pools keep what they had.\<close>

definition grown :: "arena \<Rightarrow> arena \<Rightarrow> bool" where
  "grown a a' \<longleftrightarrow> (\<exists>hs. u8_vec a' = u8_vec a @ hs) \<and> (\<exists>ps. pair_vec a' = pair_vec a @ ps) \<and>
     (\<exists>ss. atom_vec a' = atom_vec a @ ss)"

lemma grown_refl [simp]: "grown a a"
  by (simp add: grown_def)

lemma grown_trans: "grown a b \<Longrightarrow> grown b c \<Longrightarrow> grown a c"
  by (auto simp: grown_def)

lemma grown_live: "grown a a' \<Longrightarrow> live a p \<Longrightarrow> live a' p"
  by (auto simp: grown_def live_def elim: below_mono)

lemma span_bytes_append: "unat (span_end s) \<le> length h \<Longrightarrow> span_bytes (h @ h') s = span_bytes h s"
  by (cases "unat (span_start s) \<le> unat (span_end s)") (auto simp: span_bytes_def)

lemma span_bytes_take: "unat (span_end s) \<le> n \<Longrightarrow> span_bytes (take n h) s = span_bytes h s"
  by (simp add: span_bytes_def drop_take)

lemma spans_okD:
  "spans_ok a na nh \<Longrightarrow> i < na \<Longrightarrow>
     unat (span_start (atom_vec a ! i)) \<le> unat (span_end (atom_vec a ! i)) \<and> unat (span_end (atom_vec a ! i)) \<le> nh"
  by (simp add: spans_ok_def) (metis in_set_conv_nth length_take min.absorb2 nth_take)

lemma grown_node_kind: "grown a a' \<Longrightarrow> live a p \<Longrightarrow> node_kind_of a' p = node_kind_of a p"
  by (cases "object_type_of p = PairType")
    (auto simp: grown_def live_def below_def node_kind_pair node_kind_atom nth_append)

lemma grown_atom:
  assumes "grown a a'" "live a p" "contents_ok a"
  shows "arena_atom a' p = arena_atom a p"
proof (cases "object_type_of p = BytesType")
  case True
  with assms(2) have i: "unat (ptr_index p) < length (atom_vec a)" by (simp add: live_def below_def)
  then have "unat (span_end (atom_at a p)) \<le> length (u8_vec a)"
    using assms(3) spans_okD [OF _ i] by (auto simp: contents_ok_def atom_at_def)
  with assms(1) i True show ?thesis
    by (auto simp: grown_def arena_atom_def atom_at_def nth_append span_bytes_append)
next
  case False
  then show ?thesis by (cases "object_type_of p") (simp_all add: arena_atom_def)
qed

lemma grown_den: "grown a a' \<Longrightarrow> contents_ok a \<Longrightarrow> den a p s \<Longrightarrow> den a' p s"
  by (rotate_tac 2, induction rule: den.induct)
    (auto intro: den.intros grown_live simp: grown_atom grown_node_kind)

text \<open>A checkpoint is safe to rewind to when what lies below it refers to nothing above it.\<close>

definition cp_ok :: "arena \<Rightarrow> checkpoint \<Rightarrow> bool" where
  "cp_ok a cp \<longleftrightarrow> pairs_ok a (cp_pairs cp) (cp_atoms cp)"

definition cp_spans :: "arena \<Rightarrow> checkpoint \<Rightarrow> bool" where
  "cp_spans a cp \<longleftrightarrow> spans_ok a (cp_atoms cp) (cp_heap cp)"

abbreviation under :: "checkpoint \<Rightarrow> node_ptr \<Rightarrow> bool" where
  "under cp \<equiv> below (cp_pairs cp) (cp_atoms cp)"

lemma under_live: "cp_ok a cp \<Longrightarrow> under cp p \<Longrightarrow> live a p"
  by (auto simp: cp_ok_def pairs_ok_def live_def elim: below_mono)

lemma under_checkpoint_of [simp]: "under (checkpoint_of a) p \<longleftrightarrow> live a p"
  by (simp add: checkpoint_of_def live_def)

lemma cp_ok_checkpoint_of: "indexed a \<Longrightarrow> cp_ok a (checkpoint_of a)"
  by (simp add: cp_ok_def checkpoint_of_def indexed_def)

lemma cp_spans_checkpoint_of: "contents_ok a \<Longrightarrow> cp_spans a (checkpoint_of a)"
  by (simp add: cp_spans_def checkpoint_of_def contents_ok_def)

lemma grown_cp_ok: "grown a a' \<Longrightarrow> cp_ok a cp \<Longrightarrow> cp_ok a' cp"
  by (auto simp: grown_def cp_ok_def pairs_ok_def nth_append)

lemma grown_cp_spans: "grown a a' \<Longrightarrow> cp_spans a cp \<Longrightarrow> cp_spans a' cp"
  by (auto simp: grown_def cp_spans_def spans_ok_def)

lemma restore_pools [simp]:
  "u8_vec (restore a cp) = take (cp_heap cp) (u8_vec a)"
  "pair_vec (restore a cp) = take (cp_pairs cp) (pair_vec a)"
  "atom_vec (restore a cp) = take (cp_atoms cp) (atom_vec a)"
  "atom_intern (restore a cp) = Map.empty"
  by (simp_all add: restore_def)

lemma restore_lengths:
  assumes "cp_ok a cp"
  shows "length (pair_vec (restore a cp)) = cp_pairs cp" "length (atom_vec (restore a cp)) = cp_atoms cp"
  using assms by (simp_all add: cp_ok_def pairs_ok_def)

lemma live_restore: "cp_ok a cp \<Longrightarrow> live (restore a cp) p \<longleftrightarrow> under cp p"
  by (simp add: live_def cp_ok_def pairs_ok_def min_absorb2)

text \<open>Rewinding changes no counter: what is dropped from the pools is added to the ghosts.\<close>

lemma restore_counters:
  assumes "cp_ok a cp" "cp_spans a cp"
  shows "counters (restore a cp) = counters a"
  using assms by (simp add: counters_def restore_def cp_ok_def pairs_ok_def cp_spans_def spans_ok_def)

lemma restore_indexed:
  assumes "cp_ok a cp" "indexed a"
  shows "indexed (restore a cp)"
proof -
  note len = restore_lengths [OF assms(1)]
  have "pairs_ok (restore a cp) (cp_pairs cp) (cp_atoms cp)"
    using assms(1) len by (auto simp: cp_ok_def pairs_ok_def)
  moreover have "cp_pairs cp + ghost_pairs (restore a cp) = length (pair_vec a) + ghost_pairs a"
    "cp_atoms cp + ghost_atoms (restore a cp) = length (atom_vec a) + ghost_atoms a"
    using assms(1) by (simp_all add: restore_def cp_ok_def pairs_ok_def)
  ultimately show ?thesis using assms(2) len unfolding indexed_def by (simp add: intern_ok_def)
qed

lemma restore_contents:
  assumes "cp_ok a cp" "cp_spans a cp"
  shows "contents_ok (restore a cp)"
proof -
  have "spans_ok (restore a cp) (cp_atoms cp) (cp_heap cp)" "length (u8_vec (restore a cp)) = cp_heap cp"
    using assms by (auto simp: cp_spans_def spans_ok_def cp_ok_def pairs_ok_def)
  with restore_lengths [OF assms(1)] show ?thesis by (simp add: contents_ok_def)
qed

lemma restore_den:
  assumes "cp_ok a cp" "cp_spans a cp" "under cp p" "den a p s"
  shows "den (restore a cp) p s"
  using assms(4,3)
proof (induction rule: den.induct)
  case (den_atom p b)
  have "arena_atom (restore a cp) p = arena_atom a p"
  proof (cases "object_type_of p")
    case BytesType
    then have i: "unat (ptr_index p) < cp_atoms cp" using den_atom.prems by (simp add: below_def)
    then have "unat (span_end (atom_at a p)) \<le> cp_heap cp"
      using assms(2) spans_okD [OF _ i] by (auto simp: cp_spans_def atom_at_def)
    with i BytesType show ?thesis by (simp add: arena_atom_def atom_at_def span_bytes_take)
  qed (simp_all add: arena_atom_def)
  with den_atom live_restore [OF assms(1)] show ?case by (auto intro: den.den_atom)
next
  case (den_pair p x y s t)
  have ch: "below (unat (ptr_index p)) (cp_atoms cp) x" "below (unat (ptr_index p)) (cp_atoms cp) y"
    using children_below [OF _ den_pair.hyps(1) den_pair.prems den_pair.hyps(3)] assms(1) by (simp_all add: cp_ok_def)
  have i: "unat (ptr_index p) < cp_pairs cp" using den_pair.prems den_pair.hyps(1) by (simp add: below_def)
  then have "node_kind_of (restore a cp) p = PairNode x y"
    using den_pair.hyps by (simp add: node_kind_pair)
  moreover have "under cp x" "under cp y"
    using ch i by (auto elim: below_mono)
  ultimately show ?case
    using den_pair live_restore [OF assms(1)] by (auto intro: den.den_pair)
qed

section \<open>Allocation\<close>

lemma pairs_ok_mono_atoms:
  "pairs_ok a np na \<Longrightarrow> pair_vec a' = pair_vec a \<Longrightarrow> na \<le> na' \<Longrightarrow> na' \<le> length (atom_vec a') \<Longrightarrow>
     pairs_ok a' np na'"
  by (auto simp: pairs_ok_def intro: below_mono [OF _ order_refl])

lemma pools_cong:
  "u8_vec a' = u8_vec a \<Longrightarrow> atom_vec a' = atom_vec a \<Longrightarrow> arena_atom a' p = arena_atom a p"
  "pair_vec a' = pair_vec a \<Longrightarrow> node_kind_of a' p = node_kind_of a p"
  "pair_vec a' = pair_vec a \<Longrightarrow> atom_vec a' = atom_vec a \<Longrightarrow> live a' p = live a p"
  by (cases "object_type_of p"; simp add: arena_atom_def atom_at_def node_kind_of_def live_def)+

text \<open>The two ways an atom is charged: a ghost (nothing stored) or a span pushed on the pool.\<close>

lemma charge_ghosts:
  fixes h :: nat
  assumes "indexed a" "length (atom_vec a) + ghost_atoms a \<noteq> MAX_NUM_ATOMS"
  defines "a' \<equiv> a\<lparr>ghost_atoms := ghost_atoms a + 1, ghost_heap := h\<rparr>"
  shows "indexed a'" "grown a a'" "live a' p = live a p" "den a' p s = den a p s"
    "contents_ok a' = contents_ok a" "arena_atom a' p = arena_atom a p"
proof -
  show "indexed a'"
    using assms by (simp add: indexed_def pairs_ok_def intern_ok_def live_def)
  show "grown a a'" by (simp add: grown_def a'_def)
  have live: "live a' q = live a q" and atom: "arena_atom a' q = arena_atom a q"
    and kind: "node_kind_of a' q = node_kind_of a q" for q unfolding a'_def by (rule pools_cong; simp)+
  show "live a' p = live a p" "arena_atom a' p = arena_atom a p" by (fact live, fact atom)
  show "contents_ok a' = contents_ok a"
    by (simp add: contents_ok_def spans_ok_def atom) (simp add: a'_def)
  show "den a' p s = den a p s"
  proof
    show "den a' p s" if "den a p s" using that
      by (induction rule: den.induct) (auto intro: den.intros simp: live atom kind)
    show "den a p s" if "den a' p s" using that
      by (induction rule: den.induct) (auto intro: den.intros simp: live atom kind)
  qed
qed

lemma push_span:
  assumes "indexed a" "length (atom_vec a) + ghost_atoms a \<noteq> MAX_NUM_ATOMS"
    and pools: "u8_vec a' = u8_vec a @ hs" "pair_vec a' = pair_vec a" "atom_vec a' = atom_vec a @ [s]"
      "ghost_atoms a' = ghost_atoms a" "ghost_pairs a' = ghost_pairs a"
    and node: "node = new_ptr BytesType (length (atom_vec a))"
    and intern: "atom_intern a' = atom_intern a \<or> atom_intern a' = (atom_intern a)(v \<mapsto> node)"
  shows "indexed a'" "grown a a'" "live a' node" "object_type_of node = BytesType"
    "arena_atom a' node = Some (span_bytes (u8_vec a') s)"
    "contents_ok a \<Longrightarrow> unat (span_start s) \<le> unat (span_end s) \<Longrightarrow> unat (span_end s) \<le> length (u8_vec a') \<Longrightarrow>
       (atom_intern a' = atom_intern a \<or> span_bytes (u8_vec a') s = v) \<Longrightarrow> contents_ok a'"
proof -
  show grown: "grown a a'" using pools by (auto simp: grown_def)
  have idx: "unat (ptr_index node) = length (atom_vec a)"
    using indexedD(3) [OF assms(1)] by (simp add: node)
  show ty: "object_type_of node = BytesType" using indexedD(3) [OF assms(1)] by (simp add: node)
  show livn: "live a' node" using idx ty by (simp add: live_def below_def pools)
  have "intern_ok a'"
    unfolding intern_ok_def
  proof (intro allI impI)
    fix w p assume "atom_intern a' w = Some p"
    then have "p = node \<or> atom_intern a w = Some p"
      using intern by (metis fun_upd_apply option.inject)
    then show "object_type_of p = BytesType \<and> live a' p"
      using ty livn indexedD(2) [OF assms(1)] grown_live [OF grown, of p] unfolding intern_ok_def by blast
  qed
  moreover have "pairs_ok a' (length (pair_vec a')) (length (atom_vec a'))"
    using pairs_ok_mono_atoms [OF indexedD(1) [OF assms(1)] pools(2), of "length (atom_vec a')"] by (simp add: pools)
  ultimately show "indexed a'" using assms(1,2) by (simp add: indexed_def pools)
  show atn: "arena_atom a' node = Some (span_bytes (u8_vec a') s)"
    using ty idx by (simp add: arena_atom_def atom_at_def pools)
  assume c: "contents_ok a" and s: "unat (span_start s) \<le> unat (span_end s)" "unat (span_end s) \<le> length (u8_vec a')"
    and body: "atom_intern a' = atom_intern a \<or> span_bytes (u8_vec a') s = v"
  have "spans_ok a' (length (atom_vec a')) (length (u8_vec a'))"
    using c s unfolding contents_ok_def spans_ok_def by (fastforce simp: pools)
  moreover have "arena_atom a' p = Some w" if "atom_intern a' w = Some p" for w p
  proof (cases "atom_intern a w = Some p")
    case True
    then have "live a p" using indexedD(2) [OF assms(1)] by (auto simp: intern_ok_def)
    with True c grown_atom [OF grown _ c] show ?thesis by (simp add: contents_ok_def)
  next
    case False
    with that intern have "w = v" "p = node" "atom_intern a' \<noteq> atom_intern a"
      by (metis fun_upd_apply option.inject)+
    with body atn show ?thesis by simp
  qed
  ultimately show "contents_ok a'" by (simp add: contents_ok_def)
qed

lemma check_atom_limit_Inr [simp]:
  "check_atom_limit a = Inr u \<longleftrightarrow> length (atom_vec a) + ghost_atoms a \<noteq> MAX_NUM_ATOMS"
  by (cases u) (simp add: check_atom_limit_def)

lemma den_atom_iff: "object_type_of p \<noteq> PairType \<Longrightarrow> den a p s \<longleftrightarrow> live a p \<and> (\<exists>b. arena_atom a p = Some b \<and> s = Atom b)"
  by (auto elim: den.cases intro: den.intros)

lemma of_nat_heap: "n \<le> HEAP_LIMIT \<Longrightarrow> unat (of_nat n :: u32) = n"
  by (simp add: HEAP_LIMIT_def unat_of_nat)

subsection \<open>Atoms\<close>

lemma new_atom_Inl: "new_atom a v = Inl e \<Longrightarrow> e = OutOfMemory \<or> e = TooManyAtoms"
  by (auto simp: new_atom_def Let_def check_atom_limit_def bind_res_eq_Inl split: if_splits option.splits)

lemma new_atom_cases:
  assumes "new_atom a v = Inr (a', p)"
  obtains (small) w where "fits_in_small_atom v = Some w" "p = new_ptr SmallAtomType (unat w)"
      "a' = a\<lparr>ghost_atoms := ghost_atoms a + 1, ghost_heap := ghost_heap a + length v\<rparr>"
  | (shared) "atom_intern a v = Some p"
      "a' = a\<lparr>ghost_atoms := ghost_atoms a + 1, ghost_heap := ghost_heap a + length v\<rparr>"
  | (stored) "u8_vec a' = u8_vec a @ v" "pair_vec a' = pair_vec a"
      "atom_vec a' = atom_vec a @ [\<lparr>span_start = of_nat (length (u8_vec a)), span_end = of_nat (length (u8_vec a'))\<rparr>]"
      "ghost_atoms a' = ghost_atoms a" "ghost_pairs a' = ghost_pairs a" "ghost_heap a' = ghost_heap a"
      "p = new_ptr BytesType (length (atom_vec a))"
      "atom_intern a' = atom_intern a \<or> atom_intern a' = (atom_intern a)(v \<mapsto> p)"
  using assms that
  by (auto simp: new_atom_def Let_def bind_res_eq_Inr split: if_splits option.splits)

lemma new_atom_room:
  "new_atom a v = Inr (a', p) \<Longrightarrow>
     heap_used a + length v \<le> HEAP_LIMIT \<and> length (atom_vec a) + ghost_atoms a \<noteq> MAX_NUM_ATOMS"
  by (auto simp: new_atom_def Let_def bind_res_eq_Inr split: if_splits)

lemma new_atom_counters:
  "new_atom a v = Inr (a', p) \<Longrightarrow>
     counters a' = (length (atom_vec a) + ghost_atoms a + 1, length (pair_vec a) + ghost_pairs a, heap_used a + length v)"
  by (erule new_atom_cases) (auto simp: counters_def)

lemma new_atom_indexed:
  assumes "new_atom a v = Inr (a', p)" "indexed a"
  shows "indexed a' \<and> grown a a' \<and> live a' p \<and> object_type_of p \<noteq> PairType"
  using assms(1)
proof (cases rule: new_atom_cases)
  case (small w)
  note f = fits_in_small_atom_Some [OF small(1)]
  then have "object_type_of p = SmallAtomType" by (simp add: small(2))
  then show ?thesis
    using charge_ghosts(1,2) [OF assms(2), where h = "ghost_heap a + length v"] new_atom_room [OF assms(1)]
      live_atomI [of p a'] by (simp add: small(3))
next
  case shared
  then have "object_type_of p = BytesType" "live a p"
    using indexedD(2) [OF assms(2)] by (auto simp: intern_ok_def)
  with charge_ghosts(1-3) [OF assms(2), where h = "ghost_heap a + length v"] new_atom_room [OF assms(1)] shared(2)
  show ?thesis by auto
next
  case stored
  from push_span(1-4) [OF assms(2) _ stored(1-5,7,8)] new_atom_room [OF assms(1)] show ?thesis by simp
qed

lemma new_atom_contents:
  assumes "new_atom a v = Inr (a', p)" "indexed a" "contents_ok a"
  shows "contents_ok a'" "den a' p (Atom v)"
proof -
  have "contents_ok a' \<and> arena_atom a' p = Some v"
    using assms(1)
  proof (cases rule: new_atom_cases)
    case (small w)
    note f = fits_in_small_atom_Some [OF small(1)]
    have "of_nat (unat w) = w" by simp
    with f small have "arena_atom a' p = Some v" by (simp add: arena_atom_def)
    with charge_ghosts(5) [OF assms(2), where h = "ghost_heap a + length v"] new_atom_room [OF assms(1)] assms(3) small(3)
    show ?thesis by auto
  next
    case shared
    with assms(3) have "arena_atom a p = Some v" by (auto simp: contents_ok_def)
    with charge_ghosts(5,6) [OF assms(2), where h = "ghost_heap a + length v"] new_atom_room [OF assms(1)] assms(3) shared(2)
    show ?thesis by auto
  next
    case stored
    let ?s = "\<lparr>span_start = of_nat (length (u8_vec a)), span_end = of_nat (length (u8_vec a')) :: u32\<rparr>"
    have "length (u8_vec a') = length (u8_vec a) + length v" by (simp add: stored(1))
    then have u: "unat (span_start ?s) = length (u8_vec a)" "unat (span_end ?s) = length (u8_vec a) + length v"
      using new_atom_room [OF assms(1)] by (simp_all add: of_nat_heap del: of_nat_add)
    then have body: "span_bytes (u8_vec a') ?s = v" unfolding span_bytes_def u by (simp add: stored(1))
    from push_span(5,6) [OF assms(2) _ stored(1-5,7,8)] new_atom_room [OF assms(1)] assms(3) u body
    show ?thesis by (simp add: stored(1))
  qed
  with new_atom_indexed [OF assms(1,2)] show "contents_ok a'" "den a' p (Atom v)"
    by (auto simp: den_atom_iff)
qed

subsection \<open>Pairs\<close>

lemma new_pair_Inl: "new_pair a x y = Inl e \<Longrightarrow> e = TooManyPairs"
  by (auto simp: new_pair_def Let_def split: if_splits)

lemma new_pair_Inr:
  assumes "new_pair a x y = Inr (a', p)"
  shows "a' = a\<lparr>pair_vec := pair_vec a @ [\<lparr>ip_first = x, ip_rest = y\<rparr>]\<rparr>" "p = new_ptr PairType (length (pair_vec a))"
    "length (pair_vec a) + ghost_pairs a < MAX_NUM_PAIRS"
  using assms by (auto simp: new_pair_def Let_def split: if_splits)

lemma new_pair_counters:
  "new_pair a x y = Inr (a', p) \<Longrightarrow>
     counters a' = (length (atom_vec a) + ghost_atoms a, length (pair_vec a) + ghost_pairs a + 1, heap_used a)"
  by (drule new_pair_Inr(1)) (simp add: counters_def)

lemma new_pair_indexed:
  assumes "new_pair a x y = Inr (a', p)" "indexed a" "live a x" "live a y"
  shows "indexed a' \<and> grown a a' \<and> live a' p"
proof -
  note n = new_pair_Inr [OF assms(1)]
  have len: "length (pair_vec a) < 2 ^ 26" using indexedD(4) [OF assms(2)] .
  have grown: "grown a a'" by (simp add: n grown_def)
  have "pairs_ok a' (length (pair_vec a')) (length (atom_vec a'))"
    using indexedD(1) [OF assms(2)] assms(3,4)
    by (auto simp: n pairs_ok_def live_def nth_append less_Suc_eq)
  moreover have "intern_ok a'"
    using indexedD(2) [OF assms(2)] grown_live [OF grown] by (auto simp: intern_ok_def n)
  ultimately have "indexed a'" using assms(2) n(3) by (simp add: indexed_def n(1))
  with grown len show ?thesis by (simp add: n live_def below_def)
qed

lemma new_pair_contents:
  assumes "new_pair a x y = Inr (a', p)" "indexed a" "contents_ok a" "den a x s" "den a y t"
  shows "contents_ok a'" "den a' p (Pair s t)"
proof -
  note n = new_pair_Inr [OF assms(1)]
  note i = new_pair_indexed [OF assms(1,2) den_live [OF assms(4)] den_live [OF assms(5)]]
  show "contents_ok a'"
    using assms(3) pools_cong(1) [of a' a] by (simp add: contents_ok_def spans_ok_def) (simp add: n(1))
  have len: "length (pair_vec a) < 2 ^ 26" using indexedD(4) [OF assms(2)] .
  then have "node_kind_of a' p = PairNode x y" by (simp add: n node_kind_of_def)
  moreover have "object_type_of p = PairType" using len by (simp add: n)
  ultimately show "den a' p (Pair s t)"
    using i grown_den [OF _ assms(3)] assms(4,5) by (blast intro: den_pair)
qed

section \<open>Reading\<close>

lemma span_len_bytes:
  assumes "unat (span_start s) \<le> unat (span_end s)" "unat (span_end s) \<le> length h"
  shows "length (span_bytes h s) = span_len s" "span_len s = unat (span_end s) - unat (span_start s)"
  using assms by (simp_all add: span_bytes_def span_len_def unat_sub word_le_nat_alt)

lemma den_bytes_span:
  assumes "contents_ok a" "live a p" "object_type_of p = BytesType"
  shows "unat (span_start (atom_at a p)) \<le> unat (span_end (atom_at a p))"
    "unat (span_end (atom_at a p)) \<le> length (u8_vec a)"
  using assms spans_okD [of a "length (atom_vec a)" "length (u8_vec a)" "unat (ptr_index p)"]
  by (auto simp: contents_ok_def live_def below_def atom_at_def)

lemma read_atom:
  assumes "contents_ok a" "den a p (Atom b)"
  shows "arena_atom a p = Some b" "atom_len a p = Some (length b)" "arena_number a p = Some (sexp_number_from b)"
    "next_of a p = None" "nullp a p \<longleftrightarrow> b = []"
proof -
  from assms(2) have ty: "object_type_of p \<noteq> PairType" and live: "live a p" and b: "arena_atom a p = Some b"
    by (auto elim: den_AtomE)
  show "arena_atom a p = Some b" by (fact b)
  show "next_of a p = None" using ty by (simp add: next_of_def node_kind_atom)
  have len: "atom_len a p = Some (length b)"
  proof (cases "object_type_of p")
    case BytesType
    with span_len_bytes [OF den_bytes_span [OF assms(1) live BytesType]] b show ?thesis
      by (auto simp: arena_atom_def atom_len_def)
  next
    case SmallAtomType
    with b length_small_bytes [OF unat_ptr_index] show ?thesis by (auto simp: arena_atom_def atom_len_def)
  qed (use ty in simp)
  then show "atom_len a p = Some (length b)" .
  show "arena_number a p = Some (sexp_number_from b)"
    using b ty small_number [OF unat_ptr_index, of p]
    by (cases "object_type_of p") (auto simp: arena_atom_def arena_number_def)
  have "b = []" if "p = NIL" using b that by (simp add: arena_atom_def small_bytes_def len_for_value_def)
  with len show "nullp a p \<longleftrightarrow> b = []" by (auto simp: nullp_def)
qed

lemma read_pair:
  assumes "den a p (Pair s t)"
  shows "\<exists>x y. next_of a p = Some (x, y) \<and> node_kind_of a p = PairNode x y \<and> den a x s \<and> den a y t"
    "arena_atom a p = None" "atom_len a p = None" "arena_number a p = None" "\<not> nullp a p"
proof -
  from assms obtain x y where ty: "object_type_of p = PairType" and k: "node_kind_of a p = PairNode x y"
    and d: "den a x s" "den a y t" by (auto elim: den_PairE)
  then show "\<exists>x y. next_of a p = Some (x, y) \<and> node_kind_of a p = PairNode x y \<and> den a x s \<and> den a y t"
    by (auto simp: next_of_def)
  show "arena_atom a p = None" "atom_len a p = None" "arena_number a p = None"
    using ty by (simp_all add: arena_atom_def atom_len_def arena_number_def)
  moreover have "p \<noteq> NIL" using ty by auto
  ultimately show "\<not> nullp a p" by (simp add: nullp_def)
qed

lemma den_NIL_ONE: "den a NIL (Atom [])" "den a ONE (Atom [1])"
proof -
  have "small_bytes 0 = []" "small_bytes 1 = [1]"
    by (simp_all add: small_bytes_def len_for_value_def be_bytes_numeral word_less_nat_alt)
  then show "den a NIL (Atom [])" "den a ONE (Atom [1])"
    by (auto intro!: den_atom simp: arena_atom_def)
qed

section \<open>Substrings\<close>

lemma bounds_check_Inr [simp]:
  "bounds_check i j n = Inr u \<longleftrightarrow> unat i \<le> unat j \<and> unat j \<le> unat n"
  by (cases u) (auto simp: bounds_check_def word_less_nat_alt)

lemma bounds_check_Inl: "bounds_check i j n = Inl e \<longleftrightarrow> e = InvalidInput \<and> \<not> (unat i \<le> unat j \<and> unat j \<le> unat n)"
  by (auto simp: bounds_check_def word_less_nat_alt)

lemma new_substr_indexed:
  assumes "new_substr a p i j = Inr (a', q)" "indexed a"
  shows "indexed a' \<and> grown a a' \<and> live a' q"
proof (cases "object_type_of p")
  case BytesType
  let ?s = "\<lparr>span_start = span_start (atom_at a p) + i, span_end = span_start (atom_at a p) + j\<rparr>"
  from assms(1) BytesType have room: "length (atom_vec a) + ghost_atoms a \<noteq> MAX_NUM_ATOMS"
    and a': "a' = a\<lparr>atom_vec := atom_vec a @ [?s]\<rparr>" and q: "q = new_ptr BytesType (length (atom_vec a))"
    by (auto simp: new_substr_def Let_def bind_res_eq_Inr)
  from push_span(1-3) [OF assms(2) room, of a' "[]" ?s q] show ?thesis by (simp add: a' q)
next
  case SmallAtomType
  define sub where "sub = take (unat j - unat i) (drop (unat i) (small_bytes (ptr_index p)))"
  from assms(1) SmallAtomType have room: "length (atom_vec a) + ghost_atoms a \<noteq> MAX_NUM_ATOMS"
    by (auto simp: new_substr_def Let_def bind_res_eq_Inr)
  show ?thesis
  proof (cases "fits_in_small_atom sub")
    case None
    let ?s = "\<lparr>span_start = of_nat (length (u8_vec a)), span_end = of_nat (length (u8_vec a @ sub)) :: u32\<rparr>"
    from assms(1) SmallAtomType None have a': "a' = a\<lparr>u8_vec := u8_vec a @ sub, atom_vec := atom_vec a @ [?s]\<rparr>"
      and q: "q = new_ptr BytesType (length (atom_vec a))"
      by (auto simp: new_substr_def Let_def bind_res_eq_Inr sub_def)
    from push_span(1-3) [OF assms(2) room, of a' sub ?s q] show ?thesis by (simp add: a' q)
  next
    case (Some w)
    with assms(1) SmallAtomType have a': "a' = a\<lparr>ghost_atoms := ghost_atoms a + 1, ghost_heap := ghost_heap a\<rparr>"
      and q: "q = new_ptr SmallAtomType (unat w)"
      by (auto simp: new_substr_def Let_def bind_res_eq_Inr sub_def)
    have "object_type_of q = SmallAtomType" using fits_in_small_atom_Some(1) [OF Some] by (simp add: q)
    then show ?thesis
      using charge_ghosts(1,2) [OF assms(2) room, where h = "ghost_heap a"] live_atomI [of q a'] by (simp add: a')
  qed
qed (use assms in \<open>auto simp: new_substr_def bind_res_eq_Inr\<close>)

lemma new_substr_Inl:
  assumes "new_substr a p i j = Inl e" "contents_ok a" "den a p (Atom b)"
  shows "e = TooManyAtoms \<or> e = InvalidInput \<and> \<not> (unat i \<le> unat j \<and> unat j \<le> length b)"
proof -
  note r = read_atom [OF assms(2,3)]
  have "length b < 2 ^ 32 \<and> (object_type_of p = BytesType \<longrightarrow> unat (span_end (atom_at a p) - span_start (atom_at a p)) = length b) \<and>
    (object_type_of p = SmallAtomType \<longrightarrow> unat (of_nat (len_for_value (ptr_index p)) :: u32) = length b)"
    using r(1,2) len_for_value_bound(1) [OF unat_ptr_index, of p]
      unsigned_less [of "span_end (atom_at a p) - span_start (atom_at a p)", where ?'a = nat]
    by (cases "object_type_of p") (auto simp: atom_len_def arena_atom_def span_len_def unat_of_nat)
  moreover have "object_type_of p \<noteq> PairType" using assms(3) by (auto elim: den_AtomE)
  ultimately show ?thesis
    using assms(1)
    by (cases "object_type_of p")
      (auto simp: new_substr_def Let_def bind_res_eq_Inl check_atom_limit_def bounds_check_Inl split: if_splits option.splits)
qed

lemma new_substr_bytes:
  assumes "new_substr a p i j = Inr (a', q)" "indexed a" "contents_ok a" "den a p (Atom b)"
    and ty: "object_type_of p = BytesType"
  shows "contents_ok a' \<and> object_type_of q \<noteq> PairType \<and>
    arena_atom a' q = Some (take (unat j - unat i) (drop (unat i) b)) \<and> unat i \<le> unat j \<and> unat j \<le> length b"
proof -
  note r = read_atom [OF assms(3,4)]
  have live: "live a p" by (rule den_live [OF assms(4)])
  let ?sub = "take (unat j - unat i) (drop (unat i) b)"
  define s where "s = atom_at a p"
  note sp = den_bytes_span [OF assms(3) live ty, folded s_def]
  let ?s = "\<lparr>span_start = span_start s + i, span_end = span_start s + j\<rparr>"
  from assms(1) ty have room: "length (atom_vec a) + ghost_atoms a \<noteq> MAX_NUM_ATOMS"
    and a': "a' = a\<lparr>atom_vec := atom_vec a @ [?s]\<rparr>" and q: "q = new_ptr BytesType (length (atom_vec a))"
    and ij: "unat i \<le> unat j" "unat j \<le> unat (span_end s - span_start s)"
    by (auto simp: new_substr_def Let_def bind_res_eq_Inr s_def)
  have d: "unat (span_end s - span_start s) = unat (span_end s) - unat (span_start s)"
    using span_len_bytes(2) [OF sp] by (simp add: span_len_def)
  have b: "b = span_bytes (u8_vec a) s" "length b = unat (span_end s) - unat (span_start s)"
    using r(1,2) ty d by (auto simp: arena_atom_def atom_len_def span_len_def s_def)
  have u: "unat (span_start ?s) = unat (span_start s) + unat i" "unat (span_end ?s) = unat (span_start s) + unat j"
    using ij sp unsigned_less [of "span_end s", where ?'a = nat] unfolding d by (simp_all add: unat_add_small)
  have sub: "span_bytes (u8_vec a) ?s = ?sub"
    using ij unfolding span_bytes_def u b d by (simp add: take_drop ac_simps min_def)
  have "contents_ok a'"
    using push_span(6) [OF assms(2) room, of a' "[]" ?s q] assms(3) u ij sp d by (simp add: a' q)
  moreover have "arena_atom a' q = Some ?sub" "object_type_of q = BytesType"
    using push_span(4,5) [OF assms(2) room, of a' "[]" ?s q] sub by (simp_all add: a' q)
  ultimately show ?thesis using ij b d by simp
qed

text \<open>
  A substring of an inline atom that is not canonical is copied to the heap, and this path does not check the heap
  limit: the statement needs the heap to be within it afterwards.
\<close>

lemma new_substr_small:
  assumes "new_substr a p i j = Inr (a', q)" "indexed a" "contents_ok a" "den a p (Atom b)"
    and ty: "object_type_of p = SmallAtomType" and heap: "heap_used a' \<le> HEAP_LIMIT"
  shows "contents_ok a' \<and> object_type_of q \<noteq> PairType \<and>
    arena_atom a' q = Some (take (unat j - unat i) (drop (unat i) b)) \<and> unat i \<le> unat j \<and> unat j \<le> length b"
proof -
  note r = read_atom [OF assms(3,4)]
  define sub where "sub = take (unat j - unat i) (drop (unat i) b)"
  have b: "b = small_bytes (ptr_index p)" "length b \<le> 4"
    using r(1,2) ty len_for_value_bound(1) [OF unat_ptr_index, of p] by (auto simp: arena_atom_def atom_len_def)
  have len: "unat (of_nat (len_for_value (ptr_index p)) :: u32) = length b"
    using b r(2) ty by (auto simp: atom_len_def unat_of_nat)
  from assms(1) ty len have room: "length (atom_vec a) + ghost_atoms a \<noteq> MAX_NUM_ATOMS"
    and ij: "unat i \<le> unat j" "unat j \<le> length b"
    by (auto simp: new_substr_def Let_def bind_res_eq_Inr)
  have "contents_ok a' \<and> object_type_of q \<noteq> PairType \<and> arena_atom a' q = Some sub"
  proof (cases "fits_in_small_atom sub")
    case None
    let ?s = "\<lparr>span_start = of_nat (length (u8_vec a)), span_end = of_nat (length (u8_vec a @ sub)) :: u32\<rparr>"
    from assms(1) ty None b(1) have a': "a' = a\<lparr>u8_vec := u8_vec a @ sub, atom_vec := atom_vec a @ [?s]\<rparr>"
      and q: "q = new_ptr BytesType (length (atom_vec a))"
      by (auto simp: new_substr_def Let_def bind_res_eq_Inr sub_def)
    have h: "length (u8_vec a @ sub) \<le> HEAP_LIMIT" using heap by (simp add: a')
    then have u: "unat (span_start ?s) = length (u8_vec a)" "unat (span_end ?s) = length (u8_vec a) + length sub"
      using of_nat_heap [of "length (u8_vec a)"] of_nat_heap [OF h] by simp_all
    have body: "span_bytes (u8_vec a @ sub) ?s = sub" unfolding span_bytes_def u by simp
    show ?thesis
      using push_span(4-6) [OF assms(2) room, of a' sub ?s q] assms(3) u body by (simp add: a' q)
  next
    case (Some w)
    with assms(1) ty b(1) have a': "a' = a\<lparr>ghost_atoms := ghost_atoms a + 1, ghost_heap := ghost_heap a\<rparr>"
      and q: "q = new_ptr SmallAtomType (unat w)"
      by (auto simp: new_substr_def Let_def bind_res_eq_Inr sub_def)
    have "arena_atom a' q = Some sub" "object_type_of q = SmallAtomType"
      using fits_in_small_atom_Some [OF Some] by (simp_all add: q arena_atom_def)
    with charge_ghosts(5) [OF assms(2) room, where h = "ghost_heap a"] assms(3) show ?thesis by (simp add: a')
  qed
  with ij show ?thesis by (simp add: sub_def)
qed

lemma new_substr_contents:
  assumes "new_substr a p i j = Inr (a', q)" "indexed a" "contents_ok a" "den a p (Atom b)"
    and "heap_used a' \<le> HEAP_LIMIT"
  shows "contents_ok a'" "den a' q (Atom (take (unat j - unat i) (drop (unat i) b)))"
    "unat i \<le> unat j \<and> unat j \<le> length b"
proof -
  have ty: "object_type_of p \<noteq> PairType" using assms(4) by (auto elim: den_AtomE)
  have "contents_ok a' \<and> object_type_of q \<noteq> PairType \<and>
    arena_atom a' q = Some (take (unat j - unat i) (drop (unat i) b)) \<and> unat i \<le> unat j \<and> unat j \<le> length b"
  proof (cases "object_type_of p")
    case BytesType
    then show ?thesis by (rule new_substr_bytes [OF assms(1-4)])
  next
    case SmallAtomType
    then show ?thesis by (rule new_substr_small [OF assms(1-4) _ assms(5)])
  qed (use ty in simp)
  with new_substr_indexed [OF assms(1,2)] show "contents_ok a'"
    "den a' q (Atom (take (unat j - unat i) (drop (unat i) b)))" "unat i \<le> unat j \<and> unat j \<le> length b"
    by (auto intro: den_atom)
qed

section \<open>Concatenation\<close>

lemma concat_loop_spec:
  assumes "contents_ok a" "list_all2 (den a) nodes (map Atom bs)" "counter + length (concat bs) \<le> new_size"
  shows "concat_loop a new_size nodes (u8_vec a @ h) counter =
    Inr (u8_vec a @ h @ concat bs, counter + length (concat bs))"
  using assms(2,3)
proof (induction nodes arbitrary: bs h counter)
  case (Cons n nodes)
  then obtain b bs' where bs: "bs = b # bs'" and d: "den a n (Atom b)" and ds: "list_all2 (den a) nodes (map Atom bs')"
    by (cases bs) auto
  note r = read_atom [OF assms(1) d]
  from d have ty: "object_type_of n \<noteq> PairType" and live: "live a n" by (auto elim: den_AtomE)
  note IH = Cons.IH [OF ds, of "counter + length b" "h @ b"]
  show ?case
  proof (cases "object_type_of n")
    case BytesType
    note sp = den_bytes_span [OF assms(1) live BytesType]
    have "span_bytes (u8_vec a @ h) (atom_at a n) = b" "span_len (atom_at a n) = length b"
      using r(1,2) BytesType span_bytes_append [OF sp(2)] by (simp_all add: arena_atom_def atom_len_def)
    with BytesType IH Cons.prems(2) show ?thesis by (simp add: bs)
  next
    case SmallAtomType
    with r(1,2) have "small_bytes (ptr_index n) = b" "len_for_value (ptr_index n) = length b"
      by (simp_all add: arena_atom_def atom_len_def)
    with SmallAtomType IH Cons.prems(2) show ?thesis by (simp add: bs)
  qed (use ty in simp)
qed simp

lemma concat_loop_grows: "concat_loop a n ns h c = Inr (h', c') \<Longrightarrow> \<exists>xs. h' = h @ xs"
proof (induction ns arbitrary: h c)
  case (Cons p ns)
  then show ?case
    by (cases "object_type_of p") (fastforce simp: Let_def split: if_splits)+
qed simp

lemma new_concat_indexed:
  assumes "new_concat a n nodes = Inr (a', q)" "indexed a" "\<forall>p \<in> set nodes. live a p"
  shows "indexed a' \<and> grown a a' \<and> live a' q"
proof -
  from assms(1) have room: "length (atom_vec a) + ghost_atoms a \<noteq> MAX_NUM_ATOMS"
    by (auto simp: new_concat_def bind_res_eq_Inr)
  consider "nodes = []" | p where "nodes = [p]" | x y zs where "nodes = x # y # zs" by (metis list.exhaust)
  then show ?thesis
  proof cases
    case 1
    with assms(1) have "a' = a\<lparr>ghost_atoms := ghost_atoms a + 1, ghost_heap := ghost_heap a\<rparr>" "q = NIL"
      by (auto simp: new_concat_def Let_def bind_res_eq_Inr split: if_splits)
    with charge_ghosts(1,2) [OF assms(2) room, where h = "ghost_heap a"] show ?thesis by simp
  next
    case 2
    with assms(1) have "a' = a\<lparr>ghost_atoms := ghost_atoms a + 1, ghost_heap := ghost_heap a + n\<rparr>" "q = p"
      by (auto simp: new_concat_def Let_def bind_res_eq_Inr split: if_splits)
    with charge_ghosts(1-3) [OF assms(2) room, where h = "ghost_heap a + n"] 2 assms(3) show ?thesis by simp
  next
    case 3
    from 3 assms(1) obtain h' c' where l: "concat_loop a n nodes (u8_vec a) 0 = Inr (h', c')"
      and a': "a' = a\<lparr>u8_vec := h', atom_vec := atom_vec a @
           [\<lparr>span_start = of_nat (length (u8_vec a)), span_end = of_nat (length h')\<rparr>]\<rparr>"
      and q: "q = new_ptr BytesType (length (atom_vec a))"
      by (auto simp: new_concat_def Let_def bind_res_eq_Inr simp del: concat_loop.simps split: if_splits)
    from concat_loop_grows [OF l] obtain xs where xs: "h' = u8_vec a @ xs" by blast
    from push_span(1-3) [OF assms(2) room, of a' xs _ q] show ?thesis by (simp add: a' q xs)
  qed
qed

lemma new_concat_spec:
  assumes "indexed a" "contents_ok a" "list_all2 (den a) nodes (map Atom bs)" "n = length (concat bs)"
  shows "new_concat a n nodes \<in> {Inl TooManyAtoms, Inl OutOfMemory} \<or>
    (\<exists>a' q. new_concat a n nodes = Inr (a', q) \<and> contents_ok a' \<and> den a' q (Atom (concat bs)) \<and>
       heap_used a' = heap_used a + n)"
proof (cases "length (atom_vec a) + ghost_atoms a = MAX_NUM_ATOMS \<or> heap_used a + n > HEAP_LIMIT")
  case True
  then show ?thesis by (auto simp: new_concat_def check_atom_limit_def Let_def)
next
  case room: False
  have "\<forall>p \<in> set nodes. live a p"
    using assms(3) den_live by (fastforce simp: list_all2_conv_all_nth in_set_conv_nth)
  note idx = new_concat_indexed [OF _ assms(1) this, of n]
  consider "nodes = []" | p where "nodes = [p]" | x y zs where "nodes = x # y # zs" by (metis list.exhaust)
  then show ?thesis
  proof cases
    case 1
    with assms(3,4) have "bs = []" "n = 0" by auto
    with 1 room have "new_concat a n nodes = Inr (a\<lparr>ghost_atoms := ghost_atoms a + 1, ghost_heap := ghost_heap a\<rparr>, NIL)"
      by (simp add: new_concat_def check_atom_limit_def)
    with charge_ghosts(5) [OF assms(1), where h = "ghost_heap a"] room assms(2) den_NIL_ONE(1) \<open>bs = []\<close> \<open>n = 0\<close>
    show ?thesis by auto
  next
    case 2
    with assms(3,4) obtain b where b: "bs = [b]" "n = length b" "den a p (Atom b)" by (cases bs) auto
    let ?a = "a\<lparr>ghost_atoms := ghost_atoms a + 1, ghost_heap := ghost_heap a + n\<rparr>"
    have "new_concat a n nodes = Inr (?a, p)"
      using 2 b room read_atom(2) [OF assms(2) b(3)] by (simp add: new_concat_def check_atom_limit_def)
    with charge_ghosts(4,5) [OF assms(1), where h = "ghost_heap a + n"] room assms(2) b show ?thesis by simp
  next
    case 3
    let ?h = "u8_vec a @ concat bs"
    let ?s = "\<lparr>span_start = of_nat (length (u8_vec a)), span_end = of_nat (length ?h) :: u32\<rparr>"
    let ?a = "a\<lparr>u8_vec := ?h, atom_vec := atom_vec a @ [?s]\<rparr>"
    let ?q = "new_ptr BytesType (length (atom_vec a))"
    have eq: "new_concat a n nodes = Inr (?a, ?q)"
      using 3 room concat_loop_spec [OF assms(2,3), of 0 n "[]"] assms(4)
      by (simp add: new_concat_def check_atom_limit_def Let_def del: concat_loop.simps)
    have "length ?h \<le> HEAP_LIMIT" using room assms(4) by simp
    from of_nat_heap [OF this] of_nat_heap [of "length (u8_vec a)"] this
    have u: "unat (span_start ?s) = length (u8_vec a)" "unat (span_end ?s) = length (u8_vec a) + length (concat bs)"
      by simp_all
    have body: "span_bytes ?h ?s = concat bs" unfolding span_bytes_def u by simp
    have "contents_ok ?a"
      using push_span(6) [OF assms(1), of ?a "concat bs" ?s ?q] room assms(2) u by simp
    moreover have "arena_atom ?a ?q = Some (concat bs)" "object_type_of ?q = BytesType"
      using push_span(4,5) [OF assms(1), of ?a "concat bs" ?s ?q] room body by simp_all
    ultimately show ?thesis
      using eq idx [OF eq] assms(4) by (auto intro: den_atom)
  qed
qed

section \<open>Numbers\<close>

lemma new_number_atom: "new_number a n = new_atom a (number_bytes n)"
  by (cases n) (auto simp: new_number_def number_bytes_def bigint_sign_def sgn_0_0)

section \<open>Trees in and out\<close>

fun n_atoms :: "sexp \<Rightarrow> nat" where
  "n_atoms (Atom b) = 1"
| "n_atoms (Pair s t) = n_atoms s + n_atoms t"

fun n_pairs :: "sexp \<Rightarrow> nat" where
  "n_pairs (Atom b) = 0"
| "n_pairs (Pair s t) = n_pairs s + n_pairs t + 1"

fun n_bytes :: "sexp \<Rightarrow> nat" where
  "n_bytes (Atom b) = length b"
| "n_bytes (Pair s t) = n_bytes s + n_bytes t"

definition resource_error :: "vm_error \<Rightarrow> bool" where
  "resource_error e \<longleftrightarrow> e = TooManyAtoms \<or> e = TooManyPairs \<or> e = OutOfMemory"

definition charged :: "arena \<Rightarrow> arena \<Rightarrow> nat \<Rightarrow> nat \<Rightarrow> nat \<Rightarrow> bool" where
  "charged a a' da dp dh \<longleftrightarrow> length (atom_vec a') + ghost_atoms a' = length (atom_vec a) + ghost_atoms a + da \<and>
     length (pair_vec a') + ghost_pairs a' = length (pair_vec a) + ghost_pairs a + dp \<and> heap_used a' = heap_used a + dh"

text \<open>Building the tree on top of the job stack, then going on with the rest.\<close>

lemma import_loop_visit:
  assumes "indexed a"
  shows "(\<exists>a' e. import_loop (ImportVisit s # jobs) out a = (a', Inl e) \<and> resource_error e) \<or>
    (\<exists>a' p. import_loop (ImportVisit s # jobs) out a = import_loop jobs (p # out) a' \<and> indexed a' \<and> grown a a' \<and>
       live a' p \<and> charged a a' (n_atoms s) (n_pairs s) (n_bytes s) \<and>
       (contents_ok a \<longrightarrow> contents_ok a' \<and> den a' p s))"
  using assms
proof (induction s arbitrary: jobs out a)
  case (Atom b)
  show ?case
  proof (cases "new_atom a b")
    case (Inl e)
    then show ?thesis using new_atom_Inl [OF Inl] by (auto simp: resource_error_def)
  next
    case (Inr r)
    then obtain a' p where n: "new_atom a b = Inr (a', p)" by (cases r) auto
    from new_atom_counters [OF n] have "charged a a' 1 0 (length b)" by (simp add: charged_def counters_def)
    with n new_atom_indexed [OF n Atom] new_atom_contents [OF n Atom] show ?thesis by auto
  qed
next
  case (Pair s t)
  let ?js = "ImportVisit t # ImportBuild # jobs"
  from Pair.IH(1) [OF Pair.prems, of ?js out]
  show ?case
  proof (elim disjE exE conjE, goal_cases)
    case (1 a' e)
    then show ?thesis by auto
  next
    case (2 a1 p)
    note one = 2
    from Pair.IH(2) [OF one(2), of "ImportBuild # jobs" "p # out"]
    show ?thesis
    proof (elim disjE exE conjE, goal_cases)
      case (1 a' e)
      with one(1) show ?thesis by auto
    next
      case (2 a2 q)
      have live: "live a2 p" "live a2 q" using grown_live [OF 2(3) one(4)] 2(4) by auto
      show ?thesis
      proof (cases "new_pair a2 p q")
        case (Inl e)
        with one(1) 2(1) new_pair_Inl [OF Inl] show ?thesis by (auto simp: resource_error_def)
      next
        case (Inr r)
        then obtain a3 z where n: "new_pair a2 p q = Inr (a3, z)" by (cases r) auto
        note i = new_pair_indexed [OF n 2(2) live]
        have c: "charged a a3 (n_atoms s + n_atoms t) (n_pairs s + n_pairs t + 1) (n_bytes s + n_bytes t)"
          using one(5) 2(5) new_pair_counters [OF n] by (simp add: charged_def counters_def)
        have d: "contents_ok a3 \<and> den a3 z (Pair s t)" if "contents_ok a"
        proof -
          from one(6) that have "contents_ok a1" "den a1 p s" by auto
          with 2(3,6) have "contents_ok a2" "den a2 q t" "den a2 p s" using grown_den by auto
          with new_pair_contents [OF n 2(2)] show ?thesis by blast
        qed
        have "grown a a3" using one(3) 2(3) i grown_trans by blast
        moreover have "import_loop (ImportVisit (Pair s t) # jobs) out a = import_loop jobs (z # out) a3"
          using one(1) 2(1) n by simp
        ultimately show ?thesis using i c d by (auto simp del: import_loop.simps)
      qed
    qed
  qed
qed

lemma export_loop_visit:
  assumes "den a p s"
  shows "export_loop a (ExportVisit p # jobs) out = export_loop a jobs (s # out)"
  using assms
proof (induction arbitrary: jobs out rule: den.induct)
  case (den_atom p b)
  then show ?case by (subst export_loop.simps) (simp add: node_kind_atom)
next
  case (den_pair p x y s t)
  have "export_loop a (ExportVisit p # jobs) out = export_loop a (ExportBuild # jobs) (t # s # out)"
    by (subst export_loop.simps) (simp add: den_pair)
  also have "\<dots> = export_loop a jobs (Pair s t # out)" by (subst export_loop.simps) simp
  finally show ?case .
qed

lemma export_den: "den a p s \<Longrightarrow> export a p = Some (Inr s)"
  by (simp add: export_def export_loop_visit) (subst export_loop.simps, simp)

lemma import_outcome:
  assumes "indexed a"
  shows "(\<exists>a' e. import a s = (a', Inl e) \<and> resource_error e) \<or>
    (\<exists>a' p. import a s = (a', Inr p) \<and> indexed a' \<and> grown a a' \<and> live a' p \<and>
       charged a a' (n_atoms s) (n_pairs s) (n_bytes s) \<and> (contents_ok a \<longrightarrow> contents_ok a' \<and> den a' p s))"
  using import_loop_visit [OF assms, of s "[]" "[]"] by (auto simp: import_def)

lemma new_arena_ok: "indexed (reset_arena a)" "contents_ok (reset_arena a)"
  by (simp_all add: reset_arena_def indexed_def pairs_ok_def intern_ok_def contents_ok_def spans_ok_def
      MAX_NUM_ATOMS_def)


end
