(* ===== verification/OpsSound.thy ===== *)
theory OpsSound
  imports ClvmRuntime ArenaSound
begin

text \<open>
  Operators and memory. Every operator is parametric in the nodes it reads: on related views it returns related
  results (the transfer rules), so on a node of an arena it does what it does on the tree the node denotes. The
  locale \<open>view_sim\<close> states what a provider of nodes promises, with the arena and plain trees as its instances.
\<close>

section \<open>Related views\<close>

text \<open>Two views are related when their accessors are; every operator then gives related results.\<close>

definition vrel :: "('n \<Rightarrow> 'm \<Rightarrow> bool) \<Rightarrow> 'n view \<Rightarrow> 'm view \<Rightarrow> bool" where
  "vrel R v w \<longleftrightarrow> rel_fun R (rel_option (rel_prod R R)) (v_next v) (v_next w) \<and> rel_fun R (=) (v_atom v) (v_atom w) \<and>
     rel_fun R (=) (v_len v) (v_len w) \<and> rel_fun R (=) (v_number v) (v_number w) \<and>
     rel_fun R (=) (v_nullp v) (v_nullp w) \<and> R (v_nil v) (v_nil w) \<and> R (v_one v) (v_one w)"

abbreviation rel_out :: "('n \<Rightarrow> 'm \<Rightarrow> bool) \<Rightarrow> 'n op_result \<Rightarrow> 'm op_result \<Rightarrow> bool" where
  "rel_out R \<equiv> rel_sum (=) (rel_prod (=) (rel_op_out R))"

lemma view_transfer [transfer_rule]:
  "rel_fun (vrel R) (rel_fun R (rel_option (rel_prod R R))) v_next v_next"
  "rel_fun (vrel R) (rel_fun R (=)) v_atom v_atom"
  "rel_fun (vrel R) (rel_fun R (=)) v_len v_len"
  "rel_fun (vrel R) (rel_fun R (=)) v_number v_number"
  "rel_fun (vrel R) (rel_fun R (=)) v_nullp v_nullp"
  "rel_fun (vrel R) R v_nil v_nil"
  "rel_fun (vrel R) R v_one v_one"
  by (intro rel_funI [of "vrel R"]; simp add: vrel_def)+

lemma bind_res_transfer [transfer_rule]:
  "rel_fun (rel_sum E A) (rel_fun (rel_fun A (rel_sum E B)) (rel_sum E B)) bind_res bind_res"
  unfolding bind_res_def [abs_def] by transfer_prover

lemma ok_or_transfer [transfer_rule]: "rel_fun (rel_option A) (rel_fun E (rel_sum E A)) ok_or ok_or"
  unfolding ok_or_def [abs_def] by transfer_prover

lemma bind_opt_transfer [transfer_rule]:
  "rel_fun (rel_option (rel_sum E A)) (rel_fun (rel_fun A (rel_option (rel_sum E B))) (rel_option (rel_sum E B)))
     bind_opt bind_opt"
  unfolding bind_opt_def [abs_def] Option.bind_def [abs_def] by transfer_prover

lemma split_node_transfer [transfer_rule]:
  "rel_fun (vrel R) (rel_fun R (rel_sum (=) (rel_prod R R))) split_node split_node"
  unfolding split_node_def [abs_def] by transfer_prover

lemma vrelD:
  assumes "vrel R v w" "R p q"
  shows "rel_option (rel_prod R R) (v_next v p) (v_next w q)" "v_nullp v p = v_nullp w q" "v_atom v p = v_atom w q"
  using assms by (auto simp: vrel_def rel_fun_def)

lemma arg_count_loop_rel:
  assumes "vrel R v w"
  shows "R p q \<Longrightarrow> arg_count_loop v p k n = arg_count_loop w q k n"
proof (induction "n - k" arbitrary: p q k rule: less_induct)
  case less
  from vrelD(1) [OF assms less.prems] show ?case
  proof (cases rule: option.rel_cases)
    case None
    then show ?thesis by (subst (1 2) arg_count_loop.simps) simp
  next
    case (Some x y)
    then have "R (snd x) (snd y)" by (auto elim!: rel_prod.cases)
    with Some less.hyps [of "k + 1" "snd x" "snd y"] show ?thesis
      by (subst (1 2) arg_count_loop.simps) (auto simp: split_beta)
  qed
qed

lemma arg_count_transfer [transfer_rule]:
  "rel_fun (vrel R) (rel_fun R (rel_fun (=) (=))) arg_count arg_count"
  by (intro rel_funI) (simp add: arg_count_def arg_count_loop_rel)

lemma check_arg_count_transfer [transfer_rule]:
  "rel_fun (vrel R) (rel_fun R (rel_fun (=) (rel_fun (=) (=)))) check_arg_count check_arg_count"
  by (intro rel_funI) (simp add: check_arg_count_def arg_count_def arg_count_loop_rel)

lemma arg_count_is_rel: "vrel R v w \<Longrightarrow> R p q \<Longrightarrow> arg_count_is v p n = arg_count_is w q n"
proof (induction n arbitrary: p q)
  case (Suc n)
  from vrelD(1) [OF Suc.prems] Suc.IH [OF Suc.prems(1)] show ?case
    by (cases rule: option.rel_cases) auto
qed (simp add: vrelD(2))

section \<open>Loops\<close>

text \<open>A loop that returns does so within a number of rounds, and related loops take the same rounds.\<close>

fun cursor_rounds :: "nat \<Rightarrow> 'n view \<Rightarrow> ('acc \<Rightarrow> 'n \<Rightarrow> vm_error + 'acc) \<Rightarrow> 'n arg_cursor \<Rightarrow> 'acc \<Rightarrow>
    (vm_error + 'acc) option" where
  "cursor_rounds 0 v f c acc = None"
| "cursor_rounds (Suc n) v f c acc = (case cursor_next v c of
     (None, _) \<Rightarrow> Some (Inr acc)
   | (Some arg, c') \<Rightarrow> (case f acc arg of Inl e \<Rightarrow> Some (Inl e) | Inr acc' \<Rightarrow> cursor_rounds n v f c' acc'))"

fun pair_rounds :: "nat \<Rightarrow> 'n view \<Rightarrow> ('acc \<Rightarrow> 'n \<Rightarrow> vm_error + 'acc) \<Rightarrow> 'n \<Rightarrow> 'acc \<Rightarrow> (vm_error + 'acc) option" where
  "pair_rounds 0 v f p acc = None"
| "pair_rounds (Suc n) v f p acc = (case v_next v p of
     None \<Rightarrow> Some (Inr acc)
   | Some (x, y) \<Rightarrow> (case f acc x of Inl e \<Rightarrow> Some (Inl e) | Inr acc' \<Rightarrow> pair_rounds n v f y acc'))"

fun two_rounds :: "nat \<Rightarrow> 'n view \<Rightarrow> ('acc \<Rightarrow> 'n \<Rightarrow> vm_error + 'acc \<times> 'n) \<Rightarrow> 'n \<Rightarrow> 'acc \<Rightarrow>
    (vm_error + 'acc) option" where
  "two_rounds 0 v f p acc = None"
| "two_rounds (Suc n) v f p acc =
     (if v_nullp v p then Some (Inr acc)
      else case f acc p of Inl e \<Rightarrow> Some (Inl e) | Inr (acc', q) \<Rightarrow> two_rounds n v f q acc')"


lemma loop_rel:
  assumes "\<And>r. x = Some r \<longleftrightarrow> (\<exists>n. f n = Some r)" "\<And>r. y = Some r \<longleftrightarrow> (\<exists>n. g n = Some r)" "\<And>n. rel_option Q (f n) (g n)"
  shows "rel_option Q x y"
proof (cases x)
  case None
  have "g n = None" for n using assms(1,3) None by (metis option.exhaust option.rel_distinct(1))
  with None assms(2) show ?thesis by (metis option.exhaust option.rel_inject(1) option.simps(3))
next
  case (Some r)
  with assms(1) obtain n where "f n = Some r" by blast
  with assms(3) [of n] obtain r' where "g n = Some r'" "Q r r'" by (cases "g n") auto
  with assms(2) have "y = Some r'" by blast
  with Some \<open>Q r r'\<close> show ?thesis by simp
qed

lemma cursor_loop_iff:
  fixes v :: "'n view" and acc :: 'acc
  shows "cursor_loop v f c acc = Some r \<longleftrightarrow> (\<exists>n. cursor_rounds n v f c acc = Some r)"
proof
  show "\<exists>n. cursor_rounds n v f c acc = Some r" if "cursor_loop v f c acc = Some r"
  proof (rule cursor_loop.raw_induct [where P = "\<lambda>v f c acc r. \<exists>n. cursor_rounds n v f c acc = Some r", OF _ that])
    fix loop and v :: "'n view" and f c and acc :: 'acc and r
    assume IH: "\<And>v f c acc r. loop v f c acc = Some r \<Longrightarrow> \<exists>n. cursor_rounds n v f c acc = Some r"
      and eq: "(case cursor_next v c of (None, _) \<Rightarrow> Some (Inr acc)
        | (Some arg, c') \<Rightarrow> (case f acc arg of Inl e \<Rightarrow> Some (Inl e) | Inr acc' \<Rightarrow> loop v f c' acc')) = Some r"
    show "\<exists>n. cursor_rounds n v f c acc = Some r"
    proof (cases "\<exists>arg c' acc'. cursor_next v c = (Some arg, c') \<and> f acc arg = Inr acc'")
      case True
      then obtain arg c' acc' where next_arg: "cursor_next v c = (Some arg, c')" "f acc arg = Inr acc'" by blast
      with eq have "loop v f c' acc' = Some r" by simp
      then obtain n where "cursor_rounds n v f c' acc' = Some r" using IH by blast
      with next_arg show ?thesis by (intro exI [of _ "Suc n"]) simp
    next
      case False
      with eq have "cursor_rounds (Suc 0) v f c acc = Some r" by (auto split: prod.splits option.splits sum.splits)
      then show ?thesis by blast
    qed
  qed
  show "cursor_loop v f c acc = Some r" if "\<exists>n. cursor_rounds n v f c acc = Some r"
  proof -
    from that obtain n where "cursor_rounds n v f c acc = Some r" by blast
    then show ?thesis
      by (induction n arbitrary: c acc) (simp, subst cursor_loop.simps, auto split: prod.splits option.splits sum.splits)
  qed
qed

lemma pair_loop_iff:
  fixes v :: "'n view" and acc :: 'acc
  shows "pair_loop v f p acc = Some r \<longleftrightarrow> (\<exists>n. pair_rounds n v f p acc = Some r)"
proof
  show "\<exists>n. pair_rounds n v f p acc = Some r" if "pair_loop v f p acc = Some r"
  proof (rule pair_loop.raw_induct [where P = "\<lambda>v f p acc r. \<exists>n. pair_rounds n v f p acc = Some r", OF _ that])
    fix loop and v :: "'n view" and f p and acc :: 'acc and r
    assume IH: "\<And>v f p acc r. loop v f p acc = Some r \<Longrightarrow> \<exists>n. pair_rounds n v f p acc = Some r"
      and eq: "(case v_next v p of None \<Rightarrow> Some (Inr acc)
        | Some (first, rest) \<Rightarrow> (case f acc first of Inl e \<Rightarrow> Some (Inl e) | Inr acc' \<Rightarrow> loop v f rest acc')) = Some r"
    show "\<exists>n. pair_rounds n v f p acc = Some r"
    proof (cases "\<exists>x y acc'. v_next v p = Some (x, y) \<and> f acc x = Inr acc'")
      case True
      then obtain x y acc' where next_arg: "v_next v p = Some (x, y)" "f acc x = Inr acc'" by blast
      with eq have "loop v f y acc' = Some r" by simp
      then obtain n where "pair_rounds n v f y acc' = Some r" using IH by blast
      with next_arg show ?thesis by (intro exI [of _ "Suc n"]) simp
    next
      case False
      with eq have "pair_rounds (Suc 0) v f p acc = Some r" by (auto split: prod.splits option.splits sum.splits)
      then show ?thesis by blast
    qed
  qed
  show "pair_loop v f p acc = Some r" if "\<exists>n. pair_rounds n v f p acc = Some r"
  proof -
    from that obtain n where "pair_rounds n v f p acc = Some r" by blast
    then show ?thesis
      by (induction n arbitrary: p acc) (simp, subst pair_loop.simps, auto split: prod.splits option.splits sum.splits)
  qed
qed

lemma two_by_two_iff:
  fixes v :: "'n view" and acc :: 'acc
  shows "two_by_two v f p acc = Some r \<longleftrightarrow> (\<exists>n. two_rounds n v f p acc = Some r)"
proof
  show "\<exists>n. two_rounds n v f p acc = Some r" if "two_by_two v f p acc = Some r"
  proof (rule two_by_two.raw_induct [where P = "\<lambda>v f p acc r. \<exists>n. two_rounds n v f p acc = Some r", OF _ that])
    fix loop and v :: "'n view" and f p and acc :: 'acc and r
    assume IH: "\<And>v f p acc r. loop v f p acc = Some r \<Longrightarrow> \<exists>n. two_rounds n v f p acc = Some r"
      and eq: "(if v_nullp v p then Some (Inr acc)
        else case f acc p of Inl e \<Rightarrow> Some (Inl e) | Inr (acc', q) \<Rightarrow> loop v f q acc') = Some r"
    show "\<exists>n. two_rounds n v f p acc = Some r"
    proof (cases "\<exists>acc' q. \<not> v_nullp v p \<and> f acc p = Inr (acc', q)")
      case True
      then obtain acc' q where next_arg: "\<not> v_nullp v p" "f acc p = Inr (acc', q)" by blast
      with eq have "loop v f q acc' = Some r" by simp
      then obtain n where "two_rounds n v f q acc' = Some r" using IH by blast
      with next_arg show ?thesis by (intro exI [of _ "Suc n"]) simp
    next
      case False
      with eq have "two_rounds (Suc 0) v f p acc = Some r" by (auto split: prod.splits if_splits sum.splits)
      then show ?thesis by blast
    qed
  qed
  show "two_by_two v f p acc = Some r" if "\<exists>n. two_rounds n v f p acc = Some r"
  proof -
    from that obtain n where "two_rounds n v f p acc = Some r" by blast
    then show ?thesis
      by (induction n arbitrary: p acc) (simp, subst two_by_two.simps, auto split: prod.splits if_splits sum.splits)
  qed
qed

section \<open>Related loops\<close>

definition crel :: "('n \<Rightarrow> 'm \<Rightarrow> bool) \<Rightarrow> 'n arg_cursor \<Rightarrow> 'm arg_cursor \<Rightarrow> bool" where
  "crel R c c' \<longleftrightarrow> (\<exists>p q b. c = ArgCursor p b \<and> c' = ArgCursor q b \<and> R p q)"

lemma cursor_new_transfer [transfer_rule]: "rel_fun R (crel R) cursor_new cursor_new"
  by (auto simp: rel_fun_def crel_def cursor_new_def)

lemma cursor_next_rel:
  assumes "vrel R v w" "crel R c c'"
  shows "rel_prod (rel_option R) (crel R) (cursor_next v c) (cursor_next w c')"
proof -
  from assms(2) obtain p q b where c: "c = ArgCursor p b" "c' = ArgCursor q b" "R p q" by (auto simp: crel_def)
  from vrelD(1) [OF assms(1) c(3)] show ?thesis
    using c vrelD(2) [OF assms(1) c(3)] by (cases rule: option.rel_cases) (auto simp: crel_def)
qed

lemma cursor_rounds_rel:
  assumes "vrel R v w" "rel_fun A (rel_fun R (rel_sum (=) A)) f g"
  shows "crel R c c' \<Longrightarrow> A acc acc' \<Longrightarrow>
    rel_option (rel_sum (=) A) (cursor_rounds n v f c acc) (cursor_rounds n w g c' acc')"
proof (induction n arbitrary: c c' acc acc')
  case (Suc n)
  from cursor_next_rel [OF assms(1) Suc.prems(1)] show ?case
  proof (cases rule: rel_prod.cases)
    case (1 o1 o2 d d')
    from \<open>rel_option R o1 o2\<close> show ?thesis
    proof (cases rule: option.rel_cases)
      case None
      with 1 Suc.prems show ?thesis by simp
    next
      case (Some x y)
      from assms(2) [THEN rel_funD, OF Suc.prems(2), THEN rel_funD, OF Some(3)] show ?thesis
        using 1 Some Suc.IH by (cases rule: rel_sum.cases) auto
    qed
  qed
qed simp

lemma cursor_loop_transfer [transfer_rule]:
  "rel_fun (vrel R) (rel_fun (rel_fun A (rel_fun R (rel_sum (=) A))) (rel_fun (crel R)
     (rel_fun A (rel_option (rel_sum (=) A))))) cursor_loop cursor_loop"
  by (intro rel_funI, rule loop_rel [OF cursor_loop_iff cursor_loop_iff], rule cursor_rounds_rel)

lemma pair_rounds_rel:
  assumes "vrel R v w" "rel_fun A (rel_fun R (rel_sum (=) A)) f g"
  shows "R p q \<Longrightarrow> A acc acc' \<Longrightarrow> rel_option (rel_sum (=) A) (pair_rounds n v f p acc) (pair_rounds n w g q acc')"
proof (induction n arbitrary: p q acc acc')
  case (Suc n)
  from vrelD(1) [OF assms(1) Suc.prems(1)] show ?case
  proof (cases rule: option.rel_cases)
    case None
    with Suc.prems show ?thesis by simp
  next
    case (Some x y)
    then have "R (fst x) (fst y)" "R (snd x) (snd y)" by (auto elim!: rel_prod.cases)
    from assms(2) [THEN rel_funD, OF Suc.prems(2), THEN rel_funD, OF this(1)] show ?thesis
      using Some Suc.IH [OF \<open>R (snd x) (snd y)\<close>] by (cases rule: rel_sum.cases) (auto simp: split_beta)
  qed
qed simp

lemma pair_loop_transfer [transfer_rule]:
  "rel_fun (vrel R) (rel_fun (rel_fun A (rel_fun R (rel_sum (=) A))) (rel_fun R
     (rel_fun A (rel_option (rel_sum (=) A))))) pair_loop pair_loop"
  by (intro rel_funI, rule loop_rel [OF pair_loop_iff pair_loop_iff], rule pair_rounds_rel)

lemma two_rounds_rel:
  assumes "vrel R v w" "rel_fun A (rel_fun R (rel_sum (=) (rel_prod A R))) f g"
  shows "R p q \<Longrightarrow> A acc acc' \<Longrightarrow> rel_option (rel_sum (=) A) (two_rounds n v f p acc) (two_rounds n w g q acc')"
proof (induction n arbitrary: p q acc acc')
  case (Suc n)
  from assms(2) [THEN rel_funD, OF Suc.prems(2), THEN rel_funD, OF Suc.prems(1)] show ?case
    using Suc vrelD(2) [OF assms(1) Suc.prems(1)] by (cases rule: rel_sum.cases) (auto elim!: rel_prod.cases)
qed simp

lemma two_by_two_transfer [transfer_rule]:
  "rel_fun (vrel R) (rel_fun (rel_fun A (rel_fun R (rel_sum (=) (rel_prod A R)))) (rel_fun R
     (rel_fun A (rel_option (rel_sum (=) A))))) two_by_two two_by_two"
  by (intro rel_funI, rule loop_rel [OF two_by_two_iff two_by_two_iff], rule two_rounds_rel)

section \<open>Operators\<close>

text \<open>Every operator gives related results on related views.\<close>

lemma int_atom_transfer [transfer_rule]: "rel_fun (vrel R) (rel_fun R (rel_sum (=) (=))) int_atom int_atom"
  unfolding int_atom_def [abs_def] by transfer_prover

lemma atom_arg_transfer [transfer_rule]: "rel_fun (vrel R) (rel_fun R (rel_sum (=) (=))) atom_arg atom_arg"
  unfolding atom_arg_def [abs_def] by transfer_prover

lemma number_with_len_transfer [transfer_rule]:
  "rel_fun (vrel R) (rel_fun R (rel_sum (=) (rel_prod (=) (=)))) number_with_len number_with_len"
  unfolding number_with_len_def [abs_def] by transfer_prover

lemma two_ints_transfer [transfer_rule]:
  "rel_fun (vrel R) (rel_fun R (rel_fun (=) (rel_sum (=) (rel_prod (rel_prod (=) (=)) (rel_prod (=) (=))))))
     two_ints two_ints"
  unfolding two_ints_def [abs_def] by transfer_prover

lemma i32_atom_transfer [transfer_rule]: "rel_fun (vrel R) (rel_fun R (rel_sum (=) (=))) i32_atom i32_atom"
  unfolding i32_atom_def [abs_def] by transfer_prover

lemma as_atom_list_transfer [transfer_rule]:
  "rel_fun (vrel R) (rel_fun R (rel_option (=))) as_atom_list as_atom_list"
  unfolding as_atom_list_def [abs_def] by transfer_prover

lemma new_atom_and_cost_transfer [transfer_rule]:
  "rel_fun (=) (rel_fun (=) (rel_out R)) new_atom_and_cost new_atom_and_cost"
  unfolding new_atom_and_cost_def [abs_def] by transfer_prover

lemma malloc_transfer [transfer_rule]:
  "rel_fun (=) (rel_fun (=) (rel_out R)) malloc_number malloc_number"
  "rel_fun (=) (rel_fun (=) (rel_out R)) malloc_bigint malloc_bigint"
  unfolding malloc_number_def [abs_def] malloc_bigint_def [abs_def] by transfer_prover+

lemma core_ops_transfer [transfer_rule]:
  "rel_fun (vrel R) (rel_fun R (rel_out R)) op_if op_if"
  "rel_fun (vrel R) (rel_fun R (rel_out R)) op_cons op_cons"
  "rel_fun (vrel R) (rel_fun R (rel_out R)) op_first op_first"
  "rel_fun (vrel R) (rel_fun R (rel_out R)) op_rest op_rest"
  "rel_fun (vrel R) (rel_fun R (rel_out R)) op_listp op_listp"
  "rel_fun (vrel R) (rel_fun R (rel_out R)) op_raise op_raise"
  "rel_fun (vrel R) (rel_fun R (rel_out R)) op_eq op_eq"
  unfolding op_if_def [abs_def] op_cons_def [abs_def] op_first_def [abs_def] op_rest_def [abs_def]
    op_listp_def [abs_def] op_raise_def [abs_def] op_eq_def [abs_def] by transfer_prover+

lemma unknown_transfer [transfer_rule]:
  "rel_fun (vrel R) (rel_fun R (rel_fun (=) (rel_option (rel_sum (=) (=))))) unknown_arith unknown_arith"
  "rel_fun (vrel R) (rel_fun R (rel_fun (=) (rel_option (rel_sum (=) (=))))) unknown_mul unknown_mul"
  "rel_fun (vrel R) (rel_fun R (rel_fun (=) (rel_option (rel_sum (=) (=))))) unknown_concat unknown_concat"
  unfolding unknown_arith_def [abs_def] unknown_mul_def [abs_def] unknown_concat_def [abs_def] by transfer_prover+

lemma binop_reduction_transfer [transfer_rule]:
  "rel_fun (=) (rel_fun (=) (rel_fun (vrel R) (rel_fun R (rel_fun (=) (rel_option (rel_out R)))))) binop_reduction binop_reduction"
  unfolding binop_reduction_def [abs_def] by transfer_prover

lemma op_div_impl_transfer [transfer_rule]:
  "rel_fun (vrel R) (rel_fun R (rel_fun (=) (rel_out R))) op_div_impl op_div_impl"
  unfolding op_div_impl_def [abs_def] by transfer_prover

lemma op_div_transfer [transfer_rule]:
  "rel_fun (vrel R) (rel_fun R (rel_out R)) op_div op_div"
  unfolding op_div_def [abs_def] by transfer_prover

lemma op_div_deprecated_transfer [transfer_rule]:
  "rel_fun (vrel R) (rel_fun R (rel_out R)) op_div_deprecated op_div_deprecated"
  unfolding op_div_deprecated_def [abs_def] by transfer_prover

lemma op_mod_transfer [transfer_rule]:
  "rel_fun (vrel R) (rel_fun R (rel_fun (=) (rel_out R))) op_mod op_mod"
  unfolding op_mod_def [abs_def] by transfer_prover

lemma op_modpow_transfer [transfer_rule]:
  "rel_fun (vrel R) (rel_fun R (rel_fun (=) (rel_fun (=) (rel_out R)))) op_modpow op_modpow"
  unfolding op_modpow_def [abs_def] by transfer_prover

lemma op_divmod_transfer [transfer_rule]:
  "rel_fun (vrel R) (rel_fun R (rel_out R)) op_divmod op_divmod"
  unfolding op_divmod_def [abs_def] by transfer_prover

lemma op_gr_transfer [transfer_rule]:
  "rel_fun (vrel R) (rel_fun R (rel_out R)) op_gr op_gr"
  unfolding op_gr_def [abs_def] by transfer_prover

lemma op_gr_bytes_transfer [transfer_rule]:
  "rel_fun (vrel R) (rel_fun R (rel_out R)) op_gr_bytes op_gr_bytes"
  unfolding op_gr_bytes_def [abs_def] by transfer_prover

lemma op_strlen_transfer [transfer_rule]:
  "rel_fun (vrel R) (rel_fun R (rel_out R)) op_strlen op_strlen"
  unfolding op_strlen_def [abs_def] by transfer_prover

lemma op_substr_transfer [transfer_rule]:
  "rel_fun (vrel R) (rel_fun R (rel_out R)) op_substr op_substr"
  unfolding op_substr_def [abs_def] by transfer_prover

lemma op_ash_transfer [transfer_rule]:
  "rel_fun (vrel R) (rel_fun R (rel_out R)) op_ash op_ash"
  unfolding op_ash_def [abs_def] by transfer_prover

lemma op_lsh_transfer [transfer_rule]:
  "rel_fun (vrel R) (rel_fun R (rel_out R)) op_lsh op_lsh"
  unfolding op_lsh_def [abs_def] by transfer_prover

lemma op_lognot_transfer [transfer_rule]:
  "rel_fun (vrel R) (rel_fun R (rel_out R)) op_lognot op_lognot"
  unfolding op_lognot_def [abs_def] by transfer_prover

lemma op_not_transfer [transfer_rule]:
  "rel_fun (vrel R) (rel_fun R (rel_out R)) op_not op_not"
  unfolding op_not_def [abs_def] by transfer_prover

lemma op_softfork_transfer [transfer_rule]:
  "rel_fun (vrel R) (rel_fun R (rel_fun (=) (rel_fun (=) (rel_out R)))) op_softfork op_softfork"
  unfolding op_softfork_def [abs_def] by transfer_prover

lemma op_unknown_transfer [transfer_rule]:
  "rel_fun (vrel R) (rel_fun R (rel_fun R (rel_fun (=) (rel_option (rel_out R))))) op_unknown op_unknown"
  unfolding op_unknown_def [abs_def] by transfer_prover

lemma op_sha256_transfer [transfer_rule]:
  "rel_fun (=) (rel_fun (vrel R) (rel_fun R (rel_fun (=) (rel_option (rel_out R))))) op_sha256 op_sha256"
  unfolding op_sha256_def [abs_def] by transfer_prover

lemma op_coinid_transfer [transfer_rule]:
  "rel_fun (=) (rel_fun (vrel R) (rel_fun R (rel_option (rel_out R)))) op_coinid op_coinid"
  unfolding op_coinid_def [abs_def] by transfer_prover

lemma op_add_transfer [transfer_rule]:
  "rel_fun (vrel R) (rel_fun R (rel_fun (=) (rel_option (rel_out R)))) op_add op_add"
  unfolding op_add_def [abs_def] by transfer_prover

lemma op_subtract_transfer [transfer_rule]:
  "rel_fun (vrel R) (rel_fun R (rel_fun (=) (rel_option (rel_out R)))) op_subtract op_subtract"
  unfolding op_subtract_def [abs_def] by transfer_prover

lemma op_multiply_transfer [transfer_rule]:
  "rel_fun (vrel R) (rel_fun R (rel_fun (=) (rel_option (rel_out R)))) op_multiply op_multiply"
  unfolding op_multiply_def [abs_def] by transfer_prover

lemma op_concat_transfer [transfer_rule]:
  "rel_fun (vrel R) (rel_fun R (rel_fun (=) (rel_option (rel_out R)))) op_concat op_concat"
  unfolding op_concat_def [abs_def] by transfer_prover

lemma op_logand_transfer [transfer_rule]:
  "rel_fun (vrel R) (rel_fun R (rel_fun (=) (rel_option (rel_out R)))) op_logand op_logand"
  unfolding op_logand_def [abs_def] by transfer_prover

lemma op_logior_transfer [transfer_rule]:
  "rel_fun (vrel R) (rel_fun R (rel_fun (=) (rel_option (rel_out R)))) op_logior op_logior"
  unfolding op_logior_def [abs_def] by transfer_prover

lemma op_logxor_transfer [transfer_rule]:
  "rel_fun (vrel R) (rel_fun R (rel_fun (=) (rel_option (rel_out R)))) op_logxor op_logxor"
  unfolding op_logxor_def [abs_def] by transfer_prover

lemma op_any_transfer [transfer_rule]:
  "rel_fun (vrel R) (rel_fun R (rel_fun (=) (rel_option (rel_out R)))) op_any op_any"
  unfolding op_any_def [abs_def] by transfer_prover

lemma op_all_transfer [transfer_rule]:
  "rel_fun (vrel R) (rel_fun R (rel_fun (=) (rel_option (rel_out R)))) op_all op_all"
  unfolding op_all_def [abs_def] by transfer_prover

lemma g1_arg_transfer [transfer_rule]:
  "rel_fun (=) (rel_fun (vrel R) (rel_fun R (rel_sum (=) (=)))) g1_arg g1_arg"
  unfolding g1_arg_def [abs_def] by transfer_prover

lemma g2_arg_transfer [transfer_rule]:
  "rel_fun (=) (rel_fun (vrel R) (rel_fun R (rel_sum (=) (=)))) g2_arg g2_arg"
  unfolding g2_arg_def [abs_def] by transfer_prover

lemma get_args_loop_rel:
  "vrel R v w \<Longrightarrow> R p s \<Longrightarrow> list_all2 R out out' \<Longrightarrow>
     rel_sum (=) (list_all2 R) (get_args_loop v n nm k p out) (get_args_loop w n nm k s out')"
proof (induction k arbitrary: p s out out')
  case 0
  then show ?case by (simp add: vrelD(2))
next
  case (Suc k)
  have "rel_sum (=) (rel_prod R R) (split_node v p) (split_node w s)"
    using split_node_transfer [of R] Suc.prems by (auto simp: rel_fun_def)
  then show ?case
    using Suc by (cases rule: rel_sum.cases) (auto elim!: rel_prod.cases intro!: Suc.IH list_all2_appendI)
qed

lemma get_args_transfer [transfer_rule]:
  "rel_fun (vrel R) (rel_fun (=) (rel_fun R (rel_fun (=) (rel_sum (=) (list_all2 R))))) get_args get_args"
  by (auto simp: rel_fun_def get_args_def intro!: get_args_loop_rel)

lemma get_varargs_transfer [transfer_rule]:
  "rel_fun (vrel R) (rel_fun (=) (rel_fun R (rel_fun (=) (rel_option (rel_sum (=) (list_all2 R)))))) get_varargs get_varargs"
  unfolding get_varargs_def [abs_def] by transfer_prover

lemma op_pubkey_for_exp_transfer [transfer_rule]:
  "rel_fun (=) (rel_fun (vrel R) (rel_fun R (rel_fun (=) (rel_out R)))) op_pubkey_for_exp op_pubkey_for_exp"
  unfolding op_pubkey_for_exp_def [abs_def] by transfer_prover

lemma op_bls_g1_multiply_transfer [transfer_rule]:
  "rel_fun (=) (rel_fun (vrel R) (rel_fun R (rel_fun (=) (rel_fun (=) (rel_out R))))) op_bls_g1_multiply op_bls_g1_multiply"
  unfolding op_bls_g1_multiply_def [abs_def] by transfer_prover

lemma op_bls_g2_multiply_transfer [transfer_rule]:
  "rel_fun (=) (rel_fun (vrel R) (rel_fun R (rel_fun (=) (rel_fun (=) (rel_out R))))) op_bls_g2_multiply op_bls_g2_multiply"
  unfolding op_bls_g2_multiply_def [abs_def] by transfer_prover

lemma op_bls_g1_negate_transfer [transfer_rule]:
  "rel_fun (=) (rel_fun (vrel R) (rel_fun R (rel_fun (=) (rel_out R)))) op_bls_g1_negate op_bls_g1_negate"
  unfolding op_bls_g1_negate_def [abs_def] by transfer_prover

lemma op_bls_g2_negate_transfer [transfer_rule]:
  "rel_fun (=) (rel_fun (vrel R) (rel_fun R (rel_fun (=) (rel_out R)))) op_bls_g2_negate op_bls_g2_negate"
  unfolding op_bls_g2_negate_def [abs_def] by transfer_prover

lemma op_point_add_transfer [transfer_rule]:
  "rel_fun (=) (rel_fun (vrel R) (rel_fun R (rel_fun (=) (rel_option (rel_out R))))) op_point_add op_point_add"
  unfolding op_point_add_def [abs_def] by transfer_prover

lemma op_bls_g1_subtract_transfer [transfer_rule]:
  "rel_fun (=) (rel_fun (vrel R) (rel_fun R (rel_fun (=) (rel_option (rel_out R))))) op_bls_g1_subtract op_bls_g1_subtract"
  unfolding op_bls_g1_subtract_def [abs_def] by transfer_prover

lemma op_bls_g2_add_transfer [transfer_rule]:
  "rel_fun (=) (rel_fun (vrel R) (rel_fun R (rel_fun (=) (rel_option (rel_out R))))) op_bls_g2_add op_bls_g2_add"
  unfolding op_bls_g2_add_def [abs_def] by transfer_prover

lemma op_bls_g2_subtract_transfer [transfer_rule]:
  "rel_fun (=) (rel_fun (vrel R) (rel_fun R (rel_fun (=) (rel_option (rel_out R))))) op_bls_g2_subtract op_bls_g2_subtract"
  unfolding op_bls_g2_subtract_def [abs_def] by transfer_prover

lemma op_bls_map_to_g1_transfer [transfer_rule]:
  "rel_fun (=) (rel_fun (vrel R) (rel_fun R (rel_fun (=) (rel_option (rel_out R))))) op_bls_map_to_g1 op_bls_map_to_g1"
  unfolding op_bls_map_to_g1_def [abs_def] by transfer_prover

lemma op_bls_map_to_g2_transfer [transfer_rule]:
  "rel_fun (=) (rel_fun (vrel R) (rel_fun R (rel_fun (=) (rel_option (rel_out R))))) op_bls_map_to_g2 op_bls_map_to_g2"
  unfolding op_bls_map_to_g2_def [abs_def] by transfer_prover

lemma pairing_round_transfer [transfer_rule]:
  "rel_fun (=) (rel_fun (vrel R) (rel_fun (=) (rel_fun (rel_prod (=) (=)) (rel_fun R (rel_sum (=) (rel_prod (rel_prod (=) (=)) R)))))) pairing_round pairing_round"
  unfolding pairing_round_def [abs_def] by transfer_prover

lemma verify_round_transfer [transfer_rule]:
  "rel_fun (=) (rel_fun (vrel R) (rel_fun (=) (rel_fun (rel_prod (=) (=)) (rel_fun R (rel_sum (=) (rel_prod (rel_prod (=) (=)) R)))))) verify_round verify_round"
  unfolding verify_round_def [abs_def] by transfer_prover

lemma op_bls_pairing_identity_transfer [transfer_rule]:
  "rel_fun (=) (rel_fun (vrel R) (rel_fun R (rel_fun (=) (rel_option (rel_out R))))) op_bls_pairing_identity op_bls_pairing_identity"
  unfolding op_bls_pairing_identity_def [abs_def] by transfer_prover

lemma op_bls_verify_transfer [transfer_rule]:
  "rel_fun (=) (rel_fun (vrel R) (rel_fun R (rel_fun (=) (rel_option (rel_out R))))) op_bls_verify op_bls_verify"
  unfolding op_bls_verify_def [abs_def] by transfer_prover

lemma dialect_op_transfer:
  "rel_fun (=) (rel_fun (vrel R) (rel_fun R (rel_fun R (rel_fun (=) (rel_option (rel_out R)))))) dialect_op dialect_op"
  unfolding dialect_op_def [abs_def] Let_def by transfer_prover

section \<open>Trees and arenas\<close>

text \<open>
  A provider of nodes promises that a node in relation \<open>R\<close> to a tree reads as the tree does. Its view is then
  related to the view of trees, and so is every operator.
\<close>

locale view_sim =
  fixes ok :: bool and v :: "'n view" and R :: "'n \<Rightarrow> sexp \<Rightarrow> bool"
  assumes reads_atom: "ok \<Longrightarrow> R p (Atom b) \<Longrightarrow> v_next v p = None \<and> v_atom v p = Some b \<and>
      v_len v p = Some (length b) \<and> v_number v p = Some (sexp_number_from b) \<and> (v_nullp v p \<longleftrightarrow> b = [])"
    and reads_pair: "ok \<Longrightarrow> R p (Pair s t) \<Longrightarrow> (\<exists>x y. v_next v p = Some (x, y) \<and> R x s \<and> R y t) \<and>
      v_atom v p = None \<and> v_len v p = None \<and> v_number v p = None \<and> \<not> v_nullp v p"
    and reads_const: "ok \<Longrightarrow> R (v_nil v) (Atom []) \<and> R (v_one v) (Atom [1])"
begin

lemma related: "ok \<Longrightarrow> vrel R v sexp_view"
  unfolding vrel_def
proof (intro conjI rel_funI)
  assume ok
  show "R (v_nil v) (v_nil sexp_view)" "R (v_one v) (v_one sexp_view)"
    using reads_const [OF \<open>ok\<close>] by (simp_all add: sexp_view_def)
  fix p s assume "R p s"
  then show "rel_option (rel_prod R R) (v_next v p) (v_next sexp_view s)" "v_atom v p = v_atom sexp_view s"
    "v_len v p = v_len sexp_view s" "v_number v p = v_number sexp_view s" "v_nullp v p = v_nullp sexp_view s"
    by (cases s; use reads_atom [OF \<open>ok\<close>] reads_pair [OF \<open>ok\<close>] in \<open>force simp: sexp_view_def\<close>)+
qed

lemma operators:
  assumes ok "R opn s" "R args t"
  shows "rel_option (rel_out R) (dialect_op d v opn args m) (dialect_op d sexp_view s t m)"
  by (rule dialect_op_transfer [THEN rel_funD, OF refl, THEN rel_funD, OF related [OF assms(1)], THEN rel_funD, OF assms(2),
        THEN rel_funD, OF assms(3), THEN rel_funD, OF refl])

end

lemma arena_view_simps [simp]:
  "v_next (arena_view a) = next_of a" "v_atom (arena_view a) = arena_atom a" "v_len (arena_view a) = atom_len a"
  "v_number (arena_view a) = arena_number a" "v_nullp (arena_view a) = nullp a" "v_nil (arena_view a) = NIL"
  "v_one (arena_view a) = ONE"
  by (simp_all add: arena_view_def)

lemma arena_reads_pair:
  assumes "den a p (Pair s t)"
  shows "(\<exists>x y. v_next (arena_view a) p = Some (x, y) \<and> den a x s \<and> den a y t) \<and> v_atom (arena_view a) p = None \<and>
    v_len (arena_view a) p = None \<and> v_number (arena_view a) p = None \<and> \<not> v_nullp (arena_view a) p"
  using read_pair [OF assms] by auto

interpretation arena_sim: view_sim "contents_ok a" "arena_view a" "den a" for a
  by unfold_locales (simp_all only: arena_reads_pair, simp_all add: read_atom den_NIL_ONE)

interpretation tree_sim: view_sim True sexp_view "(=)"
  by unfold_locales (auto simp: sexp_view_def)

section \<open>Paths\<close>

lemma traverse_loop_rel:
  assumes "vrel R v w"
  shows "R p q \<Longrightarrow> rel_sum (=) (rel_prod (=) R) (traverse_loop v ni fb lb bi k p c) (traverse_loop w ni fb lb bi k q c)"
proof (induction "8 * bi + (7 - k)" arbitrary: bi k p q c rule: less_induct)
  case less
  note step = traverse_loop.simps [of v _ _ _ _ _ p] traverse_loop.simps [of w _ _ _ _ _ q]
  from vrelD(1) [OF assms less.prems] show ?case
  proof (cases rule: option.rel_cases)
    case None
    then show ?thesis using less.prems by (simp add: step)
  next
    case (Some x y)
    then have xy: "R (fst x) (fst y)" "R (snd x) (snd y)" by (auto elim!: rel_prod.cases)
    have "rel_sum (=) (rel_prod (=) R) (traverse_loop v ni fb lb (bi - 1) 0 u (c + TRAVERSE_COST_PER_BIT))
        (traverse_loop w ni fb lb (bi - 1) 0 z (c + TRAVERSE_COST_PER_BIT))" if "k \<ge> 7" "bi \<noteq> 0" "R u z" for u z
      using that by (intro less.hyps) auto
    moreover have "rel_sum (=) (rel_prod (=) R) (traverse_loop v ni fb lb bi (k + 1) u (c + TRAVERSE_COST_PER_BIT))
        (traverse_loop w ni fb lb bi (k + 1) z (c + TRAVERSE_COST_PER_BIT))" if "\<not> k \<ge> 7" "R u z" for u z
      using that by (intro less.hyps) auto
    ultimately show ?thesis
      using Some less.prems xy by (simp add: step split_beta Let_def)
  qed
qed

lemma traverse_path_rel:
  assumes "vrel R v w" "R p q"
  shows "rel_sum (=) (rel_prod (=) R) (traverse_path v path p) (traverse_path w path q)"
  using traverse_loop_rel [OF assms] assms(1) by (simp add: traverse_path_def Let_def vrel_def)

section \<open>The shape of results\<close>

text \<open>A property of every result an operator can return.\<close>

definition results :: "(u64 \<Rightarrow> 'n op_out \<Rightarrow> bool) \<Rightarrow> 'n op_result \<Rightarrow> bool" where
  "results Q r \<longleftrightarrow> (\<forall>c out. r = Inr (c, out) \<longrightarrow> Q c out)"

definition results_opt :: "(u64 \<Rightarrow> 'n op_out \<Rightarrow> bool) \<Rightarrow> 'n op_result option \<Rightarrow> bool" where
  "results_opt Q r \<longleftrightarrow> (\<forall>x. r = Some x \<longrightarrow> results Q x)"

lemma results_simps [simp]:
  "results Q (Inl e)" "results Q (Inr (c, out)) \<longleftrightarrow> Q c out"
  "results_opt Q (Some r) \<longleftrightarrow> results Q r" "results_opt Q None"
  by (simp_all add: results_def results_opt_def)

lemma results_bind: "(\<And>y. x = Inr y \<Longrightarrow> results Q (f y)) \<Longrightarrow> results Q (bind_res x f)"
  by (cases x) (auto simp: bind_res_def)

lemma results_opt_bind: "(\<And>y. x = Some (Inr y) \<Longrightarrow> results_opt Q (f y)) \<Longrightarrow> results_opt Q (bind_opt x f)"
  by (cases x; cases "the x") (auto simp: bind_opt_def results_opt_def)

fun shaped :: "u64 \<Rightarrow> sexp op_out \<Rightarrow> bool" where
  "shaped c (Concat ss n) \<longleftrightarrow> (\<exists>bs. ss = map Atom bs \<and> n = length (concat bs))"
| "shaped c (Substr s i j) \<longleftrightarrow> (\<exists>b. s = Atom b)"
| "shaped c _ \<longleftrightarrow> True"

lemma atom_arg_tree [simp]: "atom_arg sexp_view s = Inr b \<longleftrightarrow> s = Atom b"
  by (cases s) (auto simp: atom_arg_def sexp_view_def)

lemmas results_intros = results_bind results_opt_bind

lemma shaped_atom [simp]: "results shaped (new_atom_and_cost c b)" "results shaped (malloc_number c n)" "results shaped (malloc_bigint c i)"
  by (simp_all add: new_atom_and_cost_def malloc_number_def malloc_bigint_def)

lemma shaped_core:
  "results shaped (op_if sexp_view args)" "results shaped (op_cons sexp_view args)" "results shaped (op_first sexp_view args)"
  "results shaped (op_rest sexp_view args)" "results shaped (op_listp sexp_view args)" "results shaped (op_raise sexp_view args)"
  "results shaped (op_eq sexp_view args)" "results shaped (op_gr_bytes sexp_view args)" "results shaped (op_substr sexp_view args)"
  "results shaped (op_strlen sexp_view args)"
  by (auto simp: op_if_def op_cons_def op_first_def op_rest_def op_listp_def op_raise_def op_eq_def op_gr_bytes_def
      op_substr_def op_strlen_def Let_def intro!: results_intros split: option.splits prod.splits)

lemma shaped_arith:
  "results shaped (op_div_impl sexp_view args m)" "results shaped (op_divmod sexp_view args)" "results shaped (op_gr sexp_view args)"
  "results shaped (op_ash sexp_view args)" "results shaped (op_lsh sexp_view args)" "results shaped (op_lognot sexp_view args)"
  "results shaped (op_not sexp_view args)" "results shaped (op_softfork sexp_view args mc fl)"
  "results shaped (op_modpow sexp_view args mc fl)" "results shaped (op_mod sexp_view args fl)"
  by (auto simp: op_div_impl_def op_divmod_def op_gr_def op_ash_def op_lsh_def op_lognot_def op_not_def op_softfork_def
      op_modpow_def op_mod_def Let_def intro!: results_intros split: option.splits prod.splits)

lemma shaped_loops:
  "results_opt shaped (op_sha256 sha sexp_view args mc)" "results_opt shaped (op_add sexp_view args mc)"
  "results_opt shaped (op_subtract sexp_view args mc)" "results_opt shaped (op_multiply sexp_view args mc)"
  "results_opt shaped (binop_reduction i f sexp_view args mc)" "results_opt shaped (op_any sexp_view args mc)"
  "results_opt shaped (op_all sexp_view args mc)" "results_opt shaped (op_unknown sexp_view opn args mc)"
  by (auto simp: op_sha256_def op_add_def op_subtract_def op_multiply_def binop_reduction_def op_any_def op_all_def
      op_unknown_def Let_def intro!: results_intros split: option.splits prod.splits)

lemma shaped_coinid: "results_opt shaped (op_coinid sha sexp_view args)"
  by (auto simp: op_coinid_def map_option_case Let_def intro!: results_intros split: option.splits list.splits)

lemma shaped_bls:
  "results_opt shaped (op_point_add bl sexp_view args mc)" "results shaped (op_pubkey_for_exp bl sexp_view args mc)"
  "results_opt shaped (op_bls_g1_subtract bl sexp_view args mc)" "results shaped (op_bls_g1_multiply bl sexp_view args mc fl)"
  "results shaped (op_bls_g1_negate bl sexp_view args fl)" "results_opt shaped (op_bls_g2_add bl sexp_view args mc)"
  "results_opt shaped (op_bls_g2_subtract bl sexp_view args mc)" "results shaped (op_bls_g2_multiply bl sexp_view args mc fl)"
  "results shaped (op_bls_g2_negate bl sexp_view args fl)" "results_opt shaped (op_bls_map_to_g1 bl sexp_view args mc)"
  "results_opt shaped (op_bls_map_to_g2 bl sexp_view args mc)" "results_opt shaped (op_bls_pairing_identity bl sexp_view args mc)"
  "results_opt shaped (op_bls_verify bl sexp_view args mc)"
  by (auto simp: op_point_add_def op_pubkey_for_exp_def op_bls_g1_subtract_def op_bls_g1_multiply_def op_bls_g1_negate_def
      op_bls_g2_add_def op_bls_g2_subtract_def op_bls_g2_multiply_def op_bls_g2_negate_def op_bls_map_to_g1_def
      op_bls_map_to_g2_def op_bls_pairing_identity_def op_bls_verify_def Let_def
      intro!: results_intros split: option.splits prod.splits list.splits)

text \<open>What every accumulator of a loop satisfies.\<close>

lemma cursor_rounds_inv:
  assumes "\<And>acc x acc'. P acc \<Longrightarrow> f acc x = Inr acc' \<Longrightarrow> P acc'"
  shows "cursor_rounds n v f c acc = Some (Inr z) \<Longrightarrow> P acc \<Longrightarrow> P z"
  by (induction n arbitrary: c acc) (auto split: prod.splits option.splits sum.splits dest: assms)

lemma cursor_loop_inv:
  assumes "cursor_loop v f c acc = Some (Inr z)" "P acc" "\<And>acc x acc'. P acc \<Longrightarrow> f acc x = Inr acc' \<Longrightarrow> P acc'"
  shows "P z"
  using cursor_rounds_inv [of P f, OF assms(3)] assms(1,2) by (auto simp: cursor_loop_iff)

lemma shaped_concat: "results_opt shaped (op_concat sexp_view args mc)"
proof -
  let ?f = "\<lambda>(cost, total_size, terms) arg.
         let cost = cost + CONCAT_COST_PER_ARG in
         bind_res (check_cost (cost + len64 total_size * CONCAT_COST_PER_BYTE) mc) (\<lambda>_.
         case v_len sexp_view arg of
           None \<Rightarrow> Inl Unsupported
         | Some len \<Rightarrow> Inr (cost, total_size + len, terms @ [arg]))"
  let ?P = "\<lambda>(c :: u64, n, ss). \<exists>bs. ss = map Atom bs \<and> n = length (concat bs)"
  have step: "?P acc'" if "?P acc" "?f acc x = Inr acc'" for acc x acc'
  proof -
    obtain c n ss where acc: "acc = (c, n, ss)" by (cases acc)
    from that(1) acc obtain bs where "ss = map Atom bs" "n = length (concat bs)" by auto
    with that(2) acc show ?thesis
      by (cases x) (auto simp: bind_res_eq_Inr sexp_view_def Let_def intro!: exI [of _ "bs @ [_]"])
  qed
  show ?thesis
    unfolding op_concat_def
  proof (rule results_opt_bind)
    fix y assume l: "cursor_loop sexp_view ?f (cursor_new args) (CONCAT_BASE_COST, 0, []) = Some (Inr y)"
    have "?P y" by (rule cursor_loop_inv [OF l, where P = ?P]) (simp, erule (1) step)
    then show "results_opt shaped (case y of (cost, total_size, terms) \<Rightarrow>
         let cost = cost + len64 total_size * CONCAT_COST_PER_BYTE + len64 total_size * MALLOC_COST_PER_BYTE in
         bind_opt (Some (check_cost cost mc)) (\<lambda>_. Some (Inr (cost, Concat terms total_size))))"
      by (auto simp: Let_def intro!: results_intros)
  qed
qed

lemma dialect_op_shaped: "dialect_op d sexp_view opn args m = Some (Inr (c, out)) \<Longrightarrow> shaped c out"
proof -
  note shaped = shaped_core shaped_arith shaped_loops shaped_coinid shaped_bls shaped_concat
  have "results_opt shaped (dialect_op d sexp_view opn args m)"
    by (simp add: dialect_op_def Let_def shaped op_div_def op_div_deprecated_def op_logand_def op_logior_def op_logxor_def
        split: option.split)
  then show "dialect_op d sexp_view opn args m = Some (Inr (c, out)) \<Longrightarrow> shaped c out"
    by (simp add: results_opt_def results_def)
qed

end
