(* ===== verification/RuntimeTree.thy ===== *)
theory RuntimeTree
  imports OpsSound
begin

text \<open>
  The interpreter's machine against the same machine on trees. The stacks hold live handles, and the values below
  an application were alive when its checkpoint was taken (\<open>frames\<close>), so rewinding the arena never frees a value
  that is still needed. Step by step the arena machine charges and fails like the tree machine, or runs out of
  memory.
\<close>

section \<open>Frames\<close>

text \<open>
  What the pending operations expect of the values below the top one. An application owns a checkpoint, and every
  value below its operator was alive when the checkpoint was taken.
\<close>

fun frames :: "operation list \<Rightarrow> checkpoint list \<Rightarrow> node_ptr list \<Rightarrow> bool" where
  "frames [] [] [] = True"
| "frames (ConsOp # ops) cps (rest # vals) = frames ops cps vals"
| "frames (SwapEvalOp # ops) cps (program # args # vals) = frames ops cps vals"
| "frames (EvalOp # ops) cps (program # vals) = frames ops cps vals"
| "frames (ApplyOp # ops) (cp # cps) (operator # vals) = ((\<forall>x \<in> set vals. under cp x) \<and> frames ops cps vals)"
| "frames _ _ _ = False"

lemma frames_Nil [simp]: "frames [] cps vals \<longleftrightarrow> cps = [] \<and> vals = []"
  by (cases cps; cases vals) auto

lemma frames_ConsOp: "frames (ConsOp # ops) cps vals \<longleftrightarrow> (\<exists>r vs. vals = r # vs \<and> frames ops cps vs)"
  by (cases vals) auto

lemma frames_SwapEvalOp: "frames (SwapEvalOp # ops) cps vals \<longleftrightarrow> (\<exists>p a vs. vals = p # a # vs \<and> frames ops cps vs)"
  by (cases vals; cases "tl vals") auto

lemma frames_EvalOp: "frames (EvalOp # ops) cps vals \<longleftrightarrow> (\<exists>p vs. vals = p # vs \<and> frames ops cps vs)"
  by (cases vals) auto

lemma frames_ApplyOp: "frames (ApplyOp # ops) cps vals \<longleftrightarrow>
    (\<exists>cp cs opr vs. cps = cp # cs \<and> vals = opr # vs \<and> (\<forall>x \<in> set vs. under cp x) \<and> frames ops cs vs)"
  by (cases cps; cases vals) auto

lemmas frames_iff = frames_ConsOp frames_SwapEvalOp frames_EvalOp frames_ApplyOp

definition cp_le :: "checkpoint \<Rightarrow> checkpoint \<Rightarrow> bool" where
  "cp_le c d \<longleftrightarrow> cp_pairs c \<le> cp_pairs d \<and> cp_atoms c \<le> cp_atoms d"

text \<open>The structural part of the invariant: every value is a live handle and every checkpoint can be rewound to.\<close>

definition stacks_ok :: "arena \<Rightarrow> checkpoint list \<Rightarrow> node_ptr list \<Rightarrow> bool" where
  "stacks_ok a cps vals \<longleftrightarrow> indexed a \<and> (\<forall>p \<in> set vals. live a p) \<and> (\<forall>cp \<in> set cps. cp_ok a cp) \<and>
     sorted_wrt (\<lambda>c d. cp_le d c) cps"

definition rt_ok :: "('a1, 'p1, 'p2) runtime \<Rightarrow> bool" where
  "rt_ok rt \<longleftrightarrow> stacks_ok (rt_arena rt) (checkpoint_stack rt) (value_stack rt) \<and>
     (\<exists>p vs. value_stack rt = p # vs \<and> frames (op_stack rt) (checkpoint_stack rt) vs)"

lemma stacks_ok_push: "stacks_ok a cps vals \<Longrightarrow> live a p \<Longrightarrow> stacks_ok a cps (p # vals)"
  by (simp add: stacks_ok_def)

lemma cp_le_checkpoint_of: "cp_ok a cp \<Longrightarrow> cp_le cp (checkpoint_of a)"
  by (simp add: cp_le_def checkpoint_of_def cp_ok_def pairs_ok_def)

lemma stacks_ok_checkpoint: "stacks_ok a cps vals \<Longrightarrow> stacks_ok a (checkpoint_of a # cps) vals"
  by (simp add: stacks_ok_def cp_ok_checkpoint_of cp_le_checkpoint_of)

lemma stacks_ok_grown:
  assumes "stacks_ok a cps vals" "grown a a'" "indexed a'"
  shows "stacks_ok a' cps vals"
  using assms grown_live grown_cp_ok by (auto simp: stacks_ok_def)

lemma cp_ok_restore: "cp_ok a c \<Longrightarrow> cp_ok a d \<Longrightarrow> cp_le c d \<Longrightarrow> cp_ok (restore a d) c"
  by (auto simp: cp_ok_def pairs_ok_def cp_le_def)

lemma stacks_ok_restore:
  assumes "stacks_ok a (cp # cps) vals" "\<forall>x \<in> set vals. under cp x"
  shows "stacks_ok (restore a cp) cps vals"
  using assms live_restore [of a cp] restore_indexed [of a cp] cp_ok_restore [of a _ cp]
  by (auto simp: stacks_ok_def)

section \<open>Evaluation keeps the structure\<close>

lemma next_of_live:
  assumes "indexed a" "live a p" "next_of a p = Some (x, y)"
  shows "live a x" "live a y"
proof -
  from assms(3) have ty: "object_type_of p = PairType" and k: "node_kind_of a p = PairNode x y"
    using node_kind_atom [of p a] by (auto simp: next_of_def split: node_kind.splits)
  note b = children_below [OF indexedD(1) [OF assms(1)] ty _ k]
  have "unat (ptr_index p) \<le> length (pair_vec a)" using assms(2) ty by (simp add: live_def below_def)
  with b assms(2) show "live a x" "live a y" by (auto simp: live_def elim!: below_mono)
qed

lemma next_of_eq_kind: "next_of a p = Some (x, y) \<longleftrightarrow> node_kind_of a p = PairNode x y"
  by (auto simp: next_of_def split: node_kind.splits)

text \<open>A path leads from a node to one of its descendants.\<close>

lemma traverse_loop_closed:
  assumes closed: "\<And>p x y. P p \<Longrightarrow> v_next v p = Some (x, y) \<Longrightarrow> P x \<and> P y"
  shows "traverse_loop v ni fb lb bi k p cost = Inr (c, q) \<Longrightarrow> P p \<Longrightarrow> P q"
proof (induction "8 * bi + (7 - k)" arbitrary: bi k p cost rule: less_induct)
  case less
  show ?case
  proof (cases "bi > fb \<or> push_bit k 1 < lb")
    case False
    with less.prems show ?thesis by (simp add: traverse_loop.simps [of _ _ _ _ _ _ p])
  next
    case True
    then obtain x y where n: "v_next v p = Some (x, y)"
      using less.prems(1) by (auto simp: traverse_loop.simps [of _ _ _ _ _ _ p] split: option.splits)
    define z where "z = (if ni ! bi AND push_bit k 1 \<noteq> 0 then y else x)"
    have "P z" using closed [OF less.prems(2) n] by (simp add: z_def)
    moreover have "if k \<ge> 7 then bi \<noteq> 0 \<and> traverse_loop v ni fb lb (bi - 1) 0 z (cost + TRAVERSE_COST_PER_BIT) = Inr (c, q)
        else traverse_loop v ni fb lb bi (k + 1) z (cost + TRAVERSE_COST_PER_BIT) = Inr (c, q)"
      using less.prems(1) True n
      by (auto simp: traverse_loop.simps [of _ _ _ _ _ _ p] z_def Let_def split: if_splits)
    ultimately show ?thesis
      using less.hyps [of "bi - 1" 0] less.hyps [of bi "k + 1"] by (auto split: if_splits)
  qed
qed

lemma traverse_path_closed:
  assumes "\<And>p x y. P p \<Longrightarrow> v_next v p = Some (x, y) \<Longrightarrow> P x \<and> P y" "P (v_nil v)" "P p"
    "traverse_path v path p = Inr (c, q)"
  shows "P q"
  using assms(2,3,4) traverse_loop_closed [OF assms(1)]
  by (simp add: traverse_path_def Let_def split: if_splits)

lemma traverse_path_live:
  "indexed a \<Longrightarrow> live a p \<Longrightarrow> traverse_path (arena_view a) path p = Inr (c, q) \<Longrightarrow> live a q"
  by (rule traverse_path_closed [of "live a" "arena_view a"]) (auto dest: next_of_live)

lemma operand_loop_ok:
  assumes "indexed a" "den a operands s" "live a args" "\<forall>x \<in> set vals. live a x"
  shows "\<exists>ops' vals' r. operand_loop (arena_view a) args operands ops vals = Some (ops', vals', r) \<and>
    (\<forall>x \<in> set vals'. live a x) \<and> (frames ops cps vals \<longrightarrow> frames ops' cps vals')"
  using assms(2,4)
proof (induction s arbitrary: operands ops vals rule: sexp.induct)
  case (Atom b)
  then have "next_of a operands = None" by (auto elim!: den_AtomE simp: next_of_def node_kind_atom)
  with Atom show ?case by (subst operand_loop.simps) simp
next
  case (Pair s t)
  then obtain x y where n: "next_of a operands = Some (x, y)" "den a x s" "den a y t"
    using read_pair(1) by blast
  with Pair.IH(2) [OF n(3), of "x # args # vals" "SwapEvalOp # ops"] Pair.prems(2) assms(3) den_live [OF n(2)]
  show ?case by (subst operand_loop.simps) (simp add: frames_SwapEvalOp)
qed

text \<open>An evaluation about to push its value onto \<open>vals\<close>: it ends, and what it leaves is in order again.\<close>

lemma eval_pair_ok:
  assumes "stacks_ok (rt_arena rt) (checkpoint_stack rt) (value_stack rt)"
    "frames (op_stack rt) (checkpoint_stack rt) (value_stack rt)"
    "live (rt_arena rt) program" "live (rt_arena rt) args"
  shows "\<exists>rt' r. eval_pair rt program args = Some (rt', r) \<and> rt_arena rt' = rt_arena rt \<and>
    rt_dialect rt' = rt_dialect rt \<and> rt_max_cost rt' = rt_max_cost rt \<and> (is_ok r \<longrightarrow> rt_ok rt')"
proof -
  let ?a = "rt_arena rt"
  have idx: "indexed ?a" using assms(1) by (simp add: stacks_ok_def)
  note live = next_of_live [OF idx]
  have vals: "\<forall>x \<in> set (value_stack rt). live ?a x" using assms(1) by (simp add: stacks_ok_def)
  have atom: "\<exists>rt' r. eval_op_atom rt x y args = Some (rt', r) \<and> rt_arena rt' = rt_arena rt \<and>
    rt_dialect rt' = rt_dialect rt \<and> rt_max_cost rt' = rt_max_cost rt \<and> (is_ok r \<longrightarrow> rt_ok rt')"
    if xy: "live ?a x" "live ?a y" for x y
  proof (cases "arena_atom ?a x")
    case None
    then show ?thesis by (simp add: eval_op_atom_def)
  next
    case (Some b)
    obtain s where s: "den ?a y s" using den_total [OF idx xy(2)] by blast
    let ?cps = "checkpoint_of ?a # checkpoint_stack rt"
    have "frames (ApplyOp # op_stack rt) ?cps (x # value_stack rt)" using assms(2) vals by simp
    with operand_loop_ok [OF idx s assms(4), of "x # value_stack rt" "ApplyOp # op_stack rt" ?cps] xy(1) vals
    obtain ops' vals' r where l: "operand_loop (arena_view ?a) args y (ApplyOp # op_stack rt) (x # value_stack rt) =
        Some (ops', vals', r)" "\<forall>x \<in> set vals'. live ?a x" "frames ops' ?cps vals'" by auto
    from stacks_ok_checkpoint [OF assms(1)] l(2) have "stacks_ok ?a ?cps (NIL # vals')" by (simp add: stacks_ok_def)
    with l Some assms xy show ?thesis
      by (cases r) (simp_all add: eval_op_atom_def rt_ok_def stacks_ok_push)
  qed
  show ?thesis
  proof (cases "node_kind_of ?a program")
    case AtomNode
    show ?thesis
    proof (cases "arena_atom ?a program")
      case None
      with AtomNode show ?thesis by (simp add: eval_pair_def)
    next
      case (Some path)
      with AtomNode assms(1,2) traverse_path_live [OF idx assms(4), of path] show ?thesis
        by (cases "traverse_path (arena_view ?a) path args") (auto simp: eval_pair_def rt_ok_def stacks_ok_push)
    qed
  next
    case (PairNode x y)
    with live [OF assms(3)] have xy: "live ?a x" "live ?a y" by (auto simp: next_of_eq_kind)
    show ?thesis
    proof (cases "node_kind_of ?a x")
      case AtomNode
      with PairNode atom [OF xy] show ?thesis by (simp add: eval_pair_def)
    next
      case (PairNode u w)
      with live [OF xy(1)] have "live ?a u" by (auto simp: next_of_eq_kind)
      with stacks_ok_checkpoint [OF assms(1)] xy assms(2) vals have
        "stacks_ok ?a (checkpoint_of ?a # checkpoint_stack rt) (y # u # value_stack rt)"
        by (simp add: stacks_ok_def)
      with \<open>node_kind_of ?a program = PairNode x y\<close> PairNode assms(2) vals show ?thesis
        by (cases "node_kind_of ?a u = AtomNode \<and> nullp ?a w") (simp_all add: eval_pair_def rt_ok_def Let_def)
    qed
  qed
qed

section \<open>The machine on trees\<close>

text \<open>
  The same machine with trees for values: no arena, no checkpoints, no limits on memory. The operands of an
  application are the elements of a proper list.
\<close>

fun operands_of :: "sexp \<Rightarrow> sexp list option" where
  "operands_of (Atom b) = (if b = [] then Some [] else None)"
| "operands_of (Pair s t) = map_option ((#) s) (operands_of t)"

type_synonym tree_result = "vm_error + u64 \<times> sexp list \<times> operation list"

fun tree_eval :: "sexp \<Rightarrow> sexp \<Rightarrow> sexp list \<Rightarrow> operation list \<Rightarrow> tree_result" where
  "tree_eval (Atom path) env vs ops =
     bind_res (traverse_path sexp_view path env) (\<lambda>(c, s). Inr (c, s # vs, ops))"
| "tree_eval (Pair (Atom b) operands) env vs ops =
     (if b = quote_kw then Inr (QUOTE_COST, operands # vs, ops)
      else bind_res (ok_or (operands_of operands) InvalidOperandList) (\<lambda>xs.
        Inr (OP_COST, Atom [] # concat (map (\<lambda>x. [x, env]) (rev xs)) @ Atom b # vs,
             replicate (length xs) SwapEvalOp @ ApplyOp # ops)))"
| "tree_eval (Pair (Pair opr w) operands) env vs ops =
     (if (\<exists>b. opr = Atom b) \<and> w = Atom [] then Inr (APPLY_COST, operands # opr # vs, ApplyOp # ops)
      else Inl InvalidSyntax)"

text \<open>What a described result stands for, and what it costs.\<close>

fun bytes_of :: "sexp \<Rightarrow> bytes" where
  "bytes_of (Atom b) = b"
| "bytes_of (Pair s t) = []"

fun tree_out :: "u64 \<Rightarrow> sexp op_out \<Rightarrow> vm_error + u64 \<times> sexp" where
  "tree_out c (Same s) = Inr (c, s)"
| "tree_out c (OutPair s t) = Inr (c, Pair s t)"
| "tree_out c (OutNumber n) = Inr (c + len64 (length (number_bytes n)) * MALLOC_COST_PER_BYTE, Atom (number_bytes n))"
| "tree_out c (Small b) = Inr (c, Atom b)"
| "tree_out c (Concat ss n) = Inr (c, Atom (concat (map bytes_of ss)))"
| "tree_out c (Substr s i j) =
     (if unat i \<le> unat j \<and> unat j \<le> length (bytes_of s)
      then Inr (c, Atom (take (unat j - unat i) (drop (unat i) (bytes_of s)))) else Inl InvalidInput)"
| "tree_out c (NumberPair q r) =
     Inr (c + len64 (length (number_bytes q) + length (number_bytes r)) * MALLOC_COST_PER_BYTE,
          Pair (Atom (number_bytes q)) (Atom (number_bytes r)))"

fun tree_apply :: "sexp \<Rightarrow> sexp list \<Rightarrow> operation list \<Rightarrow> tree_result" where
  "tree_apply (Pair prog (Pair env (Atom []))) vs ops =
     bind_res (tree_eval prog env vs ops) (\<lambda>(c, vs', ops'). Inr (c + APPLY_COST, vs', ops'))"
| "tree_apply _ vs ops = Inl InvalidApplyArgs"

fun tree_step :: "('a1, 'p1, 'p2) dialect \<Rightarrow> operation \<Rightarrow> sexp list \<Rightarrow> operation list \<Rightarrow> u64 \<Rightarrow> tree_result option" where
  "tree_step d ConsOp (s # t # vs) ops m = Some (Inr (0, Pair s t # vs, ops))"
| "tree_step d EvalOp (env # prog # vs) ops m = Some (tree_eval prog env vs ops)"
| "tree_step d SwapEvalOp (v # prog # env # vs) ops m = Some (tree_eval prog env (v # vs) (ConsOp # ops))"
| "tree_step d ApplyOp (args # Atom b # vs) ops m =
     (if b = apply_kw then Some (tree_apply args vs ops)
      else bind_opt (dialect_op d sexp_view (Atom b) args m) (\<lambda>(c, out).
        Some (bind_res (tree_out c out) (\<lambda>(c', s). Inr (c', s # vs, ops)))))"
| "tree_step d ApplyOp (args # Pair s t # vs) ops m = Some (Inl ExpectedAtomGotPair)"
| "tree_step d _ _ ops m = Some (Inl ValueStackEmpty)"

partial_function (option) tree_loop ::
  "('a1, 'p1, 'p2) dialect \<Rightarrow> u64 \<Rightarrow> u64 \<Rightarrow> u64 \<Rightarrow> sexp list \<Rightarrow> operation list \<Rightarrow> (vm_error + u64 \<times> sexp list) option" where
  "tree_loop d limit max_cost cost vs ops = (case ops of
     [] \<Rightarrow> Some (Inr (cost, vs))
   | op # ops' \<Rightarrow> (case tree_step d op vs ops' (max_cost - cost) of
       None \<Rightarrow> None
     | Some (Inl e) \<Rightarrow> Some (Inl e)
     | Some (Inr (c, vs', ops'')) \<Rightarrow>
         if cost + c > max_cost then Some (Inl (CostExceeded (cost + c) limit))
         else tree_loop d limit max_cost (cost + c) vs' ops''))"

section \<open>The arena machine follows the tree machine\<close>

definition tracks :: "arena \<Rightarrow> checkpoint list \<Rightarrow> node_ptr list \<Rightarrow> sexp list \<Rightarrow> bool" where
  "tracks a cps vals vs \<longleftrightarrow> contents_ok a \<and> (\<forall>cp \<in> set cps. cp_spans a cp) \<and>
     sorted_wrt (\<lambda>c d. cp_heap d \<le> cp_heap c) cps \<and> list_all2 (den a) vals vs"

lemma tracks_push: "tracks a cps vals vs \<Longrightarrow> den a p s \<Longrightarrow> tracks a cps (p # vals) (s # vs)"
  by (simp add: tracks_def)

lemma tracks_checkpoint: "tracks a cps vals vs \<Longrightarrow> tracks a (checkpoint_of a # cps) vals vs"
  by (auto simp: tracks_def cp_spans_checkpoint_of) (auto simp: checkpoint_of_def cp_spans_def spans_ok_def)

lemma tracks_grown:
  assumes "tracks a cps vals vs" "grown a a'" "contents_ok a'"
  shows "tracks a' cps vals vs"
  using assms grown_cp_spans list_all2_mono [of "den a" vals vs "den a'"] grown_den by (auto simp: tracks_def)

lemma cp_spans_restore:
  assumes "cp_spans a c" "cp_heap c \<le> cp_heap d" "cp_le c d" "cp_ok a d"
  shows "cp_spans (restore a d) c"
  using assms by (auto simp: cp_spans_def spans_ok_def cp_le_def cp_ok_def pairs_ok_def min_def)

lemma tracks_restore:
  assumes "tracks a (cp # cps) vals vs" "stacks_ok a (cp # cps) vals" "\<forall>x \<in> set vals. under cp x"
  shows "tracks (restore a cp) cps vals vs"
proof -
  have cp: "cp_ok a cp" "cp_spans a cp" using assms(1,2) by (simp_all add: tracks_def stacks_ok_def)
  have "list_all2 (den (restore a cp)) vals vs"
    using assms(1,3) restore_den [OF cp] by (auto simp: tracks_def list_all2_conv_all_nth)
  moreover have "cp_spans (restore a cp) c" if "c \<in> set cps" for c
    using that assms(1,2) cp by (intro cp_spans_restore) (auto simp: tracks_def stacks_ok_def)
  ultimately show ?thesis using assms(1) restore_contents [OF cp] by (auto simp: tracks_def)
qed

lemma operand_loop_tree:
  assumes "contents_ok a"
  shows "den a operands s \<Longrightarrow> den a args env \<Longrightarrow> list_all2 (den a) vals vs \<Longrightarrow>
    (case operands_of s of
       None \<Rightarrow> \<exists>ops' vals'. operand_loop (arena_view a) args operands ops vals = Some (ops', vals', Inl InvalidOperandList)
     | Some xs \<Rightarrow> \<exists>vals'. operand_loop (arena_view a) args operands ops vals =
           Some (replicate (length xs) SwapEvalOp @ ops, vals', Inr ()) \<and>
         list_all2 (den a) vals' (concat (map (\<lambda>x. [x, env]) (rev xs)) @ vs))"
proof (induction s arbitrary: operands ops vals vs rule: sexp.induct)
  case (Atom b)
  then show ?case using read_atom [OF assms Atom(1)] by (simp add: operand_loop.simps [of _ _ operands])
next
  case (Pair s t)
  from read_pair(1) [OF Pair.prems(1)] obtain x y where n: "next_of a operands = Some (x, y)" "den a x s" "den a y t"
    by blast
  have "list_all2 (den a) (x # args # vals) (s # env # vs)" using n Pair.prems by simp
  from Pair.IH(2) [OF n(3) Pair.prems(2) this, of "SwapEvalOp # ops"] show ?case
    by (auto simp: operand_loop.simps [of _ _ operands] n replicate_app_Cons_same split: option.splits)
qed


lemma node_kind_atom_iff: "den a p s \<Longrightarrow> node_kind_of a p = AtomNode \<longleftrightarrow> (\<exists>b. s = Atom b)"
  by (cases s) (auto elim!: den_AtomE den_PairE simp: node_kind_atom)

lemma nullp_den: "contents_ok a \<Longrightarrow> den a p s \<Longrightarrow> nullp a p \<longleftrightarrow> s = Atom []"
  by (cases s) (use read_atom(5) [of a p] read_pair(5) [of a p] in auto)

text \<open>One evaluation: the machines charge the same, fail alike, and leave matching stacks.\<close>

definition follows :: "arena \<Rightarrow> ('a1, 'p1, 'p2) runtime \<times> (vm_error + u64) \<Rightarrow> tree_result \<Rightarrow> bool" where
  "follows a x t \<longleftrightarrow> (case (x, t) of
     ((rt', Inl e), Inl e') \<Rightarrow> e = e'
   | ((rt', Inr c), Inr (c', vs, ops)) \<Rightarrow> c = c' \<and> op_stack rt' = ops \<and> tracks a (checkpoint_stack rt') (value_stack rt') vs
   | _ \<Rightarrow> False)"

lemma eval_op_atom_follows:
  assumes "tracks (rt_arena rt) (checkpoint_stack rt) (value_stack rt) vs"
    "den (rt_arena rt) opn (Atom b)" "den (rt_arena rt) operands s" "den (rt_arena rt) args env"
  shows "\<exists>x. eval_op_atom rt opn operands args = Some x \<and>
    follows (rt_arena rt) x (tree_eval (Pair (Atom b) s) env vs (op_stack rt))"
proof -
  let ?a = "rt_arena rt"
  have c: "contents_ok ?a" and vals: "list_all2 (den ?a) (value_stack rt) vs" using assms(1) by (simp_all add: tracks_def)
  have "list_all2 (den ?a) (opn # value_stack rt) (Atom b # vs)" using vals assms(2) by simp
  note l = operand_loop_tree [OF c assms(3,4) this, of "ApplyOp # op_stack rt"]
  note defs = eval_op_atom_def read_atom(1) [OF c assms(2)] follows_def
  show ?thesis
  proof (cases "b = quote_kw")
    case True
    with assms show ?thesis by (simp add: defs tracks_push)
  next
    case False
    show ?thesis
    proof (cases "operands_of s")
      case None
      with l False show ?thesis by (auto simp: defs Let_def)
    next
      case (Some xs)
      with l obtain vals' where
        "operand_loop (arena_view ?a) args operands (ApplyOp # op_stack rt) (opn # value_stack rt) =
           Some (replicate (length xs) SwapEvalOp @ ApplyOp # op_stack rt, vals', Inr ())"
        and v: "list_all2 (den ?a) vals' (concat (map (\<lambda>x. [x, env]) (rev xs)) @ Atom b # vs)" by auto
      moreover have "tracks ?a (checkpoint_of ?a # checkpoint_stack rt) (NIL # vals')
          (Atom [] # concat (map (\<lambda>x. [x, env]) (rev xs)) @ Atom b # vs)"
        using tracks_checkpoint [OF assms(1)] v den_NIL_ONE(1) by (simp add: tracks_def)
      ultimately show ?thesis using False Some by (simp add: defs Let_def)
    qed
  qed
qed

lemma eval_pair_follows:
  assumes "tracks (rt_arena rt) (checkpoint_stack rt) (value_stack rt) vs"
    "den (rt_arena rt) program s" "den (rt_arena rt) args env"
  shows "\<exists>x. eval_pair rt program args = Some x \<and> follows (rt_arena rt) x (tree_eval s env vs (op_stack rt))"
proof -
  let ?a = "rt_arena rt"
  have c: "contents_ok ?a" using assms(1) by (simp add: tracks_def)
  show ?thesis
  proof (cases s)
    case (Atom path)
    with assms(2) have k: "node_kind_of ?a program = AtomNode" "arena_atom ?a program = Some path"
      using read_atom(1) [OF c] node_kind_atom_iff by auto
    from traverse_path_rel [OF arena_sim.related [OF c] assms(3), of path] show ?thesis
      using k Atom assms(1) tracks_push [OF assms(1)]
      by (cases rule: rel_sum.cases) (auto simp: eval_pair_def follows_def elim!: rel_prod.cases)
  next
    case (Pair opr operands)
    with read_pair(1) [of ?a program] assms(2) obtain x y
      where k: "node_kind_of ?a program = PairNode x y" and x: "den ?a x opr" and y: "den ?a y operands" by blast
    show ?thesis
    proof (cases opr)
      case (Atom b)
      with x have "node_kind_of ?a x = AtomNode" by (simp add: node_kind_atom_iff)
      with k Pair Atom eval_op_atom_follows [OF assms(1) _ y assms(3), of x b] x show ?thesis by (simp add: eval_pair_def)
    next
      case (Pair u w)
      with read_pair(1) [of ?a x] x obtain p q
        where k': "node_kind_of ?a x = PairNode p q" and p: "den ?a p u" and q: "den ?a q w" by blast
      have g: "node_kind_of ?a p = AtomNode \<and> nullp ?a q \<longleftrightarrow> (\<exists>b. u = Atom b) \<and> w = Atom []"
        using node_kind_atom_iff [OF p] nullp_den [OF c q] by simp
      have "tracks ?a (checkpoint_of ?a # checkpoint_stack rt) (y # p # value_stack rt) (operands # u # vs)"
        using tracks_checkpoint [OF assms(1)] y p by (simp add: tracks_def)
      with k k' g \<open>s = Pair opr operands\<close> Pair show ?thesis
        by (auto simp: eval_pair_def follows_def Let_def)
    qed
  qed
qed

section \<open>Writing results\<close>

lemma new_substr_heap: "new_substr a p i j = Inr (a', q) \<Longrightarrow> heap_used a \<le> heap_used a'"
  by (auto simp: new_substr_def Let_def bind_res_eq_Inr split: object_type.splits option.splits)

lemma new_concat_heap: "new_concat a n ns = Inr (a', q) \<Longrightarrow> heap_used a \<le> heap_used a'"
  by (auto simp: new_concat_def Let_def bind_res_eq_Inr simp del: concat_loop.simps split: list.splits if_splits dest!: concat_loop_grows)

lemma new_atom_heap: "new_atom a b = Inr (a', q) \<Longrightarrow> heap_used a \<le> heap_used a'"
  by (drule new_atom_counters) (simp add: counters_def)

lemma new_pair_heap: "new_pair a x y = Inr (a', q) \<Longrightarrow> heap_used a \<le> heap_used a'"
  by (drule new_pair_counters) (simp add: counters_def)

definition wrote :: "arena \<Rightarrow> arena \<Rightarrow> bool" where
  "wrote a a' \<longleftrightarrow> indexed a' \<and> grown a a' \<and> heap_used a \<le> heap_used a'"

lemma wrote_refl [simp]: "wrote a a \<longleftrightarrow> indexed a"
  by (simp add: wrote_def)

lemma wrote_trans: "wrote a b \<Longrightarrow> wrote b c \<Longrightarrow> wrote a c"
  using grown_trans by (auto simp: wrote_def)

lemma wrote_atom: "new_atom a b = Inr (a', p) \<Longrightarrow> indexed a \<Longrightarrow> wrote a a' \<and> live a' p"
  using new_atom_indexed [of a b a' p] new_atom_heap [of a b a' p] by (simp add: wrote_def)

lemma wrote_pair: "new_pair a x y = Inr (a', p) \<Longrightarrow> indexed a \<Longrightarrow> live a x \<Longrightarrow> live a y \<Longrightarrow> wrote a a' \<and> live a' p"
  using new_pair_indexed [of a x y a' p] new_pair_heap [of a x y a' p] by (simp add: wrote_def)

lemma wrote_substr: "new_substr a z i j = Inr (a', p) \<Longrightarrow> indexed a \<Longrightarrow> wrote a a' \<and> live a' p"
  using new_substr_indexed [of a z i j a' p] new_substr_heap [of a z i j a' p] by (simp add: wrote_def)

lemma wrote_concat:
  "new_concat a n ns = Inr (a', p) \<Longrightarrow> indexed a \<Longrightarrow> \<forall>z \<in> set ns. live a z \<Longrightarrow> wrote a a' \<and> live a' p"
  using new_concat_indexed [of a n ns a' p] new_concat_heap [of a n ns a' p] by (simp add: wrote_def)

lemma wrote_number: "new_number a n = Inr (a', p) \<Longrightarrow> indexed a \<Longrightarrow> wrote a a' \<and> live a' p"
  by (simp add: new_number_atom wrote_atom)

lemma wrote_step:
  assumes "(case x of Inl e \<Rightarrow> (a, Inl e) | Inr (a1, p) \<Rightarrow> (a1, Inr (c, p))) = (a', r)" "indexed a"
    "\<And>a1 p. x = Inr (a1, p) \<Longrightarrow> wrote a a1 \<and> live a1 p"
  shows "wrote a a' \<and> (\<forall>c' p. r = Inr (c', p) \<longrightarrow> live a' p)"
  using assms by (cases x) auto

lemma materialize_wrote:
  assumes "materialize out a c = (a', r)" "indexed a" "pred_op_out (live a) out"
  shows "wrote a a' \<and> (\<forall>c' p. r = Inr (c', p) \<longrightarrow> live a' p)"
proof (cases out)
  case (NumberPair n m)
  show ?thesis
  proof (cases "new_number a n")
    case (Inl e)
    with assms NumberPair show ?thesis by (auto simp: materialize_def)
  next
    case (Inr x)
    obtain a1 p where x: "x = (a1, p)" by (cases x)
    with Inr assms(2) have w1: "wrote a a1" "live a1 p" using wrote_number by blast+
    show ?thesis
    proof (cases "new_number a1 m")
      case (Inl e)
      with assms(1) NumberPair \<open>new_number a n = Inr x\<close> x w1 show ?thesis by (auto simp: materialize_def)
    next
      case (Inr y)
      obtain a2 q where y: "y = (a2, q)" by (cases y)
      with Inr w1 have w2: "wrote a1 a2" "live a2 q" using wrote_number [of a1 m a2 q] by (auto simp: wrote_def)
      with w1 have "live a2 p" by (auto simp: wrote_def intro: grown_live)
      moreover have "wrote a a2" using w1 w2 wrote_trans by blast
      moreover from this have "indexed a2" by (simp add: wrote_def)
      ultimately show ?thesis
        using assms(1) NumberPair \<open>new_number a n = Inr x\<close> x Inr y w2(2) wrote_pair [of a2 p q] wrote_trans [of a a2]
        by (cases "new_pair a2 p q") (auto simp: materialize_def Let_def)
    qed
  qed
next
  case (OutNumber n)
  with assms wrote_number [of a n] show ?thesis
    by (auto simp: materialize_def split: sum.splits option.splits prod.splits)
next
  case (OutPair x y)
  with assms show ?thesis by (intro wrote_step [where x = "new_pair a x y"] wrote_pair) (auto simp: materialize_def)
next
  case (Small b)
  with assms show ?thesis by (intro wrote_step [where x = "new_atom a b"] wrote_atom) (auto simp: materialize_def)
next
  case (Concat ns n)
  with assms show ?thesis
    by (intro wrote_step [where x = "new_concat a n ns"] wrote_concat) (auto simp: materialize_def list_all_iff)
next
  case (Substr x i j)
  with assms show ?thesis by (intro wrote_step [where x = "new_substr a x i j"] wrote_substr) (auto simp: materialize_def)
qed (use assms in \<open>auto simp: materialize_def\<close>)

text \<open>What was written denotes what the described result stands for, or memory ran out.\<close>

definition written :: "arena \<Rightarrow> vm_error + u64 \<times> node_ptr \<Rightarrow> vm_error + u64 \<times> sexp \<Rightarrow> bool" where
  "written a' r t \<longleftrightarrow> (case r of
     Inl e \<Rightarrow> resource_error e \<or> t = Inl e
   | Inr (c, p) \<Rightarrow> contents_ok a' \<and> (\<exists>s. t = Inr (c, s) \<and> den a' p s))"

lemma resource_new:
  "new_atom a b = Inl e \<Longrightarrow> resource_error e" "new_pair a x y = Inl e \<Longrightarrow> resource_error e"
  using new_atom_Inl [of a b e] new_pair_Inl [of a x y e] by (auto simp: resource_error_def)

lemma written_number:
  assumes "indexed a" "contents_ok a" "new_number a n = Inr (a', p)"
  shows "contents_ok a'" "den a' p (Atom (number_bytes n))" "atom_len a' p = Some (length (number_bytes n))"
    "indexed a'" "grown a a'"
proof -
  have n: "new_atom a (number_bytes n) = Inr (a', p)" using assms(3) by (simp add: new_number_atom)
  show c: "contents_ok a'" and d: "den a' p (Atom (number_bytes n))"
    by (rule new_atom_contents [OF n assms(1,2)])+
  show "atom_len a' p = Some (length (number_bytes n))" by (rule read_atom(2) [OF c d])
  show "indexed a'" "grown a a'" using new_atom_indexed [OF n assms(1)] by simp_all
qed

lemma written_number_pair:
  assumes "materialize (NumberPair n m) a c = (a', r)" "indexed a" "contents_ok a"
  shows "written a' r (tree_out c (NumberPair n m))"
proof (cases "new_number a n")
  case (Inl e)
  with assms show ?thesis by (auto simp: materialize_def written_def new_number_atom resource_new)
next
  case (Inr x)
  obtain a1 p where x: "new_number a n = Inr (a1, p)" using Inr by (cases x) auto
  note w1 = written_number [OF assms(2,3) x]
  show ?thesis
  proof (cases "new_number a1 m")
    case (Inl e)
    with assms x show ?thesis by (auto simp: materialize_def written_def new_number_atom resource_new)
  next
    case (Inr y)
    obtain a2 q where y: "new_number a1 m = Inr (a2, q)" using Inr by (cases y) auto
    note w2 = written_number [OF w1(4,1) y]
    have p: "den a2 p (Atom (number_bytes n))" by (rule grown_den [OF w2(5) w1(1,2)])
    note len = read_atom(2) [OF w2(1) p] w2(3)
    show ?thesis
    proof (cases "new_pair a2 p q")
      case (Inl e)
      with assms x y show ?thesis by (auto simp: materialize_def Let_def written_def resource_new)
    next
      case (Inr z)
      obtain a3 o3 where z: "new_pair a2 p q = Inr (a3, o3)" using Inr by (cases z) auto
      with assms x y len new_pair_contents [OF z w2(4,1) p w2(2)] show ?thesis
        by (auto simp: materialize_def Let_def written_def)
    qed
  qed
qed

lemma written_concat:
  assumes "materialize (Concat ns n) a c = (a', r)" "indexed a" "contents_ok a" "list_all2 (den a) ns ss"
    "ss = map Atom bs" "n = length (concat bs)"
  shows "written a' r (tree_out c (Concat ss n))"
proof -
  have bs: "concat (map bytes_of ss) = concat bs" by (simp add: assms(5) comp_def)
  have "list_all2 (den a) ns (map Atom bs)" using assms(4,5) by simp
  from new_concat_spec [OF assms(2,3) this assms(6)] show ?thesis
    using assms(1) bs by (auto simp: materialize_def written_def resource_error_def)
qed

lemma written_substr:
  assumes "materialize (Substr p i j) a c = (a', r)" "indexed a" "contents_ok a" "den a p (Atom b)"
    "heap_used a' \<le> HEAP_LIMIT"
  shows "written a' r (tree_out c (Substr (Atom b) i j))"
proof (cases "new_substr a p i j")
  case (Inl e)
  with assms(1) new_substr_Inl [OF Inl assms(3,4)] show ?thesis
    by (auto simp: materialize_def written_def resource_error_def)
next
  case (Inr x)
  obtain a1 q where x: "new_substr a p i j = Inr (a1, q)" using Inr by (cases x) auto
  with assms(1) have "a1 = a'" "r = Inr (c, q)" by (simp_all add: materialize_def)
  with new_substr_contents [OF _ assms(2-4), of i j a1 q] x assms(5) show ?thesis by (simp add: written_def)
qed


lemma written_materialize:
  assumes "materialize out a c = (a', r)" "indexed a" "contents_ok a" "rel_op_out (den a) out out'" "shaped c out'"
    "heap_used a' \<le> HEAP_LIMIT"
  shows "written a' r (tree_out c out')"
  using assms(4)
proof (cases rule: op_out.rel_cases)
  case (Same x y)
  with assms show ?thesis by (auto simp: materialize_def written_def)
next
  case (OutPair x1 x2 y1 y2)
  with assms resource_new(2) new_pair_contents [of a x1 x2 _ _ y1 y2] show ?thesis
    by (cases "new_pair a x1 x2") (auto simp: materialize_def written_def)
next
  case (OutNumber n m)
  with assms resource_new(1) written_number [OF assms(2,3), of n] show ?thesis
    by (cases "new_number a n") (auto simp: materialize_def written_def new_number_atom)
next
  case (Small b b')
  with assms resource_new(1) new_atom_contents [of a b] show ?thesis
    by (cases "new_atom a b") (auto simp: materialize_def written_def)
next
  case (Concat ns n ss n')
  with assms show ?thesis using written_concat [of ns n a c a' r ss] by auto
next
  case (Substr p i j s i' j')
  with assms(5) obtain b where "s = Atom b" by auto
  with assms Substr written_substr [of p i j a c a' r b] show ?thesis by simp
next
  case (NumberPair x1 x2 y1 y2)
  with assms written_number_pair [of x1 x2 a c a' r] show ?thesis by simp
qed

section \<open>Memory is never given back\<close>

lemma materialize_heap: "materialize out a c = (a', r) \<Longrightarrow> heap_used a \<le> heap_used a'"
proof (cases out)
  case (NumberPair n m)
  assume m: "materialize out a c = (a', r)"
  show ?thesis
  proof (cases "new_number a n")
    case (Inr x)
    obtain a1 p where x: "x = (a1, p)" by (cases x)
    have 1: "heap_used a \<le> heap_used a1" using Inr x by (auto simp: new_number_atom dest: new_atom_heap)
    show ?thesis
    proof (cases "new_number a1 m")
      case (Inr y)
      obtain a2 q where y: "y = (a2, q)" by (cases y)
      have 2: "heap_used a1 \<le> heap_used a2" using Inr y by (auto simp: new_number_atom dest: new_atom_heap)
      show ?thesis
        using m NumberPair \<open>new_number a n = Inr x\<close> x Inr y 1 2 new_pair_heap [of a2 p q]
        by (cases "new_pair a2 p q") (fastforce simp: materialize_def Let_def)+
    qed (use m NumberPair Inr x 1 in \<open>auto simp: materialize_def\<close>)
  qed (use m NumberPair in \<open>auto simp: materialize_def\<close>)
next
  case (OutNumber n)
  assume "materialize out a c = (a', r)"
  with OutNumber show ?thesis
    by (auto simp: materialize_def new_number_atom split: sum.splits option.splits dest: new_atom_heap)
next
  case (OutPair x y)
  assume "materialize out a c = (a', r)"
  with OutPair show ?thesis by (cases "new_pair a x y") (auto simp: materialize_def dest: new_pair_heap)
next
  case (Small b)
  assume "materialize out a c = (a', r)"
  with Small show ?thesis by (cases "new_atom a b") (auto simp: materialize_def dest: new_atom_heap)
next
  case (Concat ns n)
  assume "materialize out a c = (a', r)"
  with Concat show ?thesis by (cases "new_concat a n ns") (auto simp: materialize_def dest: new_concat_heap)
next
  case (Substr x i j)
  assume "materialize out a c = (a', r)"
  with Substr show ?thesis by (cases "new_substr a x i j") (auto simp: materialize_def dest: new_substr_heap)
qed (simp add: materialize_def)

text \<open>What no step changes, and that the bytes charged only grow.\<close>

definition onward :: "('a1, 'p1, 'p2) runtime \<Rightarrow> ('a1, 'p1, 'p2) runtime \<Rightarrow> bool" where
  "onward rt rt' \<longleftrightarrow> rt_dialect rt' = rt_dialect rt \<and> rt_max_cost rt' = rt_max_cost rt \<and>
     heap_used (rt_arena rt) \<le> heap_used (rt_arena rt')"

lemma onward_refl [simp]: "onward rt rt"
  by (simp add: onward_def)

lemma onward_trans: "onward rt rt' \<Longrightarrow> onward rt' rt'' \<Longrightarrow> onward rt rt''"
  by (auto simp: onward_def)

definition same_arena :: "('a1, 'p1, 'p2) runtime \<Rightarrow> ('a1, 'p1, 'p2) runtime \<Rightarrow> bool" where
  "same_arena rt rt' \<longleftrightarrow> rt_arena rt' = rt_arena rt \<and> rt_dialect rt' = rt_dialect rt \<and> rt_max_cost rt' = rt_max_cost rt"

lemma same_arena_onward: "same_arena rt rt' \<Longrightarrow> onward rt rt'"
  by (simp add: same_arena_def onward_def)

lemma eval_op_atom_arena: "eval_op_atom rt x y args = Some (rt', r) \<Longrightarrow> same_arena rt rt'"
  by (cases "arena_atom (rt_arena rt) x"; cases "operand_loop (arena_view (rt_arena rt)) args y (ApplyOp # op_stack rt) (x # value_stack rt)")
    (auto simp: eval_op_atom_def same_arena_def Let_def split: if_splits sum.splits)

lemma eval_pair_arena:
  assumes "eval_pair rt p q = Some (rt', r)"
  shows "same_arena rt rt'"
proof (cases "node_kind_of (rt_arena rt) p")
  case AtomNode
  with assms show ?thesis by (auto simp: eval_pair_def same_arena_def Let_def split: option.splits sum.splits)
next
  case (PairNode x y)
  with assms eval_op_atom_arena [of rt x y q rt' r] show ?thesis
    by (cases "node_kind_of (rt_arena rt) x") (auto simp: eval_pair_def same_arena_def Let_def split: if_splits)
qed

lemma cons_step_onward: "cons_step rt = (rt', r) \<Longrightarrow> onward rt rt'"
  by (auto simp: cons_step_def onward_def split: list.splits sum.splits dest: new_pair_heap)

lemma eval_pair_onward:
  assumes "eval_pair (rt\<lparr>value_stack := vs, op_stack := ops, checkpoint_stack := cps\<rparr>) p q = Some (rt', r)"
  shows "onward rt rt'"
  using eval_pair_arena [OF assms] by (simp add: same_arena_def onward_def)

lemma apply_program_onward:
  assumes "apply_program rt p = Some (rt', r)"
  shows "onward rt rt'"
proof (cases "\<exists>x y u w. next_of (rt_arena rt) p = Some (x, y) \<and> next_of (rt_arena rt) y = Some (u, w)")
  case True
  then obtain x y u w where n: "next_of (rt_arena rt) p = Some (x, y)" "next_of (rt_arena rt) y = Some (u, w)" by blast
  with assms eval_pair_arena [of "rt\<lparr>checkpoint_stack := tl (checkpoint_stack rt)\<rparr>" x u rt'] show ?thesis
    by (auto simp: apply_program_def onward_def same_arena_def Let_def split: if_splits)
next
  case False
  with assms show ?thesis
    by (cases "next_of (rt_arena rt) p"; cases "next_of (rt_arena rt) (snd (the (next_of (rt_arena rt) p)))")
      (auto simp: apply_program_def onward_def Let_def split: if_splits)
qed

lemma finish_op_onward:
  assumes "finish_op rt c out = (rt', r)"
  shows "onward rt rt'"
proof -
  define a where "a = (if is_self_contained out
    then case checkpoint_stack rt of cp # _ \<Rightarrow> restore (rt_arena rt) cp | [] \<Rightarrow> rt_arena rt else rt_arena rt)"
  have h: "heap_used a = heap_used (rt_arena rt)" by (auto simp: a_def restore_def split: list.split)
  obtain a' x where m: "materialize out a c = (a', x)" by (cases "materialize out a c")
  with assms h materialize_heap [OF m] show ?thesis
    by (cases x) (auto simp: finish_op_def onward_def Let_def simp flip: a_def)
qed

lemma apply_op_onward:
  assumes "apply_op rt m = Some (rt', r)"
  shows "onward rt rt'"
proof (cases "\<exists>x y vs. value_stack rt = x # y # vs")
  case True
  then obtain x y vs where v: "value_stack rt = x # y # vs" by blast
  let ?rt = "rt\<lparr>value_stack := vs\<rparr>"
  have "onward ?rt rt'"
  proof (cases "arena_atom (rt_arena rt) y")
    case None
    with assms v show ?thesis by (simp add: apply_op_def Let_def)
  next
    case (Some b)
    show ?thesis
    proof (cases "b = apply_kw")
      case True
      with assms v Some show ?thesis by (simp add: apply_op_def Let_def apply_program_onward)
    next
      case False
      with assms v Some obtain z where "dialect_op (rt_dialect rt) (arena_view (rt_arena rt)) y x m = Some z"
        "(case z of Inl e \<Rightarrow> (?rt, Inl e) | Inr (cost, out) \<Rightarrow> finish_op ?rt cost out) = (rt', r)"
        by (auto simp: apply_op_def Let_def)
      then show ?thesis by (cases z) (auto dest: finish_op_onward)
    qed
  qed
  then show ?thesis by (simp add: onward_def)
next
  case False
  with assms show ?thesis by (auto simp: apply_op_def onward_def split: list.splits)
qed

lemma run_op_onward:
  assumes "run_op op rt m = Some (rt', r)"
  shows "onward rt rt'"
proof (cases op)
  case EvalOp
  with assms show ?thesis
    by (auto simp: eval_op_def onward_def same_arena_def split: list.splits dest!: eval_pair_arena)
next
  case SwapEvalOp
  with assms show ?thesis
    by (auto simp: swap_eval_op_def onward_def same_arena_def split: list.splits dest!: eval_pair_arena)
qed (use assms apply_op_onward cons_step_onward in auto)

section \<open>Steps\<close>

text \<open>A step of the arena machine and the step of the tree machine on the trees its values denote.\<close>

definition matched :: "('a1, 'p1, 'p2) runtime \<times> (vm_error + u64) \<Rightarrow> tree_result option \<Rightarrow> bool" where
  "matched x t \<longleftrightarrow> (case x of
     (rt', Inl e) \<Rightarrow> resource_error e \<or> t = Some (Inl e)
   | (rt', Inr c) \<Rightarrow> rt_ok rt' \<and> (\<exists>vs. t = Some (Inr (c, vs, op_stack rt')) \<and>
       tracks (rt_arena rt') (checkpoint_stack rt') (value_stack rt') vs))"

lemma matched_eval:
  assumes "stacks_ok (rt_arena rt) (checkpoint_stack rt) (value_stack rt)"
    "frames (op_stack rt) (checkpoint_stack rt) (value_stack rt)"
    "tracks (rt_arena rt) (checkpoint_stack rt) (value_stack rt) vs"
    "den (rt_arena rt) program s" "den (rt_arena rt) args env" "eval_pair rt program args = Some x"
  shows "matched x (Some (tree_eval s env vs (op_stack rt)))"
proof -
  obtain rt' r where x: "x = (rt', r)" by (cases x)
  have "is_ok r \<longrightarrow> rt_ok rt'" "rt_arena rt' = rt_arena rt"
    using eval_pair_ok [OF assms(1,2) den_live [OF assms(4)] den_live [OF assms(5)]] assms(6) x by auto
  moreover have "follows (rt_arena rt) x (tree_eval s env vs (op_stack rt))"
    using eval_pair_follows [OF assms(3-5)] assms(6) by auto
  ultimately show ?thesis
    by (cases r; cases "tree_eval s env vs (op_stack rt)") (auto simp: x matched_def follows_def)
qed

lemma matched_cons:
  assumes "stacks_ok (rt_arena rt) (checkpoint_stack rt) (p # q # vals)" "frames (op_stack rt) (checkpoint_stack rt) vals"
    "tracks (rt_arena rt) (checkpoint_stack rt) (p # q # vals) (s # t # vs)" "value_stack rt = p # q # vals"
  shows "matched (cons_step rt) (Some (Inr (0, Pair s t # vs, op_stack rt)))"
proof (cases "new_pair (rt_arena rt) p q")
  case (Inl e)
  with assms(4) resource_new(2) [OF Inl] show ?thesis by (simp add: cons_step_def matched_def)
next
  case (Inr x)
  obtain a' z where n: "new_pair (rt_arena rt) p q = Inr (a', z)" using Inr by (cases x) auto
  have i: "indexed (rt_arena rt)" "live (rt_arena rt) p" "live (rt_arena rt) q" using assms(1) by (simp_all add: stacks_ok_def)
  have d: "contents_ok (rt_arena rt)" "den (rt_arena rt) p s" "den (rt_arena rt) q t" using assms(3) by (simp_all add: tracks_def)
  have w: "indexed a'" "grown (rt_arena rt) a'" "live a' z" using new_pair_indexed [OF n i] by simp_all
  note c = new_pair_contents [OF n i(1) d]
  have "stacks_ok (rt_arena rt) (checkpoint_stack rt) vals" using assms(1) by (simp add: stacks_ok_def)
  then have "stacks_ok a' (checkpoint_stack rt) (z # vals)" by (rule stacks_ok_push [OF stacks_ok_grown [OF _ w(2,1)] w(3)])
  moreover have "tracks (rt_arena rt) (checkpoint_stack rt) vals vs" using assms(3) by (simp add: tracks_def)
  then have "tracks a' (checkpoint_stack rt) (z # vals) (Pair s t # vs)"
    by (rule tracks_push [OF tracks_grown [OF _ w(2) c(1)] c(2)])
  ultimately show ?thesis using n assms(2,4) by (simp add: cons_step_def matched_def rt_ok_def)
qed

lemma arg_count_is_tree: "arg_count_is sexp_view s 2 \<longleftrightarrow> (\<exists>x y. s = Pair x (Pair y (Atom [])))"
  by (cases s; cases "snd (the (sexp_next s))")
    (auto simp: numeral_2_eq_2 sexp_view_def split: sexp.splits elim: sexp_next.elims)

lemma tree_apply_other: "\<not> (\<exists>x y. s = Pair x (Pair y (Atom []))) \<Longrightarrow> tree_apply s vs ops = Inl InvalidApplyArgs"
  by (cases "(s, vs, ops)" rule: tree_apply.cases) auto

lemma matched_add_cost:
  "matched x (Some t) \<Longrightarrow> matched (map_prod id (map_sum id (\<lambda>c. c + k)) x)
     (Some (bind_res t (\<lambda>(c, vs, ops). Inr (c + k, vs, ops))))"
  by (cases x; cases "snd x"; cases t) (auto simp: matched_def)

lemma matched_apply_program:
  assumes "stacks_ok (rt_arena rt) (checkpoint_stack rt) (value_stack rt)"
    "frames (op_stack rt) (tl (checkpoint_stack rt)) (value_stack rt)" "checkpoint_stack rt \<noteq> []"
    "tracks (rt_arena rt) (checkpoint_stack rt) (value_stack rt) vs"
    "den (rt_arena rt) args s" "apply_program rt args = Some x"
  shows "matched x (Some (tree_apply s vs (op_stack rt)))"
proof -
  let ?a = "rt_arena rt" and ?rt = "rt\<lparr>checkpoint_stack := tl (checkpoint_stack rt)\<rparr>"
  have c: "contents_ok ?a" using assms(4) by (simp add: tracks_def)
  have n: "arg_count_is (arena_view ?a) args 2 \<longleftrightarrow> (\<exists>x y. s = Pair x (Pair y (Atom [])))"
    using arg_count_is_rel [OF arena_sim.related [OF c] assms(5)] arg_count_is_tree by simp
  show ?thesis
  proof (cases "\<exists>x y. s = Pair x (Pair y (Atom []))")
    case False
    with n assms(6) have "x = (?rt, Inl InvalidApplyArgs)" by (simp add: apply_program_def Let_def)
    with False show ?thesis by (simp add: matched_def tree_apply_other)
  next
    case True
    then obtain prog env where s: "s = Pair prog (Pair env (Atom []))" by blast
    from read_pair(1) [of ?a args] assms(5) s obtain p w where p: "next_of ?a args = Some (p, w)" "den ?a p prog"
      "den ?a w (Pair env (Atom []))" by blast
    from read_pair(1) [OF p(3)] obtain q z where q: "next_of ?a w = Some (q, z)" "den ?a q env" by blast
    with assms(6) n True p obtain y where y: "eval_pair ?rt p q = Some y"
      "x = map_prod id (map_sum id (\<lambda>c. c + APPLY_COST)) y"
      by (auto simp: apply_program_def Let_def map_prod_def)
    have "matched y (Some (tree_eval prog env vs (op_stack rt)))"
      using matched_eval [of ?rt vs p prog q env y] assms p q y
      by (cases "checkpoint_stack rt") (auto simp: stacks_ok_def tracks_def)
    from matched_add_cost [OF this, of APPLY_COST] y(2) s show ?thesis by simp
  qed
qed

lemma rel_out_live: "rel_op_out (den a) out out' \<Longrightarrow> pred_op_out (live a) out"
  by (erule op_out.rel_cases) (auto simp: list_all_length list_all2_conv_all_nth dest: den_live)

lemma rel_out_self: "is_self_contained out \<Longrightarrow> rel_op_out R out out' \<Longrightarrow> rel_op_out S out out'"
  by (cases out; cases out') auto

lemma matched_write:
  assumes "stacks_ok a cps (value_stack rt)" "tracks a cps (value_stack rt) vs" "frames (op_stack rt) cps (value_stack rt)"
    "rel_op_out (den a) out out'" "shaped c out'" "materialize out a c = (a', r)" "heap_used a' \<le> HEAP_LIMIT"
  shows "matched (case r of
       Inl e \<Rightarrow> (rt\<lparr>checkpoint_stack := cps, rt_arena := a'\<rparr>, Inl e)
     | Inr (c', p) \<Rightarrow> (rt\<lparr>checkpoint_stack := cps, rt_arena := a', value_stack := p # value_stack rt\<rparr>, Inr c'))
    (Some (bind_res (tree_out c out') (\<lambda>(c', s). Inr (c', s # vs, op_stack rt))))"
proof -
  have i: "indexed a" using assms(1) by (simp add: stacks_ok_def)
  have c: "contents_ok a" using assms(2) by (simp add: tracks_def)
  note w = written_materialize [OF assms(6) i c assms(4,5,7)]
  note l = materialize_wrote [OF assms(6) i rel_out_live [OF assms(4)]]
  show ?thesis
  proof (cases r)
    case (Inl e)
    with w show ?thesis by (auto simp: written_def matched_def)
  next
    case (Inr x)
    obtain c' p where r: "r = Inr (c', p)" using Inr by (cases x) auto
    with w obtain s where s: "contents_ok a'" "tree_out c out' = Inr (c', s)" "den a' p s" by (auto simp: written_def)
    have g: "indexed a'" "grown a a'" "live a' p" using l r by (auto simp: wrote_def)
    have "stacks_ok a' cps (p # value_stack rt)" by (rule stacks_ok_push [OF stacks_ok_grown [OF assms(1) g(2,1)] g(3)])
    moreover have "tracks a' cps (p # value_stack rt) (s # vs)" by (rule tracks_push [OF tracks_grown [OF assms(2) g(2) s(1)] s(3)])
    ultimately show ?thesis using r s(2) assms(3) by (simp add: matched_def rt_ok_def)
  qed
qed

lemma finish_op_eq:
  assumes "checkpoint_stack rt = cp # cps" "a = (if is_self_contained out then restore (rt_arena rt) cp else rt_arena rt)"
    "materialize out a c = (a', r)"
  shows "finish_op rt c out = (case r of
       Inl e \<Rightarrow> (rt\<lparr>checkpoint_stack := cps, rt_arena := a'\<rparr>, Inl e)
     | Inr (c', p) \<Rightarrow> (rt\<lparr>checkpoint_stack := cps, rt_arena := a', value_stack := p # value_stack rt\<rparr>, Inr c'))"
  using assms by (cases r) (auto simp: finish_op_def Let_def)

lemma matched_finish:
  assumes cps: "checkpoint_stack rt = cp # cps"
    and "stacks_ok (rt_arena rt) (cp # cps) (value_stack rt)" "tracks (rt_arena rt) (cp # cps) (value_stack rt) vs"
    and "\<forall>x \<in> set (value_stack rt). under cp x" "frames (op_stack rt) cps (value_stack rt)"
    and "rel_op_out (den (rt_arena rt)) out out'" "shaped c out'" "heap_used (rt_arena (fst (finish_op rt c out))) \<le> HEAP_LIMIT"
  shows "matched (finish_op rt c out) (Some (bind_res (tree_out c out') (\<lambda>(c', s). Inr (c', s # vs, op_stack rt))))"
proof -
  define a where "a = (if is_self_contained out then restore (rt_arena rt) cp else rt_arena rt)"
  obtain a' r where m: "materialize out a c = (a', r)" by (cases "materialize out a c")
  note f = finish_op_eq [OF cps a_def m]
  have "heap_used a' \<le> HEAP_LIMIT" using assms(8) by (cases r) (auto simp: f)
  moreover have "stacks_ok a cps (value_stack rt) \<and> tracks a cps (value_stack rt) vs \<and> rel_op_out (den a) out out'"
  proof (cases "is_self_contained out")
    case True
    with assms stacks_ok_restore tracks_restore rel_out_self [of out "den (rt_arena rt)" out'] show ?thesis
      by (auto simp: a_def)
  next
    case False
    with assms show ?thesis by (simp add: a_def stacks_ok_def tracks_def)
  qed
  ultimately show ?thesis using matched_write [of a cps rt vs out out' c a' r] m assms(5,7) by (simp add: f)
qed

lemma matched_apply:
  assumes "checkpoint_stack rt = cp # cps" "value_stack rt = args # opr # vals"
    "stacks_ok (rt_arena rt) (cp # cps) (args # opr # vals)" "tracks (rt_arena rt) (cp # cps) (args # opr # vals) (t # s # vs)"
    "\<forall>x \<in> set vals. under cp x" "frames (op_stack rt) cps vals"
    "apply_op rt m = Some x" "heap_used (rt_arena (fst x)) \<le> HEAP_LIMIT"
  shows "matched x (tree_step (rt_dialect rt) ApplyOp (t # s # vs) (op_stack rt) m)"
proof -
  let ?a = "rt_arena rt" and ?rt = "rt\<lparr>value_stack := vals\<rparr>"
  have c: "contents_ok ?a" and d: "den ?a args t" "den ?a opr s" using assms(4) by (simp_all add: tracks_def)
  have st: "stacks_ok ?a (cp # cps) vals" and tr: "tracks ?a (cp # cps) vals vs"
    using assms(3,4) by (simp_all add: stacks_ok_def tracks_def)
  show ?thesis
  proof (cases s)
    case (Pair s1 s2)
    with d(2) have "arena_atom ?a opr = None" by (simp add: read_pair(2))
    with assms(2,7) Pair show ?thesis by (auto simp: apply_op_def Let_def matched_def)
  next
    case (Atom b)
    with d(2) have b: "arena_atom ?a opr = Some b" by (simp add: read_atom(1) [OF c])
    show ?thesis
    proof (cases "b = apply_kw")
      case True
      with assms(2,7) b have "apply_program ?rt args = Some x" by (simp add: apply_op_def Let_def)
      with matched_apply_program [of ?rt vs args t x] assms(1,6) st tr d Atom True show ?thesis by simp
    next
      case False
      let ?t = "dialect_op (rt_dialect rt) sexp_view (Atom b) t m"
      from assms(2,7) b False obtain z where z: "dialect_op (rt_dialect rt) (arena_view ?a) opr args m = Some z"
        "x = (case z of Inl e \<Rightarrow> (?rt, Inl e) | Inr (cost, out) \<Rightarrow> finish_op ?rt cost out)"
        by (auto simp: apply_op_def Let_def)
      have "rel_option (rel_out (den ?a)) (Some z) ?t"
        using arena_sim.operators [OF c, of opr "Atom b" args t "rt_dialect rt" m] d Atom z(1) by simp
      then obtain z' where z': "?t = Some z'" "rel_out (den ?a) z z'" by (cases ?t) auto
      from z'(2) show ?thesis
      proof (cases rule: rel_sum.cases)
        case (1 e e')
        with z z' Atom False show ?thesis by (simp add: matched_def)
      next
        case (2 y y')
        then obtain cost out out' where y: "z = Inr (cost, out)" "z' = Inr (cost, out')" "rel_op_out (den ?a) out out'"
          by (auto elim!: rel_prod.cases)
        have "shaped cost out'" using dialect_op_shaped z'(1) y(2) by blast
        with matched_finish [of ?rt cp cps vs out out' cost] assms(1,5,6,8) st tr y z(2) show ?thesis
          using z' Atom False by simp
      qed
    qed
  qed
qed

lemma matched_run_op:
  assumes "rt_ok (rt\<lparr>op_stack := op # ops\<rparr>)" "tracks (rt_arena rt) (checkpoint_stack rt) (value_stack rt) vs"
    "run_op op (rt\<lparr>op_stack := ops\<rparr>) m = Some x" "heap_used (rt_arena (fst x)) \<le> HEAP_LIMIT"
  shows "matched x (tree_step (rt_dialect rt) op vs ops m)"
proof -
  let ?rt = "rt\<lparr>op_stack := ops\<rparr>"
  from assms(1) obtain p vals where v: "value_stack rt = p # vals" "frames (op # ops) (checkpoint_stack rt) vals"
    and st: "stacks_ok (rt_arena rt) (checkpoint_stack rt) (value_stack rt)" by (auto simp: rt_ok_def)
  from v(1) assms(2) obtain s vs' where vs: "vs = s # vs'" "den (rt_arena rt) p s"
    "tracks (rt_arena rt) (checkpoint_stack rt) vals vs'"
    by (auto simp: tracks_def list_all2_Cons1)
  show ?thesis
  proof (cases op)
    case ConsOp
    with v obtain q w where q: "vals = q # w" "frames ops (checkpoint_stack rt) w" by (auto simp: frames_iff)
    with vs obtain t us where "vs' = t # us" by (auto simp: tracks_def list_all2_Cons1)
    with ConsOp q v vs st assms matched_cons [of ?rt p q w s t us] show ?thesis by (simp add: v)
  next
    case EvalOp
    with v obtain q w where q: "vals = q # w" "frames ops (checkpoint_stack rt) w" by (auto simp: frames_iff)
    with vs obtain t us where t: "vs' = t # us" "den (rt_arena rt) q t" "tracks (rt_arena rt) (checkpoint_stack rt) w us"
      by (auto simp: tracks_def list_all2_Cons1)
    have "eval_pair (?rt\<lparr>value_stack := w\<rparr>) q p = Some x" using assms(3) EvalOp v q by (simp add: eval_op_def)
    with matched_eval [of "?rt\<lparr>value_stack := w\<rparr>" us q t p s x] EvalOp q v vs t st show ?thesis
      by (simp add: stacks_ok_def)
  next
    case SwapEvalOp
    with v obtain q e w where q: "vals = q # e # w" "frames ops (checkpoint_stack rt) w" by (auto simp: frames_iff)
    with vs obtain t u us where t: "vs' = t # u # us" "den (rt_arena rt) q t" "den (rt_arena rt) e u"
      "tracks (rt_arena rt) (checkpoint_stack rt) w us"
      by (auto simp: tracks_def list_all2_Cons1)
    let ?rt' = "?rt\<lparr>value_stack := p # w, op_stack := ConsOp # ops\<rparr>"
    have "eval_pair ?rt' q e = Some x" using assms(3) SwapEvalOp v q by (simp add: swap_eval_op_def)
    with matched_eval [of ?rt' "s # us" q t e u x] SwapEvalOp q v vs t st show ?thesis
      by (simp add: stacks_ok_def tracks_push)
  next
    case ApplyOp
    with v obtain cp cps q w where q: "checkpoint_stack rt = cp # cps" "vals = q # w" "\<forall>x \<in> set w. under cp x" "frames ops cps w"
      by (auto simp: frames_iff)
    with vs obtain t us where "vs' = t # us" by (auto simp: tracks_def list_all2_Cons1)
    with ApplyOp q v vs st assms matched_apply [of ?rt cp cps p q w s t us m x] show ?thesis by simp
  qed
qed

section \<open>Runs\<close>

lemma run_loop_onward:
  assumes "run_loop rt max_cost cost = Some (rt', r)"
  shows "onward rt rt'"
proof -
  have "onward rt (fst (rt', r))"
  proof (rule run_loop.raw_induct [where P = "\<lambda>rt m c x. onward rt (fst x)", OF _ assms])
    fix loop and rt :: "('a, 'b, 'c) runtime" and m c x
    assume IH: "\<And>rt m c x. loop rt m c = Some x \<Longrightarrow> onward rt (fst x)"
      and eq: "(case op_stack rt of [] \<Rightarrow> Some (rt, Inr c) | op # ops \<Rightarrow>
        (case run_op op (rt\<lparr>op_stack := ops\<rparr>) (m - c) of None \<Rightarrow> None
         | Some (rt', Inl e) \<Rightarrow> Some (rt', Inl e)
         | Some (rt', Inr c') \<Rightarrow> if c + c' > m then Some (rt', Inl (CostExceeded (c + c') (rt_max_cost rt')))
             else loop rt' m (c + c'))) = Some x"
    show "onward rt (fst x)"
    proof (cases "op_stack rt")
      case Nil
      with eq show ?thesis by auto
    next
      case (Cons op ops)
      with eq obtain rt1 r1 where s: "run_op op (rt\<lparr>op_stack := ops\<rparr>) (m - c) = Some (rt1, r1)"
        by (cases "run_op op (rt\<lparr>op_stack := ops\<rparr>) (m - c)") auto
      have "onward rt rt1" using run_op_onward [OF s] by (simp add: onward_def)
      moreover have "onward rt1 (fst x)"
        using eq Cons s IH [of rt1] by (cases r1) (auto split: if_splits)
      ultimately show ?thesis by (rule onward_trans)
    qed
  qed
  then show ?thesis by simp
qed

text \<open>What the end of a run says about the tree machine.\<close>

definition ended :: "('a1, 'p1, 'p2) runtime \<times> (vm_error + u64) \<Rightarrow> (vm_error + u64 \<times> sexp list) option \<Rightarrow> bool" where
  "ended x t \<longleftrightarrow> (case x of
     (rt', Inl e) \<Rightarrow> resource_error e \<or> t = Some (Inl e)
   | (rt', Inr c) \<Rightarrow> op_stack rt' = [] \<and> checkpoint_stack rt' = [] \<and>
       (\<exists>p s. value_stack rt' = [p] \<and> den (rt_arena rt') p s \<and> t = Some (Inr (c, [s]))))"

lemma run_loop_ended:
  assumes "run_loop rt max_cost cost = Some x" "rt_ok rt"
    "tracks (rt_arena rt) (checkpoint_stack rt) (value_stack rt) vs" "heap_used (rt_arena (fst x)) \<le> HEAP_LIMIT"
  shows "ended x (tree_loop (rt_dialect rt) (rt_max_cost rt) max_cost cost vs (op_stack rt))"
proof -
  let ?P = "\<lambda>rt m c x. \<forall>vs. rt_ok rt \<longrightarrow> tracks (rt_arena rt) (checkpoint_stack rt) (value_stack rt) vs \<longrightarrow>
    run_loop rt m c = Some x \<longrightarrow> heap_used (rt_arena (fst x)) \<le> HEAP_LIMIT \<longrightarrow> ended x (tree_loop (rt_dialect rt) (rt_max_cost rt) m c vs (op_stack rt))"
  have "?P rt max_cost cost x"
  proof (rule run_loop.raw_induct [where P = ?P, OF _ assms(1)], intro allI impI)
    fix loop and rt :: "('a, 'b, 'c) runtime" and m c x vs
    assume IH: "\<And>rt m c x. loop rt m c = Some x \<Longrightarrow> ?P rt m c x"
      and eq: "(case op_stack rt of [] \<Rightarrow> Some (rt, Inr c) | op # ops \<Rightarrow>
        (case run_op op (rt\<lparr>op_stack := ops\<rparr>) (m - c) of None \<Rightarrow> None
         | Some (rt', Inl e) \<Rightarrow> Some (rt', Inl e)
         | Some (rt', Inr c') \<Rightarrow> if c + c' > m then Some (rt', Inl (CostExceeded (c + c') (rt_max_cost rt')))
             else loop rt' m (c + c'))) = Some x"
      and ok: "rt_ok rt" "tracks (rt_arena rt) (checkpoint_stack rt) (value_stack rt) vs"
      and run: "run_loop rt m c = Some x" and heap: "heap_used (rt_arena (fst x)) \<le> HEAP_LIMIT"
    show "ended x (tree_loop (rt_dialect rt) (rt_max_cost rt) m c vs (op_stack rt))"
    proof (cases "op_stack rt")
      case Nil
      then have "x = (rt, Inr c)" using eq by simp
      with Nil ok show ?thesis
        by (subst tree_loop.simps) (auto simp: ended_def rt_ok_def tracks_def list_all2_Cons1)
    next
      case (Cons op ops)
      with eq obtain rt1 r1 where s: "run_op op (rt\<lparr>op_stack := ops\<rparr>) (m - c) = Some (rt1, r1)"
        by (cases "run_op op (rt\<lparr>op_stack := ops\<rparr>) (m - c)") auto
      have keep: "rt_dialect rt1 = rt_dialect rt" "rt_max_cost rt1 = rt_max_cost rt"
        using run_op_onward [OF s] by (simp_all add: onward_def)
      have "onward rt1 (fst x)"
      proof (cases "\<exists>c'. r1 = Inr c' \<and> \<not> c + c' > m")
        case True
        then obtain c' where "run_loop rt1 m (c + c') = Some x"
          using run s Cons by (subst (asm) run_loop.simps) auto
        then show ?thesis using run_loop_onward [of rt1 m "c + c'" "fst x" "snd x"] by simp
      next
        case False
        with eq Cons s show ?thesis by (cases r1) auto
      qed
      then have "heap_used (rt_arena rt1) \<le> HEAP_LIMIT" using heap by (simp add: onward_def)
      moreover have "rt\<lparr>op_stack := op # ops\<rparr> = rt" using Cons by simp
      ultimately have mt: "matched (rt1, r1) (tree_step (rt_dialect rt) op vs ops (m - c))"
        using matched_run_op [where rt = rt and op = op and ops = ops and vs = vs and m = "m - c" and x = "(rt1, r1)"] s ok by simp
      show ?thesis
      proof (cases r1)
        case (Inl e)
        with mt eq Cons s show ?thesis by (subst tree_loop.simps) (auto simp: matched_def ended_def)
      next
        case (Inr c')
        with mt obtain vs' where v: "rt_ok rt1" "tree_step (rt_dialect rt) op vs ops (m - c) = Some (Inr (c', vs', op_stack rt1))"
          "tracks (rt_arena rt1) (checkpoint_stack rt1) (value_stack rt1) vs'" by (auto simp: matched_def)
        show ?thesis
        proof (cases "c + c' > m")
          case True
          with eq Cons s Inr v(2) keep show ?thesis by (subst tree_loop.simps) (auto simp: ended_def)
        next
          case False
          with eq Cons s Inr have l: "loop rt1 m (c + c') = Some x" by simp
          have "run_loop rt1 m (c + c') = Some x" using run s Cons Inr False by (subst (asm) run_loop.simps) simp
          with IH [OF l] v heap have "ended x (tree_loop (rt_dialect rt1) (rt_max_cost rt1) m (c + c') vs' (op_stack rt1))"
            by blast
          with Cons v(2) False keep show ?thesis by (subst tree_loop.simps) simp
        qed
      qed
    qed
  qed
  with assms show ?thesis by blast
qed

text \<open>The tree machine on a program and its environment.\<close>

definition tree_run :: "('a1, 'p1, 'p2) dialect \<Rightarrow> u64 \<Rightarrow> sexp \<Rightarrow> sexp \<Rightarrow> (vm_error + u64 \<times> sexp) option" where
  "tree_run d limit program env =
     bind_opt (tree_loop d limit (if limit = 0 then - 1 else limit) 0 [env, program] [EvalOp]) (\<lambda>(c, vs).
       Some (case vs of s # _ \<Rightarrow> Inr (c, s) | [] \<Rightarrow> Inl ValueStackEmpty))"

lemma reset_start:
  assumes "import (reset_arena a) program = (a1, Inr p)" "import a1 args = (a2, Inr q)"
  shows "indexed a2" "contents_ok a2" "den a2 p program" "den a2 q args"
proof -
  have 1: "indexed a1" "contents_ok a1" "den a1 p program"
    using import_outcome [OF new_arena_ok(1) [of a], of program] assms(1) new_arena_ok(2) [of a] by auto
  have "indexed a2 \<and> grown a1 a2 \<and> contents_ok a2 \<and> den a2 q args"
    using import_outcome [OF 1(1), of args] assms(2) 1(2) by auto
  with 1 grown_den show "indexed a2" "contents_ok a2" "den a2 p program" "den a2 q args" by blast+
qed

lemma run_in_arena_ended:
  assumes "run_in_arena rt program args = Some (rt', r)" "heap_used (rt_arena rt') \<le> HEAP_LIMIT"
  shows "case r of
     Inl e \<Rightarrow> resource_error e \<or> tree_run (rt_dialect rt) (rt_max_cost rt) program args = Some (Inl e)
   | Inr (cost, p) \<Rightarrow> value_stack rt' = [] \<and> op_stack rt' = [] \<and> checkpoint_stack rt' = [] \<and>
       (\<exists>s. den (rt_arena rt') p s \<and> tree_run (rt_dialect rt) (rt_max_cost rt) program args = Some (Inr (cost, s)))"
proof -
  have err: "resource_error e" if "import a s = (a', Inl e)" "indexed a" for a s a' e
    using import_outcome [OF that(2), of s] that(1) by auto
  obtain a1 r1 where i1: "import (reset_arena (rt_arena rt)) program = (a1, r1)" by (cases "import (reset_arena (rt_arena rt)) program")
  show ?thesis
  proof (cases r1)
    case (Inl e)
    with assms(1) i1 err [OF _ new_arena_ok(1), of "rt_arena rt" program a1 e] show ?thesis
      by (auto simp: run_in_arena_def reset_runtime_def Let_def)
  next
    case (Inr p)
    obtain a2 r2 where i2: "import a1 args = (a2, r2)" by (cases "import a1 args")
    have ix: "indexed a1" using import_outcome [OF new_arena_ok(1) [of "rt_arena rt"], of program] i1 Inr by auto
    show ?thesis
    proof (cases r2)
      case (Inl e)
      with assms(1) i1 i2 Inr err [OF _ ix, of args a2 e] show ?thesis
        by (auto simp: run_in_arena_def reset_runtime_def Let_def)
    next
      case (Inr q)
      note st = reset_start [OF i1 [unfolded \<open>r1 = Inr p\<close>] i2 [unfolded Inr]]
      define rt0 where "rt0 = rt\<lparr>checkpoint_stack := [], rt_arena := a2, value_stack := [q, p], op_stack := [EvalOp]\<rparr>"
      let ?m = "if rt_max_cost rt = 0 then - 1 else rt_max_cost rt"
      from assms(1) i1 i2 Inr \<open>r1 = Inr p\<close> obtain y where y: "run_loop rt0 ?m 0 = Some y"
        "(case y of (rt1, Inl e) \<Rightarrow> (rt1, Inl e) | (rt1, Inr cost) \<Rightarrow> (case value_stack rt1 of
            [] \<Rightarrow> (rt1, Inl ValueStackEmpty) | v # vs \<Rightarrow> (rt1\<lparr>value_stack := vs\<rparr>, Inr (cost, v)))) = (rt', r)"
        by (auto simp: run_in_arena_def reset_runtime_def rt0_def Let_def cong: if_cong)
      have "heap_used (rt_arena (fst y)) \<le> HEAP_LIMIT"
        using y(2) assms(2) by (cases y; cases "snd y") (auto split: list.splits)
      moreover have "rt_ok rt0" using st den_live by (auto simp: rt_ok_def rt0_def stacks_ok_def)
      moreover have "tracks (rt_arena rt0) (checkpoint_stack rt0) (value_stack rt0) [args, program]"
        using st by (simp add: tracks_def rt0_def)
      ultimately have "ended y (tree_loop (rt_dialect rt) (rt_max_cost rt) ?m 0 [args, program] [EvalOp])"
        using run_loop_ended [OF y(1), of "[args, program]"] by (simp add: rt0_def)
      with y(2) show ?thesis
        by (cases y; cases "snd y") (auto simp: ended_def tree_run_def)
    qed
  qed
qed

end
