(* ===== verification/ClvmEval.thy ===== *)
theory ClvmEval
  imports RuntimeTree
begin

text \<open>
  The language as a recursive evaluator, and the proof that the interpreter computes it: whenever the machine
  returns, enough fuel gives the evaluator the same result, and conversely.
\<close>

section \<open>A recursive evaluator\<close>

text \<open>
  The language without a machine: an evaluator by recursion on the program, with fuel for the depth of calls. The
  running cost is threaded through and checked after every charge; operands are evaluated from the last to the
  first.
\<close>

definition charge :: "u64 \<Rightarrow> u64 \<Rightarrow> u64 \<Rightarrow> u64 \<Rightarrow> vm_error + u64" where
  "charge limit max_cost cost c = (if cost + c > max_cost then Inl (CostExceeded (cost + c) limit) else Inr (cost + c))"

fun eval_args :: "(u64 \<Rightarrow> sexp \<Rightarrow> (vm_error + u64 \<times> sexp) option) \<Rightarrow> u64 \<Rightarrow> sexp list \<Rightarrow> sexp \<Rightarrow>
    (vm_error + u64 \<times> sexp) option" where
  "eval_args ev cost [] acc = Some (Inr (cost, acc))"
| "eval_args ev cost (x # xs) acc = bind_opt (ev cost x) (\<lambda>(cost', s). eval_args ev cost' xs (Pair s acc))"

definition operate :: "('a1, 'p1, 'p2) dialect \<Rightarrow> u64 \<Rightarrow> u64 \<Rightarrow> u64 \<Rightarrow> bytes \<Rightarrow> sexp \<Rightarrow> (vm_error + u64 \<times> sexp) option" where
  "operate d limit max_cost cost b args =
     bind_opt (dialect_op d sexp_view (Atom b) args (max_cost - cost)) (\<lambda>(c, out).
     Some (bind_res (tree_out c out) (\<lambda>(c', s). bind_res (charge limit max_cost cost c') (\<lambda>cost'. Inr (cost', s)))))"

fun evaluate :: "nat \<Rightarrow> ('a1, 'p1, 'p2) dialect \<Rightarrow> u64 \<Rightarrow> u64 \<Rightarrow> u64 \<Rightarrow> u64 \<Rightarrow> sexp \<Rightarrow> sexp \<Rightarrow>
      (vm_error + u64 \<times> sexp) option"
  and apply_to :: "nat \<Rightarrow> ('a1, 'p1, 'p2) dialect \<Rightarrow> u64 \<Rightarrow> u64 \<Rightarrow> u64 \<Rightarrow> sexp \<Rightarrow> sexp \<Rightarrow> (vm_error + u64 \<times> sexp) option" where
  "evaluate 0 d limit max_cost cost extra prog env = None"
| "evaluate (Suc k) d limit max_cost cost extra (Atom path) env =
     Some (bind_res (traverse_path sexp_view path env) (\<lambda>(c, s).
       bind_res (charge limit max_cost cost (c + extra)) (\<lambda>cost'. Inr (cost', s))))"
| "evaluate (Suc k) d limit max_cost cost extra (Pair (Atom b) operands) env =
     (if b = quote_kw then Some (bind_res (charge limit max_cost cost (QUOTE_COST + extra)) (\<lambda>cost'. Inr (cost', operands)))
      else bind_opt (Some (ok_or (operands_of operands) InvalidOperandList)) (\<lambda>xs.
        bind_opt (Some (charge limit max_cost cost (OP_COST + extra))) (\<lambda>cost'.
        bind_opt (eval_args (\<lambda>c x. evaluate k d limit max_cost c 0 x env) cost' (rev xs) (Atom [])) (\<lambda>(cost', args).
        apply_to k d limit max_cost cost' (Atom b) args))))"
| "evaluate (Suc k) d limit max_cost cost extra (Pair (Pair opr w) operands) env =
     (if (\<exists>b. opr = Atom b) \<and> w = Atom []
      then bind_opt (Some (charge limit max_cost cost (APPLY_COST + extra))) (\<lambda>cost'.
        apply_to k d limit max_cost cost' opr operands)
      else Some (Inl InvalidSyntax))"
| "apply_to 0 d limit max_cost cost opr args = None"
| "apply_to (Suc k) d limit max_cost cost opr args = (case opr of
     Pair s t \<Rightarrow> Some (Inl ExpectedAtomGotPair)
   | Atom b \<Rightarrow>
     if b = apply_kw then
       (case args of Pair prog (Pair env (Atom [])) \<Rightarrow> evaluate k d limit max_cost cost APPLY_COST prog env
        | _ \<Rightarrow> Some (Inl InvalidApplyArgs))
     else operate d limit max_cost cost b args)"

section \<open>The machine computes it\<close>

text \<open>The tree machine about to charge and run what an evaluation pushed.\<close>

definition resume :: "('a1, 'p1, 'p2) dialect \<Rightarrow> u64 \<Rightarrow> u64 \<Rightarrow> u64 \<Rightarrow> tree_result option \<Rightarrow> (vm_error + u64 \<times> sexp list) option" where
  "resume d limit max_cost cost t = bind_opt t (\<lambda>(c, vs, ops).
     bind_opt (Some (charge limit max_cost cost c)) (\<lambda>cost'. tree_loop d limit max_cost cost' vs ops))"

lemma tree_loop_step:
  "tree_loop d limit m c vs (op # ops) = resume d limit m c (tree_step d op vs ops (m - c))"
  by (subst tree_loop.simps) (auto simp: resume_def charge_def bind_opt_def split: option.splits sum.splits Option.bind_split)

definition done_as :: "('a1, 'p1, 'p2) dialect \<Rightarrow> u64 \<Rightarrow> u64 \<Rightarrow> (vm_error + u64 \<times> sexp) \<Rightarrow> sexp list \<Rightarrow> operation list \<Rightarrow>
    (vm_error + u64 \<times> sexp list) option" where
  "done_as d limit m r vs ops = (case r of Inl e \<Rightarrow> Some (Inl e) | Inr (c, s) \<Rightarrow> tree_loop d limit m c (s # vs) ops)"

lemma charge_le: "charge limit m c k = Inr c' \<Longrightarrow> c' \<le> m"
  by (auto simp: charge_def split: if_splits)

lemma eval_args_machine:
  assumes "\<And>c x r vs ops. c \<le> m \<Longrightarrow> ev c x = Some r \<Longrightarrow> x \<in> set xs \<Longrightarrow>
      resume d limit m c (Some (tree_eval x env vs ops)) = done_as d limit m r vs ops \<and> (\<forall>c' s. r = Inr (c', s) \<longrightarrow> c' \<le> m)"
  shows "c \<le> m \<Longrightarrow> eval_args ev c xs acc = Some r \<Longrightarrow>
     tree_loop d limit m c (acc # concat (map (\<lambda>x. [x, env]) xs) @ vs) (replicate (length xs) SwapEvalOp @ ops) =
       done_as d limit m r vs ops \<and> (\<forall>c' s. r = Inr (c', s) \<longrightarrow> c' \<le> m)"
  using assms
proof (induction xs arbitrary: c acc)
  case Nil
  then show ?case by (auto simp: done_as_def)
next
  case (Cons x xs)
  let ?vs = "concat (map (\<lambda>x. [x, env]) xs) @ vs" and ?ops = "replicate (length xs) SwapEvalOp @ ops"
  from Cons.prems(2) obtain r1 where r1: "ev c x = Some r1" by (auto simp: bind_opt_def split: Option.bind_splits)
  have "tree_loop d limit m c (acc # x # env # ?vs) (SwapEvalOp # ?ops) =
      resume d limit m c (Some (tree_eval x env (acc # ?vs) (ConsOp # ?ops)))"
    by (simp add: tree_loop_step)
  also have "\<dots> = done_as d limit m r1 (acc # ?vs) (ConsOp # ?ops)"
    using Cons.prems(3) [OF Cons.prems(1) r1] by simp
  finally have eq: "tree_loop d limit m c (acc # x # env # ?vs) (SwapEvalOp # ?ops) = done_as d limit m r1 (acc # ?vs) (ConsOp # ?ops)" .
  show ?case
  proof (cases r1)
    case (Inl e)
    with r1 Cons.prems(2) eq show ?thesis by (auto simp: done_as_def)
  next
    case (Inr y)
    obtain c1 s where y: "r1 = Inr (c1, s)" using Inr by (cases y) auto
    have c1: "c1 \<le> m" using Cons.prems(3) [OF Cons.prems(1) r1] y by simp
    have "tree_loop d limit m c1 (s # acc # ?vs) (ConsOp # ?ops) = tree_loop d limit m c1 (Pair s acc # ?vs) ?ops"
      using c1 by (auto simp: tree_loop_step resume_def charge_def)
    with Cons.IH [OF c1, of "Pair s acc"] Cons.prems(2,3) r1 y eq show ?thesis by (simp add: done_as_def)
  qed
qed


definition surcharge :: "u64 \<Rightarrow> tree_result \<Rightarrow> tree_result" where
  "surcharge k t = bind_res t (\<lambda>(c, vs, ops). Inr (c + k, vs, ops))"

lemma surcharge_simps [simp]: "surcharge k (Inl e) = Inl e" "surcharge k (Inr (c, vs, ops)) = Inr (c + k, vs, ops)"
  by (simp_all add: surcharge_def)

lemma surcharge_0 [simp]: "surcharge 0 t = t"
  by (cases t) (auto simp: surcharge_def)

lemma resume_simps [simp]:
  "resume d limit m c (Some (Inl e)) = Some (Inl e)"
  "resume d limit m c (Some (Inr (k, vs, ops))) = bind_opt (Some (charge limit m c k)) (\<lambda>c'. tree_loop d limit m c' vs ops)"
  by (simp_all add: resume_def)

lemma done_as_simps [simp]:
  "done_as d limit m (Inl e) vs ops = Some (Inl e)"
  "done_as d limit m (Inr (c, s)) vs ops = tree_loop d limit m c (s # vs) ops"
  by (simp_all add: done_as_def)

lemma done_charge: "resume d limit m c (Some (Inr (k, s # vs, ops))) =
    done_as d limit m (bind_res (charge limit m c k) (\<lambda>c'. Inr (c', s))) vs ops"
  by (cases "charge limit m c k") simp_all

lemma charge_Inr_le: "bind_res (charge limit m c k) (\<lambda>c'. Inr (c', s)) = Inr (c', s') \<Longrightarrow> c' \<le> m"
  by (auto simp: bind_res_eq_Inr dest: charge_le)

lemma operate_machine:
  assumes "operate d limit m c b args = Some r" "b \<noteq> apply_kw"
  shows "tree_loop d limit m c (args # Atom b # vs) (ApplyOp # ops) = done_as d limit m r vs ops \<and>
    (\<forall>c' s. r = Inr (c', s) \<longrightarrow> c' \<le> m)"
proof -
  from assms(1) obtain z where z: "dialect_op d sexp_view (Atom b) args (m - c) = Some z"
    by (auto simp: operate_def bind_opt_def split: Option.bind_splits)
  show ?thesis
  proof (cases z)
    case (Inl e)
    with z assms show ?thesis by (auto simp: operate_def tree_loop_step)
  next
    case (Inr y)
    obtain k out where y: "z = Inr (k, out)" using Inr by (cases y) auto
    show ?thesis
    proof (cases "tree_out k out")
      case (Inl e)
      with z y assms show ?thesis by (auto simp: operate_def tree_loop_step)
    next
      case (Inr x)
      obtain k' s where "tree_out k out = Inr (k', s)" using Inr by (cases x) auto
      with z y assms show ?thesis
        by (auto simp: operate_def tree_loop_step done_charge simp del: resume_simps(2) dest: charge_le)
    qed
  qed
qed

lemma apply_cases:
  obtains (args) prog env where "args = Pair prog (Pair env (Atom []))"
  | (other) "\<And>vs ops. tree_apply args vs ops = Inl InvalidApplyArgs"
      "apply_to (Suc k) d limit m c (Atom apply_kw) args = Some (Inl InvalidApplyArgs)"
  by (cases "(args, [] :: sexp list, [] :: operation list)" rule: tree_apply.cases) (auto split: sexp.splits list.splits)

lemma evaluate_machine:
  "(\<forall>c extra prog env r vs ops. c \<le> m \<longrightarrow> evaluate k d limit m c extra prog env = Some r \<longrightarrow>
      resume d limit m c (Some (surcharge extra (tree_eval prog env vs ops))) = done_as d limit m r vs ops \<and>
      (\<forall>c' s. r = Inr (c', s) \<longrightarrow> c' \<le> m)) \<and>
   (\<forall>c opr args r vs ops. c \<le> m \<longrightarrow> apply_to k d limit m c opr args = Some r \<longrightarrow>
      tree_loop d limit m c (args # opr # vs) (ApplyOp # ops) = done_as d limit m r vs ops \<and>
      (\<forall>c' s. r = Inr (c', s) \<longrightarrow> c' \<le> m))"
proof (induction k)
  case 0
  then show ?case by simp
next
  case (Suc k)
  have ev: "resume d limit m c (Some (surcharge extra (tree_eval prog env vs ops))) = done_as d limit m r vs ops \<and>
      (\<forall>c' s. r = Inr (c', s) \<longrightarrow> c' \<le> m)" if "c \<le> m" "evaluate k d limit m c extra prog env = Some r" for c extra prog env r vs ops
    using Suc that by blast
  have ap: "tree_loop d limit m c (args # opr # vs) (ApplyOp # ops) = done_as d limit m r vs ops \<and>
      (\<forall>c' s. r = Inr (c', s) \<longrightarrow> c' \<le> m)" if "c \<le> m" "apply_to k d limit m c opr args = Some r" for c opr args r vs ops
    using Suc that by blast
  show ?case
  proof (intro conjI allI impI)
    fix c extra prog env r vs ops
    assume c: "c \<le> m" and r: "evaluate (Suc k) d limit m c extra prog env = Some r"
    have "resume d limit m c (Some (surcharge extra (tree_eval prog env vs ops))) = done_as d limit m r vs ops \<and>
      (\<forall>c' s. r = Inr (c', s) \<longrightarrow> c' \<le> m)"
    proof (cases "(prog, env, vs, ops)" rule: tree_eval.cases)
      case (1 path env' vs' ops')
      with r show ?thesis
        by (cases "traverse_path sexp_view path env")
          (auto simp: done_charge simp del: resume_simps(2) dest: charge_le)
    next
      case (2 b operands env' vs' ops')
      show ?thesis
      proof (cases "b = quote_kw")
        case True
        with 2 r show ?thesis by (auto simp: done_charge simp del: resume_simps(2) dest: charge_le)
      next
        case False
        show ?thesis
        proof (cases "operands_of operands")
          case None
          with 2 r False show ?thesis by auto
        next
          case (Some xs)
          show ?thesis
          proof (cases "charge limit m c (OP_COST + extra)")
            case (Inl e)
            with 2 r False Some show ?thesis by auto
          next
            case (Inr c1)
            let ?ev = "\<lambda>c x. evaluate k d limit m c 0 x env"
            have c1: "c1 \<le> m" using Inr by (rule charge_le)
            from 2 r False Some Inr obtain r1 where r1: "eval_args ?ev c1 (rev xs) (Atom []) = Some r1"
              by (auto simp: bind_opt_def split: Option.bind_splits)
            have "tree_loop d limit m c1 (Atom [] # concat (map (\<lambda>x. [x, env]) (rev xs)) @ Atom b # vs)
                (replicate (length (rev xs)) SwapEvalOp @ ApplyOp # ops) = done_as d limit m r1 (Atom b # vs) (ApplyOp # ops) \<and>
                (\<forall>c' s. r1 = Inr (c', s) \<longrightarrow> c' \<le> m)"
              by (rule eval_args_machine [OF _ c1 r1]) (use ev [of _ 0] in simp)
            with 2 r False Some Inr r1 ap show ?thesis by (cases r1) auto
          qed
        qed
      qed
    next
      case (3 opr w operands env' vs' ops')
      with r c ap show ?thesis
        by (cases "charge limit m c (APPLY_COST + extra)") (auto split: if_splits dest: charge_le)
    qed
    then show "resume d limit m c (Some (surcharge extra (tree_eval prog env vs ops))) = done_as d limit m r vs ops"
      and "\<And>c' s. r = Inr (c', s) \<Longrightarrow> c' \<le> m" by auto
  next
    fix c opr args r vs ops
    assume c: "c \<le> m" and r: "apply_to (Suc k) d limit m c opr args = Some r"
    have "tree_loop d limit m c (args # opr # vs) (ApplyOp # ops) = done_as d limit m r vs ops \<and>
      (\<forall>c' s. r = Inr (c', s) \<longrightarrow> c' \<le> m)"
    proof (cases opr)
      case (Pair s t)
      with r show ?thesis by (auto simp: tree_loop_step)
    next
      case (Atom b)
      show ?thesis
      proof (cases "b = apply_kw")
        case False
        with r Atom operate_machine [of d limit m c b args r] show ?thesis by simp
      next
        case True
        show ?thesis
        proof (cases rule: apply_cases [where args = args and k = k and d = d and limit = limit and m = m and c = c])
          case (args prog env)
          with r True Atom ev [OF c, of APPLY_COST prog env r] show ?thesis
            by (simp add: tree_loop_step surcharge_def [symmetric])
        next
          case other
          with r True Atom show ?thesis by (auto simp: tree_loop_step)
        qed
      qed
    qed
    then show "tree_loop d limit m c (args # opr # vs) (ApplyOp # ops) = done_as d limit m r vs ops"
      and "\<And>c' s. r = Inr (c', s) \<Longrightarrow> c' \<le> m" by auto
  qed
qed

text \<open>More fuel changes nothing.\<close>

lemma eval_args_mono:
  assumes "\<And>c x r. ev c x = Some r \<Longrightarrow> ev' c x = Some r"
  shows "eval_args ev c xs acc = Some r \<Longrightarrow> eval_args ev' c xs acc = Some r"
proof (induction xs arbitrary: c acc)
  case (Cons x xs)
  then obtain r1 where "ev c x = Some r1" by (auto simp: bind_opt_def split: Option.bind_splits)
  with Cons assms [OF this] show ?case by (cases r1) auto
qed simp

lemma evaluate_Suc:
  "(\<forall>c extra prog env r. evaluate k d limit m c extra prog env = Some r \<longrightarrow> evaluate (Suc k) d limit m c extra prog env = Some r) \<and>
   (\<forall>c opr args r. apply_to k d limit m c opr args = Some r \<longrightarrow> apply_to (Suc k) d limit m c opr args = Some r)"
proof (induction k)
  case 0
  then show ?case by simp
next
  case (Suc k)
  have ev: "evaluate (Suc k) d limit m c extra prog env = Some r" if "evaluate k d limit m c extra prog env = Some r" for c extra prog env r
    using Suc that by blast
  have ap: "apply_to (Suc k) d limit m c opr args = Some r" if "apply_to k d limit m c opr args = Some r" for c opr args r
    using Suc that by blast
  show ?case
  proof (intro conjI allI impI)
    fix c extra prog env r
    assume r: "evaluate (Suc k) d limit m c extra prog env = Some r"
    show "evaluate (Suc (Suc k)) d limit m c extra prog env = Some r"
    proof (cases "(prog, env, [] :: sexp list, [] :: operation list)" rule: tree_eval.cases)
      case (1 path env' vs' ops')
      with r show ?thesis by simp
    next
      case (2 b operands env' vs' ops')
      show ?thesis
      proof (cases "b \<noteq> quote_kw \<and> (\<exists>xs c1. operands_of operands = Some xs \<and> charge limit m c (OP_COST + extra) = Inr c1)")
        case False
        with 2 r show ?thesis
          by (cases "b = quote_kw"; cases "operands_of operands"; cases "charge limit m c (OP_COST + extra)")
            (auto simp del: evaluate.simps(2-4) simp: evaluate.simps(3))
      next
        case True
        then obtain xs c1 where x: "b \<noteq> quote_kw" "operands_of operands = Some xs" "charge limit m c (OP_COST + extra) = Inr c1" by blast
        from 2 r x obtain r1 where r1: "eval_args (\<lambda>c x. evaluate k d limit m c 0 x env) c1 (rev xs) (Atom []) = Some r1"
          by (auto simp: bind_opt_def split: Option.bind_splits)
        have r1': "eval_args (\<lambda>c x. evaluate (Suc k) d limit m c 0 x env) c1 (rev xs) (Atom []) = Some r1"
          by (rule eval_args_mono [OF _ r1]) (rule ev)
        show ?thesis
        proof (cases r1)
          case (Inl e)
          with 2 r x r1 r1' show ?thesis by (auto simp del: evaluate.simps(2-4) simp: evaluate.simps(3))
        next
          case (Inr y)
          obtain c2 args where "r1 = Inr (c2, args)" using Inr by (cases y) auto
          with 2 r x r1 r1' ap [of c2 "Atom b" args] show ?thesis
            by (simp del: evaluate.simps(2-4) apply_to.simps add: evaluate.simps(3))
        qed
      qed
    next
      case (3 opr w operands env' vs' ops')
      with r ap show ?thesis
        by (cases "charge limit m c (APPLY_COST + extra)")
          (auto simp del: evaluate.simps(2-4) apply_to.simps simp: evaluate.simps(4) split: if_splits)
    qed
  next
    fix c opr args r
    assume r: "apply_to (Suc k) d limit m c opr args = Some r"
    show "apply_to (Suc (Suc k)) d limit m c opr args = Some r"
    proof (cases "\<exists>prog env. opr = Atom apply_kw \<and> args = Pair prog (Pair env (Atom []))")
      case True
      then obtain prog env where "opr = Atom apply_kw" "args = Pair prog (Pair env (Atom []))" by blast
      with r ev [of c APPLY_COST prog env r] show ?thesis by (simp del: evaluate.simps)
    next
      case False
      with r show ?thesis by (auto simp del: evaluate.simps split: sexp.splits list.splits if_splits)
    qed
  qed
qed

lemma evaluate_mono:
  assumes "k \<le> k'"
  shows "evaluate k d limit m c extra prog env = Some r \<Longrightarrow> evaluate k' d limit m c extra prog env = Some r"
  using assms by (induction rule: dec_induct) (use evaluate_Suc in blast)+

lemma apply_to_mono:
  assumes "k \<le> k'"
  shows "apply_to k d limit m c opr args = Some r \<Longrightarrow> apply_to k' d limit m c opr args = Some r"
  using assms by (induction rule: dec_induct) (use evaluate_Suc in blast)+

text \<open>A run of the machine is finite, and every evaluation it completes needs some finite fuel.\<close>

fun tree_rounds :: "nat \<Rightarrow> ('a1, 'p1, 'p2) dialect \<Rightarrow> u64 \<Rightarrow> u64 \<Rightarrow> u64 \<Rightarrow> sexp list \<Rightarrow> operation list \<Rightarrow>
    (vm_error + u64 \<times> sexp list) option" where
  "tree_rounds 0 d limit m c vs ops = None"
| "tree_rounds (Suc n) d limit m c vs [] = Some (Inr (c, vs))"
| "tree_rounds (Suc n) d limit m c vs (op # ops) = bind_opt (tree_step d op vs ops (m - c)) (\<lambda>(k, vs', ops').
     bind_opt (Some (charge limit m c k)) (\<lambda>c'. tree_rounds n d limit m c' vs' ops'))"

lemma tree_loop_rounds:
  assumes "tree_loop d limit m c vs ops = Some r"
  shows "\<exists>n. tree_rounds n d limit m c vs ops = Some r"
proof (rule tree_loop.raw_induct [where P = "\<lambda>d limit m c vs ops r. \<exists>n. tree_rounds n d limit m c vs ops = Some r", OF _ assms])
  fix loop and d :: "('a, 'b, 'c) dialect" and limit m c vs ops r
  assume IH: "\<And>d limit m c vs ops r. loop d limit m c vs ops = Some r \<Longrightarrow> \<exists>n. tree_rounds n d limit m c vs ops = Some r"
    and eq: "(case ops of [] \<Rightarrow> Some (Inr (c, vs)) | op # ops' \<Rightarrow> (case tree_step d op vs ops' (m - c) of None \<Rightarrow> None
      | Some (Inl e) \<Rightarrow> Some (Inl e)
      | Some (Inr (k, vs', ops'')) \<Rightarrow> if c + k > m then Some (Inl (CostExceeded (c + k) limit))
          else loop d limit m (c + k) vs' ops'')) = Some r"
  show "\<exists>n. tree_rounds n d limit m c vs ops = Some r"
  proof (cases ops)
    case Nil
    with eq show ?thesis by (intro exI [of _ 1]) simp
  next
    case (Cons op ops')
    with eq obtain t where t: "tree_step d op vs ops' (m - c) = Some t" by (cases "tree_step d op vs ops' (m - c)") auto
    show ?thesis
    proof (cases "\<exists>k vs' ops''. t = Inr (k, vs', ops'') \<and> \<not> c + k > m")
      case True
      then obtain k vs' ops'' where k: "t = Inr (k, vs', ops'')" "\<not> c + k > m" by blast
      with eq Cons t have "loop d limit m (c + k) vs' ops'' = Some r" by simp
      then obtain n where "tree_rounds n d limit m (c + k) vs' ops'' = Some r" using IH by blast
      with Cons t k show ?thesis by (intro exI [of _ "Suc n"]) (simp add: charge_def)
    next
      case False
      with eq Cons t show ?thesis by (intro exI [of _ 1]) (cases t, auto simp: charge_def)
    qed
  qed
qed

definition resume_rounds :: "nat \<Rightarrow> ('a1, 'p1, 'p2) dialect \<Rightarrow> u64 \<Rightarrow> u64 \<Rightarrow> u64 \<Rightarrow> tree_result \<Rightarrow> (vm_error + u64 \<times> sexp list) option" where
  "resume_rounds n d limit m c t = bind_opt (Some t) (\<lambda>(k, vs, ops).
     bind_opt (Some (charge limit m c k)) (\<lambda>c'. tree_rounds n d limit m c' vs ops))"

lemma resume_rounds_simps [simp]:
  "resume_rounds n d limit m c (Inl e) = Some (Inl e)"
  "resume_rounds n d limit m c (Inr (k, vs, ops)) = bind_opt (Some (charge limit m c k)) (\<lambda>c'. tree_rounds n d limit m c' vs ops)"
  by (simp_all add: resume_rounds_def)

text \<open>An evaluation that took fewer than \<open>n\<close> rounds has a result, and the rounds left go on with it.\<close>

definition settles :: "nat \<Rightarrow> ('a1, 'p1, 'p2) dialect \<Rightarrow> u64 \<Rightarrow> u64 \<Rightarrow> (nat \<Rightarrow> (vm_error + u64 \<times> sexp) option) \<Rightarrow>
    sexp list \<Rightarrow> operation list \<Rightarrow> (vm_error + u64 \<times> sexp list) \<Rightarrow> bool" where
  "settles n d limit m ev vs ops x \<longleftrightarrow> (\<exists>k r. ev k = Some r \<and>
     (\<forall>c' s. r = Inr (c', s) \<longrightarrow> c' \<le> m \<and> (\<exists>n' \<le> n. tree_rounds n' d limit m c' (s # vs) ops = Some x)))"

lemma settles_mono: "settles n d limit m ev vs ops x \<Longrightarrow> n \<le> n' \<Longrightarrow> settles n' d limit m ev vs ops x"
  unfolding settles_def by (meson order_trans)

lemma settles_now: "ev k = Some (Inl e) \<Longrightarrow> settles n d limit m ev vs ops x"
  unfolding settles_def by (intro exI [of _ k] exI [of _ "Inl e"]) simp

lemma settles_value:
  assumes "ev k = Some (Inr (c', s))" "c' \<le> m" "tree_rounds n d limit m c' (s # vs) ops = Some x"
  shows "settles n d limit m ev vs ops x"
  unfolding settles_def using assms by (intro exI [of _ k] exI [of _ "Inr (c', s)"]) auto

lemma settles_charge:
  assumes "ev k = Some (bind_res (charge limit m c j) (\<lambda>c'. Inr (c', s)))"
    "resume_rounds n d limit m c (Inr (j, s # vs, ops)) = Some x"
  shows "settles n d limit m ev vs ops x"
proof (cases "charge limit m c j")
  case (Inl e)
  with assms show ?thesis by (auto intro: settles_now)
next
  case (Inr c')
  with assms charge_le [OF Inr] show ?thesis by (intro settles_value [of ev k c' s]) auto
qed

lemma eval_args_settles:
  assumes IH: "\<And>n' c x vs ops z. n' < n \<Longrightarrow> c \<le> m \<Longrightarrow>
      resume_rounds n' d limit m c (tree_eval x env vs ops) = Some z \<Longrightarrow>
      settles n' d limit m (\<lambda>k. evaluate k d limit m c 0 x env) vs ops z"
  shows "j \<le> n \<Longrightarrow> c \<le> m \<Longrightarrow> tree_rounds j d limit m c (acc # concat (map (\<lambda>x. [x, env]) xs) @ vs) (replicate (length xs) SwapEvalOp @ ops) = Some z \<Longrightarrow>
    settles j d limit m (\<lambda>k. eval_args (\<lambda>c x. evaluate k d limit m c 0 x env) c xs acc) vs ops z"
proof (induction xs arbitrary: c acc j)
  case Nil
  then show ?case by (intro settles_value [of _ 0 c acc]) auto
next
  case (Cons x xs)
  let ?vs = "concat (map (\<lambda>x. [x, env]) xs) @ vs" and ?ops = "replicate (length xs) SwapEvalOp @ ops"
  obtain i where j: "j = Suc i" using Cons.prems(3) by (cases j) auto
  have "resume_rounds i d limit m c (tree_eval x env (acc # ?vs) (ConsOp # ?ops)) = Some z"
    using Cons.prems(3) j by (simp add: resume_rounds_def)
  from IH [OF _ Cons.prems(2) this] j Cons.prems(1)
  have "settles i d limit m (\<lambda>k. evaluate k d limit m c 0 x env) (acc # ?vs) (ConsOp # ?ops) z" by simp
  then obtain k r where r: "evaluate k d limit m c 0 x env = Some r"
    "\<And>c' s. r = Inr (c', s) \<Longrightarrow> c' \<le> m \<and> (\<exists>n' \<le> i. tree_rounds n' d limit m c' (s # acc # ?vs) (ConsOp # ?ops) = Some z)"
    by (auto simp: settles_def)
  show ?case
  proof (cases r)
    case (Inl e)
    with r show ?thesis by (intro settles_now [of _ k e]) simp
  next
    case (Inr y)
    obtain c1 s where y: "r = Inr (c1, s)" using Inr by (cases y) auto
    with r(2) obtain n' where n': "c1 \<le> m" "n' \<le> i" "tree_rounds n' d limit m c1 (s # acc # ?vs) (ConsOp # ?ops) = Some z" by blast
    then obtain i' where i': "n' = Suc i'" by (cases n') auto
    with n' have "tree_rounds i' d limit m c1 (Pair s acc # ?vs) ?ops = Some z" by (auto simp: charge_def split: if_splits)
    from Cons.IH [OF _ n'(1) this] n' i' j Cons.prems(1)
    have "settles i' d limit m (\<lambda>k. eval_args (\<lambda>c x. evaluate k d limit m c 0 x env) c1 xs (Pair s acc)) vs ops z" by simp
    then obtain k' r' where k': "eval_args (\<lambda>c x. evaluate k' d limit m c 0 x env) c1 xs (Pair s acc) = Some r'"
      "\<And>c' t. r' = Inr (c', t) \<Longrightarrow> c' \<le> m \<and> (\<exists>n' \<le> i'. tree_rounds n' d limit m c' (t # vs) ops = Some z)"
      by (auto simp: settles_def)
    have "evaluate (max k k') d limit m c 0 x env = Some r" using r(1) by (rule evaluate_mono [rotated]) simp
    moreover have "eval_args (\<lambda>c x. evaluate (max k k') d limit m c 0 x env) c1 xs (Pair s acc) = Some r'"
      by (rule eval_args_mono [OF _ k'(1)]) (erule evaluate_mono [rotated], simp)
    ultimately have "eval_args (\<lambda>c x. evaluate (max k k') d limit m c 0 x env) c (x # xs) acc = Some r'" by (simp add: y)
    moreover have "i' \<le> j" using n' i' j by simp
    ultimately show ?thesis unfolding settles_def using k'(2) by (meson order_trans)
  qed
qed


lemma settles_via:
  assumes "settles i d limit m ev vs ops x" "i \<le> n" "\<And>k. ev k = ev' (Suc k)"
  shows "settles n d limit m ev' vs ops x"
  using settles_mono [OF assms(1,2)] assms(3) unfolding settles_def by metis

lemma apply_settles:
  assumes IH: "\<And>n' c extra prog env vs ops z. n' < n \<Longrightarrow> c \<le> m \<Longrightarrow>
      resume_rounds n' d limit m c (surcharge extra (tree_eval prog env vs ops)) = Some z \<Longrightarrow>
      settles n' d limit m (\<lambda>k. evaluate k d limit m c extra prog env) vs ops z"
    and "j \<le> n" "c \<le> m" "tree_rounds j d limit m c (args # opr # vs) (ApplyOp # ops) = Some z"
  shows "settles j d limit m (\<lambda>k. apply_to k d limit m c opr args) vs ops z"
proof -
  obtain i where j: "j = Suc i" using assms(4) by (cases j) auto
  show ?thesis
  proof (cases opr)
    case (Pair s t)
    then show ?thesis by (intro settles_now [of _ 1 ExpectedAtomGotPair]) simp
  next
    case (Atom b)
    show ?thesis
    proof (cases "b = apply_kw")
      case True
      show ?thesis
      proof (cases rule: apply_cases [where args = args and k = 0 and d = d and limit = limit and m = m and c = c])
        case (args prog env)
        with assms(4) True Atom j have "resume_rounds i d limit m c (surcharge APPLY_COST (tree_eval prog env vs ops)) = Some z"
          by (simp add: resume_rounds_def surcharge_def)
        from IH [OF _ assms(3) this] assms(2) j
        have "settles i d limit m (\<lambda>k. evaluate k d limit m c APPLY_COST prog env) vs ops z" by simp
        then show ?thesis by (rule settles_via) (simp_all add: args True Atom j del: evaluate.simps)
      next
        case other
        then show ?thesis using True Atom by (intro settles_now [of _ "Suc 0"]) simp
      qed
    next
      case False
      from assms(4) False Atom j obtain y where y: "dialect_op d sexp_view (Atom b) args (m - c) = Some y"
        by (auto simp: bind_opt_def split: Option.bind_splits)
      show ?thesis
      proof (cases "\<exists>k out k' s. y = Inr (k, out) \<and> tree_out k out = Inr (k', s)")
        case True
        then obtain k out k' s where o: "y = Inr (k, out)" "tree_out k out = Inr (k', s)" by blast
        with assms(4) False Atom j y have "resume_rounds i d limit m c (Inr (k', s # vs, ops)) = Some z" by simp
        then have "settles i d limit m (\<lambda>k. apply_to (Suc k) d limit m c opr args) vs ops z"
          by (rule settles_charge [rotated, where k = 0]) (simp add: Atom False operate_def y o)
        then show ?thesis by (rule settles_via) (simp_all add: j)
      next
        case no: False
        then obtain e where "operate d limit m c b args = Some (Inl e)"
          by (cases y; cases "tree_out (fst (projr y)) (snd (projr y))") (auto simp: operate_def y)
        then show ?thesis by (intro settles_now [of _ 1 e]) (simp add: Atom False)
      qed
    qed
  qed
qed

lemma apply_after_args:
  assumes "settles j d limit m (\<lambda>k. eval_args (\<lambda>c x. evaluate k d limit m c 0 x env) c1 xs acc) (Atom b # vs) (ApplyOp # ops) z"
    "\<And>n' c args. n' \<le> j \<Longrightarrow> c \<le> m \<Longrightarrow> tree_rounds n' d limit m c (args # Atom b # vs) (ApplyOp # ops) = Some z \<Longrightarrow>
      settles n' d limit m (\<lambda>k. apply_to k d limit m c (Atom b) args) vs ops z"
  shows "settles j d limit m (\<lambda>k. bind_opt (eval_args (\<lambda>c x. evaluate k d limit m c 0 x env) c1 xs acc)
    (\<lambda>(c', args). apply_to k d limit m c' (Atom b) args)) vs ops z"
proof -
  from assms(1) obtain k r where k: "eval_args (\<lambda>c x. evaluate k d limit m c 0 x env) c1 xs acc = Some r"
    "\<And>c' s. r = Inr (c', s) \<Longrightarrow> c' \<le> m \<and> (\<exists>n' \<le> j. tree_rounds n' d limit m c' (s # Atom b # vs) (ApplyOp # ops) = Some z)"
    by (auto simp: settles_def)
  show ?thesis
  proof (cases r)
    case (Inl e)
    with k show ?thesis by (intro settles_now [of _ k e]) simp
  next
    case (Inr y)
    obtain c' args where y: "r = Inr (c', args)" using Inr by (cases y) auto
    with k(2) assms(2) obtain n' where n': "n' \<le> j" "settles n' d limit m (\<lambda>k. apply_to k d limit m c' (Atom b) args) vs ops z" by blast
    then obtain k' r' where k': "apply_to k' d limit m c' (Atom b) args = Some r'"
      "\<And>c2 s. r' = Inr (c2, s) \<Longrightarrow> c2 \<le> m \<and> (\<exists>i \<le> n'. tree_rounds i d limit m c2 (s # vs) ops = Some z)"
      by (auto simp: settles_def)
    have "apply_to (max k k') d limit m c' (Atom b) args = Some r'" using k'(1) by (rule apply_to_mono [rotated]) simp
    moreover have "eval_args (\<lambda>c x. evaluate (max k k') d limit m c 0 x env) c1 xs acc = Some r"
      by (rule eval_args_mono [OF _ k(1)]) (erule evaluate_mono [rotated], simp)
    ultimately have "bind_opt (eval_args (\<lambda>c x. evaluate (max k k') d limit m c 0 x env) c1 xs acc)
        (\<lambda>(c', args). apply_to (max k k') d limit m c' (Atom b) args) = Some r'" by (simp add: y)
    then show ?thesis unfolding settles_def using k'(2) n'(1) by (meson order_trans)
  qed
qed

lemma evaluate_settles:
  "c \<le> m \<Longrightarrow> resume_rounds n d limit m c (surcharge extra (tree_eval prog env vs ops)) = Some z \<Longrightarrow>
     settles n d limit m (\<lambda>k. evaluate k d limit m c extra prog env) vs ops z"
proof (induction n arbitrary: c extra prog env vs ops z rule: less_induct)
  case (less n)
  note args = eval_args_settles [where n = n and m = m and d = d and limit = limit, OF less.IH [where extra = 0, simplified]]
  note ap = apply_settles [where n = n and m = m and d = d and limit = limit, OF less.IH]
  show ?case
  proof (cases "(prog, env, vs, ops)" rule: tree_eval.cases)
    case (1 path env' vs' ops')
    show ?thesis
    proof (cases "traverse_path sexp_view path env")
      case (Inl e)
      with 1 show ?thesis by (intro settles_now [of _ 1 e]) simp
    next
      case (Inr y)
      obtain k s where "traverse_path sexp_view path env = Inr (k, s)" using Inr by (cases y) auto
      with 1 less.prems(2) show ?thesis by (intro settles_charge [of _ 1 limit m c "k + extra" s]) simp_all
    qed
  next
    case (2 b operands env' vs' ops')
    show ?thesis
    proof (cases "b \<noteq> quote_kw \<and> (\<exists>xs c1. operands_of operands = Some xs \<and> charge limit m c (OP_COST + extra) = Inr c1)")
      case False
      show ?thesis
      proof (cases "b = quote_kw")
        case True
        with 2 less.prems(2) show ?thesis by (intro settles_charge [of _ 1 limit m c "QUOTE_COST + extra" operands]) simp_all
      next
        case no: False
        obtain e where "evaluate (Suc 0) d limit m c extra prog env = Some (Inl e)"
          using 2 no False by (cases "operands_of operands"; cases "charge limit m c (OP_COST + extra)") simp_all
        then show ?thesis by (rule settles_now)
      qed
    next
      case True
      then obtain xs c1 where x: "b \<noteq> quote_kw" "operands_of operands = Some xs" "charge limit m c (OP_COST + extra) = Inr c1" by blast
      have c1: "c1 \<le> m" using x(3) by (rule charge_le)
      from less.prems(2) 2 x have
        "tree_rounds n d limit m c1 (Atom [] # concat (map (\<lambda>x. [x, env]) (rev xs)) @ Atom b # vs)
          (replicate (length (rev xs)) SwapEvalOp @ ApplyOp # ops) = Some z" by simp
      from apply_after_args [OF args [OF _ _ _ order_refl c1 this] ap] 
      have "settles n d limit m (\<lambda>k. bind_opt (eval_args (\<lambda>c x. evaluate k d limit m c 0 x env) c1 (rev xs) (Atom []))
          (\<lambda>(c', args). apply_to k d limit m c' (Atom b) args)) vs ops z" by blast
      then show ?thesis by (rule settles_via) (use 2 x in simp_all)
    qed
  next
    case (3 opr w operands env' vs' ops')
    show ?thesis
    proof (cases "(\<exists>b. opr = Atom b) \<and> w = Atom [] \<and> (\<exists>c1. charge limit m c (APPLY_COST + extra) = Inr c1)")
      case False
      then obtain e where "evaluate (Suc 0) d limit m c extra prog env = Some (Inl e)"
        using 3 by (cases "(\<exists>b. opr = Atom b) \<and> w = Atom []"; cases "charge limit m c (APPLY_COST + extra)") auto
      then show ?thesis by (rule settles_now)
    next
      case True
      then obtain c1 where x: "\<exists>b. opr = Atom b" "w = Atom []" "charge limit m c (APPLY_COST + extra) = Inr c1" by blast
      have c1: "c1 \<le> m" using x(3) by (rule charge_le)
      from less.prems(2) 3 x have "tree_rounds n d limit m c1 (operands # opr # vs) (ApplyOp # ops) = Some z" by auto
      from ap [OF _ _ _ order_refl c1 this] have "settles n d limit m (\<lambda>k. apply_to k d limit m c1 opr operands) vs ops z" by blast
      then show ?thesis by (rule settles_via) (use 3 x in auto)
    qed
  qed
qed


section \<open>Refinement\<close>

lemma tree_run_evaluate:
  "tree_run d limit program env = Some r \<longleftrightarrow>
     (\<exists>k. evaluate k d limit (if limit = 0 then - 1 else limit) 0 0 program env = Some r)" (is "?L \<longleftrightarrow> ?R")
proof -
  let ?m = "if limit = 0 then - 1 else limit"
  let ?run = "\<lambda>x. bind_opt (x :: (vm_error + u64 \<times> sexp list) option) (\<lambda>(c, vs).
    Some (case vs of s # _ \<Rightarrow> Inr (c, s) | [] \<Rightarrow> Inl ValueStackEmpty))"
  have step: "tree_loop d limit ?m 0 [env, program] [EvalOp] = resume d limit ?m 0 (Some (surcharge 0 (tree_eval program env [] [])))"
    by (simp add: tree_loop_step)
  have done_run: "?run (done_as d limit ?m x [] []) = Some x" for x
    by (cases x) (auto simp: tree_loop.simps)
  have R: "tree_run d limit program env = Some r'" if "evaluate k d limit ?m 0 0 program env = Some r'" for k r'
    using evaluate_machine [of ?m k d limit, THEN conjunct1, rule_format, of 0 0 program env r' "[]" "[]"] that done_run [of r']
    by (simp add: tree_run_def step del: surcharge_0)
  show ?thesis
  proof
    assume ?R
    then show ?L using R by blast
  next
    assume ?L
    then obtain z where "tree_loop d limit ?m 0 [env, program] [EvalOp] = Some z"
      by (auto simp: tree_run_def bind_opt_def split: Option.bind_splits)
    then obtain n where n: "tree_rounds n d limit ?m 0 [env, program] [EvalOp] = Some z" using tree_loop_rounds by blast
    then obtain i where "n = Suc i" by (cases n) auto
    with n have "resume_rounds i d limit ?m 0 (surcharge 0 (tree_eval program env [] [])) = Some z" by (simp add: resume_rounds_def)
    from evaluate_settles [OF _ this] obtain k r' where "evaluate k d limit ?m 0 0 program env = Some r'"
      by (auto simp: settles_def)
    with R [OF this] \<open>?L\<close> show ?R by auto
  qed
qed

text \<open>A small program for the example below: a quoted constant.\<close>

definition quoted :: sexp where
  "quoted = Pair (Atom quote_kw) (Atom [5])"

lemmas alloc_simps = new_atom_def new_pair_def check_atom_limit_def fits_in_small_atom_def HEAP_LIMIT_def MAX_NUM_ATOMS_def
  MAX_NUM_PAIRS_def new_ptr_def NODE_PTR_IDX_BITS_def NODE_PTR_IDX_MASK_def push_bit_eq_mult

lemma quoted_import: "import (reset_arena a) quoted = (a\<lparr>atom_intern := Map.empty, u8_vec := [],
    pair_vec := [\<lparr>ip_first = ONE, ip_rest = new_ptr SmallAtomType 5\<rparr>], atom_vec := [], ghost_atoms := 4, ghost_pairs := 0, ghost_heap := 3\<rparr>, Inr 0)"
  by (simp add: import_def quoted_def quote_kw_def reset_arena_def alloc_simps ONE_def)

lemma quoted_run:
  "\<exists>rt. run (new_runtime d 2000) quoted (Atom [3]) = Some (rt, Inr (20, Atom [5])) \<and> heap_used (rt_arena rt) = 4"
proof -
  let ?p = "new_ptr SmallAtomType 5 :: node_ptr"
  define a where "a = \<lparr>atom_intern = Map.empty, u8_vec = [], pair_vec = [\<lparr>ip_first = ONE, ip_rest = ?p\<rparr>], atom_vec = [],
    ghost_atoms = 5, ghost_pairs = 0, ghost_heap = 4\<rparr>"
  have i: "import (fst (import (rt_arena (reset_runtime (new_runtime d 2000))) quoted)) (Atom [3]) = (a, Inr (new_ptr SmallAtomType 3))"
    by (simp add: reset_runtime_def new_runtime_def new_arena_def quoted_import a_def) (simp add: import_def alloc_simps reset_arena_def)
  have "object_type_of 0 = PairType" "ptr_index 0 = 0" by (simp_all add: object_type_of_def ptr_index_def)
  then have k: "node_kind_of a 0 = PairNode ONE ?p" "node_kind_of a ONE = AtomNode" "arena_atom a ONE = Some quote_kw"
    using den_NIL_ONE(2) [of a] by (auto simp: node_kind_of_def a_def quote_kw_def elim: den_AtomE)
  have "small_bytes 5 = [5]" by (rule fits_in_small_atom_Some(2)) (simp add: fits_in_small_atom_def)
  then have p: "export a ?p = Some (Inr (Atom [5]))"
    by (intro export_den den_atom) (simp_all add: live_def below_def arena_atom_def)
  define rt0 where "rt0 = (new_runtime d 2000)\<lparr>rt_arena := a, value_stack := [new_ptr SmallAtomType 3, 0], op_stack := [EvalOp]\<rparr>"
  have "run_loop rt0 2000 0 = Some (rt0\<lparr>value_stack := [?p], op_stack := []\<rparr>, Inr 20)"
    by (subst run_loop.simps)
      (simp add: rt0_def new_runtime_def eval_op_def eval_pair_def eval_op_atom_def k QUOTE_COST_def run_loop.simps Let_def)
  with i show ?thesis
    by (simp add: run_def run_in_arena_def reset_runtime_def new_runtime_def new_arena_def quoted_import rt0_def Let_def p [unfolded a_def] a_def)
qed


text \<open>
  C1: the interpreter is correct. A run that returns and whose charged bytes stay within the heap limit either reports
  that memory ran out, or returns what the recursive evaluator returns for the program, its error or its cost and
  value; and a successful run leaves the three stacks empty.
\<close>

theorem run_refines:
  assumes "run rt program args = Some (rt', r)" "heap_used (rt_arena rt') \<le> HEAP_LIMIT"
  shows "case r of
     Inl e \<Rightarrow> resource_error e \<or> (\<exists>fuel. evaluate fuel (rt_dialect rt) (rt_max_cost rt)
       (if rt_max_cost rt = 0 then - 1 else rt_max_cost rt) 0 0 program args = Some (Inl e))
   | Inr (cost, s) \<Rightarrow> (\<exists>fuel. evaluate fuel (rt_dialect rt) (rt_max_cost rt)
       (if rt_max_cost rt = 0 then - 1 else rt_max_cost rt) 0 0 program args = Some (Inr (cost, s))) \<and>
       value_stack rt' = [] \<and> op_stack rt' = [] \<and> checkpoint_stack rt' = []"
proof -
  note ev = tree_run_evaluate [of "rt_dialect rt" "rt_max_cost rt" program args]
  from assms(1) obtain y where y: "run_in_arena rt program args = Some y"
    by (auto simp: run_def split: Option.bind_splits)
  obtain rt1 x where x: "y = (rt1, x)" by (cases y)
  show ?thesis
  proof (cases x)
    case (Inl e)
    with assms(1) y x have "rt' = rt1" "r = Inl e" by (simp_all add: run_def)
    with run_in_arena_ended [of rt program args rt' "Inl e"] y x Inl assms(2) show ?thesis by (auto simp: ev)
  next
    case (Inr z)
    obtain cost p where z: "x = Inr (cost, p)" using Inr by (cases z) auto
    with assms(1) y x obtain w where w: "export (rt_arena rt1) p = Some w" by (auto simp: run_def)
    with assms(1) y x z have rt1: "rt1 = rt'" by (auto simp: run_def split: sum.splits)
    with run_in_arena_ended [of rt program args rt' "Inr (cost, p)"] y x z assms(2)
    obtain s where s: "value_stack rt' = []" "op_stack rt' = []" "checkpoint_stack rt' = []" "den (rt_arena rt') p s"
      "tree_run (rt_dialect rt) (rt_max_cost rt) program args = Some (Inr (cost, s))" by auto
    from export_den [OF s(4)] assms(1) y x z rt1 have "r = Inr (cost, s)" by (simp add: run_def)
    with s show ?thesis by (simp add: ev)
  qed
qed

theorem run_refines_witness:
  "\<exists>rt' :: (unit, unit, unit) runtime. \<exists>d. run (new_runtime d 2000) quoted (Atom [3]) = Some (rt', Inr (20, Atom [5])) \<and>
     heap_used (rt_arena rt') \<le> HEAP_LIMIT \<and> (\<exists>fuel. evaluate fuel d 2000 2000 0 0 quoted (Atom [3]) = Some (Inr (20, Atom [5]))) \<and>
     value_stack rt' = [] \<and> op_stack rt' = [] \<and> checkpoint_stack rt' = []"
proof -
  fix d :: "(unit, unit, unit) dialect"
  obtain rt' where r: "run (new_runtime d 2000) quoted (Atom [3]) = Some (rt', Inr (20, Atom [5]))" "heap_used (rt_arena rt') = 4"
    using quoted_run by blast
  from r have h: "heap_used (rt_arena rt') \<le> HEAP_LIMIT" by (simp add: HEAP_LIMIT_def)
  have "(\<exists>fuel. evaluate fuel d 2000 2000 0 0 quoted (Atom [3]) = Some (Inr (20, Atom [5]))) \<and>
      value_stack rt' = [] \<and> op_stack rt' = [] \<and> checkpoint_stack rt' = []"
    using run_refines [OF r(1) h] by (simp add: new_runtime_def)
  with r(1) h show ?thesis by blast
qed

end
