(* ===== verification/MerkleSet.thy ===== *)
theory MerkleSet
  imports XchPrelude "HOL-Library.List_Lexorder"
begin

text \<open>
  The Merkle set of \<^verbatim>\<open>core/src/consensus/merkle_set.rs\<close>: construction from leaves, generation of
  inclusion and exclusion proofs, reconstruction from proof bytes and validation; and the root
  computation of \<^verbatim>\<open>core/src/consensus/block_generator.rs\<close>. SHA-256 is the parameter \<open>H\<close>. A set keeps its
  nodes in a vector and refers to children by index. Indices are naturals: a vector of
  \<open>2 ^ 31\<close> leaves or more, where the \<open>u32\<close> and \<open>i32\<close> casts would cut, is outside the model.
\<close>

section \<open>Nodes and hashes\<close>

definition BLANK :: bytes where "BLANK = replicate 32 0"

definition EMPTY_NODE_HASH :: bytes where
  "EMPTY_NODE_HASH =
     [0x66, 0x68, 0x7a, 0xad, 0xf8, 0x62, 0xbd, 0x77, 0x6c, 0x8f, 0xc1, 0x8b, 0x8e, 0x9f, 0x8e, 0x20,
      0x08, 0x97, 0x14, 0x85, 0x6e, 0xe2, 0x33, 0xb3, 0x90, 0x2a, 0x59, 0x1d, 0x0d, 0x5f, 0x29, 0x25]"

definition EMPTY :: u8 where "EMPTY = 0"
definition TERMINAL :: u8 where "TERMINAL = 1"
definition MIDDLE :: u8 where "MIDDLE = 2"
definition TRUNCATED :: u8 where "TRUNCATED = 3"

lemmas proof_codes = EMPTY_def TERMINAL_def MIDDLE_def TRUNCATED_def

datatype node_type = NEmpty | Term | Mid | MidDbl

definition encode_type :: "node_type \<Rightarrow> u8" where
  "encode_type t = (case t of NEmpty \<Rightarrow> 0 | Term \<Rightarrow> 1 | Mid \<Rightarrow> 2 | MidDbl \<Rightarrow> 2)"

definition merkle_hash :: "hash_fn \<Rightarrow> node_type \<Rightarrow> node_type \<Rightarrow> bytes \<Rightarrow> bytes \<Rightarrow> bytes" where
  "merkle_hash H ltype rtype left right =
     H (replicate 30 0 @ [encode_type ltype, encode_type rtype] @ left @ right)"

definition hash_leaf :: "hash_fn \<Rightarrow> bytes \<Rightarrow> bytes" where
  "hash_leaf H leaf = H (1 # leaf)"

definition get_bit :: "bytes \<Rightarrow> u8 \<Rightarrow> bool" where
  "get_bit val b = (val ! unat (b div 8) AND drop_bit (unat (b AND 7)) 0x80 \<noteq> 0)"

datatype stored_kind = KLeaf | KMiddle nat nat | KEmpty | KTruncated

definition kind_type :: "stored_kind \<Rightarrow> node_type" where
  "kind_type k = (case k of KEmpty \<Rightarrow> NEmpty | KLeaf \<Rightarrow> Term | KMiddle _ _ \<Rightarrow> Mid | KTruncated \<Rightarrow> Mid)"

record stored_node =
  kind :: stored_kind
  nhash :: bytes

definition stored :: "stored_kind \<Rightarrow> bytes \<Rightarrow> stored_node" where
  "stored k h = \<lparr>kind = k, nhash = h\<rparr>"

text \<open>\<open>SetError\<close> is the error of the source; \<open>Panic\<close> is a failed assertion or an index out of bounds.\<close>

datatype merkle_fault = SetError | Panic

record merkle_set =
  nodes :: "stored_node list"
  from_proof_flag :: bool

definition node_at :: "stored_node list \<Rightarrow> nat \<Rightarrow> merkle_fault + stored_node" where
  "node_at ns i = (if i < length ns then Inr (ns ! i) else Inl Panic)"

section \<open>Construction from leaves\<close>

text \<open>The partition on the bit at \<open>depth\<close>: bits that are 0 to the left, 1 to the right.\<close>

function partition_loop :: "u8 \<Rightarrow> bytes list \<Rightarrow> int \<Rightarrow> int \<Rightarrow> bytes list \<times> int \<times> int" where
  "partition_loop depth rng left right =
     (if left \<le> right then
        let left_bit = get_bit (rng ! nat left) depth;
            right_bit = get_bit (rng ! nat right) depth
        in if left_bit \<and> \<not> right_bit
           then partition_loop depth
             (rng[nat left := rng ! nat right, nat right := rng ! nat left]) (left + 1) (right - 1)
           else partition_loop depth rng
             (if \<not> left_bit then left + 1 else left) (if right_bit then right - 1 else right)
      else (rng, left, right))"
  by pat_completeness auto
termination
  by (relation "measure (\<lambda>(depth, rng, left, right). nat (right - left + 1))") auto

declare partition_loop.simps [simp del]

lemma unat_Suc_u8: "d \<noteq> 255 \<Longrightarrow> unat (d + 1 :: u8) = unat d + 1"
proof -
  assume "d \<noteq> 255"
  then have "unat d \<noteq> 255" by (auto simp: word_unat_eq_iff)
  with unat_byte_less [of d] have "unat d + 1 < 256" by linarith
  then show ?thesis by (simp add: unat_word_ariths)
qed

lemma depth_decreases: "d \<noteq> 255 \<Longrightarrow> 255 - unat (d + 1 :: u8) < 255 - unat d"
proof -
  assume d: "d \<noteq> 255"
  then have "unat d \<noteq> 255" by (auto simp: word_unat_eq_iff)
  with unat_byte_less [of d] have "unat d < 255" by linarith
  with unat_Suc_u8 [OF d] show ?thesis by simp
qed

function generate_merkle_tree_recurse ::
    "hash_fn \<Rightarrow> stored_node list \<Rightarrow> bytes list \<Rightarrow> u8 \<Rightarrow>
     merkle_fault + stored_node list \<times> bytes \<times> node_type" where
  "generate_merkle_tree_recurse H ns leaves depth =
     (if leaves = [] then Inl Panic
      else if length leaves = 1 then Inr (ns @ [stored KLeaf (leaves ! 0)], leaves ! 0, Term)
      else
        let p = partition_loop depth leaves 0 (int (length leaves) - 1);
            rng = fst p; left = fst (snd p); right = snd (snd p);
            left_empty = (left = 0); right_empty = (right = int (length leaves) - 1)
        in if left_empty \<or> right_empty then
             if depth = 255 then Inr (ns @ [stored KLeaf (rng ! 0)], rng ! 0, Term)
             else bind_res (generate_merkle_tree_recurse H ns rng (depth + 1)) (\<lambda>r.
               let ns1 = fst r; child_hash = fst (snd r); child_type = snd (snd r)
               in if child_type = Mid then
                    let ns2 = ns1 @ [stored KEmpty EMPTY_NODE_HASH]; node_length = length ns2
                    in if left_empty then
                         let node_hash = merkle_hash H NEmpty child_type BLANK child_hash
                         in Inr (ns2 @ [stored (KMiddle (node_length - 1) (node_length - 2)) node_hash],
                                 node_hash, Mid)
                       else
                         let node_hash = merkle_hash H child_type NEmpty child_hash BLANK
                         in Inr (ns2 @ [stored (KMiddle (node_length - 2) (node_length - 1)) node_hash],
                                 node_hash, Mid)
                  else Inr (ns1, child_hash, child_type))
           else if depth = 255 then
             let l = rng ! 0; r = rng ! nat left;
                 ns2 = ns @ [stored KLeaf l, stored KLeaf r]; nodes_len = length ns2;
                 node_hash = merkle_hash H Term Term l r
             in Inr (ns2 @ [stored (KMiddle (nodes_len - 2) (nodes_len - 1)) node_hash], node_hash, MidDbl)
           else
             bind_res (generate_merkle_tree_recurse H ns (take (nat left) rng) (depth + 1)) (\<lambda>lr.
             bind_res (generate_merkle_tree_recurse H (fst lr) (drop (nat left) rng) (depth + 1)) (\<lambda>rr.
               let left_child_index = length (fst lr) - 1;
                   left_type = snd (snd lr); right_type = snd (snd rr);
                   node_hash = merkle_hash H left_type right_type (fst (snd lr)) (fst (snd rr));
                   node_type = (if left_type = Term \<and> right_type = Term then MidDbl else Mid)
               in Inr (fst rr @ [stored (KMiddle left_child_index (length (fst rr) - 1)) node_hash],
                       node_hash, node_type))))"
  by pat_completeness auto
termination
  by (relation "measure (\<lambda>(H, ns, leaves, depth). 255 - unat depth)") (auto dest: depth_decreases)

declare generate_merkle_tree_recurse.simps [simp del]

definition from_leafs :: "hash_fn \<Rightarrow> bytes list \<Rightarrow> merkle_fault + merkle_set" where
  "from_leafs H leafs =
     (if leafs = [] then Inr \<lparr>nodes = [stored KEmpty BLANK], from_proof_flag = False\<rparr>
      else bind_res (generate_merkle_tree_recurse H [] leafs 0) (\<lambda>r.
        Inr \<lparr>nodes = fst r, from_proof_flag = False\<rparr>))"

definition get_root :: "hash_fn \<Rightarrow> merkle_set \<Rightarrow> bytes" where
  "get_root H m =
     (if nodes m = [] then BLANK
      else case kind (last (nodes m)) of
          KLeaf \<Rightarrow> hash_leaf H (nhash (last (nodes m)))
        | KMiddle _ _ \<Rightarrow> nhash (last (nodes m))
        | KTruncated \<Rightarrow> nhash (last (nodes m))
        | KEmpty \<Rightarrow> BLANK)"

section \<open>Generation of proofs\<close>

text \<open>
  The recursion runs over node indices and a \<open>u8\<close> depth that wraps, so neither function ends on every
  argument; not returning is \<open>None\<close>.
\<close>

partial_function (option) pad_middles_for_proof_gen ::
    "bytes \<Rightarrow> bytes \<Rightarrow> bytes \<Rightarrow> u8 \<Rightarrow> bytes option" where
  "pad_middles_for_proof_gen pf left right depth =
     (if get_bit left depth \<noteq> get_bit right depth
      then Some (pf @ [MIDDLE] @ [TERMINAL] @ left @ [TERMINAL] @ right)
      else if get_bit left depth
      then pad_middles_for_proof_gen (pf @ [MIDDLE] @ [EMPTY]) left right (depth + 1)
      else Option.bind (pad_middles_for_proof_gen (pf @ [MIDDLE]) left right (depth + 1))
             (\<lambda>pf'. Some (pf' @ [EMPTY])))"

definition other_included :: "stored_node list \<Rightarrow> nat \<Rightarrow> bytes \<Rightarrow> merkle_fault + bytes" where
  "other_included ns current_node_index pf =
     bind_res (node_at ns current_node_index) (\<lambda>n.
       case kind n of
         KEmpty \<Rightarrow> Inr (pf @ [EMPTY])
       | KMiddle _ _ \<Rightarrow> Inr (pf @ [TRUNCATED] @ nhash n)
       | KTruncated \<Rightarrow> Inr (pf @ [TRUNCATED] @ nhash n)
       | KLeaf \<Rightarrow> Inr (pf @ [TERMINAL] @ nhash n))"

partial_function (option) generate_proof_impl ::
    "stored_node list \<Rightarrow> nat \<Rightarrow> bytes \<Rightarrow> bytes \<Rightarrow> u8 \<Rightarrow> (merkle_fault + bool \<times> bytes) option" where
  "generate_proof_impl ns current_node_index leaf pf depth =
     Option.bind (Some (node_at ns current_node_index)) (\<lambda>nd. case nd of Inl e \<Rightarrow> Some (Inl e) | Inr n \<Rightarrow>
       (case kind n of
          KEmpty \<Rightarrow> Some (Inr (False, pf @ [EMPTY]))
        | KLeaf \<Rightarrow> Some (Inr (nhash n = leaf, pf @ [TERMINAL] @ nhash n))
        | KTruncated \<Rightarrow> Some (Inl SetError)
        | KMiddle left right \<Rightarrow>
            (case (node_at ns left, node_at ns right) of
               (Inr l, Inr r) \<Rightarrow>
                 if kind l = KLeaf \<and> kind r = KLeaf then
                   Option.bind (pad_middles_for_proof_gen pf (nhash l) (nhash r) depth) (\<lambda>pf'.
                     Some (Inr (nhash l = leaf \<or> nhash r = leaf, pf')))
                 else if get_bit leaf depth then
                   (case other_included ns left (pf @ [MIDDLE]) of
                      Inl e \<Rightarrow> Some (Inl e)
                    | Inr pf' \<Rightarrow> generate_proof_impl ns right leaf pf' (depth + 1))
                 else
                   Option.bind (generate_proof_impl ns left leaf (pf @ [MIDDLE]) (depth + 1)) (\<lambda>x.
                     case x of
                       Inl e \<Rightarrow> Some (Inl e)
                     | Inr (res, pf') \<Rightarrow>
                         (case other_included ns right pf' of
                            Inl e \<Rightarrow> Some (Inl e)
                          | Inr pf'' \<Rightarrow> Some (Inr (res, pf''))))
             | _ \<Rightarrow> Some (Inl Panic))))"

definition generate_proof :: "merkle_set \<Rightarrow> bytes \<Rightarrow> (merkle_fault + bool \<times> bytes) option" where
  "generate_proof m leaf =
     (if nodes m = [] then Some (Inl SetError)
      else bind_opt (generate_proof_impl (nodes m) (length (nodes m) - 1) leaf [] 0) (\<lambda>(included, pf).
        if from_proof_flag m then Some (Inr (included, [])) else Some (Inr (included, pf))))"

section \<open>Reconstruction from proof bytes\<close>

datatype parse_op = OpNode | OpMiddle

definition read_proof :: "nat \<Rightarrow> bytes \<Rightarrow> merkle_fault + bytes \<times> bytes" where
  "read_proof n pf = ok_or (take_exact n pf) SetError"

definition leaf_audit :: "bytes \<Rightarrow> bool list \<Rightarrow> bool" where
  "leaf_audit leaf bits = list_all (\<lambda>(p, v). get_bit leaf (of_nat p) = v) (enumerate 0 bits)"

definition middle_type :: "node_type \<Rightarrow> node_type \<Rightarrow> node_type" where
  "middle_type l r =
     (if l = Term \<and> r = Term \<or> l = NEmpty \<and> r = MidDbl \<or> l = MidDbl \<and> r = NEmpty then MidDbl else Mid)"

text \<open>The value left on the stack by a middle operation and the hash of the node it appends.\<close>

definition middle_value ::
    "hash_fn \<Rightarrow> stored_node list \<Rightarrow> nat \<times> node_type \<Rightarrow> nat \<times> node_type \<Rightarrow>
     merkle_fault + (nat \<times> node_type) \<times> bytes" where
  "middle_value H ns left right =
     bind_res (node_at ns (fst left)) (\<lambda>l. bind_res (node_at ns (fst right)) (\<lambda>r.
       if snd left = NEmpty \<and> snd right = MidDbl then Inr (right, nhash r)
       else if snd left = MidDbl \<and> snd right = NEmpty then Inr (left, nhash l)
       else Inr ((length ns, middle_type (snd left) (snd right)),
                 merkle_hash H (kind_type (kind l)) (kind_type (kind r)) (nhash l) (nhash r))))"

function deserialize_loop ::
    "hash_fn \<Rightarrow> parse_op list \<Rightarrow> bool list list \<Rightarrow> (nat \<times> node_type) list \<Rightarrow> stored_node list \<Rightarrow> nat \<Rightarrow>
     bytes \<Rightarrow> merkle_fault + stored_node list \<times> bytes" where
  "deserialize_loop H [] bits_stack values ns depth pf = Inr (ns, pf)"
| "deserialize_loop H (op # ops) [] values ns depth pf = Inl SetError"
| "deserialize_loop H (OpNode # ops) (bits # bits_stack) values ns depth pf =
     bind_res (read_proof 1 pf) (\<lambda>h.
       let b = fst h ! 0 in
       if b = EMPTY then
         deserialize_loop H ops bits_stack ((length ns, NEmpty) # values) (ns @ [stored KEmpty BLANK]) depth (snd h)
       else if b = TERMINAL then
         bind_res (read_proof 32 (snd h)) (\<lambda>l.
           if leaf_audit (fst l) bits then
             deserialize_loop H ops bits_stack ((length ns, Term) # values)
               (ns @ [stored KLeaf (fst l)]) depth (snd l)
           else Inl SetError)
       else if b = TRUNCATED then
         bind_res (read_proof 32 (snd h)) (\<lambda>t.
           deserialize_loop H ops bits_stack ((length ns, Mid) # values)
             (ns @ [stored KTruncated (fst t)]) depth (snd t))
       else if b = MIDDLE then
         if depth > 256 then Inl SetError
         else deserialize_loop H (OpNode # OpNode # OpMiddle # ops)
                ((bits @ [False]) # (bits @ [True]) # [] # bits_stack) values ns (depth + 1) (snd h)
       else Inl SetError)"
| "deserialize_loop H (OpMiddle # ops) (bits # bits_stack) values ns depth pf =
     (case values of
        right # left # vs \<Rightarrow>
          bind_res (middle_value H ns left right) (\<lambda>m.
            deserialize_loop H ops bits_stack (fst m # vs)
              (ns @ [stored (KMiddle (fst left) (fst right)) (snd m)]) (depth - 1) pf)
      | _ \<Rightarrow> Inl SetError)"
  by pat_completeness auto

lemma read_proof_shorter: "read_proof n pf = Inr (bs, rest) \<Longrightarrow> pf = bs @ rest \<and> length bs = n"
  by (simp add: read_proof_def take_exact_SomeD)

lemma read_proof_length: "read_proof n pf = Inr x \<Longrightarrow> length pf = n + length (snd x)"
  by (cases x) (auto dest: read_proof_shorter)

termination deserialize_loop
  by (relation "measure (\<lambda>(H, ops, bits, vals, ns, depth, pf). 3 * length pf + length ops)")
    (auto dest!: read_proof_length)

definition from_proof :: "hash_fn \<Rightarrow> bytes \<Rightarrow> merkle_fault + merkle_set" where
  "from_proof H pf =
     bind_res (deserialize_loop H [OpNode] [[]] [] [] 0 pf) (\<lambda>(ns, rest).
       if rest = [] then Inr \<lparr>nodes = ns, from_proof_flag = True\<rparr> else Inl SetError)"

definition validate_merkle_proof :: "hash_fn \<Rightarrow> bytes \<Rightarrow> bytes \<Rightarrow> bytes \<Rightarrow> (merkle_fault + bool) option" where
  "validate_merkle_proof H pf item root =
     (case from_proof H pf of
        Inl e \<Rightarrow> Some (Inl e)
      | Inr tree \<Rightarrow>
          if get_root H tree \<noteq> root then Some (Inl SetError)
          else bind_opt (generate_proof tree item) (\<lambda>r. Some (Inr (fst r))))"

section \<open>The root computation of the block generator\<close>

datatype merkle_node_type = Terminal | Middle | MiddleDbl

definition merkle_tag :: "merkle_node_type \<Rightarrow> u8" where
  "merkle_tag t = (case t of Terminal \<Rightarrow> 1 | Middle \<Rightarrow> 2 | MiddleDbl \<Rightarrow> 2)"

definition merkle_hashdown :: "hash_fn \<Rightarrow> u8 \<Rightarrow> u8 \<Rightarrow> bytes \<Rightarrow> bytes \<Rightarrow> bytes" where
  "merkle_hashdown H ltag rtag left right = H (replicate 30 0 @ [ltag, rtag] @ left @ right)"

definition bit_is_set :: "bytes \<Rightarrow> nat \<Rightarrow> bool" where
  "bit_is_set item b = (b div 8 < length item \<and> item ! (b div 8) AND push_bit (7 - b mod 8) 1 \<noteq> 0)"

partial_function (option) merkle_set_recurse ::
    "hash_fn \<Rightarrow> bytes list \<Rightarrow> nat \<Rightarrow> (merkle_fault + bytes \<times> merkle_node_type) option" where
  "merkle_set_recurse H items depth =
     (if length items = 1 then Some (Inr (items ! 0, Terminal))
      else
        let split = length (takeWhile (\<lambda>item. \<not> bit_is_set item depth) items);
            left = take split items; right = drop split items
        in if left = [] \<and> right = [] then Some (Inl Panic)
           else if left = [] then
             Option.bind (merkle_set_recurse H right (depth + 1)) (\<lambda>x. case x of
                 Inl e \<Rightarrow> Some (Inl e)
               | Inr (child, child_type) \<Rightarrow>
                   if child_type = Middle
                   then Some (Inr (merkle_hashdown H EMPTY MIDDLE BLANK child, Middle))
                   else Some (Inr (child, child_type)))
           else if right = [] then
             Option.bind (merkle_set_recurse H left (depth + 1)) (\<lambda>x. case x of
                 Inl e \<Rightarrow> Some (Inl e)
               | Inr (child, child_type) \<Rightarrow>
                   if child_type = Middle
                   then Some (Inr (merkle_hashdown H MIDDLE EMPTY child BLANK, Middle))
                   else Some (Inr (child, child_type)))
           else
             Option.bind (merkle_set_recurse H left (depth + 1)) (\<lambda>x. case x of
                 Inl e \<Rightarrow> Some (Inl e)
               | Inr (lhash, ltype) \<Rightarrow>
                   Option.bind (merkle_set_recurse H right (depth + 1)) (\<lambda>y. case y of
                       Inl e \<Rightarrow> Some (Inl e)
                     | Inr (rhash, rtype) \<Rightarrow>
                         Some (Inr (merkle_hashdown H (merkle_tag ltype) (merkle_tag rtype) lhash rhash,
                           if ltype = Terminal \<and> rtype = Terminal then MiddleDbl else Middle)))))"

definition merkle_set_root :: "hash_fn \<Rightarrow> bytes list \<Rightarrow> (merkle_fault + bytes) option" where
  "merkle_set_root H items0 =
     (let items = remdups_adj (sort items0)
      in if items = [] then Some (Inr BLANK)
         else bind_opt (merkle_set_recurse H items 0) (\<lambda>(h, node_type).
           case node_type of
             Terminal \<Rightarrow> Some (Inr (H (TERMINAL # h)))
           | Middle \<Rightarrow> Some (Inr h)
           | MiddleDbl \<Rightarrow> Some (Inr h)))"

end
