(* ===== verification/MerkleTree.thy ===== *)
theory MerkleTree
  imports MerkleSet
begin

text \<open>
  The tree that a node vector of the Merkle set stands for, and the construction as a function of the
  set of keys: every call of the recursive construction appends the nodes of the specified tree.
\<close>

section \<open>Bits of a key\<close>

abbreviation key_bit :: "bytes \<Rightarrow> nat \<Rightarrow> bool" where
  "key_bit k i \<equiv> get_bit k (of_nat i)"

lemma get_bit_nth: "i < 256 \<Longrightarrow> key_bit k i = bit (k ! (i div 8)) (7 - i mod 8)"
proof -
  assume i: "i < 256"
  have u: "unat (of_nat i :: u8) = i" using i by simp
  have "unat ((of_nat i :: u8) div 8) = i div 8" using i by (simp add: unat_div)
  moreover have "unat ((of_nat i :: u8) AND 7) = i mod 8"
  proof -
    have "(of_nat i :: u8) AND 7 = take_bit 3 (of_nat i)" by (simp add: take_bit_eq_mask mask_eq_exp_minus_1)
    then have "unat ((of_nat i :: u8) AND 7) = take_bit 3 (unat (of_nat i :: u8))"
      by (simp only: unsigned_take_bit_eq)
    then show ?thesis by (simp only: u take_bit_eq_mod) simp
  qed
  moreover have "(b AND drop_bit j 0x80 \<noteq> 0) = bit b (7 - j)" if j8: "j < 8" for b :: u8 and j
  proof -
    have "drop_bit j (0x80 :: u8) = push_bit (7 - j) 1"
    proof -
      consider "j = 0" | "j = 1" | "j = 2" | "j = 3" | "j = 4" | "j = 5" | "j = 6" | "j = 7"
        using j8 by linarith
      then show ?thesis by cases simp_all
    qed
    then show ?thesis by (simp add: push_bit_of_1 and_exp_eq_0_iff_not_bit)
  qed
  ultimately show ?thesis by (simp add: get_bit_def)
qed

lemma bit_index:
  assumes "n < 8"
  obtains i :: nat where "i div 8 = j" "7 - i mod 8 = n" "i = 8 * j + (7 - n)"
proof (rule that [of "8 * j + (7 - n)"])
  show "7 - (8 * j + (7 - n)) mod 8 = n" using assms by (simp only: mod_mult_self4) simp
qed (use assms in simp_all)

lemma keys_eqI:
  assumes "length a = 32" "length b = 32" "\<And>i. i < 256 \<Longrightarrow> key_bit a i = key_bit b i"
  shows "a = b"
proof (rule nth_equalityI)
  fix j assume j: "j < length a"
  show "a ! j = b ! j"
  proof (rule bit_eqI)
    fix n assume "possible_bit TYPE(u8) n"
    then have n: "n < 8" by (simp add: possible_bit_word)
    obtain i where i: "i div 8 = j" "7 - i mod 8 = n" "i = 8 * j + (7 - n)" using n by (rule bit_index)
    then have "i < 256" using j assms(1) by simp
    with assms(3) [of i] show "bit (a ! j) n = bit (b ! j) n" using i(1,2) by (simp add: get_bit_nth)
  qed
qed (use assms in simp)

section \<open>The partition\<close>

lemma partition_loop_post:
  assumes "partition_loop depth xs left right = (ys, l, r)"
    and "0 \<le> left" "right < int (length xs)" "left \<le> right + 1"
    and "\<And>i. i < nat left \<Longrightarrow> \<not> get_bit (xs ! i) depth"
    and "\<And>i. i < length xs \<Longrightarrow> right < int i \<Longrightarrow> get_bit (xs ! i) depth"
  shows "mset ys = mset xs \<and> r = l - 1 \<and> 0 \<le> l \<and> l \<le> int (length xs) \<and>
    (\<forall>i < nat l. \<not> get_bit (ys ! i) depth) \<and>
    (\<forall>i < length xs. nat l \<le> i \<longrightarrow> get_bit (ys ! i) depth)"
  using assms
proof (induction depth xs left right rule: partition_loop.induct)
  case (1 depth xs left right)
  show ?case
  proof (cases "left \<le> right")
    case False
    with 1 have "l = left" "r = right" "ys = xs" "left = right + 1"
      by (auto simp: partition_loop.simps [of depth xs left right])
    with 1 show ?thesis by auto
  next
    case True
    let ?lb = "get_bit (xs ! nat left) depth" and ?rb = "get_bit (xs ! nat right) depth"
    have lr: "nat left < length xs" "nat right < length xs" using 1(4,5) True by auto
    show ?thesis
    proof (cases "?lb \<and> \<not> ?rb")
      case sw: True
      let ?xs = "xs[nat left := xs ! nat right, nat right := xs ! nat left]"
      have ne: "left \<noteq> right" using sw by auto
      have "partition_loop depth ?xs (left + 1) (right - 1) = (ys, l, r)"
        using 1(3) True sw by (simp add: partition_loop.simps [of depth xs left right])
      moreover have "\<not> get_bit (?xs ! i) depth" if "i < nat (left + 1)" for i
        using that 1(7) [of i] sw lr ne True by (cases "i = nat left") (auto simp: nth_list_update)
      moreover have "get_bit (?xs ! i) depth" if "i < length ?xs" "right - 1 < int i" for i
        using that 1(8) [of i] sw lr ne True by (cases "i = nat right") (auto simp: nth_list_update)
      ultimately have "mset ys = mset ?xs \<and> r = l - 1 \<and> 0 \<le> l \<and> l \<le> int (length ?xs) \<and>
          (\<forall>i < nat l. \<not> get_bit (ys ! i) depth) \<and>
          (\<forall>i < length ?xs. nat l \<le> i \<longrightarrow> get_bit (ys ! i) depth)"
        using 1(4-6) ne True by (intro 1(1) [OF True refl refl sw]) auto
      moreover have "mset ?xs = mset xs" using lr by (simp add: mset_swap)
      ultimately show ?thesis by simp
    next
      case nsw: False
      let ?l = "if \<not> ?lb then left + 1 else left" and ?r = "if ?rb then right - 1 else right"
      have "partition_loop depth xs ?l ?r = (ys, l, r)"
        using 1(3) True nsw by (simp add: partition_loop.simps [of depth xs left right])
      moreover have "\<not> get_bit (xs ! i) depth" if "i < nat ?l" for i
        using that 1(7) [of i] lr 1(4) by (cases "i = nat left") (auto split: if_splits)
      moreover have "get_bit (xs ! i) depth" if "i < length xs" "?r < int i" for i
        using that 1(8) [of i] lr by (cases "i = nat right") (auto split: if_splits)
      moreover have "?l \<le> ?r + 1" using nsw True by (cases "left = right") auto
      moreover have "0 \<le> ?l" "?r < int (length xs)" using 1(4,5) by simp_all
      ultimately show ?thesis by (intro 1(2) [OF True refl refl nsw])
    qed
  qed
qed

section \<open>Trees\<close>

text \<open>
  The tree a node vector stands for. A node of kind \<open>Middle\<close> whose two children are leaves is the
  double terminal of the source.
\<close>

datatype mtree = TEmpty | TLeaf bytes | TTrunc bytes | TMid mtree mtree

fun is_dbl :: "mtree \<Rightarrow> bool" where
  "is_dbl (TMid (TLeaf _) (TLeaf _)) = True"
| "is_dbl _ = False"

definition ttype :: "mtree \<Rightarrow> node_type" where
  "ttype t = (case t of TEmpty \<Rightarrow> NEmpty | TLeaf _ \<Rightarrow> Term | TTrunc _ \<Rightarrow> Mid | TMid _ _ \<Rightarrow> Mid)"

definition node_ty :: "mtree \<Rightarrow> node_type" where
  "node_ty t = (if is_dbl t then MidDbl else ttype t)"

fun thash :: "hash_fn \<Rightarrow> mtree \<Rightarrow> bytes" where
  "thash H TEmpty = BLANK"
| "thash H (TLeaf k) = k"
| "thash H (TTrunc h) = h"
| "thash H (TMid l r) = merkle_hash H (ttype l) (ttype r) (thash H l) (thash H r)"

lemma ttype_simps [simp]:
  "ttype TEmpty = NEmpty" "ttype (TLeaf k) = Term" "ttype (TTrunc h) = Mid" "ttype (TMid l r) = Mid"
  by (simp_all add: ttype_def)

lemma is_dblE: "is_dbl t \<Longrightarrow> (\<And>a b. t = TMid (TLeaf a) (TLeaf b) \<Longrightarrow> P) \<Longrightarrow> P"
  by (cases t rule: is_dbl.cases) auto

lemma encode_node_ty: "encode_type (node_ty t) = encode_type (ttype t)"
  by (auto simp: node_ty_def encode_type_def elim!: is_dblE)

lemma merkle_hash_node_ty: "merkle_hash H (node_ty l) (node_ty r) x y = merkle_hash H (ttype l) (ttype r) x y"
  by (simp add: merkle_hash_def encode_node_ty)

lemma node_ty_Mid: "node_ty t = Mid \<longleftrightarrow> (\<exists>h. t = TTrunc h) \<or> (\<exists>l r. t = TMid l r) \<and> \<not> is_dbl t"
  by (cases t) (auto simp: node_ty_def)

lemma node_ty_simps [simp]:
  "node_ty TEmpty = NEmpty" "node_ty (TLeaf k) = Term" "node_ty (TTrunc h) = Mid"
  "node_ty t = Term \<longleftrightarrow> (\<exists>k. t = TLeaf k)" "node_ty t = NEmpty \<longleftrightarrow> t = TEmpty"
  "node_ty t = MidDbl \<longleftrightarrow> is_dbl t"
  by (cases t; auto simp: node_ty_def elim: is_dblE)+

text \<open>A node vector holds a tree at an index; empty nodes carry the placeholder \<open>e\<close>.\<close>

fun rep :: "hash_fn \<Rightarrow> bytes \<Rightarrow> stored_node list \<Rightarrow> nat \<Rightarrow> mtree \<Rightarrow> bool" where
  "rep H e ns i TEmpty = (i < length ns \<and> ns ! i = stored KEmpty e)"
| "rep H e ns i (TLeaf k) = (i < length ns \<and> ns ! i = stored KLeaf k)"
| "rep H e ns i (TTrunc h) = (i < length ns \<and> ns ! i = stored KTruncated h)"
| "rep H e ns i (TMid l r) =
     (i < length ns \<and> (\<exists>a b. ns ! i = stored (KMiddle a b) (thash H (TMid l r)) \<and>
        rep H e ns a l \<and> rep H e ns b r))"

lemma rep_append: "rep H e ns i t \<Longrightarrow> rep H e (ns @ ext) i t"
  by (induction t arbitrary: i) (auto simp: nth_append)

lemma rep_bound: "rep H e ns i t \<Longrightarrow> i < length ns"
  by (cases t) auto

lemma rep_last:
  "rep H e ns i TEmpty \<Longrightarrow> i < length ns" "rep H e (ns @ [stored KLeaf k]) (length ns) (TLeaf k)"
  by auto

lemma rep_mid:
  "rep H e ns a l \<Longrightarrow> rep H e ns b r \<Longrightarrow> h = thash H (TMid l r) \<Longrightarrow>
   rep H e (ns @ [stored (KMiddle a b) h]) (length ns) (TMid l r)"
  by (simp only: rep.simps nth_append_length length_append_singleton) (blast intro: rep_append)

lemma rep_kind: "rep H e ns i t \<Longrightarrow> kind_type (kind (ns ! i)) = ttype t"
  by (cases t) (auto simp: stored_def kind_type_def)

lemma rep_hash: "rep H BLANK ns i t \<Longrightarrow> nhash (ns ! i) = thash H t"
  by (cases t) (auto simp: stored_def)

section \<open>The tree of a set of keys\<close>

text \<open>
  The specification of the construction: split on the bit at the depth, forward a leaf or a double
  terminal through a one-sided level, and put an empty sibling beside any other middle node.
\<close>

definition one_sided :: "bool \<Rightarrow> mtree \<Rightarrow> mtree" where
  "one_sided right child =
     (if node_ty child = Mid then if right then TMid TEmpty child else TMid child TEmpty else child)"

function set_tree :: "nat \<Rightarrow> bytes list \<Rightarrow> mtree" where
  "set_tree d xs =
     (if xs = [] then TEmpty
      else if \<forall>x \<in> set xs. x = hd xs then TLeaf (hd xs)
      else if 256 \<le> d then TEmpty
      else let l = filter (\<lambda>x. \<not> key_bit x d) xs; r = filter (\<lambda>x. key_bit x d) xs
        in if l = [] then one_sided True (set_tree (d + 1) r)
           else if r = [] then one_sided False (set_tree (d + 1) l)
           else TMid (set_tree (d + 1) l) (set_tree (d + 1) r))"
  by pat_completeness auto
termination by (relation "measure (\<lambda>(d, xs). 256 - d)") auto

declare set_tree.simps [simp del]

definition all_same :: "'a list \<Rightarrow> bool" where
  "all_same xs \<longleftrightarrow> (\<forall>x \<in> set xs. x = hd xs)"

lemma set_tree_leaf: "xs \<noteq> [] \<Longrightarrow> all_same xs \<Longrightarrow> set_tree d xs = TLeaf (hd xs)"
  by (subst set_tree.simps) (auto simp: all_same_def)

lemma set_tree_split:
  assumes "xs \<noteq> []" "\<not> all_same xs" "d < 256"
  shows "set_tree d xs =
    (let l = filter (\<lambda>x. \<not> key_bit x d) xs; r = filter (\<lambda>x. key_bit x d) xs
     in if l = [] then one_sided True (set_tree (d + 1) r)
        else if r = [] then one_sided False (set_tree (d + 1) l)
        else TMid (set_tree (d + 1) l) (set_tree (d + 1) r))"
  using assms unfolding all_same_def by (subst set_tree.simps) (simp only: if_False not_le [symmetric] simp_thms)

lemma all_same_cong: "set xs = set ys \<Longrightarrow> all_same xs \<longleftrightarrow> all_same ys"
proof -
  have "all_same xs \<longleftrightarrow> (\<forall>x \<in> set xs. \<forall>y \<in> set xs. x = y)" for xs :: "'a list"
    by (cases "xs = []") (simp add: all_same_def, metis all_same_def hd_in_set)
  then show "set xs = set ys \<Longrightarrow> all_same xs \<longleftrightarrow> all_same ys" by simp
qed

lemma set_tree_cong: "set xs = set ys \<Longrightarrow> set_tree d xs = set_tree d ys"
proof (induction "256 - d" arbitrary: d xs ys)
  case (0 d xs ys)
  note same = all_same_cong [OF 0(2)]
  have "xs = [] \<longleftrightarrow> ys = []" using 0(2) by (metis set_empty)
  moreover have "all_same xs \<Longrightarrow> xs \<noteq> [] \<Longrightarrow> hd xs = hd ys"
    using 0(2) same by (metis all_same_def hd_in_set set_empty)
  moreover have "256 \<le> d" using 0(1) by simp
  ultimately show ?case
    using same unfolding all_same_def by (subst (1 2) set_tree.simps) auto
next
  case (Suc n d xs ys)
  have d: "d < 256" "n = 256 - (d + 1)" using Suc(2) by simp_all
  note same = all_same_cong [OF Suc(3)]
  have ne: "xs = [] \<longleftrightarrow> ys = []" using Suc(3) by (metis set_empty)
  have hd: "all_same xs \<Longrightarrow> xs \<noteq> [] \<Longrightarrow> hd xs = hd ys"
    using Suc(3) same by (metis all_same_def hd_in_set set_empty)
  have f: "set (filter P xs) = set (filter P ys)" for P using Suc(3) by simp
  have e: "filter P xs = [] \<longleftrightarrow> filter P ys = []" for P using f [of P] by (metis set_empty)
  have rec: "set_tree (d + 1) (filter P xs) = set_tree (d + 1) (filter P ys)" for P
    using d(2) f by (rule Suc(1))
  show ?case
  proof (cases "xs = [] \<or> all_same xs")
    case True
    with ne hd same show ?thesis by (cases "xs = []") (simp_all add: set_tree_leaf)
  next
    case False
    then have "ys \<noteq> []" "\<not> all_same ys" using ne same by auto
    with False d(1) show ?thesis
      using set_tree_split [of xs d] set_tree_split [of ys d] by (simp only: rec e Let_def de_Morgan_disj simp_thms)
  qed
qed

text \<open>The keys of one subtree: 32 bytes each, and equal on the bits above the depth.\<close>

definition keys_at :: "nat \<Rightarrow> bytes list \<Rightarrow> bool" where
  "keys_at d xs \<longleftrightarrow> xs \<noteq> [] \<and> (\<forall>x \<in> set xs. length x = 32) \<and>
     (\<forall>x \<in> set xs. \<forall>y \<in> set xs. \<forall>i < d. key_bit x i = key_bit y i)"

lemma keys_at_filter:
  "keys_at d xs \<Longrightarrow> filter (\<lambda>x. key_bit x d = v) xs \<noteq> [] \<Longrightarrow> keys_at (Suc d) (filter (\<lambda>x. key_bit x d = v) xs)"
  by (auto simp: keys_at_def less_Suc_eq)

lemma keys_at_256: "keys_at 256 xs \<Longrightarrow> all_same xs"
  unfolding keys_at_def all_same_def by (metis hd_in_set keys_eqI)


text \<open>Recursion of the construction, one equation per branch.\<close>

lemma partition_spec:
  assumes "2 \<le> length xs"
  obtains ys l where "partition_loop depth xs 0 (int (length xs) - 1) = (ys, int l, int l - 1)"
    "mset ys = mset xs" "l \<le> length xs"
    "set (take l ys) = set (filter (\<lambda>x. \<not> get_bit x depth) xs)"
    "set (drop l ys) = set (filter (\<lambda>x. get_bit x depth) xs)"
    "l = 0 \<longleftrightarrow> filter (\<lambda>x. \<not> get_bit x depth) xs = []" "l = length xs \<longleftrightarrow> filter (\<lambda>x. get_bit x depth) xs = []"
proof -
  obtain ys l0 r where p: "partition_loop depth xs 0 (int (length xs) - 1) = (ys, l0, r)"
    by (metis prod_cases3)
  have post: "mset ys = mset xs" "r = l0 - 1" "0 \<le> l0" "l0 \<le> int (length xs)"
    "\<forall>i < nat l0. \<not> get_bit (ys ! i) depth" "\<forall>i < length xs. nat l0 \<le> i \<longrightarrow> get_bit (ys ! i) depth"
    using partition_loop_post [OF p] assms by auto
  define l where "l = nat l0"
  have l: "l0 = int l" "l \<le> length xs" using post by (simp_all add: l_def)
  have len: "length ys = length xs" using post(1) by (metis size_mset)
  have st: "set ys = set xs" using post(1) by (rule mset_eq_setD)
  have tk: "\<forall>x \<in> set (take l ys). \<not> get_bit x depth"
    using post(5) [folded l_def] len l(2) by (auto simp: in_set_conv_nth)
  have dr: "\<forall>x \<in> set (drop l ys). get_bit x depth"
  proof
    fix x assume "x \<in> set (drop l ys)"
    then obtain j where "j < length ys - l" "x = ys ! (l + j)" by (auto simp: in_set_conv_nth)
    with post(6) [folded l_def] len show "get_bit x depth" by simp
  qed
  have un: "set ys = set (take l ys) \<union> set (drop l ys)" by (metis append_take_drop_id set_append)
  have s1: "set (take l ys) = set (filter (\<lambda>x. \<not> get_bit x depth) xs)" using tk dr un st by auto
  have s2: "set (drop l ys) = set (filter (\<lambda>x. get_bit x depth) xs)" using tk dr un st by auto
  show ?thesis
  proof (rule that [of ys l])
    show "l = 0 \<longleftrightarrow> filter (\<lambda>x. \<not> get_bit x depth) xs = []"
      using s1 assms len by (metis filter_empty_conv l(2) length_0_conv list.size(3) set_empty take_0 take_eq_Nil not_numeral_le_zero)
    show "l = length xs \<longleftrightarrow> filter (\<lambda>x. get_bit x depth) xs = []"
      using s2 len l(2) by (metis drop_eq_Nil le_antisym order_refl set_empty)
  qed (use p post l s1 s2 in simp_all)
qed

lemma one_sided_leaf [simp]: "one_sided b (TLeaf k) = TLeaf k"
  by (simp add: one_sided_def)

lemma filter_none: "filter P xs = [] \<Longrightarrow> filter (\<lambda>x. \<not> P x) xs = xs"
  by (simp add: filter_empty_conv filter_id_conv)

lemma set_tree_left_empty:
  assumes "xs \<noteq> []" "d < 256" "filter (\<lambda>x. \<not> key_bit x d) xs = []"
  shows "set_tree d xs = one_sided True (set_tree (d + 1) xs)"
proof (cases "all_same xs")
  case False
  have "filter (\<lambda>x. key_bit x d) xs = xs" using filter_none [OF assms(3)] by simp
  with False assms show ?thesis using set_tree_split [of xs d] by (simp only: Let_def if_True simp_thms)
qed (use assms in \<open>simp add: set_tree_leaf\<close>)

lemma set_tree_right_empty:
  assumes "xs \<noteq> []" "d < 256" "filter (\<lambda>x. key_bit x d) xs = []"
  shows "set_tree d xs = one_sided False (set_tree (d + 1) xs)"
proof (cases "all_same xs")
  case False
  have f: "filter (\<lambda>x. \<not> key_bit x d) xs = xs" using filter_none [OF assms(3)] .
  show ?thesis using set_tree_split [OF assms(1) False assms(2)] assms(1,3) by (simp only: Let_def f if_True if_False simp_thms)
qed (use assms in \<open>simp add: set_tree_leaf\<close>)

lemma set_tree_both:
  assumes "d < 256" "filter (\<lambda>x. \<not> key_bit x d) xs \<noteq> []" "filter (\<lambda>x. key_bit x d) xs \<noteq> []"
  shows "set_tree d xs = TMid (set_tree (d + 1) (filter (\<lambda>x. \<not> key_bit x d) xs))
    (set_tree (d + 1) (filter (\<lambda>x. key_bit x d) xs))"
proof -
  have "xs \<noteq> []" using assms by auto
  moreover have "\<not> all_same xs" using assms(2,3) unfolding all_same_def filter_empty_conv by metis
  ultimately show ?thesis using set_tree_split [of xs d] assms by (simp only: Let_def if_False simp_thms)
qed

lemma keys_at_cong: "set xs = set ys \<Longrightarrow> keys_at d xs \<Longrightarrow> keys_at d ys"
  unfolding keys_at_def by (metis set_empty)

lemma keys_at_one_sided:
  "keys_at d xs \<Longrightarrow> filter (\<lambda>x. \<not> key_bit x d) xs = [] \<or> filter (\<lambda>x. key_bit x d) xs = [] \<Longrightarrow> keys_at (Suc d) xs"
  unfolding keys_at_def filter_empty_conv by (metis less_Suc_eq)

definition tree_result :: "hash_fn \<Rightarrow> stored_node list \<Rightarrow> mtree \<Rightarrow> merkle_fault + stored_node list \<times> bytes \<times> node_type \<Rightarrow> bool"
  where "tree_result H ns t res \<longleftrightarrow> (\<exists>ext. ext \<noteq> [] \<and> res = Inr (ns @ ext, thash H t, node_ty t) \<and>
     rep H EMPTY_NODE_HASH (ns @ ext) (length (ns @ ext) - 1) t)"

lemma tree_resultI:
  "ext \<noteq> [] \<Longrightarrow> h = thash H t \<Longrightarrow> ty = node_ty t \<Longrightarrow>
   rep H EMPTY_NODE_HASH (ns @ ext) (length (ns @ ext) - 1) t \<Longrightarrow> tree_result H ns t (Inr (ns @ ext, h, ty))"
  by (auto simp: tree_result_def)

lemma tree_result_leaf: "tree_result H ns (TLeaf k) (Inr (ns @ [stored KLeaf k], k, Term))"
  by (auto simp: tree_result_def)

lemma tree_result_one_sided:
  assumes "tree_result H ns child res"
  shows "tree_result H ns (one_sided right child) (bind_res res (\<lambda>r.
       let ns1 = fst r; child_hash = fst (snd r); child_type = snd (snd r)
       in if child_type = Mid then
            let ns2 = ns1 @ [stored KEmpty EMPTY_NODE_HASH]; node_length = length ns2
            in if right then
                 let node_hash = merkle_hash H NEmpty child_type BLANK child_hash
                 in Inr (ns2 @ [stored (KMiddle (node_length - 1) (node_length - 2)) node_hash], node_hash, Mid)
               else
                 let node_hash = merkle_hash H child_type NEmpty child_hash BLANK
                 in Inr (ns2 @ [stored (KMiddle (node_length - 2) (node_length - 1)) node_hash], node_hash, Mid)
          else Inr (ns1, child_hash, child_type)))"
proof -
  obtain ext where ext: "ext \<noteq> []" "res = Inr (ns @ ext, thash H child, node_ty child)"
    and rp: "rep H EMPTY_NODE_HASH (ns @ ext) (length (ns @ ext) - 1) child"
    using assms by (auto simp: tree_result_def)
  show ?thesis
  proof (cases "node_ty child = Mid")
    case False
    with ext rp show ?thesis by (auto simp: tree_result_def one_sided_def Let_def)
  next
    case True
    let ?ns = "ns @ ext @ [stored KEmpty EMPTY_NODE_HASH]"
    have e: "rep H EMPTY_NODE_HASH ?ns (length ?ns - 1) TEmpty" by (simp add: nth_append)
    have c: "rep H EMPTY_NODE_HASH ?ns (length ?ns - 2) child"
      using rep_append [OF rp, of "[stored KEmpty EMPTY_NODE_HASH]"] ext(1) by simp
    have ty: "ttype child = Mid" using True by (cases child) (auto simp: node_ty_def split: if_splits)
    have os: "node_ty (one_sided right child) = Mid"
      using True by (auto simp: one_sided_def node_ty_def)
    have len: "length ?ns - 1 = length (ns @ ext)" "length ?ns - 2 = length (ns @ ext) - 1" by simp_all
    show ?thesis
    proof (cases right)
      case r: True
      let ?h = "merkle_hash H NEmpty Mid BLANK (thash H child)"
      have "tree_result H ns (one_sided right child)
          (Inr (ns @ ext @ [stored KEmpty EMPTY_NODE_HASH,
             stored (KMiddle (length ?ns - 1) (length ?ns - 2)) ?h], ?h, Mid))"
        using rep_mid [OF e c, of ?h] os r True ty by (intro tree_resultI) (simp_all add: one_sided_def)
      then show ?thesis using ext(2) r True by (simp add: Let_def)
    next
      case r: False
      let ?h = "merkle_hash H Mid NEmpty (thash H child) BLANK"
      have "tree_result H ns (one_sided right child)
          (Inr (ns @ ext @ [stored KEmpty EMPTY_NODE_HASH,
             stored (KMiddle (length ?ns - 2) (length ?ns - 1)) ?h], ?h, Mid))"
        using rep_mid [OF c e, of ?h] os r True ty by (intro tree_resultI) (simp_all add: one_sided_def)
      then show ?thesis using ext(2) r True by (simp add: Let_def)
    qed
  qed
qed

lemma tree_result_both:
  assumes l: "tree_result H ns lt lres" and r: "\<And>ns'. tree_result H ns' rt (rres ns')"
  shows "tree_result H ns (TMid lt rt) (bind_res lres (\<lambda>lr. bind_res (rres (fst lr)) (\<lambda>rr.
       let left_child_index = length (fst lr) - 1;
           left_type = snd (snd lr); right_type = snd (snd rr);
           node_hash = merkle_hash H left_type right_type (fst (snd lr)) (fst (snd rr));
           node_type = (if left_type = Term \<and> right_type = Term then MidDbl else Mid)
       in Inr (fst rr @ [stored (KMiddle left_child_index (length (fst rr) - 1)) node_hash],
               node_hash, node_type))))"
proof -
  obtain e1 where e1: "lres = Inr (ns @ e1, thash H lt, node_ty lt)" "e1 \<noteq> []"
    and rl: "rep H EMPTY_NODE_HASH (ns @ e1) (length (ns @ e1) - 1) lt"
    using l by (auto simp: tree_result_def)
  obtain e2 where e2: "rres (ns @ e1) = Inr ((ns @ e1) @ e2, thash H rt, node_ty rt)" "e2 \<noteq> []"
    and rr: "rep H EMPTY_NODE_HASH ((ns @ e1) @ e2) (length ((ns @ e1) @ e2) - 1) rt"
    using r [of "ns @ e1"] by (auto simp: tree_result_def)
  let ?h = "merkle_hash H (node_ty lt) (node_ty rt) (thash H lt) (thash H rt)"
  have h: "?h = thash H (TMid lt rt)" by (simp add: merkle_hash_node_ty)
  have ty: "(if node_ty lt = Term \<and> node_ty rt = Term then MidDbl else Mid) = node_ty (TMid lt rt)"
    by (cases lt; cases rt) (auto simp: node_ty_def)
  have "tree_result H ns (TMid lt rt)
      (Inr (ns @ (e1 @ e2 @ [stored (KMiddle (length (ns @ e1) - 1) (length ((ns @ e1) @ e2) - 1)) ?h]),
        ?h, if node_ty lt = Term \<and> node_ty rt = Term then MidDbl else Mid))"
    using rep_mid [OF rep_append [OF rl, of e2] rr h] e1(2)
    by (intro tree_resultI h ty) (simp_all only: append_assoc length_append, simp_all)
  then show ?thesis by (simp only: e1(1) e2(1) bind_res_Inr fst_conv snd_conv Let_def append_assoc)
qed

lemma keys_at_ne: "keys_at d xs \<Longrightarrow> xs \<noteq> []"
  unfolding keys_at_def by blast

lemma keys_256_tree: "keys_at 256 xs \<Longrightarrow> set_tree 256 xs = TLeaf (hd xs)"
  by (rule set_tree_leaf) (auto dest: keys_at_ne keys_at_256)

lemma tree_result_dbl:
  "tree_result H ns (TMid (TLeaf a) (TLeaf b))
     (Inr (ns @ [stored KLeaf a, stored KLeaf b,
        stored (KMiddle (length ns) (Suc (length ns))) (merkle_hash H Term Term a b)],
        merkle_hash H Term Term a b, MidDbl))"
proof -
  let ?ns = "ns @ [stored KLeaf a, stored KLeaf b]"
  have "rep H EMPTY_NODE_HASH ?ns (length ns) (TLeaf a)"
    "rep H EMPTY_NODE_HASH ?ns (Suc (length ns)) (TLeaf b)" by (simp_all add: nth_append)
  from rep_mid [OF this refl] show ?thesis
    by (intro tree_resultI) (simp_all add: node_ty_def)
qed

text \<open>The two branches after the partition, given the recursion one level down.\<close>

lemma gen_tree_one_sided:
  assumes k: "keys_at (unat depth) xs" and len: "2 \<le> length xs" and st: "set ys = set xs"
    and p: "partition_loop depth xs 0 (int (length xs) - 1) = (ys, int l, int l - 1)"
    and one: "l = 0 \<or> l = length xs"
    and l: "l = 0 \<longleftrightarrow> filter (\<lambda>x. \<not> get_bit x depth) xs = []" "l = length xs \<longleftrightarrow> filter (\<lambda>x. get_bit x depth) xs = []"
    and rec: "depth \<noteq> 255 \<Longrightarrow> keys_at (Suc (unat depth)) ys \<Longrightarrow>
      tree_result H ns (set_tree (Suc (unat depth)) ys) (generate_merkle_tree_recurse H ns ys (depth + 1))"
  shows "tree_result H ns (set_tree (unat depth) xs) (generate_merkle_tree_recurse H ns xs depth)"
proof -
  let ?d = "unat depth"
  have ne: "xs \<noteq> []" "ys \<noteq> []" "length xs \<noteq> 1" using len st by auto
  have k': "keys_at (Suc ?d) xs" using keys_at_one_sided [OF k] one l by auto
  show ?thesis
  proof (cases "depth = 255")
    case True
    with k' have "all_same xs" using keys_at_256 by simp
    moreover have "ys ! 0 = hd xs" using calculation ne(2) st by (metis all_same_def length_greater_0_conv nth_mem)
    ultimately show ?thesis
      using True ne one p by (simp add: generate_merkle_tree_recurse.simps [of H ns xs] set_tree_leaf tree_result_leaf)
  next
    case False
    then have rec': "tree_result H ns (set_tree (Suc ?d) xs) (generate_merkle_tree_recurse H ns ys (depth + 1))"
      using rec keys_at_cong [OF st [symmetric] k'] by (simp add: set_tree_cong [OF st])
    have t: "set_tree ?d xs = one_sided (l = 0) (set_tree (Suc ?d) xs)"
      using one l set_tree_left_empty [OF ne(1), of ?d] set_tree_right_empty [OF ne(1), of ?d] by (cases "l = 0") simp_all
    show ?thesis
      using tree_result_one_sided [OF rec', of "l = 0"] False ne one p
      by (simp add: generate_merkle_tree_recurse.simps [of H ns xs] t del: of_nat_unat)
  qed
qed

lemma gen_tree_two_sided:
  assumes k: "keys_at (unat depth) xs" and len: "2 \<le> length xs" "length ys = length xs" "l \<le> length xs"
    and p: "partition_loop depth xs 0 (int (length xs) - 1) = (ys, int l, int l - 1)"
    and two: "l \<noteq> 0" "l \<noteq> length xs"
    and sets: "set (take l ys) = set (filter (\<lambda>x. \<not> get_bit x depth) xs)"
      "set (drop l ys) = set (filter (\<lambda>x. get_bit x depth) xs)"
    and rec: "\<And>ns zs. depth \<noteq> 255 \<Longrightarrow> keys_at (Suc (unat depth)) zs \<Longrightarrow>
      tree_result H ns (set_tree (Suc (unat depth)) zs) (generate_merkle_tree_recurse H ns zs (depth + 1))"
  shows "tree_result H ns (set_tree (unat depth) xs) (generate_merkle_tree_recurse H ns xs depth)"
proof -
  let ?d = "unat depth"
  have ne: "xs \<noteq> []" "length xs \<noteq> 1" "l < length ys" "0 < l" using len two by auto
  then have "take l ys \<noteq> []" "drop l ys \<noteq> []" by auto
  then have f: "filter (\<lambda>x. \<not> key_bit x ?d) xs \<noteq> []" "filter (\<lambda>x. key_bit x ?d) xs \<noteq> []"
    using sets by (metis set_empty of_nat_unat ucast_id)+
  have kl: "keys_at (Suc ?d) (take l ys)" and kr: "keys_at (Suc ?d) (drop l ys)"
    using keys_at_filter [OF k, of False] keys_at_filter [OF k, of True] f
    by (simp_all add: keys_at_cong [OF sets(1) [symmetric]] keys_at_cong [OF sets(2) [symmetric]])
  have t: "set_tree ?d xs = TMid (set_tree (Suc ?d) (take l ys)) (set_tree (Suc ?d) (drop l ys))"
    using set_tree_both [of ?d xs] f set_tree_cong [OF sets(1), of "Suc ?d"] set_tree_cong [OF sets(2), of "Suc ?d"] by simp
  show ?thesis
  proof (cases "depth = 255")
    case True
    have hd: "hd (take l ys) = ys ! 0" "hd (drop l ys) = ys ! l"
      using ne by (cases ys; simp add: hd_drop_conv_nth)+
    then have t': "set_tree 255 xs = TMid (TLeaf (ys ! 0)) (TLeaf (ys ! l))"
      using kl kr True t keys_256_tree [of "take l ys"] keys_256_tree [of "drop l ys"] by simp
    show ?thesis
      using True two ne p
      by (simp add: generate_merkle_tree_recurse.simps [of H ns xs] t' Let_def) (rule tree_result_dbl)
  next
    case False
    then show ?thesis
      using tree_result_both [OF rec [OF False kl] rec [OF False kr], of ns] two ne p
      by (simp add: generate_merkle_tree_recurse.simps [of H ns xs] t del: of_nat_unat)
  qed
qed

lemma gen_tree:
  assumes "keys_at (unat depth) xs"
  shows "tree_result H ns (set_tree (unat depth) xs) (generate_merkle_tree_recurse H ns xs depth)"
  using assms
proof (induction "255 - unat depth" arbitrary: depth xs ns rule: less_induct)
  case less
  have ne: "xs \<noteq> []" using less.prems by (rule keys_at_ne)
  have rec: "tree_result H ns (set_tree (Suc (unat depth)) zs) (generate_merkle_tree_recurse H ns zs (depth + 1))"
    if "depth \<noteq> 255" "keys_at (Suc (unat depth)) zs" for ns zs
    using less.hyps [of "depth + 1" zs ns] depth_decreases [OF that(1)] that by (simp add: unat_Suc_u8)
  show ?case
  proof (cases "length xs = 1")
    case True
    then obtain x where "xs = [x]" by (auto simp: length_Suc_conv)
    then show ?thesis
      by (simp add: generate_merkle_tree_recurse.simps [of H ns "[x]"] set_tree_leaf all_same_def tree_result_leaf)
  next
    case False
    with ne have two: "2 \<le> length xs" by (cases xs) (auto simp: Suc_le_eq)
    obtain ys l where p: "partition_loop depth xs 0 (int (length xs) - 1) = (ys, int l, int l - 1)"
      and ys: "mset ys = mset xs" "l \<le> length xs"
        "set (take l ys) = set (filter (\<lambda>x. \<not> get_bit x depth) xs)"
        "set (drop l ys) = set (filter (\<lambda>x. get_bit x depth) xs)"
      and l: "l = 0 \<longleftrightarrow> filter (\<lambda>x. \<not> get_bit x depth) xs = []" "l = length xs \<longleftrightarrow> filter (\<lambda>x. get_bit x depth) xs = []"
      using two by (rule partition_spec)
    show ?thesis
    proof (cases "l = 0 \<or> l = length xs")
      case True
      with less.prems two mset_eq_setD [OF ys(1)] p l rec show ?thesis by (intro gen_tree_one_sided [where ys = ys and l = l])
    next
      case False
      with less.prems two mset_eq_length [OF ys(1)] p ys(2-4) rec show ?thesis
        by (intro gen_tree_two_sided [where ys = ys and l = l]) auto
    qed
  qed
qed

end
