(* ===== verification/MerkleProof.thy ===== *)
theory MerkleProof
  imports MerkleTree
begin

text \<open>
  Proof generation and reconstruction over trees: what a lookup answers, the bytes a generated proof
  consists of, and the tree and vector the parser of proofs builds from any bytes it accepts.
\<close>

definition root_of :: "hash_fn \<Rightarrow> mtree \<Rightarrow> bytes" where
  "root_of H t = (case t of TEmpty \<Rightarrow> BLANK | TLeaf k \<Rightarrow> hash_leaf H k | _ \<Rightarrow> thash H t)"

lemma get_root_rep:
  "rep H e (nodes m) (length (nodes m) - 1) t \<Longrightarrow> get_root H m = root_of H t"
  by (cases t; cases "nodes m" rule: rev_cases) (auto simp: get_root_def root_of_def stored_def)

lemma from_leafs_tree:
  assumes "xs \<noteq> []" "\<forall>x \<in> set xs. length x = 32"
  obtains m where "from_leafs H xs = Inr m" "\<not> from_proof_flag m" "nodes m \<noteq> []"
    "rep H EMPTY_NODE_HASH (nodes m) (length (nodes m) - 1) (set_tree 0 xs)"
proof -
  have "keys_at (unat (0 :: u8)) xs" using assms by (simp add: keys_at_def)
  from gen_tree [OF this, of H "[]"] obtain ns where
    "ns \<noteq> []" "generate_merkle_tree_recurse H [] xs 0 = Inr (ns, thash H (set_tree 0 xs), node_ty (set_tree 0 xs))"
    "rep H EMPTY_NODE_HASH ns (length ns - 1) (set_tree 0 xs)"
    by (auto simp: tree_result_def)
  with assms(1) that [of "\<lparr>nodes = ns, from_proof_flag = False\<rparr>"] show ?thesis
    by (simp add: from_leafs_def)
qed

section \<open>Looking a key up\<close>

text \<open>\<open>None\<close>: the walk meets a truncated subtree.\<close>

fun lookup :: "bytes \<Rightarrow> u8 \<Rightarrow> mtree \<Rightarrow> bool option" where
  "lookup item d TEmpty = Some False"
| "lookup item d (TLeaf k) = Some (k = item)"
| "lookup item d (TTrunc h) = None"
| "lookup item d (TMid l r) =
     (if is_dbl (TMid l r) then Some (l = TLeaf item \<or> r = TLeaf item)
      else if get_bit item d then lookup item (d + 1) r else lookup item (d + 1) l)"

fun pbytes :: "mtree \<Rightarrow> bytes" where
  "pbytes TEmpty = [EMPTY]"
| "pbytes (TLeaf k) = TERMINAL # k"
| "pbytes (TTrunc h) = TRUNCATED # h"
| "pbytes (TMid l r) = MIDDLE # pbytes l @ pbytes r"

text \<open>The levels between a depth and the bit where two leaves diverge.\<close>

fun pad_tree :: "nat \<Rightarrow> bytes \<Rightarrow> bytes \<Rightarrow> u8 \<Rightarrow> mtree" where
  "pad_tree 0 a b d = TMid (TLeaf a) (TLeaf b)"
| "pad_tree (Suc n) a b d =
     (if get_bit a d then TMid TEmpty (pad_tree n a b (d + 1)) else TMid (pad_tree n a b (d + 1)) TEmpty)"

definition first_diff :: "bytes \<Rightarrow> bytes \<Rightarrow> u8 \<Rightarrow> nat" where
  "first_diff a b d = (LEAST n. get_bit a (d + of_nat n) \<noteq> get_bit b (d + of_nat n))"

lemma first_diff:
  assumes "length a = 32" "length b = 32" "a \<noteq> b"
  shows "get_bit a (d + of_nat (first_diff a b d)) \<noteq> get_bit b (d + of_nat (first_diff a b d))"
    and "i < first_diff a b d \<Longrightarrow> get_bit a (d + of_nat i) = get_bit b (d + of_nat i)"
proof -
  obtain j where j: "key_bit a j \<noteq> key_bit b j" using keys_eqI [of a b] assms by auto
  have "(d + of_nat (unat (of_nat j - d))) = (of_nat j :: u8)" by simp
  with j have "\<exists>n. get_bit a (d + of_nat n) \<noteq> get_bit b (d + of_nat n)" by metis
  then show "get_bit a (d + of_nat (first_diff a b d)) \<noteq> get_bit b (d + of_nat (first_diff a b d))"
    unfolding first_diff_def by (rule LeastI_ex)
  show "i < first_diff a b d \<Longrightarrow> get_bit a (d + of_nat i) = get_bit b (d + of_nat i)"
    unfolding first_diff_def by (blast dest: not_less_Least)
qed

lemma pad_middles:
  assumes "get_bit a (d + of_nat n) \<noteq> get_bit b (d + of_nat n)"
    and "\<And>i. i < n \<Longrightarrow> get_bit a (d + of_nat i) = get_bit b (d + of_nat i)"
  shows "pad_middles_for_proof_gen pf a b d = Some (pf @ pbytes (pad_tree n a b d))"
  using assms
proof (induction n arbitrary: d pf)
  case 0
  then show ?case by (subst pad_middles_for_proof_gen.simps) simp
next
  case (Suc n)
  have eq: "get_bit a d = get_bit b d" using Suc.prems(2) [of 0] by simp
  have sh: "d + 1 + of_nat i = d + of_nat (Suc i)" for i by simp
  have IH: "pad_middles_for_proof_gen pf a b (d + 1) = Some (pf @ pbytes (pad_tree n a b (d + 1)))" for pf
    using Suc.prems by (intro Suc.IH) (simp_all only: sh, blast)
  show ?case using eq by (subst pad_middles_for_proof_gen.simps) (simp add: IH)
qed

fun trunc :: "hash_fn \<Rightarrow> mtree \<Rightarrow> mtree" where
  "trunc H (TMid l r) = TTrunc (thash H (TMid l r))"
| "trunc H t = t"

fun proof_tree :: "hash_fn \<Rightarrow> bytes \<Rightarrow> u8 \<Rightarrow> mtree \<Rightarrow> mtree" where
  "proof_tree H item d (TMid l r) =
     (if is_dbl (TMid l r) then
        (case (l, r) of (TLeaf a, TLeaf b) \<Rightarrow> pad_tree (first_diff a b d) a b d | _ \<Rightarrow> TEmpty)
      else if get_bit item d then TMid (trunc H l) (proof_tree H item (d + 1) r)
      else TMid (proof_tree H item (d + 1) l) (trunc H r))"
| "proof_tree H item d t = t"

text \<open>The leaves of a double terminal differ.\<close>

fun dbl_ok :: "mtree \<Rightarrow> bool" where
  "dbl_ok (TMid l r) = (dbl_ok l \<and> dbl_ok r \<and>
     (\<forall>a b. l = TLeaf a \<longrightarrow> r = TLeaf b \<longrightarrow> a \<noteq> b \<and> length a = 32 \<and> length b = 32))"
| "dbl_ok _ = True"

lemma rep_node: "rep H e ns i t \<Longrightarrow> node_at ns i = Inr (ns ! i)"
  using rep_bound by (simp add: node_at_def)

lemma other_included_rep: "rep H e ns i t \<Longrightarrow> other_included ns i pf = Inr (pf @ pbytes (trunc H t))"
  by (cases t) (auto simp: other_included_def rep_node node_at_def stored_def)

lemma rep_leaf: "rep H e ns i t \<Longrightarrow> kind (ns ! i) = KLeaf \<longleftrightarrow> (\<exists>k. t = TLeaf k)"
  by (cases t) (auto simp: stored_def)

definition proof_result :: "hash_fn \<Rightarrow> bytes \<Rightarrow> u8 \<Rightarrow> mtree \<Rightarrow> bytes \<Rightarrow> (merkle_fault + bool \<times> bytes) option" where
  "proof_result H item d t pf =
     Some (case lookup item d t of None \<Rightarrow> Inl SetError
           | Some b \<Rightarrow> Inr (b, pf @ pbytes (proof_tree H item d t)))"

lemma generate_proof_mid:
  assumes i: "i < length ns" "kind (ns ! i) = KMiddle a b"
    and a: "rep H e ns a l" and b: "rep H e ns b r" and ok: "dbl_ok (TMid l r)"
    and IHl: "\<And>pf. generate_proof_impl ns a item pf (d + 1) = proof_result H item (d + 1) l pf"
    and IHr: "\<And>pf. generate_proof_impl ns b item pf (d + 1) = proof_result H item (d + 1) r pf"
  shows "generate_proof_impl ns i item pf d = proof_result H item d (TMid l r) pf"
proof (cases "is_dbl (TMid l r)")
  case True
  then obtain x y where xy: "l = TLeaf x" "r = TLeaf y" by (auto elim: is_dblE)
  with ok have "length x = 32" "length y = 32" "x \<noteq> y" by auto
  note fd = first_diff [OF this, where d = d]
  have "kind (ns ! a) = KLeaf" "kind (ns ! b) = KLeaf" "nhash (ns ! a) = x" "nhash (ns ! b) = y"
    using a b xy by (auto simp: stored_def)
  with i rep_node [OF a] rep_node [OF b] xy show ?thesis
    by (subst generate_proof_impl.simps) (simp add: pad_middles [OF fd] node_at_def proof_result_def)
next
  case False
  then have nl: "\<not> (kind (ns ! a) = KLeaf \<and> kind (ns ! b) = KLeaf)"
    using rep_leaf [OF a] rep_leaf [OF b] by auto
  have nd: "node_at ns i = Inr (ns ! i)" using i by (simp add: node_at_def)
  from nl nd i rep_node [OF a] rep_node [OF b] False show ?thesis
    by (subst generate_proof_impl.simps)
      (auto simp: IHl IHr proof_result_def other_included_rep [OF a] other_included_rep [OF b] split: option.splits)
qed

lemma generate_proof_rep:
  "rep H e ns i t \<Longrightarrow> dbl_ok t \<Longrightarrow> generate_proof_impl ns i item pf d = proof_result H item d t pf"
proof (induction t arbitrary: i pf d)
  case (TMid l r)
  from TMid.prems obtain a b where "i < length ns" "kind (ns ! i) = KMiddle a b"
    and "rep H e ns a l" "rep H e ns b r" by (auto simp: stored_def)
  with TMid show ?case by (intro generate_proof_mid [where a = a and b = b]) simp_all
qed (subst generate_proof_impl.simps, auto simp: node_at_def stored_def proof_result_def)+

section \<open>Properties of the tree of a set\<close>

fun tleaves :: "mtree \<Rightarrow> bytes set" where
  "tleaves TEmpty = {}"
| "tleaves (TLeaf k) = {k}"
| "tleaves (TTrunc h) = {}"
| "tleaves (TMid l r) = tleaves l \<union> tleaves r"

lemma tleaves_one_sided [simp]: "tleaves (one_sided b t) = tleaves t"
  by (simp add: one_sided_def)

text \<open>An induction principle that follows the construction.\<close>

lemma set_tree_induct [consumes 2, case_names leaf left_empty right_empty both]:
  assumes "keys_at d xs" "d \<le> 256"
    and leaf: "\<And>d xs. keys_at d xs \<Longrightarrow> all_same xs \<Longrightarrow> P d xs (TLeaf (hd xs))"
    and le: "\<And>d xs. keys_at d xs \<Longrightarrow> d < 256 \<Longrightarrow> \<forall>x \<in> set xs. key_bit x d \<Longrightarrow>
        P (d + 1) xs (set_tree (d + 1) xs) \<Longrightarrow> P d xs (one_sided True (set_tree (d + 1) xs))"
    and re: "\<And>d xs. keys_at d xs \<Longrightarrow> d < 256 \<Longrightarrow> \<forall>x \<in> set xs. \<not> key_bit x d \<Longrightarrow>
        P (d + 1) xs (set_tree (d + 1) xs) \<Longrightarrow> P d xs (one_sided False (set_tree (d + 1) xs))"
    and both: "\<And>d xs l r. keys_at d xs \<Longrightarrow> d < 256 \<Longrightarrow> l = filter (\<lambda>x. \<not> key_bit x d) xs \<Longrightarrow> r = filter (\<lambda>x. key_bit x d) xs \<Longrightarrow>
        l \<noteq> [] \<Longrightarrow> r \<noteq> [] \<Longrightarrow> P (d + 1) l (set_tree (d + 1) l) \<Longrightarrow> P (d + 1) r (set_tree (d + 1) r) \<Longrightarrow>
        P d xs (TMid (set_tree (d + 1) l) (set_tree (d + 1) r))"
  shows "P d xs (set_tree d xs)"
  using assms(1,2)
proof (induction "256 - d" arbitrary: d xs)
  case 0
  then have d: "d = 256" by simp
  with 0 have s: "all_same xs" using keys_at_256 by simp
  with leaf [OF 0(2) s] show ?case using keys_at_ne [OF 0(2)] by (simp add: set_tree_leaf)
next
  case (Suc n)
  have d: "d < 256" "n = 256 - (d + 1)" using Suc(2) by simp_all
  have ne: "xs \<noteq> []" using Suc(3) by (rule keys_at_ne)
  let ?l = "filter (\<lambda>x. \<not> key_bit x d) xs" and ?r = "filter (\<lambda>x. key_bit x d) xs"
  have IH: "P (d + 1) ys (set_tree (d + 1) ys)" if "keys_at (Suc d) ys" for ys
    using Suc(1) [OF d(2)] that d(1) by simp
  consider "?l = []" | "?l \<noteq> []" "?r = []" | "?l \<noteq> []" "?r \<noteq> []" by blast
  then show ?case
  proof cases
    case 1
    then have "\<forall>x \<in> set xs. key_bit x d" by (simp add: filter_empty_conv)
    with le [OF Suc(3) d(1)] IH keys_at_one_sided [OF Suc(3)] 1 show ?thesis
      by (simp add: set_tree_left_empty [OF ne d(1)])
  next
    case 2
    then have "\<forall>x \<in> set xs. \<not> key_bit x d" by (simp add: filter_empty_conv)
    with re [OF Suc(3) d(1)] IH keys_at_one_sided [OF Suc(3)] 2 show ?thesis
      by (simp add: set_tree_right_empty [OF ne d(1)])
  next
    case 3
    have "keys_at (Suc d) ?l" "keys_at (Suc d) ?r"
      using keys_at_filter [OF Suc(3), of False] keys_at_filter [OF Suc(3), of True] 3 by simp_all
    with both [OF Suc(3) d(1) refl refl 3] IH show ?thesis by (simp only: set_tree_both [OF d(1) 3])
  qed
qed

lemma tleaves_set_tree:
  assumes "keys_at d xs" "d \<le> 256"
  shows "tleaves (set_tree d xs) = set xs"
  using assms
proof (induction rule: set_tree_induct)
  case (leaf d xs)
  then show ?case using keys_at_ne [OF leaf(1)] by (cases xs) (auto simp: all_same_def)
next
  case (both d xs l r)
  then show ?case by auto
qed simp_all

lemma lookup_dbl: "is_dbl t \<Longrightarrow> lookup item d t = Some (item \<in> tleaves t)"
  by (auto elim!: is_dblE)

lemma one_sided_cases:
  obtains "node_ty t = Mid" "one_sided b t = (if b then TMid TEmpty t else TMid t TEmpty)"
  | "node_ty t \<noteq> Mid" "one_sided b t = t"
  by (cases "node_ty t = Mid") (simp_all add: one_sided_def)

lemma lookup_flat: "node_ty t \<noteq> Mid \<Longrightarrow> lookup item d t = Some (item \<in> tleaves t)"
  by (cases t) (auto simp: node_ty_def lookup_dbl split: if_splits elim!: is_dblE)

lemma lookup_set_tree:
  assumes "keys_at d xs" "d \<le> 256"
  shows "lookup item (of_nat d) (set_tree d xs) = Some (item \<in> set xs)"
  using assms
proof (induction rule: set_tree_induct)
  case (leaf d xs)
  then show ?case using keys_at_ne [OF leaf(1)] by (cases xs) (auto simp: all_same_def)
next
  case (left_empty d xs)
  then have k: "tleaves (set_tree (d + 1) xs) = set xs"
    using keys_at_one_sided [OF left_empty(1)] by (intro tleaves_set_tree) (auto simp: filter_empty_conv)
  show ?case
    by (rule one_sided_cases [of "set_tree (d + 1) xs" True])
      (use left_empty k lookup_flat in \<open>auto simp: ac_simps\<close>)
next
  case (right_empty d xs)
  then have k: "tleaves (set_tree (d + 1) xs) = set xs"
    using keys_at_one_sided [OF right_empty(1)] by (intro tleaves_set_tree) (auto simp: filter_empty_conv)
  show ?case
    by (rule one_sided_cases [of "set_tree (d + 1) xs" False])
      (use right_empty k lookup_flat in \<open>auto simp: ac_simps\<close>)
next
  case (both d xs l r)
  have "keys_at (Suc d) l" "keys_at (Suc d) r"
    using keys_at_filter [OF both(1), of False] keys_at_filter [OF both(1), of True] both by simp_all
  then have k: "tleaves (set_tree (Suc d) l) = set l" "tleaves (set_tree (Suc d) r) = set r"
    using both(2) by (simp_all add: tleaves_set_tree)
  show ?case
  proof (cases "is_dbl (TMid (set_tree (d + 1) l) (set_tree (d + 1) r))")
    case True
    have "set xs = set l \<union> set r" using both(3,4) by auto
    then show ?thesis unfolding lookup_dbl [OF True] tleaves.simps using k by simp
  next
    case False
    with both show ?thesis by (auto simp: ac_simps)
  qed
qed


text \<open>Where the leaves of a double terminal diverge.\<close>

definition diverge :: "nat \<Rightarrow> bytes \<Rightarrow> bytes \<Rightarrow> nat \<Rightarrow> bool" where
  "diverge d a b j \<longleftrightarrow> d \<le> j \<and> j < 256 \<and> \<not> key_bit a j \<and> key_bit b j \<and> (\<forall>i < j. key_bit a i = key_bit b i) \<and>
     length a = 32 \<and> length b = 32"

lemma set_tree_is_leaf:
  "keys_at d xs \<Longrightarrow> d \<le> 256 \<Longrightarrow> set_tree d xs = TLeaf k \<Longrightarrow> set xs = {k}"
  using tleaves_set_tree [of d xs] by simp

fun nf :: "mtree \<Rightarrow> bool" where
  "nf (TMid l r) = (nf l \<and> nf r \<and> \<not> (l = TEmpty \<and> is_dbl r) \<and> \<not> (is_dbl l \<and> r = TEmpty) \<and>
     \<not> (l = TEmpty \<and> r = TEmpty))"
| "nf _ = True"

lemma nf_one_sided: "nf t \<Longrightarrow> t \<noteq> TEmpty \<Longrightarrow> nf (one_sided b t)"
  by (rule one_sided_cases [of t b]) (auto simp: node_ty_def split: if_splits)

lemma both_diverge:
  assumes k: "keys_at d xs" "d < 256" and lr: "l = filter (\<lambda>x. \<not> key_bit x d) xs" "r = filter (\<lambda>x. key_bit x d) xs"
    and t: "set_tree (d + 1) l = TLeaf a" "set_tree (d + 1) r = TLeaf b" "l \<noteq> []" "r \<noteq> []"
  shows "diverge d a b d"
proof -
  have "keys_at (Suc d) l" "keys_at (Suc d) r"
    using keys_at_filter [OF k(1), of False] keys_at_filter [OF k(1), of True] t lr by simp_all
  with t k(2) have "set l = {a}" "set r = {b}" using set_tree_is_leaf [of "Suc d"] by simp_all
  then have "a \<in> set l" "b \<in> set r" by simp_all
  then have "a \<in> set xs" "\<not> key_bit a d" "b \<in> set xs" "key_bit b d" using lr by simp_all
  with k show ?thesis unfolding diverge_def keys_at_def by blast
qed

lemma set_tree_dbl:
  assumes "keys_at d xs" "d \<le> 256"
  shows "(\<forall>a b. set_tree d xs = TMid (TLeaf a) (TLeaf b) \<longrightarrow> (\<exists>j. diverge d a b j)) \<and>
    dbl_ok (set_tree d xs) \<and> nf (set_tree d xs) \<and> set_tree d xs \<noteq> TEmpty"
  using assms
proof (induction rule: set_tree_induct)
  case (both d xs l r)
  have dv: "diverge d a b d" if "set_tree (d + 1) l = TLeaf a" "set_tree (d + 1) r = TLeaf b" for a b
    using both that by (intro both_diverge [of d xs l r]) simp_all
  moreover have "a \<noteq> b \<and> length a = 32 \<and> length b = 32" if "diverge d a b d" for a b
    using that by (auto simp: diverge_def)
  ultimately show ?case using both(7,8) by (fastforce simp del: One_nat_def add_Suc_right)
next
  case (left_empty d xs)
  have "\<exists>j. diverge d a b j" if "one_sided True (set_tree (d + 1) xs) = TMid (TLeaf a) (TLeaf b)" for a b
    using left_empty(4) that by (auto simp: one_sided_def diverge_def split: if_splits) (metis Suc_leD)
  moreover have "dbl_ok (one_sided True (set_tree (d + 1) xs))"
    using left_empty(4) by (simp add: one_sided_def)
  ultimately show ?case using left_empty(4) by (auto simp: nf_one_sided, auto simp: one_sided_def split: if_splits)
next
  case (right_empty d xs)
  have "\<exists>j. diverge d a b j" if "one_sided False (set_tree (d + 1) xs) = TMid (TLeaf a) (TLeaf b)" for a b
    using right_empty(4) that by (auto simp: one_sided_def diverge_def split: if_splits) (metis Suc_leD)
  moreover have "dbl_ok (one_sided False (set_tree (d + 1) xs))"
    using right_empty(4) by (simp add: one_sided_def)
  ultimately show ?case using right_empty(4) by (auto simp: nf_one_sided, auto simp: one_sided_def split: if_splits)
qed simp

section \<open>Proof trees\<close>

text \<open>
  A proof lists every level; hashes are computed as if the one-sided levels above a double terminal
  were not there.
\<close>

fun collapse :: "mtree \<Rightarrow> mtree" where
  "collapse (TMid l r) =
     (let l' = collapse l; r' = collapse r
      in if l' = TEmpty \<and> is_dbl r' then r' else if is_dbl l' \<and> r' = TEmpty then l' else TMid l' r')"
| "collapse t = t"

text \<open>What the parser accepts below a route.\<close>

fun well_placed :: "bool list \<Rightarrow> mtree \<Rightarrow> bool" where
  "well_placed path TEmpty = True"
| "well_placed path (TLeaf k) = (length k = 32 \<and> leaf_audit k path)"
| "well_placed path (TTrunc h) = (length h = 32)"
| "well_placed path (TMid l r) =
     (length path \<le> 256 \<and> well_placed (path @ [False]) l \<and> well_placed (path @ [True]) r)"

lemma leaf_audit_iff: "leaf_audit k path \<longleftrightarrow> (\<forall>i < length path. key_bit k i = path ! i)"
  by (auto simp: leaf_audit_def list_all_length nth_enumerate_eq)

lemma leaf_audit_snoc: "leaf_audit k (path @ [v]) \<longleftrightarrow> leaf_audit k path \<and> key_bit k (length path) = v"
  by (auto simp: leaf_audit_iff nth_append less_Suc_eq)

lemma collapse_pad: "collapse (pad_tree n a b d) = TMid (TLeaf a) (TLeaf b)"
  by (induction n arbitrary: d) auto

lemma collapse_trunc [simp]: "collapse (trunc H t) = trunc H t"
  by (cases t) auto

lemma trunc_simps [simp]: "thash H (trunc H t) = thash H t" "ttype (trunc H t) = ttype t"
  "trunc H t = TEmpty \<longleftrightarrow> t = TEmpty" "trunc H t = TLeaf k \<longleftrightarrow> t = TLeaf k" "\<not> is_dbl (trunc H t)"
  by (cases t; simp)+

text \<open>The tree a proof stands for: the set's tree with the subtrees off the route truncated.\<close>

fun route_tree :: "hash_fn \<Rightarrow> bytes \<Rightarrow> u8 \<Rightarrow> mtree \<Rightarrow> mtree" where
  "route_tree H item d (TMid l r) =
     (if is_dbl (TMid l r) then TMid l r
      else if get_bit item d then TMid (trunc H l) (route_tree H item (d + 1) r)
      else TMid (route_tree H item (d + 1) l) (trunc H r))"
| "route_tree H item d t = t"

lemma route_tree_shape:
  "is_dbl (route_tree H item d t) = is_dbl t" "route_tree H item d t = TEmpty \<longleftrightarrow> t = TEmpty"
  "route_tree H item d t = TLeaf k \<longleftrightarrow> t = TLeaf k"
proof (induction t arbitrary: d k)
  case (TMid l r)
  { case 1
    show ?case
    proof (cases "is_dbl (TMid l r)")
      case False
      have "\<not> (\<exists>a b. TMid l r = TMid (TLeaf a) (TLeaf b))" using False by auto
      then show ?thesis using False TMid(3,6)
        by (auto elim!: is_dblE)
    qed simp }
qed (auto split: if_splits)

lemma route_tree_hash: "thash H (route_tree H item d t) = thash H t" "ttype (route_tree H item d t) = ttype t"
  by (induction t arbitrary: d) auto

lemma lookup_route: "lookup item d (route_tree H item d t) = lookup item d t"
proof (induction t arbitrary: d)
  case (TMid l r)
  show ?case
  proof (cases "is_dbl (TMid l r)")
    case False
    then have "\<not> is_dbl (route_tree H item d (TMid l r))" by (simp only: route_tree_shape not_False_eq_True)
    with False TMid show ?thesis by (auto split: if_splits)
  qed simp
qed simp_all

lemma collapse_proof_tree: "nf t \<Longrightarrow> collapse (proof_tree H item d t) = route_tree H item d t"
proof (induction t arbitrary: d)
  case (TMid l r)
  show ?case
  proof (cases "is_dbl (TMid l r)")
    case True
    then show ?thesis by (auto simp: collapse_pad elim!: is_dblE)
  next
    case False
    with TMid show ?thesis by (auto simp: route_tree_shape)
  qed
qed simp_all


text \<open>A generated proof has its leaves in place.\<close>

lemma well_placed_pad:
  assumes "diverge (length path) a b j" "leaf_audit a path" "leaf_audit b path"
  shows "well_placed path (pad_tree (j - length path) a b (of_nat (length path)))"
  using assms
proof (induction "j - length path" arbitrary: path)
  case 0
  then have "j = length path" by (simp add: diverge_def)
  with 0 show ?case by (simp add: diverge_def leaf_audit_snoc)
next
  case (Suc n)
  then have j: "length path < j" "j < 256" "j - length path = Suc n" by (simp_all add: diverge_def)
  let ?v = "key_bit a (length path)"
  have v: "key_bit b (length path) = ?v" using Suc.prems(1) j(1) by (simp add: diverge_def)
  have "diverge (length (path @ [?v])) a b j" using Suc.prems(1) j(1) by (simp add: diverge_def)
  then have "well_placed (path @ [?v]) (pad_tree (j - length (path @ [?v])) a b (of_nat (length (path @ [?v]))))"
    using Suc.prems j v by (intro Suc.hyps(1)) (simp_all add: leaf_audit_snoc)
  moreover have "j - length (path @ [?v]) = n" using j(3) by simp
  ultimately show ?case using j by (cases ?v) (simp_all add: ac_simps)
qed

lemma diverge_first_diff:
  assumes "diverge d a b j"
  shows "first_diff a b (of_nat d) = j - d"
  unfolding first_diff_def
proof (rule Least_equality)
  have j: "of_nat d + of_nat (j - d) = (of_nat j :: u8)" using assms by (simp add: diverge_def of_nat_diff)
  show "get_bit a (of_nat d + of_nat (j - d)) \<noteq> get_bit b (of_nat d + of_nat (j - d))"
    unfolding j using assms by (simp add: diverge_def)
  fix n assume n: "get_bit a (of_nat d + of_nat n) \<noteq> get_bit b (of_nat d + of_nat n)"
  show "j - d \<le> n"
  proof (rule ccontr)
    assume "\<not> j - d \<le> n"
    then have "d + n < j" by simp
    then have "key_bit a (d + n) = key_bit b (d + n)" using assms unfolding diverge_def by blast
    with n show False by simp
  qed
qed

lemma length_thash:
  assumes "\<And>x. length (H x) = 32" "\<forall>k \<in> tleaves t. length k = 32" "\<And>h. t \<noteq> TTrunc h"
  shows "length (thash H t) = 32"
  using assms by (cases t) (auto simp: merkle_hash_def BLANK_def)

definition on_route :: "bytes list \<Rightarrow> bool list \<Rightarrow> bool" where
  "on_route xs path \<longleftrightarrow> (\<forall>x \<in> set xs. length x = 32 \<and> leaf_audit x path)"

lemma well_placed_trunc:
  assumes "\<And>x. length (H x) = 32" "on_route xs path" "keys_at (length path) xs" "length path \<le> 256"
  shows "well_placed path (trunc H (set_tree (length path) xs))"
proof -
  have l: "tleaves (set_tree (length path) xs) = set xs" using assms by (simp add: tleaves_set_tree)
  show ?thesis
  proof (cases "set_tree (length path) xs")
    case (TMid a b)
    then show ?thesis by (simp add: merkle_hash_def assms(1))
  next
    case (TTrunc h)
    with l keys_at_ne [OF assms(3)] show ?thesis by simp
  qed (use l assms(2) in \<open>auto simp: on_route_def\<close>)
qed

lemma well_placed_flat:
  assumes "keys_at d xs" "d \<le> 256" "node_ty (set_tree d xs) \<noteq> Mid" "length path = d" "on_route xs path"
  shows "well_placed path (proof_tree H item (of_nat d) (set_tree d xs))"
proof -
  have l: "tleaves (set_tree d xs) = set xs" using assms by (simp add: tleaves_set_tree)
  have audit: "length k = 32 \<and> leaf_audit k path" if "k \<in> tleaves (set_tree d xs)" for k
    using that assms(5) l by (simp add: on_route_def)
  consider k where "set_tree d xs = TLeaf k" | a b where "set_tree d xs = TMid (TLeaf a) (TLeaf b)"
    using assms(3) set_tree_dbl [OF assms(1,2)]
    by (cases "set_tree d xs") (auto simp: node_ty_def split: if_splits elim: is_dblE)
  then show ?thesis
  proof cases
    case (1 k)
    then show ?thesis using audit [of k] by simp
  next
    case (2 a b)
    then obtain j where "diverge d a b j" using set_tree_dbl [OF assms(1,2)] by blast
    with 2 audit [of a] audit [of b] assms(4) well_placed_pad [of path a b j] show ?thesis
      by (simp add: diverge_first_diff)
  qed
qed

lemma on_route_snoc: "on_route xs path \<Longrightarrow> \<forall>x \<in> set xs. key_bit x (length path) = v \<Longrightarrow> on_route xs (path @ [v])"
  by (auto simp: on_route_def leaf_audit_snoc)

lemma not_dbl_empty [simp]: "\<not> is_dbl (TMid TEmpty t)" "\<not> is_dbl (TMid t TEmpty)"
  by (cases t; simp)+

lemma well_placed_proof:
  assumes "keys_at d xs" "d \<le> 256" and H: "\<And>x. length (H x) = 32"
  shows "length path = d \<Longrightarrow> on_route xs path \<Longrightarrow> well_placed path (proof_tree H item (of_nat d) (set_tree d xs))"
  using assms(1,2)
proof (induction arbitrary: path rule: set_tree_induct)
  case (leaf d xs)
  then show ?case using keys_at_ne [OF leaf(1)] by (auto simp: on_route_def)
next
  case (left_empty d xs)
  let ?c = "set_tree (d + 1) xs"
  have k: "keys_at (d + 1) xs" using keys_at_one_sided [OF left_empty(1)] left_empty(3) by (simp add: filter_empty_conv)
  have eq: "set_tree d xs = one_sided True ?c"
    using left_empty(2,3) keys_at_ne [OF left_empty(1)] by (intro set_tree_left_empty) (auto simp: filter_empty_conv)
  have route: "on_route xs (path @ [True])" using left_empty by (intro on_route_snoc) simp_all
  show ?case
  proof (rule one_sided_cases [of ?c True])
    assume "one_sided True ?c = (if True then TMid TEmpty ?c else TMid ?c TEmpty)"
    then show ?thesis
      using left_empty route k well_placed_trunc [OF H route] left_empty(4) [OF _ route]
      by (simp add: ac_simps)
  next
    assume "node_ty ?c \<noteq> Mid" "one_sided True ?c = ?c"
    then show ?thesis using left_empty eq well_placed_flat [of d xs path] by simp
  qed
next
  case (right_empty d xs)
  let ?c = "set_tree (d + 1) xs"
  have k: "keys_at (d + 1) xs" using keys_at_one_sided [OF right_empty(1)] right_empty(3) by (simp add: filter_empty_conv)
  have eq: "set_tree d xs = one_sided False ?c"
    using right_empty(2,3) keys_at_ne [OF right_empty(1)] by (intro set_tree_right_empty) (auto simp: filter_empty_conv)
  have route: "on_route xs (path @ [False])" using right_empty by (intro on_route_snoc) simp_all
  show ?case
  proof (rule one_sided_cases [of ?c False])
    assume "one_sided False ?c = (if False then TMid TEmpty ?c else TMid ?c TEmpty)"
    then show ?thesis
      using right_empty route k well_placed_trunc [OF H route] right_empty(4) [OF _ route]
      by (simp add: ac_simps)
  next
    assume "node_ty ?c \<noteq> Mid" "one_sided False ?c = ?c"
    then show ?thesis using right_empty eq well_placed_flat [of d xs path] by simp
  qed
next
  case (both d xs l r)
  let ?l = "set_tree (d + 1) l" and ?r = "set_tree (d + 1) r"
  have k: "keys_at (d + 1) l" "keys_at (d + 1) r"
    using keys_at_filter [OF both(1), of False] keys_at_filter [OF both(1), of True] both by simp_all
  have eq: "set_tree d xs = TMid ?l ?r" using both(2-6) set_tree_both by simp
  have "on_route l path" "on_route r path" using both(3,4,10) by (auto simp: on_route_def)
  then have route: "on_route l (path @ [False])" "on_route r (path @ [True])"
    using both(3,4,9) by (auto intro!: on_route_snoc)
  show ?case
  proof (cases "is_dbl (TMid ?l ?r)")
    case True
    then show ?thesis using both eq well_placed_flat [of d xs path] by (simp add: node_ty_def)
  next
    case False
    then show ?thesis
      using both(2,9) route k well_placed_trunc [OF H route(1)] well_placed_trunc [OF H route(2)]
        both(7) [OF _ route(1)] both(8) [OF _ route(2)]
      by (simp add: ac_simps)
  qed
qed

section \<open>Reconstruction\<close>

text \<open>
  What the parser leaves behind for one proof tree: the collapsed tree at the index on the value
  stack, and, as the last node, the uncollapsed top level with the collapsed hash.
\<close>

definition top_rep :: "hash_fn \<Rightarrow> stored_node list \<Rightarrow> mtree \<Rightarrow> bool" where
  "top_rep H ns p \<longleftrightarrow> ns \<noteq> [] \<and>
     (case p of
        TMid l r \<Rightarrow> \<exists>a b. last ns = stored (KMiddle a b) (thash H (collapse p)) \<and>
          rep H BLANK ns a (collapse l) \<and> rep H BLANK ns b (collapse r)
      | _ \<Rightarrow> rep H BLANK ns (length ns - 1) p)"

lemma node_ty_collapse_mid:
  "\<not> (l = TEmpty \<and> is_dbl r) \<Longrightarrow> \<not> (is_dbl l \<and> r = TEmpty) \<Longrightarrow> node_ty (TMid l r) = middle_type (node_ty l) (node_ty r)"
  by (cases l; cases r) (auto simp: node_ty_def middle_type_def split: if_splits)

lemma middle_value_rep:
  assumes "rep H BLANK ns a (collapse l)" "rep H BLANK ns b (collapse r)"
  obtains i where "middle_value H ns (a, node_ty (collapse l)) (b, node_ty (collapse r)) =
      Inr ((i, node_ty (collapse (TMid l r))), thash H (collapse (TMid l r)))"
    "rep H BLANK (ns @ [stored (KMiddle a b) (thash H (collapse (TMid l r)))]) i (collapse (TMid l r))"
proof -
  let ?l = "collapse l" and ?r = "collapse r"
  have na: "node_at ns a = Inr (ns ! a)" "node_at ns b = Inr (ns ! b)" using assms by (simp_all add: rep_node)
  note hs = rep_hash [OF assms(1)] rep_hash [OF assms(2)] rep_kind [OF assms(1)] rep_kind [OF assms(2)]
  consider (right) "?l = TEmpty" "is_dbl ?r" | (left) "is_dbl ?l" "?r = TEmpty"
    | (none) "\<not> (?l = TEmpty \<and> is_dbl ?r)" "\<not> (is_dbl ?l \<and> ?r = TEmpty)" by blast
  then show ?thesis
  proof cases
    case right
    with na hs that [of b] rep_append [OF assms(2)] show ?thesis by (simp add: middle_value_def Let_def)
  next
    case left
    with na hs that [of a] rep_append [OF assms(1)] show ?thesis
      by (simp add: middle_value_def Let_def)
  next
    case none
    then have c: "collapse (TMid l r) = TMid ?l ?r" by (auto simp: Let_def)
    have "middle_value H ns (a, node_ty ?l) (b, node_ty ?r) =
        Inr ((length ns, node_ty (TMid ?l ?r)), thash H (TMid ?l ?r))"
      using na hs none node_ty_collapse_mid [OF none] by (auto simp: middle_value_def)
    then show ?thesis using rep_mid [OF assms refl] by (rule that [unfolded c])
  qed
qed

declare deserialize_loop.simps(3) [simp del]

lemma loop_codes:
  "deserialize_loop H (OpNode # ops) (bits # bs) vals ns d (EMPTY # pf) =
     deserialize_loop H ops bs ((length ns, NEmpty) # vals) (ns @ [stored KEmpty BLANK]) d pf"
  "deserialize_loop H (OpNode # ops) (bits # bs) vals ns d (TERMINAL # pf) =
     bind_res (read_proof 32 pf) (\<lambda>l. if leaf_audit (fst l) bits
       then deserialize_loop H ops bs ((length ns, Term) # vals) (ns @ [stored KLeaf (fst l)]) d (snd l)
       else Inl SetError)"
  "deserialize_loop H (OpNode # ops) (bits # bs) vals ns d (TRUNCATED # pf) =
     bind_res (read_proof 32 pf) (\<lambda>t.
       deserialize_loop H ops bs ((length ns, Mid) # vals) (ns @ [stored KTruncated (fst t)]) d (snd t))"
  "deserialize_loop H (OpNode # ops) (bits # bs) vals ns d (MIDDLE # pf) =
     (if d > 256 then Inl SetError
      else deserialize_loop H (OpNode # OpNode # OpMiddle # ops)
             ((bits @ [False]) # (bits @ [True]) # [] # bs) vals ns (d + 1) pf)"
  by (simp_all add: deserialize_loop.simps(3) read_proof_def proof_codes)

lemma loop_other:
  "deserialize_loop H (OpNode # ops) (bits # bs) vals ns d [] = Inl SetError"
  "c \<notin> {EMPTY, TERMINAL, TRUNCATED, MIDDLE} \<Longrightarrow>
   deserialize_loop H (OpNode # ops) (bits # bs) vals ns d (c # pf) = Inl SetError"
  by (simp_all add: deserialize_loop.simps(3) read_proof_def take_exact_def)

lemma read_proof_append [simp]: "length k = n \<Longrightarrow> read_proof n (k @ pf) = Inr (k, pf)"
  by (simp add: read_proof_def)

lemma deserialize_node:
  "well_placed path p \<Longrightarrow>
   \<exists>ext i. deserialize_loop H (OpNode # ops) (path # bs) vals ns (length path) (pbytes p @ rest) =
       deserialize_loop H ops bs ((i, node_ty (collapse p)) # vals) (ns @ ext) (length path) rest \<and>
     rep H BLANK (ns @ ext) i (collapse p) \<and> top_rep H (ns @ ext) p"
proof (induction p arbitrary: path ops bs vals ns rest)
  case TEmpty
  show ?case
    by (rule exI [of _ "[stored KEmpty BLANK]"], rule exI [of _ "length ns"])
      (simp add: loop_codes top_rep_def)
next
  case (TLeaf k)
  then show ?case
    by (intro exI [of _ "[stored KLeaf k]"] exI [of _ "length ns"])
      (simp add: loop_codes top_rep_def)
next
  case (TTrunc h)
  then show ?case
    by (intro exI [of _ "[stored KTruncated h]"] exI [of _ "length ns"])
      (simp add: loop_codes top_rep_def)
next
  case (TMid l r)
  let ?pl = "path @ [False]" and ?pr = "path @ [True]"
  have start: "deserialize_loop H (OpNode # ops) (path # bs) vals ns (length path) (pbytes (TMid l r) @ rest) =
      deserialize_loop H (OpNode # OpNode # OpMiddle # ops) (?pl # ?pr # [] # bs) vals ns (length ?pl)
        (pbytes l @ pbytes r @ rest)"
    using TMid.prems by (simp add: loop_codes)
  obtain e1 a where l: "deserialize_loop H (OpNode # OpNode # OpMiddle # ops) (?pl # ?pr # [] # bs) vals ns (length ?pl)
        (pbytes l @ pbytes r @ rest) =
      deserialize_loop H (OpNode # OpMiddle # ops) (?pr # [] # bs) ((a, node_ty (collapse l)) # vals) (ns @ e1)
        (length ?pl) (pbytes r @ rest)" "rep H BLANK (ns @ e1) a (collapse l)"
    using TMid.IH(1) [of ?pl "OpNode # OpMiddle # ops" "?pr # [] # bs" vals ns "pbytes r @ rest"] TMid.prems
    by auto
  have len: "length ?pl = length ?pr" by simp
  obtain e2 b where r: "deserialize_loop H (OpNode # OpMiddle # ops) (?pr # [] # bs)
        ((a, node_ty (collapse l)) # vals) (ns @ e1) (length ?pr) (pbytes r @ rest) =
      deserialize_loop H (OpMiddle # ops) ([] # bs)
        ((b, node_ty (collapse r)) # (a, node_ty (collapse l)) # vals) ((ns @ e1) @ e2) (length ?pr) rest"
      "rep H BLANK ((ns @ e1) @ e2) b (collapse r)"
    using TMid.IH(2) [of ?pr "OpMiddle # ops" "[] # bs" "(a, node_ty (collapse l)) # vals" "ns @ e1" rest] TMid.prems
    by auto
  have la: "rep H BLANK ((ns @ e1) @ e2) a (collapse l)" using l(2) by (rule rep_append)
  obtain i where m: "middle_value H ((ns @ e1) @ e2) (a, node_ty (collapse l)) (b, node_ty (collapse r)) =
      Inr ((i, node_ty (collapse (TMid l r))), thash H (collapse (TMid l r)))"
    and rp: "rep H BLANK (((ns @ e1) @ e2) @ [stored (KMiddle a b) (thash H (collapse (TMid l r)))]) i
       (collapse (TMid l r))"
    using la r(2) by (rule middle_value_rep)
  let ?e = "e1 @ e2 @ [stored (KMiddle a b) (thash H (collapse (TMid l r)))]"
  note start
  also note l(1)
  also have "deserialize_loop H (OpNode # OpMiddle # ops) (?pr # [] # bs) ((a, node_ty (collapse l)) # vals) (ns @ e1)
        (length ?pl) (pbytes r @ rest) =
      deserialize_loop H (OpMiddle # ops) ([] # bs)
        ((b, node_ty (collapse r)) # (a, node_ty (collapse l)) # vals) ((ns @ e1) @ e2) (length ?pr) rest"
    using r(1) by (simp only: len)
  also have "\<dots> = deserialize_loop H ops bs ((i, node_ty (collapse (TMid l r))) # vals) (ns @ ?e) (length path) rest"
    using m by (simp del: collapse.simps)
  finally have "deserialize_loop H (OpNode # ops) (path # bs) vals ns (length path) (pbytes (TMid l r) @ rest) =
      deserialize_loop H ops bs ((i, node_ty (collapse (TMid l r))) # vals) (ns @ ?e) (length path) rest" .
  moreover have "rep H BLANK (ns @ ?e) i (collapse (TMid l r))" using rp by (simp del: collapse.simps)
  moreover have "top_rep H (ns @ ?e) (TMid l r)"
    using rep_append [OF la, of "[stored (KMiddle a b) (thash H (collapse (TMid l r)))]"]
      rep_append [OF r(2), of "[stored (KMiddle a b) (thash H (collapse (TMid l r)))]"]
    by (auto simp: top_rep_def simp del: collapse.simps)
  ultimately show ?case by blast
qed

text \<open>Everything that is accepted is the serialization of such a tree.\<close>

lemma deserialize_accepts:
  "deserialize_loop H (OpNode # ops) (path # bs) vals ns (length path) pf = Inr res \<Longrightarrow>
   \<exists>p rest. pf = pbytes p @ rest \<and> well_placed path p"
proof (induction "length pf" arbitrary: path ops bs vals ns pf rule: less_induct)
  case less
  then obtain c pf1 where pf: "pf = c # pf1" by (cases pf) (simp_all add: loop_other)
  have tk: "take_exact n pf1 = Some (x, y) \<Longrightarrow> pf1 = x @ y \<and> length x = n" for n x y by (rule take_exact_SomeD)
  have "c \<in> {EMPTY, TERMINAL, TRUNCATED, MIDDLE}"
    using less.prems loop_other(2) [of c H ops path bs vals ns "length path" pf1] by (metis Inl_Inr_False pf)
  then consider "c = EMPTY" | "c = TERMINAL" | "c = TRUNCATED" | "c = MIDDLE" by blast
  then show ?case
  proof cases
    case 1
    then show ?thesis by (intro exI [of _ TEmpty] exI [of _ pf1]) (simp add: pf)
  next
    case 2
    with less.prems obtain k rest where "take_exact 32 pf1 = Some (k, rest)" "leaf_audit k path"
      by (auto simp: pf loop_codes read_proof_def split: if_splits)
    with 2 tk show ?thesis by (intro exI [of _ "TLeaf k"] exI [of _ rest]) (simp add: pf)
  next
    case 3
    with less.prems obtain k rest where "take_exact 32 pf1 = Some (k, rest)"
      by (auto simp: pf loop_codes read_proof_def split: if_splits)
    with 3 tk show ?thesis by (intro exI [of _ "TTrunc k"] exI [of _ rest]) (simp add: pf)
  next
    case 4
    let ?pl = "path @ [False]" and ?pr = "path @ [True]"
    have d: "length path \<le> 256" and
      st: "deserialize_loop H (OpNode # OpNode # OpMiddle # ops) (?pl # ?pr # [] # bs) vals ns (length ?pl) pf1 = Inr res"
      using less.prems 4 by (auto simp: pf loop_codes split: if_splits)
    obtain l pf2 where l: "pf1 = pbytes l @ pf2" "well_placed ?pl l"
      using less.hyps [OF _ st] by (auto simp: pf)
    obtain e1 a where "deserialize_loop H (OpNode # OpMiddle # ops) (?pr # [] # bs) ((a, node_ty (collapse l)) # vals)
        (ns @ e1) (length ?pr) pf2 = Inr res"
      using deserialize_node [OF l(2), of H "OpNode # OpMiddle # ops" "?pr # [] # bs" vals ns pf2] st l(1) by auto
    moreover have "length pf2 < length pf" by (simp add: pf l(1))
    ultimately obtain r rest where "pf2 = pbytes r @ rest" "well_placed ?pr r" using less.hyps by blast
    with l d 4 show ?thesis by (intro exI [of _ "TMid l r"] exI [of _ rest]) (simp add: pf)
  qed
qed

definition top_tree :: "mtree \<Rightarrow> mtree" where
  "top_tree p = (case p of TMid l r \<Rightarrow> TMid (collapse l) (collapse r) | _ \<Rightarrow> p)"

lemma from_proof_pbytes:
  assumes "well_placed [] p"
  obtains m where "from_proof H (pbytes p) = Inr m" "from_proof_flag m" "top_rep H (nodes m) p"
proof -
  obtain ns i where "deserialize_loop H [OpNode] [[]] [] [] 0 (pbytes p) = Inr (ns, [])" "top_rep H ns p"
    using deserialize_node [OF assms, of H "[]" "[]" "[]" "[]" "[]"] by auto
  with that [of "\<lparr>nodes = ns, from_proof_flag = True\<rparr>"] show ?thesis by (simp add: from_proof_def)
qed

lemma from_proof_accepts:
  assumes "from_proof H pf = Inr m"
  obtains p where "pf = pbytes p" "well_placed [] p" "from_proof_flag m" "top_rep H (nodes m) p"
proof -
  from assms obtain ns where ns: "deserialize_loop H [OpNode] [[]] [] [] 0 pf = Inr (ns, [])"
    and m: "m = \<lparr>nodes = ns, from_proof_flag = True\<rparr>"
    by (auto simp: from_proof_def split: if_splits)
  obtain p rest where p: "pf = pbytes p @ rest" "well_placed [] p"
    using deserialize_accepts [of H "[]" "[]" "[]" "[]" "[]" pf] ns by auto
  with deserialize_node [OF p(2), of H "[]" "[]" "[]" "[]" rest] ns have "rest = []" "top_rep H ns p" by auto
  with p m that show ?thesis by simp
qed

lemma collapse_mid: "\<exists>l' r'. collapse (TMid l r) = TMid l' r'"
  by (auto simp: Let_def elim!: is_dblE)

lemma get_root_top: "top_rep H (nodes m) p \<Longrightarrow> get_root H m = root_of H (collapse p)"
proof (cases p)
  case (TMid l r)
  assume "top_rep H (nodes m) p"
  moreover obtain l' r' where "collapse p = TMid l' r'" using TMid collapse_mid by metis
  ultimately show ?thesis by (auto simp: TMid top_rep_def get_root_def root_of_def stored_def simp del: collapse.simps)
qed (use get_root_rep in \<open>auto simp: top_rep_def simp del: rep.simps\<close>)

lemma dbl_ok_collapse: "well_placed path p \<Longrightarrow> dbl_ok (collapse p)"
proof (induction p arbitrary: path)
  case (TMid l r)
  have leaf: "collapse q = TLeaf k \<Longrightarrow> q = TLeaf k" for q k
    using collapse_mid by (cases q) (auto simp del: collapse.simps(1), metis mtree.distinct)
  have "a \<noteq> b \<and> length a = 32 \<and> length b = 32" if "collapse l = TLeaf a" "collapse r = TLeaf b" for a b
    using that [THEN leaf] TMid.prems by (auto simp: leaf_audit_snoc)
  with TMid show ?case by (auto simp: Let_def)
qed simp_all

lemma dbl_ok_top: "well_placed [] p \<Longrightarrow> dbl_ok (top_tree p)"
proof (cases p)
  case (TMid l r)
  assume w: "well_placed [] p"
  have leaf: "collapse q = TLeaf k \<Longrightarrow> q = TLeaf k" for q k
    using collapse_mid by (cases q) (auto simp del: collapse.simps(1), metis mtree.distinct)
  have "a \<noteq> b \<and> length a = 32 \<and> length b = 32" if "collapse l = TLeaf a" "collapse r = TLeaf b" for a b
    using that [THEN leaf] w TMid by (auto simp: leaf_audit_snoc [of _ "[]", simplified])
  with w TMid show ?thesis by (auto simp: top_tree_def dest: dbl_ok_collapse)
qed (simp_all add: top_tree_def)

lemma generate_proof_top:
  assumes "top_rep H (nodes m) p" "well_placed [] p" "from_proof_flag m"
  shows "generate_proof m item =
    Some (case lookup item 0 (top_tree p) of None \<Rightarrow> Inl SetError | Some b \<Rightarrow> Inr (b, []))"
proof -
  have ne: "nodes m \<noteq> []" using assms(1) by (simp add: top_rep_def)
  have "generate_proof_impl (nodes m) (length (nodes m) - 1) item [] 0 = proof_result H item 0 (top_tree p) []"
  proof (cases p)
    case (TMid l r)
    with assms(1) obtain a b where l: "last (nodes m) = stored (KMiddle a b) (thash H (collapse p))"
      and ab: "rep H BLANK (nodes m) a (collapse l)" "rep H BLANK (nodes m) b (collapse r)"
      by (auto simp: top_rep_def)
    have ok: "dbl_ok (TMid (collapse l) (collapse r))" using dbl_ok_top [OF assms(2)] by (simp add: TMid top_tree_def)
    have "kind (nodes m ! (length (nodes m) - 1)) = KMiddle a b"
      using l ne by (simp add: last_conv_nth stored_def)
    then show ?thesis
      using ne ab ok generate_proof_rep [OF ab(1)] generate_proof_rep [OF ab(2)]
      by (simp add: TMid top_tree_def) (intro generate_proof_mid [where a = a and b = b]; simp)
  qed (use assms(1) generate_proof_rep in \<open>auto simp: top_rep_def top_tree_def simp del: rep.simps\<close>)
  then show ?thesis using ne assms(3) by (auto simp: generate_proof_def proof_result_def split: option.splits)
qed

lemma collapse_leaves: "well_placed path p \<Longrightarrow> k \<in> tleaves (collapse p) \<Longrightarrow> leaf_audit k path"
proof (induction p arbitrary: path)
  case (TMid l r)
  then have "k \<in> tleaves (collapse l) \<or> k \<in> tleaves (collapse r)" by (auto simp: Let_def split: if_splits)
  with TMid.IH TMid.prems(1) have "leaf_audit k (path @ [False]) \<or> leaf_audit k (path @ [True])" by auto
  then show ?case by (auto simp: leaf_audit_snoc)
qed simp_all

lemma lookup_top:
  assumes "well_placed [] p"
  shows "lookup item 0 (top_tree p) = lookup item 0 (collapse p)"
proof (cases p)
  case (TMid l r)
  note w = assms [unfolded TMid]
  have lr: "key_bit k 0" if "k \<in> tleaves (collapse r)" for k
    using collapse_leaves [of "[True]" r k] that w leaf_audit_snoc [of k "[]" True] by simp
  have ll: "\<not> key_bit k 0" if "k \<in> tleaves (collapse l)" for k
    using collapse_leaves [of "[False]" l k] that w leaf_audit_snoc [of k "[]" False] by simp
  consider (right) "collapse l = TEmpty" "is_dbl (collapse r)" | (left) "is_dbl (collapse l)" "collapse r = TEmpty"
    | (none) "\<not> (collapse l = TEmpty \<and> is_dbl (collapse r))" "\<not> (is_dbl (collapse l) \<and> collapse r = TEmpty)"
    by blast
  then show ?thesis
  proof cases
    case right
    then have "collapse p = collapse r" "top_tree p = TMid TEmpty (collapse r)" by (simp_all add: TMid top_tree_def)
    with lr [of item] lookup_dbl [OF right(2)] show ?thesis by auto
  next
    case left
    then have "collapse p = collapse l" "top_tree p = TMid (collapse l) TEmpty" by (auto simp: TMid top_tree_def)
    with ll [of item] lookup_dbl [OF left(1)] show ?thesis by auto
  next
    case none
    then have "collapse p = top_tree p" by (auto simp: TMid top_tree_def Let_def)
    then show ?thesis by simp
  qed
qed (simp_all add: top_tree_def)

end
