(* ===== verification/MerkleSound.thy ===== *)
theory MerkleSound
  imports MerkleProof
begin

text \<open>
  The guarantees of the Merkle set: the root as a function of the set, completeness, totality and
  soundness of validation, and agreement with the root computation of the block generator.
\<close>

section \<open>The parser never panics\<close>

lemma middle_value_index:
  "fst left < length ns \<Longrightarrow> fst right < length ns \<Longrightarrow>
   \<exists>v h. middle_value H ns left right = Inr (v, h) \<and> fst v \<le> length ns"
  by (cases left; cases right) (auto simp: middle_value_def node_at_def)

lemma deserialize_no_panic:
  "\<forall>v \<in> set vals. fst v < length ns \<Longrightarrow> deserialize_loop H ops bits vals ns d pf \<noteq> Inl Panic"
proof (induction H ops bits vals ns d pf rule: deserialize_loop.induct)
  case (3 H ops bits bs vals ns d pf)
  show ?case
  proof (cases pf)
    case Nil
    then show ?thesis by (simp add: loop_other)
  next
    case (Cons c pf1)
    have r: "read_proof 1 pf = Inr ([c], pf1)" by (simp add: Cons read_proof_def)
    have grow: "\<forall>v \<in> set ((length ns, ty) # vals). fst v < length (ns @ [n])" for ty n
      using 3(5) by auto
    consider "c = EMPTY" | "c = TERMINAL" | "c = TRUNCATED" | "c = MIDDLE"
      | "c \<notin> {EMPTY, TERMINAL, TRUNCATED, MIDDLE}" by blast
    then show ?thesis
    proof cases
      case 1
      then show ?thesis using 3(1) [OF r] grow by (simp add: Cons loop_codes)
    next
      case 2
      have *: "deserialize_loop H ops bs ((length ns, Term) # vals) (ns @ [stored KLeaf (fst l)]) d (snd l) \<noteq> Inl Panic"
        if "read_proof 32 pf1 = Inr l" "leaf_audit (fst l) bits" for l
        using 3(2) [OF r] 2 that grow by (simp add: proof_codes)
      show ?thesis using 2 * by (auto simp: Cons loop_codes bind_res_def read_proof_def ok_or_def split: sum.splits option.splits)
    next
      case 3
      have *: "deserialize_loop H ops bs ((length ns, Mid) # vals) (ns @ [stored KTruncated (fst t)]) d (snd t) \<noteq> Inl Panic"
        if "read_proof 32 pf1 = Inr t" for t
        using "3.IH"(3) [OF r] 3 that grow by (simp add: proof_codes)
      show ?thesis using 3 * by (auto simp: Cons loop_codes bind_res_def read_proof_def ok_or_def split: sum.splits option.splits)
    next
      case 4
      have "deserialize_loop H (OpNode # OpNode # OpMiddle # ops) ((bits @ [False]) # (bits @ [True]) # [] # bs)
          vals ns (d + 1) pf1 \<noteq> Inl Panic" if "\<not> 256 < d"
        using "3.IH"(4) [OF r] "3.prems" 4 that by (simp add: proof_codes)
      then show ?thesis using 4 by (simp add: Cons loop_codes)
    qed (simp add: Cons loop_other)
  qed
next
  case (4 H ops bits bs vals ns d pf)
  show ?case
  proof (cases "\<exists>r l vs. vals = r # l # vs")
    case True
    then obtain r l vs where v: "vals = r # l # vs" by blast
    obtain x h where m: "middle_value H ns l r = Inr (x, h)" "fst x \<le> length ns"
      using middle_value_index [of l ns r H] 4(2) v by auto
    have "\<forall>v \<in> set (x # vs). fst v < length (ns @ [n])" for n using 4(2) v m(2) by auto
    with 4(1) [OF v refl m(1)] m(1) v show ?thesis by simp
  qed (auto split: list.splits)
qed simp_all

section \<open>Collisions\<close>

text \<open>The strings hashed for the nodes of a set and for its root.\<close>

definition child_hash :: "stored_node \<Rightarrow> bytes" where
  "child_hash n = (if kind n = KEmpty then BLANK else nhash n)"

definition middle_input :: "stored_node \<Rightarrow> stored_node \<Rightarrow> bytes" where
  "middle_input l r = replicate 30 0 @ [encode_type (kind_type (kind l)), encode_type (kind_type (kind r))] @
     child_hash l @ child_hash r"

definition hashed_strings :: "merkle_set \<Rightarrow> bytes list" where
  "hashed_strings m =
     concat (map (\<lambda>n. case kind n of KMiddle a b \<Rightarrow> [middle_input (nodes m ! a) (nodes m ! b)] | _ \<Rightarrow> []) (nodes m)) @
     (if nodes m \<noteq> [] \<and> kind (last (nodes m)) = KLeaf then [1 # nhash (last (nodes m))] else [])"

definition tinput :: "hash_fn \<Rightarrow> mtree \<Rightarrow> mtree \<Rightarrow> bytes" where
  "tinput H l r = replicate 30 0 @ [encode_type (ttype l), encode_type (ttype r)] @ thash H l @ thash H r"

fun tinputs :: "hash_fn \<Rightarrow> mtree \<Rightarrow> bytes set" where
  "tinputs H (TMid l r) = insert (tinput H l r) (tinputs H l \<union> tinputs H r)"
| "tinputs H _ = {}"

lemma rep_child_hash: "rep H e ns i t \<Longrightarrow> child_hash (ns ! i) = thash H t"
  by (cases t) (auto simp: child_hash_def stored_def)

lemma rep_inputs: "rep H e (nodes m) i t \<Longrightarrow> tinputs H t \<subseteq> set (hashed_strings m)"
proof (induction t arbitrary: i)
  case (TMid l r)
  then obtain a b where i: "i < length (nodes m)" "kind (nodes m ! i) = KMiddle a b"
    and ab: "rep H e (nodes m) a l" "rep H e (nodes m) b r" by (auto simp: stored_def)
  have "tinput H l r = middle_input (nodes m ! a) (nodes m ! b)"
    using rep_child_hash [OF ab(1)] rep_child_hash [OF ab(2)] rep_kind [OF ab(1)] rep_kind [OF ab(2)]
    by (simp add: tinput_def middle_input_def)
  moreover have "middle_input (nodes m ! a) (nodes m ! b) \<in> set (hashed_strings m)"
    using i by (auto simp: hashed_strings_def intro!: bexI [of _ "nodes m ! i"])
  ultimately show ?case using TMid.IH ab by auto
qed simp_all

text \<open>\<open>q\<close> is \<open>t\<close> with some middle subtrees truncated.\<close>

fun trunc_of :: "mtree \<Rightarrow> mtree \<Rightarrow> bool" where
  "trunc_of (TTrunc h) t = (ttype t = Mid)"
| "trunc_of (TMid l r) (TMid l' r') = (trunc_of l l' \<and> trunc_of r r')"
| "trunc_of q t = (q = t)"

lemma trunc_of_dbl: "trunc_of q t \<Longrightarrow> (\<And>h. q \<noteq> TTrunc h) \<Longrightarrow> is_dbl q = is_dbl t"
  by (cases q; cases t) (auto elim!: is_dblE trunc_of.elims)

lemma trunc_of_lookup: "trunc_of q t \<Longrightarrow> lookup item d q = Some v \<Longrightarrow> lookup item d t = Some v"
proof (induction q arbitrary: d t)
  case (TMid l r)
  then obtain l' r' where t: "t = TMid l' r'" "trunc_of l l'" "trunc_of r r'" by (cases t) auto
  have "is_dbl (TMid l r) = is_dbl t" using trunc_of_dbl [OF TMid.prems(1)] by simp
  moreover have "l = TLeaf item \<longleftrightarrow> l' = TLeaf item" if "is_dbl (TMid l r)"
    using t(2) that by (cases l; cases l') auto
  moreover have "r = TLeaf item \<longleftrightarrow> r' = TLeaf item" if "is_dbl (TMid l r)"
    using t(3) that by (cases r; cases r'; cases l) auto
  ultimately show ?case
    using TMid t by (cases "is_dbl (TMid l r)"; cases "get_bit item d") (auto simp del: is_dbl.simps)
qed (auto elim!: trunc_of.elims)

fun no_trunc :: "mtree \<Rightarrow> bool" where
  "no_trunc (TMid l r) = (no_trunc l \<and> no_trunc r)"
| "no_trunc (TTrunc h) = False"
| "no_trunc _ = True"

fun keys32 :: "mtree \<Rightarrow> bool" where
  "keys32 (TMid l r) = (keys32 l \<and> keys32 r)"
| "keys32 (TTrunc h) = (length h = 32)"
| "keys32 (TLeaf h) = (length h = 32)"
| "keys32 TEmpty = True"

lemma keys32_hash: "(\<And>x. length (H x) = 32) \<Longrightarrow> keys32 t \<Longrightarrow> length (thash H t) = 32"
  by (cases t) (auto simp: merkle_hash_def BLANK_def)

lemma encode_ttype: "encode_type (ttype a) = encode_type (ttype b) \<Longrightarrow> ttype a = ttype b"
  by (cases a; cases b) (auto simp: encode_type_def)

lemma hash_match:
  assumes H: "\<And>x. length (H x) = 32"
  shows "inj_on H S \<Longrightarrow> tinputs H q \<subseteq> S \<Longrightarrow> tinputs H t \<subseteq> S \<Longrightarrow> thash H q = thash H t \<Longrightarrow> ttype q = ttype t \<Longrightarrow>
    keys32 q \<Longrightarrow> keys32 t \<Longrightarrow> no_trunc t \<Longrightarrow> trunc_of q t"
proof (induction q arbitrary: t)
  case (TMid l r)
  then obtain l' r' where t: "t = TMid l' r'" by (cases t) auto
  have "H (tinput H l r) = H (tinput H l' r')" using TMid.prems(4) by (simp add: t merkle_hash_def tinput_def)
  then have "tinput H l r = tinput H l' r'" using TMid.prems(1-3) by (auto simp: t dest: inj_onD)
  then have "encode_type (ttype l) = encode_type (ttype l')" "encode_type (ttype r) = encode_type (ttype r')"
    "thash H l = thash H l'" "thash H r = thash H r'"
    using TMid.prems(6,7) keys32_hash [OF H, of l] keys32_hash [OF H, of l'] by (auto simp: tinput_def t)
  with TMid show ?case by (auto simp: t dest: encode_ttype)
next
  case TEmpty
  then show ?case by (cases t) auto
next
  case (TLeaf k)
  then show ?case by (cases t) auto
qed simp_all

lemma keys32_collapse: "well_placed path p \<Longrightarrow> keys32 (collapse p)"
  by (induction p arbitrary: path) (auto simp: Let_def)

lemma rep_root_input:
  "rep H e (nodes m) (length (nodes m) - 1) (TLeaf k) \<Longrightarrow> 1 # k \<in> set (hashed_strings m)"
proof -
  assume r: "rep H e (nodes m) (length (nodes m) - 1) (TLeaf k)"
  then have "nodes m \<noteq> []" by auto
  with r have "nodes m \<noteq> []" "last (nodes m) = stored KLeaf k" by (simp_all add: last_conv_nth)
  then show ?thesis by (simp add: hashed_strings_def stored_def)
qed

lemma top_inputs:
  assumes "top_rep H (nodes m) p" "well_placed [] p"
  shows "tinputs H (collapse p) \<subseteq> set (hashed_strings m)"
    and "collapse p = TLeaf k \<Longrightarrow> 1 # k \<in> set (hashed_strings m)"
proof -
  show "tinputs H (collapse p) \<subseteq> set (hashed_strings m)"
  proof (cases p)
    case (TMid l r)
    then obtain a b where l: "last (nodes m) = stored (KMiddle a b) (thash H (collapse p))" "nodes m \<noteq> []"
      and ab: "rep H BLANK (nodes m) a (collapse l)" "rep H BLANK (nodes m) b (collapse r)"
      using assms(1) by (auto simp: top_rep_def)
    have "tinput H (collapse l) (collapse r) = middle_input (nodes m ! a) (nodes m ! b)"
      using rep_child_hash [OF ab(1)] rep_child_hash [OF ab(2)] rep_kind [OF ab(1)] rep_kind [OF ab(2)]
      by (simp add: tinput_def middle_input_def)
    moreover have "middle_input (nodes m ! a) (nodes m ! b) \<in> set (hashed_strings m)"
      using l(1) last_in_set [OF l(2)] by (auto simp: hashed_strings_def stored_def intro!: bexI [of _ "last (nodes m)"] simp del: last_in_set)
    ultimately show ?thesis using rep_inputs [OF ab(1)] rep_inputs [OF ab(2)] by (auto simp: TMid Let_def)
  qed simp_all
  assume k: "collapse p = TLeaf k"
  then have "p = TLeaf k" using collapse_mid by (cases p) (auto simp del: collapse.simps(1), metis mtree.distinct)
  then show "1 # k \<in> set (hashed_strings m)"
    using assms(1) by (intro rep_root_input) (simp add: top_rep_def)
qed

lemma hash_leaf_input: "1 # k \<noteq> tinput H l r"
  by (simp add: tinput_def replicate_eq_replicate numeral_eq_Suc)

lemma root_match:
  assumes H: "\<And>x. length (H x) = 32" and inj: "inj_on H S" and blank: "BLANK \<notin> H ` S"
    and q: "tinputs H q \<subseteq> S" "\<And>k. q = TLeaf k \<Longrightarrow> 1 # k \<in> S" "keys32 q" "\<And>h. q \<noteq> TTrunc h"
    and t: "tinputs H t \<subseteq> S" "\<And>k. t = TLeaf k \<Longrightarrow> 1 # k \<in> S" "keys32 t" "no_trunc t"
    and root: "root_of H q = root_of H t"
  shows "trunc_of q t"
proof -
  have mid: "H (tinput H l r) = thash H (TMid l r)" for l r by (simp add: tinput_def merkle_hash_def)
  have leaf: "H (1 # k) \<noteq> thash H (TMid l r)" if "1 # k \<in> S" "tinput H l r \<in> S" for k l r
    using that inj hash_leaf_input by (metis inj_onD mid)
  have nb: "thash H (TMid l r) \<noteq> BLANK" if "tinput H l r \<in> S" for l r
    using that blank by (metis imageI mid)
  have nl: "H (1 # k) \<noteq> BLANK" if "1 # k \<in> S" for k using that blank by (metis imageI)
  show ?thesis
  proof (cases q)
    case TEmpty
    with root t nb [THEN not_sym] nl [THEN not_sym] show ?thesis
      by (cases t) (auto simp: root_of_def hash_leaf_def simp del: thash.simps(4))
  next
    case (TLeaf k)
    have k: "1 # k \<in> S" using q(2) TLeaf by simp
    show ?thesis
    proof (cases t)
      case (TLeaf k')
      with \<open>q = TLeaf k\<close> root have "H (1 # k) = H (1 # k')" by (simp add: root_of_def hash_leaf_def)
      with k t(2) TLeaf inj have "1 # k = 1 # k'" by (metis inj_onD)
      with TLeaf \<open>q = TLeaf k\<close> show ?thesis by simp
    next
      case (TMid l r)
      with \<open>q = TLeaf k\<close> root t(1) leaf [OF k, of l r] show ?thesis
        by (simp add: root_of_def hash_leaf_def del: thash.simps(4))
    qed (use TLeaf root nl [OF k] t in \<open>auto simp: root_of_def hash_leaf_def\<close>)
  next
    case (TMid l r)
    have lr: "tinput H l r \<in> S" using q(1) TMid by simp
    show ?thesis
    proof (cases t)
      case (TMid l' r')
      with \<open>q = TMid l r\<close> root have "thash H q = thash H t" "ttype q = ttype t" by (simp_all add: root_of_def)
      with hash_match [OF H inj q(1) t(1)] q(3) t(3,4) show ?thesis by simp
    next
      case (TLeaf k)
      with \<open>q = TMid l r\<close> root t(2) leaf [OF _ lr, of k] show ?thesis
        by (simp add: root_of_def hash_leaf_def del: thash.simps(4))
    qed (use TMid root nb [OF lr] t in \<open>auto simp: root_of_def simp del: thash.simps(4)\<close>)
  qed (use q in simp)
qed

lemma set_tree_no_trunc:
  assumes "keys_at d xs" "d \<le> 256"
  shows "no_trunc (set_tree d xs) \<and> keys32 (set_tree d xs)"
  using assms
proof (induction rule: set_tree_induct)
  case (leaf d xs)
  then show ?case using keys_at_ne [OF leaf(1)] unfolding keys_at_def by auto
qed (auto simp: one_sided_def)

text \<open>The node vector of any leaves, the empty list included.\<close>

lemma from_leafs_rep:
  assumes "\<forall>x \<in> set xs. length x = 32"
  obtains m e where "from_leafs H xs = Inr m" "\<not> from_proof_flag m" "nodes m \<noteq> []"
    "rep H e (nodes m) (length (nodes m) - 1) (set_tree 0 xs)"
    "no_trunc (set_tree 0 xs)" "keys32 (set_tree 0 xs)" "dbl_ok (set_tree 0 xs)" "nf (set_tree 0 xs)"
    "\<forall>item. lookup item 0 (set_tree 0 xs) = Some (item \<in> set xs)"
proof (cases "xs = []")
  case True
  then have "set_tree 0 xs = TEmpty" by (simp add: set_tree.simps)
  with True that [of "\<lparr>nodes = [stored KEmpty BLANK], from_proof_flag = False\<rparr>" BLANK] show ?thesis
    by (simp add: from_leafs_def)
next
  case False
  then have k: "keys_at 0 xs" using assms by (simp add: keys_at_def)
  obtain m where "from_leafs H xs = Inr m" "\<not> from_proof_flag m" "nodes m \<noteq> []"
    "rep H EMPTY_NODE_HASH (nodes m) (length (nodes m) - 1) (set_tree 0 xs)"
    using False assms by (rule from_leafs_tree)
  with that k set_tree_no_trunc [OF k] set_tree_dbl [OF k] lookup_set_tree [OF k] show ?thesis by simp
qed

section \<open>What the Merkle set guarantees\<close>

text \<open>
  C13: the root depends only on the set of leaves: neither their order nor repetitions change it, and
  the construction never panics on 32-byte leaves.
\<close>

theorem root_of_set:
  assumes "\<forall>x \<in> set xs. length x = 32" and "set ys = set xs"
  shows "\<exists>m m'. from_leafs H xs = Inr m \<and> from_leafs H ys = Inr m' \<and> get_root H m' = get_root H m"
proof -
  have "\<forall>y \<in> set ys. length y = 32" using assms by simp
  then obtain m' e' where "from_leafs H ys = Inr m'" "rep H e' (nodes m') (length (nodes m') - 1) (set_tree 0 ys)"
    by (rule from_leafs_rep)
  moreover obtain m e where "from_leafs H xs = Inr m" "rep H e (nodes m) (length (nodes m) - 1) (set_tree 0 xs)"
    using assms(1) by (rule from_leafs_rep)
  ultimately show ?thesis using set_tree_cong [OF assms(2), of 0] by (auto simp: get_root_rep)
qed

lemma root_of_set_witness:
  "\<exists>m m'. from_leafs (\<lambda>_. replicate 32 7) [replicate 32 1, replicate 32 2] = Inr m \<and>
     from_leafs (\<lambda>_. replicate 32 7) [replicate 32 2, replicate 32 1, replicate 32 2] = Inr m' \<and>
     get_root (\<lambda>_. replicate 32 7) m' = get_root (\<lambda>_. replicate 32 7) m"
  by (rule root_of_set) auto

text \<open>
  C12: completeness. For every item the set produces a proof with the right verdict, and the proof
  validates against the set's root with the same verdict.
\<close>

theorem generated_proof_validates:
  assumes "\<forall>x \<in> set xs. length x = 32" and "\<forall>x. length (H x) = 32"
  shows "\<exists>m pf. from_leafs H xs = Inr m \<and> generate_proof m item = Some (Inr (item \<in> set xs, pf)) \<and>
    validate_merkle_proof H pf item (get_root H m) = Some (Inr (item \<in> set xs))"
proof -
  let ?t = "set_tree 0 xs" and ?p = "proof_tree H item 0 (set_tree 0 xs)"
  obtain m e where m: "from_leafs H xs = Inr m" "\<not> from_proof_flag m" "nodes m \<noteq> []"
    and rp: "rep H e (nodes m) (length (nodes m) - 1) ?t" and ok: "dbl_ok ?t" "nf ?t"
    and look: "\<forall>item. lookup item 0 ?t = Some (item \<in> set xs)"
    using assms(1) by (rule from_leafs_rep)
  have gen: "generate_proof m item = Some (Inr (item \<in> set xs, pbytes ?p))"
    using m(2,3) generate_proof_rep [OF rp ok(1)] look
    by (simp add: generate_proof_def proof_result_def)
  have w: "well_placed [] ?p"
  proof (cases "xs = []")
    case False
    then have "keys_at 0 xs" using assms(1) by (simp add: keys_at_def)
    from well_placed_proof [OF this, of H "[]" item] assms(1,2) show ?thesis
      by (simp add: on_route_def leaf_audit_iff)
  qed (simp add: set_tree.simps)
  obtain m' where m': "from_proof H (pbytes ?p) = Inr m'" "from_proof_flag m'" "top_rep H (nodes m') ?p"
    using w by (rule from_proof_pbytes)
  have c: "collapse ?p = route_tree H item 0 ?t" using ok(2) by (rule collapse_proof_tree)
  have "get_root H m' = root_of H (route_tree H item 0 ?t)" using get_root_top [OF m'(3)] c by simp
  also have "\<dots> = root_of H ?t"
    using route_tree_hash [of H item 0 ?t] by (cases ?t) (auto simp: root_of_def split: if_splits)
  also have "\<dots> = get_root H m" using get_root_rep [OF rp] by simp
  finally have root: "get_root H m' = get_root H m" .
  have "lookup item 0 (top_tree ?p) = Some (item \<in> set xs)"
    using lookup_top [OF w] look by (simp add: c lookup_route)
  then have "generate_proof m' item = Some (Inr (item \<in> set xs, []))"
    using generate_proof_top [OF m'(3) w m'(2)] by simp
  with root m'(1) have "validate_merkle_proof H (pbytes ?p) item (get_root H m) = Some (Inr (item \<in> set xs))"
    by (simp add: validate_merkle_proof_def)
  with m(1) gen show ?thesis by blast
qed

lemma generated_proof_validates_witness:
  "\<exists>m pf. from_leafs (\<lambda>_. replicate 32 7) [replicate 32 1] = Inr m \<and>
     generate_proof m (replicate 32 1) = Some (Inr (True, pf)) \<and>
     validate_merkle_proof (\<lambda>_. replicate 32 7) pf (replicate 32 1) (get_root (\<lambda>_. replicate 32 7) m) = Some (Inr True)"
  using generated_proof_validates [of "[replicate 32 1]" "\<lambda>_. replicate 32 7" "replicate 32 1"] by simp

text \<open>
  C14: whatever the bytes of a proof, validation returns and does not panic: it answers with a verdict
  or with the error of the source.
\<close>

theorem validate_total:
  "\<exists>r. validate_merkle_proof H pf item root = Some r \<and> r \<noteq> Inl Panic"
proof (cases "from_proof H pf")
  case (Inl err)
  have "deserialize_loop H [OpNode] [[]] [] [] 0 pf \<noteq> Inl Panic" by (rule deserialize_no_panic) simp
  then have "err \<noteq> Panic" using Inl by (auto simp: from_proof_def bind_res_def split: sum.splits if_splits)
  with Inl show ?thesis by (simp add: validate_merkle_proof_def)
next
  case (Inr m)
  then obtain p where "well_placed [] p" "from_proof_flag m" "top_rep H (nodes m) p"
    by (rule from_proof_accepts)
  from generate_proof_top [OF this(3,1,2), of item] Inr show ?thesis
    by (auto simp: validate_merkle_proof_def split: option.splits)
qed

text \<open>
  C11: soundness. If the hash has no collision among the strings hashed for the set and for the proof,
  and none of them hashes to the all-zero root, then every proof that validates against the root of
  the set carries the right verdict: no proof of inclusion of an absent item, none of exclusion of a
  present one.
\<close>

theorem validated_proof_sound:
  assumes "\<forall>x \<in> set xs. length x = 32" and "\<forall>x. length (H x) = 32"
    and "from_leafs H xs = Inr m" and "from_proof H pf = Inr tree"
    and "inj_on H (set (hashed_strings m @ hashed_strings tree))"
    and "BLANK \<notin> H ` set (hashed_strings m @ hashed_strings tree)"
    and "validate_merkle_proof H pf item (get_root H m) = Some (Inr b)"
  shows "b \<longleftrightarrow> item \<in> set xs"
proof -
  let ?S = "set (hashed_strings m @ hashed_strings tree)" and ?t = "set_tree 0 xs"
  obtain m0 e where "from_leafs H xs = Inr m0" and rp0: "rep H e (nodes m0) (length (nodes m0) - 1) ?t"
    and t: "no_trunc ?t" "keys32 ?t" and look: "\<forall>item. lookup item 0 ?t = Some (item \<in> set xs)"
    using assms(1) by (rule from_leafs_rep)
  then have rp: "rep H e (nodes m) (length (nodes m) - 1) ?t" using assms(3) by simp
  obtain p where w: "well_placed [] p" and p: "from_proof_flag tree" "top_rep H (nodes tree) p"
    using assms(4) by (rule from_proof_accepts)
  let ?q = "collapse p"
  have root: "root_of H ?q = root_of H ?t" and lk: "lookup item 0 ?q = Some b"
    using assms(4,7) get_root_top [OF p(2)] get_root_rep [OF rp] generate_proof_top [OF p(2) w p(1), of item] lookup_top [OF w]
    by (auto simp: validate_merkle_proof_def split: if_splits option.splits)
  have match: "trunc_of ?q ?t"
  proof (rule root_match [where S = ?S])
    show "tinputs H ?q \<subseteq> ?S" using top_inputs(1) [OF p(2) w] by auto
    show "tinputs H ?t \<subseteq> ?S" using rep_inputs [OF rp] by auto
    show "1 # k \<in> ?S" if "?q = TLeaf k" for k using top_inputs(2) [OF p(2) w that] by simp
    show "1 # k \<in> ?S" if "?t = TLeaf k" for k using rep_root_input [of H e m k] rp that by simp
    show "?q \<noteq> TTrunc h" for h using lk by auto
  qed (use assms(2,5,6) keys32_collapse [OF w] t root in auto)
  from trunc_of_lookup [OF match lk] look show ?thesis by simp
qed

lemma validated_proof_sound_witness:
  "True \<longleftrightarrow> replicate 32 1 \<in> set [replicate 32 1 :: bytes]"
proof (rule validated_proof_sound [where H = "\<lambda>_. replicate 32 7" and pf = "1 # replicate 32 1"])
  let ?k = "replicate 32 1 :: bytes" and ?H = "\<lambda>_. replicate 32 7 :: bytes"
  let ?n = "[stored KLeaf ?k]"
  show "from_leafs ?H [?k] = Inr \<lparr>nodes = ?n, from_proof_flag = False\<rparr>"
    by (simp add: from_leafs_def generate_merkle_tree_recurse.simps)
  have d: "deserialize_loop ?H [OpNode] [[]] [] [] 0 (1 # ?k) = Inr (?n, [])"
    using loop_codes(2) [of ?H "[]" "[]" "[]" "[]" "[]" 0 ?k] read_proof_append [of ?k 32 "[]"]
    by (simp add: TERMINAL_def leaf_audit_def)
  then show fp: "from_proof ?H (1 # ?k) = Inr \<lparr>nodes = ?n, from_proof_flag = True\<rparr>"
    by (simp add: from_proof_def)
  show "validate_merkle_proof ?H (1 # ?k) ?k (get_root ?H \<lparr>nodes = ?n, from_proof_flag = False\<rparr>) = Some (Inr True)"
    unfolding validate_merkle_proof_def fp
    by (simp add: get_root_def generate_proof_def generate_proof_impl.simps node_at_def stored_def)
  show "inj_on ?H (set (hashed_strings \<lparr>nodes = ?n, from_proof_flag = False\<rparr> @
      hashed_strings \<lparr>nodes = ?n, from_proof_flag = True\<rparr>))"
    by (simp add: hashed_strings_def stored_def)
  show "BLANK \<notin> ?H ` set (hashed_strings \<lparr>nodes = ?n, from_proof_flag = False\<rparr> @
      hashed_strings \<lparr>nodes = ?n, from_proof_flag = True\<rparr>)"
    by (auto simp: BLANK_def)
qed simp_all

section \<open>The root of the block generator\<close>

lemma byte_less:
  assumes "bit a m" "\<not> bit b m" "\<And>n. m < n \<Longrightarrow> bit a n = bit (b :: u8) n"
  shows "b < a"
proof -
  have eq: "drop_bit (Suc m) a = drop_bit (Suc m) b"
    using assms(3) by (intro bit_eqI) (simp add: bit_drop_bit_eq)
  have half: "unat w div 2 ^ m = 2 * unat (drop_bit (Suc m) w) + of_bool (bit w m)" for w :: u8
  proof -
    have "unat (drop_bit (Suc m) w) = unat w div 2 ^ m div 2"
      by (simp only: unat_drop_bit_eq) (simp only: drop_bit_eq_div power_Suc2 div_mult2_eq)
    moreover have "bit w m \<longleftrightarrow> odd (unat w div 2 ^ m)"
    proof -
      have "odd (unat w div 2 ^ m) \<longleftrightarrow> bit (unat w) m" by (simp only: bit_iff_odd)
      then show ?thesis by (simp add: bit_unsigned_iff)
    qed
    ultimately show ?thesis by (simp add: odd_two_times_div_two_succ)
  qed
  have "unat b div 2 ^ m < unat a div 2 ^ m" using half [of a] half [of b] assms(1,2) eq by simp
  then have "unat b < unat a" by (meson div_le_mono not_less)
  then show ?thesis by (simp add: word_less_nat_alt)
qed


lemma key_less:
  assumes "length x = 32" "length y = 32" "d < 256" "key_bit x d" "\<not> key_bit y d"
    and "\<And>i. i < d \<Longrightarrow> key_bit x i = key_bit y i"
  shows "y < x"
proof -
  let ?j = "d div 8" and ?m = "7 - d mod 8"
  have j: "?j < 32" using assms(3) by simp
  have same: "x ! i = y ! i" if "i < ?j" for i
  proof (rule bit_eqI)
    fix n assume "possible_bit TYPE(u8) n"
    then have n: "n < 8" by (simp add: possible_bit_word)
    obtain k where k: "k div 8 = i" "7 - k mod 8 = n" "k = 8 * i + (7 - n)" using n by (rule bit_index)
    have "k < d" "k < 256" using k(3) that assms(3) by simp_all
    with assms(6) [of k] show "bit (x ! i) n = bit (y ! i) n" using k(1,2) by (simp add: get_bit_nth)
  qed
  have "y ! ?j < x ! ?j"
  proof (rule byte_less [of _ ?m])
    show "bit (x ! ?j) ?m" "\<not> bit (y ! ?j) ?m" using assms(3-5) by (simp_all add: get_bit_nth)
    fix n assume n: "?m < n"
    show "bit (x ! ?j) n = bit (y ! ?j) n"
    proof (cases "n < 8")
      case True
      obtain k where k: "k div 8 = ?j" "7 - k mod 8 = n" "k = 8 * ?j + (7 - n)" using True by (rule bit_index)
      have "7 - n < d mod 8" using n True by linarith
      then have "k < d" using k(3) div_mult_mod_eq [of d 8] by linarith
      with assms(6) [of k] assms(3) k(1,2) show ?thesis by (simp add: get_bit_nth)
    qed (simp add: bit_word.rep_eq not_less impossible_bit)
  qed
  moreover have "x = take ?j x @ x ! ?j # drop (Suc ?j) x" "y = take ?j y @ y ! ?j # drop (Suc ?j) y"
    using j assms(1,2) by (simp_all add: id_take_nth_drop)
  moreover have "take ?j x = take ?j y" using same j assms(1,2) by (intro nth_equalityI) auto
  ultimately show ?thesis unfolding list_less_def by (metis (mono_tags, lifting) case_prodI lexord_append_left_rightI mem_Collect_eq)
qed

lemma bit_is_set_key: "length k = 32 \<Longrightarrow> d < 256 \<Longrightarrow> bit_is_set k d = key_bit k d"
  by (auto simp: bit_is_set_def get_bit_nth push_bit_of_1 and_exp_eq_0_iff_not_bit)

lemma sorted_split:
  assumes "sorted xs" "keys_at d xs" "d < 256"
  shows "take (length (takeWhile (\<lambda>x. \<not> bit_is_set x d) xs)) xs = filter (\<lambda>x. \<not> key_bit x d) xs"
    and "drop (length (takeWhile (\<lambda>x. \<not> bit_is_set x d) xs)) xs = filter (\<lambda>x. key_bit x d) xs"
proof -
  let ?Q = "\<lambda>x. \<not> key_bit x d"
  have b: "bit_is_set x d = key_bit x d" if "x \<in> set xs" for x
    using that assms(2,3) by (simp add: bit_is_set_key keys_at_def)
  have mono: "?Q x" if "x \<in> set xs" "y \<in> set xs" "x \<le> y" "?Q y" for x y
    using that assms(2,3) key_less [of x y d] unfolding keys_at_def by (metis leD)
  have tw: "takeWhile (\<lambda>x. \<not> bit_is_set x d) xs = takeWhile ?Q xs" by (rule takeWhile_cong) (use b in auto)
  have "takeWhile ?Q ys = filter ?Q ys \<and> dropWhile ?Q ys = filter (\<lambda>x. key_bit x d) ys"
    if "sorted ys" "set ys \<subseteq> set xs" for ys
    using that
  proof (induction ys)
    case (Cons y ys)
    show ?case
    proof (cases "?Q y")
      case False
      then have "\<forall>z \<in> set ys. key_bit z d" using Cons.prems mono [of y] by auto
      with False show ?thesis by (simp add: filter_empty_conv filter_id_conv)
    qed (use Cons in simp)
  qed simp
  from this [OF assms(1) order_refl] show
    "take (length (takeWhile (\<lambda>x. \<not> bit_is_set x d) xs)) xs = filter ?Q xs"
    "drop (length (takeWhile (\<lambda>x. \<not> bit_is_set x d) xs)) xs = filter (\<lambda>x. key_bit x d) xs"
    unfolding tw takeWhile_eq_take [symmetric] dropWhile_eq_drop [symmetric] by simp_all
qed

definition generator_type :: "mtree \<Rightarrow> merkle_node_type" where
  "generator_type t = (case node_ty t of Term \<Rightarrow> Terminal | MidDbl \<Rightarrow> MiddleDbl | _ \<Rightarrow> Middle)"

lemma generator_type_eq:
  "t \<noteq> TEmpty \<Longrightarrow> generator_type t = Middle \<longleftrightarrow> node_ty t = Mid"
  "t \<noteq> TEmpty \<Longrightarrow> generator_type t = Terminal \<longleftrightarrow> (\<exists>k. t = TLeaf k)"
  "t \<noteq> TEmpty \<Longrightarrow> merkle_tag (generator_type t) = encode_type (ttype t)"
  by (cases t; auto simp: generator_type_def node_ty_def merkle_tag_def encode_type_def split: if_splits node_type.splits elim: is_dblE)+

lemma distinct_all_same: "distinct xs \<Longrightarrow> all_same xs \<Longrightarrow> length xs \<le> 1"
  by (cases xs; cases "tl xs") (auto simp: all_same_def)

text \<open>One level of the recursion on sorted keys.\<close>

lemma merkle_set_recurse_step:
  assumes "sorted xs" "keys_at d xs" "d < 256" "length xs \<noteq> 1"
    and l: "l = filter (\<lambda>x. \<not> key_bit x d) xs" and r: "r = filter (\<lambda>x. key_bit x d) xs"
  shows "merkle_set_recurse H xs d =
        (if l = [] \<and> r = [] then Some (Inl Panic)
         else if l = [] then Option.bind (merkle_set_recurse H r (d + 1)) (\<lambda>x. case x of
             Inl e \<Rightarrow> Some (Inl e)
           | Inr (child, child_type) \<Rightarrow>
               if child_type = Middle then Some (Inr (merkle_hashdown H EMPTY MIDDLE BLANK child, Middle))
               else Some (Inr (child, child_type)))
         else if r = [] then Option.bind (merkle_set_recurse H l (d + 1)) (\<lambda>x. case x of
             Inl e \<Rightarrow> Some (Inl e)
           | Inr (child, child_type) \<Rightarrow>
               if child_type = Middle then Some (Inr (merkle_hashdown H MIDDLE EMPTY child BLANK, Middle))
               else Some (Inr (child, child_type)))
         else Option.bind (merkle_set_recurse H l (d + 1)) (\<lambda>x. case x of
             Inl e \<Rightarrow> Some (Inl e)
           | Inr (lhash, ltype) \<Rightarrow> Option.bind (merkle_set_recurse H r (d + 1)) (\<lambda>y. case y of
                 Inl e \<Rightarrow> Some (Inl e)
               | Inr (rhash, rtype) \<Rightarrow>
                   Some (Inr (merkle_hashdown H (merkle_tag ltype) (merkle_tag rtype) lhash rhash,
                     if ltype = Terminal \<and> rtype = Terminal then MiddleDbl else Middle)))))"
proof -
  define split where "split = length (takeWhile (\<lambda>x. \<not> bit_is_set x d) xs)"
  have lr: "take split xs = l" "drop split xs = r"
    unfolding split_def l r by (fact sorted_split [OF assms(1-3)])+
  show ?thesis
    unfolding merkle_set_recurse.simps [of H xs d] Let_def split_def [symmetric] lr using assms(4) by (simp only: if_False)
qed

lemma merkle_set_recurse_tree:
  "sorted xs \<Longrightarrow> distinct xs \<Longrightarrow> keys_at d xs \<Longrightarrow> d \<le> 256 \<Longrightarrow>
   merkle_set_recurse H xs d = Some (Inr (thash H (set_tree d xs), generator_type (set_tree d xs)))"
proof (induction "256 - d" arbitrary: d xs)
  case 0
  then have "d = 256" by simp
  with 0 have s: "all_same xs" using keys_at_256 by simp
  with 0 have "length xs = 1" using distinct_all_same [of xs] keys_at_ne [of d xs] by (cases xs) auto
  then obtain x where "xs = [x]" by (auto simp: length_Suc_conv)
  then show ?case by (subst merkle_set_recurse.simps) (simp add: set_tree_leaf all_same_def generator_type_def)
next
  case (Suc n)
  have d: "d < 256" "n = 256 - Suc d" using Suc(2) by simp_all
  have ne: "xs \<noteq> []" using Suc.prems(3) by (rule keys_at_ne)
  let ?l = "filter (\<lambda>x. \<not> key_bit x d) xs" and ?r = "filter (\<lambda>x. key_bit x d) xs"
  show ?case
  proof (cases "length xs = 1")
    case True
    then obtain x where "xs = [x]" by (auto simp: length_Suc_conv)
    then show ?thesis by (subst merkle_set_recurse.simps) (simp add: set_tree_leaf all_same_def generator_type_def)
  next
    case False
    note step = merkle_set_recurse_step [OF Suc.prems(1,3) d(1) False refl refl, of H]
    have IH: "merkle_set_recurse H ys (d + 1) = Some (Inr (thash H (set_tree (Suc d) ys), generator_type (set_tree (Suc d) ys))) \<and>
        set_tree (Suc d) ys \<noteq> TEmpty" if "keys_at (Suc d) ys" "ys = filter P xs" for ys P
      using Suc.hyps(1) [OF d(2), of ys] Suc.prems(1,2) that d(1) set_tree_dbl [of "Suc d" ys]
      by (simp add: sorted_filter [where f = id, simplified])
    note merkle_defs = merkle_hashdown_def merkle_hash_def encode_type_def proof_codes
    consider "?l = []" | "?l \<noteq> []" "?r = []" | "?l \<noteq> []" "?r \<noteq> []" by blast
    then show ?thesis
    proof cases
      case 1
      have r: "?r = xs" using filter_none [OF 1] by simp
      have k: "keys_at (Suc d) ?r" using keys_at_one_sided [OF Suc.prems(3)] 1 r by simp
      note IH = IH [OF k refl, unfolded r]
      show ?thesis
        using step 1 ne IH generator_type_eq(1) [of "set_tree (Suc d) xs"] set_tree_left_empty [OF ne d(1) 1]
        by (auto simp: r one_sided_def merkle_defs node_ty_Mid generator_type_def [of "TMid _ _"] node_ty_def [of "TMid _ _"])
    next
      case 2
      have l: "?l = xs" using filter_none [OF 2(2)] .
      have k: "keys_at (Suc d) ?l" using keys_at_one_sided [OF Suc.prems(3)] 2 l by simp
      note IH = IH [OF k refl, unfolded l]
      show ?thesis
        using step 2 ne IH generator_type_eq(1) [of "set_tree (Suc d) xs"] set_tree_right_empty [OF ne d(1) 2(2)]
        by (auto simp: l one_sided_def merkle_defs node_ty_Mid generator_type_def [of "TMid _ _"] node_ty_def [of "TMid _ _"])
    next
      case 3
      have "keys_at (Suc d) ?l" "keys_at (Suc d) ?r"
        using keys_at_filter [OF Suc.prems(3), of False] keys_at_filter [OF Suc.prems(3), of True] 3 by simp_all
      note IHs = IH [OF this(1) refl] IH [OF this(2) refl]
      have ty: "(if generator_type l = Terminal \<and> generator_type r = Terminal then MiddleDbl else Middle) =
          generator_type (TMid l r)" if "l \<noteq> TEmpty" "r \<noteq> TEmpty" for l r
        using that generator_type_eq(2) [of l] generator_type_eq(2) [of r]
        by (cases l; cases r) (auto simp: generator_type_def [of "TMid _ _"] node_ty_def [of "TMid _ _"])
      show ?thesis
        using step 3 IHs ty generator_type_eq(3) set_tree_both [OF d(1) 3]
        by (simp add: merkle_hashdown_def merkle_hash_def)
    qed
  qed
qed

lemma sorted_distinct_adj: "sorted xs \<Longrightarrow> distinct_adj xs \<Longrightarrow> distinct (xs :: 'a::linorder list)"
  by (induction xs rule: induct_list012) (auto simp: distinct_adj_Cons)

lemma remdups_adj_sort:
  "sorted (remdups_adj (sort xs))" "distinct (remdups_adj (sort xs))" "set (remdups_adj (sort xs)) = set xs"
  using sorted_distinct_adj [of "remdups_adj (sort xs)"] by simp_all

text \<open>
  C15: the two implementations agree: the root the block generator computes over sorted, deduplicated
  leaves is the root of the proof-capable set built from the unsorted leaves, and the recursion ends.
\<close>

theorem generator_root_agrees:
  assumes "\<forall>x \<in> set xs. length x = 32"
  shows "\<exists>m. from_leafs H xs = Inr m \<and> merkle_set_root H xs = Some (Inr (get_root H m))"
proof -
  let ?ys = "remdups_adj (sort xs)"
  have st: "set ?ys = set xs" by (rule remdups_adj_sort(3))
  obtain m e where m: "from_leafs H xs = Inr m" and rp: "rep H e (nodes m) (length (nodes m) - 1) (set_tree 0 xs)"
    using assms by (rule from_leafs_rep)
  show ?thesis
  proof (cases "xs = []")
    case True
    with m rp get_root_rep [OF rp] show ?thesis by (simp add: merkle_set_root_def root_of_def set_tree.simps)
  next
    case False
    then have ne: "?ys \<noteq> []" using st by (metis set_empty)
    have k: "keys_at 0 ?ys" using ne assms st by (simp add: keys_at_def)
    have r: "merkle_set_recurse H ?ys 0 = Some (Inr (thash H (set_tree 0 xs), generator_type (set_tree 0 xs)))"
      using merkle_set_recurse_tree [OF remdups_adj_sort(1,2) k, of H] set_tree_cong [OF st, of 0] by simp
    have "set_tree 0 xs \<noteq> TEmpty" using set_tree_dbl [OF k] set_tree_cong [OF st, of 0] by simp
    with r ne have "merkle_set_root H xs = Some (Inr (root_of H (set_tree 0 xs)))"
      by (cases "set_tree 0 xs")
        (auto simp: merkle_set_root_def Let_def root_of_def hash_leaf_def generator_type_def TERMINAL_def
          node_ty_def split: node_type.splits if_splits)
    with m get_root_rep [OF rp] show ?thesis by simp
  qed
qed

lemma generator_root_agrees_witness:
  "\<exists>m. from_leafs (\<lambda>_. replicate 32 7) [replicate 32 2, replicate 32 1] = Inr m \<and>
     merkle_set_root (\<lambda>_. replicate 32 7) [replicate 32 2, replicate 32 1] = Some (Inr (get_root (\<lambda>_. replicate 32 7) m))"
  by (rule generator_root_agrees) simp

end
