(* ===== verification/Constants.thy ===== *)
theory Constants
  imports XchPrelude
begin

text \<open>
  Networks and their constants, \<^verbatim>\<open>core/src/consensus/constants.rs\<close>: the network names, the record of all
  constants in the order of the struct, the ten networks (nine of them as updates of \<^verbatim>\<open>MAINNET\<close>, as in the
  source) and the coinbase prefixes. A 32-byte hex literal is written as the big-endian number it is.
\<close>

section \<open>Networks\<close>

datatype chia_network =
  Mainnet | Simulator | Testnet0 | Testnet2 | Testnet3 | Testnet4 | Testnet5 | Testnet7 | Testnet10 | Testnet11

definition network_discriminant :: "chia_network \<Rightarrow> nat" where
  "network_discriminant n = (case n of
     Mainnet \<Rightarrow> 0
   | Simulator \<Rightarrow> 1
   | Testnet0 \<Rightarrow> 2
   | Testnet2 \<Rightarrow> 3
   | Testnet3 \<Rightarrow> 4
   | Testnet4 \<Rightarrow> 5
   | Testnet5 \<Rightarrow> 6
   | Testnet7 \<Rightarrow> 7
   | Testnet10 \<Rightarrow> 8
   | Testnet11 \<Rightarrow> 9)"

definition chia_network_from_str :: "string \<Rightarrow> string + chia_network" where
  "chia_network_from_str s =
     (if s = ''mainnet'' then Inr Mainnet
      else if s = ''simulator'' then Inr Simulator
      else if s = ''testnet0'' then Inr Testnet0
      else if s = ''testnet2'' then Inr Testnet2
      else if s = ''testnet3'' then Inr Testnet3
      else if s = ''testnet4'' then Inr Testnet4
      else if s = ''testnet5'' then Inr Testnet5
      else if s = ''testnet7'' then Inr Testnet7
      else if s = ''testnet10'' then Inr Testnet10
      else if s = ''testnet11'' then Inr Testnet11
      else Inl (s @ '' Is not a Valid Network''))"

text \<open>The name serde derives with \<^verbatim>\<open>rename_all = "lowercase"\<close>.\<close>

definition serde_name :: "chia_network \<Rightarrow> string" where
  "serde_name n = (case n of
     Mainnet \<Rightarrow> ''mainnet''
   | Simulator \<Rightarrow> ''simulator''
   | Testnet0 \<Rightarrow> ''testnet0''
   | Testnet2 \<Rightarrow> ''testnet2''
   | Testnet3 \<Rightarrow> ''testnet3''
   | Testnet4 \<Rightarrow> ''testnet4''
   | Testnet5 \<Rightarrow> ''testnet5''
   | Testnet7 \<Rightarrow> ''testnet7''
   | Testnet10 \<Rightarrow> ''testnet10''
   | Testnet11 \<Rightarrow> ''testnet11'')"

section \<open>Constants\<close>

record consensus_constants =
  slot_blocks_target :: u32
  min_blocks_per_challenge_block :: u8
  max_sub_slot_blocks :: u32
  num_sps_sub_slot :: u32
  sub_slot_iters_starting :: u64
  difficulty_constant_factor :: u128
  difficulty_starting :: u64
  difficulty_change_max_factor :: u32
  sub_epoch_blocks :: u32
  epoch_blocks :: u32
  significant_bits :: u64
  discriminant_size_bits :: u64
  number_zero_bits_plot_filter :: u8
  min_plot_size :: u8
  max_plot_size :: u8
  sub_slot_time_target :: u64
  num_sp_intervals_extra :: u64
  max_future_time :: u64
  max_future_time2 :: u64
  number_of_timestamps :: u64
  genesis_challenge :: bytes
  agg_sig_me_additional_data :: bytes
  genesis_pre_farm_pool_puzzle_hash :: bytes
  genesis_pre_farm_farmer_puzzle_hash :: bytes
  max_vdf_witness_size :: u64
  mempool_block_buffer :: u64
  max_coin_amount :: u64
  max_block_cost_clvm :: u64
  cost_per_byte :: u64
  weight_proof_threshold :: u8
  weight_proof_recent_blocks :: u32
  max_block_count_per_requests :: u32
  blocks_cache_size :: u32
  max_generator_size :: u32
  max_generator_ref_list_size :: u32
  pool_sub_slot_iters :: u64
  soft_fork2_height :: u32
  soft_fork3_height :: u32
  hard_fork_height :: u32
  hard_fork_fix_height :: u32
  soft_fork8_height :: u32
  soft_fork9_height :: u32
  hard_fork2_height :: u32
  plot_filter_128_height :: u32
  plot_filter_64_height :: u32
  plot_filter_32_height :: u32
  number_zero_bits_plot_filter_v2 :: u8
  plot_size_v2 :: u8
  min_plot_strength :: u8
  max_plot_strength :: u8
  plot_v1_phase_out_epoch_bits :: u8
  plot_filter_v2_first_adjustment_height :: u32
  plot_filter_v2_second_adjustment_height :: u32
  plot_filter_v2_third_adjustment_height :: u32
  bech32_prefix :: string
  is_testnet :: bool
  simulated :: bool

abbreviation bytes32_hex :: "nat \<Rightarrow> bytes" where
  "bytes32_hex \<equiv> be_bytes 32"

definition MAINNET :: consensus_constants where
  "MAINNET = \<lparr>
     slot_blocks_target = 32,
     min_blocks_per_challenge_block = 16,
     max_sub_slot_blocks = 128,
     num_sps_sub_slot = 64,
     sub_slot_iters_starting = 2 ^ 27,
     difficulty_constant_factor = 2 ^ 67,
     difficulty_starting = 7,
     difficulty_change_max_factor = 3,
     sub_epoch_blocks = 384,
     epoch_blocks = 4608,
     significant_bits = 8,
     discriminant_size_bits = 1024,
     number_zero_bits_plot_filter = 9,
     min_plot_size = 32,
     max_plot_size = 50,
     sub_slot_time_target = 600,
     num_sp_intervals_extra = 3,
     max_future_time = 5 * 60,
     max_future_time2 = 2 * 60,
     number_of_timestamps = 11,
     genesis_challenge = bytes32_hex 0xccd5bb71183532bff220ba46c268991a3ff07eb358e8255a65c30a2dce0e5fbb,
     agg_sig_me_additional_data = bytes32_hex 0xccd5bb71183532bff220ba46c268991a3ff07eb358e8255a65c30a2dce0e5fbb,
     genesis_pre_farm_pool_puzzle_hash = bytes32_hex 0xd23da14695a188ae5708dd152263c4db883eb27edeb936178d4d988b8f3ce5fc,
     genesis_pre_farm_farmer_puzzle_hash = bytes32_hex 0x3d8765d3a597ec1d99663f6c9816d915b9f68613ac94009884c4addaefcce6af,
     max_vdf_witness_size = 64,
     mempool_block_buffer = 10,
     max_coin_amount = - 1,
     max_block_cost_clvm = 11000000000,
     cost_per_byte = 12000,
     weight_proof_threshold = 2,
     weight_proof_recent_blocks = 1000,
     max_block_count_per_requests = 32,
     blocks_cache_size = 4608 + (128 * 4),
     max_generator_size = 1000000,
     max_generator_ref_list_size = 512,
     pool_sub_slot_iters = 37600000000,
     soft_fork2_height = 0,
     soft_fork3_height = 4510000,
     hard_fork_height = 5496000,
     hard_fork_fix_height = 5496000,
     soft_fork8_height = 8655000,
     soft_fork9_height = 8655000,
     hard_fork2_height = 0xFFFFFFFA,
     plot_filter_128_height = 10542000,
     plot_filter_64_height = 15592000,
     plot_filter_32_height = 20643000,
     number_zero_bits_plot_filter_v2 = 5,
     plot_size_v2 = 28,
     min_plot_strength = 2,
     max_plot_strength = 32,
     plot_v1_phase_out_epoch_bits = 8,
     plot_filter_v2_first_adjustment_height = 0xFFFFFFFB,
     plot_filter_v2_second_adjustment_height = 0xFFFFFFFC,
     plot_filter_v2_third_adjustment_height = 0xFFFFFFFD,
     bech32_prefix = ''xch'',
     is_testnet = False,
     simulated = False\<rparr>"

definition SIMULATOR :: consensus_constants where
  "SIMULATOR = MAINNET\<lparr>
     genesis_challenge := bytes32_hex 0xeb8c4d20b322be8d9fddbf9412016bdffe9a2901d7edb0e364e94266d0e095f7,
     agg_sig_me_additional_data := bytes32_hex 0xeb8c4d20b322be8d9fddbf9412016bdffe9a2901d7edb0e364e94266d0e095f7,
     genesis_pre_farm_farmer_puzzle_hash := bytes32_hex 0x1e2e27c26e3ca085de2dd0732b63ccbd6fe54983110a045dcb28f6f146b6ad1d,
     genesis_pre_farm_pool_puzzle_hash := bytes32_hex 0x1e2e27c26e3ca085de2dd0732b63ccbd6fe54983110a045dcb28f6f146b6ad1d,
     hard_fork_height := 0,
     min_plot_size := 18,
     bech32_prefix := ''txch'',
     simulated := True\<rparr>"

definition TESTNET_0 :: consensus_constants where
  "TESTNET_0 = MAINNET\<lparr>
     genesis_challenge := bytes32_hex 0xe3b0c44298fc1c149afbf4c8996fb92427ae41e4649b934ca495991b7852b855,
     genesis_pre_farm_farmer_puzzle_hash := bytes32_hex 0x3d8765d3a597ec1d99663f6c9816d915b9f68613ac94009884c4addaefcce6af,
     genesis_pre_farm_pool_puzzle_hash := bytes32_hex 0xd23da14695a188ae5708dd152263c4db883eb27edeb936178d4d988b8f3ce5fc,
     min_plot_size := 18,
     bech32_prefix := ''txch'',
     is_testnet := True\<rparr>"

definition TESTNET_2 :: consensus_constants where
  "TESTNET_2 = MAINNET\<lparr>
     difficulty_constant_factor := 10052721566054,
     genesis_challenge := bytes32_hex 0xba7816bf8f01cfea414140de5dae2223b00361a396177a9cb410ff61f20015ad,
     genesis_pre_farm_farmer_puzzle_hash := bytes32_hex 0x3d8765d3a597ec1d99663f6c9816d915b9f68613ac94009884c4addaefcce6af,
     genesis_pre_farm_pool_puzzle_hash := bytes32_hex 0xd23da14695a188ae5708dd152263c4db883eb27edeb936178d4d988b8f3ce5fc,
     min_plot_size := 18,
     bech32_prefix := ''txch'',
     is_testnet := True\<rparr>"

definition TESTNET_3 :: consensus_constants where
  "TESTNET_3 = MAINNET\<lparr>
     difficulty_constant_factor := 10052721566054,
     genesis_challenge := bytes32_hex 0xca7816bf8f01cfea414140de5dae2223b00361a396177a9cb410ff61f20015af,
     genesis_pre_farm_farmer_puzzle_hash := bytes32_hex 0x3d8765d3a597ec1d99663f6c9816d915b9f68613ac94009884c4addaefcce6af,
     genesis_pre_farm_pool_puzzle_hash := bytes32_hex 0xd23da14695a188ae5708dd152263c4db883eb27edeb936178d4d988b8f3ce5fc,
     mempool_block_buffer := 10,
     min_plot_size := 18,
     bech32_prefix := ''txch'',
     is_testnet := True\<rparr>"

definition TESTNET_4 :: consensus_constants where
  "TESTNET_4 = MAINNET\<lparr>
     difficulty_constant_factor := 10052721566054,
     difficulty_starting := 30,
     epoch_blocks := 768,
     genesis_challenge := bytes32_hex 0xdd7816bf8f01cfea414140de5dae2223b00361a396177a9cb410ff61f20015af,
     genesis_pre_farm_farmer_puzzle_hash := bytes32_hex 0x3d8765d3a597ec1d99663f6c9816d915b9f68613ac94009884c4addaefcce6af,
     genesis_pre_farm_pool_puzzle_hash := bytes32_hex 0xd23da14695a188ae5708dd152263c4db883eb27edeb936178d4d988b8f3ce5fc,
     mempool_block_buffer := 10,
     min_plot_size := 18,
     bech32_prefix := ''txch'',
     is_testnet := True\<rparr>"

definition TESTNET_5 :: consensus_constants where
  "TESTNET_5 = MAINNET\<lparr>
     difficulty_constant_factor := 10052721566054,
     difficulty_starting := 30,
     epoch_blocks := 768,
     genesis_challenge := bytes32_hex 0xee7816bf8f01cfea414140de5dae2223b00361a396177a9cb410ff61f20015af,
     genesis_pre_farm_farmer_puzzle_hash := bytes32_hex 0x3d8765d3a597ec1d99663f6c9816d915b9f68613ac94009884c4addaefcce6af,
     genesis_pre_farm_pool_puzzle_hash := bytes32_hex 0xd23da14695a188ae5708dd152263c4db883eb27edeb936178d4d988b8f3ce5fc,
     mempool_block_buffer := 10,
     min_plot_size := 18,
     bech32_prefix := ''txch'',
     is_testnet := True\<rparr>"

definition TESTNET_7 :: consensus_constants where
  "TESTNET_7 = MAINNET\<lparr>
     difficulty_constant_factor := 10052721566054,
     difficulty_starting := 30,
     epoch_blocks := 768,
     genesis_challenge := bytes32_hex 0x117816bf8f01cfea414140de5dae2223b00361a396177a9cb410ff61f20015af,
     genesis_pre_farm_farmer_puzzle_hash := bytes32_hex 0x3d8765d3a597ec1d99663f6c9816d915b9f68613ac94009884c4addaefcce6af,
     genesis_pre_farm_pool_puzzle_hash := bytes32_hex 0xd23da14695a188ae5708dd152263c4db883eb27edeb936178d4d988b8f3ce5fc,
     mempool_block_buffer := 10,
     min_plot_size := 18,
     bech32_prefix := ''txch'',
     is_testnet := True\<rparr>"

definition TESTNET_10 :: consensus_constants where
  "TESTNET_10 = MAINNET\<lparr>
     agg_sig_me_additional_data := bytes32_hex 0xae83525ba8d1dd3f09b277de18ca3e43fc0af20d20c4b3e92ef2a48bd291ccb2,
     difficulty_constant_factor := 10052721566054,
     difficulty_starting := 30,
     epoch_blocks := 768,
     genesis_challenge := bytes32_hex 0xae83525ba8d1dd3f09b277de18ca3e43fc0af20d20c4b3e92ef2a48bd291ccb2,
     genesis_pre_farm_farmer_puzzle_hash := bytes32_hex 0x3d8765d3a597ec1d99663f6c9816d915b9f68613ac94009884c4addaefcce6af,
     genesis_pre_farm_pool_puzzle_hash := bytes32_hex 0xd23da14695a188ae5708dd152263c4db883eb27edeb936178d4d988b8f3ce5fc,
     mempool_block_buffer := 10,
     min_plot_size := 18,
     soft_fork2_height := 3000000,
     soft_fork3_height := 2997292,
     hard_fork_height := 2997292,
     hard_fork_fix_height := 3426000,
     plot_filter_128_height := 3061804,
     plot_filter_64_height := 8010796,
     plot_filter_32_height := 13056556,
     bech32_prefix := ''txch'',
     is_testnet := True\<rparr>"

definition TESTNET_11 :: consensus_constants where
  "TESTNET_11 = MAINNET\<lparr>
     agg_sig_me_additional_data := bytes32_hex 0x37a90eb5185a9c4439a91ddc98bbadce7b4feba060d50116a067de66bf236615,
     difficulty_constant_factor := 10052721566054,
     difficulty_starting := 30,
     epoch_blocks := 768,
     genesis_challenge := bytes32_hex 0x37a90eb5185a9c4439a91ddc98bbadce7b4feba060d50116a067de66bf236615,
     genesis_pre_farm_farmer_puzzle_hash := bytes32_hex 0x08296fc227decd043aee855741444538e4cc9a31772c4d1a9e6242d1e777e42a,
     genesis_pre_farm_pool_puzzle_hash := bytes32_hex 0x3ef7c233fc0785f3c0cae5992c1d35e7c955ca37a423571c1607ba392a9d12f7,
     mempool_block_buffer := 10,
     min_plot_size := 18,
     sub_slot_iters_starting := 67108864,
     hard_fork_height := 0,
     hard_fork_fix_height := 0,
     soft_fork8_height := 3755000,
     soft_fork9_height := 3924000,
     plot_filter_128_height := 6029568,
     plot_filter_64_height := 11075328,
     plot_filter_32_height := 16121088,
     bech32_prefix := ''txch'',
     is_testnet := True\<rparr>"

definition constants_from_network :: "chia_network \<Rightarrow> consensus_constants" where
  "constants_from_network n = (case n of
     Mainnet \<Rightarrow> MAINNET
   | Simulator \<Rightarrow> SIMULATOR
   | Testnet0 \<Rightarrow> TESTNET_0
   | Testnet2 \<Rightarrow> TESTNET_2
   | Testnet3 \<Rightarrow> TESTNET_3
   | Testnet4 \<Rightarrow> TESTNET_4
   | Testnet5 \<Rightarrow> TESTNET_5
   | Testnet7 \<Rightarrow> TESTNET_7
   | Testnet10 \<Rightarrow> TESTNET_10
   | Testnet11 \<Rightarrow> TESTNET_11)"

definition constants_display :: "consensus_constants \<Rightarrow> string" where
  "constants_display c =
     (if simulated c then ''Simulator''
      else if is_testnet c then ''Testnet''
      else if bech32_prefix c = ''xch'' then ''Mainnet''
      else ''Unknown'')"

section \<open>Coinbase prefixes\<close>

definition get_pool_reward_prefix :: "consensus_constants \<Rightarrow> bytes" where
  "get_pool_reward_prefix c =
     foldl (\<lambda>buf i. buf[i := genesis_challenge c ! i]) (replicate 32 0) [0..<16]"

definition get_farmer_reward_prefix :: "consensus_constants \<Rightarrow> bytes" where
  "get_farmer_reward_prefix c =
     foldl (\<lambda>buf i. buf[i := genesis_challenge c ! (i + 16)]) (replicate 32 0) [0..<16]"

definition CONSENSUS_CONSTANTS :: "consensus_constants list" where
  "CONSENSUS_CONSTANTS =
     [MAINNET, SIMULATOR, TESTNET_0, TESTNET_2, TESTNET_3, TESTNET_4, TESTNET_5, TESTNET_7,
      TESTNET_10, TESTNET_11]"

definition FARMER_REWARD_PREFIXES :: "(bytes \<times> bytes) list" where
  "FARMER_REWARD_PREFIXES =
     [(get_pool_reward_prefix MAINNET, get_farmer_reward_prefix MAINNET),
      (get_pool_reward_prefix SIMULATOR, get_farmer_reward_prefix SIMULATOR),
      (get_pool_reward_prefix TESTNET_0, get_farmer_reward_prefix TESTNET_0),
      (get_pool_reward_prefix TESTNET_2, get_farmer_reward_prefix TESTNET_2),
      (get_pool_reward_prefix TESTNET_3, get_farmer_reward_prefix TESTNET_3),
      (get_pool_reward_prefix TESTNET_4, get_farmer_reward_prefix TESTNET_4),
      (get_pool_reward_prefix TESTNET_5, get_farmer_reward_prefix TESTNET_5),
      (get_pool_reward_prefix TESTNET_7, get_farmer_reward_prefix TESTNET_7),
      (get_pool_reward_prefix TESTNET_10, get_farmer_reward_prefix TESTNET_10),
      (get_pool_reward_prefix TESTNET_11, get_farmer_reward_prefix TESTNET_11)]"

section \<open>Well-formed constants\<close>

text \<open>
  What the struct's comments and the arithmetic built on it ask of a set of constants: positive divisors,
  signage points that divide the sub-slot, sub-slots shorter than half a sub-epoch, epochs made of whole
  sub-epochs, a look-ahead that stays within five sub-slots of an epoch boundary, ordered plot ranges and
  filter heights, and 32-byte hashes.
\<close>

definition wf_constants :: "consensus_constants \<Rightarrow> bool" where
  "wf_constants c \<longleftrightarrow>
     slot_blocks_target c > 0 \<and> min_blocks_per_challenge_block c > 0 \<and>
     slot_blocks_target c < max_sub_slot_blocks c \<and> 2 * unat (max_sub_slot_blocks c) < unat (sub_epoch_blocks c) \<and>
     num_sps_sub_slot c > 0 \<and> unat (num_sp_intervals_extra c) < unat (num_sps_sub_slot c) \<and>
     unat (num_sps_sub_slot c) dvd unat (sub_slot_iters_starting c) \<and>
     unat (sub_epoch_blocks c) dvd unat (epoch_blocks c) \<and> epoch_blocks c > 0 \<and>
     3 * unat (max_sub_slot_blocks c) \<le> unat (epoch_blocks c) \<and>
     2 * unat (max_sub_slot_blocks c) + unat (min_blocks_per_challenge_block c) + 5 < unat (epoch_blocks c) \<and>
     2 * unat (max_sub_slot_blocks c) + unat (min_blocks_per_challenge_block c) + 5
       < 5 * unat (max_sub_slot_blocks c) \<and>
     unat (epoch_blocks c) + unat (sub_epoch_blocks c) + 6 * unat (max_sub_slot_blocks c) < 2 ^ 16 \<and>
     difficulty_starting c > 0 \<and> difficulty_change_max_factor c > 0 \<and> significant_bits c > 0 \<and>
     min_plot_size c \<le> max_plot_size c \<and> min_plot_strength c \<le> max_plot_strength c \<and>
     plot_filter_128_height c \<le> plot_filter_64_height c \<and> plot_filter_64_height c \<le> plot_filter_32_height c \<and>
     length (genesis_challenge c) = 32 \<and> length (agg_sig_me_additional_data c) = 32 \<and>
     length (genesis_pre_farm_pool_puzzle_hash c) = 32 \<and> length (genesis_pre_farm_farmer_puzzle_hash c) = 32"

lemmas network_constants =
  MAINNET_def SIMULATOR_def TESTNET_0_def TESTNET_2_def TESTNET_3_def TESTNET_4_def TESTNET_5_def
  TESTNET_7_def TESTNET_10_def TESTNET_11_def


lemma wf_MAINNET: "wf_constants MAINNET"
  by (simp add: network_constants wf_constants_def)

text \<open>
  Parsing accepts exactly the ten serde names, each as its own network, and the numeric
  discriminant of a network is its position in \<^verbatim>\<open>CONSENSUS_CONSTANTS\<close>.
\<close>

lemma network_names:
  "(chia_network_from_str s = Inr n \<longleftrightarrow> s = serde_name n) \<and>
   CONSENSUS_CONSTANTS ! network_discriminant n = constants_from_network n"
proof
  show "chia_network_from_str s = Inr n \<longleftrightarrow> s = serde_name n"
    by (cases n) (auto simp: chia_network_from_str_def serde_name_def)
  show "CONSENSUS_CONSTANTS ! network_discriminant n = constants_from_network n"
    by (cases n) (simp_all add: CONSENSUS_CONSTANTS_def network_discriminant_def constants_from_network_def)
qed

text \<open>
  Signatures of a network can be replayed on the main network exactly when it kept the main network's
  additional data: on the test networks up to 7, and on no later one nor on the simulator.
\<close>

lemma replay_protection:
  "agg_sig_me_additional_data (constants_from_network n) = agg_sig_me_additional_data MAINNET \<longleftrightarrow>
     n \<in> {Mainnet, Testnet0, Testnet2, Testnet3, Testnet4, Testnet5, Testnet7}"
proof -
  have "hd (be_bytes 32 a) \<noteq> hd (be_bytes 32 b) \<Longrightarrow> be_bytes 32 a \<noteq> be_bytes 32 b" for a b
    by metis
  moreover have "hd (be_bytes 32 a) = of_nat (a div 256 ^ 31)" for a
    by (simp add: be_bytes_numeral)
  ultimately show ?thesis
    by (cases n) (simp_all add: constants_from_network_def network_constants)
qed

end
