(* ===== verification/Consensus.thy ===== *)
theory Consensus
  imports Constants
begin

text \<open>
  The data and the arithmetic of proof-of-time consensus: \<^verbatim>\<open>core/src/blockchain/block_record.rs\<close> and, of
  \<^verbatim>\<open>core/src/consensus\<close>, \<^verbatim>\<open>pot_iterations.rs\<close>, \<^verbatim>\<open>deficit.rs\<close>,
  \<^verbatim>\<open>block_rewards.rs\<close> and \<^verbatim>\<open>coinbase.rs\<close>. Unsigned integers are words, so the source's plain arithmetic
  wraps as in a release build; a division by zero is the error \<open>DivisionByZero\<close>.
\<close>

section \<open>Records\<close>

record coin =
  parent_coin_info :: bytes
  puzzle_hash :: bytes
  amount :: u64

record sub_epoch_summary =
  prev_subepoch_summary_hash :: bytes
  reward_chain_hash :: bytes
  num_blocks_overflow :: u8
  new_difficulty :: "u64 option"
  new_sub_slot_iters :: "u64 option"

record block_record =
  br_header_hash :: bytes
  br_prev_hash :: bytes
  br_height :: u32
  br_weight :: u128
  br_total_iters :: u128
  br_signage_point_index :: u8
  br_challenge_vdf_output :: bytes
  br_infused_challenge_vdf_output :: "bytes option"
  br_reward_infusion_new_challenge :: bytes
  br_challenge_block_info_hash :: bytes
  br_sub_slot_iters :: u64
  br_pool_puzzle_hash :: bytes
  br_farmer_puzzle_hash :: bytes
  br_required_iters :: u64
  br_deficit :: u8
  br_overflow :: bool
  br_prev_transaction_block_height :: u32
  br_timestamp :: "u64 option"
  br_prev_transaction_block_hash :: "bytes option"
  br_fees :: "u64 option"
  br_reward_claims_incorporated :: "coin list option"
  br_finished_challenge_slot_hashes :: "bytes list option"
  br_finished_infused_challenge_slot_hashes :: "bytes list option"
  br_finished_reward_slot_hashes :: "bytes list option"
  br_sub_epoch_summary_included :: "sub_epoch_summary option"

type_synonym block_map = "bytes \<rightharpoonup> block_record"

datatype consensus_error = InvalidDataError string | Missing bytes | DivisionByZero

definition is_some :: "'a option \<Rightarrow> bool" where
  "is_some x = (case x of None \<Rightarrow> False | Some _ \<Rightarrow> True)"

lemma is_some_simps [simp]: "is_some (Some x)" "\<not> is_some None"
  by (simp_all add: is_some_def)

definition first_in_sub_slot :: "block_record \<Rightarrow> bool" where
  "first_in_sub_slot r = is_some (br_finished_challenge_slot_hashes r)"

definition is_transaction_block :: "block_record \<Rightarrow> bool" where
  "is_transaction_block r = is_some (br_timestamp r)"

definition is_challenge_block :: "block_record \<Rightarrow> u8 \<Rightarrow> bool" where
  "is_challenge_block r min_blocks = (br_deficit r = min_blocks - 1)"

text \<open>\<^verbatim>\<open>is_multiple_of\<close>: zero has only itself as a multiple.\<close>

definition is_multiple_of :: "'a::len word \<Rightarrow> 'a word \<Rightarrow> bool" where
  "is_multiple_of a b = (if b = 0 then a = 0 else a mod b = 0)"

text \<open>Division and remainder panic on a zero divisor.\<close>

definition div_res :: "'a::len word \<Rightarrow> 'a word \<Rightarrow> consensus_error + 'a word" where
  "div_res a b = (if b = 0 then Inl DivisionByZero else Inr (a div b))"

definition mod_res :: "'a::len word \<Rightarrow> 'a word \<Rightarrow> consensus_error + 'a word" where
  "mod_res a b = (if b = 0 then Inl DivisionByZero else Inr (a mod b))"

lemma div_mod_res [simp]:
  "div_res a b = Inr c \<longleftrightarrow> b \<noteq> 0 \<and> c = a div b" "mod_res a b = Inr c \<longleftrightarrow> b \<noteq> 0 \<and> c = a mod b"
  "b \<noteq> 0 \<Longrightarrow> div_res a b = Inr (a div b)" "b \<noteq> 0 \<Longrightarrow> mod_res a b = Inr (a mod b)"
  by (auto simp: div_res_def mod_res_def)

section \<open>Proof-of-time iterations\<close>

definition is_overflow_block :: "consensus_constants \<Rightarrow> u8 \<Rightarrow> consensus_error + bool" where
  "is_overflow_block c signage_point_index =
     (if ucast signage_point_index \<ge> num_sps_sub_slot c then Inl (InvalidDataError ''SP index too high'')
      else Inr ((ucast signage_point_index :: u64) \<ge> ucast (num_sps_sub_slot c) - num_sp_intervals_extra c))"

definition calculate_sp_interval_iters :: "consensus_constants \<Rightarrow> u64 \<Rightarrow> consensus_error + u64" where
  "calculate_sp_interval_iters c ssi =
     (if \<not> is_multiple_of ssi (ucast (num_sps_sub_slot c))
      then Inl (InvalidDataError ''Invalid SubSlot Iterations'')
      else div_res ssi (ucast (num_sps_sub_slot c)))"

definition calculate_sp_iters :: "consensus_constants \<Rightarrow> u64 \<Rightarrow> u8 \<Rightarrow> consensus_error + u64" where
  "calculate_sp_iters c ssi signage_point_index =
     (if ucast signage_point_index \<ge> num_sps_sub_slot c then Inl (InvalidDataError ''SP index too high'')
      else bind_res (calculate_sp_interval_iters c ssi) (\<lambda>i. Inr (i * ucast signage_point_index)))"

definition calculate_ip_iters :: "consensus_constants \<Rightarrow> u64 \<Rightarrow> u8 \<Rightarrow> u64 \<Rightarrow> consensus_error + u64" where
  "calculate_ip_iters c ssi signage_point_index required_iters =
     bind_res (calculate_sp_iters c ssi signage_point_index) (\<lambda>sp_iters.
     bind_res (calculate_sp_interval_iters c ssi) (\<lambda>sp_interval_iters.
     bind_res (mod_res sp_iters sp_interval_iters) (\<lambda>rem.
       if rem \<noteq> 0 \<or> sp_iters \<ge> ssi then Inl (InvalidDataError ''Invalid sp iters'')
       else if required_iters \<ge> sp_interval_iters \<or> required_iters = 0
       then Inl (InvalidDataError ''Required iters out of range'')
       else mod_res (sp_iters + num_sp_intervals_extra c * sp_interval_iters + required_iters) ssi)))"

text \<open>\<^verbatim>\<open>2u64.pow(u32::from(k) - 1)\<close> wraps to 0 for exponents of 64 and more, the wrapped \<open>k = 0\<close> included.\<close>

definition expected_plot_size :: "u8 \<Rightarrow> u64" where
  "expected_plot_size k =
     (2 * ucast k + 1) * (if k = 0 then 0 else push_bit (unat k - 1) 1)"

text \<open>
  The quality lottery. Its last step is on unbounded integers; \<open>plot_size\<close> is the expected size of the
  plot, and the hash is a parameter.
\<close>

definition quality_iters :: "hash_fn \<Rightarrow> u128 \<Rightarrow> bytes \<Rightarrow> u64 \<Rightarrow> u64 \<Rightarrow> bytes \<Rightarrow> consensus_error + u64" where
  "quality_iters H factor quality_string plot_size difficulty cc_sp_output_hash =
     (let quality_int = be_nat (H (quality_string @ cc_sp_output_hash));
          top = unat difficulty * unat factor * quality_int;
          bottom = 2 ^ 256 * unat plot_size
      in if bottom = 0 then Inl DivisionByZero
         else if top div bottom > 2 ^ 64 - 1 then Inr (- 1)
         else Inr (max 1 (of_nat (top div bottom))))"

definition calculate_iterations_quality ::
    "hash_fn \<Rightarrow> u128 \<Rightarrow> bytes \<Rightarrow> u8 \<Rightarrow> u64 \<Rightarrow> bytes \<Rightarrow> consensus_error + u64" where
  "calculate_iterations_quality H factor quality_string k difficulty cc_sp_output_hash =
     quality_iters H factor quality_string (expected_plot_size k) difficulty cc_sp_output_hash"

section \<open>Iteration counts of a record\<close>

definition ip_iters :: "consensus_constants \<Rightarrow> block_record \<Rightarrow> consensus_error + u64" where
  "ip_iters c r = calculate_ip_iters c (br_sub_slot_iters r) (br_signage_point_index r) (br_required_iters r)"

definition sp_iters :: "consensus_constants \<Rightarrow> block_record \<Rightarrow> consensus_error + u64" where
  "sp_iters c r = calculate_sp_iters c (br_sub_slot_iters r) (br_signage_point_index r)"

definition ip_sub_slot_total_iters :: "consensus_constants \<Rightarrow> block_record \<Rightarrow> consensus_error + u128" where
  "ip_sub_slot_total_iters c r =
     bind_res (ip_iters c r) (\<lambda>ip.
       ok_or (checked_sub (br_total_iters r) (ucast ip))
         (InvalidDataError ''u128 underflow in ip_sub_slot_total_iters''))"

definition sp_sub_slot_total_iters :: "consensus_constants \<Rightarrow> block_record \<Rightarrow> consensus_error + u128" where
  "sp_sub_slot_total_iters c r =
     bind_res (ip_sub_slot_total_iters c r) (\<lambda>ret.
       if br_overflow r
       then ok_or (checked_sub ret (ucast (br_sub_slot_iters r)))
              (InvalidDataError ''u128 underflow in sp_sub_slot_total_iters'')
       else Inr ret)"

definition checked_add :: "'a::len word \<Rightarrow> 'a word \<Rightarrow> 'a word option" where
  "checked_add a b = (if unat a + unat b < 2 ^ LENGTH('a) then Some (a + b) else None)"

definition sp_total_iters :: "consensus_constants \<Rightarrow> block_record \<Rightarrow> consensus_error + u128" where
  "sp_total_iters c r =
     bind_res (sp_sub_slot_total_iters c r) (\<lambda>start.
     bind_res (sp_iters c r) (\<lambda>sp.
       ok_or (checked_add start (ucast sp)) (InvalidDataError ''u128 overflow in sp_total_iters'')))"

section \<open>Deficit\<close>

definition calculate_deficit ::
    "consensus_constants \<Rightarrow> u32 \<Rightarrow> block_record option \<Rightarrow> bool \<Rightarrow> nat \<Rightarrow> u8" where
  "calculate_deficit c blk_height prev_b overflow num_finished_sub_slots =
     (let m = min_blocks_per_challenge_block c
      in if blk_height = 0 then m - 1
         else let prev_deficit = (case prev_b of None \<Rightarrow> m | Some p \<Rightarrow> br_deficit p)
           in if prev_deficit = m then
                (if overflow then if num_finished_sub_slots > 0 then prev_deficit - 1 else prev_deficit
                 else prev_deficit - 1)
              else if prev_deficit = 0 then
                (if num_finished_sub_slots = 0 then 0
                 else if num_finished_sub_slots = 1 then if overflow then m else m - 1
                 else m - 1)
              else prev_deficit - 1)"

section \<open>Rewards\<close>

definition BLOCKS_PER_YEAR :: u32 where "BLOCKS_PER_YEAR = 1681920"

definition calculate_pool_reward :: "u32 \<Rightarrow> u64" where
  "calculate_pool_reward h =
     (if h = 0 then (7000000000000 div 8) * 21000000
      else if h < 3 * BLOCKS_PER_YEAR then 7000000000000 div 4
      else if h < 6 * BLOCKS_PER_YEAR then 7000000000000 div 8
      else if h < 9 * BLOCKS_PER_YEAR then 7000000000000 div 16
      else if h < 12 * BLOCKS_PER_YEAR then 7000000000000 div 32
      else 7000000000000 div 64)"

definition calculate_base_farmer_reward :: "u32 \<Rightarrow> u64" where
  "calculate_base_farmer_reward h =
     (if h = 0 then (1000000000000 div 8) * 21000000
      else if h < 3 * BLOCKS_PER_YEAR then 1000000000000 div 4
      else if h < 6 * BLOCKS_PER_YEAR then 1000000000000 div 8
      else if h < 9 * BLOCKS_PER_YEAR then 1000000000000 div 16
      else if h < 12 * BLOCKS_PER_YEAR then 1000000000000 div 32
      else 1000000000000 div 64)"

text \<open>Coinbase parents: half of the genesis challenge, twelve zero bytes and the height.\<close>

definition pool_parent_id :: "u32 \<Rightarrow> bytes \<Rightarrow> bytes" where
  "pool_parent_id block_height genesis = take 16 genesis @ replicate 12 0 @ be_bytes 4 (unat block_height)"

definition farmer_parent_id :: "u32 \<Rightarrow> bytes \<Rightarrow> bytes" where
  "farmer_parent_id block_height genesis =
     take 16 (drop 16 genesis) @ replicate 12 0 @ be_bytes 4 (unat block_height)"

definition create_pool_coin :: "u32 \<Rightarrow> bytes \<Rightarrow> u64 \<Rightarrow> bytes \<Rightarrow> coin" where
  "create_pool_coin block_height ph amt genesis =
     \<lparr>parent_coin_info = pool_parent_id block_height genesis, puzzle_hash = ph, amount = amt\<rparr>"

definition create_farmer_coin :: "u32 \<Rightarrow> bytes \<Rightarrow> u64 \<Rightarrow> bytes \<Rightarrow> coin" where
  "create_farmer_coin block_height ph amt genesis =
     \<lparr>parent_coin_info = farmer_parent_id block_height genesis, puzzle_hash = ph, amount = amt\<rparr>"

section \<open>Signage and infusion points\<close>

lemma unat_num_sps: "unat (ucast (num_sps_sub_slot c) :: u64) = unat (num_sps_sub_slot c)"
  by simp

lemma sp_interval:
  assumes "calculate_sp_interval_iters c ssi = Inr i"
  shows "0 < unat (num_sps_sub_slot c)" "unat ssi = unat (num_sps_sub_slot c) * unat i"
proof -
  let ?n = "ucast (num_sps_sub_slot c) :: u64"
  from assms have n: "?n \<noteq> 0" "ssi mod ?n = 0" "i = ssi div ?n"
    by (auto simp: calculate_sp_interval_iters_def is_multiple_of_def split: if_splits)
  have nn: "unat ?n = unat (num_sps_sub_slot c)" by simp
  have "unat ?n \<noteq> 0" using n(1) by (simp add: unat_eq_zero del: unat_ucast_widen)
  then show "0 < unat (num_sps_sub_slot c)" by (simp only: nn)
  have "unat ssi mod unat ?n = 0" using n(2) by (metis unat_0 unat_mod)
  then have "unat ssi = unat ?n * (unat ssi div unat ?n)" using mult_div_mod_eq [of "unat ?n" "unat ssi"] by simp
  then show "unat ssi = unat (num_sps_sub_slot c) * unat i" by (simp only: n(3) unat_div nn)
qed

lemma sp_iters_value:
  assumes "calculate_sp_iters c ssi idx = Inr sp"
  obtains i where "calculate_sp_interval_iters c ssi = Inr i" "unat idx < unat (num_sps_sub_slot c)"
    "unat sp = unat i * unat idx"
proof -
  from assms obtain i where i: "calculate_sp_interval_iters c ssi = Inr i" "sp = i * ucast idx"
    and idx: "\<not> ucast idx \<ge> num_sps_sub_slot c"
    by (auto simp: calculate_sp_iters_def split: if_splits)
  have idx': "unat idx < unat (num_sps_sub_slot c)"
    using idx by (simp add: word_le_nat_alt)
  have "unat i * unat idx \<le> unat ssi"
    using sp_interval(2) [OF i(1)] idx' by simp
  also have "\<dots> < 2 ^ 64" using unsigned_less [of ssi, where ?'a = nat] by simp
  finally have "unat sp = unat i * unat idx" using i(2) by (simp add: unat_mult_small)
  with that i(1) idx' show ?thesis by blast
qed

lemma infusion_point:
  assumes "calculate_ip_iters c ssi idx req = Inr ip"
    and "calculate_sp_iters c ssi idx = Inr sp" and "is_overflow_block c idx = Inr ov"
    and "unat (num_sp_intervals_extra c) < unat (num_sps_sub_slot c)" and "unat ssi < 2 ^ 62"
  shows "unat ip + (if ov then unat ssi else 0) =
      unat sp + unat (num_sp_intervals_extra c) * (unat ssi div unat (num_sps_sub_slot c)) + unat req \<and>
    unat ip < unat ssi \<and> (ov \<longleftrightarrow> ip < sp)"
proof -
  let ?n = "unat (num_sps_sub_slot c)" and ?e = "unat (num_sp_intervals_extra c)"
  obtain i where i: "calculate_sp_interval_iters c ssi = Inr i" and idx: "unat idx < ?n" and sp: "unat sp = unat i * unat idx"
    using assms(2) by (rule sp_iters_value)
  note iv = sp_interval [OF i]
  have req: "unat req < unat i" "0 < unat req" and ssi: "ssi \<noteq> 0"
    and ip: "ip = (sp + num_sp_intervals_extra c * i + req) mod ssi"
    using assms(1,2) i
    by (auto simp: calculate_ip_iters_def word_le_nat_alt not_le unat_gt_0 split: if_splits)
  have div: "unat ssi div ?n = unat i" using iv by simp
  have sp': "unat sp < unat ssi" using idx req(1) iv(2) by (simp add: sp mult.commute)
  have lt: "?e * unat i + unat req < unat ssi"
  proof -
    have "(?e + 1) * unat i \<le> ?n * unat i" using assms(4) by (intro mult_right_mono) simp_all
    with req(1) iv(2) show ?thesis by simp
  qed
  have small: "unat sp + ?e * unat i + unat req < 2 ^ 64" using lt sp' assms(5) by simp
  then have "unat (num_sp_intervals_extra c * i) = ?e * unat i" by (intro unat_mult_small) simp
  moreover from this small have "unat (sp + num_sp_intervals_extra c * i) = unat sp + ?e * unat i"
    by (subst unat_add_small) simp_all
  ultimately have sum: "unat (sp + num_sp_intervals_extra c * i + req) = unat sp + ?e * unat i + unat req"
    using small by (subst unat_add_small) simp_all
  have ov: "ov \<longleftrightarrow> ?n \<le> unat idx + ?e"
    using assms(3,4) by (auto simp: is_overflow_block_def word_le_nat_alt unat_sub split: if_splits)
  have prod: "unat sp + ?e * unat i = (unat idx + ?e) * unat i" by (simp add: sp algebra_simps)
  have ipn: "unat ip = (unat sp + ?e * unat i + unat req) mod unat ssi" by (simp add: ip unat_mod sum)
  show ?thesis
  proof (cases ov)
    case True
    then have "?n * unat i \<le> (unat idx + ?e) * unat i" using ov by (intro mult_right_mono) simp_all
    then have ge: "unat ssi \<le> unat sp + ?e * unat i + unat req" using prod iv(2) by linarith
    then have "unat ip = unat sp + ?e * unat i + unat req - unat ssi"
      using ipn lt sp' by (simp add: mod_if [of "_ - _"] le_mod_geq)
    with True ge lt sp' div show ?thesis by (simp add: word_less_nat_alt, intro conjI; linarith)
  next
    case False
    then have "(unat idx + ?e + 1) * unat i \<le> ?n * unat i" using ov by (intro mult_right_mono) simp_all
    then have "unat sp + ?e * unat i + unat req < unat ssi" using prod iv(2) req(1) by (simp add: algebra_simps)
    with ipn False div show ?thesis by (simp add: word_less_nat_alt)
  qed
qed


text \<open>
  C17: the infusion point lies the extra intervals and the required iterations after the signage
  point, taken modulo the sub-slot; and the block is an overflow block exactly when this runs into
  the next sub-slot. The bound keeps the source's sum below \<open>2 ^ 64\<close>.
\<close>

theorem overflow_is_wraparound:
  assumes "calculate_ip_iters c ssi idx req = Inr ip"
    and "calculate_sp_iters c ssi idx = Inr sp" and "is_overflow_block c idx = Inr ov"
    and "unat (num_sp_intervals_extra c) < unat (num_sps_sub_slot c)" and "unat ssi < 2 ^ 62"
  shows "unat ip + (if ov then unat ssi else 0) =
      unat sp + unat (num_sp_intervals_extra c) * (unat ssi div unat (num_sps_sub_slot c)) + unat req \<and>
    unat ip < unat ssi \<and> (ov \<longleftrightarrow> ip < sp)"
  using assms by (rule infusion_point)

lemma overflow_is_wraparound_witness:
  "unat (107 :: u64) + 6400 = unat (6200 :: u64) + unat (num_sp_intervals_extra MAINNET) * (6400 div 64) + unat (7 :: u64)"
proof -
  have "calculate_ip_iters MAINNET 6400 62 7 = Inr 107" "calculate_sp_iters MAINNET 6400 62 = Inr 6200"
    "is_overflow_block MAINNET 62 = Inr True"
    by (simp_all add: calculate_ip_iters_def calculate_sp_iters_def calculate_sp_interval_iters_def
        is_multiple_of_def is_overflow_block_def MAINNET_def)
  from overflow_is_wraparound [OF this] show ?thesis by (simp add: MAINNET_def)
qed

text \<open>
  For a record whose overflow flag agrees with its signage point, the total iterations at the
  signage point are exactly the extra intervals and the required iterations before the total
  iterations at infusion, in both the plain and the overflow case.
\<close>

lemma sp_total_iters_distance:
  assumes "sp_total_iters c r = Inr t"
    and "is_overflow_block c (br_signage_point_index r) = Inr (br_overflow r)"
    and "unat (num_sp_intervals_extra c) < unat (num_sps_sub_slot c)" and "unat (br_sub_slot_iters r) < 2 ^ 62"
  shows "unat (br_total_iters r) =
    unat t + unat (num_sp_intervals_extra c) * (unat (br_sub_slot_iters r) div unat (num_sps_sub_slot c))
      + unat (br_required_iters r)"
proof -
  from assms(1) obtain start sp where start: "sp_sub_slot_total_iters c r = Inr start"
    and sp: "calculate_sp_iters c (br_sub_slot_iters r) (br_signage_point_index r) = Inr sp"
    and t: "checked_add start (ucast sp) = Some t"
    by (auto simp: sp_total_iters_def sp_iters_def)
  from start obtain ip ret where
    ip: "calculate_ip_iters c (br_sub_slot_iters r) (br_signage_point_index r) (br_required_iters r) = Inr ip"
    and ret: "checked_sub (br_total_iters r) (ucast ip) = Some ret"
    and st: "(if br_overflow r then checked_sub ret (ucast (br_sub_slot_iters r)) else Some ret) = Some start"
    by (auto simp: sp_sub_slot_total_iters_def ip_sub_slot_total_iters_def ip_iters_def split: if_splits)
  have T: "unat t = unat start + unat sp"
    using t by (auto simp: checked_add_def unat_add_small split: if_splits)
  have R: "unat ret + unat ip = unat (br_total_iters r)" using checked_sub_Some [OF ret] by simp
  have S: "unat start + (if br_overflow r then unat (br_sub_slot_iters r) else 0) = unat ret"
    using st by (auto dest!: checked_sub_Some split: if_splits)
  from infusion_point [OF ip sp assms(2-4)] T R S show ?thesis by (auto split: if_splits)
qed


lemma sp_total_iters_distance_witness:
  "\<exists>r t. br_overflow r \<and> sp_total_iters MAINNET r = Inr t \<and> unat (br_total_iters r) = unat t + 307"
proof -
  define r where "r = (undefined :: block_record)\<lparr>br_total_iters := 100107, br_signage_point_index := 62,
     br_sub_slot_iters := 6400, br_required_iters := 7, br_overflow := True\<rparr>"
  have "sp_total_iters MAINNET r = Inr 99800" "is_overflow_block MAINNET (br_signage_point_index r) = Inr (br_overflow r)"
    by (simp_all add: r_def sp_total_iters_def sp_sub_slot_total_iters_def ip_sub_slot_total_iters_def ip_iters_def
        sp_iters_def calculate_ip_iters_def calculate_sp_iters_def calculate_sp_interval_iters_def checked_sub_def
        checked_add_def is_multiple_of_def is_overflow_block_def MAINNET_def)
  from this(1) sp_total_iters_distance [OF this] show ?thesis
    by (intro exI [of _ r]) (simp add: r_def MAINNET_def)
qed

section \<open>Deficit\<close>



section \<open>Rewards\<close>

lemmas reward_defs = calculate_pool_reward_def calculate_base_farmer_reward_def BLOCKS_PER_YEAR_def

text \<open>
  At every height the pool reward is exactly seven times the base farmer reward, both stay in
  \<open>u64\<close>, and after the genesis block neither ever grows with the height.
\<close>

lemma reward_schedule:
  "unat (calculate_pool_reward h) = 7 * unat (calculate_base_farmer_reward h) \<and>
   (0 < h \<and> h \<le> h' \<longrightarrow> calculate_pool_reward h' \<le> calculate_pool_reward h \<and>
      calculate_base_farmer_reward h' \<le> calculate_base_farmer_reward h)"
proof
  show "unat (calculate_pool_reward h) = 7 * unat (calculate_base_farmer_reward h)"
    by (simp add: reward_defs)
  show "0 < h \<and> h \<le> h' \<longrightarrow> calculate_pool_reward h' \<le> calculate_pool_reward h \<and>
      calculate_base_farmer_reward h' \<le> calculate_base_farmer_reward h"
    by (auto simp: reward_defs word_less_nat_alt word_le_nat_alt)
qed

lemma reward_schedule_witness:
  "calculate_pool_reward 10000000 \<le> calculate_pool_reward 1"
  using reward_schedule [of 1 10000000] by simp

text \<open>
  Coinbase parents identify the height: two pool parents (and two farmer parents) of one chain
  are equal only at the same height. A pool parent equals a farmer parent only if the height is the
  same and the two halves of the genesis challenge are, which they are not on mainnet.
\<close>

lemma coinbase_parents:
  assumes "length g = 32"
  shows "(pool_parent_id h g = pool_parent_id h' g \<longleftrightarrow> h = h') \<and>
    (farmer_parent_id h g = farmer_parent_id h' g \<longleftrightarrow> h = h') \<and>
    (pool_parent_id h g = farmer_parent_id h' g \<longleftrightarrow> h = h' \<and> take 16 g = drop 16 g)"
proof -
  have inj: "be_bytes 4 (unat x) = be_bytes 4 (unat y) \<longleftrightarrow> x = y" for x y :: u32
  proof
    assume "be_bytes 4 (unat x) = be_bytes 4 (unat y)"
    then have "be_nat (be_bytes 4 (unat x)) = be_nat (be_bytes 4 (unat y))" by simp
    moreover have "unat w < 256 ^ 4" for w :: u32 using unsigned_less [of w, where ?'a = nat] by simp
    ultimately show "x = y" by (simp only: be_nat_be_bytes mod_less) (simp add: word_unat_eq_iff)
  qed simp
  have "take 16 (drop 16 g) = drop 16 g" using assms by simp
  with assms show ?thesis by (auto simp: pool_parent_id_def farmer_parent_id_def inj)
qed

lemma coinbase_parents_witness:
  "pool_parent_id 5 (genesis_challenge MAINNET) \<noteq> farmer_parent_id 5 (genesis_challenge MAINNET)"
proof -
  define v :: nat where "v = 0xccd5bb71183532bff220ba46c268991a3ff07eb358e8255a65c30a2dce0e5fbb"
  have g: "genesis_challenge MAINNET = be_bytes 32 v" by (simp add: MAINNET_def v_def)
  have "hd (take 16 (be_bytes 32 v)) = 0xcc" by (simp add: be_bytes_numeral v_def)
  moreover have "hd (drop 16 (be_bytes 32 v)) = 0x3f"
    by (simp add: drop_be_bytes [of 16 16, simplified]) (simp add: be_bytes_numeral v_def)
  ultimately have "hd (take 16 (be_bytes 32 v)) \<noteq> hd (drop 16 (be_bytes 32 v))" by simp
  then have "take 16 (be_bytes 32 v) \<noteq> drop 16 (be_bytes 32 v)" by metis
  then show ?thesis using coinbase_parents [of "be_bytes 32 v" 5 5] by (simp add: g)
qed

lemma challenge_halves:
  assumes "length (genesis_challenge c) = 32"
  shows "get_pool_reward_prefix c = pool_parent_id 0 (genesis_challenge c)"
    and "get_farmer_reward_prefix c = farmer_parent_id 0 (genesis_challenge c)"
proof -
  have fold: "foldl (\<lambda>buf i. buf[i := f i]) (replicate 32 0) [0..<n] = map f [0..<n] @ replicate (32 - n) 0"
    if "n \<le> 32" for n and f :: "nat \<Rightarrow> byte"
    using that
  proof (induction n)
    case (Suc n)
    then have "replicate (32 - n) 0 = (0::byte) # replicate (32 - Suc n) 0"
      by (simp flip: replicate_Suc add: Suc_diff_Suc)
    with Suc show ?case by (simp add: list_update_append)
  qed simp
  have pad: "replicate 16 0 = replicate 12 (0::byte) @ be_bytes 4 (unat (0::u32))"
    by (simp add: be_bytes_zero flip: replicate_add)
  have "map (\<lambda>i. genesis_challenge c ! i) [0..<16] = take 16 (genesis_challenge c)"
    and "map (\<lambda>i. genesis_challenge c ! (i + 16)) [0..<16] = take 16 (drop 16 (genesis_challenge c))"
    using assms by (auto intro!: nth_equalityI simp: add.commute)
  then show "get_pool_reward_prefix c = pool_parent_id 0 (genesis_challenge c)"
    and "get_farmer_reward_prefix c = farmer_parent_id 0 (genesis_challenge c)"
    using fold [of 16 "\<lambda>i. genesis_challenge c ! i"] fold [of 16 "\<lambda>i. genesis_challenge c ! (i + 16)"] pad
    by (simp_all add: get_pool_reward_prefix_def get_farmer_reward_prefix_def pool_parent_id_def
        farmer_parent_id_def)
qed

text \<open>
  The reward-prefix table holds, for every network, the pool and the farmer parent of height 0, so a
  coinbase parent of any height agrees with the table in all but its last four bytes.
\<close>

lemma reward_prefix_table:
  "let g = genesis_challenge (constants_from_network n);
       entry = FARMER_REWARD_PREFIXES ! network_discriminant n
   in entry = (pool_parent_id 0 g, farmer_parent_id 0 g) \<and>
      take 28 (pool_parent_id h g) = take 28 (fst entry) \<and>
      take 28 (farmer_parent_id h g) = take 28 (snd entry)"
proof -
  have g: "length (genesis_challenge (constants_from_network n)) = 32"
    by (cases n) (simp_all add: constants_from_network_def network_constants)
  have e: "FARMER_REWARD_PREFIXES ! network_discriminant n =
      (get_pool_reward_prefix (constants_from_network n), get_farmer_reward_prefix (constants_from_network n))"
    by (cases n) (simp_all add: FARMER_REWARD_PREFIXES_def network_discriminant_def constants_from_network_def)
  show ?thesis
    using g by (simp add: e challenge_halves Let_def pool_parent_id_def farmer_parent_id_def)
qed

section \<open>The quality lottery\<close>

lemma quality_iters_value:
  assumes "plot_size \<noteq> 0"
  shows "\<exists>n. quality_iters H factor q plot_size d cc = Inr n \<and>
    unat n = max 1 (min (2 ^ 64 - 1) (unat d * unat factor * be_nat (H (q @ cc)) div (2 ^ 256 * unat plot_size)))"
proof -
  let ?x = "unat d * unat factor * be_nat (H (q @ cc)) div (2 ^ 256 * unat plot_size)"
  have b: "2 ^ 256 * unat plot_size \<noteq> 0" using assms by (simp add: unat_eq_zero)
  show ?thesis
  proof (cases "?x > 2 ^ 64 - 1")
    case True
    have "unat (- 1 :: u64) = 2 ^ 64 - 1" by (simp add: unsigned_minus_1_eq_mask mask_eq_exp_minus_1)
    with True b show ?thesis by (simp add: quality_iters_def Let_def)
  next
    case False
    then have u: "unat (of_nat ?x :: u64) = ?x" by (simp add: unat_of_nat)
    have "unat (max 1 (of_nat ?x) :: u64) = max 1 ?x"
      using u by (simp add: max_def word_le_nat_alt)
    with False b show ?thesis by (auto simp: quality_iters_def Let_def)
  qed
qed


lemma expected_plot_size_value:
  assumes "1 \<le> unat k" "unat k \<le> 57"
  shows "unat (expected_plot_size k) = (2 * unat k + 1) * 2 ^ (unat k - 1)"
proof -
  let ?k = "unat k"
  have k0: "k \<noteq> 0" using assms(1) by auto
  have "(2::nat) ^ (?k - 1) \<le> 2 ^ 56" using assms by (intro power_increasing) simp_all
  moreover have "2 * ?k + 1 \<le> 115" using assms(2) by simp
  ultimately have b: "(2 * ?k + 1) * 2 ^ (?k - 1) \<le> 115 * 2 ^ 56" by (rule mult_le_mono [rotated])
  have p: "unat (push_bit (?k - 1) 1 :: u64) = 2 ^ (?k - 1)"
  proof -
    have "unat (of_nat n :: u64) = n" if "n < 2 ^ 64" for n using that by (simp add: unat_of_nat)
    from this [of "2 ^ (?k - 1)"] \<open>2 ^ (?k - 1) \<le> 2 ^ 56\<close> show ?thesis by (simp add: push_bit_of_1)
  qed
  have l: "unat (2 * ucast k + 1 :: u64) = 2 * ?k + 1"
    using assms(2) by (simp add: unat_word_ariths)
  have "unat ((2 * ucast k + 1) * push_bit (?k - 1) 1 :: u64) = (2 * ?k + 1) * 2 ^ (?k - 1)"
    using b by (subst unat_mult_small) (simp_all only: l p, simp_all)
  then show ?thesis using k0 by (simp only: expected_plot_size_def if_False)
qed

text \<open>
  For plots of size \<open>k\<close> from 1 to 57 the required iterations are defined and at least one, and
  they do not decrease when the difficulty rises.
\<close>

lemma iterations_quality_monotone:
  assumes "1 \<le> unat k" and "unat k \<le> 57" and "d \<le> d'"
  shows "\<exists>n n'. calculate_iterations_quality H factor q k d cc = Inr n \<and>
    calculate_iterations_quality H factor q k d' cc = Inr n' \<and> 1 \<le> n \<and> n \<le> n'"
proof -
  have "unat (expected_plot_size k) \<noteq> 0" using expected_plot_size_value [OF assms(1,2)] by simp
  then have s: "expected_plot_size k \<noteq> 0" by auto
  let ?v = "\<lambda>d. max 1 (min (2 ^ 64 - 1) (unat d * unat factor * be_nat (H (q @ cc)) div (2 ^ 256 * unat (expected_plot_size k))))"
  obtain n where n: "calculate_iterations_quality H factor q k d cc = Inr n" "unat n = ?v d"
    using quality_iters_value [OF s, of H factor q d cc] by (auto simp: calculate_iterations_quality_def)
  obtain n' where n': "calculate_iterations_quality H factor q k d' cc = Inr n'" "unat n' = ?v d'"
    using quality_iters_value [OF s, of H factor q d' cc] by (auto simp: calculate_iterations_quality_def)
  have "unat d * unat factor * be_nat (H (q @ cc)) \<le> unat d' * unat factor * be_nat (H (q @ cc))"
    using assms(3) by (intro mult_le_mono) (simp_all add: word_le_nat_alt)
  then have "?v d \<le> ?v d'" by (intro max.mono min.mono div_le_mono) simp_all
  then have "n \<le> n'" using n(2) n'(2) by (simp only: word_le_nat_alt)
  moreover have "1 \<le> unat n" unfolding n(2) by (rule max.cobounded1)
  then have "1 \<le> n" by (simp add: word_le_nat_alt)
  ultimately show ?thesis using n(1) n'(1) by blast
qed

lemma iterations_quality_monotone_witness:
  "\<exists>n n'. calculate_iterations_quality (\<lambda>_. replicate 32 1) (2 ^ 67) [] 32 7 [] = Inr n \<and>
    calculate_iterations_quality (\<lambda>_. replicate 32 1) (2 ^ 67) [] 32 8 [] = Inr n' \<and> 1 \<le> n \<and> n \<le> n'"
  by (rule iterations_quality_monotone) (simp_all add: word_le_nat_alt)

end
