(* ===== verification/Difficulty.thy ===== *)
theory Difficulty
  imports Consensus
begin

text \<open>
  Epoch-boundary retargeting, \<^verbatim>\<open>core/src/consensus/difficulty_adjustment.rs\<close>, and the ancestor walks of
  \<^verbatim>\<open>get_block_challenge.rs\<close>. Walks follow \<^verbatim>\<open>prev_hash\<close> through the block map; nothing in the code bounds
  them, so they are partial functions whose value is \<open>None\<close> when they do not end.
\<close>

section \<open>Significant bits\<close>

text \<open>\<^verbatim>\<open>128 - leading_zeros\<close>: the position after the highest set bit.\<close>

definition bit_length128 :: "u128 \<Rightarrow> nat" where
  "bit_length128 v = 128 - length (takeWhile (\<lambda>i. \<not> bit v i) (rev [0..<128]))"

definition trailing_zeros128 :: "u128 \<Rightarrow> nat" where
  "trailing_zeros128 v = length (takeWhile (\<lambda>i. \<not> bit v i) [0..<128])"

text \<open>A shift by 128 (no significant bits asked of a full-width value) is masked to a shift by 0.\<close>

definition truncate_to_significant_bits :: "u128 \<Rightarrow> u64 \<Rightarrow> u128" where
  "truncate_to_significant_bits v num_significant_bits =
     (if unat num_significant_bits \<ge> bit_length128 v then v
      else let lower = (bit_length128 v - unat num_significant_bits) mod 128
        in push_bit lower (drop_bit lower v))"

definition count_significant_bits :: "u128 \<Rightarrow> nat" where
  "count_significant_bits v = (if v = 0 then 0 else bit_length128 v - trailing_zeros128 v)"

section \<open>Walking back\<close>

definition get_block :: "block_map \<Rightarrow> bytes \<Rightarrow> consensus_error + block_record" where
  "get_block blocks h = ok_or (blocks h) (Missing h)"

text \<open>\<^verbatim>\<open>while cond(curr) { curr = blocks.get(&curr.prev_hash)? }\<close>\<close>

partial_function (option) walk_while ::
    "block_map \<Rightarrow> (block_record \<Rightarrow> bool) \<Rightarrow> block_record \<Rightarrow> (consensus_error + block_record) option" where
  "walk_while blocks cond b =
     (if cond b then
        (case get_block blocks (br_prev_hash b) of
           Inl e \<Rightarrow> Some (Inl e)
         | Inr p \<Rightarrow> walk_while blocks cond p)
      else Some (Inr b))"

section \<open>Epoch boundaries\<close>

definition height_can_be_first_in_epoch :: "consensus_constants \<Rightarrow> u32 \<Rightarrow> consensus_error + bool" where
  "height_can_be_first_in_epoch c h =
     bind_res (mod_res h (sub_epoch_blocks c)) (\<lambda>r. Inr (is_multiple_of (h - r) (epoch_blocks c)))"

text \<open>The walk of \<^verbatim>\<open>can_finish_sub_and_full_epoch\<close>: whether a summary is met before the sub-epoch starts.\<close>

partial_function (option) summary_since_boundary ::
    "consensus_constants \<Rightarrow> block_map \<Rightarrow> block_record \<Rightarrow> (consensus_error + bool) option" where
  "summary_since_boundary c blocks b =
     (if br_height b mod sub_epoch_blocks c > 0 then
        if is_some (br_sub_epoch_summary_included b) then Some (Inr True)
        else (case get_block blocks (br_prev_hash b) of
                Inl e \<Rightarrow> Some (Inl e)
              | Inr p \<Rightarrow> summary_since_boundary c blocks p)
      else Some (Inr (is_some (br_sub_epoch_summary_included b))))"

definition can_finish_sub_and_full_epoch ::
    "consensus_constants \<Rightarrow> block_map \<Rightarrow> u32 \<Rightarrow> bytes \<Rightarrow> u8 \<Rightarrow> bool \<Rightarrow>
     (consensus_error + bool \<times> bool) option" where
  "can_finish_sub_and_full_epoch c blocks h prev_header_hash deficit included_ses =
     (if h < sub_epoch_blocks c - 1 then Some (Inr (False, False))
      else if deficit > 0 then Some (Inr (False, False))
      else if included_ses then Some (Inr (False, False))
      else bind_opt (Some (mod_res (h + 1) (sub_epoch_blocks c))) (\<lambda>r.
        bind_opt
          (if r > 1 then
             bind_opt (Some (get_block blocks prev_header_hash)) (\<lambda>b. summary_since_boundary c blocks b)
           else Some (Inr False)) (\<lambda>found.
        if found then Some (Inr (False, False))
        else bind_opt (Some (height_can_be_first_in_epoch c (h + 1))) (\<lambda>full.
          Some (Inr (True, full))))))"

section \<open>The previous epoch's reference block\<close>

text \<open>The ancestors of \<^verbatim>\<open>last_b\<close> by height, down to the first one below the surpass height.\<close>

partial_function (option) ancestors_by_height ::
    "block_map \<Rightarrow> u32 \<Rightarrow> block_record \<Rightarrow> (u32 \<rightharpoonup> block_record) \<Rightarrow>
     (consensus_error + (u32 \<rightharpoonup> block_record)) option" where
  "ancestors_by_height blocks surpass b by_height =
     (if br_height b < surpass then Some (Inr (by_height(br_height b \<mapsto> b)))
      else (case get_block blocks (br_prev_hash b) of
              Inl e \<Rightarrow> Some (Inl e)
            | Inr p \<Rightarrow> ancestors_by_height blocks surpass p (by_height(br_height b \<mapsto> b))))"

text \<open>The upward scan for the block that includes the previous epoch's summary.\<close>

partial_function (option) summary_height ::
    "(u32 \<rightharpoonup> block_record) \<Rightarrow> u32 \<Rightarrow> (consensus_error + u32) option" where
  "summary_height by_height next_height =
     (case by_height next_height of
        None \<Rightarrow> Some (Inl (InvalidDataError
                  ''previous-epoch sub-epoch-summary block not found in ancestor window''))
      | Some b \<Rightarrow> if is_some (br_sub_epoch_summary_included b) then Some (Inr next_height)
                 else summary_height by_height (next_height + 1))"

text \<open>The downward walk to the second transaction block.\<close>

partial_function (option) second_tx_block ::
    "block_map \<Rightarrow> block_record \<Rightarrow> u8 \<Rightarrow> (consensus_error + block_record) option" where
  "second_tx_block blocks b found_tx_block =
     (if found_tx_block < 2 then
        (case get_block blocks (br_prev_hash b) of
           Inl e \<Rightarrow> Some (Inl e)
         | Inr p \<Rightarrow> second_tx_block blocks p
                     (if is_transaction_block p then found_tx_block + 1 else found_tx_block))
      else Some (Inr b))"

definition height_in_next_epoch :: "consensus_constants \<Rightarrow> u32 \<Rightarrow> u32" where
  "height_in_next_epoch c h =
     h + 2 * max_sub_slot_blocks c + ucast (min_blocks_per_challenge_block c) + 5"

definition get_second_to_last_transaction_block_in_previous_epoch ::
    "consensus_constants \<Rightarrow> block_map \<Rightarrow> block_record \<Rightarrow> (consensus_error + block_record) option" where
  "get_second_to_last_transaction_block_in_previous_epoch c blocks last_b =
     (let next = height_in_next_epoch c (br_height last_b)
      in bind_opt (Some (mod_res next (epoch_blocks c))) (\<lambda>r.
         let surpass = next - r; prev_surpass = surpass - epoch_blocks c
         in if next - surpass \<ge> 5 * max_sub_slot_blocks c
            then Some (Inl (InvalidDataError ''height_in_next_epoch too far past the epoch boundary''))
            else if prev_surpass = 0 then walk_while blocks (\<lambda>b. br_height b > 0) last_b
            else
              bind_opt (ancestors_by_height blocks prev_surpass last_b Map.empty) (\<lambda>by_height.
              bind_opt (summary_height by_height prev_surpass) (\<lambda>next_height.
              bind_opt (Some (ok_or (by_height (next_height - 1))
                (InvalidDataError ''block before previous-epoch sub-epoch-summary block missing''))) (\<lambda>b.
              second_tx_block blocks b (if is_transaction_block b then 1 else 0))))))"

section \<open>Retargeting\<close>

text \<open>\<^verbatim>\<open>checked_sub(..).filter(|t| *t > 0)\<close> on the two timestamps.\<close>

definition epoch_time ::
    "block_record \<Rightarrow> block_record \<Rightarrow> string \<Rightarrow> consensus_error + u64" where
  "epoch_time last_block_curr last_block_prev msg =
     bind_res (ok_or (br_timestamp last_block_curr) (InvalidDataError ''last_block_curr has no timestamp'')) (\<lambda>curr_ts.
     bind_res (ok_or (br_timestamp last_block_prev) (InvalidDataError ''last_block_prev has no timestamp'')) (\<lambda>prev_ts.
       case checked_sub curr_ts prev_ts of
         None \<Rightarrow> Inl (InvalidDataError msg)
       | Some t \<Rightarrow> if t > 0 then Inr t else Inl (InvalidDataError msg)))"

definition before_signage_point :: "u128 \<Rightarrow> block_record \<Rightarrow> bool" where
  "before_signage_point sp_iters_total b =
     (br_total_iters b > sp_iters_total \<or> \<not> is_transaction_block b)"

text \<open>The arithmetic of \<^verbatim>\<open>get_next_difficulty\<close> once its reference blocks are found.\<close>

definition clamp_difficulty :: "consensus_constants \<Rightarrow> u64 \<Rightarrow> u128 \<Rightarrow> consensus_error + u128" where
  "clamp_difficulty c old_difficulty precise =
     bind_res (div_res (ucast old_difficulty) (ucast (difficulty_change_max_factor c))) (\<lambda>min_diff.
       let max_diff = ucast (difficulty_change_max_factor c) * ucast old_difficulty
       in Inr (if precise \<ge> ucast old_difficulty then min precise max_diff
               else max (max precise 1) min_diff))"

definition retarget_difficulty ::
    "consensus_constants \<Rightarrow> u64 \<Rightarrow> u128 \<Rightarrow> u64 \<Rightarrow> consensus_error + u64" where
  "retarget_difficulty c old_difficulty weight_delta actual_epoch_time =
     bind_res (div_res (weight_delta * ucast (sub_slot_time_target c))
                (ucast (slot_blocks_target c) * ucast actual_epoch_time)) (\<lambda>precise.
     bind_res (clamp_difficulty c old_difficulty precise) (\<lambda>clamped.
       ok_or (try_narrow (truncate_to_significant_bits clamped (significant_bits c)))
         (InvalidDataError ''new difficulty exceeds u64'')))"

definition get_next_difficulty ::
    "consensus_constants \<Rightarrow> block_map \<Rightarrow> bytes \<Rightarrow> u32 \<Rightarrow> u64 \<Rightarrow> u8 \<Rightarrow> bool \<Rightarrow> bool \<Rightarrow> u128 \<Rightarrow>
     (consensus_error + u64) option" where
  "get_next_difficulty c blocks prev_header_hash h current_difficulty deficit included_ses new_slot sp_total =
     (if h + 1 < epoch_blocks c - 3 * max_sub_slot_blocks c then Some (Inr (difficulty_starting c))
      else bind_opt (Some (get_block blocks prev_header_hash)) (\<lambda>prev_b.
        bind_opt (can_finish_sub_and_full_epoch c blocks h prev_header_hash deficit included_ses)
          (\<lambda>(_, can_finish_epoch).
        if \<not> new_slot \<or> \<not> can_finish_epoch then Some (Inr current_difficulty)
        else
          bind_opt (get_second_to_last_transaction_block_in_previous_epoch c blocks prev_b) (\<lambda>last_block_prev.
          bind_opt (walk_while blocks (before_signage_point sp_total) prev_b) (\<lambda>last_block_curr.
          bind_opt (Some (epoch_time last_block_curr last_block_prev ''non-positive actual epoch time'')) (\<lambda>t.
          bind_opt (Some (get_block blocks (br_prev_hash prev_b))) (\<lambda>prev_prev.
          bind_opt (Some (ok_or (try_narrow (br_weight prev_b - br_weight prev_prev))
            (InvalidDataError ''old difficulty exceeds u64''))) (\<lambda>old_difficulty.
          Some (retarget_difficulty c old_difficulty
            (br_weight last_block_curr - br_weight last_block_prev) t))))))))) "

definition clamp_sub_slot_iters :: "consensus_constants \<Rightarrow> u128 \<Rightarrow> u128 \<Rightarrow> consensus_error + u128" where
  "clamp_sub_slot_iters c curr_ssi precise =
     bind_res (div_res curr_ssi (ucast (difficulty_change_max_factor c))) (\<lambda>min_ssi.
       let max_ssi = ucast (difficulty_change_max_factor c) * curr_ssi
       in Inr (if precise \<ge> curr_ssi then min precise max_ssi
               else max (max precise (ucast (num_sps_sub_slot c))) min_ssi))"

definition retarget_sub_slot_iters ::
    "consensus_constants \<Rightarrow> u64 \<Rightarrow> u128 \<Rightarrow> u64 \<Rightarrow> consensus_error + u64" where
  "retarget_sub_slot_iters c curr_ssi iters_delta block_time =
     bind_res (div_res (ucast (sub_slot_time_target c) * iters_delta) (ucast block_time)) (\<lambda>precise.
     bind_res (clamp_sub_slot_iters c (ucast curr_ssi) precise) (\<lambda>clamped.
     let truncated = truncate_to_significant_bits clamped (significant_bits c)
     in bind_res (mod_res truncated (ucast (num_sps_sub_slot c))) (\<lambda>r.
       ok_or (try_narrow (truncated - r)) (InvalidDataError ''new sub_slot_iters exceeds u64''))))"

definition get_next_sub_slot_iters ::
    "consensus_constants \<Rightarrow> block_map \<Rightarrow> bytes \<Rightarrow> u32 \<Rightarrow> u64 \<Rightarrow> u8 \<Rightarrow> bool \<Rightarrow> bool \<Rightarrow> u128 \<Rightarrow>
     (consensus_error + u64) option" where
  "get_next_sub_slot_iters c blocks prev_header_hash h curr_sub_slot_iters deficit included_ses new_slot sp_total =
     (if h + 1 < epoch_blocks c then Some (Inr (sub_slot_iters_starting c))
      else bind_opt (Some (get_block blocks prev_header_hash)) (\<lambda>prev_b.
        bind_opt (can_finish_sub_and_full_epoch c blocks h prev_header_hash deficit included_ses)
          (\<lambda>(_, can_finish_epoch).
        if \<not> new_slot \<or> \<not> can_finish_epoch then Some (Inr curr_sub_slot_iters)
        else
          bind_opt (get_second_to_last_transaction_block_in_previous_epoch c blocks prev_b) (\<lambda>last_block_prev.
          bind_opt (walk_while blocks (before_signage_point sp_total) prev_b) (\<lambda>last_block_curr.
          bind_opt (Some (epoch_time last_block_curr last_block_prev ''non-positive block time'')) (\<lambda>t.
          Some (retarget_sub_slot_iters c (br_sub_slot_iters last_block_curr)
            (br_total_iters last_block_curr - br_total_iters last_block_prev) t)))))))"

definition previous_difficulty :: "block_map \<Rightarrow> block_record \<Rightarrow> consensus_error + u64" where
  "previous_difficulty blocks prev_b =
     (if br_height prev_b \<noteq> 0 then
        bind_res (get_block blocks (br_prev_hash prev_b)) (\<lambda>prev_prev.
          ok_or (try_narrow (br_weight prev_b - br_weight prev_prev))
            (InvalidDataError ''previous difficulty exceeds u64''))
      else ok_or (try_narrow (br_weight prev_b)) (InvalidDataError ''genesis weight exceeds u64''))"

definition get_next_sub_slot_iters_and_difficulty ::
    "consensus_constants \<Rightarrow> bool \<Rightarrow> block_record option \<Rightarrow> block_map \<Rightarrow>
     (consensus_error + u64 \<times> u64) option" where
  "get_next_sub_slot_iters_and_difficulty c is_first_in_sub_slot prev blocks =
     (case prev of
        None \<Rightarrow> Some (Inr (sub_slot_iters_starting c, difficulty_starting c))
      | Some prev_b \<Rightarrow>
          bind_opt (Some (previous_difficulty blocks prev_b)) (\<lambda>prev_difficulty.
          if is_some (br_sub_epoch_summary_included prev_b)
          then Some (Inr (br_sub_slot_iters prev_b, prev_difficulty))
          else
            bind_opt (Some (sp_total_iters c prev_b)) (\<lambda>sp_total.
            bind_opt (get_next_difficulty c blocks (br_prev_hash prev_b) (br_height prev_b) prev_difficulty
              (br_deficit prev_b) False is_first_in_sub_slot sp_total) (\<lambda>difficulty.
            bind_opt (get_next_sub_slot_iters c blocks (br_prev_hash prev_b) (br_height prev_b)
              (br_sub_slot_iters prev_b) (br_deficit prev_b) False is_first_in_sub_slot sp_total) (\<lambda>ssi.
            Some (Inr (ssi, difficulty)))))))"

section \<open>How deep the walks reach\<close>

definition consensus_walk_window :: "consensus_constants \<Rightarrow> u64" where
  "consensus_walk_window c = ucast (epoch_blocks c + sub_epoch_blocks c + 6 * max_sub_slot_blocks c)"

definition difficulty_record_depth :: "consensus_constants \<Rightarrow> u32 \<Rightarrow> consensus_error + u32" where
  "difficulty_record_depth c prev_height =
     bind_res (mod_res prev_height (sub_epoch_blocks c)) (\<lambda>r.
     bind_res (height_can_be_first_in_epoch c (saturating_add prev_height 1)) (\<lambda>turn.
     let boundary = prev_height - r
     in bind_res
          (if turn then
             let next = height_in_next_epoch c prev_height
             in bind_res (mod_res next (epoch_blocks c)) (\<lambda>r'.
                  Inr (min boundary (saturating_sub (next - r') (epoch_blocks c))))
           else Inr boundary) (\<lambda>lowest.
        Inr (saturating_add
          (prev_height - saturating_sub lowest (4 * max_sub_slot_blocks c)) 1))))"

section \<open>Challenges and the block before the signage point\<close>

text \<open>
  Of a finished sub-slot the code reads the hash of its challenge chain, computed by the block types'
  serialization, and the challenge of its end-of-slot VDF.
\<close>

record finished_slot =
  challenge_chain_hash :: "consensus_error + bytes"
  end_of_slot_challenge :: bytes

partial_function (option) collect_challenges ::
    "block_map \<Rightarrow> nat \<Rightarrow> block_record \<Rightarrow> bytes list \<Rightarrow> (consensus_error + bytes list) option" where
  "collect_challenges blocks wanted b rev_hashes =
     (if length rev_hashes < wanted then
        let rev_hashes' = (case br_finished_challenge_slot_hashes b of
              Some hashes \<Rightarrow> rev_hashes @ rev hashes | None \<Rightarrow> rev_hashes)
        in if first_in_sub_slot b \<and> length rev_hashes' \<ge> wanted then Some (Inr rev_hashes')
           else if br_height b = 0 then
             (case br_finished_challenge_slot_hashes b of
                None \<Rightarrow> Some (Inl (InvalidDataError ''genesis no finished_challenge_slot_hashes''))
              | Some hashes \<Rightarrow>
                  if hashes = [] then Some (Inl (InvalidDataError ''genesis empty challenge hashes''))
                  else Some (Inr rev_hashes'))
           else (case get_block blocks (br_prev_hash b) of
                   Inl e \<Rightarrow> Some (Inl e)
                 | Inr p \<Rightarrow> collect_challenges blocks wanted p rev_hashes')
      else Some (Inr rev_hashes))"

definition get_block_challenge ::
    "consensus_constants \<Rightarrow> finished_slot list \<Rightarrow> bytes \<Rightarrow> block_map \<Rightarrow> bool \<Rightarrow> bool \<Rightarrow> bool \<Rightarrow>
     (consensus_error + bytes) option" where
  "get_block_challenge c fss prev_block_hash blocks genesis_block overflow skip_last =
     (if fss \<noteq> [] then
        Some (if overflow then if skip_last then challenge_chain_hash (last fss)
                               else Inr (end_of_slot_challenge (last fss))
              else challenge_chain_hash (last fss))
      else if genesis_block then Some (Inr (genesis_challenge c))
      else let wanted = (if overflow \<and> \<not> skip_last then 2 else 1)
        in bind_opt (Some (get_block blocks prev_block_hash)) (\<lambda>b.
           bind_opt (collect_challenges blocks wanted b []) (\<lambda>hs.
             if wanted - 1 < length hs then Some (Inr (hs ! (wanted - 1)))
             else Some (Inl (InvalidDataError ''get_block_challenge: not enough challenges'')))))"

definition is_before_sp :: "bool \<Rightarrow> nat \<Rightarrow> u8 \<Rightarrow> block_record \<Rightarrow> bool" where
  "is_before_sp overflow slots_crossed sp_index b =
     (if overflow then slots_crossed \<ge> 2 \<or> (slots_crossed = 1 \<and> br_signage_point_index b < sp_index)
      else br_signage_point_index b < sp_index \<or> slots_crossed > 0)"

partial_function (option) pre_sp_walk ::
    "block_map \<Rightarrow> bool \<Rightarrow> u8 \<Rightarrow> nat \<Rightarrow> block_record \<Rightarrow> (consensus_error + block_record) option" where
  "pre_sp_walk blocks overflow sp_index slots_crossed b =
     (if br_height b > 0 then
        if is_transaction_block b \<and> is_before_sp overflow slots_crossed sp_index b then Some (Inr b)
        else (case get_block blocks (br_prev_hash b) of
                Inl e \<Rightarrow> Some (Inl e)
              | Inr p \<Rightarrow> pre_sp_walk blocks overflow sp_index
                          (if first_in_sub_slot b then slots_crossed + 1 else slots_crossed) p)
      else Some (Inr b))"

definition pre_sp_tx_block ::
    "consensus_constants \<Rightarrow> block_map \<Rightarrow> bytes \<Rightarrow> u8 \<Rightarrow> nat \<Rightarrow>
     (consensus_error + block_record option) option" where
  "pre_sp_tx_block c blocks prev_b_hash sp_index finished_sub_slots =
     (if prev_b_hash = genesis_challenge c then Some (Inr None)
      else bind_opt (Some (get_block blocks prev_b_hash)) (\<lambda>b.
           bind_opt (Some (is_overflow_block c sp_index)) (\<lambda>overflow.
           bind_opt (pre_sp_walk blocks overflow sp_index finished_sub_slots b) (\<lambda>r. Some (Inr (Some r))))))"

definition pre_sp_tx_block_height ::
    "consensus_constants \<Rightarrow> block_map \<Rightarrow> bytes \<Rightarrow> u8 \<Rightarrow> nat \<Rightarrow> (consensus_error + u32) option" where
  "pre_sp_tx_block_height c blocks prev_b_hash sp_index finished_sub_slots =
     bind_opt (pre_sp_tx_block c blocks prev_b_hash sp_index finished_sub_slots) (\<lambda>r.
       Some (Inr (case r of None \<Rightarrow> 0 | Some b \<Rightarrow> br_height b)))"

end
