(* ===== verification/Retarget.thy ===== *)
theory Retarget
  imports Difficulty
begin

text \<open>
  What retargeting guarantees: truncation to significant bits, the bounds of one retarget of the difficulty
  and of the sub-slot iterations, termination of every ancestor walk on a map whose parents are lower than
  their children, the answer of the epoch check on a map that reaches back to the sub-epoch boundary, and
  the depth of the records a retarget needs.
\<close>

section \<open>Truncation\<close>

lemma high_bit_scan:
  fixes v :: u128
  assumes "n \<le> 128"
  shows "take_bit n (unat v) < 2 ^ (n - length (takeWhile (\<lambda>i. \<not> bit v i) (rev [0..<n])))"
    and "n - length (takeWhile (\<lambda>i. \<not> bit v i) (rev [0..<n])) = Suc k \<Longrightarrow> bit v k"
  using assms
proof (induction n)
  case (Suc n)
  have le: "length (takeWhile (\<lambda>i. \<not> bit v i) (rev [0..<n])) \<le> n"
    using length_takeWhile_le [of _ "rev [0..<n]"] by simp
  { case 1
    have "take_bit (Suc n) (unat v) < 2 ^ Suc n" by (rule take_bit_nat_less_exp)
    with Suc le 1 show ?case
      by (auto simp: take_bit_Suc_from_most bit_unsigned_iff)
  next
    case 2
    with Suc le show ?case by (auto split: if_splits)
  }
qed simp_all

lemma bit_length_bounds:
  "unat v < 2 ^ bit_length128 v" "bit_length128 v \<le> 128"
  "v \<noteq> 0 \<Longrightarrow> 2 ^ (bit_length128 v - 1) \<le> unat v" "v \<noteq> 0 \<Longrightarrow> bit_length128 v > 0"
proof -
  have "take_bit 128 (unat v) = unat v"
    using unsigned_less [of v, where ?'a = nat] by (simp add: take_bit_nat_eq_self)
  then show lt: "unat v < 2 ^ bit_length128 v"
    using high_bit_scan(1) [of 128 v] by (simp add: bit_length128_def)
  show "bit_length128 v \<le> 128" by (simp add: bit_length128_def)
  assume "v \<noteq> 0"
  with lt show pos: "bit_length128 v > 0" by (cases "bit_length128 v") (auto simp: unat_eq_zero)
  then obtain k where k: "bit_length128 v = Suc k" by (cases "bit_length128 v") auto
  then have "bit v k" using high_bit_scan(2) [of 128 v k] by (simp add: bit_length128_def)
  then have "bit (unat v) k" by (simp add: bit_unsigned_iff)
  then have "2 ^ k \<le> unat v" by (metis linorder_not_le bit_iff_odd div_less even_zero)
  with k show "2 ^ (bit_length128 v - 1) \<le> unat v" by simp
qed

lemma bit_length_unique:
  assumes "2 ^ k \<le> unat v" "unat v < 2 ^ Suc k"
  shows "bit_length128 v = Suc k"
proof -
  have "v \<noteq> 0" using assms(1) by (metis not_one_le_zero one_le_numeral one_le_power order_trans unat_0)
  note b = bit_length_bounds(1) [of v] bit_length_bounds(3,4) [OF this]
  have "(2::nat) ^ k < 2 ^ bit_length128 v" "(2::nat) ^ (bit_length128 v - 1) < 2 ^ Suc k"
    using assms b by linarith+
  then have "k < bit_length128 v" "bit_length128 v - 1 < Suc k"
    by (simp_all only: power_strict_increasing_iff one_less_numeral_iff semiring_norm)
  then show ?thesis by simp
qed

lemma unat_shift_back: "unat (push_bit l (drop_bit l (v :: u128))) = unat v div 2 ^ l * 2 ^ l"
proof -
  have le: "unat v div 2 ^ l * 2 ^ l \<le> unat v" by simp
  have "unat (push_bit l (drop_bit l v)) = take_bit 128 (unat v div 2 ^ l * 2 ^ l)"
    unfolding unsigned_push_bit_eq unsigned_drop_bit_eq
    using unsigned_less [of v, where ?'a = nat]
    by (simp add: push_bit_eq_mult drop_bit_eq_div take_bit_nat_eq_self)
  also have "\<dots> = unat v div 2 ^ l * 2 ^ l"
    using unsigned_less [of v, where ?'a = nat]
    by (intro take_bit_nat_eq_self) (rule le_less_trans [OF le], simp)
  finally show ?thesis .
qed

lemma truncate_cases:
  fixes num :: u64 and v :: u128
  assumes "num > 0"
  defines "l \<equiv> bit_length128 v - unat num"
  shows "unat (truncate_to_significant_bits v num) = unat v div 2 ^ l * 2 ^ l"
proof (cases "unat num \<ge> bit_length128 v")
  case False
  then have "l mod 128 = l"
    using assms(1) bit_length_bounds(2) [of v] by (simp add: l_def word_less_nat_alt)
  with False show ?thesis by (simp add: truncate_to_significant_bits_def Let_def unat_shift_back flip: l_def)
qed (simp add: truncate_to_significant_bits_def l_def)

lemma length_takeWhile_ge:
  "k \<le> length xs \<Longrightarrow> (\<And>i. i < k \<Longrightarrow> P (xs ! i)) \<Longrightarrow> k \<le> length (takeWhile P xs)"
proof (induction xs arbitrary: k)
  case (Cons x xs)
  show ?case
  proof (cases k)
    case (Suc k')
    with Cons.prems(2) [of 0] Cons.prems(2) [of "Suc i" for i] Cons.prems(1) show ?thesis
      by (auto intro!: Cons.IH)
  qed simp
qed simp

lemma trailing_zeros_ge:
  assumes "2 ^ l dvd unat v" "l \<le> 128"
  shows "l \<le> trailing_zeros128 v"
proof -
  have "\<not> bit v i" if "i < l" for i
  proof -
    from assms(1) obtain q where "unat v = 2 ^ l * q" by (elim dvdE)
    then have "unat v = push_bit l q" by (simp add: push_bit_eq_mult ac_simps)
    with that have "\<not> bit (unat v) i" by (simp add: bit_push_bit_iff)
    then show ?thesis using that assms(2) by (simp add: bit_unsigned_iff)
  qed
  with assms(2) show ?thesis
    unfolding trailing_zeros128_def by (intro length_takeWhile_ge) auto
qed

lemma truncate_keeps_length:
  assumes "num > 0"
  shows "bit_length128 (truncate_to_significant_bits v num) = bit_length128 v"
proof (cases "v = 0")
  case True
  with truncate_cases [OF assms, of v] have "truncate_to_significant_bits v num = 0"
    by (simp add: unat_eq_zero)
  with True show ?thesis by simp
next
  case False
  then obtain k where k: "bit_length128 v = Suc k" using bit_length_bounds(4) [of v] by (cases "bit_length128 v") auto
  define l where "l = bit_length128 v - unat num"
  have "l \<le> k" using k assms by (simp add: l_def word_less_nat_alt)
  then have p: "(2::nat) ^ k = 2 ^ (k - l) * 2 ^ l" by (simp flip: power_add)
  have "2 ^ k \<le> unat v" using bit_length_bounds(3) [OF False] k by simp
  then have "2 ^ (k - l) \<le> unat v div 2 ^ l" by (simp add: p less_eq_div_iff_mult_less_eq)
  then have "2 ^ k \<le> unat v div 2 ^ l * 2 ^ l" unfolding p by (rule mult_right_mono) simp
  moreover have "unat v div 2 ^ l * 2 ^ l < 2 ^ Suc k"
    using bit_length_bounds(1) [of v] k by (metis div_times_less_eq_dividend le_less_trans)
  ultimately show ?thesis
    using truncate_cases [OF assms, of v] k
    by (intro trans [OF bit_length_unique [of k]]) (simp_all add: l_def)
qed

text \<open>
  Truncation keeps the leading significant bits: the result is the largest value not above the input
  that ends in as many zeros as are dropped, it has at most the asked number of significant bits, it keeps
  the length of the input, and truncating again changes nothing.
\<close>

lemma truncation:
  assumes "num > 0"
  shows "let t = truncate_to_significant_bits v num; unit = 2 ^ (bit_length128 v - unat num)
    in unat t \<le> unat v \<and> unat v < unat t + unit \<and> unit dvd unat t \<and>
       bit_length128 t = bit_length128 v \<and> count_significant_bits t \<le> unat num \<and>
       truncate_to_significant_bits t num = t"
proof -
  define l where "l = bit_length128 v - unat num"
  define t where "t = truncate_to_significant_bits v num"
  have t: "unat t = unat v div 2 ^ l * 2 ^ l" using truncate_cases [OF assms, of v] by (simp add: l_def t_def)
  have len: "bit_length128 t = bit_length128 v" using truncate_keeps_length [OF assms] by (simp add: t_def)
  have "unat v mod 2 ^ l < 2 ^ l" by simp
  then have lt: "unat v < unat t + 2 ^ l" using div_mult_mod_eq [of "unat v" "2 ^ l"] t by linarith
  have dvd: "2 ^ l dvd unat t" by (simp add: t)
  have "l \<le> trailing_zeros128 t"
    by (rule trailing_zeros_ge [OF dvd]) (use bit_length_bounds(2) [of v] in \<open>simp add: l_def\<close>)
  then have "count_significant_bits t \<le> unat num" by (auto simp: count_significant_bits_def len l_def)
  moreover have "unat (truncate_to_significant_bits t num) = unat t"
    using truncate_cases [OF assms, of t] dvd by (simp add: len l_def)
  ultimately show ?thesis
    using t lt dvd len by (simp add: Let_def flip: l_def t_def) (simp add: word_unat_eq_iff)
qed

lemma truncation_witness: "truncate_to_significant_bits 0xF5 2 \<le> 0xF5"
  using truncation [of 2 "0xF5"] by (simp add: Let_def word_le_nat_alt)

section \<open>Retargeting bounds\<close>

lemma unat_factor_mult:
  "unat (ucast (f :: u32) * ucast (x :: u64) :: u128) = unat f * unat x"
proof -
  have "unat f < 2 ^ 32" "unat x < 2 ^ 64"
    using unsigned_less [of f, where ?'a = nat] unsigned_less [of x, where ?'a = nat] by simp_all
  then have "unat f * unat x < 2 ^ 32 * 2 ^ 64"
    by (intro mult_strict_mono) simp_all
  then have "unat (ucast f :: u128) * unat (ucast x :: u128) < 2 ^ LENGTH(128)" by simp
  then show ?thesis by (subst unat_mult_small) simp_all
qed

lemma clamp_difficulty_bounds:
  assumes "clamp_difficulty c old precise = Inr d"
  shows "unat d \<le> unat (difficulty_change_max_factor c) * unat old"
    and "old > 0 \<Longrightarrow> max 1 (unat old div unat (difficulty_change_max_factor c)) \<le> unat d"
proof -
  let ?f = "unat (difficulty_change_max_factor c)"
  have f: "?f > 0" and d: "d = (if precise \<ge> ucast old
      then min precise (ucast (difficulty_change_max_factor c) * ucast old)
      else max (max precise 1) (ucast old div ucast (difficulty_change_max_factor c)))"
    using assms by (auto simp: clamp_difficulty_def Let_def unat_pos_iff word_gt_0)
  have o: "unat old \<le> ?f * unat old" "unat old div ?f \<le> unat old" using f by simp_all
  show "unat d \<le> ?f * unat old"
  proof (cases "precise \<ge> ucast old")
    case False
    then have "unat d \<le> unat old"
      using o(2) by (auto simp: d unat_max word_le_nat_alt unat_div)
    with o(1) show ?thesis by (rule le_trans [rotated])
  qed (simp add: d unat_min unat_factor_mult)
  assume "old > 0"
  then have pos: "unat old > 0" by (simp add: unat_pos_iff)
  show "max 1 (unat old div ?f) \<le> unat d"
  proof (cases "precise \<ge> ucast old")
    case True
    then have "unat old \<le> unat d" using o(1) by (simp add: d unat_min unat_factor_mult word_le_nat_alt)
    with o(2) pos show ?thesis by linarith
  qed (simp add: d unat_max unat_div)
qed

text \<open>A truncated value falls short of the exact one by less than one part in \<open>2 ^ (bits - 1)\<close>.\<close>

lemma truncate_bounds:
  assumes "num > 0"
  shows "unat (truncate_to_significant_bits v num) \<le> unat v"
    and "v \<noteq> 0 \<Longrightarrow> 2 ^ (bit_length128 v - 1) \<le> unat (truncate_to_significant_bits v num)"
    and "v \<noteq> 0 \<Longrightarrow> unat v * 2 ^ (unat num - 1) <
           unat (truncate_to_significant_bits v num) * (2 ^ (unat num - 1) + 1)"
proof -
  let ?t = "truncate_to_significant_bits v num"
  let ?l = "bit_length128 v - unat num"
  have t: "unat ?t = unat v div 2 ^ ?l * 2 ^ ?l" by (rule truncate_cases [OF assms])
  show "unat ?t \<le> unat v" by (simp add: t)
  assume "v \<noteq> 0"
  then have "?t \<noteq> 0"
    using truncate_keeps_length [OF assms, of v] bit_length_bounds(1) [of 0] bit_length_bounds(3,4) [of v]
    by (metis bit_length_bounds(4) high_bit_scan(2) bit_length128_def Suc_pred bit_0_eq bot_apply bot_bool_def order_refl)
  then show ge: "2 ^ (bit_length128 v - 1) \<le> unat ?t"
    using bit_length_bounds(3) [of ?t] truncate_keeps_length [OF assms, of v] by simp
  have n: "unat num > 0" using assms by (simp add: unat_pos_iff)
  have "2 ^ ?l * 2 ^ (unat num - 1) \<le> unat ?t \<or> unat v = unat ?t"
  proof (cases "bit_length128 v \<le> unat num")
    case False
    then have "?l + (unat num - 1) = bit_length128 v - 1" using n by simp
    with ge show ?thesis by (simp flip: power_add)
  qed (simp add: t)
  moreover have m: "unat v mod 2 ^ ?l < 2 ^ ?l" by simp
  have "unat v < unat ?t + 2 ^ ?l"
    using div_mult_mod_eq [of "unat v" "2 ^ ?l"] t m by linarith
  then have "unat v * 2 ^ (unat num - 1) < (unat ?t + 2 ^ ?l) * 2 ^ (unat num - 1)" by simp
  moreover have "unat ?t > 0" using \<open>?t \<noteq> 0\<close> by (simp add: unat_pos_iff word_gt_0)
  ultimately show "unat v * 2 ^ (unat num - 1) < unat ?t * (2 ^ (unat num - 1) + 1)"
    by (auto simp: algebra_simps)
qed

text \<open>
  What one retarget may do to a difficulty: at most the maximal factor up, at most the maximal factor
  (and never to zero) down, up to the loss of truncation, and no more significant bits than allowed.
\<close>

definition difficulty_within :: "consensus_constants \<Rightarrow> u64 \<Rightarrow> u64 \<Rightarrow> bool" where
  "difficulty_within c old new \<longleftrightarrow>
     (let f = unat (difficulty_change_max_factor c); k = 2 ^ (unat (significant_bits c) - 1)
      in unat new \<le> f * unat old \<and>
         (old > 0 \<longrightarrow> new > 0 \<and> max 1 (unat old div f) * k < unat new * (k + 1)) \<and>
         count_significant_bits (ucast new) \<le> unat (significant_bits c))"

lemma ucast_narrowed: "try_narrow (t :: u128) = Some (d :: u64) \<Longrightarrow> (ucast d :: u128) = t"
  by (rule word_unat_eq_iff [THEN iffD2]) (auto dest: try_narrow_Some)

lemma count_truncated:
  assumes "num > 0"
  shows "count_significant_bits (truncate_to_significant_bits v num) \<le> unat num"
proof -
  let ?t = "truncate_to_significant_bits v num" and ?l = "bit_length128 v - unat num"
  have "2 ^ ?l dvd unat ?t" by (simp add: truncate_cases [OF assms])
  then have "?l \<le> trailing_zeros128 ?t"
    by (rule trailing_zeros_ge) (use bit_length_bounds(2) [of v] in simp)
  then show ?thesis by (auto simp: count_significant_bits_def truncate_keeps_length [OF assms])
qed

lemma retarget_difficulty_within:
  assumes "wf_constants c" "retarget_difficulty c old w t = Inr d"
  shows "difficulty_within c old d"
proof -
  have s: "significant_bits c > 0" using assms(1) by (simp add: wf_constants_def)
  let ?f = "unat (difficulty_change_max_factor c)" and ?k = "2 ^ (unat (significant_bits c) - 1) :: nat"
  obtain precise v where v: "clamp_difficulty c old precise = Inr v"
    and d: "try_narrow (truncate_to_significant_bits v (significant_bits c)) = Some d"
    using assms(2) by (auto simp: retarget_difficulty_def)
  have u: "unat d = unat (truncate_to_significant_bits v (significant_bits c))" using d by (rule try_narrow_Some)
  have up: "unat d \<le> ?f * unat old"
    using truncate_bounds(1) [OF s, of v] clamp_difficulty_bounds(1) [OF v] u by linarith
  have down: "d > 0 \<and> max 1 (unat old div ?f) * ?k < unat d * (?k + 1)" if "old > 0"
  proof -
    have ge: "max 1 (unat old div ?f) \<le> unat v" by (rule clamp_difficulty_bounds(2) [OF v that])
    then have "v \<noteq> 0" by (auto simp: max_def split: if_splits)
    then have lt: "unat v * ?k < unat d * (?k + 1)" using truncate_bounds(3) [OF s] u by simp
    moreover have "max 1 (unat old div ?f) * ?k \<le> unat v * ?k" using ge by (rule mult_right_mono) simp
    ultimately have "max 1 (unat old div ?f) * ?k < unat d * (?k + 1)" by linarith
    moreover from lt have "unat d \<noteq> 0" by (metis mult_0 not_less0)
    then have "d > 0" by (simp add: word_gt_0 unat_eq_zero)
    ultimately show ?thesis by simp
  qed
  have "count_significant_bits (ucast d) \<le> unat (significant_bits c)"
    using count_truncated [OF s, of v] ucast_narrowed [OF d] by simp
  with up down show ?thesis by (simp add: difficulty_within_def Let_def)
qed

lemma get_block_eq_Inr [simp]: "get_block blocks h = Inr b \<longleftrightarrow> blocks h = Some b"
  by (simp add: get_block_def)

text \<open>
  C19: whatever the chain holds, the next difficulty is the starting one in the first epoch, or the
  current one, or, at the end of an epoch and the start of a slot, a value within one retarget of the
  difference in weight between the previous block and its parent.
\<close>

theorem next_difficulty_bounded:
  assumes "wf_constants c"
    and "get_next_difficulty c blocks prev h current deficit included new_slot sp_total = Some (Inr d)"
  shows "unat (h + 1) < unat (epoch_blocks c - 3 * max_sub_slot_blocks c) \<and> d = difficulty_starting c \<or>
    d = current \<or>
    new_slot \<and> deficit = 0 \<and> \<not> included \<and>
    (\<exists>prev_b prev_prev old. blocks prev = Some prev_b \<and> blocks (br_prev_hash prev_b) = Some prev_prev \<and>
       try_narrow (br_weight prev_b - br_weight prev_prev) = Some old \<and> difficulty_within c old d)"
proof (cases "h + 1 < epoch_blocks c - 3 * max_sub_slot_blocks c")
  case True
  with assms(2) show ?thesis by (simp add: get_next_difficulty_def word_less_nat_alt)
next
  case False
  with assms(2) obtain prev_b x full where b: "blocks prev = Some prev_b"
    and fin: "can_finish_sub_and_full_epoch c blocks h prev deficit included = Some (Inr (x, full))"
    and rest: "(if \<not> new_slot \<or> \<not> full then Some (Inr current)
        else bind_opt (get_second_to_last_transaction_block_in_previous_epoch c blocks prev_b) (\<lambda>last_block_prev.
          bind_opt (walk_while blocks (before_signage_point sp_total) prev_b) (\<lambda>last_block_curr.
          bind_opt (Some (epoch_time last_block_curr last_block_prev ''non-positive actual epoch time'')) (\<lambda>t.
          bind_opt (Some (get_block blocks (br_prev_hash prev_b))) (\<lambda>prev_prev.
          bind_opt (Some (ok_or (try_narrow (br_weight prev_b - br_weight prev_prev))
            (InvalidDataError ''old difficulty exceeds u64''))) (\<lambda>old_difficulty.
          Some (retarget_difficulty c old_difficulty
            (br_weight last_block_curr - br_weight last_block_prev) t))))))) = Some (Inr d)"
    by (auto simp: get_next_difficulty_def bind_opt_eq_Inr)
  show ?thesis
  proof (cases "new_slot \<and> full")
    case True
    have "deficit = 0 \<and> \<not> included"
      using fin True by (auto simp: can_finish_sub_and_full_epoch_def word_gt_0 split: if_splits)
    with True rest b show ?thesis
      by (auto simp: bind_opt_eq_Inr intro!: retarget_difficulty_within [OF assms(1)])
  qed (use rest in auto)
qed

text \<open>A chain of two records at the end of the first epoch, for concrete runs.\<close>

definition sample_record :: "u32 \<Rightarrow> u128 \<Rightarrow> u64 \<Rightarrow> block_record" where
  "sample_record h w t = \<lparr>
     br_header_hash = [], br_prev_hash = (if h = 0 then [9] else [0]), br_height = h, br_weight = w, br_total_iters = 10 * w,
     br_signage_point_index = 0, br_challenge_vdf_output = [], br_infused_challenge_vdf_output = None,
     br_reward_infusion_new_challenge = [], br_challenge_block_info_hash = [], br_sub_slot_iters = 6400,
     br_pool_puzzle_hash = [], br_farmer_puzzle_hash = [], br_required_iters = 1, br_deficit = 0,
     br_overflow = False, br_prev_transaction_block_height = 0, br_timestamp = Some t,
     br_prev_transaction_block_hash = None, br_fees = None, br_reward_claims_incorporated = None,
     br_finished_challenge_slot_hashes = None, br_finished_infused_challenge_slot_hashes = None,
     br_finished_reward_slot_hashes = None, br_sub_epoch_summary_included = None\<rparr>"

definition sample_blocks :: block_map where
  "sample_blocks = [[1] \<mapsto> sample_record 4606 1000 110, [0] \<mapsto> sample_record 0 0 100]"

lemma sample_reference:
  "get_second_to_last_transaction_block_in_previous_epoch MAINNET sample_blocks (sample_record 4606 1000 110)
   = Some (Inr (sample_record 0 0 100))"
  by (simp add: get_second_to_last_transaction_block_in_previous_epoch_def MAINNET_def sample_record_def
      height_in_next_epoch_def walk_while.simps sample_blocks_def get_block_def Let_def)

lemma bit_length_samples: "bit_length128 1875 = 11" "bit_length128 19200 = 15" 
  by (simp_all add: bit_length_unique [of 10, simplified] bit_length_unique [of 14, simplified])

lemma sample_difficulty:
  "get_next_difficulty MAINNET sample_blocks [1] 4607 7 0 False True 20000 = Some (Inr 1872)"
proof -
  have r: "retarget_difficulty MAINNET 1000 1000 10 = Inr 1872"
    by (simp add: retarget_difficulty_def MAINNET_def clamp_difficulty_def truncate_to_significant_bits_def
        bit_length_samples Let_def try_narrow_def)
  have "can_finish_sub_and_full_epoch MAINNET sample_blocks 4607 [1] 0 False = Some (Inr (True, True))"
    by (simp add: can_finish_sub_and_full_epoch_def MAINNET_def height_can_be_first_in_epoch_def is_multiple_of_def)
  with r sample_reference show ?thesis
    by (simp add: get_next_difficulty_def walk_while.simps before_signage_point_def is_transaction_block_def
      epoch_time_def checked_sub_def try_narrow_def get_block_def)
      (simp add: sample_blocks_def sample_record_def MAINNET_def walk_while.simps before_signage_point_def is_transaction_block_def
       epoch_time_def checked_sub_def try_narrow_def get_block_def)
qed

lemma next_difficulty_bounded_witness: "difficulty_within MAINNET 1000 1872"
  using next_difficulty_bounded [OF wf_MAINNET sample_difficulty]
  by (auto simp: MAINNET_def sample_blocks_def sample_record_def try_narrow_def split: if_splits)

section \<open>Sub-slot iterations\<close>

lemma clamp_sub_slot_iters_bounds:
  assumes "clamp_sub_slot_iters c (ucast (ssi :: u64)) precise = Inr d"
  shows "unat d \<le> max (unat (difficulty_change_max_factor c) * unat ssi) (unat (num_sps_sub_slot c))"
    and "unat (num_sps_sub_slot c) \<le> unat ssi \<Longrightarrow> unat (num_sps_sub_slot c) \<le> unat d"
proof -
  let ?f = "unat (difficulty_change_max_factor c)" and ?n = "unat (num_sps_sub_slot c)"
  have f: "?f > 0" and d: "d = (if precise \<ge> ucast ssi
      then min precise (ucast (difficulty_change_max_factor c) * ucast ssi)
      else max (max precise (ucast (num_sps_sub_slot c))) (ucast ssi div ucast (difficulty_change_max_factor c)))"
    using assms by (auto simp: clamp_sub_slot_iters_def Let_def unat_pos_iff word_gt_0)
  have o: "unat ssi \<le> ?f * unat ssi" "unat ssi div ?f \<le> unat ssi" using f by simp_all
  show "unat d \<le> max (?f * unat ssi) ?n"
  proof (cases "precise \<ge> ucast ssi")
    case False
    then have "unat d \<le> max (unat ssi) ?n"
      using le_trans [OF o(2), of "max (unat ssi) ?n"] by (auto simp: d unat_max word_le_nat_alt unat_div)
    with o(1) show ?thesis by linarith
  qed (simp add: d unat_min unat_factor_mult)
  assume n: "?n \<le> unat ssi"
  show "?n \<le> unat d"
  proof (cases "precise \<ge> ucast ssi")
    case True
    then have "unat ssi \<le> unat d" using o(1) by (simp add: d unat_min unat_factor_mult word_le_nat_alt)
    with n show ?thesis by linarith
  qed (simp add: d unat_max unat_div)
qed

text \<open>What one retarget may do to the iterations of a sub-slot.\<close>

definition sub_slot_iters_within :: "consensus_constants \<Rightarrow> u64 \<Rightarrow> u64 \<Rightarrow> bool" where
  "sub_slot_iters_within c old new \<longleftrightarrow>
     (let f = unat (difficulty_change_max_factor c); n = unat (num_sps_sub_slot c)
      in n dvd unat new \<and> unat new \<le> max (f * unat old) n \<and>
         (n \<le> unat old \<longrightarrow> (\<exists>k. n = 2 ^ k) \<longrightarrow> n \<le> unat new))"

lemma retarget_sub_slot_iters_within:
  assumes "wf_constants c" "retarget_sub_slot_iters c ssi delta t = Inr d"
  shows "sub_slot_iters_within c ssi d"
proof -
  let ?f = "unat (difficulty_change_max_factor c)" and ?n = "unat (num_sps_sub_slot c)"
  have s: "significant_bits c > 0" and n0: "?n > 0"
    using assms(1) by (simp_all add: wf_constants_def unat_pos_iff)
  obtain precise v where v: "clamp_sub_slot_iters c (ucast ssi) precise = Inr v"
    and d: "try_narrow (truncate_to_significant_bits v (significant_bits c) -
        truncate_to_significant_bits v (significant_bits c) mod ucast (num_sps_sub_slot c)) = Some d"
    using assms(2) by (auto simp: retarget_sub_slot_iters_def Let_def)
  define t where "t = truncate_to_significant_bits v (significant_bits c)"
  have u: "unat d = unat t - unat t mod ?n"
    using try_narrow_Some [OF d] by (simp add: unat_sub word_le_nat_alt unat_mod flip: t_def)
  have "unat t \<le> unat v" using truncate_bounds(1) [OF s] by (simp add: t_def)
  then have up: "unat d \<le> max (?f * unat ssi) ?n"
    using clamp_sub_slot_iters_bounds(1) [OF v] u by linarith
  have low: "?n \<le> unat d" if n: "?n \<le> unat ssi" "?n = 2 ^ k" for k
  proof -
    have nv: "?n \<le> unat v" by (rule clamp_sub_slot_iters_bounds(2) [OF v n(1)])
    with n0 have "v \<noteq> 0" by auto
    have "(2::nat) ^ k < 2 ^ bit_length128 v" using nv n(2) bit_length_bounds(1) [of v] by linarith
    then have "k \<le> bit_length128 v - 1"
      by (simp only: power_strict_increasing_iff one_less_numeral_iff semiring_norm)
    then have "(2::nat) ^ k \<le> 2 ^ (bit_length128 v - 1)" by (rule power_increasing) simp
    from order_trans [OF this truncate_bounds(2) [OF s \<open>v \<noteq> 0\<close>]] n(2) have "?n \<le> unat t" by (simp add: t_def)
    then have "1 \<le> unat t div ?n" using n0 by (simp add: div_greater_zero_iff Suc_le_eq)
    then have "1 * ?n \<le> unat t div ?n * ?n" by (rule mult_right_mono) simp
    with div_mult_mod_eq [of "unat t" ?n] have "unat t mod ?n + ?n \<le> unat t" by linarith
    with u show ?thesis by simp
  qed
  have "?n dvd unat d" by (simp add: u dvd_minus_mod)
  with up low show ?thesis by (auto simp: sub_slot_iters_within_def Let_def)
qed

lemma walk_while_result:
  assumes "walk_while blocks cond b = Some (Inr r)"
  shows "\<not> cond r \<and> (r = b \<or> (\<exists>h. blocks h = Some r))"
  using walk_while.raw_induct [of "\<lambda>blocks cond b res. \<forall>r. res = Inr r \<longrightarrow> \<not> cond r \<and> (r = b \<or> (\<exists>h. blocks h = Some r))",
      OF _ assms]
  by (fastforce split: if_splits sum.splits)


lemma sample_sub_slot_iters:
  "get_next_sub_slot_iters MAINNET sample_blocks [1] 4607 6400 0 False True 20000 = Some (Inr 19200)"
proof -
  have r: "retarget_sub_slot_iters MAINNET 6400 10000 10 = Inr 19200"
    by (simp add: retarget_sub_slot_iters_def MAINNET_def clamp_sub_slot_iters_def truncate_to_significant_bits_def
        bit_length_samples Let_def try_narrow_def)
  have "can_finish_sub_and_full_epoch MAINNET sample_blocks 4607 [1] 0 False = Some (Inr (True, True))"
    by (simp add: can_finish_sub_and_full_epoch_def MAINNET_def height_can_be_first_in_epoch_def is_multiple_of_def)
  with r sample_reference show ?thesis
    by (simp add: get_next_sub_slot_iters_def get_block_def)
      (simp add: sample_blocks_def sample_record_def MAINNET_def walk_while.simps before_signage_point_def
        is_transaction_block_def epoch_time_def checked_sub_def)
qed


section \<open>Every walk ends\<close>

text \<open>In a map of blocks a parent is lower than its child; nothing else is asked of the map.\<close>

definition linked :: "block_map \<Rightarrow> bool" where
  "linked blocks \<longleftrightarrow> (\<forall>h b p. blocks h = Some b \<longrightarrow> blocks (br_prev_hash b) = Some p \<longrightarrow>
     unat (br_height p) < unat (br_height b))"

lemma ancestor_induct [consumes 2, case_names step]:
  assumes "linked blocks" "blocks h = Some b"
    and "\<And>h b. blocks h = Some b \<Longrightarrow> (\<And>p. blocks (br_prev_hash b) = Some p \<Longrightarrow> P p) \<Longrightarrow> P b"
  shows "P b"
  using assms(2)
proof (induction "unat (br_height b)" arbitrary: h b rule: less_induct)
  case less
  show ?case
  proof (rule assms(3) [OF less.prems])
    fix p
    assume p: "blocks (br_prev_hash b) = Some p"
    then have "unat (br_height p) < unat (br_height b)" using assms(1) less.prems by (auto simp: linked_def)
    then show "P p" using p by (rule less.hyps)
  qed
qed

lemma case_get_block:
  "(case get_block blocks h of Inl e \<Rightarrow> f e | Inr b \<Rightarrow> g b) =
   (case blocks h of None \<Rightarrow> f (Missing h) | Some b \<Rightarrow> g b)"
  by (simp add: get_block_def ok_or_def split: option.split)

lemma walk_while_returns:
  assumes "linked blocks" "blocks h = Some b"
  shows "\<exists>r. walk_while blocks cond b = Some r"
  using assms
proof (induction rule: ancestor_induct)
  case (step h b)
  then show ?case by (subst walk_while.simps) (auto simp: case_get_block split: option.split)
qed

lemma summary_since_boundary_returns:
  assumes "linked blocks" "blocks h = Some b"
  shows "\<exists>r. summary_since_boundary c blocks b = Some r"
  using assms
proof (induction rule: ancestor_induct)
  case (step h b)
  then show ?case by (subst summary_since_boundary.simps) (auto simp: case_get_block split: option.split)
qed

lemma second_tx_block_returns:
  assumes "linked blocks" "blocks h = Some b"
  shows "\<exists>r. second_tx_block blocks b found = Some r"
proof -
  from assms have "\<forall>found. \<exists>r. second_tx_block blocks b found = Some r"
  proof (induction rule: ancestor_induct)
    case (step h b)
    show ?case
    proof
      fix found
      show "\<exists>r. second_tx_block blocks b found = Some r"
        using step by (subst second_tx_block.simps) (auto simp: case_get_block split: option.split)
    qed
  qed
  then show ?thesis by blast
qed

lemma ancestors_by_height_returns:
  assumes "linked blocks" "blocks h = Some b"
  shows "\<exists>r. ancestors_by_height blocks s b m = Some r \<and>
    (\<forall>m'. r = Inr m' \<longrightarrow> (\<forall>k x. m' k = Some x \<longrightarrow> m k = Some x \<or>
       unat k \<le> unat (br_height b) \<and> (\<exists>h. blocks h = Some x)))"
proof -
  from assms have "\<forall>m. \<exists>r. ancestors_by_height blocks s b m = Some r \<and>
    (\<forall>m'. r = Inr m' \<longrightarrow> (\<forall>k x. m' k = Some x \<longrightarrow> m k = Some x \<or>
       unat k \<le> unat (br_height b) \<and> (\<exists>h. blocks h = Some x)))" (is "\<forall>m. ?P b m")
  proof (induction rule: ancestor_induct)
    case (step h b)
    show ?case
    proof
      fix m
      show "?P b m"
      proof (cases "br_height b < s \<or> blocks (br_prev_hash b) = None")
        case True
        with step(1) show ?thesis
          by (subst ancestors_by_height.simps) (auto simp: case_get_block split: if_splits)
      next
        case False
        then obtain p where p: "blocks (br_prev_hash b) = Some p" by auto
        have lt: "unat (br_height p) < unat (br_height b)" using assms(1) step(1) p by (auto simp: linked_def)
        from False p have eq: "ancestors_by_height blocks s b m =
            ancestors_by_height blocks s p (m(br_height b \<mapsto> b))"
          by (subst ancestors_by_height.simps) (simp add: case_get_block)
        show ?thesis using step(2) [OF p] step(1) lt unfolding eq
          by (fastforce split: if_splits)
      qed
    qed
  qed
  then show ?thesis by blast
qed

lemma summary_height_returns:
  assumes "\<And>k x. m k = Some x \<Longrightarrow> unat k \<le> top_height" "top_height < 2 ^ 32 - 1"
  shows "\<exists>r. summary_height m n = Some r"
proof (induction "top_height + 1 - unat n" arbitrary: n rule: less_induct)
  case less
  show ?case
  proof (cases "m n")
    case (Some x)
    with assms have le: "unat n \<le> top_height" by blast
    then have "unat (n + 1) = unat n + 1" using assms(2) by (subst unat_add_small) simp_all
    with le have "top_height + 1 - unat (n + 1) < top_height + 1 - unat n" by simp
    from less.hyps [OF this] Some show ?thesis by (subst summary_height.simps) simp
  qed (subst summary_height.simps, simp)
qed

lemma reference_block_returns:
  assumes "linked blocks" "\<And>h b. blocks h = Some b \<Longrightarrow> unat (br_height b) < 2 ^ 32 - 1" "blocks h = Some b"
  shows "\<exists>r. get_second_to_last_transaction_block_in_previous_epoch c blocks b = Some r"
proof -
  have "\<exists>r. bind_opt (ancestors_by_height blocks s b Map.empty) (\<lambda>by_height.
      bind_opt (summary_height by_height s) (\<lambda>next_height.
      bind_opt (Some (ok_or (by_height (next_height - 1)) e)) (\<lambda>b.
      second_tx_block blocks b (if is_transaction_block b then 1 else 0)))) = Some r" for s e
  proof -
    obtain r where r: "ancestors_by_height blocks s b Map.empty = Some r"
      and dom: "\<And>m k x. r = Inr m \<Longrightarrow> m k = Some x \<Longrightarrow> unat k \<le> unat (br_height b) \<and> (\<exists>h. blocks h = Some x)"
      using ancestors_by_height_returns [OF assms(1,3), of s Map.empty] by auto
    show ?thesis
    proof (cases r)
      case (Inr m)
      have "\<exists>r. summary_height m s = Some r"
        by (rule summary_height_returns [of _ "unat (br_height b)"]) (use dom Inr assms(2,3) in auto)
      moreover have "\<exists>r. second_tx_block blocks x (if is_transaction_block x then 1 else 0) = Some r"
        if "m k = Some x" for k x
        using dom [OF Inr that] second_tx_block_returns [OF assms(1)] by blast
      ultimately show ?thesis using r Inr
        by (cases "the (summary_height m s)") (auto simp: ok_or_def split: option.splits)
    qed (simp add: r)
  qed
  then show ?thesis
    using walk_while_returns [OF assms(1,3)]
    by (auto simp: get_second_to_last_transaction_block_in_previous_epoch_def Let_def mod_res_def)
qed

lemma can_finish_returns:
  assumes "linked blocks"
  shows "\<exists>r. can_finish_sub_and_full_epoch c blocks h prev deficit included = Some r"
  using summary_since_boundary_returns [OF assms, of prev]
  by (auto simp: can_finish_sub_and_full_epoch_def intro!: bind_opt_returns)

text \<open>
  C21: on a map in which parents are lower than their children and no height is the largest 32-bit one,
  every ancestor walk of the retarget ends: the entry point returns a value or an error.
\<close>

theorem retarget_returns:
  assumes "linked blocks" "\<And>h b. blocks h = Some b \<Longrightarrow> unat (br_height b) < 2 ^ 32 - 1"
  shows "\<exists>r. get_next_sub_slot_iters_and_difficulty c first prev blocks = Some r"
proof -
  note ret = can_finish_returns [OF assms(1)] reference_block_returns [OF assms] walk_while_returns [OF assms(1)]
  have "\<exists>r. get_next_difficulty c blocks h k cur deficit included new_slot sp = Some r"
    for h k cur deficit included new_slot sp
    by (auto simp: get_next_difficulty_def intro!: bind_opt_returns intro: ret)
  moreover have "\<exists>r. get_next_sub_slot_iters c blocks h k cur deficit included new_slot sp = Some r"
    for h k cur deficit included new_slot sp
    by (auto simp: get_next_sub_slot_iters_def intro!: bind_opt_returns intro: ret)
  ultimately show ?thesis
    by (cases prev) (auto simp: get_next_sub_slot_iters_and_difficulty_def intro!: bind_opt_returns)
qed

lemma retarget_returns_witness:
  "\<exists>r. get_next_sub_slot_iters_and_difficulty MAINNET True (Some (sample_record 4606 1000 110))
     sample_blocks = Some r"
proof (rule retarget_returns)
  show "linked sample_blocks"
    by (auto simp: linked_def sample_blocks_def sample_record_def split: if_splits)
  show "unat (br_height b) < 2 ^ 32 - 1" if "sample_blocks h = Some b" for h b
    using that by (auto simp: sample_blocks_def sample_record_def split: if_splits)
qed

section \<open>How much of the chain the walks need\<close>

text \<open>The last \<open>n + 1\<close> blocks of a chain, newest first, as far as the map has them.\<close>

fun chain_back :: "block_map \<Rightarrow> nat \<Rightarrow> block_record \<Rightarrow> block_record list" where
  "chain_back blocks 0 b = [b]"
| "chain_back blocks (Suc n) b =
     b # (case blocks (br_prev_hash b) of None \<Rightarrow> [] | Some p \<Rightarrow> chain_back blocks n p)"

text \<open>A map that holds the parent, one lower, of every block above a floor.\<close>

definition window_above :: "block_map \<Rightarrow> nat \<Rightarrow> bool" where
  "window_above blocks floor \<longleftrightarrow> (\<forall>h b. blocks h = Some b \<longrightarrow> floor < unat (br_height b) \<longrightarrow>
     (\<exists>p. blocks (br_prev_hash b) = Some p \<and> unat (br_height p) + 1 = unat (br_height b)))"

lemma summary_since_boundary_value:
  assumes "window_above blocks floor" "sub_epoch_blocks c > 0" "blocks h = Some b"
    and "floor \<le> unat (br_height b) - unat (br_height b) mod unat (sub_epoch_blocks c)"
  shows "summary_since_boundary c blocks b = Some (Inr (\<exists>a \<in> set (chain_back blocks
    (unat (br_height b) mod unat (sub_epoch_blocks c)) b). is_some (br_sub_epoch_summary_included a)))"
  using assms(3,4)
proof (induction "unat (br_height b) mod unat (sub_epoch_blocks c)" arbitrary: h b)
  case 0
  then have "\<not> br_height b mod sub_epoch_blocks c > 0" by (simp add: word_less_nat_alt unat_mod)
  then show ?case using 0 by (subst summary_since_boundary.simps) simp
next
  case (Suc n)
  let ?S = "unat (sub_epoch_blocks c)"
  have pos: "br_height b mod sub_epoch_blocks c > 0"
    using Suc.hyps(2) by (simp add: word_less_nat_alt unat_mod)
  have "floor < unat (br_height b)"
    using Suc.prems(2) mod_less_eq_dividend [of "unat (br_height b)" ?S]
    unfolding Suc.hyps(2) [symmetric] by linarith
  then obtain p where p: "blocks (br_prev_hash b) = Some p" "unat (br_height p) + 1 = unat (br_height b)"
    using assms(1) Suc.prems(1) by (auto simp: window_above_def)
  have m: "unat (br_height p) mod ?S = n"
    using Suc.hyps(2) mod_Suc [of "unat (br_height p)" ?S] by (simp flip: p(2) split: if_splits)
  then have "unat (br_height p) - unat (br_height p) mod ?S = unat (br_height b) - unat (br_height b) mod ?S"
    using p(2) Suc.hyps(2) by simp
  then have "summary_since_boundary c blocks p =
      Some (Inr (\<exists>a \<in> set (chain_back blocks n p). is_some (br_sub_epoch_summary_included a)))"
    using Suc.hyps(1) [of p, OF m [symmetric] p(1)] Suc.prems(2) m by simp
  then show ?case
    by (subst summary_since_boundary.simps) (simp add: pos case_get_block p(1) flip: Suc.hyps(2))
qed

text \<open>
  C22: when the map holds the chain down to the start of the previous block's sub-epoch, the epoch check
  never misses a block: it returns whether a sub-epoch may end here (far enough, no deficit, no summary
  since the boundary) and whether an epoch may.
\<close>

theorem can_finish_spec:
  fixes deficit :: u8 and included :: bool
  assumes "wf_constants c" "window_above blocks floor" "blocks prev = Some b" "unat h + 1 < 2 ^ 32"
    and "floor \<le> unat (br_height b) - unat (br_height b) mod unat (sub_epoch_blocks c)"
  defines "S \<equiv> unat (sub_epoch_blocks c)"
  defines "ok \<equiv> S \<le> unat h + 1 \<and> deficit = 0 \<and> \<not> included \<and>
     ((unat h + 1) mod S > 1 \<longrightarrow>
       \<not> (\<exists>a \<in> set (chain_back blocks (unat (br_height b) mod S) b). is_some (br_sub_epoch_summary_included a)))"
  shows "can_finish_sub_and_full_epoch c blocks h prev deficit included =
     Some (Inr (ok, ok \<and> unat (epoch_blocks c) dvd unat h + 1 - (unat h + 1) mod S))"
proof -
  have S: "sub_epoch_blocks c > 0" "epoch_blocks c > 0" "0 < S"
    using assms(1) by (auto simp: wf_constants_def S_def word_less_nat_alt)
  have h1: "unat (h + 1) = unat h + 1" using assms(4) by (subst unat_add_small) simp_all
  have "unat (sub_epoch_blocks c - 1) = S - 1"
    using S by (subst unat_sub) (simp_all add: word_le_nat_alt S_def word_less_nat_alt)
  then have lt: "h < sub_epoch_blocks c - 1 \<longleftrightarrow> unat h + 1 < S" using S(3) by (auto simp: word_less_nat_alt)
  have md: "(h + 1) mod sub_epoch_blocks c > 1 \<longleftrightarrow> (unat h + 1) mod S > 1"
    by (simp add: word_less_nat_alt unat_mod h1 S_def)
  have "unat (h + 1 - (h + 1) mod sub_epoch_blocks c) = unat h + 1 - (unat h + 1) mod S"
    by (subst unat_sub) (simp_all add: word_le_nat_alt unat_mod h1 S_def)
  then have full: "height_can_be_first_in_epoch c (h + 1) =
      Inr (unat (epoch_blocks c) dvd unat h + 1 - (unat h + 1) mod S)"
    using S(1,2) by (simp add: height_can_be_first_in_epoch_def is_multiple_of_def word_gt_0
        word_unat_eq_iff [of _ 0] unat_mod dvd_eq_mod_eq_0)
  note walk = summary_since_boundary_value [OF assms(2) S(1) assms(3,5), folded S_def]
  show ?thesis
    using S(1) assms(3)
    by (simp add: can_finish_sub_and_full_epoch_def lt md full walk ok_def get_block_def mod_res_def word_gt_0)
qed

lemma can_finish_spec_witness:
  "can_finish_sub_and_full_epoch MAINNET [[1] \<mapsto> sample_record 4608 1000 110] 4609 [1] 0 False =
     Some (Inr (True, True))"
  using can_finish_spec [OF wf_MAINNET, of "[[1] \<mapsto> sample_record 4608 1000 110]" 4608 "[1]"
      "sample_record 4608 1000 110" 4609 0 False]
  by (simp add: window_above_def sample_record_def MAINNET_def)

lemma unat_minus_mod: "unat (h - h mod (m :: 'a::len word)) = unat h - unat h mod unat m"
  by (subst unat_sub) (simp_all add: word_le_nat_alt unat_mod)

text \<open>The lookups of one retarget above an epoch start \<open>e\<close>, on natural numbers.\<close>

lemma depth_arith:
  fixes H S E m a :: nat
  assumes "S dvd E" "0 < S" "0 < E" "a < E" "1 \<le> a"
  defines "lowest \<equiv> (if E dvd (H + 1) - (H + 1) mod S
     then min (H - H mod S) ((H + a - (H + a) mod E) - E) else H - H mod S)"
  shows "H - (lowest - 4 * m) + 1 \<le> E + S + 4 * m"
proof (cases "E dvd (H + 1) - (H + 1) mod S")
  case True
  define e where "e = (H + 1) - (H + 1) mod S"
  have "(H + 1) mod S < S" "(H + 1) mod S \<le> H + 1" using assms(2) by simp_all
  then have e: "E dvd e" "e \<le> H + 1" "H + 1 < e + S" using True unfolding e_def by linarith+
  then have "e \<le> H + a" using assms(5) by simp
  then have "e \<le> H + a - (H + a) mod E"
    using e(1) assms(3) by (metis dvd_div_mult_self div_le_mono minus_mod_eq_div_mult mult_le_mono1)
  moreover have "e - E \<le> H - H mod S"
  proof (cases "e \<le> H")
    case True
    have "S dvd e" using e(1) assms(1) by (rule dvd_trans [rotated])
    then have "e \<le> H - H mod S"
      using True by (metis dvd_div_mult_self div_le_mono minus_mod_eq_div_mult mult_le_mono1)
    then show ?thesis by simp
  next
    case False
    then have "e = H + 1" using e by simp
    moreover have "S \<le> E" using assms(1,3) by (rule dvd_imp_le)
    moreover have "H mod S < S" using assms(2) by simp
    ultimately show ?thesis by linarith
  qed
  ultimately have "e - E \<le> lowest" using True by (simp add: lowest_def)
  then have "H + 1 < lowest + E + S" using e(3) by linarith
  moreover have "H - (x - y) + 1 \<le> E + S + y" if "H + 1 < x + E + S" for x y
    using that assms(2) by (cases "x \<le> y") auto
  ultimately show ?thesis by blast
next
  case False
  moreover have "H mod S < S" using assms(2) by simp
  ultimately show ?thesis using mod_less_eq_dividend [of H S] by (simp add: lowest_def)
qed

text \<open>
  C23: at every height the records a retarget may look up, with two sub-slots to spare, fit the walk
  window the caches are sized by.
\<close>

theorem walk_window_covers:
  assumes "wf_constants c" "unat h + unat (epoch_blocks c) < 2 ^ 32"
  shows "\<exists>d. difficulty_record_depth c h = Inr d \<and>
    unat d + 2 * unat (max_sub_slot_blocks c) \<le> unat (consensus_walk_window c)"
proof -
  define S E m a where "S = unat (sub_epoch_blocks c)" and "E = unat (epoch_blocks c)"
    and "m = unat (max_sub_slot_blocks c)" and "a = 2 * m + unat (min_blocks_per_challenge_block c) + 5"
  have wf: "S dvd E" "0 < S" "0 < E" "a < E" "1 \<le> a" "E + S + 6 * m < 2 ^ 16"
    and pos: "sub_epoch_blocks c \<noteq> 0" "epoch_blocks c \<noteq> 0"
    using assms(1) by (auto simp: wf_constants_def S_def E_def m_def a_def word_gt_0)
  define H where "H = unat h"
  have H: "H + E < 2 ^ 32" using assms(2) by (simp add: H_def E_def)
  have u2: "unat (2 * max_sub_slot_blocks c) = 2 * m" "unat (4 * max_sub_slot_blocks c) = 4 * m"
      "unat (6 * max_sub_slot_blocks c) = 6 * m"
    using wf(6) by (simp_all add: m_def unat_word_ariths)
  have w: "unat (consensus_walk_window c) = E + S + 6 * m"
    using wf(6) u2 by (simp add: consensus_walk_window_def unat_word_ariths E_def S_def)
  have n: "unat (height_in_next_epoch c h) = H + a"
    using H wf(4) u2 by (simp add: height_in_next_epoch_def unat_word_ariths H_def a_def)
  have s1: "unat (saturating_add h 1) = H + 1" using H wf(3) by (simp add: unat_saturating_add H_def)
  have turn: "height_can_be_first_in_epoch c (saturating_add h 1) = Inr (E dvd (H + 1) - (H + 1) mod S)"
    using pos by (simp add: height_can_be_first_in_epoch_def is_multiple_of_def word_unat_eq_iff [of _ 0]
        unat_mod unat_minus_mod s1 dvd_eq_mod_eq_0 E_def S_def)
  define lowest where "lowest = (if E dvd (H + 1) - (H + 1) mod S
     then min (H - H mod S) ((H + a - (H + a) mod E) - E) else H - H mod S)"
  define l where "l = (if E dvd (H + 1) - (H + 1) mod S
     then min (h - h mod sub_epoch_blocks c)
       (saturating_sub (height_in_next_epoch c h - height_in_next_epoch c h mod epoch_blocks c) (epoch_blocks c))
     else h - h mod sub_epoch_blocks c)"
  have d: "difficulty_record_depth c h =
      Inr (saturating_add (h - saturating_sub l (4 * max_sub_slot_blocks c)) 1)"
    using pos by (simp add: difficulty_record_depth_def turn Let_def l_def)
  have l: "unat l = lowest"
    by (simp add: l_def lowest_def unat_min unat_saturating_sub unat_minus_mod n flip: S_def E_def H_def)
  have "lowest \<le> H" by (auto simp: lowest_def intro: min.coboundedI1)
  then have "unat (h - saturating_sub l (4 * max_sub_slot_blocks c)) = H - (lowest - 4 * m)"
    by (subst unat_sub) (simp_all add: word_le_nat_alt unat_saturating_sub l u2 H_def)
  moreover have "H - (lowest - 4 * m) + 1 \<le> E + S + 4 * m"
    using depth_arith [OF wf(1-5), of H m] by (simp add: lowest_def)
  ultimately show ?thesis using w d by (simp add: unat_saturating_add m_def)
qed

lemma walk_window_covers_witness:
  "\<exists>d. difficulty_record_depth MAINNET 4991 = Inr d \<and> unat d + 256 \<le> 5760"
  using walk_window_covers [OF wf_MAINNET, of 4991] by (simp add: MAINNET_def consensus_walk_window_def)

section \<open>Challenges\<close>

lemma collect_challenges_returns:
  assumes "linked blocks" "blocks h = Some b"
  shows "\<exists>r. collect_challenges blocks n b acc = Some r"
proof -
  from assms have "\<forall>acc. \<exists>r. collect_challenges blocks n b acc = Some r"
  proof (induction rule: ancestor_induct)
    case (step h b)
    show ?case
    proof
      fix acc
      show "\<exists>r. collect_challenges blocks n b acc = Some r"
        using step by (subst collect_challenges.simps) (auto simp: case_get_block Let_def split: option.split)
    qed
  qed
  then show ?thesis by blast
qed

lemma pre_sp_walk_returns:
  assumes "linked blocks" "blocks h = Some b"
  shows "\<exists>r. pre_sp_walk blocks overflow sp slots b = Some r \<and>
    (\<forall>x. r = Inr x \<longrightarrow> br_height x = 0 \<or> is_transaction_block x) \<and>
    (\<forall>x. r = Inr x \<longrightarrow> (\<exists>h. blocks h = Some x))"
proof -
  from assms have "\<forall>slots. \<exists>r. pre_sp_walk blocks overflow sp slots b = Some r \<and>
    (\<forall>x. r = Inr x \<longrightarrow> br_height x = 0 \<or> is_transaction_block x) \<and>
    (\<forall>x. r = Inr x \<longrightarrow> (\<exists>h. blocks h = Some x))" (is "\<forall>slots. ?P b slots")
  proof (induction rule: ancestor_induct)
    case (step h b)
    show ?case
    proof
      fix slots
      show "?P b slots"
        using step by (subst pre_sp_walk.simps) (auto simp: case_get_block word_gt_0 split: option.split)
    qed
  qed
  then show ?thesis by blast
qed

text \<open>
  C24: on a map in which parents are lower than their children, the challenge lookup and the walk to the
  transaction block before a signage point end; the latter yields no block exactly at genesis, and
  otherwise a block of the map that is a transaction block or has height 0.
\<close>

theorem challenge_walks_return:
  assumes "linked blocks"
  shows "(\<exists>r. get_block_challenge c fss prev blocks genesis overflow skip = Some r) \<and>
    (\<exists>r. pre_sp_tx_block c blocks prev sp slots = Some r \<and>
       (r = Inr None \<longleftrightarrow> prev = genesis_challenge c) \<and>
       (\<forall>b. r = Inr (Some b) \<longrightarrow> (\<exists>h. blocks h = Some b) \<and> (br_height b = 0 \<or> is_transaction_block b)))"
proof
  show "\<exists>r. get_block_challenge c fss prev blocks genesis overflow skip = Some r"
    using collect_challenges_returns [OF assms, of prev]
    by (auto simp: get_block_challenge_def Let_def intro!: bind_opt_returns)
next
  show "\<exists>r. pre_sp_tx_block c blocks prev sp slots = Some r \<and>
       (r = Inr None \<longleftrightarrow> prev = genesis_challenge c) \<and>
       (\<forall>b. r = Inr (Some b) \<longrightarrow> (\<exists>h. blocks h = Some b) \<and> (br_height b = 0 \<or> is_transaction_block b))"
  proof (cases "prev = genesis_challenge c \<or> blocks prev = None \<or> (\<exists>e. is_overflow_block c sp = Inl e)")
    case True
    then show ?thesis by (auto simp: pre_sp_tx_block_def get_block_def ok_or_def split: option.split)
  next
    case False
    then obtain b overflow where b: "blocks prev = Some b" "is_overflow_block c sp = Inr overflow"
      by (cases "is_overflow_block c sp") auto
    obtain r where r: "pre_sp_walk blocks overflow sp slots b = Some r"
      "\<And>x. r = Inr x \<Longrightarrow> (br_height x = 0 \<or> is_transaction_block x) \<and> (\<exists>h. blocks h = Some x)"
      using pre_sp_walk_returns [OF assms b(1), of overflow sp slots] by blast
    with False b show ?thesis by (cases r) (auto simp: pre_sp_tx_block_def get_block_def)
  qed
qed

lemma challenge_walks_return_witness:
  "\<exists>r. pre_sp_tx_block MAINNET sample_blocks [1] 4 0 = Some r \<and>
     (r = Inr None \<longleftrightarrow> [1] = genesis_challenge MAINNET)"
proof -
  have "linked sample_blocks"
    by (auto simp: linked_def sample_blocks_def sample_record_def split: if_splits)
  from challenge_walks_return [OF this, of MAINNET "[]" "[1]" False False False 4 0] show ?thesis by blast
qed

end
