(* ===== verification/BTree.thy ===== *)
theory BTree
  imports XchPrelude
begin

text \<open>
  The ordered maps of the standard library (\<^verbatim>\<open>BTreeMap\<close>, and \<^verbatim>\<open>HashMap\<close> where the iteration order is not
  observed) as key-sorted association lists, behind the contract the components rely on: lookup after
  every operation, the keys, and the sum of a weight over the values.
\<close>

section \<open>The contract\<close>

locale ordered_map =
  fixes invar :: "'m \<Rightarrow> bool"
    and lookup :: "'m \<Rightarrow> 'k::linorder \<Rightarrow> 'v option"
    and empty :: 'm
    and update :: "'k \<Rightarrow> 'v \<Rightarrow> 'm \<Rightarrow> 'm"
    and delete :: "'k \<Rightarrow> 'm \<Rightarrow> 'm"
    and weight :: "('v \<Rightarrow> nat) \<Rightarrow> 'm \<Rightarrow> nat"
  assumes invar_empty: "invar empty"
    and invar_update: "invar m \<Longrightarrow> invar (update k v m)"
    and invar_delete: "invar m \<Longrightarrow> invar (delete k m)"
    and lookup_empty: "lookup empty k = None"
    and lookup_update: "lookup (update k v m) k' = (if k' = k then Some v else lookup m k')"
    and lookup_delete: "lookup (delete k m) k' = (if k' = k then None else lookup m k')"
    and weight_empty: "weight f empty = 0"
    and weight_delete: "invar m \<Longrightarrow>
      weight f m = weight f (delete k m) + (case lookup m k of None \<Rightarrow> 0 | Some v \<Rightarrow> f v)"
    and weight_update: "invar m \<Longrightarrow> weight f (update k v m) = f v + weight f (delete k m)"
begin

lemma weight_insert_new:
  "invar m \<Longrightarrow> lookup m k = None \<Longrightarrow> weight f (update k v m) = f v + weight f m"
  using weight_delete [of m f k] by (simp add: weight_update)

lemma weight_replace:
  "invar m \<Longrightarrow> lookup m k = Some old \<Longrightarrow> weight f (update k v m) + f old = f v + weight f m"
  using weight_delete [of m f k] by (simp add: weight_update)

lemma weight_remove:
  "invar m \<Longrightarrow> lookup m k = Some old \<Longrightarrow> weight f (delete k m) + f old = weight f m"
  using weight_delete [of m f k] by simp

lemma weight_ge: "invar m \<Longrightarrow> lookup m k = Some v \<Longrightarrow> f v \<le> weight f m"
  using weight_remove [of m k v f] by linarith

text \<open>A property of all entries survives every operation that keeps it for the entry it touches.\<close>

definition all_entries :: "('k \<Rightarrow> 'v \<Rightarrow> bool) \<Rightarrow> 'm \<Rightarrow> bool" where
  "all_entries P m \<longleftrightarrow> (\<forall>k v. lookup m k = Some v \<longrightarrow> P k v)"

lemma all_entries_update: "all_entries P m \<Longrightarrow> P k v \<Longrightarrow> all_entries P (update k v m)"
  by (auto simp: all_entries_def lookup_update)

lemma all_entries_delete: "all_entries P m \<Longrightarrow> all_entries P (delete k m)"
  by (auto simp: all_entries_def lookup_delete)

lemma all_entries_empty: "all_entries P empty"
  by (simp add: all_entries_def lookup_empty)

end

section \<open>Sorted association lists\<close>

type_synonym ('k, 'v) btree = "('k \<times> 'v) list"

definition bt_get :: "('k, 'v) btree \<Rightarrow> 'k \<Rightarrow> 'v option" where
  "bt_get m k = map_of m k"

fun bt_insert :: "'k::linorder \<Rightarrow> 'v \<Rightarrow> ('k, 'v) btree \<Rightarrow> ('k, 'v) btree" where
  "bt_insert k v [] = [(k, v)]"
| "bt_insert k v ((k', v') # m) =
     (if k < k' then (k, v) # (k', v') # m
      else if k = k' then (k, v) # m
      else (k', v') # bt_insert k v m)"

definition bt_remove :: "'k \<Rightarrow> ('k, 'v) btree \<Rightarrow> ('k, 'v) btree" where
  "bt_remove k m = filter (\<lambda>p. fst p \<noteq> k) m"

definition bt_keys :: "('k, 'v) btree \<Rightarrow> 'k list" where
  "bt_keys m = map fst m"

definition bt_weight :: "('v \<Rightarrow> nat) \<Rightarrow> ('k, 'v) btree \<Rightarrow> nat" where
  "bt_weight f m = (\<Sum>p\<leftarrow>m. f (snd p))"

definition bt_wf :: "('k::linorder, 'v) btree \<Rightarrow> bool" where
  "bt_wf m \<longleftrightarrow> sorted_wrt (<) (bt_keys m)"

lemma bt_wf_Cons: "bt_wf (p # m) \<longleftrightarrow> (\<forall>q \<in> set m. fst p < fst q) \<and> bt_wf m"
  by (simp add: bt_wf_def bt_keys_def)

lemma set_bt_insert: "set (bt_insert k v m) \<subseteq> insert (k, v) (set m)"
  by (induction m rule: bt_insert.induct) auto

lemma bt_wf_insert: "bt_wf m \<Longrightarrow> bt_wf (bt_insert k v m)"
proof (induction k v m rule: bt_insert.induct)
  case (2 k v k' v' m)
  then show ?case using set_bt_insert [of k v m] by (fastforce simp: bt_wf_Cons)
qed (simp add: bt_wf_def bt_keys_def)

lemma bt_wf_remove: "bt_wf m \<Longrightarrow> bt_wf (bt_remove k m)"
  by (induction m) (auto simp: bt_wf_Cons bt_remove_def)

lemma bt_get_insert: "bt_get (bt_insert k v m) k' = (if k' = k then Some v else bt_get m k')"
  by (induction k v m rule: bt_insert.induct) (auto simp: bt_get_def)

lemma bt_get_remove: "bt_get (bt_remove k m) k' = (if k' = k then None else bt_get m k')"
  by (induction m) (auto simp: bt_remove_def bt_get_def)

lemma bt_remove_absent: "bt_get m k = None \<Longrightarrow> bt_remove k m = m"
  by (force simp: bt_remove_def bt_get_def map_of_eq_None_iff filter_id_conv)

lemma bt_remove_below: "\<forall>q \<in> set m. k < fst q \<Longrightarrow> bt_remove k (m :: ('k::linorder, 'v) btree) = m"
  by (force simp: bt_remove_def filter_id_conv)

lemma bt_weight_remove:
  "bt_wf m \<Longrightarrow> bt_weight f m = bt_weight f (bt_remove k m) + (case bt_get m k of None \<Rightarrow> 0 | Some v \<Rightarrow> f v)"
proof (induction m)
  case (Cons p m)
  show ?case
  proof (cases "fst p = k")
    case True
    moreover have "bt_remove k m = m" using Cons.prems True by (intro bt_remove_below) (simp add: bt_wf_Cons)
    ultimately show ?thesis by (simp add: bt_weight_def bt_remove_def bt_get_def split: prod.split)
  next
    case False
    with Cons show ?thesis
      by (cases p) (simp add: bt_wf_Cons bt_weight_def bt_remove_def bt_get_def)
  qed
qed (simp add: bt_weight_def bt_remove_def bt_get_def)

lemma bt_weight_insert:
  "bt_wf m \<Longrightarrow> bt_weight f (bt_insert k v m) = f v + bt_weight f (bt_remove k m)"
proof (induction k v m rule: bt_insert.induct)
  case (2 k v k' v' m)
  show ?case
  proof (cases "k < k'")
    case True
    then have "bt_remove k ((k', v') # m) = (k', v') # m"
      using 2 by (intro bt_remove_below) (auto simp: bt_wf_Cons)
    with True show ?thesis by (simp add: bt_weight_def)
  next
    case False
    then consider "k = k'" | "k' < k" by fastforce
    then show ?thesis
    proof cases
      case 1
      then have "bt_remove k m = m" using 2 by (intro bt_remove_below) (simp add: bt_wf_Cons)
      with 1 show ?thesis by (simp add: bt_weight_def bt_remove_def)
    next
      case 2
      with 2 show ?thesis using "2.IH" "2.prems" by (auto simp: bt_wf_Cons bt_weight_def bt_remove_def)
    qed
  qed
qed (simp add: bt_weight_def bt_remove_def)

interpretation bt: ordered_map bt_wf bt_get "[]" bt_insert bt_remove bt_weight
proof
  show "bt_wf ([] :: ('a::linorder, 'b) btree)" by (simp add: bt_wf_def bt_keys_def)
  show "bt_get ([] :: ('a, 'b) btree) k = None" for k by (simp add: bt_get_def)
  show "bt_weight f ([] :: ('a, 'b) btree) = 0" for f by (simp add: bt_weight_def)
qed (simp_all add: bt_wf_insert bt_wf_remove bt_get_insert bt_get_remove bt_weight_insert flip: bt_weight_remove)

lemmas bt_simps [simp] = bt_get_insert bt_get_remove bt.lookup_empty
lemmas bt_wfs [simp, intro] = bt_wf_insert bt_wf_remove bt.invar_empty

lemma bt_keys_iff: "k \<in> set (bt_keys m) \<longleftrightarrow> bt_get m k \<noteq> None"
  by (force simp: bt_keys_def bt_get_def map_of_eq_None_iff)

lemma bt_get_SomeD: "bt_get m k = Some v \<Longrightarrow> (k, v) \<in> set m"
  by (auto simp: bt_get_def dest: map_of_SomeD)

lemma bt_wf_get: "bt_wf m \<Longrightarrow> (k, v) \<in> set m \<longleftrightarrow> bt_get m k = Some v"
proof -
  assume "bt_wf m"
  then have "distinct (map fst m)"
    by (simp add: bt_wf_def bt_keys_def strict_sorted_iff)
  then show ?thesis by (simp add: bt_get_def)
qed

lemma bt_remove_length:
  assumes "bt_get m k = Some v"
  shows "length (bt_remove k m) < length m"
proof -
  have "(k, v) \<in> set m" using assms by (rule bt_get_SomeD)
  then show ?thesis unfolding bt_remove_def by (rule length_filter_less) simp
qed

lemma length_weight: "length m = bt_weight (\<lambda>_. 1) m"
  by (simp add: bt_weight_def sum_list_triv)

lemma length_insert_new: "bt_wf m \<Longrightarrow> bt_get m k = None \<Longrightarrow> length (bt_insert k v m) = length m + 1"
  unfolding length_weight by (simp add: bt.weight_insert_new)

lemma length_insert_old: "bt_wf m \<Longrightarrow> bt_get m k = Some x \<Longrightarrow> length (bt_insert k v m) = length m"
  unfolding length_weight using bt.weight_replace [of m k x "\<lambda>_. 1" v] by simp

lemma length_remove: "bt_wf m \<Longrightarrow> bt_get m k = Some x \<Longrightarrow> length (bt_remove k m) + 1 = length m"
  unfolding length_weight using bt.weight_remove [of m k x "\<lambda>_. 1"] by simp

lemma keys_insert [simp]: "set (bt_keys (bt_insert k v m)) = insert k (set (bt_keys m))"
  by (auto simp: bt_keys_iff split: if_splits)

lemma keys_remove [simp]: "set (bt_keys (bt_remove k m)) = set (bt_keys m) - {k}"
  by (auto simp: bt_keys_iff split: if_splits)

end
