(* ===== verification/SyncQueue.thy ===== *)
theory SyncQueue
  imports BTree
begin

text \<open>
  The block reorder buffer of the sync pipeline, \<^verbatim>\<open>node/src/sync/queue.rs\<close>, and its watchdog,
  \<^verbatim>\<open>node/src/sync/watchdog.rs\<close>. Every operation runs under one lock, so an execution is a sequence of
  operations; an operation returns the new state, what it hands to its caller and the wake-ups it sends.
  The height and the wire size of a block are functions of the block, as \<^verbatim>\<open>FullBlock::height\<close> and
  \<^verbatim>\<open>approx_block_bytes\<close> are. Instants are natural numbers.
\<close>

section \<open>State\<close>

datatype 'b slot = InFlight (peer_id: u64) (deadline: nat) (slot_generation: u64) | Present 'b u64

record 'b block_queue =
  slots :: "(u32, 'b slot) btree"
  bytes_held :: u64
  low_water :: u32
  generation :: u64
  budget :: u64
  resident_bytes :: u64
  queue_resident_bytes :: u64
  queue_len :: nat
  peak_window :: nat

datatype wakeup = WakeReady | WakeSpace

definition new_queue :: "u32 \<Rightarrow> u64 \<Rightarrow> 'b block_queue" where
  "new_queue low budget_bytes = \<lparr>
     slots = [], bytes_held = 0, low_water = low, generation = 0, budget = budget_bytes,
     resident_bytes = 0, queue_resident_bytes = 0, queue_len = 0, peak_window = 0\<rparr>"

definition publish_gauges :: "'b block_queue \<Rightarrow> 'b block_queue" where
  "publish_gauges q = q\<lparr>queue_resident_bytes := bytes_held q, queue_len := length (slots q),
     peak_window := max (peak_window q) (length (slots q))\<rparr>"

definition is_present :: "'b slot option \<Rightarrow> bool" where
  "is_present s = (case s of Some (Present _ _) \<Rightarrow> True | _ \<Rightarrow> False)"

definition queue_size :: "'b block_queue \<Rightarrow> nat" where
  "queue_size q = length (slots q)"

definition queue_is_empty :: "'b block_queue \<Rightarrow> bool" where
  "queue_is_empty q = (slots q = [])"

definition can_admit :: "'b block_queue \<Rightarrow> bool" where
  "can_admit q = (resident_bytes q < budget q)"

definition head_ready :: "'b block_queue \<Rightarrow> bool" where
  "head_ready q = is_present (bt_get (slots q) (low_water q))"

section \<open>Operations\<close>

definition admit :: "u32 \<Rightarrow> u64 \<Rightarrow> nat \<Rightarrow> 'b block_queue \<Rightarrow> 'b block_queue" where
  "admit h peer dl q =
     (if h < low_water q \<or> bt_get (slots q) h \<noteq> None then q
      else q\<lparr>slots := bt_insert h (InFlight peer dl (generation q)) (slots q)\<rparr>)"

definition complete ::
    "('b \<Rightarrow> u32) \<Rightarrow> ('b \<Rightarrow> u64) \<Rightarrow> 'b \<Rightarrow> u64 \<Rightarrow> 'b block_queue \<Rightarrow> 'b block_queue \<times> wakeup list" where
  "complete ht wire b gen q =
     (if gen \<noteq> generation q then (q, [])
      else if ht b < low_water q then (q, [])
      else if is_present (bt_get (slots q) (ht b)) then (q, [])
      else let bytes' = saturating_add (bytes_held q) (wire b);
               q' = q\<lparr>slots := bt_insert (ht b) (Present b (wire b)) (slots q),
                      bytes_held := bytes', resident_bytes := bytes'\<rparr>
        in (publish_gauges q', if ht b = low_water q then [WakeReady] else []))"

definition drain_next :: "'b block_queue \<Rightarrow> 'b block_queue \<times> 'b option \<times> wakeup list" where
  "drain_next q =
     (case bt_get (slots q) (low_water q) of
        Some (Present b n) \<Rightarrow>
          let bytes' = saturating_sub (bytes_held q) n;
              q' = q\<lparr>slots := bt_remove (low_water q) (slots q), bytes_held := bytes',
                     low_water := saturating_add (low_water q) 1, resident_bytes := bytes'\<rparr>
          in (publish_gauges q', Some b, [WakeSpace])
      | _ \<Rightarrow> (q, None, []))"

text \<open>
  The loop of \<^verbatim>\<open>drain_ready_window\<close>. Each round removes a slot, so it ends. \<^verbatim>\<open>out.len() as u32\<close> cannot wrap:
  the loop stops at \<open>max\<close>, which is below \<open>2 ^ 32\<close>.
\<close>

function drain_loop :: "nat \<Rightarrow> 'b block_queue \<Rightarrow> 'b list \<Rightarrow> 'b block_queue \<times> 'b list" where
  "drain_loop limit q out =
     (if length out < limit then
        (case bt_get (slots q) (low_water q) of
           Some (Present b n) \<Rightarrow>
             drain_loop limit (q\<lparr>slots := bt_remove (low_water q) (slots q),
                 bytes_held := saturating_sub (bytes_held q) n,
                 low_water := saturating_add (low_water q) 1\<rparr>) (out @ [b])
         | _ \<Rightarrow> (q, out))
      else (q, out))"
  by pat_completeness auto
termination
  by (relation "measure (\<lambda>(limit, q, out). length (slots q))") (auto dest: bt_remove_length)

declare drain_loop.simps [simp del]

definition drain_ready_window :: "u32 \<Rightarrow> 'b block_queue \<Rightarrow> 'b block_queue \<times> 'b list \<times> wakeup list" where
  "drain_ready_window limit q =
     (let (q', out) = drain_loop (unat limit) q []
      in if out \<noteq> [] then (publish_gauges (q'\<lparr>resident_bytes := bytes_held q'\<rparr>), out, [WakeSpace])
         else (q', out, []))"

function peek_loop :: "nat \<Rightarrow> (u32, 'b slot) btree \<Rightarrow> u32 \<Rightarrow> 'b list \<Rightarrow> 'b list" where
  "peek_loop limit m head out =
     (if length out < limit then
        (case bt_get m head of
           Some (Present b n) \<Rightarrow> peek_loop limit m (saturating_add head 1) (out @ [b])
         | _ \<Rightarrow> out)
      else out)"
  by pat_completeness auto
termination
  by (relation "measure (\<lambda>(limit, m, head, out). limit - length out)") auto

declare peek_loop.simps [simp del]

definition peek_ready_window :: "u32 \<Rightarrow> 'b block_queue \<Rightarrow> 'b list" where
  "peek_ready_window limit q = peek_loop (unat limit) (slots q) (low_water q) []"

definition rebase :: "u32 \<Rightarrow> 'b block_queue \<Rightarrow> 'b block_queue \<times> wakeup list" where
  "rebase new_low_water q =
     (publish_gauges (q\<lparr>slots := [], bytes_held := 0, low_water := new_low_water,
        generation := generation q + 1, resident_bytes := 0\<rparr>), [WakeSpace])"

definition reclaim_slot :: "u32 \<Rightarrow> 'b block_queue \<Rightarrow> 'b block_queue" where
  "reclaim_slot h q =
     (case bt_get (slots q) h of
        Some (InFlight _ _ _) \<Rightarrow> q\<lparr>slots := bt_remove h (slots q)\<rparr>
      | _ \<Rightarrow> q)"

definition gaps :: "u32 \<Rightarrow> 'b block_queue \<Rightarrow> u32 list" where
  "gaps window q =
     filter (\<lambda>h. bt_get (slots q) h = None)
       (map of_nat [unat (low_water q)..<unat (saturating_add (low_water q) window)])"

definition next_fetch_height :: "'b block_queue \<Rightarrow> u32" where
  "next_fetch_height q =
     (if slots q = [] then low_water q else saturating_add (last (bt_keys (slots q))) 1)"

section \<open>Executions\<close>

datatype 'b queue_op =
    Admit u32 u64 nat
  | Complete 'b u64
  | DrainNext
  | DrainReadyWindow u32
  | Rebase u32
  | Reclaim u32

text \<open>One operation: the new state, the blocks handed to the consumer, the wake-ups.\<close>

fun queue_step ::
    "('b \<Rightarrow> u32) \<Rightarrow> ('b \<Rightarrow> u64) \<Rightarrow> 'b queue_op \<Rightarrow> 'b block_queue \<Rightarrow> 'b block_queue \<times> 'b list \<times> wakeup list" where
  "queue_step ht wire (Admit h peer dl) q = (admit h peer dl q, [], [])"
| "queue_step ht wire (Complete b gen) q = (let (q', w) = complete ht wire b gen q in (q', [], w))"
| "queue_step ht wire DrainNext q =
     (let (q', r, w) = drain_next q in (q', case r of None \<Rightarrow> [] | Some b \<Rightarrow> [b], w))"
| "queue_step ht wire (DrainReadyWindow limit) q = drain_ready_window limit q"
| "queue_step ht wire (Rebase h) q = (let (q', w) = rebase h q in (q', [], w))"
| "queue_step ht wire (Reclaim h) q = (reclaim_slot h q, [], [])"

fun run_queue ::
    "('b \<Rightarrow> u32) \<Rightarrow> ('b \<Rightarrow> u64) \<Rightarrow> 'b queue_op list \<Rightarrow> 'b block_queue \<Rightarrow> 'b block_queue \<times> 'b list" where
  "run_queue ht wire [] q = (q, [])"
| "run_queue ht wire (opn # ops) q =
     (let (q', out, _) = queue_step ht wire opn q; (q'', out') = run_queue ht wire ops q' in (q'', out @ out'))"

text \<open>
  The reachable states. The one side condition is that the bytes of the blocks in memory can be counted
  in 64 bits, so that the saturating sum is the sum.
\<close>

inductive queue_reachable :: "('b \<Rightarrow> u32) \<Rightarrow> ('b \<Rightarrow> u64) \<Rightarrow> 'b block_queue \<Rightarrow> bool"
  for ht :: "'b \<Rightarrow> u32" and wire :: "'b \<Rightarrow> u64" where
  reach_new: "queue_reachable ht wire (new_queue low budget_bytes)"
| reach_step: "queue_reachable ht wire q \<Longrightarrow>
    (\<And>b gen. opn = Complete b gen \<Longrightarrow> unat (bytes_held q) + unat (wire b) < 2 ^ 64) \<Longrightarrow>
    queue_reachable ht wire (fst (queue_step ht wire opn q))"

section \<open>Watchdog\<close>

record stall_watchdog =
  last_low_water :: u32
  last_advance :: nat
  wd_timeout :: nat

definition new_watchdog :: "u32 \<Rightarrow> nat \<Rightarrow> nat \<Rightarrow> stall_watchdog" where
  "new_watchdog low now limit = \<lparr>last_low_water = low, last_advance = now, wd_timeout = limit\<rparr>"

text \<open>\<^verbatim>\<open>Instant::duration_since\<close> saturates at zero.\<close>

definition poll ::
    "u32 \<Rightarrow> nat \<Rightarrow> bool \<Rightarrow> bool \<Rightarrow> bool \<Rightarrow> stall_watchdog \<Rightarrow> stall_watchdog \<times> bool" where
  "poll low now has_work peers_live confirm_in_flight wd =
     (if low > last_low_water wd then (wd\<lparr>last_low_water := low, last_advance := now\<rparr>, False)
      else if \<not> has_work \<or> \<not> peers_live \<or> confirm_in_flight then (wd\<lparr>last_advance := now\<rparr>, False)
      else if now - last_advance wd \<ge> wd_timeout wd then (wd\<lparr>last_advance := now\<rparr>, True)
      else (wd, False))"

text \<open>One tick against the queue; \<open>reclaimed\<close> is the counter of \<^verbatim>\<open>SyncMetrics\<close>.\<close>

definition tick ::
    "'b block_queue \<Rightarrow> u64 \<Rightarrow> nat \<Rightarrow> u32 \<Rightarrow> bool \<Rightarrow> bool \<Rightarrow> stall_watchdog \<Rightarrow>
     stall_watchdog \<times> 'b block_queue \<times> u64 \<times> bool" where
  "tick q reclaimed now sync_target peers_live confirm_in_flight wd =
     (let (wd', fired) = poll (low_water q) now (sync_target > low_water q) peers_live confirm_in_flight wd
      in if fired then (wd', fst (rebase (low_water q) q), reclaimed + 1, True)
         else (wd', q, reclaimed, False))"

end
