(* ===== verification/QueueSound.thy ===== *)
theory QueueSound
  imports SyncQueue
begin

text \<open>
  What the reorder buffer guarantees over all executions: its invariant, that no wake-up is lost, delivery
  in height order, that nothing fetched before a rebase is delivered after it, that peeking shows the next
  drain, and when the watchdog fires.
\<close>

section \<open>Invariant\<close>

definition slot_bytes :: "'b slot \<Rightarrow> nat" where
  "slot_bytes s = (case s of InFlight _ _ _ \<Rightarrow> 0 | Present _ n \<Rightarrow> unat n)"

definition slot_ok :: "('b \<Rightarrow> u32) \<Rightarrow> ('b \<Rightarrow> u64) \<Rightarrow> u32 \<Rightarrow> u64 \<Rightarrow> u32 \<Rightarrow> 'b slot \<Rightarrow> bool" where
  "slot_ok ht wire low gen h s \<longleftrightarrow> low \<le> h \<and>
     (case s of InFlight _ _ g \<Rightarrow> g = gen | Present b n \<Rightarrow> ht b = h \<and> n = wire b)"

text \<open>
  The buffer itself: heights in order and never below the consumer, claims of the current generation and
  blocks at their own height.
\<close>

definition queue_shape :: "('b \<Rightarrow> u32) \<Rightarrow> ('b \<Rightarrow> u64) \<Rightarrow> 'b block_queue \<Rightarrow> bool" where
  "queue_shape ht wire q \<longleftrightarrow> bt_wf (slots q) \<and>
     bt.all_entries (slot_ok ht wire (low_water q) (generation q)) (slots q)"

text \<open>A byte count that is the sum over the resident blocks.\<close>

definition queue_core :: "('b \<Rightarrow> u32) \<Rightarrow> ('b \<Rightarrow> u64) \<Rightarrow> 'b block_queue \<Rightarrow> bool" where
  "queue_core ht wire q \<longleftrightarrow> queue_shape ht wire q \<and>
     unat (bytes_held q) = bt_weight slot_bytes (slots q)"

text \<open>With the lock released, the atomic and the gauge show the count.\<close>

definition queue_inv :: "('b \<Rightarrow> u32) \<Rightarrow> ('b \<Rightarrow> u64) \<Rightarrow> 'b block_queue \<Rightarrow> bool" where
  "queue_inv ht wire q \<longleftrightarrow> queue_core ht wire q \<and>
     resident_bytes q = bytes_held q \<and> queue_resident_bytes q = bytes_held q"

lemma publish_gauges_simps [simp]:
  "slots (publish_gauges q) = slots q" "bytes_held (publish_gauges q) = bytes_held q"
  "low_water (publish_gauges q) = low_water q" "generation (publish_gauges q) = generation q"
  "budget (publish_gauges q) = budget q" "resident_bytes (publish_gauges q) = resident_bytes q"
  "queue_resident_bytes (publish_gauges q) = bytes_held q"
  by (simp_all add: publish_gauges_def)

lemma queue_inv_publish [simp]:
  "queue_inv ht wire (publish_gauges q) \<longleftrightarrow> queue_core ht wire q \<and> resident_bytes q = bytes_held q"
  by (simp add: queue_inv_def queue_core_def queue_shape_def)

lemma queue_shape_publish [simp]: "queue_shape ht wire (publish_gauges q) = queue_shape ht wire q"
  by (simp add: queue_shape_def)

lemma is_present_iff [simp]: "is_present s \<longleftrightarrow> (\<exists>b n. s = Some (Present b n))"
  by (auto simp: is_present_def split: option.splits slot.splits)

lemma queue_inv_new: "queue_inv ht wire (new_queue low budget_bytes)"
  by (simp add: queue_inv_def queue_core_def queue_shape_def new_queue_def bt.weight_empty bt.all_entries_empty)

lemma admit_shape: "queue_shape ht wire q \<Longrightarrow> queue_shape ht wire (admit h peer dl q)"
  by (auto simp: queue_shape_def admit_def slot_ok_def intro!: bt.all_entries_update)

lemma admit_inv: "queue_inv ht wire q \<Longrightarrow> queue_inv ht wire (admit h peer dl q)"
  using admit_shape [of ht wire q h peer dl]
  by (auto simp: queue_inv_def queue_core_def queue_shape_def admit_def bt.weight_insert_new slot_bytes_def)

lemma complete_shape: "queue_shape ht wire q \<Longrightarrow> queue_shape ht wire (fst (complete ht wire b gen q))"
  by (auto simp: complete_def Let_def queue_shape_def slot_ok_def intro!: bt.all_entries_update)

lemma complete_inv:
  assumes "queue_inv ht wire q" "unat (bytes_held q) + unat (wire b) < 2 ^ 64"
  shows "queue_inv ht wire (fst (complete ht wire b gen q))"
proof (cases "gen \<noteq> generation q \<or> ht b < low_water q \<or> is_present (bt_get (slots q) (ht b))")
  case True
  with assms(1) show ?thesis by (auto simp: complete_def)
next
  case False
  have "bt_weight slot_bytes (bt_insert (ht b) (Present b (wire b)) (slots q)) =
      unat (wire b) + bt_weight slot_bytes (slots q)"
  proof (cases "bt_get (slots q) (ht b)")
    case None
    then show ?thesis using assms(1)
      by (simp add: bt.weight_insert_new slot_bytes_def queue_inv_def queue_core_def queue_shape_def)
  next
    case (Some s)
    then have "slot_bytes s = 0" using False by (cases s) (auto simp: slot_bytes_def)
    with Some assms(1) show ?thesis
      using bt.weight_replace [of "slots q" "ht b" s slot_bytes "Present b (wire b)"]
      by (simp add: slot_bytes_def queue_inv_def queue_core_def queue_shape_def)
  qed
  with False assms complete_shape [of ht wire q b gen] show ?thesis
    by (auto simp: complete_def Let_def queue_inv_def queue_core_def unat_saturating_add)
qed

text \<open>Taking the head off, the step both drains share.\<close>

definition pop_head :: "u64 \<Rightarrow> 'b block_queue \<Rightarrow> 'b block_queue" where
  "pop_head n q = q\<lparr>slots := bt_remove (low_water q) (slots q),
     bytes_held := saturating_sub (bytes_held q) n, low_water := saturating_add (low_water q) 1\<rparr>"

lemma next_height: "low \<le> h \<Longrightarrow> h \<noteq> low \<Longrightarrow> saturating_add low 1 \<le> (h :: u32)"
  using unsigned_less [of h, where ?'a = nat]
  by (auto simp: word_le_nat_alt unat_saturating_add word_unat_eq_iff)

lemma pop_head_shape:
  assumes "queue_shape ht wire q" "bt_get (slots q) (low_water q) = Some (Present b n)"
  shows "queue_shape ht wire (pop_head n q)" "ht b = low_water q"
proof -
  have ok: "slot_ok ht wire (low_water q) (generation q) h s" if "bt_get (slots q) h = Some s" for h s
    using assms(1) that by (auto simp: queue_shape_def bt.all_entries_def)
  then show "ht b = low_water q" using assms(2) by (force simp: slot_ok_def)
  have "bt.all_entries (slot_ok ht wire (saturating_add (low_water q) 1) (generation q))
      (bt_remove (low_water q) (slots q))"
    using ok by (auto simp: bt.all_entries_def slot_ok_def next_height split: if_splits dest!: ok)
  then show "queue_shape ht wire (pop_head n q)"
    using assms(1) by (simp add: queue_shape_def pop_head_def)
qed

lemma pop_head_core:
  assumes "queue_core ht wire q" "bt_get (slots q) (low_water q) = Some (Present b n)"
  shows "queue_core ht wire (pop_head n q)"
proof -
  have "bt_weight slot_bytes (bt_remove (low_water q) (slots q)) = unat (bytes_held q) - unat n"
    using assms bt.weight_remove [of "slots q" "low_water q" "Present b n" slot_bytes]
    by (simp add: queue_core_def queue_shape_def slot_bytes_def)
  then show ?thesis
    using assms pop_head_shape(1) [of ht wire q b n]
    by (simp add: queue_core_def pop_head_def unat_saturating_sub)
qed

lemma drain_loop_cases:
  "drain_loop limit q out =
     (if length out < limit then
        (case bt_get (slots q) (low_water q) of
           Some (Present b n) \<Rightarrow> drain_loop limit (pop_head n q) (out @ [b])
         | _ \<Rightarrow> (q, out))
      else (q, out))"
  by (subst drain_loop.simps) (simp add: pop_head_def split: option.split slot.split)

lemma drain_next_pop:
  "drain_next q =
     (case bt_get (slots q) (low_water q) of
        Some (Present b n) \<Rightarrow>
          (publish_gauges ((pop_head n q)\<lparr>resident_bytes := bytes_held (pop_head n q)\<rparr>), Some b, [WakeSpace])
      | _ \<Rightarrow> (q, None, []))"
  by (simp add: drain_next_def pop_head_def Let_def split: option.split slot.split)

lemma queue_core_resident [simp]: "queue_core ht wire (q\<lparr>resident_bytes := x\<rparr>) = queue_core ht wire q"
  by (simp add: queue_core_def queue_shape_def)

lemma queue_shape_resident [simp]: "queue_shape ht wire (q\<lparr>resident_bytes := x\<rparr>) = queue_shape ht wire q"
  by (simp add: queue_shape_def)

text \<open>What a drain loop yields, by induction along the loop.\<close>

lemma drain_loop_invariant:
  assumes step: "\<And>q b n out. I q out \<Longrightarrow> bt_get (slots q) (low_water q) = Some (Present b n) \<Longrightarrow>
      length out < limit \<Longrightarrow> I (pop_head n q) (out @ [b])"
    and "I q out" "drain_loop limit q out = (q', out')"
  shows "I q' out'"
  using assms
proof (induction limit q out rule: drain_loop.induct)
  case (1 limit q out)
  show ?case
  proof (cases "length out < limit \<and> is_present (bt_get (slots q) (low_water q))")
    case True
    then obtain b n where b: "bt_get (slots q) (low_water q) = Some (Present b n)" by auto
    with True "1.prems"(3) have "drain_loop limit (pop_head n q) (out @ [b]) = (q', out')"
      by (simp add: drain_loop_cases [of limit q])
    moreover have "I (pop_head n q) (out @ [b])" using True by (intro "1.prems"(1) [OF "1.prems"(2) b]) simp
    ultimately show ?thesis using True b "1.IH" [of "Present b n" b n] "1.prems"(1) by (simp add: pop_head_def)
  next
    case False
    with "1.prems"(2,3) show ?thesis
      by (auto simp: drain_loop_cases [of limit q] split: if_splits option.splits slot.splits)
  qed
qed

lemma drain_ready_window_cases [consumes 1, case_names drained idle]:
  "drain_ready_window limit q = r \<Longrightarrow>
   (\<And>q' out. drain_loop (unat limit) q [] = (q', out) \<Longrightarrow> out \<noteq> [] \<Longrightarrow>
      r = (publish_gauges (q'\<lparr>resident_bytes := bytes_held q'\<rparr>), out, [WakeSpace]) \<Longrightarrow> P) \<Longrightarrow>
   (\<And>q'. drain_loop (unat limit) q [] = (q', []) \<Longrightarrow> r = (q', [], []) \<Longrightarrow> P) \<Longrightarrow> P"
  by (auto simp: drain_ready_window_def split: prod.splits if_splits)

text \<open>A loop that yields nothing changes nothing.\<close>

lemma drain_loop_idle: "drain_loop limit q [] = (q', []) \<Longrightarrow> q' = q"
  using drain_loop_invariant [of "\<lambda>q'' out. out = [] \<longrightarrow> q'' = q" limit q "[]" q' "[]"] by simp

lemma queue_inv_core: "queue_inv ht wire q \<Longrightarrow> queue_core ht wire q"
  by (simp add: queue_inv_def)

lemma drain_next_inv: "queue_inv ht wire q \<Longrightarrow> queue_inv ht wire (fst (drain_next q))"
  using pop_head_core [OF queue_inv_core]
  by (auto simp: drain_next_pop split: option.split slot.split)

lemma drain_ready_window_inv:
  assumes "queue_inv ht wire q"
  shows "queue_inv ht wire (fst (drain_ready_window limit q))"
  using refl [of "drain_ready_window limit q"]
proof (cases rule: drain_ready_window_cases)
  case (drained q' out)
  have "queue_core ht wire q'"
    by (rule drain_loop_invariant [where I = "\<lambda>q out. queue_core ht wire q", OF _ _ drained(1)])
      (use assms in \<open>auto simp: queue_inv_core pop_head_core\<close>)
  then show ?thesis unfolding drained(3) by simp
next
  case (idle q')
  then show ?thesis using assms drain_loop_idle [OF idle(1)] by simp
qed

lemma reclaim_slot_shape: "queue_shape ht wire q \<Longrightarrow> queue_shape ht wire (reclaim_slot h q)"
  by (auto simp: reclaim_slot_def queue_shape_def intro: bt.all_entries_delete split: option.split slot.split)

lemma reclaim_slot_inv: "queue_inv ht wire q \<Longrightarrow> queue_inv ht wire (reclaim_slot h q)"
proof -
  assume inv: "queue_inv ht wire q"
  have "bt_weight slot_bytes (bt_remove h (slots q)) = bt_weight slot_bytes (slots q)"
    if "bt_get (slots q) h = Some (InFlight p d g)" for p d g
    using inv bt.weight_remove [of "slots q" h _ slot_bytes, OF _ that]
    by (simp add: queue_inv_def queue_core_def queue_shape_def slot_bytes_def)
  with inv reclaim_slot_shape [of ht wire q h] show ?thesis
    by (auto simp: reclaim_slot_def queue_inv_def queue_core_def split: option.splits slot.splits)
qed

lemma rebase_inv: "queue_inv ht wire (fst (rebase h q))"
  by (simp add: rebase_def queue_core_def queue_shape_def bt.weight_empty bt.all_entries_empty)

lemma queue_step_inv:
  assumes "queue_inv ht wire q"
    and "\<And>b gen. opn = Complete b gen \<Longrightarrow> unat (bytes_held q) + unat (wire b) < 2 ^ 64"
  shows "queue_inv ht wire (fst (queue_step ht wire opn q))"
  using assms
proof (cases opn)
  case (Complete b gen)
  then show ?thesis using complete_inv [OF assms(1), of b gen] assms(2) by (simp split: prod.split) (metis fst_conv)
next
  case DrainNext
  then show ?thesis using drain_next_inv [OF assms(1)] by (simp split: prod.split) (metis fst_conv)
next
  case (Rebase h)
  then show ?thesis using rebase_inv [of ht wire h q] by (simp split: prod.split) (metis fst_conv)
qed (simp_all add: admit_inv drain_ready_window_inv reclaim_slot_inv)

lemma reachable_inv: "queue_reachable ht wire q \<Longrightarrow> queue_inv ht wire q"
  by (induction rule: queue_reachable.induct) (auto intro: queue_inv_new queue_step_inv)

text \<open>
  C25: in every reachable state of the queue the slots are ordered and at or above the consumer's height,
  a resident block sits at its own height and is charged its wire size, every claim carries the current
  generation, and the byte count, the atomic and the gauge all equal the sum over the resident blocks.
\<close>

theorem queue_invariant:
  assumes "queue_reachable ht wire q"
  shows "sorted_wrt (<) (bt_keys (slots q)) \<and>
    (\<forall>h s. (h, s) \<in> set (slots q) \<longrightarrow> low_water q \<le> h \<and>
       (case s of InFlight _ _ g \<Rightarrow> g = generation q | Present b n \<Rightarrow> ht b = h \<and> n = wire b)) \<and>
    unat (bytes_held q) = (\<Sum>(h, s)\<leftarrow>slots q. case s of InFlight _ _ _ \<Rightarrow> 0 | Present b n \<Rightarrow> unat n) \<and>
    resident_bytes q = bytes_held q \<and> queue_resident_bytes q = bytes_held q"
proof -
  have inv: "queue_inv ht wire q" using assms by (rule reachable_inv)
  then have wf: "bt_wf (slots q)" by (simp add: queue_inv_def queue_core_def queue_shape_def)
  have "slot_ok ht wire (low_water q) (generation q) h s" if "(h, s) \<in> set (slots q)" for h s
    using inv that bt_wf_get [OF wf] by (auto simp: queue_inv_def queue_core_def queue_shape_def bt.all_entries_def)
  moreover have "(\<Sum>(h, s)\<leftarrow>slots q. case s of InFlight _ _ _ \<Rightarrow> 0 | Present b n \<Rightarrow> unat n) =
      bt_weight slot_bytes (slots q)"
    by (simp add: bt_weight_def slot_bytes_def case_prod_unfold)
  ultimately show ?thesis
    using inv by (auto simp: queue_inv_def queue_core_def queue_shape_def bt_wf_def slot_ok_def)
qed

text \<open>A run for the witnesses: blocks are pairs of a height and a size.\<close>

definition sample_queue :: "(u32 \<times> u64) block_queue" where
  "sample_queue = fst (queue_step fst snd (Complete (6, 40) 0) (fst (queue_step fst snd (Complete (5, 7) 0)
     (fst (queue_step fst snd (Admit 5 1 9) (new_queue 5 100))))))"

lemma sample_queue_eval:
  "sample_queue = \<lparr>slots = [(5, Present (5, 7) 7), (6, Present (6, 40) 40)], bytes_held = 47, low_water = 5,
     generation = 0, budget = 100, resident_bytes = 47, queue_resident_bytes = 47, queue_len = 2, peak_window = 2\<rparr>"
  by (simp add: sample_queue_def new_queue_def admit_def complete_def Let_def publish_gauges_def bt_get_def
      saturating_add_def is_present_def)

lemma sample_queue_reachable: "queue_reachable fst snd sample_queue"
  unfolding sample_queue_def
  by (intro queue_reachable.intros)
    (auto simp: new_queue_def admit_def complete_def Let_def publish_gauges_def bt_get_def saturating_add_def)

lemma queue_invariant_witness: "unat (bytes_held sample_queue) = 47 \<and> resident_bytes sample_queue = bytes_held sample_queue"
  using queue_invariant [OF sample_queue_reachable] by (simp add: sample_queue_eval)

section \<open>Wake-ups\<close>

lemma pop_head_simps [simp]:
  "slots (pop_head n q) = bt_remove (low_water q) (slots q)"
  "bytes_held (pop_head n q) = saturating_sub (bytes_held q) n"
  "low_water (pop_head n q) = saturating_add (low_water q) 1"
  "generation (pop_head n q) = generation q" "budget (pop_head n q) = budget q"
  "resident_bytes (pop_head n q) = resident_bytes q"
  by (simp_all add: pop_head_def)

text \<open>
  C28: no wake-up is lost. Whatever operation makes the head of the queue available notifies the consumer
  parked on it, and whatever operation brings the resident bytes under the budget notifies the producers
  parked on space.
\<close>

theorem no_lost_wakeup:
  assumes "queue_reachable ht wire q" "queue_step ht wire opn q = (q', out, wakeups)"
  shows "(\<not> head_ready q \<and> head_ready q' \<longrightarrow> WakeReady \<in> set wakeups) \<and>
    (\<not> can_admit q \<and> can_admit q' \<longrightarrow> WakeSpace \<in> set wakeups)"
proof -
  have res: "resident_bytes q = bytes_held q" using reachable_inv [OF assms(1)] by (simp add: queue_inv_def)
  have mono: "unat x \<le> unat (saturating_add x y)" for x y :: u64
    using unsigned_less [of x, where ?'a = nat] by (simp add: unat_saturating_add)
  show ?thesis
  proof (cases opn)
    case (Complete b gen)
    with assms(2) res mono [of "bytes_held q" "wire b"] show ?thesis
      by (auto simp: complete_def Let_def head_ready_def can_admit_def word_less_nat_alt split: if_splits)
  next
    case (DrainReadyWindow limit)
    then have "drain_ready_window limit q = (q', out, wakeups)" using assms(2) by simp
    then show ?thesis
    proof (cases rule: drain_ready_window_cases)
      case (drained q'' out')
      have "head_ready q"
        using drained(1,2) by (auto simp: drain_loop_cases [of _ q] head_ready_def split: if_splits option.splits slot.splits)
      with drained show ?thesis by simp
    next
      case (idle q'')
      then show ?thesis using drain_loop_idle by auto
    qed
  next
    case DrainNext
    with assms(2) show ?thesis
      by (auto simp: drain_next_pop head_ready_def split: option.splits slot.splits)
  next
    case (Reclaim h)
    with assms(2) show ?thesis
      by (auto simp: reclaim_slot_def head_ready_def can_admit_def split: option.splits slot.splits if_splits)
  next
    case (Admit h p d)
    with assms(2) show ?thesis by (auto simp: admit_def head_ready_def can_admit_def split: if_splits)
  next
    case (Rebase h)
    with assms(2) show ?thesis by (auto simp: rebase_def head_ready_def)
  qed
qed

lemma no_lost_wakeup_witness:
  "WakeReady \<in> set (snd (snd (queue_step fst snd (Complete (9, 3) 1) (fst (queue_step fst snd (Rebase 9) sample_queue)))))"
proof -
  let ?q = "fst (queue_step fst snd (Rebase 9) sample_queue)"
  have "queue_reachable fst snd ?q" by (rule queue_reachable.reach_step [OF sample_queue_reachable]) simp
  moreover have "\<not> head_ready ?q" "head_ready (fst (queue_step fst snd (Complete (9, 3) 1) ?q))"
    by (simp_all add: sample_queue_eval rebase_def head_ready_def complete_def publish_gauges_def bt_get_def Let_def)
  ultimately show ?thesis
    using no_lost_wakeup [of fst snd ?q "Complete (9, 3) 1"] by (metis prod.collapse)
qed

section \<open>Order of delivery\<close>

text \<open>The heights \<open>low, low + 1, \<dots>\<close>, which stay at the largest height once they reach it.\<close>

definition advance :: "u32 \<Rightarrow> nat \<Rightarrow> u32" where
  "advance low n = ((\<lambda>h. saturating_add h 1) ^^ n) low"

lemma unat_advance: "unat (advance low n) = min (unat low + n) (2 ^ 32 - 1)"
proof (induction n)
  case 0
  show ?case using unsigned_less [of low, where ?'a = nat] by (simp add: advance_def)
next
  case (Suc n)
  then show ?case by (simp add: advance_def unat_saturating_add)
qed

definition in_order :: "('b \<Rightarrow> u32) \<Rightarrow> u32 \<Rightarrow> 'b list \<Rightarrow> bool" where
  "in_order ht low bs \<longleftrightarrow> map ht bs = map (advance low) [0..<length bs]"

lemma in_order_snoc: "in_order ht low (bs @ [b]) \<longleftrightarrow> in_order ht low bs \<and> ht b = advance low (length bs)"
  by (auto simp: in_order_def)

lemma advance_add: "advance (advance low m) n = advance low (m + n)"
  by (simp add: advance_def funpow_add add.commute [of m])

lemma in_order_append:
  "in_order ht low (bs @ cs) \<longleftrightarrow> in_order ht low bs \<and> in_order ht (advance low (length bs)) cs"
proof (induction cs rule: rev_induct)
  case (snoc c cs)
  then show ?case by (simp add: in_order_snoc advance_add flip: append_assoc)
qed (simp add: in_order_def)

lemma drain_loop_in_order:
  assumes "queue_shape ht wire q" "drain_loop limit q [] = (q', out)"
  shows "in_order ht (low_water q) out \<and> low_water q' = advance (low_water q) (length out)"
proof -
  have "queue_shape ht wire q' \<and> in_order ht (low_water q) out \<and> low_water q' = advance (low_water q) (length out)"
  proof (rule drain_loop_invariant [where I = "\<lambda>q' out. queue_shape ht wire q' \<and>
        in_order ht (low_water q) out \<and> low_water q' = advance (low_water q) (length out)", OF _ _ assms(2)])
    fix q'' b n out'
    assume I: "queue_shape ht wire q'' \<and> in_order ht (low_water q) out' \<and>
        low_water q'' = advance (low_water q) (length out')"
      and b: "bt_get (slots q'') (low_water q'') = Some (Present b n)"
    then show "queue_shape ht wire (pop_head n q'') \<and> in_order ht (low_water q) (out' @ [b]) \<and>
        low_water (pop_head n q'') = advance (low_water q) (length (out' @ [b]))"
      using pop_head_shape [of ht wire q'' b n] by (simp add: in_order_snoc) (simp add: advance_def)
  qed (use assms(1) in \<open>simp add: in_order_def advance_def\<close>)
  then show ?thesis by blast
qed

lemma queue_step_in_order:
  assumes "queue_shape ht wire q" "\<And>h. opn \<noteq> Rebase h" "queue_step ht wire opn q = (q', out, w)"
  shows "in_order ht (low_water q) out \<and> low_water q' = advance (low_water q) (length out)"
proof (cases opn)
  case (DrainReadyWindow limit)
  then have "drain_ready_window limit q = (q', out, w)" using assms(3) by simp
  then show ?thesis
  proof (cases rule: drain_ready_window_cases)
    case (drained q'' out')
    then show ?thesis using drain_loop_in_order [OF assms(1) drained(1)] by simp
  next
    case (idle q'')
    then show ?thesis using drain_loop_in_order [OF assms(1) idle(1)] by simp
  qed
next
  case DrainNext
  with assms(3) show ?thesis
    using pop_head_shape(2) [OF assms(1)]
    by (auto simp: drain_next_pop in_order_def advance_def split: option.splits slot.splits)
next
  case (Complete b gen)
  with assms(3) show ?thesis
    by (auto simp: complete_def Let_def in_order_def advance_def split: if_splits)
next
  case (Reclaim h)
  with assms(3) show ?thesis
    by (auto simp: reclaim_slot_def in_order_def advance_def split: option.splits slot.splits)
qed (use assms in \<open>auto simp: admit_def in_order_def advance_def\<close>)

lemma drain_ready_window_shape:
  assumes "queue_shape ht wire q"
  shows "queue_shape ht wire (fst (drain_ready_window limit q))"
  using refl [of "drain_ready_window limit q"]
proof (cases rule: drain_ready_window_cases)
  case (drained q' out)
  have "queue_shape ht wire q'"
    by (rule drain_loop_invariant [where I = "\<lambda>q out. queue_shape ht wire q", OF _ _ drained(1)])
      (use assms in \<open>auto simp: pop_head_shape(1)\<close>)
  then show ?thesis unfolding drained(3) by simp
next
  case (idle q')
  then show ?thesis using assms drain_loop_idle [OF idle(1)] by simp
qed

lemma queue_step_shape:
  assumes "queue_shape ht wire q"
  shows "queue_shape ht wire (fst (queue_step ht wire opn q))"
proof (cases opn)
  case (Complete b gen)
  then show ?thesis using complete_shape [OF assms, of b gen] by (simp split: prod.split) (metis fst_conv)
next
  case DrainNext
  then show ?thesis using assms pop_head_shape(1) [OF assms]
    by (auto simp: drain_next_pop split: option.split slot.split)
next
  case (Rebase h)
  then show ?thesis by (simp add: rebase_def queue_shape_def bt.all_entries_empty)
qed (simp_all add: assms admit_shape drain_ready_window_shape reclaim_slot_shape)

lemma queue_shape_new: "queue_shape ht wire (new_queue low budget_bytes)"
  using queue_inv_new [of ht wire low budget_bytes] by (simp add: queue_inv_def queue_core_def)

lemma run_queue_in_order:
  assumes "queue_shape ht wire q" "\<And>h. Rebase h \<notin> set ops" "run_queue ht wire ops q = (q', out)"
  shows "in_order ht (low_water q) out \<and> low_water q' = advance (low_water q) (length out)"
  using assms
proof (induction ops arbitrary: q out)
  case Nil
  then show ?case by (simp add: in_order_def advance_def)
next
  case (Cons opn ops)
  obtain q1 out1 w where s: "queue_step ht wire opn q = (q1, out1, w)" by (metis prod.exhaust)
  obtain out2 where r: "run_queue ht wire ops q1 = (q', out2)" "out = out1 @ out2"
    using Cons.prems(3) s by (auto split: prod.splits)
  have "queue_shape ht wire q1" using queue_step_shape [OF Cons.prems(1), of opn] s by simp
  then have "in_order ht (low_water q1) out2 \<and> low_water q' = advance (low_water q1) (length out2)"
    using Cons.prems(2) r(1) by (intro Cons.IH) auto
  moreover have "in_order ht (low_water q) out1 \<and> low_water q1 = advance (low_water q) (length out1)"
    using Cons.prems(2) by (intro queue_step_in_order [OF Cons.prems(1) _ s]) auto
  ultimately show ?case by (simp add: r(2) in_order_append advance_add)
qed

text \<open>
  C26: between rebases the consumer receives blocks strictly by height. For every sequence of admissions,
  completions, reclaims and drains, in any interleaving and whatever order the producers complete in, the
  blocks drained so far are those of the heights from the starting one on, without a gap or a repetition
  (up to the largest height, where the counter saturates), and the queue expects the next one.
\<close>

theorem delivered_in_order:
  assumes "\<And>h. Rebase h \<notin> set ops" "run_queue ht wire ops (new_queue low budget_bytes) = (q, out)"
  shows "map (\<lambda>b. unat (ht b)) out = map (\<lambda>i. min (unat low + i) (2 ^ 32 - 1)) [0..<length out] \<and>
    unat (low_water q) = min (unat low + length out) (2 ^ 32 - 1)"
proof -
  have "in_order ht low out" "low_water q = advance low (length out)"
    using run_queue_in_order [OF queue_shape_new assms] by (simp_all add: new_queue_def)
  moreover from this(1) have "map unat (map ht out) = map unat (map (advance low) [0..<length out])"
    by (simp add: in_order_def)
  ultimately show ?thesis by (simp add: unat_advance comp_def)
qed

lemma delivered_in_order_witness:
  "\<exists>q. run_queue fst snd [Complete (6, 40) 0, Admit 5 1 9, Complete (5, 7) 0, DrainReadyWindow 4]
     (new_queue 5 100) = (q, [(5, 7), (6, 40)]) \<and> unat (low_water q) = 7"
proof -
  let ?ops = "[Complete (6, 40) 0, Admit 5 1 9, Complete (5, 7) 0, DrainReadyWindow 4] :: (u32 \<times> u64) queue_op list"
  have "snd (run_queue fst snd ?ops (new_queue 5 100)) = [(5, 7), (6, 40)]"
    by (simp add: new_queue_def admit_def complete_def Let_def publish_gauges_def bt_get_def is_present_def
        saturating_add_def saturating_sub_def drain_ready_window_def drain_loop.simps bt_remove_def)
  then obtain q where q: "run_queue fst snd ?ops (new_queue 5 100) = (q, [(5, 7), (6, 40)])"
    by (metis prod.collapse)
  then show ?thesis using delivered_in_order [of ?ops fst snd 5 100 q "[(5, 7), (6, 40)]"] by simp
qed

section \<open>The generation guard\<close>

definition rebases :: "'b queue_op list \<Rightarrow> nat" where
  "rebases ops = length (filter (\<lambda>opn. \<exists>h. opn = Rebase h) ops)"

lemma rebases_simps [simp]:
  "rebases [] = 0" "rebases (xs @ ys) = rebases xs + rebases ys"
  "rebases (opn # ops) = (if \<exists>h. opn = Rebase h then 1 else 0) + rebases ops"
  by (auto simp: rebases_def)

lemma drain_loop_subset:
  assumes "drain_loop limit q [] = (q', out)"
  shows "generation q' = generation q" "bt_get (slots q') h = Some s \<Longrightarrow> bt_get (slots q) h = Some s"
    "b \<in> set out \<Longrightarrow> \<exists>h n. bt_get (slots q) h = Some (Present b n)"
proof -
  have "generation q' = generation q \<and> (\<forall>h s. bt_get (slots q') h = Some s \<longrightarrow> bt_get (slots q) h = Some s) \<and>
      (\<forall>b \<in> set out. \<exists>h n. bt_get (slots q) h = Some (Present b n))"
    by (rule drain_loop_invariant [where I = "\<lambda>q' out. generation q' = generation q \<and>
          (\<forall>h s. bt_get (slots q') h = Some s \<longrightarrow> bt_get (slots q) h = Some s) \<and>
          (\<forall>b \<in> set out. \<exists>h n. bt_get (slots q) h = Some (Present b n))", OF _ _ assms])
      (auto split: if_splits)
  then show "generation q' = generation q" "bt_get (slots q') h = Some s \<Longrightarrow> bt_get (slots q) h = Some s"
    "b \<in> set out \<Longrightarrow> \<exists>h n. bt_get (slots q) h = Some (Present b n)" by blast+
qed

lemma queue_step_sources:
  assumes "queue_step ht wire opn q = (q', out, w)"
  shows "generation q' = generation q + of_nat (rebases [opn])"
    and "bt_get (slots q') h = Some (Present b n) \<Longrightarrow>
      rebases [opn] = 0 \<and> (bt_get (slots q) h = Some (Present b n) \<or> opn = Complete b (generation q))"
    and "b \<in> set out \<Longrightarrow> \<exists>h n. bt_get (slots q) h = Some (Present b n)"
proof -
  have "generation q' = generation q + of_nat (rebases [opn]) \<and>
    (bt_get (slots q') h = Some (Present b n) \<longrightarrow>
      rebases [opn] = 0 \<and> (bt_get (slots q) h = Some (Present b n) \<or> opn = Complete b (generation q))) \<and>
    (b \<in> set out \<longrightarrow> (\<exists>h n. bt_get (slots q) h = Some (Present b n)))"
  proof (cases opn)
    case (DrainReadyWindow limit)
    then have "drain_ready_window limit q = (q', out, w)" using assms by simp
    then show ?thesis using DrainReadyWindow
    proof (cases rule: drain_ready_window_cases)
      case (drained q'' out')
      then show ?thesis using drain_loop_subset [OF drained(1)] DrainReadyWindow by auto
    next
      case (idle q'')
      then show ?thesis using drain_loop_idle DrainReadyWindow by auto
    qed
  next
    case DrainNext
    with assms show ?thesis by (auto simp: drain_next_pop split: if_splits option.splits slot.splits) blast
  qed (use assms in \<open>auto simp: admit_def complete_def Let_def rebase_def reclaim_slot_def
      split: if_splits option.splits slot.splits\<close>)
  then show "generation q' = generation q + of_nat (rebases [opn])"
    and "bt_get (slots q') h = Some (Present b n) \<Longrightarrow>
      rebases [opn] = 0 \<and> (bt_get (slots q) h = Some (Present b n) \<or> opn = Complete b (generation q))"
    and "b \<in> set out \<Longrightarrow> \<exists>h n. bt_get (slots q) h = Some (Present b n)" by blast+
qed

lemma run_queue_snoc:
  "fst (run_queue ht wire (ops @ [opn]) q) = fst (queue_step ht wire opn (fst (run_queue ht wire ops q)))"
proof (induction ops arbitrary: q)
  case (Cons a ops)
  show ?case using Cons.IH [of "fst (queue_step ht wire a q)"] by (simp add: Let_def case_prod_unfold)
qed (simp add: case_prod_unfold Let_def)

lemma resident_sources:
  "generation (fst (run_queue ht wire ops (new_queue low budget_bytes))) = of_nat (rebases ops) \<and>
   (\<forall>h b n. bt_get (slots (fst (run_queue ht wire ops (new_queue low budget_bytes)))) h = Some (Present b n) \<longrightarrow>
     (\<exists>before after. ops = before @ Complete b (of_nat (rebases before)) # after \<and> rebases after = 0))"
proof (induction ops rule: rev_induct)
  case Nil
  show ?case by (simp add: new_queue_def)
next
  case (snoc opn ops)
  let ?q = "fst (run_queue ht wire ops (new_queue low budget_bytes))"
  obtain q' out w where s: "queue_step ht wire opn ?q = (q', out, w)" by (metis prod.exhaust)
  note src = queue_step_sources [OF s]
  have "\<exists>before after. ops @ [opn] = before @ Complete b (of_nat (rebases before)) # after \<and> rebases after = 0"
    if "bt_get (slots q') h = Some (Present b n)" for h b n
  proof (cases "bt_get (slots ?q) h = Some (Present b n)")
    case True
    then obtain before after where "ops = before @ Complete b (of_nat (rebases before)) # after" "rebases after = 0"
      using snoc by blast
    then show ?thesis using src(2) [OF that]
      by (intro exI [of _ before] exI [of _ "after @ [opn]"]) simp
  next
    case False
    then have "opn = Complete b (generation ?q)" using src(2) [OF that] by blast
    then show ?thesis using snoc by (intro exI [of _ ops] exI [of _ "[]"]) simp
  qed
  then show ?case using src(1) snoc by (simp add: run_queue_snoc s)
qed

text \<open>
  C27: a block fetched for an abandoned branch is never delivered. Every block an operation hands to the
  consumer was completed earlier with the generation that was current then, and no rebase came in between.
\<close>

theorem no_stale_delivery:
  assumes "b \<in> set (fst (snd (queue_step ht wire opn (fst (run_queue ht wire ops (new_queue low budget_bytes))))))"
  shows "\<exists>before after. ops = before @ Complete b (of_nat (rebases before)) # after \<and> rebases after = 0"
proof -
  let ?q = "fst (run_queue ht wire ops (new_queue low budget_bytes))"
  obtain q' out w where s: "queue_step ht wire opn ?q = (q', out, w)" by (metis prod.exhaust)
  with assms obtain h n where "bt_get (slots ?q) h = Some (Present b n)"
    using queue_step_sources(3) [OF s, of b] by auto
  then show ?thesis using resident_sources [of ht wire ops low budget_bytes] by blast
qed

lemma no_stale_delivery_witness:
  "\<exists>before after. [Complete (5, 7) 0, Rebase 5, Complete (5, 9) 1] =
     before @ Complete ((5, 9) :: u32 \<times> u64) (of_nat (rebases before)) # after \<and> rebases after = 0"
  by (rule no_stale_delivery [where ht = fst and wire = snd and opn = DrainNext and low = 5 and budget_bytes = 100])
    (simp add: new_queue_def complete_def Let_def publish_gauges_def bt_get_def is_present_def rebase_def
      drain_next_def)

section \<open>Peeking\<close>

lemma peek_loop_agrees:
  assumes "unat (low_water q) + (limit - length out) < 2 ^ 32"
    and "\<And>h. low_water q \<le> h \<Longrightarrow> bt_get m h = bt_get (slots q) h"
  shows "snd (drain_loop limit q out) = peek_loop limit m (low_water q) out"
  using assms
proof (induction limit q out rule: drain_loop.induct)
  case (1 limit q out)
  have eq: "bt_get m (low_water q) = bt_get (slots q) (low_water q)" using "1.prems"(2) by simp
  show ?case
  proof (cases "length out < limit \<and> is_present (bt_get (slots q) (low_water q))")
    case True
    then obtain b n where b: "bt_get (slots q) (low_water q) = Some (Present b n)" by auto
    have "unat (low_water q) + 1 < 2 ^ 32" using "1.prems"(1) conjunct1 [OF True] by linarith
    then have low: "unat (saturating_add (low_water q) 1) = unat (low_water q) + 1"
      by (simp add: unat_saturating_add)
    then have ne: "low_water q < saturating_add (low_water q) 1" by (simp add: word_less_nat_alt)
    have "snd (drain_loop limit (pop_head n q) (out @ [b])) =
        peek_loop limit m (low_water (pop_head n q)) (out @ [b])"
      unfolding pop_head_def
    proof (rule "1.IH" [of "Present b n" b n])
      fix h
      assume "low_water (q\<lparr>slots := bt_remove (low_water q) (slots q), bytes_held := saturating_sub (bytes_held q) n,
          low_water := saturating_add (low_water q) 1\<rparr>) \<le> h"
      then have "low_water q < h" using ne by simp
      then show "bt_get m h = bt_get (slots (q\<lparr>slots := bt_remove (low_water q) (slots q),
          bytes_held := saturating_sub (bytes_held q) n, low_water := saturating_add (low_water q) 1\<rparr>)) h"
        using "1.prems"(2) [of h] by auto
    qed (use True b low "1.prems"(1) in simp_all)
    then show ?thesis using True b eq
      by (simp add: drain_loop_cases [of limit q] peek_loop.simps [of limit m "low_water q" out])
  next
    case False
    then show ?thesis using eq
      by (auto simp: drain_loop_cases [of limit q] peek_loop.simps [of limit m "low_water q" out]
          split: option.splits slot.splits)
  qed
qed

text \<open>
  Peeking shows what the next drain delivers: on every queue whose window ends below the largest
  height, the peeked blocks are exactly the ones a drain with the same limit returns.
\<close>

lemma peek_shows_next_drain:
  assumes "unat (low_water q) + unat limit < 2 ^ 32"
  shows "peek_ready_window limit q = fst (snd (drain_ready_window limit q))"
  using peek_loop_agrees [of q "unat limit" "[]" "slots q"] assms
  by (cases "drain_loop (unat limit) q []") (simp add: peek_ready_window_def drain_ready_window_def)

lemma peek_shows_next_drain_witness:
  "peek_ready_window 3 sample_queue = fst (snd (drain_ready_window 3 sample_queue)) \<and>
   peek_ready_window 3 sample_queue = [(5, 7), (6, 40)]"
  using peek_shows_next_drain [of sample_queue 3]
  by (simp add: sample_queue_eval peek_ready_window_def peek_loop.simps bt_get_def saturating_add_def)

section \<open>The watchdog\<close>

text \<open>A run of polls: the state before each poll and whether it fired.\<close>

type_synonym poll_args = "u32 \<times> nat \<times> bool \<times> bool \<times> bool"

definition poll_with :: "poll_args \<Rightarrow> stall_watchdog \<Rightarrow> stall_watchdog \<times> bool" where
  "poll_with p wd = (case p of (low, now, has_work, peers_live, confirm) \<Rightarrow> poll low now has_work peers_live confirm wd)"

fun poll_run :: "stall_watchdog \<Rightarrow> poll_args list \<Rightarrow> (stall_watchdog \<times> poll_args \<times> bool) list" where
  "poll_run wd [] = []"
| "poll_run wd (p # ps) = (wd, p, snd (poll_with p wd)) # poll_run (fst (poll_with p wd)) ps"

definition actionable :: "poll_args \<Rightarrow> bool" where
  "actionable p = (case p of (low, now, has_work, peers_live, confirm) \<Rightarrow> has_work \<and> peers_live \<and> \<not> confirm)"

definition poll_time :: "poll_args \<Rightarrow> nat" where
  "poll_time p = fst (snd p)"

lemma poll_with_simps:
  "wd_timeout (fst (poll_with p wd)) = wd_timeout wd"
  "last_low_water (fst (poll_with p wd)) = max (last_low_water wd) (fst p)"
  "snd (poll_with p wd) \<longleftrightarrow> fst p \<le> last_low_water wd \<and> actionable p \<and>
     wd_timeout wd \<le> poll_time p - last_advance wd"
  "last_advance (fst (poll_with p wd)) =
     (if fst p \<le> last_low_water wd \<and> actionable p \<and> \<not> snd (poll_with p wd) then last_advance wd else poll_time p)"
  by (cases p; auto simp: poll_with_def poll_def actionable_def poll_time_def max_def)+

lemma poll_run_invariant:
  assumes "sorted (last_advance wd # map poll_time ps)"
    and "(w1, p1, f1) \<in> set (poll_run wd ps)"
  shows "wd_timeout w1 = wd_timeout wd \<and> last_advance wd \<le> last_advance w1"
  using assms
proof (induction ps arbitrary: wd)
  case (Cons p ps)
  show ?case
  proof (cases "(w1, p1, f1) \<in> set (poll_run (fst (poll_with p wd)) ps)")
    case True
    have "sorted (last_advance (fst (poll_with p wd)) # map poll_time ps)"
      using Cons.prems(1) by (auto simp: poll_with_simps(4))
    then have "wd_timeout w1 = wd_timeout (fst (poll_with p wd)) \<and>
        last_advance (fst (poll_with p wd)) \<le> last_advance w1"
      using True by (rule Cons.IH)
    then show ?thesis using Cons.prems(1) by (auto simp: poll_with_simps(1,4) split: if_splits)
  next
    case False
    then show ?thesis using Cons.prems(2) by auto
  qed
qed simp

definition poll_state :: "stall_watchdog \<Rightarrow> poll_args list \<Rightarrow> stall_watchdog" where
  "poll_state wd ps = foldl (\<lambda>w p. fst (poll_with p w)) wd ps"

lemma poll_run_append: "poll_run wd (xs @ ys) = poll_run wd xs @ poll_run (poll_state wd xs) ys"
  by (induction xs arbitrary: wd) (simp_all add: poll_state_def)

lemma length_poll_run: "length (poll_run wd xs) = length xs"
  by (induction xs arbitrary: wd) simp_all

lemma poll_state_invariant:
  "sorted (last_advance wd # map poll_time (xs @ ys)) \<Longrightarrow>
   sorted (last_advance (poll_state wd xs) # map poll_time ys) \<and>
   last_low_water (poll_state wd xs) = foldl max (last_low_water wd) (map fst xs) \<and>
   wd_timeout (poll_state wd xs) = wd_timeout wd"
proof (induction xs arbitrary: wd)
  case (Cons x xs)
  have "sorted (last_advance (fst (poll_with x wd)) # map poll_time (xs @ ys))"
    using Cons.prems by (auto simp: poll_with_simps(4))
  from Cons.IH [OF this] show ?case by (simp add: poll_with_simps poll_state_def)
qed (simp add: poll_state_def)

text \<open>
  C29: a fire is justified. In every run of polls at non-decreasing times, when a poll fires, every poll of
  the timeout before it found work and live peers and no confirmation in flight, found no frontier above
  the highest one seen before it, and did not fire.
\<close>

theorem watchdog_justified:
  assumes "sorted (t0 # map poll_time (before @ p # between @ [r]))"
    and "poll_run (new_watchdog low t0 limit) (before @ p # between @ [r]) =
      run1 @ (wd1, p, fired1) # run2 @ [(wd2, r, True)]" "length run1 = length before"
    and "poll_time r < poll_time p + limit"
  shows "actionable p \<and> fst p \<le> last_low_water wd1 \<and> \<not> fired1 \<and>
    last_low_water wd1 = foldl max low (map fst before)"
proof -
  let ?wd = "poll_state (new_watchdog low t0 limit) before"
  let ?wd' = "fst (poll_with p ?wd)"
  have wd: "sorted (last_advance ?wd # map poll_time (p # between @ [r]))"
    "last_low_water ?wd = foldl max low (map fst before)" "wd_timeout ?wd = limit"
    using poll_state_invariant [of "new_watchdog low t0 limit" before "p # between @ [r]"] assms(1)
    by (simp_all add: new_watchdog_def)
  have "poll_run ?wd (p # between @ [r]) = (wd1, p, fired1) # run2 @ [(wd2, r, True)]"
    using assms(2,3) unfolding poll_run_append [of _ before] by (auto simp: length_poll_run)
  then have 1: "wd1 = ?wd" "fired1 = snd (poll_with p ?wd)"
    and 2: "poll_run ?wd' (between @ [r]) = run2 @ [(wd2, r, True)]" by auto
  have "sorted (last_advance ?wd' # map poll_time (between @ [r]))"
    using wd(1) by (auto simp: poll_with_simps(4))
  then have "wd_timeout wd2 = wd_timeout ?wd' \<and> last_advance ?wd' \<le> last_advance wd2"
    by (rule poll_run_invariant [of _ _ _ r True]) (simp add: 2)
  moreover have "snd (poll_with r wd2)"
    using 2 poll_run_append [of ?wd' between "[r]"] by auto
  ultimately have "last_advance ?wd' + limit \<le> poll_time r \<or> limit = 0"
    using wd(3) by (auto simp: poll_with_simps(1,3))
  then have "last_advance ?wd' \<noteq> poll_time p"
    using assms(4) wd(1) by auto
  then show ?thesis using 1 wd(2) by (auto simp: poll_with_simps(4) split: if_splits)
qed

text \<open>
  After a reorganisation from 100 down to 50 the frontier rises to 60, and the watchdog still fires: it
  compares with the highest frontier ever seen.
\<close>

lemma watchdog_ignores_progress_below_maximum:
  "map (\<lambda>(wd, p, fired). fired) (poll_run (new_watchdog 100 0 30)
     [(50, 10, True, True, False), (55, 20, True, True, False), (60, 30, True, True, False)]) =
   [False, False, True]"
  by (simp add: poll_with_def poll_def new_watchdog_def)

lemma watchdog_justified_witness:
  "actionable (60, 20, True, True, False) \<and> (60 :: u32) \<le> 60"
  using watchdog_justified [of 0 "[(60, 10, True, True, False)]" "(60, 20, True, True, False)" "[]"
      "(60, 40, True, True, False)" 50 30
      "[(new_watchdog 50 0 30, (60, 10, True, True, False), False)]"
      "(new_watchdog 60 10 30)" False "[]" "new_watchdog 60 10 30"]
  by (simp add: poll_time_def poll_with_def poll_def new_watchdog_def)

end
