(* ===== verification/SyncWindow.thy ===== *)
theory SyncWindow
  imports BTree
begin

text \<open>
  The reservation window of the header-first sync, \<^verbatim>\<open>node/src/sync/window.rs\<close>: pending heights are split
  into contiguous reservations, one per peer, and a stalled reservation returns to the pool. Sets are maps
  to \<open>unit\<close>; counts are natural numbers, as \<^verbatim>\<open>usize\<close> cannot overflow by holding that many elements.
\<close>

section \<open>State and operations\<close>

record reservation =
  res_id :: u64
  res_heights :: "u32 list"

datatype claim = Reserved reservation | Drained | Busy

record reservation_window =
  win_capacity :: nat
  known :: "(u32, unit) btree"
  reserved :: "(u64, u32 list) btree"
  reserved_set :: "(u32, unit) btree"
  next_id :: u64

definition new_window :: "nat \<Rightarrow> reservation_window" where
  "new_window cap = \<lparr>win_capacity = max cap 1, known = [], reserved = [], reserved_set = [], next_id = 0\<rparr>"

text \<open>\<^verbatim>\<open>heights[0]\<close> and the last height; a reservation without heights panics.\<close>

definition reservation_start :: "reservation \<Rightarrow> u32 option" where
  "reservation_start r = (case res_heights r of [] \<Rightarrow> None | h # _ \<Rightarrow> Some h)"

definition reservation_end :: "reservation \<Rightarrow> u32 option" where
  "reservation_end r = (if res_heights r = [] then None else Some (res_heights r ! (length (res_heights r) - 1)))"

definition live :: "reservation_window \<Rightarrow> nat" where
  "live w = length (known w) + length (reserved_set w)"

definition outstanding :: "reservation_window \<Rightarrow> nat" where
  "outstanding w = length (reserved w)"

fun refill :: "u32 list \<Rightarrow> reservation_window \<Rightarrow> reservation_window" where
  "refill [] w = w"
| "refill (h # hs) w =
     (if live w \<ge> win_capacity w then w
      else refill hs (if bt_get (reserved_set w) h = None then w\<lparr>known := bt_insert h () (known w)\<rparr> else w))"

text \<open>The loop of \<^verbatim>\<open>reserve\<close>: heights are taken out of the pool from \<open>h\<close> upwards.\<close>

function reserve_loop :: "nat \<Rightarrow> u32 \<Rightarrow> reservation_window \<Rightarrow> u32 list \<Rightarrow> reservation_window \<times> u32 list" where
  "reserve_loop batch h w heights =
     (if length heights < batch \<and> bt_get (known w) h \<noteq> None then
        reserve_loop batch (h + 1)
          (w\<lparr>known := bt_remove h (known w), reserved_set := bt_insert h () (reserved_set w)\<rparr>) (heights @ [h])
      else (w, heights))"
  by pat_completeness auto
termination
  by (relation "measure (\<lambda>(batch, h, w, heights). length (known w))") (auto dest: bt_remove_length)

declare reserve_loop.simps [simp del]

definition reserve :: "u32 \<Rightarrow> reservation_window \<Rightarrow> reservation_window \<times> claim" where
  "reserve batch w =
     (case known w of
        [] \<Rightarrow> (w, if reserved w = [] then Drained else Busy)
      | (start, _) # _ \<Rightarrow>
          let (w', heights) = reserve_loop (unat batch) start w [] in
          (w'\<lparr>next_id := next_id w' + 1, reserved := bt_insert (next_id w') heights (reserved w')\<rparr>,
           Reserved \<lparr>res_id = next_id w', res_heights = heights\<rparr>))"

definition complete_reservation :: "u64 \<Rightarrow> reservation_window \<Rightarrow> reservation_window" where
  "complete_reservation i w =
     (case bt_get (reserved w) i of
        None \<Rightarrow> w
      | Some heights \<Rightarrow> w\<lparr>reserved := bt_remove i (reserved w),
          reserved_set := foldl (\<lambda>s h. bt_remove h s) (reserved_set w) heights\<rparr>)"

definition reclaim_reservation :: "u64 \<Rightarrow> reservation_window \<Rightarrow> reservation_window" where
  "reclaim_reservation i w =
     (case bt_get (reserved w) i of
        None \<Rightarrow> w
      | Some heights \<Rightarrow> w\<lparr>reserved := bt_remove i (reserved w),
          reserved_set := foldl (\<lambda>s h. bt_remove h s) (reserved_set w) heights,
          known := foldl (\<lambda>s h. bt_insert h () s) (known w) heights\<rparr>)"

section \<open>Reachable windows\<close>

inductive window_reachable :: "reservation_window \<Rightarrow> bool" where
  win_new: "window_reachable (new_window cap)"
| win_refill: "window_reachable w \<Longrightarrow> window_reachable (refill hs w)"
| win_reserve: "window_reachable w \<Longrightarrow> unat (next_id w) + 1 < 2 ^ 64 \<Longrightarrow> window_reachable (fst (reserve batch w))"
| win_complete: "window_reachable w \<Longrightarrow> window_reachable (complete_reservation i w)"
| win_reclaim: "window_reachable w \<Longrightarrow> window_reachable (reclaim_reservation i w)"

inductive_cases window_reachableE: "window_reachable w"

section \<open>Invariant\<close>

definition pool :: "reservation_window \<Rightarrow> u32 set" where
  "pool w = set (bt_keys (known w))"

definition claimed :: "reservation_window \<Rightarrow> u32 set" where
  "claimed w = set (bt_keys (reserved_set w))"

text \<open>Every claimed height is in exactly one reservation, exactly once, and in no other place.\<close>

definition window_inv :: "reservation_window \<Rightarrow> bool" where
  "window_inv w \<longleftrightarrow> bt_wf (known w) \<and> bt_wf (reserved w) \<and> bt_wf (reserved_set w) \<and>
     pool w \<inter> claimed w = {} \<and> live w \<le> win_capacity w \<and>
     (\<forall>h. bt_weight (\<lambda>hs. count_list hs h) (reserved w) = (if h \<in> claimed w then 1 else 0)) \<and>
     (\<forall>i hs. bt_get (reserved w) i = Some hs \<longrightarrow> unat i < unat (next_id w))"

lemma window_inv_new: "window_inv (new_window cap)"
  by (simp add: window_inv_def new_window_def pool_def claimed_def live_def bt.weight_empty bt_keys_def)

lemma window_inv_refill: "window_inv w \<Longrightarrow> window_inv (refill hs w)"
proof (induction hs w rule: refill.induct)
  case (2 h hs w)
  let ?w = "if bt_get (reserved_set w) h = None then w\<lparr>known := bt_insert h () (known w)\<rparr> else w"
  have "window_inv ?w" if "live w < win_capacity w"
    using "2.prems" that length_insert_new [of "known w" h "()"] length_insert_old [of "known w" h _ "()"]
    by (cases "bt_get (known w) h") (auto simp: window_inv_def live_def pool_def claimed_def bt_keys_iff)
  then show ?case using 2 by auto
qed simp

lemma count_list_distinct: "distinct hs \<Longrightarrow> count_list hs h = (if h \<in> set hs then 1 else 0)"
  by (induction hs) auto

lemma count_list_le_1: "(\<And>h. count_list hs h \<le> 1) \<Longrightarrow> distinct hs"
proof (induction hs)
  case (Cons x hs)
  have "count_list hs h \<le> 1" for h using Cons.prems [of h] by (simp split: if_splits)
  moreover have "count_list hs x = 0" using Cons.prems [of x] by simp
  ultimately show ?case using Cons.IH by (simp add: count_list_0_iff)
qed simp

lemma reserve_loop_invariant:
  assumes "\<And>h w hs. I h w hs \<Longrightarrow> bt_get (known w) h = Some () \<Longrightarrow> length hs < batch \<Longrightarrow>
      I (h + 1) (w\<lparr>known := bt_remove h (known w), reserved_set := bt_insert h () (reserved_set w)\<rparr>) (hs @ [h])"
    and "I h w hs" "reserve_loop batch h w hs = (w', hs')"
  shows "\<exists>h'. I h' w' hs' \<and> (length hs' < batch \<longrightarrow> bt_get (known w') h' = None)"
  using assms
proof (induction batch h w hs rule: reserve_loop.induct)
  case (1 batch h w hs)
  show ?case
  proof (cases "length hs < batch \<and> bt_get (known w) h \<noteq> None")
    case True
    then have k: "bt_get (known w) h = Some ()" by (cases "bt_get (known w) h") auto
    show ?thesis
      by (rule "1.IH" [OF True])
        (use True k "1.prems" in \<open>auto simp: reserve_loop.simps [of batch h w]\<close>)
  next
    case False
    then have "w' = w" "hs' = hs" using "1.prems"(3) by (auto simp: reserve_loop.simps [of batch h w] split: if_splits)
    then show ?thesis using False "1.prems"(2) by (intro exI [of _ h]; cases "bt_get (known w) h") auto
  qed
qed

text \<open>What the loop has taken so far: a contiguous run out of the pool, each height claimed once.\<close>

definition taking :: "reservation_window \<Rightarrow> u32 \<Rightarrow> nat \<Rightarrow> u32 \<Rightarrow> reservation_window \<Rightarrow> u32 list \<Rightarrow> bool" where
  "taking w0 start batch h w hs \<longleftrightarrow>
     bt_wf (known w) \<and> bt_wf (reserved_set w) \<and> pool w \<inter> claimed w = {} \<and> live w = live w0 \<and>
     distinct hs \<and> set hs \<subseteq> pool w0 \<and> pool w = pool w0 - set hs \<and> claimed w = claimed w0 \<union> set hs \<and>
     length hs \<le> batch \<and> hs = map (\<lambda>i. start + of_nat i) [0..<length hs] \<and> h = start + of_nat (length hs) \<and>
     reserved w = reserved w0 \<and> next_id w = next_id w0 \<and> win_capacity w = win_capacity w0"

lemma taking_step:
  assumes "taking w0 start batch h w hs" "bt_get (known w) h = Some ()" "length hs < batch"
  shows "taking w0 start batch (h + 1)
    (w\<lparr>known := bt_remove h (known w), reserved_set := bt_insert h () (reserved_set w)\<rparr>) (hs @ [h])"
proof -
  have h: "h \<in> pool w" using assms(2) by (simp add: pool_def bt_keys_iff)
  then have "h \<notin> claimed w" using assms(1) by (auto simp: taking_def)
  then have new: "bt_get (reserved_set w) h = None"
    by (cases "bt_get (reserved_set w) h") (simp_all add: claimed_def bt_keys_iff)
  have "length (bt_remove h (known w)) + length (bt_insert h () (reserved_set w)) = live w"
    using assms(1,2) new length_remove [of "known w" h] length_insert_new [of "reserved_set w" h "()"]
    by (simp add: taking_def live_def)
  with h show ?thesis using assms(1,3)
    by (auto simp: taking_def live_def pool_def claimed_def)
qed

lemma reserve_taking:
  assumes "window_inv w" "known w = (start, u) # rest" "reserve_loop batch start w [] = (w', hs)"
  shows "\<exists>h. taking w start batch h w' hs \<and> (length hs < batch \<longrightarrow> bt_get (known w') h = None)"
proof (rule reserve_loop_invariant [where I = "taking w start batch", OF _ _ assms(3)])
  show "taking w start batch start w []" using assms(1) by (simp add: taking_def window_inv_def)
qed (rule taking_step)

lemma window_inv_reserve:
  assumes "window_inv w" "unat (next_id w) + 1 < 2 ^ 64"
  shows "window_inv (fst (reserve batch w))"
proof (cases "known w")
  case Nil
  then show ?thesis using assms by (simp add: reserve_def)
next
  case (Cons p rest)
  obtain start u where p: "p = (start, u)" by (cases p)
  obtain w' hs where l: "reserve_loop (unat batch) start w [] = (w', hs)" by (metis prod.exhaust)
  from reserve_taking [OF assms(1) Cons [unfolded p] l] obtain h where t: "taking w start (unat batch) h w' hs" by blast
  have id: "unat (next_id w + 1) = unat (next_id w) + 1" using assms(2) by (subst unat_add_small) simp_all
  have fresh: "bt_get (reserved w) (next_id w) = None"
    using assms(1) by (cases "bt_get (reserved w) (next_id w)") (auto simp: window_inv_def)
  have cnt: "count_list hs h = (if h \<in> set hs then 1 else 0)" for h
    using t by (simp add: taking_def count_list_distinct)
  have dis: "set hs \<inter> claimed w = {}"
    using t assms(1) by (auto simp: taking_def window_inv_def)
  have ids: "unat i < Suc (unat (next_id w))" if "bt_get (reserved w) i = Some x" for i x
    using assms(1) that by (auto simp: window_inv_def intro: less_SucI)
  have wt: "bt_weight (\<lambda>hs. count_list hs k) (bt_insert (next_id w) hs (reserved w)) =
      (if k \<in> claimed w \<union> set hs then 1 else 0)" for k
    using assms(1) fresh dis by (auto simp: bt.weight_insert_new cnt window_inv_def)
  show ?thesis
    using t assms(1) l Cons p wt ids id
    by (auto simp: reserve_def window_inv_def taking_def live_def pool_def claimed_def split: if_splits)
qed

lemma foldl_remove:
  "bt_wf s \<Longrightarrow> bt_wf (foldl (\<lambda>s h. bt_remove h s) s hs)"
  "bt_get (foldl (\<lambda>s h. bt_remove h s) s hs) k = (if k \<in> set hs then None else bt_get s k)"
  "bt_wf s \<Longrightarrow> distinct hs \<Longrightarrow> \<forall>h \<in> set hs. bt_get s h = Some () \<Longrightarrow>
     length (foldl (\<lambda>s h. bt_remove h s) s hs) + length hs = length s"
proof (induction hs arbitrary: s)
  case (Cons h hs)
  { case 1 then show ?case using Cons.IH by simp
  next case 2 then show ?case using Cons.IH by simp
  next
    case 3
    then have "length (foldl (\<lambda>s h. bt_remove h s) (bt_remove h s) hs) + length hs = length (bt_remove h s)"
      by (intro Cons.IH) auto
    with 3 length_remove [of s h "()"] show ?case by simp
  }
qed simp_all

lemma foldl_insert:
  "bt_wf s \<Longrightarrow> bt_wf (foldl (\<lambda>s h. bt_insert h () s) s hs)"
  "bt_get (foldl (\<lambda>s h. bt_insert h () s) s hs) k = (if k \<in> set hs then Some () else bt_get s k)"
  "bt_wf s \<Longrightarrow> distinct hs \<Longrightarrow> \<forall>h \<in> set hs. bt_get s h = None \<Longrightarrow>
     length (foldl (\<lambda>s h. bt_insert h () s) s hs) = length s + length hs"
proof (induction hs arbitrary: s)
  case (Cons h hs)
  { case 1 then show ?case using Cons.IH by simp
  next case 2 then show ?case using Cons.IH by simp
  next
    case 3
    then have "length (foldl (\<lambda>s h. bt_insert h () s) (bt_insert h () s) hs) = length (bt_insert h () s) + length hs"
      by (intro Cons.IH) auto
    with 3 length_insert_new [of s h "()"] show ?case by simp
  }
qed simp_all

lemma keys_foldl:
  "set (bt_keys (foldl (\<lambda>s h. bt_remove h s) s hs)) = set (bt_keys s) - set hs"
  "set (bt_keys (foldl (\<lambda>s h. bt_insert h () s) s hs)) = set (bt_keys s) \<union> set hs"
  by (auto simp: bt_keys_iff foldl_remove foldl_insert split: if_splits)

text \<open>The heights of one reservation: distinct, claimed, and in no other reservation.\<close>

lemma reservation_heights:
  assumes "window_inv w" "bt_get (reserved w) i = Some hs"
  shows "distinct hs" "set hs \<subseteq> claimed w"
    "bt_weight (\<lambda>hs. count_list hs h) (bt_remove i (reserved w)) = (if h \<in> claimed w - set hs then 1 else 0)"
proof -
  have w: "bt_weight (\<lambda>hs. count_list hs h) (bt_remove i (reserved w)) + count_list hs h =
      (if h \<in> claimed w then 1 else 0)" for h
    using bt.weight_remove [OF _ assms(2), of "\<lambda>hs. count_list hs h"] assms(1) by (auto simp: window_inv_def)
  have le: "count_list hs h \<le> (if h \<in> claimed w then 1 else 0)" for h using w [of h] by linarith
  have "count_list hs h \<le> 1" for h using le [of h] by (simp split: if_splits)
  then show "distinct hs" by (rule count_list_le_1)
  show sub: "set hs \<subseteq> claimed w"
  proof
    fix h
    assume "h \<in> set hs"
    then have "count_list hs h \<noteq> 0" by (simp add: count_list_0_iff)
    then show "h \<in> claimed w" using le [of h] by (simp split: if_splits)
  qed
  have "count_list hs h = (if h \<in> set hs then 1 else 0)"
    using \<open>distinct hs\<close> by (rule count_list_distinct)
  then show "bt_weight (\<lambda>hs. count_list hs h) (bt_remove i (reserved w)) = (if h \<in> claimed w - set hs then 1 else 0)"
    using w [of h] sub by (auto split: if_splits)
qed

lemma window_inv_complete:
  assumes "window_inv w"
  shows "window_inv (complete_reservation i w)"
proof (cases "bt_get (reserved w) i")
  case (Some hs)
  note r = reservation_heights [OF assms Some]
  have res: "\<forall>h \<in> set hs. bt_get (reserved_set w) h = Some ()"
    using r(2) by (auto simp: claimed_def bt_keys_iff)
  have len: "length (foldl (\<lambda>s h. bt_remove h s) (reserved_set w) hs) \<le> length (reserved_set w)"
    using foldl_remove(3) [OF _ r(1) res] assms by (simp add: window_inv_def)
  with assms Some r(3) show ?thesis
    by (auto simp: complete_reservation_def window_inv_def live_def pool_def claimed_def keys_foldl
        foldl_remove split: if_splits)
qed (simp add: complete_reservation_def assms)

lemma window_inv_reclaim:
  assumes "window_inv w"
  shows "window_inv (reclaim_reservation i w)"
proof (cases "bt_get (reserved w) i")
  case (Some hs)
  note r = reservation_heights [OF assms Some]
  have res: "\<forall>h \<in> set hs. bt_get (reserved_set w) h = Some ()"
    using r(2) by (auto simp: claimed_def bt_keys_iff)
  have "set hs \<inter> pool w = {}" using r(2) assms by (auto simp: window_inv_def)
  then have new: "\<forall>h \<in> set hs. bt_get (known w) h = None"
    unfolding pool_def by (metis bt_keys_iff disjoint_iff)
  have len: "length (foldl (\<lambda>s h. bt_remove h s) (reserved_set w) hs) + length hs = length (reserved_set w)"
    "length (foldl (\<lambda>s h. bt_insert h () s) (known w) hs) = length (known w) + length hs"
    using foldl_remove(3) [OF _ r(1) res] foldl_insert(3) [OF _ r(1) new] assms by (simp_all add: window_inv_def)
  with assms Some r(3) show ?thesis
    by (auto simp: reclaim_reservation_def window_inv_def live_def pool_def claimed_def keys_foldl
        foldl_remove foldl_insert split: if_splits)
qed (simp add: reclaim_reservation_def assms)

lemma reachable_window_inv: "window_reachable w \<Longrightarrow> window_inv w"
  by (induction rule: window_reachable.induct)
    (auto intro: window_inv_new window_inv_refill window_inv_reserve window_inv_complete window_inv_reclaim)

text \<open>
  C30: in every reachable window the identifiers held never exceed the capacity, no height is both pending
  and claimed, and every claimed height belongs to exactly one outstanding reservation, exactly once.
\<close>

theorem window_invariant:
  assumes "window_reachable w"
  shows "live w \<le> win_capacity w \<and> pool w \<inter> claimed w = {} \<and>
    (\<forall>h. (\<Sum>(i, hs)\<leftarrow>reserved w. count_list hs h) = (if h \<in> claimed w then 1 else 0))"
  using reachable_window_inv [OF assms] by (simp add: window_inv_def bt_weight_def case_prod_unfold)

definition sample_window :: reservation_window where
  "sample_window = refill [7, 5, 6, 9] (new_window 3)"

lemma sample_window_eval:
  "sample_window = \<lparr>win_capacity = 3, known = [(5, ()), (6, ()), (7, ())], reserved = [], reserved_set = [], next_id = 0\<rparr>"
  by (simp add: sample_window_def new_window_def live_def bt_get_def)

lemma sample_window_reachable: "window_reachable sample_window" "window_reachable (fst (reserve 2 sample_window))"
proof -
  show r: "window_reachable sample_window" unfolding sample_window_def by (intro window_reachable.intros)
  show "window_reachable (fst (reserve 2 sample_window))"
    by (rule win_reserve [OF r]) (simp add: sample_window_eval)
qed

lemma sample_reserve_eval:
  "reserve 2 sample_window =
     (\<lparr>win_capacity = 3, known = [(7, ())], reserved = [(0, [5, 6])], reserved_set = [(5, ()), (6, ())], next_id = 1\<rparr>,
      Reserved \<lparr>res_id = 0, res_heights = [5, 6]\<rparr>)"
  by (simp add: sample_window_eval reserve_def reserve_loop.simps bt_remove_def bt_get_def)

lemma window_invariant_witness: "live (fst (reserve 2 sample_window)) \<le> 3"
  using window_invariant [OF sample_window_reachable(2)] by (simp add: sample_reserve_eval)

section \<open>No height is lost\<close>

text \<open>
  C31: no height is lost or handed out twice. A reservation is a run of consecutive pending heights from
  the lowest one, at most as many as asked and as long as the run goes on; claiming and reclaiming move
  heights between the pool and the claims and drop none, completing removes exactly the heights of that
  reservation, and the window reports that it is drained only when it holds nothing.
\<close>

theorem heights_conserved:
  assumes "window_reachable w"
  shows "(case reserve batch w of
      (w', Reserved r) \<Rightarrow> pool w \<noteq> {} \<and> set (res_heights r) \<subseteq> pool w \<and>
        res_heights r = map (\<lambda>i. Min (pool w) + of_nat i) [0..<length (res_heights r)] \<and>
        length (res_heights r) \<le> unat batch \<and>
        (length (res_heights r) < unat batch \<longrightarrow> Min (pool w) + of_nat (length (res_heights r)) \<notin> pool w - set (res_heights r)) \<and>
        pool w' = pool w - set (res_heights r) \<and> claimed w' = claimed w \<union> set (res_heights r)
    | (w', Drained) \<Rightarrow> w' = w \<and> pool w = {} \<and> claimed w = {}
    | (w', Busy) \<Rightarrow> w' = w \<and> pool w = {} \<and> reserved w \<noteq> []) \<and>
    pool (reclaim_reservation i w) \<union> claimed (reclaim_reservation i w) = pool w \<union> claimed w \<and>
    pool (complete_reservation i w) = pool w \<and>
    claimed (complete_reservation i w) =
      claimed w - (case bt_get (reserved w) i of None \<Rightarrow> {} | Some hs \<Rightarrow> set hs)"
proof (intro conjI)
  have inv: "window_inv w" using assms by (rule reachable_window_inv)
  show "case reserve batch w of
      (w', Reserved r) \<Rightarrow> pool w \<noteq> {} \<and> set (res_heights r) \<subseteq> pool w \<and>
        res_heights r = map (\<lambda>i. Min (pool w) + of_nat i) [0..<length (res_heights r)] \<and>
        length (res_heights r) \<le> unat batch \<and>
        (length (res_heights r) < unat batch \<longrightarrow> Min (pool w) + of_nat (length (res_heights r)) \<notin> pool w - set (res_heights r)) \<and>
        pool w' = pool w - set (res_heights r) \<and> claimed w' = claimed w \<union> set (res_heights r)
    | (w', Drained) \<Rightarrow> w' = w \<and> pool w = {} \<and> claimed w = {}
    | (w', Busy) \<Rightarrow> w' = w \<and> pool w = {} \<and> reserved w \<noteq> []"
  proof (cases "known w")
    case Nil
    moreover have "claimed w = {}" if "reserved w = []"
      using inv that by (auto simp: window_inv_def bt.weight_empty split: if_splits)
    ultimately show ?thesis by (simp add: reserve_def pool_def bt_keys_def)
  next
    case (Cons p rest)
    obtain start u where p: "p = (start, u)" by (cases p)
    have "sorted_wrt (<) (bt_keys (known w))" using inv by (simp add: window_inv_def bt_wf_def)
    then have min: "Min (pool w) = start"
      unfolding pool_def using Cons p by (intro Min_eqI) (auto simp: bt_keys_def intro: less_imp_le)
    obtain w' hs where l: "reserve_loop (unat batch) start w [] = (w', hs)" by (metis prod.exhaust)
    from reserve_taking [OF inv Cons [unfolded p] l] obtain h
      where t: "taking w start (unat batch) h w' hs" "length hs < unat batch \<longrightarrow> h \<notin> pool w'"
      by (auto simp: pool_def bt_keys_iff)
    have ne: "pool w \<noteq> {}" using Cons by (simp add: pool_def bt_keys_def)
    have upd: "pool (w'\<lparr>next_id := a, reserved := b\<rparr>) = pool w'" "claimed (w'\<lparr>next_id := a, reserved := b\<rparr>) = claimed w'" for a b
      by (simp_all add: pool_def claimed_def)
    show ?thesis
      using t ne by (simp add: reserve_def Cons p l min upd taking_def)
  qed
  show "pool (reclaim_reservation i w) \<union> claimed (reclaim_reservation i w) = pool w \<union> claimed w"
  proof (cases "bt_get (reserved w) i")
    case (Some hs)
    then show ?thesis using reservation_heights(2) [OF inv Some]
      by (auto simp: reclaim_reservation_def pool_def claimed_def keys_foldl)
  qed (simp add: reclaim_reservation_def)
qed (simp_all add: complete_reservation_def pool_def claimed_def keys_foldl split: option.split)

lemma heights_conserved_witness: "{5, 6} \<subseteq> pool sample_window \<and> claimed (fst (reserve 2 sample_window)) = {5, 6}"
proof -
  have "claimed sample_window = {}" by (simp add: sample_window_eval claimed_def bt_keys_def)
  then show ?thesis
    using heights_conserved [OF sample_window_reachable(1), of 2 0] by (simp add: sample_reserve_eval)
qed

end
