(* ===== verification/RecordCache.thy ===== *)
theory RecordCache
  imports BTree Consensus
begin

text \<open>
  The window of recent block records, \<^verbatim>\<open>node/src/cache.rs\<close>: records by hash, hashes by height and the
  summaries by height, with the lowest height evicted first.
\<close>

section \<open>State and operations\<close>

definition BLOCK_RECORD_WINDOW :: nat where "BLOCK_RECORD_WINDOW = 5120"

record record_cache =
  cache_capacity :: nat
  by_hash :: "bytes \<rightharpoonup> block_record"
  by_height :: "(u32, bytes) btree"
  sub_epoch_summaries :: "(u32, sub_epoch_summary) btree"

definition new_cache :: "nat \<Rightarrow> record_cache" where
  "new_cache cap = \<lparr>cache_capacity = max cap 1, by_hash = Map.empty, by_height = [], sub_epoch_summaries = []\<rparr>"

definition with_default_window :: record_cache where
  "with_default_window = new_cache BLOCK_RECORD_WINDOW"

definition cache_len :: "record_cache \<Rightarrow> nat" where
  "cache_len c = length (by_height c)"

definition cache_is_empty :: "record_cache \<Rightarrow> bool" where
  "cache_is_empty c = (by_height c = [])"

text \<open>The eviction loop of \<^verbatim>\<open>insert\<close>.\<close>

function evict :: "record_cache \<Rightarrow> record_cache" where
  "evict c =
     (if length (by_height c) > cache_capacity c then
        (case by_height c of
           [] \<Rightarrow> c
         | (low, low_hash) # _ \<Rightarrow>
             evict (c\<lparr>by_height := bt_remove low (by_height c), by_hash := (by_hash c)(low_hash := None),
                     sub_epoch_summaries := bt_remove low (sub_epoch_summaries c)\<rparr>))
      else c)"
  by pat_completeness auto
termination
proof (relation "measure (\<lambda>c. length (by_height c))", simp, clarsimp)
  fix c :: record_cache and low low_hash rest
  assume "by_height c = (low, low_hash) # rest"
  then have "bt_get (by_height c) low = Some low_hash" by (simp add: bt_get_def)
  from bt_remove_length [OF this] show "length (bt_remove low ((low, low_hash) # rest)) < Suc (length rest)"
    using \<open>by_height c = (low, low_hash) # rest\<close> by simp
qed

declare evict.simps [simp del]

definition insert_record :: "block_record \<Rightarrow> record_cache \<Rightarrow> record_cache" where
  "insert_record r c =
     (let h = br_height r; hash = br_header_hash r;
          hashes = (case bt_get (by_height c) h of
                      Some old \<Rightarrow> if old \<noteq> hash then (by_hash c)(old := None) else by_hash c
                    | None \<Rightarrow> by_hash c);
          ses = (case br_sub_epoch_summary_included r of
                   Some s \<Rightarrow> bt_insert h s (sub_epoch_summaries c)
                 | None \<Rightarrow> bt_remove h (sub_epoch_summaries c))
      in evict (c\<lparr>by_height := bt_insert h hash (by_height c), by_hash := hashes(hash \<mapsto> r),
                 sub_epoch_summaries := ses\<rparr>))"

definition get_by_height :: "record_cache \<Rightarrow> u32 \<Rightarrow> block_record option" where
  "get_by_height c h = Option.bind (bt_get (by_height c) h) (by_hash c)"

definition sub_epoch_summary_at_or_below :: "record_cache \<Rightarrow> u32 \<Rightarrow> (u32 \<times> sub_epoch_summary) option" where
  "sub_epoch_summary_at_or_below c h =
     (case filter (\<lambda>p. fst p \<le> h) (sub_epoch_summaries c) of [] \<Rightarrow> None | ps \<Rightarrow> Some (last ps))"

definition latest_sub_epoch_summary :: "record_cache \<Rightarrow> (u32 \<times> sub_epoch_summary) option" where
  "latest_sub_epoch_summary c =
     (case sub_epoch_summaries c of [] \<Rightarrow> None | ps \<Rightarrow> Some (last ps))"

text \<open>
  Caches filled with records whose header hash determines their height, as it commits to it:
  \<open>hh\<close> is that function.
\<close>

inductive cache_reachable :: "(bytes \<Rightarrow> u32) \<Rightarrow> record_cache \<Rightarrow> bool" for hh :: "bytes \<Rightarrow> u32" where
  cache_new: "cache_reachable hh (new_cache cap)"
| cache_insert: "cache_reachable hh c \<Longrightarrow> br_height r = hh (br_header_hash r) \<Longrightarrow>
    cache_reachable hh (insert_record r c)"

section \<open>Consistency\<close>

definition indexed :: "(bytes \<Rightarrow> u32) \<Rightarrow> record_cache \<Rightarrow> bool" where
  "indexed hh c \<longleftrightarrow> bt_wf (by_height c) \<and> bt_wf (sub_epoch_summaries c) \<and>
     (\<forall>h x. bt_get (by_height c) h = Some x \<longrightarrow>
        hh x = h \<and> (\<exists>r. by_hash c x = Some r \<and> br_header_hash r = x \<and> br_height r = h)) \<and>
     (\<forall>x r. by_hash c x = Some r \<longrightarrow> bt_get (by_height c) (br_height r) = Some x) \<and>
     (\<forall>h. bt_get (sub_epoch_summaries c) h = Option.bind (get_by_height c h) br_sub_epoch_summary_included)"

lemma indexed_hash: "indexed hh c \<Longrightarrow> by_hash c x = Some r \<Longrightarrow>
    br_header_hash r = x \<and> hh x = br_height r \<and> bt_get (by_height c) (br_height r) = Some x"
proof -
  assume i: "indexed hh c" "by_hash c x = Some r"
  then have h: "bt_get (by_height c) (br_height r) = Some x" by (simp add: indexed_def)
  with i show ?thesis by (fastforce simp: indexed_def)
qed

text \<open>Dropping one height from the three tables.\<close>

definition drop_height :: "u32 \<Rightarrow> bytes \<Rightarrow> record_cache \<Rightarrow> record_cache" where
  "drop_height h x c = c\<lparr>by_height := bt_remove h (by_height c), by_hash := (by_hash c)(x := None),
     sub_epoch_summaries := bt_remove h (sub_epoch_summaries c)\<rparr>"

lemma drop_height_indexed:
  assumes "indexed hh c" "bt_get (by_height c) h = Some x"
  shows "indexed hh (drop_height h x c)"
    and "get_by_height (drop_height h x c) = (get_by_height c)(h := None)"
proof -
  have hx: "hh x = h" using assms by (auto simp: indexed_def)
  have other: "hh y = k" if "bt_get (by_height c) k = Some y" for k y using assms(1) that by (auto simp: indexed_def)
  show g: "get_by_height (drop_height h x c) = (get_by_height c)(h := None)"
  proof
    fix k
    show "get_by_height (drop_height h x c) k = ((get_by_height c)(h := None)) k"
      using hx other [of k] by (auto simp: get_by_height_def drop_height_def bind_eq_None_conv split: Option.bind_split)
  qed
  have s: "bt_get (sub_epoch_summaries (drop_height h x c)) k =
      Option.bind (get_by_height (drop_height h x c) k) br_sub_epoch_summary_included" for k
    unfolding g using assms(1) by (simp add: indexed_def drop_height_def)
  have a: "\<exists>r. by_hash (drop_height h x c) y = Some r \<and> br_header_hash r = y \<and> br_height r = k"
    if "bt_get (by_height (drop_height h x c)) k = Some y" for k y
    using assms(1) that hx by (auto simp: indexed_def drop_height_def split: if_splits)
  have b: "bt_get (by_height (drop_height h x c)) (br_height r) = Some y"
    if "by_hash (drop_height h x c) y = Some r" for y r
  proof -
    have y: "by_hash c y = Some r" "y \<noteq> x" using that by (auto simp: drop_height_def split: if_splits)
    then have "bt_get (by_height c) (br_height r) = Some y" using indexed_hash [OF assms(1)] by blast
    moreover from this y(2) assms(2) have "br_height r \<noteq> h" by auto
    ultimately show ?thesis by (simp add: drop_height_def)
  qed
  have "bt_wf (by_height (drop_height h x c)) \<and> bt_wf (sub_epoch_summaries (drop_height h x c))"
    using assms(1) by (simp add: indexed_def drop_height_def)
  moreover have "hh y = k" if "bt_get (by_height (drop_height h x c)) k = Some y" for k y
    using that other [of k y] by (auto simp: drop_height_def split: if_splits)
  ultimately show "indexed hh (drop_height h x c)" unfolding indexed_def using s a b by blast
qed

text \<open>The tables after the record is entered and before eviction.\<close>

definition enter :: "block_record \<Rightarrow> record_cache \<Rightarrow> record_cache" where
  "enter r c = c\<lparr>by_height := bt_insert (br_height r) (br_header_hash r) (by_height c),
     by_hash := ((case bt_get (by_height c) (br_height r) of
        Some old \<Rightarrow> if old \<noteq> br_header_hash r then (by_hash c)(old := None) else by_hash c
      | None \<Rightarrow> by_hash c))(br_header_hash r \<mapsto> r),
     sub_epoch_summaries := (case br_sub_epoch_summary_included r of
        Some s \<Rightarrow> bt_insert (br_height r) s (sub_epoch_summaries c)
      | None \<Rightarrow> bt_remove (br_height r) (sub_epoch_summaries c))\<rparr>"

lemma insert_record_enter: "insert_record r c = evict (enter r c)"
  by (simp add: insert_record_def enter_def Let_def)

lemma by_hash_enter:
  "by_hash (enter r c) y = (if y = br_header_hash r then Some r
     else if bt_get (by_height c) (br_height r) = Some y then None else by_hash c y)"
  by (auto simp: enter_def split: option.split)

lemma by_height_enter [simp]:
  "by_height (enter r c) = bt_insert (br_height r) (br_header_hash r) (by_height c)"
  "cache_capacity (enter r c) = cache_capacity c"
  by (simp_all add: enter_def)

lemma enter_indexed:
  assumes "indexed hh c" "br_height r = hh (br_header_hash r)"
  shows "indexed hh (enter r c)" and "get_by_height (enter r c) = (get_by_height c)(br_height r \<mapsto> r)"
proof -
  have other: "hh y = k \<and> (\<exists>r. by_hash c y = Some r \<and> br_header_hash r = y \<and> br_height r = k)"
    if "bt_get (by_height c) k = Some y" for k y using assms(1) that by (simp add: indexed_def)
  show g: "get_by_height (enter r c) = (get_by_height c)(br_height r \<mapsto> r)"
  proof
    fix k
    show "get_by_height (enter r c) k = ((get_by_height c)(br_height r \<mapsto> r)) k"
    proof (cases "k = br_height r")
      case False
      then have "y \<noteq> br_header_hash r \<and> bt_get (by_height c) (br_height r) \<noteq> Some y"
        if "bt_get (by_height c) k = Some y" for y
        using that other [of k y] other [of "br_height r" y] assms(2) by auto
      with False show ?thesis
        by (cases "bt_get (by_height c) k") (simp_all add: get_by_height_def by_hash_enter)
    qed (simp add: get_by_height_def by_hash_enter)
  qed
  have s: "bt_get (sub_epoch_summaries (enter r c)) k =
      Option.bind (get_by_height (enter r c) k) br_sub_epoch_summary_included" for k
    unfolding g using assms(1) by (simp add: indexed_def enter_def split: option.split)
  have a: "hh y = k \<and> (\<exists>r'. by_hash (enter r c) y = Some r' \<and> br_header_hash r' = y \<and> br_height r' = k)"
    if "bt_get (by_height (enter r c)) k = Some y" for k y
  proof (cases "k = br_height r")
    case True
    then show ?thesis using that assms(2) by (simp add: by_hash_enter)
  next
    case False
    then have y: "bt_get (by_height c) k = Some y" using that by simp
    then have "y \<noteq> br_header_hash r" "bt_get (by_height c) (br_height r) \<noteq> Some y"
      using other [of k y] other [of "br_height r" y] False assms(2) by auto
    then show ?thesis using other [OF y] by (simp add: by_hash_enter)
  qed
  have b: "bt_get (by_height (enter r c)) (br_height r') = Some y" if "by_hash (enter r c) y = Some r'" for y r'
    using that indexed_hash [OF assms(1), of y r'] by (auto simp: by_hash_enter split: if_splits)
  have "bt_wf (by_height (enter r c)) \<and> bt_wf (sub_epoch_summaries (enter r c))"
    using assms(1) by (auto simp: indexed_def enter_def split: option.split)
  then show "indexed hh (enter r c)" unfolding indexed_def using s a b by blast
qed

lemma evict_cases:
  "evict c = (if length (by_height c) > cache_capacity c then
     (case by_height c of [] \<Rightarrow> c | (low, x) # _ \<Rightarrow> evict (drop_height low x c)) else c)"
  by (subst evict.simps) (simp add: drop_height_def split: list.split prod.split)

lemma get_by_height_dom:
  assumes "indexed hh c"
  shows "dom (get_by_height c) = set (bt_keys (by_height c))" "card (dom (get_by_height c)) = length (by_height c)"
proof -
  have found: "\<exists>r. by_hash c x = Some r" if "bt_get (by_height c) h = Some x" for h x
    using assms that unfolding indexed_def by blast
  show d: "dom (get_by_height c) = set (bt_keys (by_height c))"
  proof (rule set_eqI)
    fix h
    show "h \<in> dom (get_by_height c) \<longleftrightarrow> h \<in> set (bt_keys (by_height c))"
      using found [of h] by (cases "bt_get (by_height c) h") (auto simp: bt_keys_iff get_by_height_def)
  qed
  have "distinct (bt_keys (by_height c))"
    using assms by (simp add: indexed_def bt_wf_def strict_sorted_iff)
  then show "card (dom (get_by_height c)) = length (by_height c)"
    unfolding d using distinct_card [of "bt_keys (by_height c)"] by (simp add: bt_keys_def)
qed

lemma bt_wf_Min: "bt_wf ((k, v) # m) \<Longrightarrow> Min (set (bt_keys ((k, v) # m))) = (k :: 'k::linorder)"
  by (intro Min_eqI) (auto simp: bt_wf_def bt_keys_def intro: less_imp_le)

text \<open>One eviction at most restores the bound after a record is entered.\<close>

lemma evict_once:
  assumes "indexed hh c" "length (by_height c) \<le> cache_capacity c + 1" "cache_capacity c > 0"
  shows "indexed hh (evict c) \<and> length (by_height (evict c)) \<le> cache_capacity c \<and>
    cache_capacity (evict c) = cache_capacity c \<and>
    get_by_height (evict c) = (if length (by_height c) \<le> cache_capacity c then get_by_height c
      else (get_by_height c)(Min (dom (get_by_height c)) := None))"
proof (cases "length (by_height c) > cache_capacity c")
  case True
  then obtain low x rest where l: "by_height c = (low, x) # rest" by (cases "by_height c") auto
  then have g: "bt_get (by_height c) low = Some x" by (simp add: bt_get_def)
  have "length (by_height (drop_height low x c)) + 1 = length (by_height c)"
    using length_remove [OF _ g] assms(1) by (simp add: drop_height_def indexed_def)
  then have le: "length (by_height (drop_height low x c)) \<le> cache_capacity (drop_height low x c)"
    using assms(2) by (simp add: drop_height_def)
  then have e: "evict c = drop_height low x c"
    using True l by (simp add: evict_cases [of c] evict_cases [of "drop_height low x c"])
  have "Min (dom (get_by_height c)) = low"
    unfolding get_by_height_dom(1) [OF assms(1)] l using assms(1) l by (intro bt_wf_Min) (simp add: indexed_def)
  with True le show ?thesis unfolding e using drop_height_indexed [OF assms(1) g]
    by (simp add: drop_height_def)
next
  case False
  then show ?thesis using assms by (simp add: evict_cases [of c])
qed

definition cache_inv :: "(bytes \<Rightarrow> u32) \<Rightarrow> record_cache \<Rightarrow> bool" where
  "cache_inv hh c \<longleftrightarrow> indexed hh c \<and> length (by_height c) \<le> cache_capacity c \<and> cache_capacity c > 0"

lemma insert_record_evicts:
  assumes "cache_inv hh c" "br_height r = hh (br_header_hash r)"
  shows "cache_inv hh (insert_record r c) \<and>
    (let m = (get_by_height c)(br_height r \<mapsto> r)
     in get_by_height (insert_record r c) =
        (if card (dom m) \<le> cache_capacity c then m else m(Min (dom m) := None)))"
proof -
  have i: "indexed hh (enter r c)" "get_by_height (enter r c) = (get_by_height c)(br_height r \<mapsto> r)"
    using enter_indexed [of hh c r] assms by (simp_all add: cache_inv_def)
  have wf: "bt_wf (by_height c)" using assms(1) by (simp add: cache_inv_def indexed_def)
  have "length (by_height (enter r c)) \<le> length (by_height c) + 1"
    using length_insert_new [OF wf, of "br_height r" "br_header_hash r"]
      length_insert_old [OF wf, of "br_height r" _ "br_header_hash r"]
    by (cases "bt_get (by_height c) (br_height r)") auto
  then have "length (by_height (enter r c)) \<le> cache_capacity (enter r c) + 1"
    using assms(1) by (simp add: cache_inv_def)
  from evict_once [OF i(1) this] get_by_height_dom(2) [OF i(1)] i(2) assms(1) show ?thesis
    by (simp add: cache_inv_def insert_record_enter Let_def)
qed

lemma reachable_cache_inv: "cache_reachable hh c \<Longrightarrow> cache_inv hh c"
proof (induction rule: cache_reachable.induct)
  case (cache_new cap)
  show ?case by (simp add: cache_inv_def indexed_def new_cache_def get_by_height_def)
next
  case (cache_insert c r)
  then show ?case using insert_record_evicts by blast
qed

text \<open>
  C32: the cache is a window of the newest heights. Inserting a record into a reachable cache sets its
  height, over whatever block a reorganisation replaces, and, when that makes more heights than the
  capacity, drops the lowest one; no other height changes. Records are found by hash exactly when they are
  found by height, and summaries are exactly those of the records held.
\<close>

theorem cache_is_window:
  assumes "cache_reachable hh c" "br_height r = hh (br_header_hash r)"
  shows "let c' = insert_record r c; m = (get_by_height c)(br_height r \<mapsto> r)
    in get_by_height c' = (if card (dom m) \<le> cache_capacity c then m else m(Min (dom m) := None)) \<and>
       cache_len c' \<le> cache_capacity c' \<and>
       (\<forall>x b. by_hash c' x = Some b \<longleftrightarrow> br_header_hash b = x \<and> get_by_height c' (br_height b) = Some b) \<and>
       (\<forall>h. bt_get (sub_epoch_summaries c') h = Option.bind (get_by_height c' h) br_sub_epoch_summary_included)"
proof -
  define c' where "c' = insert_record r c"
  have inv: "cache_inv hh c'" and get: "get_by_height c' =
      (let m = (get_by_height c)(br_height r \<mapsto> r)
       in if card (dom m) \<le> cache_capacity c then m else m(Min (dom m) := None))"
    using insert_record_evicts [OF reachable_cache_inv [OF assms(1)] assms(2)] by (simp_all add: c'_def Let_def)
  then have i: "indexed hh c'" by (simp add: cache_inv_def)
  have "by_hash c' x = Some b \<longleftrightarrow> br_header_hash b = x \<and> get_by_height c' (br_height b) = Some b" for x b
  proof
    assume "by_hash c' x = Some b"
    then show "br_header_hash b = x \<and> get_by_height c' (br_height b) = Some b"
      using indexed_hash [OF i, of x b] by (simp add: get_by_height_def)
  next
    assume "br_header_hash b = x \<and> get_by_height c' (br_height b) = Some b"
    then show "by_hash c' x = Some b"
      using indexed_hash [OF i, of _ b] by (auto simp: get_by_height_def Option.bind_eq_Some_conv)
  qed
  then show ?thesis
    using inv get i by (simp add: c'_def [symmetric] Let_def cache_inv_def cache_len_def indexed_def)
qed

lemma cache_is_window_witness:
  "\<exists>a b :: block_record. br_height a = 4 \<and> br_height b = 7 \<and>
     get_by_height (insert_record b (insert_record a (new_cache 0))) = [7 \<mapsto> b]"
proof -
  define hh :: "bytes \<Rightarrow> u32" where "hh x = (if x = [4] then 4 else 7)" for x
  define a b where "a = (undefined :: block_record)\<lparr>br_header_hash := [4], br_height := 4\<rparr>"
    and "b = (undefined :: block_record)\<lparr>br_header_hash := [7], br_height := 7\<rparr>"
  have hab: "br_height a = hh (br_header_hash a)" "br_height b = hh (br_header_hash b)"
    by (simp_all add: a_def b_def hh_def)
  have n: "cache_reachable hh (new_cache 0)" "get_by_height (new_cache 0) = Map.empty" "cache_capacity (new_cache 0) = 1"
    by (rule cache_new) (simp_all add: new_cache_def get_by_height_def fun_eq_iff)
  have ra: "get_by_height (insert_record a (new_cache 0)) = [4 \<mapsto> a]"
    using cache_is_window [OF n(1) hab(1)] by (simp add: n a_def Let_def)
  have r: "cache_reachable hh (insert_record a (new_cache 0))" using n(1) hab(1) by (rule cache_insert)
  have "cache_capacity (insert_record a (new_cache 0)) = 1"
    by (simp add: insert_record_enter enter_def new_cache_def evict.simps)
  then have "get_by_height (insert_record b (insert_record a (new_cache 0))) = [7 \<mapsto> b]"
    using cache_is_window [OF r hab(2)] by (simp add: ra b_def Let_def)
  moreover have "br_height a = 4 \<and> br_height b = 7" by (simp add: a_def b_def)
  ultimately show ?thesis by blast
qed

end
