(* ===== verification/TxQueue.thy ===== *)
theory TxQueue
  imports XchPrelude
begin

text \<open>
  The gossip-transaction inbox, \<^verbatim>\<open>full-node/src/tx_queue.rs\<close>: a trusted lane drained first and, per untrusted
  peer, a lane ordered by advertised fee per cost and served by deficit round robin. The bundles are values
  of a type parameter, as the queue never looks into them; \<^verbatim>\<open>usize\<close> counts are natural numbers.
\<close>

section \<open>State\<close>

datatype cmp_ordering = Less | Equal | Greater

record 'b untrusted_tx =
  tx_bundle :: 'b
  advertised_fee :: u64
  advertised_cost :: u64

record 'b peer_lane =
  queue :: "'b untrusted_tx list"
  deficit :: u64

record 'b tx_queue =
  high :: "(bytes \<times> 'b) list"
  lanes :: "bytes \<rightharpoonup> 'b peer_lane"
  order :: "bytes list"
  cursor :: nat
  total_untrusted :: nat
  cap :: nat
  per_peer :: nat
  max_tx_clvm_cost :: u64

definition cmp_u128 :: "u128 \<Rightarrow> u128 \<Rightarrow> cmp_ordering" where
  "cmp_u128 a b = (if a < b then Less else if a = b then Equal else Greater)"

definition fee_per_cost_desc :: "'b untrusted_tx \<Rightarrow> 'b untrusted_tx \<Rightarrow> cmp_ordering" where
  "fee_per_cost_desc a b =
     (if advertised_cost a = 0 \<and> advertised_cost b = 0 then Equal
      else if advertised_cost a = 0 then Greater
      else if advertised_cost b = 0 then Less
      else cmp_u128 (ucast (advertised_fee b) * ucast (advertised_cost a))
             (ucast (advertised_fee a) * ucast (advertised_cost b)))"

definition new_tx_queue :: "nat \<Rightarrow> nat \<Rightarrow> u64 \<Rightarrow> 'b tx_queue" where
  "new_tx_queue c p fallback = \<lparr>high = [], lanes = Map.empty, order = [], cursor = 0, total_untrusted = 0,
     cap = c, per_peer = p, max_tx_clvm_cost = max fallback 1\<rparr>"

section \<open>Admission\<close>

text \<open>\<^verbatim>\<open>position(..).unwrap_or(len)\<close> and \<^verbatim>\<open>insert(pos, ..)\<close>: before the first entry with a lower fee per cost.\<close>

definition insert_by_fpc :: "'b untrusted_tx \<Rightarrow> 'b untrusted_tx list \<Rightarrow> 'b untrusted_tx list" where
  "insert_by_fpc e es =
     takeWhile (\<lambda>x. fee_per_cost_desc x e \<noteq> Greater) es @ e #
     dropWhile (\<lambda>x. fee_per_cost_desc x e \<noteq> Greater) es"

definition empty_lane :: "'b peer_lane" where
  "empty_lane = \<lparr>queue = [], deficit = 0\<rparr>"

definition push :: "bytes \<Rightarrow> 'b \<Rightarrow> bool \<Rightarrow> u64 \<Rightarrow> u64 \<Rightarrow> 'b tx_queue \<Rightarrow> 'b tx_queue \<times> bool" where
  "push peer b high_priority fee cost q =
     (if high_priority then (q\<lparr>high := high q @ [(peer, b)]\<rparr>, True)
      else if total_untrusted q \<ge> cap q then (q, False)
      else
        let q = (if lanes q peer = None then q\<lparr>order := order q @ [peer]\<rparr> else q);
            lane = (case lanes q peer of None \<Rightarrow> empty_lane | Some l \<Rightarrow> l);
            q = q\<lparr>lanes := (lanes q)(peer \<mapsto> lane)\<rparr>
        in if length (queue lane) \<ge> per_peer q then (q, False)
           else (q\<lparr>lanes := (lanes q)(peer \<mapsto> lane\<lparr>queue :=
                      insert_by_fpc \<lparr>tx_bundle = b, advertised_fee = fee, advertised_cost = cost\<rparr> (queue lane)\<rparr>),
                    total_untrusted := total_untrusted q + 1\<rparr>, True))"

section \<open>Service\<close>

definition top_cost :: "'b tx_queue \<Rightarrow> 'b peer_lane \<Rightarrow> u64 option" where
  "top_cost q lane =
     (case queue lane of
        [] \<Rightarrow> None
      | e # _ \<Rightarrow> Some (if advertised_cost e > 0 then advertised_cost e else max_tx_clvm_cost q))"

text \<open>Taking the top transaction of the peer at \<open>idx\<close>.\<close>

definition serve :: "nat \<Rightarrow> bytes \<Rightarrow> 'b peer_lane \<Rightarrow> u64 \<Rightarrow> 'b tx_queue \<Rightarrow> 'b tx_queue \<times> (bytes \<times> 'b)" where
  "serve idx peer lane cost q =
     (let lane' = \<lparr>queue = tl (queue lane),
                   deficit = (if tl (queue lane) = [] then 0 else deficit lane - cost)\<rparr>
      in (q\<lparr>lanes := (lanes q)(peer \<mapsto> lane'), cursor := (idx + 1) mod length (order q),
            total_untrusted := total_untrusted q - 1\<rparr>, (peer, tx_bundle (hd (queue lane)))))"

text \<open>One walk over the peers: a transaction served, or the lowest cost nobody could afford.\<close>

fun scan :: "'b tx_queue \<Rightarrow> nat list \<Rightarrow> u64 option \<Rightarrow> ('b tx_queue \<times> (bytes \<times> 'b)) + u64 option" where
  "scan q [] lowest = Inr lowest"
| "scan q (off # offs) lowest =
     (let idx = (cursor q + off) mod length (order q); peer = order q ! idx
      in case lanes q peer of
           None \<Rightarrow> scan q offs lowest
         | Some lane \<Rightarrow>
             (case top_cost q lane of
                None \<Rightarrow> scan q offs lowest
              | Some cost \<Rightarrow>
                  if deficit lane \<ge> cost then Inl (serve idx peer lane cost q)
                  else scan q offs (Some (case lowest of None \<Rightarrow> cost | Some m \<Rightarrow> min m cost))))"

definition replenish_one :: "u64 \<Rightarrow> (bytes \<rightharpoonup> 'b peer_lane) \<Rightarrow> bytes \<Rightarrow> (bytes \<rightharpoonup> 'b peer_lane)" where
  "replenish_one add m peer =
     (case m peer of
        Some lane \<Rightarrow> if queue lane \<noteq> [] then m(peer \<mapsto> lane\<lparr>deficit := saturating_add (deficit lane) add\<rparr>) else m
      | None \<Rightarrow> m)"

definition replenish :: "u64 \<Rightarrow> 'b tx_queue \<Rightarrow> 'b tx_queue" where
  "replenish add q = q\<lparr>lanes := foldl (replenish_one add) (lanes q) (order q)\<rparr>"

text \<open>The loop of \<^verbatim>\<open>pop_untrusted\<close>; \<open>None\<close> if it never ends.\<close>

partial_function (option) pop_loop :: "'b tx_queue \<Rightarrow> ('b tx_queue \<times> (bytes \<times> 'b) option) option" where
  "pop_loop q =
     (case scan q [0..<length (order q)] None of
        Inl (q', entry) \<Rightarrow> Some (q', Some entry)
      | Inr None \<Rightarrow> Some (q, None)
      | Inr (Some add) \<Rightarrow> pop_loop (replenish add q))"

definition pop_untrusted :: "'b tx_queue \<Rightarrow> ('b tx_queue \<times> (bytes \<times> 'b) option) option" where
  "pop_untrusted q = (if total_untrusted q = 0 then Some (q, None) else pop_loop q)"

partial_function (option) drain_untrusted ::
    "'b tx_queue \<Rightarrow> (bytes \<times> 'b) list \<Rightarrow> ('b tx_queue \<times> (bytes \<times> 'b) list) option" where
  "drain_untrusted q out =
     (case pop_untrusted q of
        None \<Rightarrow> None
      | Some (q', None) \<Rightarrow> Some (q', out)
      | Some (q', Some entry) \<Rightarrow> drain_untrusted q' (out @ [entry]))"

definition drain_batch :: "'b tx_queue \<Rightarrow> ('b tx_queue \<times> (bytes \<times> 'b) list) option" where
  "drain_batch q =
     (case drain_untrusted (q\<lparr>high := []\<rparr>) (high q) of
        None \<Rightarrow> None
      | Some (q', out) \<Rightarrow> Some (q'\<lparr>lanes := Map.empty, order := [], cursor := 0\<rparr>, out))"

definition clear_tx_queue :: "'b tx_queue \<Rightarrow> 'b tx_queue" where
  "clear_tx_queue q = q\<lparr>high := [], lanes := Map.empty, order := [], cursor := 0, total_untrusted := 0\<rparr>"

definition tx_queue_len :: "'b tx_queue \<Rightarrow> nat" where
  "tx_queue_len q = length (high q) + total_untrusted q"

definition tx_queue_is_empty :: "'b tx_queue \<Rightarrow> bool" where
  "tx_queue_is_empty q = (high q = [] \<and> total_untrusted q = 0)"

section \<open>Reachable queues\<close>

inductive txq_reachable :: "'b tx_queue \<Rightarrow> bool" where
  txq_new: "txq_reachable (new_tx_queue c p fallback)"
| txq_push: "txq_reachable q \<Longrightarrow> txq_reachable (fst (push peer b hp fee cost q))"
| txq_pop: "txq_reachable q \<Longrightarrow> pop_untrusted q = Some (q', r) \<Longrightarrow> txq_reachable q'"
| txq_drain: "txq_reachable q \<Longrightarrow> drain_batch q = Some (q', out) \<Longrightarrow> txq_reachable q'"
| txq_clear: "txq_reachable q \<Longrightarrow> txq_reachable (clear_tx_queue q)"

end
