(* ===== verification/TxQueueSound.thy ===== *)
theory TxQueueSound
  imports TxQueue
begin

text \<open>
  Correctness of the gossip-transaction inbox: the order by fee per cost, the invariant of the reachable
  queues, and that a drain ends after serving every lane completely.
\<close>

section \<open>Fee per cost\<close>

lemma unat_cross: "unat (ucast (f :: u64) * ucast (c :: u64) :: u128) = unat f * unat c"
proof -
  have "unat f < 2 ^ 64" "unat c < 2 ^ 64"
    using unsigned_less [of f, where ?'a = nat] unsigned_less [of c, where ?'a = nat] by simp_all
  then have "unat f * unat c < 2 ^ 64 * 2 ^ 64" by (intro mult_strict_mono) simp_all
  then have "unat (ucast f :: u128) * unat (ucast c :: u128) < 2 ^ LENGTH(128)" by simp
  then show ?thesis by (subst unat_mult_small) simp_all
qed

text \<open>At least as good as: no cost information is worst, otherwise the fractions compare.\<close>

definition fpc_ge :: "'b untrusted_tx \<Rightarrow> 'b untrusted_tx \<Rightarrow> bool" where
  "fpc_ge a b \<longleftrightarrow> advertised_cost b = 0 \<or> advertised_cost a \<noteq> 0 \<and>
     unat (advertised_fee b) * unat (advertised_cost a) \<le> unat (advertised_fee a) * unat (advertised_cost b)"

lemma fee_per_cost_desc_iff: "fee_per_cost_desc a b \<noteq> Greater \<longleftrightarrow> fpc_ge a b"
  by (auto simp: fee_per_cost_desc_def fpc_ge_def cmp_u128_def word_less_nat_alt word_unat_eq_iff unat_cross)

lemma fpc_ge_total: "fpc_ge a b \<or> fpc_ge b a"
  by (auto simp: fpc_ge_def)

lemma fpc_ge_trans:
  assumes "fpc_ge a b" "fpc_ge b c"
  shows "fpc_ge a c"
proof (cases "advertised_cost c = 0")
  case False
  let ?fa = "unat (advertised_fee a)" and ?fb = "unat (advertised_fee b)" and ?fc = "unat (advertised_fee c)"
  let ?ca = "unat (advertised_cost a)" and ?cb = "unat (advertised_cost b)" and ?cc = "unat (advertised_cost c)"
  from False assms(2) have b: "advertised_cost b \<noteq> 0" "?fc * ?cb \<le> ?fb * ?cc" by (auto simp: fpc_ge_def)
  with assms(1) have a: "advertised_cost a \<noteq> 0" "?fb * ?ca \<le> ?fa * ?cb" by (auto simp: fpc_ge_def)
  have "?fc * ?cb * ?ca \<le> ?fb * ?cc * ?ca" using b(2) by (rule mult_right_mono) simp
  also have "\<dots> = ?fb * ?ca * ?cc" by simp
  also have "\<dots> \<le> ?fa * ?cb * ?cc" using a(2) by (rule mult_right_mono) simp
  finally have "?cb * (?fc * ?ca) \<le> ?cb * (?fa * ?cc)" by (simp add: ac_simps)
  moreover have "0 < ?cb" using b(1) by (simp add: unat_pos_iff word_gt_0)
  ultimately show ?thesis using a(1) by (simp add: fpc_ge_def)
qed (simp add: fpc_ge_def)

lemma insert_by_fpc_fpc:
  "insert_by_fpc e es = takeWhile (\<lambda>x. fpc_ge x e) es @ e # dropWhile (\<lambda>x. fpc_ge x e) es"
  by (simp add: insert_by_fpc_def fee_per_cost_desc_iff)

lemma insert_by_fpc_sorted:
  assumes "sorted_wrt fpc_ge es"
  shows "sorted_wrt fpc_ge (insert_by_fpc e es)"
proof -
  define xs ys where "xs = takeWhile (\<lambda>x. fpc_ge x e) es" and "ys = dropWhile (\<lambda>x. fpc_ge x e) es"
  have es: "es = xs @ ys" by (simp add: xs_def ys_def)
  have xs: "\<forall>x \<in> set xs. fpc_ge x e" by (auto simp: xs_def dest: set_takeWhileD)
  have "fpc_ge e y" if y: "y \<in> set ys" for y
  proof -
    obtain z zs where z: "ys = z # zs" using y by (cases ys) auto
    then have "\<not> fpc_ge z e" by (metis ys_def hd_dropWhile list.distinct(1) list.sel(1))
    then have "fpc_ge e z" using fpc_ge_total by blast
    moreover have "y = z \<or> fpc_ge z y" using assms y z by (auto simp: es sorted_wrt_append)
    ultimately show ?thesis using fpc_ge_trans by blast
  qed
  moreover have "sorted_wrt fpc_ge (xs @ ys)" using assms es by simp
  moreover have "insert_by_fpc e es = xs @ e # ys" by (simp add: insert_by_fpc_fpc xs_def ys_def)
  ultimately show ?thesis using xs by (auto simp: sorted_wrt_append)
qed

lemma length_insert_by_fpc [simp]: "length (insert_by_fpc e es) = Suc (length es)"
proof -
  have "length es = length (takeWhile P es) + length (dropWhile P es)" for P
    by (metis length_append takeWhile_dropWhile_id)
  then show ?thesis unfolding insert_by_fpc_def by simp
qed

section \<open>Invariant\<close>

definition lane_queue :: "'b tx_queue \<Rightarrow> bytes \<Rightarrow> 'b untrusted_tx list" where
  "lane_queue q p = (case lanes q p of None \<Rightarrow> [] | Some lane \<Rightarrow> queue lane)"

definition txq_inv :: "'b tx_queue \<Rightarrow> bool" where
  "txq_inv q \<longleftrightarrow> distinct (order q) \<and> set (order q) = dom (lanes q) \<and> max_tx_clvm_cost q > 0 \<and>
     total_untrusted q = (\<Sum>p\<leftarrow>order q. length (lane_queue q p)) \<and> total_untrusted q \<le> cap q \<and>
     (\<forall>p. length (lane_queue q p) \<le> per_peer q \<and> sorted_wrt fpc_ge (lane_queue q p))"

lemma txq_inv_new: "txq_inv (new_tx_queue c p fallback)"
proof -
  have "0 < max fallback 1" by (rule less_le_trans [of _ 1]) simp_all
  then show ?thesis by (simp add: txq_inv_def new_tx_queue_def lane_queue_def)
qed

lemma sum_list_update:
  assumes "distinct xs" "p \<in> set xs" "\<And>x. x \<in> set xs \<Longrightarrow> x \<noteq> p \<Longrightarrow> g x = (f x :: nat)"
  shows "(\<Sum>x\<leftarrow>xs. g x) + f p = (\<Sum>x\<leftarrow>xs. f x) + g p"
  using assms
proof (induction xs)
  case (Cons x xs)
  show ?case
  proof (cases "x = p")
    case True
    then have "(\<Sum>x\<leftarrow>xs. g x) = (\<Sum>x\<leftarrow>xs. f x)"
      using Cons.prems by (intro arg_cong [of _ _ sum_list] map_cong) auto
    with True show ?thesis by simp
  next
    case False
    then show ?thesis using Cons by auto
  qed
qed simp

lemma push_inv:
  assumes "txq_inv q"
  shows "txq_inv (fst (push peer b hp fee cost q))"
proof (cases "hp \<or> total_untrusted q \<ge> cap q")
  case True
  with assms show ?thesis by (auto simp: push_def txq_inv_def lane_queue_def)
next
  case False
  define lane where "lane = (case lanes q peer of None \<Rightarrow> empty_lane | Some l \<Rightarrow> l)"
  define q1 where "q1 = q\<lparr>order := (if lanes q peer = None then order q @ [peer] else order q),
    lanes := (lanes q)(peer \<mapsto> lane)\<rparr>"
  have lq: "lane_queue q1 p = lane_queue q p" "lane_queue q peer = queue lane" for p
    by (auto simp: lane_queue_def q1_def lane_def empty_lane_def split: option.split)
  have "(\<Sum>p\<leftarrow>order q1. length (lane_queue q1 p)) = (\<Sum>p\<leftarrow>order q. length (lane_queue q p))"
    by (simp add: lq) (simp add: q1_def lane_queue_def)
  then have inv1: "txq_inv q1"
    using assms by (auto simp: txq_inv_def lq) (auto simp: q1_def split: if_splits)
  define e where "e = \<lparr>tx_bundle = b, advertised_fee = fee, advertised_cost = cost\<rparr>"
  define q2 where "q2 = q1\<lparr>lanes := (lanes q1)(peer \<mapsto> lane\<lparr>queue := insert_by_fpc e (queue lane)\<rparr>),
    total_untrusted := total_untrusted q1 + 1\<rparr>"
  have p: "fst (push peer b hp fee cost q) = (if length (queue lane) \<ge> per_peer q then q1 else q2)"
    using False by (simp add: push_def Let_def q1_def q2_def e_def lane_def cong: option.case_cong)
  have l2: "lane_queue q2 p = (if p = peer then insert_by_fpc e (queue lane) else lane_queue q1 p)" for p
    by (simp add: q2_def lane_queue_def)
  have peer: "peer \<in> set (order q1)" "distinct (order q1)" using inv1 by (auto simp: txq_inv_def q1_def)
  have "txq_inv q2" if "length (queue lane) < per_peer q"
  proof -
    have "(\<Sum>p\<leftarrow>order q1. length (lane_queue q2 p)) + length (lane_queue q1 peer) =
        (\<Sum>p\<leftarrow>order q1. length (lane_queue q1 p)) + length (lane_queue q2 peer)"
      by (rule sum_list_update [OF peer(2,1)]) (simp add: l2)
    then have "(\<Sum>p\<leftarrow>order q1. length (lane_queue q2 p)) = total_untrusted q1 + 1"
      using inv1 lq by (simp add: l2 txq_inv_def)
    moreover have "total_untrusted q1 + 1 \<le> cap q1" using False by (simp add: q1_def)
    moreover have "sorted_wrt fpc_ge (insert_by_fpc e (queue lane))"
      using assms unfolding lq(2) [symmetric] by (intro insert_by_fpc_sorted) (simp add: txq_inv_def)
    ultimately show ?thesis
      using inv1 that lq by (auto simp: txq_inv_def l2) (auto simp: q2_def q1_def)
  qed
  with inv1 show ?thesis unfolding p by simp
qed

section \<open>Service\<close>

text \<open>What serving a peer does to the queue, seen from outside.\<close>

definition served :: "'b tx_queue \<Rightarrow> 'b tx_queue \<Rightarrow> bytes \<times> 'b \<Rightarrow> bool" where
  "served q q' entry \<longleftrightarrow> (\<exists>p e es. entry = (p, tx_bundle e) \<and> lane_queue q p = e # es \<and>
     (\<forall>x. lane_queue q' x = (if x = p then es else lane_queue q x)) \<and>
     total_untrusted q' = total_untrusted q - 1 \<and> dom (lanes q') = dom (lanes q) \<and>
     high q' = high q \<and> order q' = order q \<and> cap q' = cap q \<and> per_peer q' = per_peer q \<and>
     max_tx_clvm_cost q' = max_tx_clvm_cost q)"

lemma top_cost_Some:
  "top_cost q lane = Some cost \<Longrightarrow> \<exists>e es. queue lane = e # es"
  by (auto simp: top_cost_def split: list.splits)

lemma scan_served:
  "scan q offs low = Inl (q', entry) \<Longrightarrow> served q q' entry"
proof (induction q offs low rule: scan.induct)
  case (2 q off offs low)
  let ?peer = "order q ! ((cursor q + off) mod length (order q))"
  show ?case
  proof (cases "lanes q ?peer")
    case None
    then show ?thesis using 2 by (simp add: Let_def)
  next
    case (Some lane)
    show ?thesis
    proof (cases "top_cost q lane")
      case None
      then show ?thesis using 2 Some by (simp add: Let_def)
    next
      case c: (Some cost)
      show ?thesis
      proof (cases "deficit lane \<ge> cost")
        case True
        obtain e es where e: "queue lane = e # es" using top_cost_Some [OF c] by blast
        have "(q', entry) = serve ((cursor q + off) mod length (order q)) ?peer lane cost q"
          using "2.prems" Some c True by (simp add: Let_def)
        then show ?thesis using Some e
          by (auto simp: served_def serve_def Let_def lane_queue_def)
      next
        case False
        then show ?thesis using 2 Some c by (simp add: Let_def)
      qed
    qed
  qed
qed simp

text \<open>The costs of the lanes a walk looks at.\<close>

definition lane_cost :: "'b tx_queue \<Rightarrow> bytes \<Rightarrow> u64 option" where
  "lane_cost q p = Option.bind (lanes q p) (top_cost q)"

definition lane_deficit :: "'b tx_queue \<Rightarrow> bytes \<Rightarrow> u64" where
  "lane_deficit q p = (case lanes q p of None \<Rightarrow> 0 | Some lane \<Rightarrow> deficit lane)"

text \<open>A walk serves somebody as soon as one of the peers it looks at can pay.\<close>

lemma scan_affordable:
  assumes "off \<in> set offs" "lane_cost q (order q ! ((cursor q + off) mod length (order q))) = Some cost"
    "cost \<le> lane_deficit q (order q ! ((cursor q + off) mod length (order q)))"
  shows "\<exists>r. scan q offs low = Inl r"
  using assms
proof (induction q offs low rule: scan.induct)
  case (2 q o' offs low)
  show ?case
  proof (cases "o' = off")
    case True
    then show ?thesis using "2.prems"(2,3)
      by (auto simp: Let_def lane_cost_def lane_deficit_def Option.bind_eq_Some_conv simp del: split_paired_Ex)
  next
    case False
    then show ?thesis using 2
      by (simp add: Let_def del: split_paired_Ex split: option.split)
  qed
qed simp

text \<open>A walk that serves nobody reports a cost that one of the lanes has, if a lane has any.\<close>

lemma scan_lowest:
  assumes "scan q offs low = Inr r"
  shows "(r = low \<or> (\<exists>off \<in> set offs. lane_cost q (order q ! ((cursor q + off) mod length (order q))) = r)) \<and>
    (r = None \<longrightarrow> low = None \<and>
      (\<forall>off \<in> set offs. lane_cost q (order q ! ((cursor q + off) mod length (order q))) = None))"
  using assms
proof (induction q offs low rule: scan.induct)
  case (2 q off offs low)
  let ?peer = "order q ! ((cursor q + off) mod length (order q))"
  show ?case
  proof (cases "lane_cost q ?peer")
    case None
    then have s: "scan q offs low = Inr r"
      using "2.prems" by (auto simp: Let_def lane_cost_def split: option.splits)
    have "(r = low \<or> (\<exists>off \<in> set offs. lane_cost q (order q ! ((cursor q + off) mod length (order q))) = r)) \<and>
      (r = None \<longrightarrow> low = None \<and>
        (\<forall>off \<in> set offs. lane_cost q (order q ! ((cursor q + off) mod length (order q))) = None))"
    proof (cases "lanes q ?peer")
      case no_lane: None
      from "2.IH"(1) [OF refl refl no_lane s] show ?thesis .
    next
      case (Some lane)
      then have "top_cost q lane = None" using None by (simp add: lane_cost_def)
      from "2.IH"(2) [OF refl refl Some this s] show ?thesis .
    qed
    then show ?thesis using None by auto
  next
    case (Some cost)
    then obtain lane where l: "lanes q ?peer = Some lane" "top_cost q lane = Some cost"
      by (auto simp: lane_cost_def Option.bind_eq_Some_conv)
    with "2.prems" have s: "scan q offs (Some (case low of None \<Rightarrow> cost | Some m \<Rightarrow> min m cost)) = Inr r"
      and d: "\<not> deficit lane \<ge> cost" by (auto simp: Let_def split: if_splits)
    have "(r = Some (case low of None \<Rightarrow> cost | Some m \<Rightarrow> min m cost) \<or>
        (\<exists>off \<in> set offs. lane_cost q (order q ! ((cursor q + off) mod length (order q))) = r)) \<and> r \<noteq> None"
      using "2.IH"(3) [OF refl refl l d s] by auto
    then show ?thesis using Some by (auto simp: min_def split: option.splits if_splits)
  qed
qed simp

lemma all_positions:
  assumes "x \<in> set xs"
  shows "\<exists>off \<in> set [0..<length xs]. xs ! ((c + off) mod length xs) = x"
proof -
  obtain i where i: "i < length xs" "xs ! i = x" using assms by (auto simp: in_set_conv_nth)
  define n where "n = length xs"
  have n: "0 < n" using i by (auto simp: n_def)
  have "(c + (i + (n - c mod n)) mod n) mod n = (c mod n + (i + (n - c mod n))) mod n"
    by (metis mod_add_left_eq mod_add_right_eq)
  also have "c mod n + (i + (n - c mod n)) = i + n" using mod_less_divisor [OF n, of c] by linarith
  finally have "(c + (i + (n - c mod n)) mod n) mod n = i" using i by (simp add: n_def)
  moreover have "(i + (n - c mod n)) mod n \<in> set [0..<n]" using n by simp
  ultimately show ?thesis using i(2) unfolding n_def by metis
qed

lemma foldl_replenish:
  assumes "distinct ps"
  shows "foldl (replenish_one add) m ps x =
    (if x \<in> set ps then map_option (\<lambda>lane. if queue lane \<noteq> [] then lane\<lparr>deficit := saturating_add (deficit lane) add\<rparr>
        else lane) (m x) else m x)"
  using assms
proof (induction ps arbitrary: m)
  case (Cons p ps)
  have "replenish_one add m p x = (if x = p then map_option (\<lambda>lane. if queue lane \<noteq> []
      then lane\<lparr>deficit := saturating_add (deficit lane) add\<rparr> else lane) (m x) else m x)"
    by (auto simp: replenish_one_def split: option.split)
  with Cons show ?case by auto
qed simp

lemma replenish_simps:
  assumes "txq_inv q"
  shows "lane_queue (replenish add q) p = lane_queue q p" "lane_cost (replenish add q) p = lane_cost q p"
    "lane_cost q p = Some cost \<Longrightarrow> add \<le> lane_deficit (replenish add q) p"
    "dom (lanes (replenish add q)) = dom (lanes q)"
proof -
  have l: "lanes (replenish add q) p = (if p \<in> dom (lanes q) then map_option (\<lambda>lane. if queue lane \<noteq> []
      then lane\<lparr>deficit := saturating_add (deficit lane) add\<rparr> else lane) (lanes q p) else lanes q p)" for p
    using assms foldl_replenish [of "order q" add "lanes q" p] by (simp add: replenish_def txq_inv_def)
  show "lane_queue (replenish add q) p = lane_queue q p"
    by (auto simp: lane_queue_def l split: option.split)
  have "top_cost (replenish add q) lane = top_cost q lane" for lane
    by (simp add: top_cost_def replenish_def split: list.split)
  then show "lane_cost (replenish add q) p = lane_cost q p"
    by (cases "lanes q p") (simp_all add: lane_cost_def l, simp add: top_cost_def)
  show "dom (lanes (replenish add q)) = dom (lanes q)" by (auto simp: l dom_def split: if_splits)
  assume "lane_cost q p = Some cost"
  then obtain lane where "lanes q p = Some lane" "queue lane \<noteq> []"
    using top_cost_Some by (fastforce simp: lane_cost_def Option.bind_eq_Some_conv)
  moreover have "add \<le> saturating_add (deficit lane) add"
    using unsigned_less [of add, where ?'a = nat] by (simp add: word_le_nat_alt unat_saturating_add)
  ultimately show "add \<le> lane_deficit (replenish add q) p"
    by (simp add: lane_deficit_def l domI)
qed

lemma replenish_fields [simp]:
  "order (replenish add q) = order q" "cursor (replenish add q) = cursor q"
  "total_untrusted (replenish add q) = total_untrusted q" "high (replenish add q) = high q"
  "cap (replenish add q) = cap q" "per_peer (replenish add q) = per_peer q"
  "max_tx_clvm_cost (replenish add q) = max_tx_clvm_cost q"
  by (simp_all add: replenish_def)

lemma replenish_inv: "txq_inv q \<Longrightarrow> txq_inv (replenish add q)"
  using replenish_simps [where q = q and add = add] by (simp add: txq_inv_def)

lemma served_replenish: "txq_inv q \<Longrightarrow> served (replenish add q) q' entry \<Longrightarrow> served q q' entry"
  using replenish_simps [where q = q and add = add] by (auto simp: served_def)

lemma lane_cost_iff: "lane_cost q p = None \<longleftrightarrow> lane_queue q p = []"
  by (auto simp: lane_cost_def lane_queue_def top_cost_def split: option.split list.split)

text \<open>Two walks at most: what nobody could pay before the deficits grow, somebody can pay after.\<close>

lemma pop_loop_serves:
  assumes "txq_inv q" "total_untrusted q > 0"
  shows "\<exists>q' entry. pop_loop q = Some (q', Some entry) \<and> served q q' entry"
proof -
  let ?offs = "[0..<length (order q)]"
  have "\<exists>p \<in> set (order q). lane_queue q p \<noteq> []"
  proof (rule ccontr)
    assume "\<not> ?thesis"
    then have "(\<Sum>p\<leftarrow>order q. length (lane_queue q p)) = 0" by (simp add: sum_list_eq_0_iff)
    moreover have "total_untrusted q = (\<Sum>p\<leftarrow>order q. length (lane_queue q p))"
      using assms(1) unfolding txq_inv_def by blast
    ultimately show False using assms(2) by linarith
  qed
  then obtain p where p: "p \<in> set (order q)" "lane_queue q p \<noteq> []" by blast
  obtain off where off: "off \<in> set ?offs" "order q ! ((cursor q + off) mod length (order q)) = p"
    using all_positions [OF p(1), of "cursor q"] by blast
  show ?thesis
  proof (cases "scan q ?offs None")
    case (Inl r)
    obtain q' entry where r: "r = (q', entry)" by (cases r)
    show ?thesis using scan_served [of q ?offs None q' entry] Inl r
      by (subst pop_loop.simps) (simp add: r del: split_paired_Ex)
  next
    case (Inr r)
    have "r \<noteq> None"
    proof
      assume "r = None"
      then have "lane_cost q p = None" using scan_lowest [OF Inr] off by auto
      then show False using p(2) by (simp add: lane_cost_iff)
    qed
    then obtain add where add: "r = Some add" by blast
    then obtain off' where o': "off' \<in> set ?offs"
      "lane_cost q (order q ! ((cursor q + off') mod length (order q))) = Some add"
      using scan_lowest [OF Inr] by auto
    have "\<exists>r. scan (replenish add q) ?offs None = Inl r"
      using scan_affordable [of off' ?offs "replenish add q" add None] o' replenish_simps [OF assms(1)]
      by simp
    then obtain q' entry where s: "scan (replenish add q) ?offs None = Inl (q', entry)" by auto
    have "pop_loop q = pop_loop (replenish add q)"
      by (subst pop_loop.simps) (simp add: Inr add)
    also have "\<dots> = Some (q', Some entry)" by (subst pop_loop.simps) (simp add: s)
    finally show ?thesis using served_replenish [OF assms(1) scan_served [OF s]] by blast
  qed
qed

lemma served_inv: "txq_inv q \<Longrightarrow> served q q' entry \<Longrightarrow> total_untrusted q > 0 \<Longrightarrow> txq_inv q'"
proof -
  assume inv: "txq_inv q" and sv: "served q q' entry" and pos: "total_untrusted q > 0"
  from sv obtain p e es where s: "lane_queue q p = e # es"
    "\<And>x. lane_queue q' x = (if x = p then es else lane_queue q x)"
    "total_untrusted q' = total_untrusted q - 1" "dom (lanes q') = dom (lanes q)" "order q' = order q"
    "cap q' = cap q" "per_peer q' = per_peer q" "max_tx_clvm_cost q' = max_tx_clvm_cost q"
    by (auto simp: served_def)
  have "p \<in> set (order q)" using inv s(1) by (auto simp: txq_inv_def lane_queue_def split: option.splits)
  then have "(\<Sum>x\<leftarrow>order q. length (lane_queue q' x)) + length (lane_queue q p) =
      (\<Sum>x\<leftarrow>order q. length (lane_queue q x)) + length (lane_queue q' p)"
    using inv by (intro sum_list_update) (auto simp: txq_inv_def s(2))
  then have "(\<Sum>x\<leftarrow>order q. length (lane_queue q' x)) = total_untrusted q - 1"
    using inv s(1,2) by (simp add: txq_inv_def)
  moreover have "length es \<le> per_peer q \<and> sorted_wrt fpc_ge es"
    using inv s(1) by (metis Suc_leD length_Cons sorted_wrt.simps(2) txq_inv_def)
  ultimately show "txq_inv q'" using inv s(2-) by (auto simp: txq_inv_def)
qed

text \<open>The transactions of one peer in a batch.\<close>

definition from_peer :: "bytes \<Rightarrow> (bytes \<times> 'b) list \<Rightarrow> 'b list" where
  "from_peer p batch = map snd (filter (\<lambda>x. fst x = p) batch)"

lemma drain_untrusted_spec:
  assumes "txq_inv q"
  shows "\<exists>q' batch. drain_untrusted q out = Some (q', out @ batch) \<and> txq_inv q' \<and> total_untrusted q' = 0 \<and>
    length batch = total_untrusted q \<and> high q' = high q \<and>
    (\<forall>p. from_peer p batch = map tx_bundle (lane_queue q p))"
  using assms
proof (induction "total_untrusted q" arbitrary: q out)
  case 0
  then have "lane_queue q p = []" for p
    by (cases "p \<in> set (order q)") (auto simp: txq_inv_def lane_queue_def split: option.splits)
  then show ?case using 0
    by (subst drain_untrusted.simps) (simp add: pop_untrusted_def from_peer_def)
next
  case (Suc n)
  obtain q1 entry where p: "pop_loop q = Some (q1, Some entry)" and s: "served q q1 entry"
    using pop_loop_serves [OF Suc.prems] Suc.hyps(2) by auto
  have inv1: "txq_inv q1" using served_inv [OF Suc.prems s] Suc.hyps(2) by simp
  from s obtain pr e es where e: "entry = (pr, tx_bundle e)" "lane_queue q pr = e # es"
    "\<And>x. lane_queue q1 x = (if x = pr then es else lane_queue q x)" "total_untrusted q1 = total_untrusted q - 1"
    "high q1 = high q" by (auto simp: served_def)
  have n: "n = total_untrusted q1" using Suc.hyps(2) e(4) by simp
  from Suc.hyps(1) [OF n inv1, of "out @ [entry]"] obtain q' batch where r:
    "drain_untrusted q1 (out @ [entry]) = Some (q', (out @ [entry]) @ batch)" "txq_inv q'" "total_untrusted q' = 0"
    "length batch = total_untrusted q1" "high q' = high q1" "\<forall>p. from_peer p batch = map tx_bundle (lane_queue q1 p)"
    by auto
  have "drain_untrusted q out = Some (q', out @ entry # batch)"
    using p r(1) Suc.hyps(2) [symmetric] by (subst drain_untrusted.simps) (simp add: pop_untrusted_def)
  moreover have "from_peer x (entry # batch) = map tx_bundle (lane_queue q x)" for x
    using r(6) e(1-3) by (auto simp: from_peer_def)
  ultimately show ?case using r e(4,5) Suc.hyps(2)
    by (intro exI [of _ q'] exI [of _ "entry # batch"]) auto
qed

lemma reachable_txq_inv: "txq_reachable q \<Longrightarrow> txq_inv q"
proof (induction rule: txq_reachable.induct)
  case (txq_new c p fallback)
  show ?case by (rule txq_inv_new)
next
  case (txq_push q peer b hp fee cost)
  then show ?case by (simp add: push_inv)
next
  case (txq_pop q q' r)
  then show ?case using pop_loop_serves [of q] served_inv
    by (cases "total_untrusted q = 0") (fastforce simp: pop_untrusted_def)+
next
  case (txq_drain q q' out)
  have "txq_inv (q\<lparr>high := []\<rparr>)" using txq_drain.IH by (simp add: txq_inv_def lane_queue_def)
  from drain_untrusted_spec [OF this, of "high q"] txq_drain(2) show ?case
    by (auto simp: drain_batch_def txq_inv_def lane_queue_def)
next
  case (txq_clear q)
  then show ?case by (simp add: clear_tx_queue_def txq_inv_def lane_queue_def)
qed


text \<open>
  C33: a drain of a reachable inbox ends, empties it, and returns every transaction once: the trusted ones
  first in the order they came, then for each peer exactly its lane, best fee per cost first, however the
  deficit rotation interleaves the peers.
\<close>

theorem drain_complete:
  assumes "txq_reachable q"
  shows "\<exists>q' batch. drain_batch q = Some (q', high q @ batch) \<and> tx_queue_is_empty q' \<and>
    length batch = total_untrusted q \<and> (\<forall>p. from_peer p batch = map tx_bundle (lane_queue q p))"
proof -
  have "txq_inv (q\<lparr>high := []\<rparr>)"
    using reachable_txq_inv [OF assms] by (simp add: txq_inv_def lane_queue_def)
  from drain_untrusted_spec [OF this, of "high q"] show ?thesis
    by (auto simp: drain_batch_def tx_queue_is_empty_def lane_queue_def)
qed

text \<open>Two peers of two transactions each and a trusted one.\<close>

definition sample_inbox :: "nat tx_queue" where
  "sample_inbox = fst (push [7] 50 True 0 0 (fst (push [2] 40 False 9 10 (fst (push [1] 20 False 90 10
     (fst (push [1] 10 False 5 10 (new_tx_queue 8 4 20))))))))"

lemma sample_inbox_reachable: "txq_reachable sample_inbox"
  unfolding sample_inbox_def by (intro txq_reachable.intros)

lemma sample_inbox_eval:
  "high sample_inbox = [([7], 50)]" "order sample_inbox = [[1], [2]]" "total_untrusted sample_inbox = 3"
  "map tx_bundle (lane_queue sample_inbox [1]) = [20, 10]"
  by (simp_all add: sample_inbox_def new_tx_queue_def push_def Let_def empty_lane_def insert_by_fpc_def lane_queue_def
      fee_per_cost_desc_def cmp_u128_def)


lemma drain_complete_witness:
  "\<exists>q' batch. drain_batch sample_inbox = Some (q', ([7], 50) # batch) \<and> length batch = 3 \<and>
     from_peer [1] batch = [20, 10]"
  using drain_complete [OF sample_inbox_reachable] by (auto simp: sample_inbox_eval)

end
