(* ===== verification/Protocol.thy ===== *)
theory Protocol
  imports XchPrelude
begin

text \<open>
  Message types and node types of the peer protocol, \<^verbatim>\<open>core/src/protocols/mod.rs\<close>, with their byte codes. The
  variants of \<^verbatim>\<open>ProtocolMessageTypes\<close> are grouped the way the comments of the enum group them, one datatype
  per group; the chain of comparisons of \<^verbatim>\<open>From<u8>\<close> is a search in the order of its arms.
\<close>

datatype (plugins only: code size) harvester_message =
  HarvesterHandshake | NewProofOfSpace | RequestSignatures | RespondSignatures

datatype (plugins only: code size) farmer_message =
  NewSignagePoint | DeclareProofOfSpace | RequestSignedValues | SignedValues | FarmingInfo

datatype (plugins only: code size) timelord_message =
  NewPeakTimelord | NewUnfinishedBlockTimelord | NewInfusionPointVdf | NewSignagePointVdf |
  NewEndOfSubSlotVdf | RequestCompactProofOfTime | RespondCompactProofOfTime

datatype (plugins only: code size) full_node_message =
  NewPeak | NewTransaction | RequestTransaction | RespondTransaction | RequestProofOfWeight |
  RespondProofOfWeight | RequestBlock | RespondBlock | RejectBlock | RequestBlocks | RespondBlocks |
  RejectBlocks | NewUnfinishedBlock | RequestUnfinishedBlock | RespondUnfinishedBlock |
  NewSignagePointOrEndOfSubSlot | RequestSignagePointOrEndOfSubSlot | RespondSignagePoint |
  RespondEndOfSubSlot | RequestMempoolTransactions | RequestCompactVdf | RespondCompactVdf | NewCompactVdf |
  RequestPeers | RespondPeers | NoneResponse

datatype (plugins only: code size) wallet_message =
  RequestPuzzleSolution | RespondPuzzleSolution | RejectPuzzleSolution | SendTransaction | TransactionAck |
  NewPeakWallet | RequestBlockHeader | RespondBlockHeader | RejectHeaderRequest | RequestRemovals |
  RespondRemovals | RejectRemovalsRequest | RequestAdditions | RespondAdditions | RejectAdditionsRequest |
  RequestHeaderBlocks | RejectHeaderBlocks | RespondHeaderBlocks

datatype (plugins only: code size) introducer_message =
  RequestPeersIntroducer | RespondPeersIntroducer

datatype (plugins only: code size) plot_message =
  NewSignagePointHarvester | RequestPlots | RespondPlots | PlotSyncStart | PlotSyncLoaded | PlotSyncRemoved |
  PlotSyncInvalid | PlotSyncKeysMissing | PlotSyncDuplicates | PlotSyncDone | PlotSyncResponse

datatype (plugins only: code size) wallet_update_message =
  CoinStateUpdate | RegisterInterestInPuzzleHash | RespondToPhUpdate | RegisterInterestInCoin |
  RespondToCoinUpdate | RequestChildren | RespondChildren | RequestSesHashes | RespondSesHashes |
  RequestBlockHeaders | RejectBlockHeaders | RespondBlockHeaders | RequestFeeEstimates | RespondFeeEstimates

datatype (plugins only: code size) unfinished_message =
  NewUnfinishedBlock2 | RequestUnfinishedBlock2

datatype (plugins only: code size) subscription_message =
  RequestRemovePuzzleSubscriptions | RespondRemovePuzzleSubscriptions | RequestRemoveCoinSubscriptions |
  RespondRemoveCoinSubscriptions | RequestPuzzleState | RespondPuzzleState | RejectPuzzleState |
  RequestCoinState | RespondCoinState | RejectCoinState

datatype (plugins only: code size) mempool_message =
  MempoolItemsAdded | MempoolItemsRemoved | RequestCostInfo | RespondCostInfo

datatype (plugins only: code size) solver_message =
  SolutionResponse | Solve | PartialProofs | ConfigureWindowSizes

datatype protocol_message_types =
  Unknown | Handshake | Harvester harvester_message | Farmer farmer_message | Timelord timelord_message |
  FullNode full_node_message | Wallet wallet_message | Introducer introducer_message | FarmNewBlock |
  Plot plot_message | WalletUpdate wallet_update_message | Unfinished unfinished_message |
  Subscription subscription_message | Mempool mempool_message | Solver solver_message | Error

definition harvester_code :: "harvester_message \<Rightarrow> u8" where
  "harvester_code m = (case m of
     HarvesterHandshake \<Rightarrow> 3 | NewProofOfSpace \<Rightarrow> 5 | RequestSignatures \<Rightarrow> 6 |
     RespondSignatures \<Rightarrow> 7)"

definition farmer_code :: "farmer_message \<Rightarrow> u8" where
  "farmer_code m = (case m of
     NewSignagePoint \<Rightarrow> 8 | DeclareProofOfSpace \<Rightarrow> 9 |
     RequestSignedValues \<Rightarrow> 10 | SignedValues \<Rightarrow> 11 | FarmingInfo \<Rightarrow> 12)"

definition timelord_code :: "timelord_message \<Rightarrow> u8" where
  "timelord_code m = (case m of
     NewPeakTimelord \<Rightarrow> 13 | NewUnfinishedBlockTimelord \<Rightarrow> 14 |
     NewInfusionPointVdf \<Rightarrow> 15 | NewSignagePointVdf \<Rightarrow> 16 |
     NewEndOfSubSlotVdf \<Rightarrow> 17 | RequestCompactProofOfTime \<Rightarrow> 18 |
     RespondCompactProofOfTime \<Rightarrow> 19)"

definition full_node_code :: "full_node_message \<Rightarrow> u8" where
  "full_node_code m = (case m of
     NewPeak \<Rightarrow> 20 | NewTransaction \<Rightarrow> 21 | RequestTransaction \<Rightarrow> 22 |
     RespondTransaction \<Rightarrow> 23 | RequestProofOfWeight \<Rightarrow> 24 |
     RespondProofOfWeight \<Rightarrow> 25 | RequestBlock \<Rightarrow> 26 | RespondBlock \<Rightarrow> 27 |
     RejectBlock \<Rightarrow> 28 | RequestBlocks \<Rightarrow> 29 | RespondBlocks \<Rightarrow> 30 |
     RejectBlocks \<Rightarrow> 31 | NewUnfinishedBlock \<Rightarrow> 32 |
     RequestUnfinishedBlock \<Rightarrow> 33 | RespondUnfinishedBlock \<Rightarrow> 34 |
     NewSignagePointOrEndOfSubSlot \<Rightarrow> 35 | RequestSignagePointOrEndOfSubSlot \<Rightarrow> 36 |
     RespondSignagePoint \<Rightarrow> 37 | RespondEndOfSubSlot \<Rightarrow> 38 |
     RequestMempoolTransactions \<Rightarrow> 39 | RequestCompactVdf \<Rightarrow> 40 |
     RespondCompactVdf \<Rightarrow> 41 | NewCompactVdf \<Rightarrow> 42 | RequestPeers \<Rightarrow> 43 |
     RespondPeers \<Rightarrow> 44 | NoneResponse \<Rightarrow> 91)"

definition wallet_code :: "wallet_message \<Rightarrow> u8" where
  "wallet_code m = (case m of
     RequestPuzzleSolution \<Rightarrow> 45 | RespondPuzzleSolution \<Rightarrow> 46 |
     RejectPuzzleSolution \<Rightarrow> 47 | SendTransaction \<Rightarrow> 48 |
     TransactionAck \<Rightarrow> 49 | NewPeakWallet \<Rightarrow> 50 | RequestBlockHeader \<Rightarrow> 51 |
     RespondBlockHeader \<Rightarrow> 52 | RejectHeaderRequest \<Rightarrow> 53 |
     RequestRemovals \<Rightarrow> 54 | RespondRemovals \<Rightarrow> 55 |
     RejectRemovalsRequest \<Rightarrow> 56 | RequestAdditions \<Rightarrow> 57 |
     RespondAdditions \<Rightarrow> 58 | RejectAdditionsRequest \<Rightarrow> 59 |
     RequestHeaderBlocks \<Rightarrow> 60 | RejectHeaderBlocks \<Rightarrow> 61 |
     RespondHeaderBlocks \<Rightarrow> 62)"

definition introducer_code :: "introducer_message \<Rightarrow> u8" where
  "introducer_code m = (case m of
     RequestPeersIntroducer \<Rightarrow> 63 | RespondPeersIntroducer \<Rightarrow> 64)"

definition plot_code :: "plot_message \<Rightarrow> u8" where
  "plot_code m = (case m of
     NewSignagePointHarvester \<Rightarrow> 66 | RequestPlots \<Rightarrow> 67 |
     RespondPlots \<Rightarrow> 68 | PlotSyncStart \<Rightarrow> 78 | PlotSyncLoaded \<Rightarrow> 79 |
     PlotSyncRemoved \<Rightarrow> 80 | PlotSyncInvalid \<Rightarrow> 81 |
     PlotSyncKeysMissing \<Rightarrow> 82 | PlotSyncDuplicates \<Rightarrow> 83 |
     PlotSyncDone \<Rightarrow> 84 | PlotSyncResponse \<Rightarrow> 85)"

definition wallet_update_code :: "wallet_update_message \<Rightarrow> u8" where
  "wallet_update_code m = (case m of
     CoinStateUpdate \<Rightarrow> 69 | RegisterInterestInPuzzleHash \<Rightarrow> 70 |
     RespondToPhUpdate \<Rightarrow> 71 | RegisterInterestInCoin \<Rightarrow> 72 |
     RespondToCoinUpdate \<Rightarrow> 73 | RequestChildren \<Rightarrow> 74 |
     RespondChildren \<Rightarrow> 75 | RequestSesHashes \<Rightarrow> 76 | RespondSesHashes \<Rightarrow> 77 |
     RequestBlockHeaders \<Rightarrow> 86 | RejectBlockHeaders \<Rightarrow> 87 |
     RespondBlockHeaders \<Rightarrow> 88 | RequestFeeEstimates \<Rightarrow> 89 |
     RespondFeeEstimates \<Rightarrow> 90)"

definition unfinished_code :: "unfinished_message \<Rightarrow> u8" where
  "unfinished_code m = (case m of
     NewUnfinishedBlock2 \<Rightarrow> 92 | RequestUnfinishedBlock2 \<Rightarrow> 93)"

definition subscription_code :: "subscription_message \<Rightarrow> u8" where
  "subscription_code m = (case m of
     RequestRemovePuzzleSubscriptions \<Rightarrow> 94 | RespondRemovePuzzleSubscriptions \<Rightarrow> 95 |
     RequestRemoveCoinSubscriptions \<Rightarrow> 96 | RespondRemoveCoinSubscriptions \<Rightarrow> 97 |
     RequestPuzzleState \<Rightarrow> 98 | RespondPuzzleState \<Rightarrow> 99 |
     RejectPuzzleState \<Rightarrow> 100 | RequestCoinState \<Rightarrow> 101 |
     RespondCoinState \<Rightarrow> 102 | RejectCoinState \<Rightarrow> 103)"

definition mempool_code :: "mempool_message \<Rightarrow> u8" where
  "mempool_code m = (case m of
     MempoolItemsAdded \<Rightarrow> 104 | MempoolItemsRemoved \<Rightarrow> 105 |
     RequestCostInfo \<Rightarrow> 106 | RespondCostInfo \<Rightarrow> 107)"

definition solver_code :: "solver_message \<Rightarrow> u8" where
  "solver_code m = (case m of
     SolutionResponse \<Rightarrow> 108 | Solve \<Rightarrow> 109 | PartialProofs \<Rightarrow> 110 |
     ConfigureWindowSizes \<Rightarrow> 111)"

definition message_code :: "protocol_message_types \<Rightarrow> u8" where
  "message_code t = (case t of
     Unknown \<Rightarrow> 0 | Handshake \<Rightarrow> 1 | Harvester m \<Rightarrow> harvester_code m |
     Farmer m \<Rightarrow> farmer_code m | Timelord m \<Rightarrow> timelord_code m |
     FullNode m \<Rightarrow> full_node_code m | Wallet m \<Rightarrow> wallet_code m |
     Introducer m \<Rightarrow> introducer_code m | FarmNewBlock \<Rightarrow> 65 |
     Plot m \<Rightarrow> plot_code m | WalletUpdate m \<Rightarrow> wallet_update_code m |
     Unfinished m \<Rightarrow> unfinished_code m | Subscription m \<Rightarrow> subscription_code m |
     Mempool m \<Rightarrow> mempool_code m | Solver m \<Rightarrow> solver_code m | Error \<Rightarrow> 255)"

definition harvester_arms :: "harvester_message list" where
  "harvester_arms = [
     HarvesterHandshake, NewProofOfSpace, RequestSignatures, RespondSignatures]"

definition farmer_arms :: "farmer_message list" where
  "farmer_arms = [
     NewSignagePoint, DeclareProofOfSpace, RequestSignedValues, SignedValues, FarmingInfo]"

definition timelord_arms :: "timelord_message list" where
  "timelord_arms = [
     NewPeakTimelord, NewUnfinishedBlockTimelord, NewInfusionPointVdf, NewSignagePointVdf, NewEndOfSubSlotVdf,
     RequestCompactProofOfTime, RespondCompactProofOfTime]"

definition full_node_arms :: "full_node_message list" where
  "full_node_arms = [
     NewPeak, NewTransaction, RequestTransaction, RespondTransaction, RequestProofOfWeight,
     RespondProofOfWeight, RequestBlock, RespondBlock, RejectBlock, RequestBlocks, RespondBlocks, RejectBlocks,
     NewUnfinishedBlock, RequestUnfinishedBlock, RespondUnfinishedBlock, NewSignagePointOrEndOfSubSlot,
     RequestSignagePointOrEndOfSubSlot, RespondSignagePoint, RespondEndOfSubSlot, RequestMempoolTransactions,
     RequestCompactVdf, RespondCompactVdf, NewCompactVdf, RequestPeers, RespondPeers, NoneResponse]"

definition wallet_arms :: "wallet_message list" where
  "wallet_arms = [
     RequestPuzzleSolution, RespondPuzzleSolution, RejectPuzzleSolution, SendTransaction, TransactionAck,
     NewPeakWallet, RequestBlockHeader, RespondBlockHeader, RejectHeaderRequest, RequestRemovals,
     RespondRemovals, RejectRemovalsRequest, RequestAdditions, RespondAdditions, RejectAdditionsRequest,
     RequestHeaderBlocks, RejectHeaderBlocks, RespondHeaderBlocks]"

definition introducer_arms :: "introducer_message list" where
  "introducer_arms = [
     RequestPeersIntroducer, RespondPeersIntroducer]"

definition plot_arms :: "plot_message list" where
  "plot_arms = [
     NewSignagePointHarvester, RequestPlots, RespondPlots, PlotSyncStart, PlotSyncLoaded, PlotSyncRemoved,
     PlotSyncInvalid, PlotSyncKeysMissing, PlotSyncDuplicates, PlotSyncDone, PlotSyncResponse]"

definition wallet_update_arms :: "wallet_update_message list" where
  "wallet_update_arms = [
     CoinStateUpdate, RegisterInterestInPuzzleHash, RespondToPhUpdate, RegisterInterestInCoin,
     RespondToCoinUpdate, RequestChildren, RespondChildren, RequestSesHashes, RespondSesHashes,
     RequestBlockHeaders, RejectBlockHeaders, RespondBlockHeaders, RequestFeeEstimates, RespondFeeEstimates]"

definition unfinished_arms :: "unfinished_message list" where
  "unfinished_arms = [
     NewUnfinishedBlock2, RequestUnfinishedBlock2]"

definition subscription_arms :: "subscription_message list" where
  "subscription_arms = [
     RequestRemovePuzzleSubscriptions, RespondRemovePuzzleSubscriptions, RequestRemoveCoinSubscriptions,
     RespondRemoveCoinSubscriptions, RequestPuzzleState, RespondPuzzleState, RejectPuzzleState,
     RequestCoinState, RespondCoinState, RejectCoinState]"

definition mempool_arms :: "mempool_message list" where
  "mempool_arms = [
     MempoolItemsAdded, MempoolItemsRemoved, RequestCostInfo, RespondCostInfo]"

definition solver_arms :: "solver_message list" where
  "solver_arms = [
     SolutionResponse, Solve, PartialProofs, ConfigureWindowSizes]"

definition message_arms :: "protocol_message_types list" where
  "message_arms =
     [Handshake] @ map Harvester harvester_arms @ map Farmer farmer_arms @ map Timelord timelord_arms @
     map FullNode full_node_arms @ map Wallet wallet_arms @ map Introducer introducer_arms @ [FarmNewBlock] @
     map Plot plot_arms @ map WalletUpdate wallet_update_arms @ map Unfinished unfinished_arms @
     map Subscription subscription_arms @ map Mempool mempool_arms @ map Solver solver_arms @ [Error]"

definition message_type_from :: "u8 \<Rightarrow> protocol_message_types" where
  "message_type_from b = (case find (\<lambda>t. b = message_code t) message_arms of Some t \<Rightarrow> t | None \<Rightarrow> Unknown)"

datatype chia_node_type =
  NodeUnknown | NodeFullNode | NodeHarvester | NodeFarmer | NodeTimelord | NodeIntroducer | NodeWallet |
  NodeDataLayer

definition node_code :: "chia_node_type \<Rightarrow> u8" where
  "node_code t = (case t of
     NodeUnknown \<Rightarrow> 0 | NodeFullNode \<Rightarrow> 1 | NodeHarvester \<Rightarrow> 2 |
     NodeFarmer \<Rightarrow> 3 | NodeTimelord \<Rightarrow> 4 | NodeIntroducer \<Rightarrow> 5 |
     NodeWallet \<Rightarrow> 6 | NodeDataLayer \<Rightarrow> 7)"

definition node_type_from :: "u8 \<Rightarrow> chia_node_type" where
  "node_type_from b = (case find (\<lambda>t. b = node_code t)
       [NodeUnknown, NodeFullNode, NodeHarvester, NodeFarmer, NodeTimelord, NodeIntroducer, NodeWallet, NodeDataLayer] of
       Some t \<Rightarrow> t | None \<Rightarrow> NodeUnknown)"

section \<open>Codes\<close>

lemmas group_codes = harvester_code_def farmer_code_def timelord_code_def full_node_code_def wallet_code_def
  introducer_code_def plot_code_def wallet_update_code_def unfinished_code_def subscription_code_def
  mempool_code_def solver_code_def

lemmas group_arms = harvester_arms_def farmer_arms_def timelord_arms_def full_node_arms_def wallet_arms_def
  introducer_arms_def plot_arms_def wallet_update_arms_def unfinished_arms_def subscription_arms_def
  mempool_arms_def solver_arms_def

lemma find_distinct_key:
  assumes "distinct (map f xs)" "x \<in> set xs"
  shows "find (\<lambda>y. f x = f y) xs = Some x"
  using assms by (induction xs) (auto simp: image_iff)

lemma message_arms_codes:
  "map message_code message_arms = map of_nat ([1] @ [3] @ [5..<45] @ [91] @ [45..<66] @ [66..<69] @ [78..<86] @
     [69..<78] @ [86..<91] @ [92..<112] @ [255])"
  by (simp add: message_arms_def group_arms message_code_def group_codes upt_rec)

lemma message_arms_distinct: "distinct (map message_code message_arms)"
proof -
  let ?ns = "[1] @ [3] @ [5..<45] @ [91] @ [45..<66] @ [66..<69] @ [78..<86] @ [69..<78] @ [86..<91] @ [92..<112] @ [255]"
  have "inj_on (of_nat :: nat \<Rightarrow> u8) (set ?ns)"
    by (rule inj_on_inverseI [where g = unat]) (auto simp: unat_of_nat)
  moreover have "distinct ?ns" by auto
  ultimately show ?thesis by (simp only: message_arms_codes distinct_map)
qed

lemma group_arms_complete:
  "set harvester_arms = UNIV" "set farmer_arms = UNIV" "set timelord_arms = UNIV" "set full_node_arms = UNIV"
  "set wallet_arms = UNIV" "set introducer_arms = UNIV" "set plot_arms = UNIV" "set wallet_update_arms = UNIV"
  "set unfinished_arms = UNIV" "set subscription_arms = UNIV" "set mempool_arms = UNIV" "set solver_arms = UNIV"
proof -
  have "m \<in> set harvester_arms" for m by (cases m) (simp_all add: harvester_arms_def)
  then show "set harvester_arms = UNIV" by blast
  have "m \<in> set farmer_arms" for m by (cases m) (simp_all add: farmer_arms_def)
  then show "set farmer_arms = UNIV" by blast
  have "m \<in> set timelord_arms" for m by (cases m) (simp_all add: timelord_arms_def)
  then show "set timelord_arms = UNIV" by blast
  have "m \<in> set full_node_arms" for m by (cases m) (simp_all add: full_node_arms_def)
  then show "set full_node_arms = UNIV" by blast
  have "m \<in> set wallet_arms" for m by (cases m) (simp_all add: wallet_arms_def)
  then show "set wallet_arms = UNIV" by blast
  have "m \<in> set introducer_arms" for m by (cases m) (simp_all add: introducer_arms_def)
  then show "set introducer_arms = UNIV" by blast
  have "m \<in> set plot_arms" for m by (cases m) (simp_all add: plot_arms_def)
  then show "set plot_arms = UNIV" by blast
  have "m \<in> set wallet_update_arms" for m by (cases m) (simp_all add: wallet_update_arms_def)
  then show "set wallet_update_arms = UNIV" by blast
  have "m \<in> set unfinished_arms" for m by (cases m) (simp_all add: unfinished_arms_def)
  then show "set unfinished_arms = UNIV" by blast
  have "m \<in> set subscription_arms" for m by (cases m) (simp_all add: subscription_arms_def)
  then show "set subscription_arms = UNIV" by blast
  have "m \<in> set mempool_arms" for m by (cases m) (simp_all add: mempool_arms_def)
  then show "set mempool_arms = UNIV" by blast
  have "m \<in> set solver_arms" for m by (cases m) (simp_all add: solver_arms_def)
  then show "set solver_arms = UNIV" by blast
qed

lemma message_arms_set: "set message_arms = - {Unknown}"
proof -
  have "t \<in> set message_arms \<longleftrightarrow> t \<noteq> Unknown" for t
    by (cases t) (auto simp: message_arms_def group_arms_complete)
  then show ?thesis by blast
qed

lemma message_type_from_code: "message_type_from (message_code t) = t"
proof (cases "t = Unknown")
  case True
  have "u \<in> set message_arms \<Longrightarrow> message_code u \<noteq> 0" for u
  proof -
    assume "u \<in> set message_arms"
    then have "message_code u \<in> set (map message_code message_arms)" by simp
    then show "message_code u \<noteq> 0" unfolding message_arms_codes
      by (auto simp: word_unat_eq_iff unat_of_nat)
  qed
  then have "find (\<lambda>u. 0 = message_code u) message_arms = None" by (auto simp: find_None_iff)
  with True show ?thesis by (simp add: message_type_from_def message_code_def)
next
  case False
  then have "t \<in> set message_arms" by (simp add: message_arms_set)
  from find_distinct_key [OF message_arms_distinct this] show ?thesis by (simp add: message_type_from_def)
qed

lemma message_code_inj: "message_code t = message_code u \<longleftrightarrow> t = u"
  by (metis message_type_from_code)

lemma message_type_from_Unknown_iff: "message_type_from b = Unknown \<longleftrightarrow> b \<notin> message_code ` (- {Unknown})"
proof (cases "find (\<lambda>t. b = message_code t) message_arms")
  case None
  moreover have "b \<notin> message_code ` (- {Unknown})" using None by (auto simp: find_None_iff message_arms_set)
  ultimately show ?thesis by (simp add: message_type_from_def)
next
  case (Some t)
  then have "t \<in> set message_arms" "b = message_code t" by (auto simp: find_Some_iff)
  with Some show ?thesis by (auto simp: message_type_from_def message_arms_set)
qed

text \<open>
  The byte codes are a faithful encoding: every message type is read back from its code, no two types
  share a code, and exactly the bytes that are the code of no message read as the sentinel. The same holds
  of the node types.
\<close>

lemma protocol_codes:
  "message_type_from (message_code t) = t \<and> (message_code t = message_code u \<longleftrightarrow> t = u) \<and>
   (message_type_from b = Unknown \<longleftrightarrow> b \<notin> message_code ` (- {Unknown})) \<and>
   node_type_from (node_code n) = n \<and>
   (node_type_from b = NodeUnknown \<longleftrightarrow> b = 0 \<or> b > 7)"
proof -
  have "node_type_from (node_code n) = n" by (cases n) (simp_all add: node_type_from_def node_code_def)
  moreover have "node_type_from b = NodeUnknown \<longleftrightarrow> b = 0 \<or> b > 7"
  proof -
    have "b \<le> 7 \<Longrightarrow> b \<in> set (map of_nat [0..<8])"
    proof -
      assume "b \<le> 7"
      then have "unat b < 8" by (simp add: word_le_nat_alt)
      then have "of_nat (unat b) \<in> set (map (of_nat :: nat \<Rightarrow> u8) [0..<8])" by (intro in_set_conv_nth [THEN iffD2]) auto
      then show ?thesis by simp
    qed
    then show ?thesis
      by (cases "b \<le> 7") (auto simp: node_type_from_def node_code_def upt_rec not_le)
  qed
  ultimately show ?thesis
    using message_type_from_code message_code_inj message_type_from_Unknown_iff by simp
qed

end
