(* ===== verification/RateLimits.thy ===== *)
theory RateLimits
  imports Protocol "HOL-Library.Log_Nat"
begin

text \<open>
  Per-connection rate limiting, \<^verbatim>\<open>core/src/protocols/rate_limits.rs\<close>, and the self-throttle of the send path,
  \<^verbatim>\<open>core/src/protocols/outbound_limiter.rs\<close>. The clock is an argument: \<open>elapsed\<close> is what
  \<^verbatim>\<open>start.elapsed().as_secs()\<close> returns. Every limiter the node builds comes from \<^verbatim>\<open>new\<close>, at 100 per cent of the
  published numbers; the factor \<open>proportion\<close> is then \<open>1.0\<close> and is left out. The counters are compared as
  \<^verbatim>\<open>f64\<close>, so their conversion rounds to 53 bits.
\<close>

section \<open>Limits\<close>

definition MIB :: u64 where "MIB = 1024 * 1024"

definition KIB :: u64 where "KIB = 1024"

record rl_settings =
  aggregate_limit :: bool
  frequency :: u32
  max_size :: u64
  max_total_size :: "u64 option"

datatype limit = Rl rl_settings | Unlimited u64

definition rl :: "bool \<Rightarrow> u32 \<Rightarrow> u64 \<Rightarrow> limit" where
  "rl agg freq msize = Rl \<lparr>aggregate_limit = agg, frequency = freq, max_size = msize, max_total_size = None\<rparr>"

definition rl_total :: "bool \<Rightarrow> u32 \<Rightarrow> u64 \<Rightarrow> u64 \<Rightarrow> limit" where
  "rl_total agg freq msize tot =
     Rl \<lparr>aggregate_limit = agg, frequency = freq, max_size = msize, max_total_size = Some tot\<rparr>"

definition unlimited :: "u64 \<Rightarrow> limit" where
  "unlimited msize = Unlimited msize"

definition AGGREGATE :: rl_settings where
  "AGGREGATE = \<lparr>aggregate_limit = False, frequency = 1000, max_size = 0, max_total_size = Some (100 * MIB)\<rparr>"

type_synonym capabilities = "(u16 \<times> string) list"

definition RateLimitsV2 :: u16 where "RateLimitsV2 = 3"

definition peer_supports_v2 :: "capabilities \<Rightarrow> bool" where
  "peer_supports_v2 caps = list_ex (\<lambda>(v, state). v = RateLimitsV2 \<and> state = ''1'') caps"

definition v2_wallet :: "wallet_message \<Rightarrow> limit option" where
  "v2_wallet m = (case m of
     RequestPuzzleSolution \<Rightarrow> Some (rl False 5000 100)
   | RespondPuzzleSolution \<Rightarrow> Some (rl False 5000 MIB)
   | RejectPuzzleSolution \<Rightarrow> Some (rl False 5000 100)
   | RequestBlockHeader \<Rightarrow> Some (rl False 500 100)
   | RespondBlockHeader \<Rightarrow> Some (rl False 500 (500 * KIB))
   | RejectHeaderRequest \<Rightarrow> Some (rl False 500 100)
   | RequestRemovals \<Rightarrow> Some (rl_total False 5000 (50 * KIB) (10 * MIB))
   | RespondRemovals \<Rightarrow> Some (rl_total False 5000 MIB (10 * MIB))
   | RejectRemovalsRequest \<Rightarrow> Some (rl False 500 100)
   | RequestAdditions \<Rightarrow> Some (rl False 50000 (100 * MIB))
   | RespondAdditions \<Rightarrow> Some (rl False 50000 (100 * MIB))
   | RejectAdditionsRequest \<Rightarrow> Some (rl False 500 100)
   | RequestHeaderBlocks \<Rightarrow> Some (rl True 5000 100)
   | RejectHeaderBlocks \<Rightarrow> Some (rl False 1000 100)
   | RespondHeaderBlocks \<Rightarrow> Some (rl False 5000 (2 * MIB))
   | _ \<Rightarrow> None)"

definition v2_wallet_update :: "wallet_update_message \<Rightarrow> limit option" where
  "v2_wallet_update m = (case m of
     RequestChildren \<Rightarrow> Some (rl False 2000 MIB)
   | RespondChildren \<Rightarrow> Some (rl False 2000 MIB)
   | RequestSesHashes \<Rightarrow> Some (rl False 2000 MIB)
   | RespondSesHashes \<Rightarrow> Some (rl False 2000 MIB)
   | _ \<Rightarrow> None)"

definition v2_override :: "protocol_message_types \<Rightarrow> limit option" where
  "v2_override t = (case t of
     Wallet m \<Rightarrow> v2_wallet m
   | WalletUpdate m \<Rightarrow> v2_wallet_update m
   | _ \<Rightarrow> None)"

definition v1_harvester :: "harvester_message \<Rightarrow> limit" where
  "v1_harvester m = (case m of
     HarvesterHandshake \<Rightarrow> rl True 5 MIB
   | NewProofOfSpace \<Rightarrow> rl True 100 2048
   | RequestSignatures \<Rightarrow> rl True 100 2048
   | RespondSignatures \<Rightarrow> rl True 100 2048)"

definition v1_farmer :: "farmer_message \<Rightarrow> limit" where
  "v1_farmer m = (case m of
     NewSignagePoint \<Rightarrow> rl True 200 2048
   | DeclareProofOfSpace \<Rightarrow> rl True 100 (10 * KIB)
   | RequestSignedValues \<Rightarrow> rl True 100 (10 * KIB)
   | SignedValues \<Rightarrow> rl True 100 1024
   | FarmingInfo \<Rightarrow> rl True 100 1024)"

definition v1_timelord :: "timelord_message \<Rightarrow> limit" where
  "v1_timelord m = (case m of
     NewPeakTimelord \<Rightarrow> rl True 100 (20 * KIB)
   | NewUnfinishedBlockTimelord \<Rightarrow> rl True 100 (10 * KIB)
   | NewInfusionPointVdf \<Rightarrow> rl True 100 (100 * KIB)
   | NewSignagePointVdf \<Rightarrow> rl True 100 (100 * KIB)
   | NewEndOfSubSlotVdf \<Rightarrow> rl True 100 (100 * KIB)
   | RequestCompactProofOfTime \<Rightarrow> rl True 100 (10 * KIB)
   | RespondCompactProofOfTime \<Rightarrow> rl True 100 (100 * KIB))"

definition v1_full_node :: "full_node_message \<Rightarrow> limit" where
  "v1_full_node m = (case m of
     NewPeak \<Rightarrow> rl True 200 512
   | NewTransaction \<Rightarrow> rl_total False 5000 100 (5000 * 100)
   | RequestTransaction \<Rightarrow> rl_total False 5000 100 (5000 * 100)
   | RespondTransaction \<Rightarrow> rl_total False 5000 MIB (20 * MIB)
   | RequestProofOfWeight \<Rightarrow> rl True 5 100
   | RespondProofOfWeight \<Rightarrow> rl_total True 5 (50 * MIB) (100 * MIB)
   | RequestBlock \<Rightarrow> rl True 200 100
   | RespondBlock \<Rightarrow> unlimited (2 * MIB)
   | RejectBlock \<Rightarrow> unlimited 100
   | RequestBlocks \<Rightarrow> rl True 500 100
   | RespondBlocks \<Rightarrow> unlimited (50 * MIB)
   | RejectBlocks \<Rightarrow> unlimited 100
   | NewUnfinishedBlock \<Rightarrow> rl True 200 100
   | RequestUnfinishedBlock \<Rightarrow> rl True 200 100
   | RespondUnfinishedBlock \<Rightarrow> rl_total True 200 (2 * MIB) (10 * 2 * MIB)
   | NewSignagePointOrEndOfSubSlot \<Rightarrow> rl True 200 200
   | RequestSignagePointOrEndOfSubSlot \<Rightarrow> rl True 200 200
   | RespondSignagePoint \<Rightarrow> rl True 200 (50 * KIB)
   | RespondEndOfSubSlot \<Rightarrow> rl True 100 (50 * KIB)
   | RequestMempoolTransactions \<Rightarrow> rl True 5 MIB
   | RequestCompactVdf \<Rightarrow> rl True 200 1024
   | RespondCompactVdf \<Rightarrow> rl True 200 (100 * KIB)
   | NewCompactVdf \<Rightarrow> rl True 100 1024
   | RequestPeers \<Rightarrow> rl True 10 100
   | RespondPeers \<Rightarrow> rl True 10 MIB
   | NoneResponse \<Rightarrow> rl False 500 100)"

definition v1_wallet :: "wallet_message \<Rightarrow> limit" where
  "v1_wallet m = (case m of
     RequestPuzzleSolution \<Rightarrow> rl True 1000 100
   | RespondPuzzleSolution \<Rightarrow> rl True 1000 MIB
   | RejectPuzzleSolution \<Rightarrow> rl True 1000 100
   | SendTransaction \<Rightarrow> rl False 5000 MIB
   | TransactionAck \<Rightarrow> rl False 5000 2048
   | NewPeakWallet \<Rightarrow> rl True 200 300
   | RequestBlockHeader \<Rightarrow> rl True 500 100
   | RespondBlockHeader \<Rightarrow> rl True 500 (500 * KIB)
   | RejectHeaderRequest \<Rightarrow> rl True 500 100
   | RequestRemovals \<Rightarrow> rl_total True 500 (50 * KIB) (10 * MIB)
   | RespondRemovals \<Rightarrow> rl_total True 500 MIB (10 * MIB)
   | RejectRemovalsRequest \<Rightarrow> rl True 500 100
   | RequestAdditions \<Rightarrow> rl_total True 500 MIB (10 * MIB)
   | RespondAdditions \<Rightarrow> rl_total True 500 MIB (10 * MIB)
   | RejectAdditionsRequest \<Rightarrow> rl True 500 100
   | RequestHeaderBlocks \<Rightarrow> rl True 500 100
   | RejectHeaderBlocks \<Rightarrow> rl True 100 100
   | RespondHeaderBlocks \<Rightarrow> rl_total True 500 (2 * MIB) (100 * MIB))"

definition v1_introducer :: "introducer_message \<Rightarrow> limit" where
  "v1_introducer m = (case m of
     RequestPeersIntroducer \<Rightarrow> rl True 100 100
   | RespondPeersIntroducer \<Rightarrow> rl True 100 MIB)"

definition v1_plot :: "plot_message \<Rightarrow> limit" where
  "v1_plot m = (case m of
     NewSignagePointHarvester \<Rightarrow> rl True 100 4886
   | RequestPlots \<Rightarrow> rl True 10 (10 * MIB)
   | RespondPlots \<Rightarrow> rl True 10 (100 * MIB)
   | PlotSyncStart \<Rightarrow> rl True 1000 (100 * MIB)
   | PlotSyncLoaded \<Rightarrow> rl True 1000 (100 * MIB)
   | PlotSyncRemoved \<Rightarrow> rl True 1000 (100 * MIB)
   | PlotSyncInvalid \<Rightarrow> rl True 1000 (100 * MIB)
   | PlotSyncKeysMissing \<Rightarrow> rl True 1000 (100 * MIB)
   | PlotSyncDuplicates \<Rightarrow> rl True 1000 (100 * MIB)
   | PlotSyncDone \<Rightarrow> rl True 1000 (100 * MIB)
   | PlotSyncResponse \<Rightarrow> rl True 3000 (100 * MIB))"

definition v1_wallet_update :: "wallet_update_message \<Rightarrow> limit" where
  "v1_wallet_update m = (case m of
     CoinStateUpdate \<Rightarrow> rl True 1000 (100 * MIB)
   | RegisterInterestInPuzzleHash \<Rightarrow> rl True 1000 (100 * MIB)
   | RespondToPhUpdate \<Rightarrow> rl True 1000 (100 * MIB)
   | RegisterInterestInCoin \<Rightarrow> rl True 1000 (100 * MIB)
   | RespondToCoinUpdate \<Rightarrow> rl True 1000 (100 * MIB)
   | RequestChildren \<Rightarrow> rl True 2000 MIB
   | RespondChildren \<Rightarrow> rl True 2000 MIB
   | RequestSesHashes \<Rightarrow> rl True 2000 MIB
   | RespondSesHashes \<Rightarrow> rl True 2000 MIB
   | RequestBlockHeaders \<Rightarrow> rl False 5000 100
   | RejectBlockHeaders \<Rightarrow> rl False 1000 100
   | RespondBlockHeaders \<Rightarrow> rl False 5000 (2 * MIB)
   | RequestFeeEstimates \<Rightarrow> rl True 10 100
   | RespondFeeEstimates \<Rightarrow> rl True 10 100)"

definition v1_unfinished :: "unfinished_message \<Rightarrow> limit" where
  "v1_unfinished m = (case m of
     NewUnfinishedBlock2 \<Rightarrow> rl True 200 100
   | RequestUnfinishedBlock2 \<Rightarrow> rl True 200 100)"

definition v1_subscription :: "subscription_message \<Rightarrow> limit" where
  "v1_subscription m = (case m of
     RequestRemovePuzzleSubscriptions \<Rightarrow> rl True 1000 (100 * MIB)
   | RespondRemovePuzzleSubscriptions \<Rightarrow> rl True 1000 (100 * MIB)
   | RequestRemoveCoinSubscriptions \<Rightarrow> rl True 1000 (100 * MIB)
   | RespondRemoveCoinSubscriptions \<Rightarrow> rl True 1000 (100 * MIB)
   | RequestPuzzleState \<Rightarrow> rl True 1000 (100 * MIB)
   | RespondPuzzleState \<Rightarrow> rl True 1000 (100 * MIB)
   | RejectPuzzleState \<Rightarrow> rl True 200 100
   | RequestCoinState \<Rightarrow> rl True 1000 (100 * MIB)
   | RespondCoinState \<Rightarrow> rl True 1000 (100 * MIB)
   | RejectCoinState \<Rightarrow> rl True 200 100)"

definition v1_mempool :: "mempool_message \<Rightarrow> limit" where
  "v1_mempool m = (case m of
     MempoolItemsAdded \<Rightarrow> rl True 1000 (100 * MIB)
   | MempoolItemsRemoved \<Rightarrow> rl True 1000 (100 * MIB)
   | RequestCostInfo \<Rightarrow> rl True 1000 100
   | RespondCostInfo \<Rightarrow> rl True 1000 1024)"

definition v1_solver :: "solver_message \<Rightarrow> limit" where
  "v1_solver m = (case m of
     SolutionResponse \<Rightarrow> rl False 120 KIB
   | Solve \<Rightarrow> rl False 120 KIB
   | PartialProofs \<Rightarrow> rl False 120 (3 * KIB)
   | ConfigureWindowSizes \<Rightarrow> rl_total True 5 KIB KIB)"

definition v1_limit :: "protocol_message_types \<Rightarrow> limit" where
  "v1_limit t = (case t of
     Unknown \<Rightarrow> rl True 100 1024
   | Handshake \<Rightarrow> rl_total True 5 (10 * KIB) (5 * 10 * KIB)
   | Harvester m \<Rightarrow> v1_harvester m
   | Farmer m \<Rightarrow> v1_farmer m
   | Timelord m \<Rightarrow> v1_timelord m
   | FullNode m \<Rightarrow> v1_full_node m
   | Wallet m \<Rightarrow> v1_wallet m
   | Introducer m \<Rightarrow> v1_introducer m
   | FarmNewBlock \<Rightarrow> rl True 200 200
   | Plot m \<Rightarrow> v1_plot m
   | WalletUpdate m \<Rightarrow> v1_wallet_update m
   | Unfinished m \<Rightarrow> v1_unfinished m
   | Subscription m \<Rightarrow> v1_subscription m
   | Mempool m \<Rightarrow> v1_mempool m
   | Solver m \<Rightarrow> v1_solver m
   | Error \<Rightarrow> rl False 50000 100)"

definition composed_limit :: "protocol_message_types \<Rightarrow> bool \<Rightarrow> limit" where
  "composed_limit t both_v2 =
     (case (if both_v2 then v2_override t else None) of Some l \<Rightarrow> l | None \<Rightarrow> v1_limit t)"

section \<open>The limiter\<close>

text \<open>\<^verbatim>\<open>x as f64\<close>: to nearest, ties to even, 53 significant bits; the value is an integer again.\<close>

definition f64_of_u64 :: "u64 \<Rightarrow> nat" where
  "f64_of_u64 x =
     (let n = unat x; k = floorlog 2 n - 53; q = n div 2 ^ k; r = n mod 2 ^ k
      in if k = 0 then n
         else (if 2 * r > 2 ^ k \<or> 2 * r = 2 ^ k \<and> odd q then q + 1 else q) * 2 ^ k)"

record rate_window =
  win_slot :: u64
  counts :: "u8 \<rightharpoonup> u32"
  sizes :: "u8 \<rightharpoonup> u64"
  non_tx_count :: u32
  non_tx_size :: u64

record rate_limiter =
  incoming :: bool
  reset_seconds :: u64
  inner :: rate_window

datatype rl_violation =
    NonTxCount u32 | NonTxSize u64 | MessageCount u32 | MessageSize u64 | CumulativeSize u64

definition empty_window :: "u64 \<Rightarrow> rate_window" where
  "empty_window s = \<lparr>win_slot = s, counts = Map.empty, sizes = Map.empty, non_tx_count = 0, non_tx_size = 0\<rparr>"

definition with_params :: "bool \<Rightarrow> u64 \<Rightarrow> rate_limiter" where
  "with_params inc secs = \<lparr>incoming = inc, reset_seconds = max secs 1, inner = empty_window 0\<rparr>"

definition new_limiter :: "bool \<Rightarrow> rate_limiter" where
  "new_limiter inc = with_params inc 60"

definition max_total :: "rl_settings \<Rightarrow> u64" where
  "max_total s = (case max_total_size s of Some n \<Rightarrow> n | None \<Rightarrow> ucast (frequency s) * max_size s)"

definition aggregate_hit :: "u32 \<Rightarrow> u64 \<Rightarrow> rl_violation option" where
  "aggregate_hit c n =
     (if unat c > unat (frequency AGGREGATE) then Some (NonTxCount c)
      else if f64_of_u64 n > f64_of_u64 (case max_total_size AGGREGATE of Some m \<Rightarrow> m | None \<Rightarrow> 0)
      then Some (NonTxSize n) else None)"

definition type_hit :: "rl_settings \<Rightarrow> u64 \<Rightarrow> u32 \<Rightarrow> u64 \<Rightarrow> rl_violation option" where
  "type_hit s size' new_count new_size =
     (if unat new_count > unat (frequency s) then Some (MessageCount new_count)
      else if size' > max_size s then Some (MessageSize size')
      else if f64_of_u64 new_size > f64_of_u64 (max_total s) then Some (CumulativeSize new_size)
      else None)"

definition roll_window :: "u64 \<Rightarrow> rate_window \<Rightarrow> rate_window" where
  "roll_window slot w = (if slot \<noteq> win_slot w then empty_window slot else w)"

definition process_and_check ::
    "protocol_message_types \<Rightarrow> u64 \<Rightarrow> capabilities \<Rightarrow> u64 \<Rightarrow> rate_limiter \<Rightarrow> rate_limiter \<times> rl_violation option" where
  "process_and_check msg_type size' peer_caps elapsed lm =
     (let both_v2 = peer_supports_v2 peer_caps;
          limit = composed_limit msg_type both_v2;
          w = roll_window (elapsed div reset_seconds lm) (inner lm);
          key = message_code msg_type;
          new_count = (case counts w key of Some c \<Rightarrow> c | None \<Rightarrow> 0) + 1;
          new_size = (case sizes w key of Some n \<Rightarrow> n | None \<Rightarrow> 0) + size';
          agg = (case limit of Rl s \<Rightarrow> aggregate_limit s | Unlimited _ \<Rightarrow> False);
          new_non_tx_count = (if agg then non_tx_count w + 1 else non_tx_count w);
          new_non_tx_size = (if agg then non_tx_size w + size' else non_tx_size w);
          violation =
            (case limit of
               Rl s \<Rightarrow>
                 (case (if agg then aggregate_hit new_non_tx_count new_non_tx_size else None) of
                    Some hit \<Rightarrow> Some hit
                  | None \<Rightarrow> type_hit s size' new_count new_size)
             | Unlimited msize \<Rightarrow> if size' > msize then Some (MessageSize size') else None);
          allowed = (violation = None);
          w = (if incoming lm \<or> allowed
               then w\<lparr>counts := (counts w)(key \<mapsto> new_count), sizes := (sizes w)(key \<mapsto> new_size),
                      non_tx_count := new_non_tx_count, non_tx_size := new_non_tx_size\<rparr>
               else w)
      in (lm\<lparr>inner := w\<rparr>, violation))"

section \<open>The outbound throttle\<close>

definition MAX_ATTEMPTS :: u32 where "MAX_ATTEMPTS = 65"

definition RETRY_DELAY :: nat where "RETRY_DELAY = 1"

datatype outbound_decision = Send | Defer | DropExempt

datatype drop_reason = Exempt | BackpressureCap

datatype throttle_outcome = Admit | Drop drop_reason

record outbound_limiter =
  limiter :: rate_limiter
  max_attempts :: u32
  retry_delay :: nat

definition new_outbound :: outbound_limiter where
  "new_outbound = \<lparr>limiter = new_limiter False, max_attempts = MAX_ATTEMPTS, retry_delay = RETRY_DELAY\<rparr>"

definition is_requeue_exempt :: "protocol_message_types \<Rightarrow> bool" where
  "is_requeue_exempt t = (t = FullNode RespondPeers)"

definition decide ::
    "protocol_message_types \<Rightarrow> u64 \<Rightarrow> capabilities \<Rightarrow> u64 \<Rightarrow> outbound_limiter \<Rightarrow> outbound_limiter \<times> outbound_decision" where
  "decide t size' caps elapsed ol =
     (let (lm, violation) = process_and_check t size' caps elapsed (limiter ol)
      in (ol\<lparr>limiter := lm\<rparr>,
          case violation of None \<Rightarrow> Send | Some _ \<Rightarrow> if is_requeue_exempt t then DropExempt else Defer))"

lemma decide_max_attempts: "decide t n caps e ol = (ol', d) \<Longrightarrow> max_attempts ol' = max_attempts ol"
  by (auto simp: decide_def split: prod.splits)

text \<open>\<open>now i\<close> is the clock when the check after \<open>i\<close> deferrals runs.\<close>

function admit_loop ::
    "protocol_message_types \<Rightarrow> u64 \<Rightarrow> capabilities \<Rightarrow> (u32 \<Rightarrow> u64) \<Rightarrow> u32 \<Rightarrow> outbound_limiter \<Rightarrow>
     outbound_limiter \<times> throttle_outcome" where
  "admit_loop t size' caps now attempts ol =
     (let (ol', d) = decide t size' caps (now attempts) ol
      in case d of
           Send \<Rightarrow> (ol', Admit)
         | DropExempt \<Rightarrow> (ol', Drop Exempt)
         | Defer \<Rightarrow> if attempts \<ge> max_attempts ol then (ol', Drop BackpressureCap)
                    else admit_loop t size' caps now (attempts + 1) ol')"
  by pat_completeness auto

termination
proof (relation "measure (\<lambda>(t, n, caps, now, attempts, ol). unat (max_attempts ol) - unat attempts)")
  fix t n caps now attempts ol x ol' and d :: outbound_decision
  assume a: "x = decide t n caps (now attempts) ol" "(ol', d) = x" "\<not> attempts \<ge> max_attempts ol"
  then have "unat attempts < unat (max_attempts ol)" by (simp add: word_less_nat_alt not_le)
  moreover from this have "unat (attempts + 1) = unat attempts + 1"
    using unsigned_less [of "max_attempts ol", where ?'a = nat] by (simp add: unat_word_ariths)
  ultimately show "((t, n, caps, now, attempts + 1, ol'), t, n, caps, now, attempts, ol)
      \<in> measure (\<lambda>(t, n, caps, now, attempts, ol). unat (max_attempts ol) - unat attempts)"
    using a decide_max_attempts [of t n caps "now attempts" ol ol' d] by simp
qed simp

definition admit_message ::
    "protocol_message_types \<Rightarrow> u64 \<Rightarrow> capabilities \<Rightarrow> (u32 \<Rightarrow> u64) \<Rightarrow> outbound_limiter \<Rightarrow>
     outbound_limiter \<times> throttle_outcome" where
  "admit_message t size' caps now ol = admit_loop t size' caps now 0 ol"

end
