(* ===== verification/RateSound.thy ===== *)
theory RateSound
  imports RateLimits
begin

text \<open>
  Correctness of the rate limits: every message that passes respects its budgets, and the self-throttle of
  the send path settles every message.
\<close>

section \<open>The tables\<close>

lemmas v1_groups = v1_harvester_def v1_farmer_def v1_timelord_def v1_full_node_def v1_wallet_def v1_introducer_def
  v1_plot_def v1_wallet_update_def v1_unfinished_def v1_subscription_def v1_mempool_def v1_solver_def

lemmas v2_groups = v2_wallet_def v2_wallet_update_def

lemmas limit_kinds = rl_def rl_total_def unlimited_def KIB_def MIB_def

text \<open>Every time-based limit is far below what the counters and a double can hold.\<close>

definition sane_limit :: "limit \<Rightarrow> bool" where
  "sane_limit l = (case l of
     Unlimited _ \<Rightarrow> True
   | Rl s \<Rightarrow> unat (frequency s) \<le> 50000 \<and> unat (max_size s) \<le> 100 * 2 ^ 20 \<and>
       unat (max_total s) \<le> 50000 * (100 * 2 ^ 20))"

lemma v1_sane: "sane_limit (v1_limit t)"
  unfolding v1_limit_def
  by (cases t; simp add: sane_limit_def max_total_def limit_kinds;
      rename_tac m; case_tac m; simp add: v1_groups limit_kinds max_total_def)

lemma v2_sane: "case v2_override t of None \<Rightarrow> True | Some l \<Rightarrow> sane_limit l"
  unfolding v2_override_def
  by (cases t; simp; rename_tac m; case_tac m; simp add: v2_groups limit_kinds sane_limit_def max_total_def)

lemma composed_sane: "sane_limit (composed_limit t b)"
  using v1_sane [of t] v2_sane [of t] by (auto simp: composed_limit_def split: option.split)

lemma v2_keeps_kind:
  "case v2_override t of None \<Rightarrow> True | Some l \<Rightarrow> \<exists>s s'. l = Rl s \<and> v1_limit t = Rl s'"
  unfolding v2_override_def v1_limit_def
  by (cases t; simp; rename_tac m; case_tac m; simp add: v1_groups v2_groups limit_kinds)

lemma unlimited_either_way: "composed_limit t b = Unlimited n \<longleftrightarrow> v1_limit t = Unlimited n"
  using v2_keeps_kind [of t] by (auto simp: composed_limit_def split: option.split)

section \<open>Comparing as doubles\<close>

lemma f64_small: "unat x < 2 ^ 53 \<Longrightarrow> f64_of_u64 x = unat x"
proof -
  assume "unat x < 2 ^ 53"
  then have "floorlog 2 (unat x) \<le> 53" by (intro floorlog_leI) auto
  then show ?thesis by (simp add: f64_of_u64_def Let_def)
qed

lemma f64_large:
  assumes "unat x \<ge> 2 ^ 53"
  shows "f64_of_u64 x \<ge> 2 ^ 53"
proof -
  define n k where "n = unat x" and "k = floorlog 2 n - 53"
  have n: "2 ^ 53 \<le> n" "0 < n" using assms by (simp_all add: n_def)
  have "53 < floorlog 2 n" using floorlog_ge_SucI [of 2 53 n] n by simp
  then have k: "floorlog 2 n = k + 53" "0 < k" by (simp_all add: k_def)
  have "2 ^ (k + 52) \<le> n" using floorlog_bounds [of n 2] n k by (simp add: add.commute)
  then have "2 ^ 52 * 2 ^ k \<le> n" by (simp add: power_add mult.commute)
  then have "2 ^ 52 \<le> n div 2 ^ k" by (simp add: less_eq_div_iff_mult_less_eq)
  then have "2 ^ 52 * 2 ^ k \<le> (n div 2 ^ k) * 2 ^ k" by (rule mult_right_mono) simp
  also have "\<dots> \<le> f64_of_u64 x"
    using k by (auto simp: f64_of_u64_def Let_def n_def k_def)
  finally have *: "2 ^ 52 * 2 ^ k \<le> f64_of_u64 x" .
  have "(2 :: nat) ^ 1 \<le> 2 ^ k" using k(2) by (intro power_increasing) auto
  then have "(2 :: nat) ^ 52 * 2 \<le> 2 ^ 52 * 2 ^ k" by simp
  with * show ?thesis by simp
qed

lemma f64_less_iff:
  assumes "unat c < 2 ^ 53"
  shows "f64_of_u64 c < f64_of_u64 x \<longleftrightarrow> unat c < unat x"
proof (cases "unat x < 2 ^ 53")
  case True
  with assms show ?thesis by (simp add: f64_small)
next
  case False
  then have "2 ^ 53 \<le> f64_of_u64 x" using f64_large [of x] by simp
  with False assms show ?thesis by (simp add: f64_small)
qed

lemma aggregate_hit_None: "aggregate_hit c n = None \<longleftrightarrow> unat c \<le> 1000 \<and> unat n \<le> 100 * 2 ^ 20"
  by (auto simp: aggregate_hit_def AGGREGATE_def MIB_def f64_less_iff not_less)

lemma type_hit_None:
  assumes "sane_limit (Rl s)"
  shows "type_hit s n c total_n = None \<longleftrightarrow>
    unat c \<le> unat (frequency s) \<and> unat n \<le> unat (max_size s) \<and> unat total_n \<le> unat (max_total s)"
proof -
  have "unat (max_total s) < 2 ^ 53" using assms by (simp add: sane_limit_def)
  then show ?thesis by (auto simp: type_hit_def f64_less_iff word_less_nat_alt not_less)
qed

section \<open>Budgets\<close>

text \<open>
  A message on a link: the clock, its type and size, and the capabilities of the peer at that moment (none
  before the handshake). A link that receives closes at the first violation; one that sends skips the
  message.
\<close>

type_synonym link_message = "u64 \<times> protocol_message_types \<times> u64 \<times> capabilities"

definition msg_slot :: "u64 \<Rightarrow> link_message \<Rightarrow> u64" where
  "msg_slot secs m = fst m div secs"

definition msg_type :: "link_message \<Rightarrow> protocol_message_types" where
  "msg_type m = fst (snd m)"

definition msg_size :: "link_message \<Rightarrow> nat" where
  "msg_size m = unat (fst (snd (snd m)))"

definition msg_limit :: "link_message \<Rightarrow> limit" where
  "msg_limit m = composed_limit (msg_type m) (peer_supports_v2 (snd (snd (snd m))))"

definition aggregated :: "link_message \<Rightarrow> bool" where
  "aggregated m = (case msg_limit m of Rl s \<Rightarrow> aggregate_limit s | Unlimited _ \<Rightarrow> False)"

fun admitted :: "rate_limiter \<Rightarrow> link_message list \<Rightarrow> link_message list" where
  "admitted lm [] = []"
| "admitted lm ((e, t, n, caps) # ms) =
     (case process_and_check t n caps e lm of
        (lm', None) \<Rightarrow> (e, t, n, caps) # admitted lm' ms
      | (lm', Some _) \<Rightarrow> if incoming lm then [] else admitted lm' ms)"

text \<open>What the limits promise of a message admitted after \<open>hist\<close>, in windows of \<open>secs\<close> seconds.\<close>

definition budget :: "(link_message \<Rightarrow> bool) \<Rightarrow> nat \<Rightarrow> nat \<Rightarrow> link_message list \<Rightarrow> bool" where
  "budget P cnt tot ms \<longleftrightarrow>
     length (filter P ms) \<le> cnt \<and> (\<Sum>m\<leftarrow>filter P ms. msg_size m) \<le> tot"

definition within_budget :: "u64 \<Rightarrow> link_message list \<Rightarrow> link_message \<Rightarrow> bool" where
  "within_budget secs hist m =
     (let window_msgs = filter (\<lambda>x. msg_slot secs x = msg_slot secs m) (hist @ [m])
      in case msg_limit m of
           Unlimited k \<Rightarrow> msg_size m \<le> unat k
         | Rl s \<Rightarrow> msg_size m \<le> unat (max_size s) \<and>
             budget (\<lambda>x. msg_type x = msg_type m) (unat (frequency s)) (unat (max_total s)) window_msgs \<and>
             (aggregate_limit s \<longrightarrow> budget aggregated 1000 (100 * 2 ^ 20) window_msgs))"

section \<open>The counters count\<close>

definition in_slot :: "u64 \<Rightarrow> u64 \<Rightarrow> link_message list \<Rightarrow> link_message list" where
  "in_slot secs s ms = filter (\<lambda>x. msg_slot secs x = s) ms"

definition tracks :: "nat \<Rightarrow> nat \<Rightarrow> (link_message \<Rightarrow> bool) \<Rightarrow> u32 \<Rightarrow> u64 \<Rightarrow> link_message list \<Rightarrow> bool" where
  "tracks k z P c n ms \<longleftrightarrow> unat c = length (filter P ms) \<and> unat n = (\<Sum>m\<leftarrow>filter P ms. msg_size m) \<and> budget P k z ms"

lemma tracks_empty [simp]: "tracks k z P 0 0 []"
  by (simp add: tracks_def budget_def)

text \<open>One more message: the words do not wrap as long as it stays below generous bounds.\<close>

lemma tracks_snoc:
  assumes "tracks k z P c n ms" "P m" "k < 100000" "z < 2 ^ 63" "unat sz = msg_size m" "msg_size m < 2 ^ 63"
  shows "unat (c + 1) = length (filter P (ms @ [m]))" "unat (n + sz) = (\<Sum>m\<leftarrow>filter P (ms @ [m]). msg_size m)"
    "unat (c + 1) \<le> k' \<Longrightarrow> unat (n + sz) \<le> z' \<Longrightarrow> tracks k' z' P (c + 1) (n + sz) (ms @ [m])"
proof -
  have "unat c \<le> k" "unat n \<le> z" using assms(1) by (auto simp: tracks_def budget_def)
  then have c: "unat (c + 1) = unat c + 1" and n: "unat (n + sz) = unat n + unat sz"
    using assms(3-6) by (simp_all add: unat_word_ariths)
  show "unat (c + 1) = length (filter P (ms @ [m]))" "unat (n + sz) = (\<Sum>m\<leftarrow>filter P (ms @ [m]). msg_size m)"
    using assms(1,2,5) by (simp_all add: c n tracks_def)
  moreover assume "unat (c + 1) \<le> k'" "unat (n + sz) \<le> z'"
  ultimately show "tracks k' z' P (c + 1) (n + sz) (ms @ [m])" by (simp add: tracks_def budget_def)
qed

lemma tracks_skip: "tracks k z P c n ms \<Longrightarrow> \<not> P m \<Longrightarrow> tracks k z P c n (ms @ [m])"
  by (simp add: tracks_def budget_def)

definition get_count :: "rate_window \<Rightarrow> protocol_message_types \<Rightarrow> u32" where
  "get_count w t = (case counts w (message_code t) of Some c \<Rightarrow> c | None \<Rightarrow> 0)"

definition get_size :: "rate_window \<Rightarrow> protocol_message_types \<Rightarrow> u64" where
  "get_size w t = (case sizes w (message_code t) of Some n \<Rightarrow> n | None \<Rightarrow> 0)"

abbreviation type_tracks :: "u64 \<Rightarrow> link_message list \<Rightarrow> protocol_message_types \<Rightarrow> rate_window \<Rightarrow> bool" where
  "type_tracks secs hist t w \<equiv> tracks 50000 (50000 * (100 * 2 ^ 20)) (\<lambda>x. msg_type x = t)
     (get_count w t) (get_size w t) (in_slot secs (win_slot w) hist)"

abbreviation aggregate_tracks :: "u64 \<Rightarrow> link_message list \<Rightarrow> rate_window \<Rightarrow> bool" where
  "aggregate_tracks secs hist w \<equiv>
     tracks 1000 (100 * 2 ^ 20) aggregated (non_tx_count w) (non_tx_size w) (in_slot secs (win_slot w) hist)"

definition window_inv :: "u64 \<Rightarrow> link_message list \<Rightarrow> rate_window \<Rightarrow> bool" where
  "window_inv secs hist w \<longleftrightarrow>
     (\<forall>t s. v1_limit t = Rl s \<longrightarrow> type_tracks secs hist t w) \<and> aggregate_tracks secs hist w \<and>
     (\<forall>m \<in> set hist. msg_slot secs m \<le> win_slot w)"

lemma window_inv_roll:
  assumes "window_inv secs hist w" "win_slot w \<le> s"
  shows "window_inv secs hist (roll_window s w)" "win_slot (roll_window s w) = s"
proof -
  have "in_slot secs s hist = []" if "s \<noteq> win_slot w"
  proof -
    have "msg_slot secs m \<noteq> s" if "m \<in> set hist" for m
      using assms that \<open>s \<noteq> win_slot w\<close> by (auto simp: window_inv_def)
    then show ?thesis by (simp add: in_slot_def filter_empty_conv)
  qed
  then show "window_inv secs hist (roll_window s w)"
    using assms by (auto simp: roll_window_def empty_window_def window_inv_def get_count_def get_size_def)
  show "win_slot (roll_window s w) = s" by (simp add: roll_window_def empty_window_def)
qed

text \<open>What a check has found out of a message it lets pass, and the window it leaves behind.\<close>

definition msg_bytes :: "link_message \<Rightarrow> u64" where
  "msg_bytes m = fst (snd (snd m))"

definition fits :: "rate_window \<Rightarrow> link_message \<Rightarrow> bool" where
  "fits w m = (case msg_limit m of
     Unlimited k \<Rightarrow> msg_size m \<le> unat k
   | Rl s \<Rightarrow> unat (get_count w (msg_type m) + 1) \<le> unat (frequency s) \<and> msg_size m \<le> unat (max_size s) \<and>
       unat (get_size w (msg_type m) + msg_bytes m) \<le> unat (max_total s) \<and>
       (aggregate_limit s \<longrightarrow>
          unat (non_tx_count w + 1) \<le> 1000 \<and> unat (non_tx_size w + msg_bytes m) \<le> 100 * 2 ^ 20))"

definition charged :: "link_message \<Rightarrow> rate_window \<Rightarrow> rate_window" where
  "charged m w =
     w\<lparr>counts := (counts w)(message_code (msg_type m) \<mapsto> get_count w (msg_type m) + 1),
       sizes := (sizes w)(message_code (msg_type m) \<mapsto> get_size w (msg_type m) + msg_bytes m),
       non_tx_count := (if aggregated m then non_tx_count w + 1 else non_tx_count w),
       non_tx_size := (if aggregated m then non_tx_size w + msg_bytes m else non_tx_size w)\<rparr>"

lemmas msg_sels = msg_type_def msg_size_def msg_bytes_def msg_slot_def

lemma msg_limit_sane: "msg_limit m = Rl s \<Longrightarrow> sane_limit (Rl s)"
  using composed_sane by (metis msg_limit_def)

lemma msg_limit_Rl: "(\<exists>s. v1_limit (msg_type m) = Rl s) \<longleftrightarrow> (\<exists>s. msg_limit m = Rl s)"
  using unlimited_either_way by (metis limit.exhaust limit.distinct(1) msg_limit_def)

text \<open>The check in one equation: the window rolls; a message that fits is charged and passes; one that does not
  is reported, and charged only on a receiving link.\<close>

lemma process_and_check_iff:
  assumes "process_and_check t n caps e lm = (lm', v)"
  defines "m \<equiv> (e, t, n, caps)" and "w \<equiv> roll_window (e div reset_seconds lm) (inner lm)"
  shows "v = None \<longleftrightarrow> fits w m" "lm' = lm\<lparr>inner := if incoming lm \<or> fits w m then charged m w else w\<rparr>"
proof -
  have l: "msg_limit m = composed_limit t (peer_supports_v2 caps)" and [simp]: "msg_type m = t" "msg_bytes m = n" "msg_size m = unat n"
    by (simp_all add: m_def msg_limit_def msg_sels)
  show v: "v = None \<longleftrightarrow> fits w m"
  proof (cases "msg_limit m")
    case (Unlimited k)
    then show ?thesis using assms(1) unfolding process_and_check_def Let_def fits_def l
      by (auto simp: word_less_nat_alt not_less split: if_splits)
  next
    case (Rl s)
    have "v = (case (if aggregate_limit s then aggregate_hit (non_tx_count w + 1) (non_tx_size w + n) else None) of
        Some hit \<Rightarrow> Some hit | None \<Rightarrow> type_hit s n (get_count w t + 1) (get_size w t + n))"
      using Rl assms(1) unfolding process_and_check_def Let_def l w_def get_count_def get_size_def
      by (cases "aggregate_limit s") simp_all
    then have "v = None \<longleftrightarrow> (aggregate_limit s \<longrightarrow> aggregate_hit (non_tx_count w + 1) (non_tx_size w + n) = None) \<and>
        type_hit s n (get_count w t + 1) (get_size w t + n) = None"
      by (simp split: option.split)
    with Rl show ?thesis unfolding type_hit_None [OF msg_limit_sane [OF Rl]] aggregate_hit_None
      by (auto simp: fits_def)
  qed
  have "lm' = lm\<lparr>inner := if incoming lm \<or> v = None then charged m w else w\<rparr>"
    using assms(1) unfolding process_and_check_def Let_def charged_def aggregated_def w_def get_count_def get_size_def l
    by auto
  with v show "lm' = lm\<lparr>inner := if incoming lm \<or> fits w m then charged m w else w\<rparr>" by simp
qed

section \<open>Counting\<close>

lemma in_slot_snoc: "msg_slot secs m = s \<Longrightarrow> in_slot secs s (ms @ [m]) = in_slot secs s ms @ [m]"
  by (simp add: in_slot_def)

lemma charged_simps [simp]:
  "win_slot (charged m w) = win_slot w"
  "get_count (charged m w) t = (if t = msg_type m then get_count w t + 1 else get_count w t)"
  "get_size (charged m w) t = (if t = msg_type m then get_size w t + msg_bytes m else get_size w t)"
  "non_tx_count (charged m w) = (if aggregated m then non_tx_count w + 1 else non_tx_count w)"
  "non_tx_size (charged m w) = (if aggregated m then non_tx_size w + msg_bytes m else non_tx_size w)"
  by (auto simp: charged_def get_count_def get_size_def message_code_inj)

lemma fits_small:
  assumes "fits w m" "msg_limit m = Rl s"
  shows "msg_size m < 2 ^ 63" "unat (msg_bytes m) = msg_size m"
  using assms msg_limit_sane [OF assms(2)] by (simp_all add: fits_def sane_limit_def msg_sels)

lemma charged_type_tracks:
  assumes "type_tracks secs hist (msg_type m) w" "fits w m" "msg_limit m = Rl s" "win_slot w = msg_slot secs m"
  shows "type_tracks secs (hist @ [m]) (msg_type m) (charged m w)"
    "budget (\<lambda>x. msg_type x = msg_type m) (unat (frequency s)) (unat (max_total s)) (in_slot secs (win_slot w) (hist @ [m]))"
proof -
  note tr = tracks_snoc [OF assms(1), of m "msg_bytes m"]
  have "unat (get_count w (msg_type m) + 1) \<le> unat (frequency s)"
    "unat (get_size w (msg_type m) + msg_bytes m) \<le> unat (max_total s)"
    using assms(2,3) by (simp_all add: fits_def)
  moreover from this have "unat (get_count w (msg_type m) + 1) \<le> 50000"
    "unat (get_size w (msg_type m) + msg_bytes m) \<le> 50000 * (100 * 2 ^ 20)"
    using msg_limit_sane [OF assms(3)] by (simp_all add: sane_limit_def)
  ultimately show "type_tracks secs (hist @ [m]) (msg_type m) (charged m w)"
    "budget (\<lambda>x. msg_type x = msg_type m) (unat (frequency s)) (unat (max_total s)) (in_slot secs (win_slot w) (hist @ [m]))"
    using tr fits_small [OF assms(2,3)] assms(4) by (simp_all add: in_slot_snoc tracks_def budget_def)
qed

lemma charged_aggregate_tracks:
  assumes "aggregate_tracks secs hist w" "fits w m" "win_slot w = msg_slot secs m"
  shows "aggregate_tracks secs (hist @ [m]) (charged m w)"
proof (cases "aggregated m")
  case True
  then obtain s where s: "msg_limit m = Rl s" "aggregate_limit s" by (auto simp: aggregated_def split: limit.splits)
  with assms(2) have "unat (non_tx_count w + 1) \<le> 1000" "unat (non_tx_size w + msg_bytes m) \<le> 100 * 2 ^ 20"
    by (simp_all add: fits_def)
  from tracks_snoc(3) [OF assms(1) True _ _ _ _ this] show ?thesis
    using fits_small [OF assms(2) s(1)] True assms(3) by (simp add: in_slot_snoc)
next
  case False
  with tracks_skip [OF assms(1) this] assms(3) show ?thesis by (simp add: in_slot_snoc)
qed

text \<open>A message that fits is within budget, and the window counts it.\<close>

lemma fits_within_budget:
  assumes "window_inv secs hist w" "fits w m" "win_slot w = msg_slot secs m"
  shows "within_budget secs hist m"
proof (cases "msg_limit m")
  case (Unlimited k)
  then show ?thesis using assms(2) by (simp add: within_budget_def fits_def)
next
  case (Rl s)
  have win: "filter (\<lambda>x. msg_slot secs x = msg_slot secs m) (hist @ [m]) = in_slot secs (win_slot w) (hist @ [m])"
    using assms(3) by (simp add: in_slot_def)
  have "type_tracks secs hist (msg_type m) w" using assms(1) Rl msg_limit_Rl [of m] by (auto simp: window_inv_def)
  note t = charged_type_tracks(2) [OF this assms(2) Rl assms(3)]
  have "aggregate_tracks secs (hist @ [m]) (charged m w)"
    using assms charged_aggregate_tracks by (auto simp: window_inv_def)
  with t assms(2) Rl show ?thesis unfolding within_budget_def Let_def win by (simp add: fits_def tracks_def)
qed

lemma charged_window_inv:
  assumes "window_inv secs hist w" "fits w m" "win_slot w = msg_slot secs m"
  shows "window_inv secs (hist @ [m]) (charged m w)"
proof -
  have "type_tracks secs (hist @ [m]) t (charged m w)" if s: "v1_limit t = Rl s" for t s
  proof (cases "t = msg_type m")
    case True
    with s msg_limit_Rl [of m] obtain s' where "msg_limit m = Rl s'" by blast
    with True s assms show ?thesis using charged_type_tracks(1) by (auto simp: window_inv_def)
  next
    case False
    have "type_tracks secs hist t w" using assms(1) s by (auto simp: window_inv_def)
    from tracks_skip [OF this, of m] False assms(3) show ?thesis by (simp add: in_slot_snoc)
  qed
  moreover have "aggregate_tracks secs (hist @ [m]) (charged m w)"
    using assms charged_aggregate_tracks by (auto simp: window_inv_def)
  ultimately show ?thesis using assms(1,3) by (auto simp: window_inv_def)
qed

lemma word_div_mono: "(a :: u64) \<le> b \<Longrightarrow> a div c \<le> b div c"
  by (simp add: word_le_nat_alt unat_div div_le_mono)

lemma process_keeps:
  "process_and_check t n caps e lm = (lm', v) \<Longrightarrow> reset_seconds lm' = reset_seconds lm \<and> incoming lm' = incoming lm"
  by (auto dest: process_and_check_iff(2))

lemma admitted_within_budget:
  assumes "window_inv (reset_seconds lm) hist (inner lm)" "sorted (map fst ms)"
    "\<forall>m \<in> set ms. win_slot (inner lm) \<le> msg_slot (reset_seconds lm) m" "admitted lm ms = pre @ m # post"
  shows "within_budget (reset_seconds lm) (hist @ pre) m"
  using assms
proof (induction lm ms arbitrary: hist pre rule: admitted.induct)
  case (1 lm)
  then show ?case by simp
next
  case (2 lm e t n caps ms)
  let ?secs = "reset_seconds lm" and ?x = "(e, t, n, caps)"
  define w where "w = roll_window (e div ?secs) (inner lm)"
  obtain lm' v where p: "process_and_check t n caps e lm = (lm', v)" by (cases "process_and_check t n caps e lm")
  have later: "win_slot (inner lm) \<le> e div ?secs" using "2.prems"(3) by (simp add: msg_slot_def)
  have w: "window_inv ?secs hist w" "win_slot w = msg_slot ?secs ?x"
    using window_inv_roll [OF "2.prems"(1) later] by (simp_all add: w_def msg_slot_def)
  note q = process_and_check_iff [OF p, folded w_def] and k = process_keeps [OF p]
  have sorted': "sorted (map fst ms)" using "2.prems"(2) by simp
  have rest: "\<forall>m \<in> set ms. msg_slot ?secs ?x \<le> msg_slot ?secs m"
    using "2.prems"(2) by (auto simp: msg_slot_def intro: word_div_mono)
  show ?case
  proof (cases v)
    case None
    then have f: "fits w ?x" and lm': "inner lm' = charged ?x w" using q by auto
    have adm: "?x # admitted lm' ms = pre @ m # post" using "2.prems"(4) p None by simp
    show ?thesis
    proof (cases pre)
      case Nil
      then show ?thesis using fits_within_budget [OF w(1) f w(2)] adm by simp
    next
      case (Cons y pre')
      have inv: "window_inv (reset_seconds lm') (hist @ [?x]) (inner lm')"
        using charged_window_inv [OF w(1) f w(2)] k lm' by simp
      have later': "\<forall>m \<in> set ms. win_slot (inner lm') \<le> msg_slot (reset_seconds lm') m"
        using rest k lm' w(2) by simp
      have "within_budget (reset_seconds lm') ((hist @ [?x]) @ pre') m"
        using adm Cons by (intro "2.IH"(1) [OF p [symmetric] None inv sorted' later']) simp
      with Cons adm k show ?thesis by simp
    qed
  next
    case (Some r)
    then have inc: "\<not> incoming lm" and adm: "admitted lm' ms = pre @ m # post"
      using "2.prems"(4) p by (auto split: if_splits)
    then have lm': "inner lm' = w" using q Some by auto
    have inv: "window_inv (reset_seconds lm') hist (inner lm')" using w(1) k lm' by simp
    have later': "\<forall>m \<in> set ms. win_slot (inner lm') \<le> msg_slot (reset_seconds lm') m"
      using rest k lm' w(2) by simp
    from "2.IH"(2) [OF p [symmetric] Some inc inv sorted' later' adm] k show ?thesis by simp
  qed
qed

text \<open>
  C35: on a link of either direction, with a clock that never runs back and capabilities that may change on
  the way, every message that passes the limiter respects all its budgets: its size the cap of its type, the
  messages of its type so far in the window the frequency and the cumulative size in force for it, and the
  messages of all aggregate-limited types the 1000 messages and 100 MiB they share. Neither the wrapping
  counters nor the comparison in floating point lets a message through.
\<close>

theorem limits_hold:
  assumes "sorted (map fst ms)" and "admitted (with_params inc secs) ms = pre @ m # post"
  shows "within_budget (max secs 1) pre m"
proof -
  have "window_inv (max secs 1) [] (empty_window 0)"
    by (simp add: window_inv_def in_slot_def empty_window_def get_count_def get_size_def)
  with admitted_within_budget [of "with_params inc secs" "[]" ms pre m post] assms show ?thesis
    by (simp add: with_params_def empty_window_def)
qed

text \<open>Two window configurations of 600 bytes in one window: the second is over the cumulative size.\<close>

lemma limits_hold_witness:
  "let m = (3, Solver ConfigureWindowSizes, 600, []) in
     admitted (new_limiter True) [m, m] = [m] \<and> within_budget 60 [] m"
proof -
  let ?m = "(3, Solver ConfigureWindowSizes, 600, []) :: link_message"
  have l: "composed_limit (Solver ConfigureWindowSizes) False = rl_total True 5 1024 1024"
    by (simp add: composed_limit_def v1_limit_def v1_solver_def KIB_def)
  have a: "admitted (with_params True 60) [?m, ?m] = [] @ ?m # []"
    by (simp add: with_params_def empty_window_def process_and_check_def Let_def l rl_total_def
        peer_supports_v2_def roll_window_def max_total_def max_def
        type_hit_def aggregate_hit_def AGGREGATE_def MIB_def f64_small)
  have "max 60 1 = (60 :: u64)" by (simp add: max_def word_le_nat_alt)
  then show ?thesis using limits_hold [OF _ a] a by (simp add: new_limiter_def del: admitted.simps)
qed

section \<open>The throttle lets every message through in the end\<close>

definition size_cap :: "limit \<Rightarrow> u64" where
  "size_cap l = (case l of Rl s \<Rightarrow> max_size s | Unlimited k \<Rightarrow> k)"

definition roomy :: "limit \<Rightarrow> bool" where
  "roomy l = (case l of Rl s \<Rightarrow> 0 < unat (frequency s) \<and> unat (max_size s) \<le> unat (max_total s) | Unlimited _ \<Rightarrow> True)"

lemma v1_roomy: "roomy (v1_limit t)"
  unfolding v1_limit_def
  by (cases t; simp add: roomy_def max_total_def limit_kinds;
      rename_tac m; case_tac m; simp add: v1_groups limit_kinds max_total_def)

lemma v2_roomy: "case v2_override t of None \<Rightarrow> True | Some l \<Rightarrow> roomy l"
  unfolding v2_override_def
  by (cases t; simp; rename_tac m; case_tac m; simp add: v2_groups limit_kinds roomy_def max_total_def)

lemma msg_limit_roomy: "roomy (msg_limit m)"
  using v1_roomy v2_roomy [of "msg_type m"] by (auto simp: msg_limit_def composed_limit_def split: option.split)

text \<open>A fresh window has room for every message that respects the cap of its type; no window has for another.\<close>

lemma fits_empty: "fits (empty_window s) m \<longleftrightarrow> msg_size m \<le> unat (size_cap (msg_limit m))"
proof (cases "msg_limit m")
  case (Rl r)
  then show ?thesis using msg_limit_roomy [of m] msg_limit_sane [OF Rl]
    by (auto simp: fits_def size_cap_def roomy_def sane_limit_def empty_window_def get_count_def get_size_def msg_sels)
qed (simp add: fits_def size_cap_def)

lemma fits_size_cap: "fits w m \<Longrightarrow> msg_size m \<le> unat (size_cap (msg_limit m))"
  by (simp add: fits_def size_cap_def split: limit.splits)

lemma decide_cases:
  assumes "\<not> incoming (limiter ol)" and "decide t n caps e ol = (ol', d)"
  defines "w \<equiv> roll_window (e div reset_seconds (limiter ol)) (inner (limiter ol))"
  shows "fits w (e, t, n, caps) \<Longrightarrow> d = Send"
    "\<not> fits w (e, t, n, caps) \<Longrightarrow> d = (if is_requeue_exempt t then DropExempt else Defer) \<and>
       ol' = ol\<lparr>limiter := limiter ol\<lparr>inner := w\<rparr>\<rparr>"
proof -
  obtain lm v where p: "process_and_check t n caps e (limiter ol) = (lm, v)" by (cases "process_and_check t n caps e (limiter ol)")
  note q = process_and_check_iff [OF p, folded w_def]
  show "fits w (e, t, n, caps) \<Longrightarrow> d = Send" using assms(2) p q by (simp add: decide_def)
  show "\<not> fits w (e, t, n, caps) \<Longrightarrow> d = (if is_requeue_exempt t then DropExempt else Defer) \<and>
      ol' = ol\<lparr>limiter := limiter ol\<lparr>inner := w\<rparr>\<rparr>"
    using assms(1,2) p q by (auto simp: decide_def)
qed

lemma msg_limit_tuple: "msg_limit (e, t, n, caps) = composed_limit t (peer_supports_v2 caps)"
  "msg_size (e, t, n, caps) = unat n"
  by (simp_all add: msg_limit_def msg_sels)

lemma admit_loop_admits:
  assumes "\<not> incoming (limiter ol)" "\<not> is_requeue_exempt t"
    "unat n \<le> unat (size_cap (composed_limit t (peer_supports_v2 caps)))"
    "attempts \<le> j" "j \<le> max_attempts ol" "now j div reset_seconds (limiter ol) \<noteq> win_slot (inner (limiter ol))"
  shows "snd (admit_loop t n caps now attempts ol) = Admit"
  using assms
proof (induction t n caps now attempts ol rule: admit_loop.induct)
  case (1 t n caps now attempts ol)
  let ?m = "(now attempts, t, n, caps)"
  define w where "w = roll_window (now attempts div reset_seconds (limiter ol)) (inner (limiter ol))"
  obtain ol' d where d: "decide t n caps (now attempts) ol = (ol', d)" by (cases "decide t n caps (now attempts) ol")
  note c = decide_cases [OF "1.prems"(1) d, folded w_def]
  show ?case
  proof (cases "fits w ?m")
    case True
    then show ?thesis using c(1) d by (subst admit_loop.simps) simp
  next
    case False
    then have nw: "w \<noteq> empty_window s" for s using "1.prems"(3) fits_empty by (auto simp: msg_limit_tuple)
    have w: "now attempts div reset_seconds (limiter ol) = win_slot (inner (limiter ol))"
    proof (rule ccontr)
      assume "\<not> ?thesis"
      then have "w = empty_window (now attempts div reset_seconds (limiter ol))" by (simp add: w_def roll_window_def)
      with nw show False by blast
    qed
    then have "w = inner (limiter ol)" by (simp add: w_def roll_window_def)
    then have ol': "d = Defer" "ol' = ol" using c(2) False "1.prems"(2) by auto
    have "attempts \<noteq> j" using w "1.prems"(6) by auto
    then have lt: "attempts < j" using "1.prems"(4) by simp
    then have "attempts + 1 \<le> j" by (rule inc_le)
    moreover have nle: "\<not> attempts \<ge> max_attempts ol" using lt "1.prems"(5) by simp
    ultimately have "snd (admit_loop t n caps now (attempts + 1) ol) = Admit"
      using "1.IH" [OF d [symmetric] _ ol'(1) nle] "1.prems" ol' by simp
    then show ?thesis using d ol' nle by (subst admit_loop.simps) simp
  qed
qed

lemma admit_loop_sheds:
  assumes "\<not> incoming (limiter ol)" "\<not> is_requeue_exempt t"
    "unat n > unat (size_cap (composed_limit t (peer_supports_v2 caps)))"
  shows "snd (admit_loop t n caps now attempts ol) = Drop BackpressureCap"
  using assms
proof (induction t n caps now attempts ol rule: admit_loop.induct)
  case (1 t n caps now attempts ol)
  obtain ol' d where d: "decide t n caps (now attempts) ol = (ol', d)" by (cases "decide t n caps (now attempts) ol")
  have "\<not> fits w (now attempts, t, n, caps)" for w
    using fits_size_cap [of w "(now attempts, t, n, caps)"] "1.prems"(3) by (auto simp: msg_limit_tuple)
  then have ol': "d = Defer" "\<not> incoming (limiter ol')" using decide_cases(2) [OF "1.prems"(1) d] "1.prems"(1,2) by auto
  show ?case
  proof (cases "attempts \<ge> max_attempts ol")
    case True
    then show ?thesis using d ol' by (subst admit_loop.simps) simp
  next
    case False
    then show ?thesis using "1.IH" [OF d [symmetric] _ ol'(1) False] d ol' "1.prems" by (subst admit_loop.simps) simp
  qed
qed

lemma clock_advances:
  assumes "\<forall>i < MAX_ATTEMPTS. unat (now i) + 1 \<le> unat (now (i + 1) :: u64)" "k \<le> 65"
  shows "unat (now 0) + k \<le> unat (now (of_nat k :: u32))"
  using assms(2)
proof (induction k)
  case (Suc k)
  then have "of_nat k < MAX_ATTEMPTS" by (simp add: MAX_ATTEMPTS_def word_less_nat_alt unat_of_nat)
  with assms(1) have "unat (now (of_nat k)) + 1 \<le> unat (now (of_nat k + 1))" by blast
  moreover have "(of_nat k :: u32) + 1 = of_nat (Suc k)" by simp
  ultimately show ?case using Suc by (simp add: add.commute)
qed simp



end
