(* ===== verification/WindowLimits.thy ===== *)
theory WindowLimits
  imports RateLimits
begin

text \<open>
  In-flight windows (rate limits v3), \<^verbatim>\<open>core/src/protocols/rate_limits_v3.rs\<close>, and the request table that
  hands out correlation ids, \<^verbatim>\<open>PendingRequests\<close> of \<^verbatim>\<open>core/src/protocols/mod.rs\<close>. A method that holds the lock is
  one step on the state; the sender half of a one-shot channel is a value of the type \<open>'w\<close>.
\<close>

section \<open>Settings\<close>

record rl_settings_v3 =
  window_size :: "u16 option"

definition window :: "u16 \<Rightarrow> rl_settings_v3 option" where
  "window n = Some \<lparr>window_size = Some n\<rparr>"

definition UNLIMITED :: "rl_settings_v3 option" where
  "UNLIMITED = Some \<lparr>window_size = None\<rparr>"

definition v3_full_node :: "full_node_message \<Rightarrow> rl_settings_v3 option" where
  "v3_full_node m = (case m of
     RequestProofOfWeight \<Rightarrow> window 2
   | RespondProofOfWeight \<Rightarrow> UNLIMITED
   | RequestBlock \<Rightarrow> window 2
   | RespondBlock \<Rightarrow> UNLIMITED
   | RejectBlock \<Rightarrow> UNLIMITED
   | RequestBlocks \<Rightarrow> window 2
   | RespondBlocks \<Rightarrow> UNLIMITED
   | RejectBlocks \<Rightarrow> UNLIMITED
   | _ \<Rightarrow> None)"

definition v3_wallet :: "wallet_message \<Rightarrow> rl_settings_v3 option" where
  "v3_wallet m = (case m of
     RequestPuzzleSolution \<Rightarrow> window 2
   | RespondPuzzleSolution \<Rightarrow> UNLIMITED
   | RejectPuzzleSolution \<Rightarrow> UNLIMITED
   | RequestBlockHeader \<Rightarrow> window 2
   | RespondBlockHeader \<Rightarrow> UNLIMITED
   | RejectHeaderRequest \<Rightarrow> UNLIMITED
   | RequestRemovals \<Rightarrow> window 2
   | RespondRemovals \<Rightarrow> UNLIMITED
   | RejectRemovalsRequest \<Rightarrow> UNLIMITED
   | RequestAdditions \<Rightarrow> window 2
   | RespondAdditions \<Rightarrow> UNLIMITED
   | RejectAdditionsRequest \<Rightarrow> UNLIMITED
   | RequestHeaderBlocks \<Rightarrow> window 2
   | RejectHeaderBlocks \<Rightarrow> UNLIMITED
   | RespondHeaderBlocks \<Rightarrow> UNLIMITED
   | _ \<Rightarrow> None)"

definition v3_wallet_update :: "wallet_update_message \<Rightarrow> rl_settings_v3 option" where
  "v3_wallet_update m = (case m of
     RegisterInterestInPuzzleHash \<Rightarrow> window 2
   | RespondToPhUpdate \<Rightarrow> UNLIMITED
   | RegisterInterestInCoin \<Rightarrow> window 2
   | RespondToCoinUpdate \<Rightarrow> UNLIMITED
   | RequestBlockHeaders \<Rightarrow> window 2
   | RejectBlockHeaders \<Rightarrow> UNLIMITED
   | RespondBlockHeaders \<Rightarrow> UNLIMITED
   | _ \<Rightarrow> None)"

definition v3_subscription :: "subscription_message \<Rightarrow> rl_settings_v3 option" where
  "v3_subscription m = (case m of
     RequestPuzzleState \<Rightarrow> window 2
   | RespondPuzzleState \<Rightarrow> UNLIMITED
   | RejectPuzzleState \<Rightarrow> UNLIMITED
   | RequestCoinState \<Rightarrow> window 2
   | RespondCoinState \<Rightarrow> UNLIMITED
   | RejectCoinState \<Rightarrow> UNLIMITED
   | _ \<Rightarrow> None)"

definition v3_setting :: "protocol_message_types \<Rightarrow> rl_settings_v3 option" where
  "v3_setting t = (case t of
     FullNode m \<Rightarrow> v3_full_node m
   | Wallet m \<Rightarrow> v3_wallet m
   | WalletUpdate m \<Rightarrow> v3_wallet_update m
   | Subscription m \<Rightarrow> v3_subscription m
   | _ \<Rightarrow> None)"

definition MAX_CONFIGURE_RATE_LIMITS_ENTRIES :: nat where
  "MAX_CONFIGURE_RATE_LIMITS_ENTRIES = 256"

definition RateLimitsV3 :: u16 where "RateLimitsV3 = 7"

definition peer_supports_v3 :: "capabilities \<Rightarrow> bool" where
  "peer_supports_v3 caps = list_ex (\<lambda>(v, state). v = RateLimitsV3 \<and> state = ''1'') caps"

definition configure_entry :: "u8 \<Rightarrow> (u8 \<times> u16) list" where
  "configure_entry code =
     (let t = message_type_from code
      in if t = Unknown then []
         else case v3_setting t of
                Some s \<Rightarrow> [(code, case window_size s of Some n \<Rightarrow> n | None \<Rightarrow> 0)]
              | None \<Rightarrow> [])"

definition configure_message :: "(u8 \<times> u16) list" where
  "configure_message = concat (map configure_entry (map of_nat [0..<256]))"

datatype handshake_error = EmptySettings | TooManySettings nat | BoundsUnlimited protocol_message_types u16

fun configure_loop ::
    "(u8 \<times> u16) list \<Rightarrow> (protocol_message_types \<rightharpoonup> rl_settings_v3) \<Rightarrow>
     handshake_error + (protocol_message_types \<rightharpoonup> rl_settings_v3)" where
  "configure_loop [] out = Inr out"
| "configure_loop ((code, win) # rest) out =
     (let t = message_type_from code
      in if t = Unknown then configure_loop rest out
         else if (case v3_setting t of Some ours \<Rightarrow> window_size ours = None \<and> win \<noteq> 0 | None \<Rightarrow> False)
         then Inl (BoundsUnlimited t win)
         else configure_loop rest (out(t \<mapsto> \<lparr>window_size = (if win = 0 then None else Some win)\<rparr>)))"

definition settings_from_configure ::
    "(u8 \<times> u16) list \<Rightarrow> handshake_error + (protocol_message_types \<rightharpoonup> rl_settings_v3)" where
  "settings_from_configure settings =
     (if settings = [] then Inl EmptySettings
      else if length settings > MAX_CONFIGURE_RATE_LIMITS_ENTRIES then Inl (TooManySettings (length settings))
      else configure_loop settings Map.empty)"

section \<open>The windows of a link\<close>

record v3_link =
  offered :: bool
  active :: bool
  peer_settings :: "u8 \<rightharpoonup> rl_settings_v3"
  recv_in_flight :: "u8 \<rightharpoonup> u16"
  out_in_flight :: "u8 \<rightharpoonup> u16"
  out_ids :: "u16 \<rightharpoonup> u8"

definition default_link :: v3_link where
  "default_link = \<lparr>offered = False, active = False, peer_settings = Map.empty, recv_in_flight = Map.empty,
     out_in_flight = Map.empty, out_ids = Map.empty\<rparr>"

definition offer :: "v3_link \<Rightarrow> v3_link" where
  "offer l = l\<lparr>offered := True\<rparr>"

definition activate :: "(protocol_message_types \<rightharpoonup> rl_settings_v3) \<Rightarrow> v3_link \<Rightarrow> v3_link" where
  "activate settings l =
     l\<lparr>peer_settings := (\<lambda>b. let t = message_type_from b in if message_code t = b then settings t else None),
       active := True\<rparr>"

text \<open>\<^verbatim>\<open>entry(key).or_insert(0)\<close>, then one more unless the window is full; \<open>None\<close> is \<^verbatim>\<open>Err(())\<close>.\<close>

definition take_slot :: "(u8 \<rightharpoonup> u16) \<Rightarrow> u8 \<Rightarrow> u16 \<Rightarrow> (u8 \<rightharpoonup> u16) \<times> bool" where
  "take_slot m key w =
     (let c = (case m key of Some c \<Rightarrow> c | None \<Rightarrow> 0)
      in if c \<ge> w then (m(key \<mapsto> c), False) else (m(key \<mapsto> c + 1), True))"

definition free_slot :: "(u8 \<rightharpoonup> u16) \<Rightarrow> u8 \<Rightarrow> (u8 \<rightharpoonup> u16)" where
  "free_slot m key = (case m key of Some c \<Rightarrow> m(key \<mapsto> saturating_sub c 1) | None \<Rightarrow> m)"

definition recv_acquire :: "protocol_message_types \<Rightarrow> v3_link \<Rightarrow> v3_link \<times> bool option" where
  "recv_acquire t l =
     (case v3_setting t of
        Some s \<Rightarrow>
          (case window_size s of
             Some w \<Rightarrow> (let (m, ok) = take_slot (recv_in_flight l) (message_code t) w
                        in (l\<lparr>recv_in_flight := m\<rparr>, if ok then Some True else None))
           | None \<Rightarrow> (l, Some False))
      | None \<Rightarrow> (l, Some False))"

definition recv_release :: "protocol_message_types \<Rightarrow> v3_link \<Rightarrow> v3_link" where
  "recv_release t l = l\<lparr>recv_in_flight := free_slot (recv_in_flight l) (message_code t)\<rparr>"

definition out_acquire :: "protocol_message_types \<Rightarrow> u16 \<Rightarrow> v3_link \<Rightarrow> v3_link \<times> bool option" where
  "out_acquire t id' l =
     (case peer_settings l (message_code t) of
        Some s \<Rightarrow>
          (case window_size s of
             Some w \<Rightarrow>
               (let (m, ok) = take_slot (out_in_flight l) (message_code t) w
                in if ok then (l\<lparr>out_in_flight := m, out_ids := (out_ids l)(id' \<mapsto> message_code t)\<rparr>, Some True)
                   else (l\<lparr>out_in_flight := m\<rparr>, None))
           | None \<Rightarrow> (l, Some False))
      | None \<Rightarrow> (l, Some False))"

definition out_release :: "u16 \<Rightarrow> v3_link \<Rightarrow> v3_link" where
  "out_release id' l =
     (case out_ids l id' of
        Some code \<Rightarrow> l\<lparr>out_ids := (out_ids l)(id' := None), out_in_flight := free_slot (out_in_flight l) code\<rparr>
      | None \<Rightarrow> l)"

section \<open>Pending requests\<close>

record 'w pending_requests =
  last_id :: u16
  waiters :: "u16 \<rightharpoonup> 'w"

definition default_pending :: "'w pending_requests" where
  "default_pending = \<lparr>last_id = 0, waiters = Map.empty\<rparr>"

text \<open>The search for an id runs forever when every id is in flight.\<close>

partial_function (option) next_id :: "u16 \<Rightarrow> (u16 \<rightharpoonup> 'w) \<Rightarrow> u16 option" where
  "next_id last_used ws =
     (let cand = last_used + 1 in if cand \<noteq> 0 \<and> ws cand = None then Some cand else next_id cand ws)"

definition register :: "'w \<Rightarrow> 'w pending_requests \<Rightarrow> ('w pending_requests \<times> u16) option" where
  "register tx p =
     (case next_id (last_id p) (waiters p) of
        None \<Rightarrow> None
      | Some i \<Rightarrow> Some (p\<lparr>last_id := i, waiters := (waiters p)(i \<mapsto> tx)\<rparr>, i))"

definition cancel :: "u16 \<Rightarrow> 'w pending_requests \<Rightarrow> 'w pending_requests" where
  "cancel i p = p\<lparr>waiters := (waiters p)(i := None)\<rparr>"

text \<open>The waiter the message is handed to, if any; its presence is the result of the call.\<close>

definition deliver :: "u16 \<Rightarrow> 'w pending_requests \<Rightarrow> 'w pending_requests \<times> 'w option" where
  "deliver i p = (p\<lparr>waiters := (waiters p)(i := None)\<rparr>, waiters p i)"

section \<open>A connection\<close>

record 'w connection =
  pending :: "'w pending_requests"
  v3 :: v3_link

definition cancel_request :: "u16 \<Rightarrow> 'w connection \<Rightarrow> 'w connection" where
  "cancel_request i c = c\<lparr>pending := cancel i (pending c), v3 := out_release i (v3 c)\<rparr>"

text \<open>The fast path of the read loop: a reply to a waiter frees the slot of its request.\<close>

definition route_reply :: "u16 \<Rightarrow> 'w connection \<Rightarrow> 'w connection \<times> 'w option" where
  "route_reply i c =
     (let (p, w) = deliver i (pending c)
      in (c\<lparr>pending := p, v3 := (if w \<noteq> None then out_release i (v3 c) else v3 c)\<rparr>, w))"

end
