(* ===== verification/WindowSound.thy ===== *)
theory WindowSound
  imports WindowLimits
begin

text \<open>
  Correctness of the in-flight windows and of the request table: correlation ids never alias a live request,
  the exchange of settings, and that no interleaving exceeds a window.
\<close>

section \<open>Correlation ids\<close>

lemma next_id_sound: "next_id l ws = Some j \<Longrightarrow> j \<noteq> 0 \<and> ws j = None"
  by (rule next_id.raw_induct [where P = "\<lambda>l ws j. j \<noteq> 0 \<and> ws j = None"]) (auto simp: Let_def split: if_splits)

text \<open>A free id is found, and the one found is the first free one after the last one handed out.\<close>

lemma next_id_first:
  assumes "i \<noteq> 0" "ws i = None"
  shows "\<exists>j. next_id l ws = Some j \<and>
    (\<forall>k < unat (j - (l + 1)). l + 1 + of_nat k = 0 \<or> ws (l + 1 + of_nat k) \<noteq> None)"
  using assms
proof (induction "unat (i - (l + 1))" arbitrary: l rule: less_induct)
  case less
  show ?case
  proof (cases "l + 1 \<noteq> 0 \<and> ws (l + 1) = None")
    case True
    then show ?thesis by (subst next_id.simps) (simp add: Let_def)
  next
    case busy: False
    have step: "unat (x - (l + 1)) = Suc (unat (x - (l + 1 + 1)))" if "x - (l + 1) \<noteq> 0" for x :: u16
    proof -
      have "unat (x - (l + 1 + 1)) = unat (x - (l + 1) - 1)" by (simp add: algebra_simps)
      also have "\<dots> = unat (x - (l + 1)) - 1" by (rule unat_minus_one [OF that])
      finally have "unat (x - (l + 1 + 1)) = unat (x - (l + 1)) - 1" .
      moreover have "0 < unat (x - (l + 1))" using that unat_gt_0 by blast
      ultimately show ?thesis by linarith
    qed
    have "i - (l + 1) \<noteq> 0" using busy less.prems by auto
    from step [OF this] have "unat (i - (l + 1 + 1)) < unat (i - (l + 1))" by simp
    from less.hyps [OF this less.prems] obtain j where j: "next_id (l + 1) ws = Some j"
      "\<forall>k < unat (j - (l + 1 + 1)). l + 1 + 1 + of_nat k = 0 \<or> ws (l + 1 + 1 + of_nat k) \<noteq> None" by blast
    have "l + 1 + of_nat k = 0 \<or> ws (l + 1 + of_nat k) \<noteq> None" if k: "k < unat (j - (l + 1))" for k
    proof (cases k)
      case 0
      with busy show ?thesis by auto
    next
      case (Suc k')
      have "j - (l + 1) \<noteq> 0" using k by auto
      with step k Suc have "k' < unat (j - (l + 1 + 1))" by simp
      with j(2) Suc show ?thesis by (simp add: ac_simps)
    qed
    moreover have "next_id l ws = next_id (l + 1) ws" using busy by (subst next_id.simps) (auto simp: Let_def)
    ultimately show ?thesis using j(1) by auto
  qed
qed

lemma next_id_returns: "(\<exists>j. next_id l ws = Some j) \<longleftrightarrow> (\<exists>i. i \<noteq> 0 \<and> ws i = None)"
  using next_id_sound next_id_first by metis

text \<open>
  C38: the request table. Registration returns exactly if some non-zero id is free, and then hands out a
  non-zero id that no live request has, the first such after the last one handed out; it changes no other
  entry. A reply is routed to the waiter registered under its id, once.
\<close>

theorem correlation_ids:
  "(register tx p \<noteq> None \<longleftrightarrow> (\<exists>i. i \<noteq> 0 \<and> waiters p i = None)) \<and>
   (register tx p = Some (p', i) \<longrightarrow>
      i \<noteq> 0 \<and> waiters p i = None \<and> waiters p' = (waiters p)(i \<mapsto> tx) \<and> last_id p' = i \<and>
      (\<forall>k < unat (i - (last_id p + 1)). last_id p + 1 + of_nat k = 0 \<or> waiters p (last_id p + 1 + of_nat k) \<noteq> None) \<and>
      snd (deliver i p') = Some tx \<and> snd (deliver i (fst (deliver i p'))) = None \<and>
      (\<forall>j. j \<noteq> i \<longrightarrow> snd (deliver j p') = snd (deliver j p)) \<and> snd (deliver i (cancel i p')) = None)"
proof -
  have "register tx p \<noteq> None \<longleftrightarrow> (\<exists>i. i \<noteq> 0 \<and> waiters p i = None)"
    unfolding next_id_returns [symmetric, of _ "last_id p"] by (simp add: register_def split: option.split)
  moreover have "\<forall>k < unat (i - (last_id p + 1)). last_id p + 1 + of_nat k = 0 \<or> waiters p (last_id p + 1 + of_nat k) \<noteq> None"
    if "next_id (last_id p) (waiters p) = Some i"
    using next_id_first [of i "waiters p" "last_id p"] next_id_sound [OF that] that by auto
  ultimately show ?thesis
    using next_id_sound [of "last_id p" "waiters p" i]
    by (auto simp: register_def deliver_def cancel_def split: option.splits)
qed

lemma correlation_ids_witness:
  "\<exists>p'. register ''a'' (default_pending\<lparr>last_id := 0xFFFF, waiters := [1 \<mapsto> ''b'']\<rparr>) = Some (p', 2) \<and>
     snd (deliver 2 p') = Some ''a'' \<and> snd (deliver 1 p') = Some ''b''"
proof -
  let ?p = "default_pending\<lparr>last_id := 0xFFFF, waiters := [1 \<mapsto> ''b'']\<rparr>"
  have "next_id (last_id ?p) (waiters ?p) = Some 2"
    by (simp, subst next_id.simps, simp, subst next_id.simps, simp, subst next_id.simps, simp)
  then obtain p' where "register ''a'' ?p = Some (p', 2)" by (simp add: register_def)
  with correlation_ids [of "''a''" ?p p' 2] show ?thesis by (auto simp: deliver_def default_pending_def)
qed

section \<open>Exchange of the windows\<close>

lemma v3_setting_cases: "v3_setting t = None \<or> v3_setting t = window 2 \<or> v3_setting t = UNLIMITED"
  unfolding v3_setting_def
  by (cases t; simp; rename_tac m; case_tac m;
      simp add: v3_full_node_def v3_wallet_def v3_wallet_update_def v3_subscription_def)

lemma v3_setting_Unknown [simp]: "v3_setting Unknown = None"
  by (simp add: v3_setting_def)

lemma code_of_known: "message_type_from b \<noteq> Unknown \<Longrightarrow> message_code (message_type_from b) = b"
  using message_type_from_Unknown_iff [of b] message_type_from_code by auto

lemma configure_entries:
  "configure_loop (concat (map configure_entry codes)) out =
     Inr (\<lambda>t. if v3_setting t \<noteq> None \<and> message_code t \<in> set codes then v3_setting t else out t)"
proof (induction codes arbitrary: out)
  case Nil
  show ?case by simp
next
  case (Cons b codes)
  let ?t = "message_type_from b"
  show ?case
  proof (cases "?t = Unknown \<or> v3_setting ?t = None")
    case True
    then have "configure_entry b = []" by (auto simp: configure_entry_def Let_def)
    moreover have "v3_setting t = None" if "message_code t = b" for t
      using True that message_type_from_code [of t] by auto
    ultimately show ?thesis using Cons by (auto simp: fun_eq_iff)
  next
    case False
    then obtain s where s: "v3_setting ?t = Some s" by auto
    let ?w = "case window_size s of Some n \<Rightarrow> n | None \<Rightarrow> 0"
    have w: "s = \<lparr>window_size = None\<rparr> \<or> s = \<lparr>window_size = Some 2\<rparr>"
      using v3_setting_cases [of ?t] s by (auto simp: window_def UNLIMITED_def)
    have e: "configure_entry b = [(b, ?w)]" using False s by (simp add: configure_entry_def Let_def)
    have "configure_loop ((b, ?w) # concat (map configure_entry codes)) out =
        configure_loop (concat (map configure_entry codes)) (out(?t \<mapsto> s))"
      using False s w by (auto simp: Let_def)
    then show ?thesis using False s code_of_known [of b] Cons e
      by (auto simp: fun_eq_iff message_type_from_code)
  qed
qed

lemma all_bytes: "set (map of_nat [0..<256]) = (UNIV :: u8 set)"
proof -
  have "b \<in> set (map of_nat [0..<256])" for b :: u8
  proof -
    have "b = of_nat (unat b)" "unat b < 256" using unsigned_less [of b, where ?'a = nat] by simp_all
    then show ?thesis by (auto intro!: image_eqI [of _ _ "unat b"])
  qed
  then show ?thesis by blast
qed

lemma configure_message_length: "configure_message \<noteq> [] \<and> length configure_message \<le> 256"
proof
  have "configure_entry 26 \<noteq> []"
  proof -
    have "message_type_from 26 = FullNode RequestBlock"
      using message_type_from_code [of "FullNode RequestBlock"] by (simp add: message_code_def full_node_code_def)
    then show ?thesis by (simp add: configure_entry_def v3_setting_def v3_full_node_def window_def)
  qed
  moreover have "26 \<in> set (map of_nat [0..<256] :: u8 list)" using all_bytes by blast
  ultimately show "configure_message \<noteq> []" unfolding configure_message_def by (metis concat_eq_Nil_conv image_eqI list.set_map)
  have "length (configure_entry b) \<le> 1" for b by (simp add: configure_entry_def Let_def split: option.split)
  then have "(\<Sum>b\<leftarrow>bs. length (configure_entry b)) \<le> (\<Sum>b\<leftarrow>bs. 1)" for bs by (intro sum_list_mono)
  then have "length (concat (map configure_entry bs)) \<le> length bs" for bs by (simp add: length_concat comp_def sum_list_triv)
  from this [of "map of_nat [0..<256]"] show "length configure_message \<le> 256" by (simp add: configure_message_def)
qed

lemma configure_loop_unlimited:
  assumes "configure_loop ms out = Inr m" "m t = Some s" "v3_setting t = UNLIMITED"
    "\<And>s'. out t = Some s' \<Longrightarrow> window_size s' = None"
  shows "window_size s = None"
  using assms
proof (induction ms out rule: configure_loop.induct)
  case (2 code win rest out)
  show ?case
  proof (cases "message_type_from code = Unknown")
    case True
    with 2 show ?thesis by (simp add: Let_def)
  next
    case known: False
    show ?thesis
    proof (cases "case v3_setting (message_type_from code) of Some ours \<Rightarrow> window_size ours = None \<and> win \<noteq> 0 | None \<Rightarrow> False")
      case True
      with known "2.prems" show ?thesis by (simp add: Let_def)
    next
      case False
      let ?s = "\<lparr>window_size = (if win = 0 then None else Some win)\<rparr>"
      have "configure_loop rest (out(message_type_from code \<mapsto> ?s)) = Inr m" using "2.prems"(1) known False by (simp add: Let_def)
      moreover have "window_size s' = None" if "(out(message_type_from code \<mapsto> ?s)) t = Some s'" for s'
        using that "2.prems"(3,4) False by (auto simp: UNLIMITED_def split: if_splits)
      ultimately show ?thesis using "2.IH"(2) [OF refl known False] "2.prems"(2,3) by blast
    qed
  qed
qed simp

text \<open>
  C39: the exchange of windows. The settings message is never empty nor over the cap, and a peer reads from it
  exactly the sender's table; of any settings a peer accepts, none bounds a type its own table leaves
  unlimited; and both malformed sizes are refused.
\<close>

theorem configure_exchange:
  "settings_from_configure configure_message = Inr v3_setting \<and>
   (settings_from_configure ms = Inr m \<and> m t = Some s \<and> v3_setting t = UNLIMITED \<longrightarrow> window_size s = None) \<and>
   settings_from_configure [] = Inl EmptySettings \<and>
   (length ms > 256 \<longrightarrow> settings_from_configure ms = Inl (TooManySettings (length ms)))"
proof -
  have "settings_from_configure configure_message =
      configure_loop (concat (map configure_entry (map of_nat [0..<256]))) Map.empty"
    using configure_message_length
    by (simp add: settings_from_configure_def MAX_CONFIGURE_RATE_LIMITS_ENTRIES_def) (simp add: configure_message_def)
  also have "\<dots> = Inr v3_setting" unfolding configure_entries all_bytes by (auto simp: fun_eq_iff)
  finally show ?thesis
    using configure_loop_unlimited [of ms Map.empty m t s]
    by (auto simp: settings_from_configure_def MAX_CONFIGURE_RATE_LIMITS_ENTRIES_def split: if_splits)
qed

lemma configure_exchange_witness:
  "settings_from_configure configure_message = Inr v3_setting \<and>
   settings_from_configure (replicate 257 (1, 1)) = Inl (TooManySettings 257)"
  using configure_exchange [of "replicate 257 (1, 1)"] by simp

section \<open>Windows\<close>

definition slots :: "(u8 \<rightharpoonup> u16) \<Rightarrow> u8 \<Rightarrow> u16" where
  "slots m key = (case m key of Some c \<Rightarrow> c | None \<Rightarrow> 0)"

lemma take_slot_iff:
  assumes "take_slot m key w = (m', ok)"
  shows "ok \<longleftrightarrow> unat (slots m key) < unat w"
    "unat (slots m' k) = (if ok \<and> k = key then unat (slots m key) + 1 else unat (slots m k))"
proof -
  show ok: "ok \<longleftrightarrow> unat (slots m key) < unat w"
    using assms by (auto simp: take_slot_def Let_def slots_def word_le_nat_alt split: if_splits)
  then have "ok \<Longrightarrow> unat (slots m key + 1) = unat (slots m key) + 1"
    using unsigned_less [of w, where ?'a = nat] by (simp add: unat_word_ariths)
  then show "unat (slots m' k) = (if ok \<and> k = key then unat (slots m key) + 1 else unat (slots m k))"
    using assms by (auto simp: take_slot_def Let_def slots_def split: if_splits)
qed

lemma free_slot_iff: "unat (slots (free_slot m key) k) = (if k = key then unat (slots m key) - 1 else unat (slots m k))"
  by (auto simp: free_slot_def slots_def unat_saturating_sub split: option.split)

definition recv_window :: "protocol_message_types \<Rightarrow> nat" where
  "recv_window t = (case v3_setting t of
     Some s \<Rightarrow> (case window_size s of Some w \<Rightarrow> unat w | None \<Rightarrow> 0) | None \<Rightarrow> 0)"

text \<open>The correlation ids that hold a slot of a type.\<close>

definition holders :: "v3_link \<Rightarrow> u8 \<Rightarrow> u16 set" where
  "holders l code = {i. out_ids l i = Some code}"

text \<open>
  A link under any interleaving of its tasks. The second component counts, per type, the receive guards that
  are alive: a guard is made when a slot is granted and releases it when it is dropped. The senders may use
  any ids, and the peer may configure its windows at any time.
\<close>

inductive link_run :: "v3_link \<Rightarrow> (protocol_message_types \<Rightarrow> nat) \<Rightarrow> bool" where
  run_start: "link_run default_link (\<lambda>_. 0)"
| run_offer: "link_run l g \<Longrightarrow> link_run (offer l) g"
| run_activate: "link_run l g \<Longrightarrow> link_run (activate settings l) g"
| run_recv: "link_run l g \<Longrightarrow> recv_acquire t l = (l', r) \<Longrightarrow>
    link_run l' (if r = Some True then g(t := g t + 1) else g)"
| run_drop: "link_run l g \<Longrightarrow> 0 < g t \<Longrightarrow> link_run (recv_release t l) (g(t := g t - 1))"
| run_acquire: "link_run l g \<Longrightarrow> out_acquire t i l = (l', r) \<Longrightarrow> link_run l' g"
| run_release: "link_run l g \<Longrightarrow> link_run (out_release i l) g"

definition recv_inv :: "v3_link \<Rightarrow> (protocol_message_types \<Rightarrow> nat) \<Rightarrow> bool" where
  "recv_inv l g \<longleftrightarrow> (\<forall>t. unat (slots (recv_in_flight l) (message_code t)) = g t \<and> g t \<le> recv_window t)"

definition out_inv :: "v3_link \<Rightarrow> bool" where
  "out_inv l \<longleftrightarrow> (\<forall>c. card (holders l c) \<le> unat (slots (out_in_flight l) c))"

lemma recv_acquire_inv:
  assumes "recv_inv l g" "recv_acquire t l = (l', r)"
  shows "recv_inv l' (if r = Some True then g(t := g t + 1) else g)" "out_inv l \<Longrightarrow> out_inv l'"
proof -
  show "recv_inv l' (if r = Some True then g(t := g t + 1) else g)"
  proof (cases "\<exists>s w. v3_setting t = Some s \<and> window_size s = Some w")
    case True
    then obtain s w where sw: "v3_setting t = Some s" "window_size s = Some w" by blast
    obtain m ok where t: "take_slot (recv_in_flight l) (message_code t) w = (m, ok)"
      by (cases "take_slot (recv_in_flight l) (message_code t) w")
    have l': "recv_in_flight l' = m" "r = (if ok then Some True else None)"
      using assms(2) sw t by (auto simp: recv_acquire_def)
    note ts = take_slot_iff [OF t]
    have "unat (slots m (message_code u)) = (if ok \<and> u = t then g t + 1 else g u)" for u
      using ts(2) [of "message_code u"] assms(1) by (simp add: recv_inv_def message_code_inj)
    moreover have "ok \<Longrightarrow> g t + 1 \<le> recv_window t"
      using ts(1) assms(1) sw by (simp add: recv_inv_def recv_window_def)
    ultimately show ?thesis using assms(1) l' by (cases ok) (simp_all add: recv_inv_def)
  next
    case False
    then have "l' = l \<and> r = Some False" using assms(2) by (auto simp: recv_acquire_def split: option.splits)
    then show ?thesis using assms(1) by simp
  qed
  show "out_inv l \<Longrightarrow> out_inv l'"
    using assms(2) by (auto simp: recv_acquire_def out_inv_def holders_def split: option.splits prod.splits)
qed

text \<open>A granted slot is below the peer's window, and only its own id joins the holders.\<close>

lemma out_acquire_cases:
  assumes "out_acquire t i l = (l', r)"
  obtains (same) "r \<noteq> Some True" "holders l' = holders l" "\<forall>c. unat (slots (out_in_flight l') c) = unat (slots (out_in_flight l) c)"
    "recv_in_flight l' = recv_in_flight l"
  | (slot) s w where "r = Some True" "peer_settings l (message_code t) = Some s" "window_size s = Some w"
    "unat (slots (out_in_flight l) (message_code t)) < unat w" "out_ids l' = (out_ids l)(i \<mapsto> message_code t)"
    "\<forall>c. unat (slots (out_in_flight l') c) =
       (if c = message_code t then unat (slots (out_in_flight l) c) + 1 else unat (slots (out_in_flight l) c))"
    "recv_in_flight l' = recv_in_flight l"
proof (cases "\<exists>s w. peer_settings l (message_code t) = Some s \<and> window_size s = Some w")
  case True
  then obtain s w where sw: "peer_settings l (message_code t) = Some s" "window_size s = Some w" by blast
  obtain m ok where t: "take_slot (out_in_flight l) (message_code t) w = (m, ok)"
    by (cases "take_slot (out_in_flight l) (message_code t) w")
  note ts = take_slot_iff [OF t]
  show thesis
  proof (cases ok)
    case True
    with assms sw t ts show thesis by (intro slot [of s w]) (auto simp: out_acquire_def)
  next
    case False
    with assms sw t ts show thesis by (intro same) (auto simp: out_acquire_def holders_def)
  qed
next
  case False
  then have "l' = l \<and> r = Some False"
    using assms by (auto simp: out_acquire_def split: option.splits)
  then show thesis by (intro same) auto
qed

lemma holders_insert:
  assumes "out_ids l' = (out_ids l)(i \<mapsto> c)"
  shows "card (holders l' c) \<le> card (holders l c) + 1" "c' \<noteq> c \<Longrightarrow> card (holders l' c') \<le> card (holders l c')"
proof -
  have "holders l' c = insert i (holders l c)" using assms by (auto simp: holders_def)
  then show "card (holders l' c) \<le> card (holders l c) + 1" using card_insert_le_m1 [of "card (holders l c) + 1" "holders l c" i] by simp
  assume "c' \<noteq> c"
  then have "holders l' c' \<subseteq> holders l c'" using assms by (auto simp: holders_def split: if_splits)
  then show "card (holders l' c') \<le> card (holders l c')" by (intro card_mono) auto
qed

lemma out_acquire_inv:
  assumes "out_inv l" "out_acquire t i l = (l', r)"
  shows "out_inv l' \<and> (recv_inv l g \<longrightarrow> recv_inv l' g)"
  using assms(2)
proof (cases rule: out_acquire_cases)
  case same
  then show ?thesis using assms(1) by (simp_all add: out_inv_def recv_inv_def)
next
  case (slot s w)
  have "card (holders l' c) \<le> unat (slots (out_in_flight l') c)" for c
  proof (cases "c = message_code t")
    case True
    then have "card (holders l' c) \<le> card (holders l c) + 1" using holders_insert(1) [OF slot(5)] by simp
    also have "\<dots> \<le> unat (slots (out_in_flight l) c) + 1" using assms(1) by (simp add: out_inv_def)
    finally show ?thesis using True slot(6) by simp
  next
    case False
    then have "card (holders l' c) \<le> card (holders l c)" by (rule holders_insert(2) [OF slot(5)])
    also have "\<dots> \<le> unat (slots (out_in_flight l) c)" using assms(1) by (simp add: out_inv_def)
    finally show ?thesis using False slot(6) by simp
  qed
  with slot(7) show ?thesis by (simp add: out_inv_def recv_inv_def)
qed

lemma out_release_inv:
  assumes "out_inv l"
  shows "out_inv (out_release i l)"
proof (cases "out_ids l i")
  case None
  with assms show ?thesis by (simp add: out_release_def)
next
  case (Some c)
  then have i: "i \<in> holders l c" by (simp add: holders_def)
  have h: "holders (out_release i l) c' = holders l c' - {i}" for c'
    using Some by (auto simp: out_release_def holders_def)
  have le: "card (holders l c') \<le> unat (slots (out_in_flight l) c')" for c' using assms by (simp add: out_inv_def)
  have "card (holders l c' - {i}) \<le> unat (slots (free_slot (out_in_flight l) c) c')" for c'
  proof (cases "c' = c")
    case True
    then have "card (holders l c' - {i}) = card (holders l c') - 1" using i by simp
    with le [of c'] True show ?thesis by (simp add: free_slot_iff)
  next
    case False
    have "card (holders l c' - {i}) \<le> card (holders l c')" by (intro card_mono) auto
    with le [of c'] False show ?thesis by (simp add: free_slot_iff)
  qed
  moreover have "out_in_flight (out_release i l) = free_slot (out_in_flight l) c" using Some by (simp add: out_release_def)
  ultimately show ?thesis by (simp add: out_inv_def h)
qed

lemma link_run_inv: "link_run l g \<Longrightarrow> recv_inv l g \<and> out_inv l"
proof (induction rule: link_run.induct)
  case run_start
  show ?case by (simp add: recv_inv_def out_inv_def default_link_def slots_def holders_def)
next
  case (run_drop l g t)
  then have "recv_inv (recv_release t l) (g(t := g t - 1))"
    by (auto simp: recv_inv_def recv_release_def free_slot_iff message_code_inj intro: le_trans [OF diff_le_self])
  moreover have "out_inv (recv_release t l)" using run_drop.IH by (simp add: out_inv_def recv_release_def holders_def)
  ultimately show ?case by blast
next
  case (run_release l g i)
  then show ?case using out_release_inv
    by (auto simp: recv_inv_def out_release_def split: option.splits)
next
  case (run_recv l g t l' r)
  then show ?case using recv_acquire_inv [of l g t l' r] by blast
next
  case (run_acquire l g t i l' r)
  then show ?case using out_acquire_inv [of l t i l' r g] by blast
qed (simp_all add: recv_inv_def out_inv_def offer_def activate_def holders_def)

text \<open>
  C37: in every state a link can reach under any interleaving of its tasks, the receive counter of a type is
  the number of its live guards and never above the window of the type; and whenever a slot of the peer's
  window is granted, the requests that hold slots of that type, the new one included, are at most the window
  the peer has configured.
\<close>

theorem windows_respected:
  assumes "link_run l g"
  shows "unat (slots (recv_in_flight l) (message_code t)) = g t \<and> g t \<le> recv_window t \<and>
    (out_acquire t i l = (l', Some True) \<longrightarrow>
       (\<exists>s w. peer_settings l (message_code t) = Some s \<and> window_size s = Some w \<and>
          i \<in> holders l' (message_code t) \<and> card (holders l' (message_code t)) \<le> unat w))"
proof -
  note inv = link_run_inv [OF assms]
  have "\<exists>s w. peer_settings l (message_code t) = Some s \<and> window_size s = Some w \<and>
      i \<in> holders l' (message_code t) \<and> card (holders l' (message_code t)) \<le> unat w"
    if o: "out_acquire t i l = (l', Some True)"
    using o
  proof (cases rule: out_acquire_cases)
    case (slot s w)
    have "card (holders l' (message_code t)) \<le> card (holders l (message_code t)) + 1"
      by (rule holders_insert(1) [OF slot(5)])
    also have "\<dots> \<le> unat (slots (out_in_flight l) (message_code t)) + 1" using inv by (simp add: out_inv_def)
    finally have "card (holders l' (message_code t)) \<le> unat w" using slot(4) by simp
    with slot show ?thesis by (auto simp: holders_def)
  qed simp
  with inv show ?thesis by (simp add: recv_inv_def)
qed

lemma windows_respected_witness:
  "\<exists>l g. link_run l g \<and> g (FullNode RequestBlock) = 1 \<and> recv_window (FullNode RequestBlock) = 2 \<and>
     g (FullNode RequestBlock) \<le> recv_window (FullNode RequestBlock)"
proof -
  let ?t = "FullNode RequestBlock"
  have s: "v3_setting ?t = Some \<lparr>window_size = Some 2\<rparr>" by (simp add: v3_setting_def v3_full_node_def window_def)
  obtain l' where "recv_acquire ?t default_link = (l', Some True)"
    by (simp add: recv_acquire_def s take_slot_def default_link_def Let_def word_le_nat_alt)
  from run_recv [OF run_start this] have r: "link_run l' ((\<lambda>_. 0)(?t := 1))" by simp
  from windows_respected [OF r, of ?t] r s show ?thesis
    by (intro exI [of _ l'] exI [of _ "(\<lambda>_. 0)(?t := 1)"]) (simp add: recv_window_def)
qed

text \<open>
  A reply that comes while its request still waits for a slot (the ids are consecutive, so a peer can guess
  them) is routed, finds no slot to free, and the slot taken afterwards is held by an id without a waiter; the
  genuine reply then finds no waiter and frees nothing.
\<close>

lemma early_reply_leaks_slot:
  fixes c :: "nat connection"
  assumes "register w (pending c) = Some (p, i)" and "out_ids (v3 c) i = None"
    and "out_acquire t i (v3 c) = (l', Some True)"
  defines "c1 \<equiv> c\<lparr>pending := p\<rparr>"
  shows "\<exists>c2. route_reply i c1 = (c2, Some w) \<and> v3 c2 = v3 c \<and>
    (\<exists>c3. c3 = c2\<lparr>v3 := l'\<rparr> \<and> waiters (pending c3) i = None \<and> out_ids (v3 c3) i = Some (message_code t) \<and>
      route_reply i c3 = (c3, None))"
proof -
  have p: "waiters p i = Some w" using assms(1) by (auto simp: register_def split: option.splits)
  have o: "out_ids l' i = Some (message_code t)" using assms(3) by (cases rule: out_acquire_cases) auto
  show ?thesis using p o assms(2) by (auto simp: c1_def route_reply_def deliver_def out_release_def)
qed

end
