(* ===== verification/BanRegistry.thy ===== *)
theory BanRegistry
  imports XchPrelude
begin

text \<open>
  The timed ban list, \<^verbatim>\<open>core/src/protocols/ban.rs\<close>. Hosts are values of a type parameter and instants natural
  numbers of seconds, passed in where the source reads the clock. A hash map is its list of entries in
  iteration order; as that order is unspecified, entries may be rearranged between any two calls.
\<close>

section \<open>State and operations\<close>

definition RATE_LIMITER_BAN_SECONDS :: nat where "RATE_LIMITER_BAN_SECONDS = 300"

definition CONSENSUS_ERROR_BAN_SECONDS :: nat where "CONSENSUS_ERROR_BAN_SECONDS = 600"

definition PROTOCOL_ERROR_BAN_SECONDS :: nat where "PROTOCOL_ERROR_BAN_SECONDS = 10"

definition DEFAULT_MAX_BANNED_HOSTS :: nat where "DEFAULT_MAX_BANNED_HOSTS = 10000"

datatype ban_cause = BanRateLimit | BanConsensusError | BanInvalidProtocol | BanApiException | BanInternalProtocolError

definition ban_seconds :: "ban_cause \<Rightarrow> nat" where
  "ban_seconds c = (case c of
     BanRateLimit \<Rightarrow> RATE_LIMITER_BAN_SECONDS
   | BanConsensusError \<Rightarrow> CONSENSUS_ERROR_BAN_SECONDS
   | BanInvalidProtocol \<Rightarrow> PROTOCOL_ERROR_BAN_SECONDS
   | BanApiException \<Rightarrow> PROTOCOL_ERROR_BAN_SECONDS
   | BanInternalProtocolError \<Rightarrow> PROTOCOL_ERROR_BAN_SECONDS)"

record 'h ban_registry =
  bans :: "('h \<times> nat) list"
  ban_cap :: nat

definition new_registry :: "nat \<Rightarrow> 'h ban_registry" where
  "new_registry c = \<lparr>bans = [], ban_cap = max c 1\<rparr>"

definition prune_expired :: "nat \<Rightarrow> ('h \<times> nat) list \<Rightarrow> ('h \<times> nat) list" where
  "prune_expired now m = filter (\<lambda>(_, until). until > now) m"

definition remove_host :: "'h \<Rightarrow> ('h \<times> nat) list \<Rightarrow> ('h \<times> nat) list" where
  "remove_host h m = filter (\<lambda>(k, _). k \<noteq> h) m"

text \<open>\<^verbatim>\<open>min_by_key\<close>: the first entry with the least expiry.\<close>

fun soonest :: "('h \<times> nat) list \<Rightarrow> ('h \<times> nat) option" where
  "soonest [] = None"
| "soonest (e # m) = (case soonest m of None \<Rightarrow> Some e | Some f \<Rightarrow> Some (if snd f < snd e then f else e))"

lemma soonest_in: "soonest m = Some e \<Longrightarrow> e \<in> set m"
  by (induction m arbitrary: e) (auto split: option.splits if_splits)

function enforce_cap :: "('h \<times> nat) list \<Rightarrow> nat \<Rightarrow> ('h \<times> nat) list" where
  "enforce_cap m c =
     (if length m > c
      then case soonest m of Some (victim, _) \<Rightarrow> enforce_cap (remove_host victim m) c | None \<Rightarrow> m
      else m)"
  by pat_completeness auto

termination
proof (relation "measure (length \<circ> fst)")
  fix m :: "('h \<times> nat) list" and c x victim u
  assume "soonest m = Some x" "(victim, u) = x"
  then have "(victim, u) \<in> set m" using soonest_in by metis
  then have "length (remove_host victim m) < length m" unfolding remove_host_def by (intro length_filter_less) auto
  then show "((remove_host victim m, c), m, c) \<in> measure (length \<circ> fst)" by simp
qed simp

declare enforce_cap.simps [simp del]

definition ban_for :: "'h \<Rightarrow> nat \<Rightarrow> nat \<Rightarrow> nat \<Rightarrow> 'h ban_registry \<Rightarrow> 'h ban_registry" where
  "ban_for host dur called now r =
     (let until = called + dur;
          m = prune_expired now (bans r);
          m = (case map_of m host of
                 Some existing \<Rightarrow> if existing \<ge> until then m else (host, until) # remove_host host m
               | None \<Rightarrow> (host, until) # remove_host host m)
      in r\<lparr>bans := enforce_cap m (ban_cap r)\<rparr>)"

definition ban :: "'h \<Rightarrow> ban_cause \<Rightarrow> nat \<Rightarrow> nat \<Rightarrow> 'h ban_registry \<Rightarrow> 'h ban_registry" where
  "ban host cause called now r = ban_for host (ban_seconds cause) called now r"

definition is_banned :: "'h \<Rightarrow> nat \<Rightarrow> 'h ban_registry \<Rightarrow> 'h ban_registry \<times> bool" where
  "is_banned host now r =
     (case map_of (bans r) host of
        Some until \<Rightarrow> if until > now then (r, True) else (r\<lparr>bans := remove_host host (bans r)\<rparr>, False)
      | None \<Rightarrow> (r, False))"

definition unban :: "'h \<Rightarrow> 'h ban_registry \<Rightarrow> 'h ban_registry \<times> bool" where
  "unban host r = (r\<lparr>bans := remove_host host (bans r)\<rparr>, map_of (bans r) host \<noteq> None)"

definition clear_bans :: "'h ban_registry \<Rightarrow> 'h ban_registry" where
  "clear_bans r = r\<lparr>bans := []\<rparr>"

definition ban_len :: "nat \<Rightarrow> 'h ban_registry \<Rightarrow> 'h ban_registry \<times> nat" where
  "ban_len now r = (let m = prune_expired now (bans r) in (r\<lparr>bans := m\<rparr>, length m))"

inductive ban_reachable :: "'h ban_registry \<Rightarrow> bool" where
  ban_new: "ban_reachable (new_registry c)"
| ban_ban: "ban_reachable r \<Longrightarrow> ban_reachable (ban_for host dur called now r)"
| ban_probe: "ban_reachable r \<Longrightarrow> ban_reachable (fst (is_banned host now r))"
| ban_unban: "ban_reachable r \<Longrightarrow> ban_reachable (fst (unban host r))"
| ban_clear: "ban_reachable r \<Longrightarrow> ban_reachable (clear_bans r)"
| ban_length: "ban_reachable r \<Longrightarrow> ban_reachable (fst (ban_len now r))"
| ban_rehash: "ban_reachable r \<Longrightarrow> mset m = mset (bans r) \<Longrightarrow> ban_reachable (r\<lparr>bans := m\<rparr>)"

section \<open>Entries\<close>

definition hosts_distinct :: "('h \<times> nat) list \<Rightarrow> bool" where
  "hosts_distinct m \<longleftrightarrow> distinct (map fst m)"

lemma map_of_hosts: "hosts_distinct m \<Longrightarrow> map_of m h = Some u \<longleftrightarrow> (h, u) \<in> set m"
  by (simp add: hosts_distinct_def)

lemma hosts_distinct_filter: "hosts_distinct m \<Longrightarrow> hosts_distinct (filter P m)"
  by (simp add: hosts_distinct_def distinct_map_filter)

lemma remove_host_set: "(h, u) \<in> set (remove_host v m) \<longleftrightarrow> (h, u) \<in> set m \<and> h \<noteq> v"
  by (auto simp: remove_host_def)

lemma remove_host_length:
  assumes "hosts_distinct m" "(v, u) \<in> set m"
  shows "length (remove_host v m) = length m - 1"
proof -
  have "filter (\<lambda>(k, _). k \<noteq> v) m = remove1 (v, u) m"
    using assms
  proof (induction m)
    case (Cons e m)
    obtain k w where e: "e = (k, w)" by (cases e)
    show ?case
    proof (cases "k = v")
      case True
      then have "w = u" using Cons.prems e by (auto simp: hosts_distinct_def image_iff)
      moreover have "filter (\<lambda>(k, _). k \<noteq> v) m = m"
        using Cons.prems e True by (intro filter_True) (auto simp: hosts_distinct_def image_iff)
      ultimately show ?thesis using e True by simp
    next
      case False
      then show ?thesis using Cons e by (auto simp: hosts_distinct_def)
    qed
  qed simp
  then show ?thesis using assms(2) by (simp add: remove_host_def length_remove1)
qed

lemma soonest_None: "soonest m = None \<longleftrightarrow> m = []"
  by (cases m) (auto split: option.split)

lemma soonest_least: "soonest m = Some e \<Longrightarrow> f \<in> set m \<Longrightarrow> snd e \<le> snd f"
proof (induction m arbitrary: e)
  case (Cons a m)
  show ?case
  proof (cases "soonest m")
    case None
    with Cons.prems show ?thesis by (simp add: soonest_None)
  next
    case (Some g)
    with Cons.IH [OF Some] Cons.prems show ?thesis by (auto split: if_splits)
  qed
qed simp

text \<open>Trimming keeps the entries that expire last, as many as fit.\<close>

lemma enforce_cap_spec:
  assumes "hosts_distinct m"
  shows "hosts_distinct (enforce_cap m c) \<and> set (enforce_cap m c) \<subseteq> set m \<and>
    length (enforce_cap m c) = min (length m) c \<and>
    (\<forall>h u h' u'. (h, u) \<in> set m \<and> (h, u) \<notin> set (enforce_cap m c) \<and> (h', u') \<in> set (enforce_cap m c) \<longrightarrow> u \<le> u')"
  using assms
proof (induction m c rule: enforce_cap.induct)
  case (1 m c)
  show ?case
  proof (cases "length m > c")
    case True
    then obtain v w where s: "soonest m = Some (v, w)" using soonest_None [of m] by (cases "soonest m") auto
    have v: "(v, w) \<in> set m" using s by (rule soonest_in)
    let ?m = "remove_host v m"
    have d: "hosts_distinct ?m" using "1.prems" by (simp add: remove_host_def hosts_distinct_filter)
    have e: "enforce_cap m c = enforce_cap ?m c" using True s by (simp add: enforce_cap.simps [of m c])
    note IH = "1.IH" [OF True s refl d]
    have "u \<le> u'" if "(h, u) \<in> set m" "(h, u) \<notin> set (enforce_cap ?m c)" "(h', u') \<in> set (enforce_cap ?m c)" for h u h' u'
    proof (cases "h = v")
      case True
      then have "u = w" using that(1) v "1.prems" by (metis map_of_hosts option.inject)
      moreover have "(h', u') \<in> set m" using that(3) IH remove_host_set by fast
      ultimately show ?thesis using soonest_least [OF s] by fastforce
    next
      case False
      then show ?thesis using that IH by (metis remove_host_set)
    qed
    moreover have "set ?m \<subseteq> set m" by (auto simp: remove_host_def)
    moreover have "length ?m = length m - 1" by (rule remove_host_length [OF "1.prems" v])
    ultimately show ?thesis using IH True unfolding e by auto
  next
    case False
    then show ?thesis using "1.prems" by (auto simp: enforce_cap.simps [of m c])
  qed
qed

section \<open>Bans\<close>

definition banned :: "'h ban_registry \<Rightarrow> 'h \<Rightarrow> nat \<Rightarrow> bool" where
  "banned r h t \<longleftrightarrow> (\<exists>u. map_of (bans r) h = Some u \<and> t < u)"

definition ban_inv :: "'h ban_registry \<Rightarrow> bool" where
  "ban_inv r \<longleftrightarrow> hosts_distinct (bans r) \<and> length (bans r) \<le> ban_cap r \<and> 1 \<le> ban_cap r"

text \<open>The entries a ban trims: the live ones, the new one replacing an earlier expiry of its host.\<close>

definition with_ban :: "'h \<Rightarrow> nat \<Rightarrow> nat \<Rightarrow> ('h \<times> nat) list \<Rightarrow> ('h \<times> nat) list" where
  "with_ban host until now m =
     (let m = prune_expired now m
      in case map_of m host of
           Some existing \<Rightarrow> if existing \<ge> until then m else (host, until) # remove_host host m
         | None \<Rightarrow> (host, until) # remove_host host m)"

lemma ban_for_with_ban: "ban_for host dur called now r = r\<lparr>bans := enforce_cap (with_ban host (called + dur) now (bans r)) (ban_cap r)\<rparr>"
  by (simp add: ban_for_def with_ban_def Let_def)

lemma with_ban_distinct:
  assumes "hosts_distinct m"
  shows "hosts_distinct (with_ban host until now m)"
proof -
  have p: "hosts_distinct (prune_expired now m)" using assms by (simp add: prune_expired_def hosts_distinct_filter)
  then have "hosts_distinct ((host, until) # remove_host host (prune_expired now m))"
    using hosts_distinct_filter [OF p] by (auto simp: remove_host_def hosts_distinct_def)
  with p show ?thesis by (simp add: with_ban_def Let_def split: option.split)
qed

lemma with_ban_set:
  assumes "hosts_distinct m"
  shows "(h, u) \<in> set (with_ban host until now m) \<longleftrightarrow>
    (if h = host then u = (case map_of m h of Some e \<Rightarrow> if now < e then max e until else until | None \<Rightarrow> until)
     else (h, u) \<in> set m \<and> now < u)"
proof -
  let ?m = "prune_expired now m"
  have d: "hosts_distinct ?m" using assms by (simp add: prune_expired_def hosts_distinct_filter)
  have in_m: "(k, w) \<in> set ?m \<longleftrightarrow> (k, w) \<in> set m \<and> now < w" for k w by (auto simp: prune_expired_def)
  show ?thesis
  proof (cases "map_of ?m host")
    case None
    then have "\<And>e. map_of m host = Some e \<Longrightarrow> \<not> now < e"
      using map_of_hosts [OF assms] map_of_hosts [OF d] in_m by (metis option.distinct(1))
    then show ?thesis using None by (auto simp: with_ban_def Let_def remove_host_set in_m split: option.splits)
  next
    case (Some e)
    then have e: "(host, e) \<in> set m" "now < e" using map_of_hosts [OF d] in_m by blast+
    then have m: "map_of m host = Some e" using map_of_hosts [OF assms] by blast
    have uniq: "(host, w) \<in> set m \<longleftrightarrow> w = e" for w using m map_of_hosts [OF assms] by (metis option.inject)
    show ?thesis using Some e m uniq
      by (auto simp: with_ban_def Let_def remove_host_set in_m max_def)
  qed
qed

lemma ban_for_inv: "ban_inv r \<Longrightarrow> ban_inv (ban_for host dur called now r)"
  using enforce_cap_spec [OF with_ban_distinct [of "bans r" host "called + dur" now], of "ban_cap r"]
  by (simp add: ban_inv_def ban_for_with_ban)

lemma ban_inv_filter: "ban_inv r \<Longrightarrow> ban_inv (r\<lparr>bans := filter P (bans r)\<rparr>)"
  by (auto simp: ban_inv_def hosts_distinct_filter intro: le_trans [OF length_filter_le])

lemma reachable_ban_inv: "ban_reachable r \<Longrightarrow> ban_inv r"
proof (induction rule: ban_reachable.induct)
  case (ban_new c)
  show ?case by (simp add: ban_inv_def new_registry_def hosts_distinct_def)
next
  case (ban_rehash r m)
  from ban_rehash.hyps(2) have "length m = length (bans r)" "mset (map fst m) = mset (map fst (bans r))"
    using mset_eq_length [of m "bans r"] by (simp_all add: mset_map)
  then show ?case using ban_rehash.IH mset_eq_imp_distinct_iff [of "map fst m" "map fst (bans r)"]
    by (simp add: ban_inv_def hosts_distinct_def)
next
  case (ban_probe r host now)
  then show ?case using ban_inv_filter [of r] by (simp add: is_banned_def remove_host_def split: option.split)
next
  case (ban_ban r host dur called now)
  then show ?case by (simp add: ban_for_inv)
next
  case (ban_unban r host)
  then show ?case using ban_inv_filter [of r] by (simp add: unban_def remove_host_def)
next
  case (ban_clear r)
  then show ?case by (simp add: clear_bans_def ban_inv_def hosts_distinct_def)
next
  case (ban_length r now)
  then show ?case using ban_inv_filter [of r] by (simp add: ban_len_def Let_def prune_expired_def)
qed

text \<open>
  C40: in every reachable registry no host has two entries and the cap holds. A ban never shortens one in
  force and invents none; while fewer hosts are banned than the cap allows, it takes effect for its whole
  time and keeps every other ban; past the cap, what is dropped expires no later than anything kept.
\<close>

theorem bans_enforced:
  assumes "ban_reachable r" and "r' = ban_for host dur called now r"
  shows "distinct (map fst (bans r')) \<and> length (bans r') \<le> ban_cap r' \<and>
    (\<forall>h u u'. map_of (bans r) h = Some u \<and> now < u \<and> map_of (bans r') h = Some u' \<longrightarrow> u \<le> u') \<and>
    (\<forall>h t. now \<le> t \<and> banned r' h t \<longrightarrow> banned r h t \<or> h = host \<and> t < called + dur) \<and>
    (length (prune_expired now (bans r)) < ban_cap r \<longrightarrow>
       (\<forall>h t. now \<le> t \<and> (banned r h t \<or> h = host \<and> t < called + dur) \<longrightarrow> banned r' h t)) \<and>
    (\<forall>h u h' u'. map_of (bans r) h = Some u \<and> now < u \<and> map_of (bans r') h = None \<and>
       map_of (bans r') h' = Some u' \<longrightarrow> u \<le> u')"
proof -
  define m where "m = with_ban host (called + dur) now (bans r)"
  have inv: "ban_inv r" by (rule reachable_ban_inv [OF assms(1)])
  then have inv': "ban_inv r'" using assms(2) by (simp add: ban_for_inv)
  note inv
  with inv' have d: "hosts_distinct (bans r)" "hosts_distinct (bans r')" by (simp_all add: ban_inv_def)
  have md: "hosts_distinct m" using d(1) by (simp add: m_def with_ban_distinct)
  have b: "bans r' = enforce_cap m (ban_cap r)" using assms(2) by (simp add: ban_for_with_ban m_def)
  note ec = enforce_cap_spec [OF md, of "ban_cap r", folded b]
  have m_in: "(h, u) \<in> set m \<longleftrightarrow> (if h = host then u = (case map_of (bans r) h of Some e \<Rightarrow> if now < e then max e (called + dur)
      else called + dur | None \<Rightarrow> called + dur) else map_of (bans r) h = Some u \<and> now < u)" for h u
    using with_ban_set [OF d(1)] map_of_hosts [OF d(1)] by (simp add: m_def)
  have r'_in: "map_of (bans r') h = Some u \<Longrightarrow> (h, u) \<in> set m" for h u using map_of_hosts [OF d(2)] ec by blast
  have longer: "u \<le> u'" if "map_of (bans r) h = Some u" "now < u" "map_of (bans r') h = Some u'" for h u u'
    using r'_in [OF that(3)] that(1,2) unfolding m_in by (auto split: if_splits)
  have sound: "banned r h t \<or> h = host \<and> t < called + dur" if t: "now \<le> t" "banned r' h t" for h t
  proof -
    obtain u where "map_of (bans r') h = Some u" "t < u" using t(2) by (auto simp: banned_def)
    with r'_in [of h u] show ?thesis unfolding m_in by (auto simp: banned_def max_def split: if_splits option.splits)
  qed
  have room: "banned r' h t" if len: "length (prune_expired now (bans r)) < ban_cap r" and t: "now \<le> t"
    "banned r h t \<or> h = host \<and> t < called + dur" for h t
  proof -
    have "length (remove_host host (prune_expired now (bans r))) \<le> length (prune_expired now (bans r))"
      by (simp add: remove_host_def)
    then have "length m \<le> length (prune_expired now (bans r)) + 1"
      by (simp add: m_def with_ban_def Let_def split: option.split)
    with len have "length m \<le> ban_cap r" by simp
    then have "bans r' = m" unfolding b by (simp add: enforce_cap.simps [of m])
    moreover have "\<exists>u. (h, u) \<in> set m \<and> t < u" using t unfolding m_in
      by (cases "h = host") (auto simp: banned_def less_max_iff_disj split: option.splits)
    ultimately show ?thesis using map_of_hosts [OF md] by (auto simp: banned_def)
  qed
  have dropped: "u \<le> u'" if a: "map_of (bans r) h = Some u" "now < u" "map_of (bans r') h = None" "map_of (bans r') h' = Some u'"
    for h u h' u'
  proof -
    obtain w where w: "(h, w) \<in> set m" "u \<le> w" using a(1,2) m_in [of h u] m_in [of h "max u (called + dur)"] by (cases "h = host") auto
    have "(h, w) \<notin> set (bans r')" using a(3) by (auto simp: map_of_eq_None_iff image_iff)
    with w ec a(4) map_of_hosts [OF d(2)] show ?thesis by (meson le_trans)
  qed
  show ?thesis using inv' longer sound room dropped unfolding ban_inv_def hosts_distinct_def by blast
qed

text \<open>One host, banned for a protocol error and then for a flood: the longer ban stands.\<close>

lemma bans_enforced_witness:
  "banned (ban ''h'' BanRateLimit 5 5 (ban ''h'' BanInvalidProtocol 1 1 (new_registry 2))) ''h'' 304 \<and>
   \<not> banned (ban ''h'' BanRateLimit 5 5 (ban ''h'' BanInvalidProtocol 1 1 (new_registry 2))) ''h'' 305"
proof -
  let ?r = "ban_for ''h'' 10 1 1 (new_registry 2)"
  have r: "ban_reachable ?r" by (intro ban_ban ban_new)
  have e: "bans ?r = [(''h'', 11)]" "ban_cap ?r = 2"
    by (simp_all add: ban_for_def new_registry_def prune_expired_def remove_host_def enforce_cap.simps)
  have u: "\<not> banned ?r ''h'' 305" unfolding banned_def e by simp
  have "length (prune_expired 5 (bans ?r)) < ban_cap ?r" unfolding e by (simp add: prune_expired_def)
  note b = bans_enforced [OF r refl, of "''h''" 300 5 5, THEN conjunct2, THEN conjunct2, THEN conjunct2] this
  have "banned (ban_for ''h'' 300 5 5 ?r) ''h'' 304"
    using b(1) [THEN conjunct2, THEN conjunct1, rule_format, OF b(2), of 304 "''h''"] by simp
  moreover have "\<not> banned (ban_for ''h'' 300 5 5 ?r) ''h'' 305"
    using b(1) [THEN conjunct1, rule_format, of 305 "''h''"] u by auto
  ultimately show ?thesis
    by (simp add: ban_def ban_seconds_def RATE_LIMITER_BAN_SECONDS_def PROTOCOL_ERROR_BAN_SECONDS_def)
qed

end
