(* ===== verification/Conditions.thy ===== *)
theory Conditions
  imports ClvmRuntime Consensus
begin

text \<open>
  Conditions, the output of a puzzle: \<^verbatim>\<open>core/src/blockchain/condition_opcode.rs\<close> and
  \<^verbatim>\<open>core/src/blockchain/condition_with_args.rs\<close> (reading and writing them as CLVM lists),
  \<^verbatim>\<open>core/src/clvm/condition_utils.rs\<close> and \<^verbatim>\<open>core/src/blockchain/utils.rs\<close> (what the signature of a coin's
  owner covers). An I/O error is its kind, without the message text.
\<close>

section \<open>Byte strings of a fixed size\<close>

text \<open>\<^verbatim>\<open>From<Vec<u8>>\<close> cuts or fills with zeros at the end; \<^verbatim>\<open>parse\<close> fills at the front and rejects what is longer.\<close>

definition sized_from :: "nat \<Rightarrow> bytes \<Rightarrow> bytes" where
  "sized_from n v = take n v @ replicate (n - length v) 0"

definition sized_parse :: "nat \<Rightarrow> bytes \<Rightarrow> bytes option" where
  "sized_parse n v = (if length v > n then None else Some (replicate (n - length v) 0 @ v))"

text \<open>\<^verbatim>\<open>Message::new\<close>; a message is its data.\<close>

definition message_new :: "bytes \<Rightarrow> error_kind + bytes" where
  "message_new msg = (if length msg > 1024 then Inl Other else Inr msg)"

section \<open>Opcodes\<close>

datatype condition_opcode =
    OpUnknown
  | OpRemark
  | OpAggSigParent
  | OpAggSigPuzzle
  | OpAggSigAmount
  | OpAggSigPuzzleAmount
  | OpAggSigParentAmount
  | OpAggSigParentPuzzle
  | OpAggSigUnsafe
  | OpAggSigMe
  | OpCreateCoin
  | OpReserveFee
  | OpCreateCoinAnnouncement
  | OpAssertCoinAnnouncement
  | OpCreatePuzzleAnnouncement
  | OpAssertPuzzleAnnouncement
  | OpAssertConcurrentSpend
  | OpAssertConcurrentPuzzle
  | OpSendMessage
  | OpReceiveMessage
  | OpAssertMyCoinId
  | OpAssertMyParentId
  | OpAssertMyPuzzlehash
  | OpAssertMyAmount
  | OpAssertMyBirthSeconds
  | OpAssertMyBirthHeight
  | OpAssertEphemeral
  | OpAssertSecondsRelative
  | OpAssertSecondsAbsolute
  | OpAssertHeightRelative
  | OpAssertHeightAbsolute
  | OpAssertBeforeSecondsRelative
  | OpAssertBeforeSecondsAbsolute
  | OpAssertBeforeHeightRelative
  | OpAssertBeforeHeightAbsolute
  | OpSoftFork

fun opcode_value :: "condition_opcode \<Rightarrow> u8" where
  "opcode_value OpUnknown = 0"
| "opcode_value OpRemark = 1"
| "opcode_value OpAggSigParent = 43"
| "opcode_value OpAggSigPuzzle = 44"
| "opcode_value OpAggSigAmount = 45"
| "opcode_value OpAggSigPuzzleAmount = 46"
| "opcode_value OpAggSigParentAmount = 47"
| "opcode_value OpAggSigParentPuzzle = 48"
| "opcode_value OpAggSigUnsafe = 49"
| "opcode_value OpAggSigMe = 50"
| "opcode_value OpCreateCoin = 51"
| "opcode_value OpReserveFee = 52"
| "opcode_value OpCreateCoinAnnouncement = 60"
| "opcode_value OpAssertCoinAnnouncement = 61"
| "opcode_value OpCreatePuzzleAnnouncement = 62"
| "opcode_value OpAssertPuzzleAnnouncement = 63"
| "opcode_value OpAssertConcurrentSpend = 64"
| "opcode_value OpAssertConcurrentPuzzle = 65"
| "opcode_value OpSendMessage = 66"
| "opcode_value OpReceiveMessage = 67"
| "opcode_value OpAssertMyCoinId = 70"
| "opcode_value OpAssertMyParentId = 71"
| "opcode_value OpAssertMyPuzzlehash = 72"
| "opcode_value OpAssertMyAmount = 73"
| "opcode_value OpAssertMyBirthSeconds = 74"
| "opcode_value OpAssertMyBirthHeight = 75"
| "opcode_value OpAssertEphemeral = 76"
| "opcode_value OpAssertSecondsRelative = 80"
| "opcode_value OpAssertSecondsAbsolute = 81"
| "opcode_value OpAssertHeightRelative = 82"
| "opcode_value OpAssertHeightAbsolute = 83"
| "opcode_value OpAssertBeforeSecondsRelative = 84"
| "opcode_value OpAssertBeforeSecondsAbsolute = 85"
| "opcode_value OpAssertBeforeHeightRelative = 86"
| "opcode_value OpAssertBeforeHeightAbsolute = 87"
| "opcode_value OpSoftFork = 90"

definition opcode_from :: "u8 \<Rightarrow> condition_opcode" where
  "opcode_from value =
     (if value = 1 then OpRemark
      else if value = 43 then OpAggSigParent
      else if value = 44 then OpAggSigPuzzle
      else if value = 45 then OpAggSigAmount
      else if value = 46 then OpAggSigPuzzleAmount
      else if value = 47 then OpAggSigParentAmount
      else if value = 48 then OpAggSigParentPuzzle
      else if value = 49 then OpAggSigUnsafe
      else if value = 50 then OpAggSigMe
      else if value = 51 then OpCreateCoin
      else if value = 52 then OpReserveFee
      else if value = 60 then OpCreateCoinAnnouncement
      else if value = 61 then OpAssertCoinAnnouncement
      else if value = 62 then OpCreatePuzzleAnnouncement
      else if value = 63 then OpAssertPuzzleAnnouncement
      else if value = 64 then OpAssertConcurrentSpend
      else if value = 65 then OpAssertConcurrentPuzzle
      else if value = 66 then OpSendMessage
      else if value = 67 then OpReceiveMessage
      else if value = 70 then OpAssertMyCoinId
      else if value = 71 then OpAssertMyParentId
      else if value = 72 then OpAssertMyPuzzlehash
      else if value = 73 then OpAssertMyAmount
      else if value = 74 then OpAssertMyBirthSeconds
      else if value = 75 then OpAssertMyBirthHeight
      else if value = 76 then OpAssertEphemeral
      else if value = 80 then OpAssertSecondsRelative
      else if value = 81 then OpAssertSecondsAbsolute
      else if value = 82 then OpAssertHeightRelative
      else if value = 83 then OpAssertHeightAbsolute
      else if value = 84 then OpAssertBeforeSecondsRelative
      else if value = 85 then OpAssertBeforeSecondsAbsolute
      else if value = 86 then OpAssertBeforeHeightRelative
      else if value = 87 then OpAssertBeforeHeightAbsolute
      else if value = 90 then OpSoftFork
      else OpUnknown)"

section \<open>Conditions\<close>

datatype message_args =
    MsgNone
  | MsgCoinId bytes
  | MsgParent bytes
  | MsgPuzzle bytes
  | MsgAmount u64
  | MsgParentPuzzle bytes bytes
  | MsgParentAmount bytes u64
  | MsgPuzzleAmount bytes u64

datatype message_args_type =
  TyNone | TyCoinId | TyParent | TyPuzzle | TyAmount | TyParentPuzzle | TyParentAmount | TyPuzzleAmount

datatype condition_with_args =
    Unknown
  | Remark bytes
  | AggSigParent bytes bytes
  | AggSigPuzzle bytes bytes
  | AggSigAmount bytes bytes
  | AggSigPuzzleAmount bytes bytes
  | AggSigParentAmount bytes bytes
  | AggSigParentPuzzle bytes bytes
  | AggSigUnsafe bytes bytes
  | AggSigMe bytes bytes
  | CreateCoin bytes u64 "bytes list"
  | ReserveFee u64
  | CreateCoinAnnouncement bytes
  | AssertCoinAnnouncement bytes
  | CreatePuzzleAnnouncement bytes
  | AssertPuzzleAnnouncement bytes
  | AssertConcurrentSpend bytes
  | AssertConcurrentPuzzle bytes
  | SendMessage u8 bytes message_args
  | ReceiveMessage u8 bytes message_args
  | AssertMyCoinId bytes
  | AssertMyParentId bytes
  | AssertMyPuzzlehash bytes
  | AssertMyAmount u64
  | AssertMyBirthSeconds u64
  | AssertMyBirthHeight u32
  | AssertEphemeral
  | AssertSecondsRelative u64
  | AssertSecondsAbsolute u64
  | AssertHeightRelative u32
  | AssertHeightAbsolute u32
  | AssertBeforeSecondsRelative u64
  | AssertBeforeSecondsAbsolute u64
  | AssertBeforeHeightRelative u32
  | AssertBeforeHeightAbsolute u32
  | SoftFork u64

fun op_code :: "condition_with_args \<Rightarrow> condition_opcode" where
  "op_code Unknown = OpUnknown"
| "op_code (Remark _) = OpRemark"
| "op_code (AggSigParent _ _) = OpAggSigParent"
| "op_code (AggSigPuzzle _ _) = OpAggSigPuzzle"
| "op_code (AggSigAmount _ _) = OpAggSigAmount"
| "op_code (AggSigPuzzleAmount _ _) = OpAggSigPuzzleAmount"
| "op_code (AggSigParentAmount _ _) = OpAggSigParentAmount"
| "op_code (AggSigParentPuzzle _ _) = OpAggSigParentPuzzle"
| "op_code (AggSigUnsafe _ _) = OpAggSigUnsafe"
| "op_code (AggSigMe _ _) = OpAggSigMe"
| "op_code (CreateCoin _ _ _) = OpCreateCoin"
| "op_code (ReserveFee _) = OpReserveFee"
| "op_code (CreateCoinAnnouncement _) = OpCreateCoinAnnouncement"
| "op_code (AssertCoinAnnouncement _) = OpAssertCoinAnnouncement"
| "op_code (CreatePuzzleAnnouncement _) = OpCreatePuzzleAnnouncement"
| "op_code (AssertPuzzleAnnouncement _) = OpAssertPuzzleAnnouncement"
| "op_code (AssertConcurrentSpend _) = OpAssertConcurrentSpend"
| "op_code (AssertConcurrentPuzzle _) = OpAssertConcurrentPuzzle"
| "op_code (SendMessage _ _ _) = OpSendMessage"
| "op_code (ReceiveMessage _ _ _) = OpReceiveMessage"
| "op_code (AssertMyCoinId _) = OpAssertMyCoinId"
| "op_code (AssertMyParentId _) = OpAssertMyParentId"
| "op_code (AssertMyPuzzlehash _) = OpAssertMyPuzzlehash"
| "op_code (AssertMyAmount _) = OpAssertMyAmount"
| "op_code (AssertMyBirthSeconds _) = OpAssertMyBirthSeconds"
| "op_code (AssertMyBirthHeight _) = OpAssertMyBirthHeight"
| "op_code AssertEphemeral = OpAssertEphemeral"
| "op_code (AssertSecondsRelative _) = OpAssertSecondsRelative"
| "op_code (AssertSecondsAbsolute _) = OpAssertSecondsAbsolute"
| "op_code (AssertHeightRelative _) = OpAssertHeightRelative"
| "op_code (AssertHeightAbsolute _) = OpAssertHeightAbsolute"
| "op_code (AssertBeforeSecondsRelative _) = OpAssertBeforeSecondsRelative"
| "op_code (AssertBeforeSecondsAbsolute _) = OpAssertBeforeSecondsAbsolute"
| "op_code (AssertBeforeHeightRelative _) = OpAssertBeforeHeightRelative"
| "op_code (AssertBeforeHeightAbsolute _) = OpAssertBeforeHeightAbsolute"
| "op_code (SoftFork _) = OpSoftFork"

definition BLS_G1_INFINITY :: bytes where
  "BLS_G1_INFINITY = 0xc0 # replicate 47 0"

definition agg_sig_infinity_pubkey :: "condition_with_args \<Rightarrow> bytes option" where
  "agg_sig_infinity_pubkey c =
     (let check = \<lambda>public_key. if public_key = BLS_G1_INFINITY then Some public_key else None in
      case c of
        AggSigParent public_key _ \<Rightarrow> check public_key
      | AggSigPuzzle public_key _ \<Rightarrow> check public_key
      | AggSigAmount public_key _ \<Rightarrow> check public_key
      | AggSigPuzzleAmount public_key _ \<Rightarrow> check public_key
      | AggSigParentAmount public_key _ \<Rightarrow> check public_key
      | AggSigParentPuzzle public_key _ \<Rightarrow> check public_key
      | AggSigUnsafe public_key _ \<Rightarrow> check public_key
      | AggSigMe public_key _ \<Rightarrow> check public_key
      | _ \<Rightarrow> None)"

section \<open>Lists\<close>

text \<open>\<^verbatim>\<open>SExp::ref_list\<close>, and the items \<^verbatim>\<open>SExpIter\<close> yields: an improper tail counts as a last item.\<close>

fun ref_list :: "sexp \<Rightarrow> sexp list" where
  "ref_list (Atom a) = (if a \<noteq> [] then [Atom a] else [])"
| "ref_list (Pair f r) = f # ref_list r"

fun sexp_iter :: "sexp \<Rightarrow> sexp list" where
  "sexp_iter (Atom a) = (if a = [] then [] else [Atom a])"
| "sexp_iter (Pair f r) = f # sexp_iter r"

text \<open>\<^verbatim>\<open>From<Vec<SExp>>\<close>: a proper list.\<close>

definition sexp_of_list :: "sexp list \<Rightarrow> sexp" where
  "sexp_of_list values = (case values of
     [] \<Rightarrow> NULL_SEXP
   | sexp # others \<Rightarrow> Pair sexp (foldr Pair others NULL_SEXP))"

text \<open>\<^verbatim>\<open>From<u8>\<close> and \<^verbatim>\<open>From<u32>\<close>, \<^verbatim>\<open>From<u64>\<close>; the trimming loop is the one of \<^verbatim>\<open>Arena::new_i128\<close>.\<close>

definition sexp_of_u8 :: "u8 \<Rightarrow> sexp" where
  "sexp_of_u8 u = (if u = 0 then NULL_SEXP else Atom [u])"

definition sexp_of_uint :: "'a::len word \<Rightarrow> sexp" where
  "sexp_of_uint num = (if num = 0 then NULL_SEXP else Atom (trim_i128 (be_bytes (LENGTH('a) div 8) (unat num))))"

section \<open>Reading\<close>

fun memo_atoms :: "sexp list \<Rightarrow> error_kind + bytes list" where
  "memo_atoms [] = Inr []"
| "memo_atoms (Atom a # ms) = bind_res (memo_atoms ms) (\<lambda>memos. Inr (a # memos))"
| "memo_atoms (Pair _ _ # ms) = Inl InvalidData"

definition memos_from_sexp :: "sexp \<Rightarrow> error_kind + bytes list" where
  "memos_from_sexp sexp = memo_atoms (ref_list sexp)"

definition memos_from_bytes :: "bytes \<Rightarrow> error_kind + bytes list" where
  "memos_from_bytes blob = (case sexp_from_bytes blob of
     Inl _ \<Rightarrow> Inl InvalidData
   | Inr (sexp, rest) \<Rightarrow> if rest \<noteq> [] then Inl InvalidData else memos_from_sexp sexp)"

definition message_mode :: "u8 \<Rightarrow> message_args_type" where
  "message_mode bits =
     (let b = bits AND 7 in
      if b = 0 then TyNone
      else if b = 1 then TyAmount
      else if b = 2 then TyPuzzle
      else if b = 3 then TyPuzzleAmount
      else if b = 4 then TyParent
      else if b = 5 then TyParentAmount
      else if b = 6 then TyParentPuzzle
      else TyCoinId)"

definition send_message_mode :: "u8 \<Rightarrow> message_args_type" where
  "send_message_mode mode = message_mode (mode AND 7)"

definition receive_message_mode :: "u8 \<Rightarrow> message_args_type" where
  "receive_message_mode mode = message_mode (drop_bit 3 mode AND 7)"

text \<open>The arguments that are left, first one first; what is not needed is ignored.\<close>

fun message_args_of :: "message_args_type \<Rightarrow> bytes list \<Rightarrow> error_kind + message_args" where
  "message_args_of TyNone args = Inr MsgNone"
| "message_args_of TyCoinId (cid # _) = Inr (MsgCoinId (sized_from 32 cid))"
| "message_args_of TyParent (parent # _) = Inr (MsgParent (sized_from 32 parent))"
| "message_args_of TyPuzzle (puzzle # _) = Inr (MsgPuzzle (sized_from 32 puzzle))"
| "message_args_of TyAmount (a # _) =
     bind_res (ok_or (u64_from_bigint (number_from_slice a)) Other) (\<lambda>amt. Inr (MsgAmount amt))"
| "message_args_of TyParentPuzzle (parent # puzzle # _) =
     Inr (MsgParentPuzzle (sized_from 32 parent) (sized_from 32 puzzle))"
| "message_args_of TyParentAmount (parent # a # _) =
     bind_res (ok_or (u64_from_bigint (number_from_slice a)) Other) (\<lambda>amt.
       Inr (MsgParentAmount (sized_from 32 parent) amt))"
| "message_args_of TyPuzzleAmount (puzzle # a # _) =
     bind_res (ok_or (u64_from_bigint (number_from_slice a)) Other) (\<lambda>amt.
       Inr (MsgPuzzleAmount (sized_from 32 puzzle) amt))"
| "message_args_of _ _ = Inl Other"

text \<open>The arms of \<^verbatim>\<open>from_opcode_with_args\<close>, by the shape of their arguments.\<close>

definition key_and_message :: "(bytes \<Rightarrow> bytes \<Rightarrow> condition_with_args) \<Rightarrow> bytes list \<Rightarrow> error_kind + condition_with_args" where
  "key_and_message c args = (case args of
     [public_key, msg] \<Rightarrow> bind_res (message_new msg) (\<lambda>message. Inr (c (sized_from 48 public_key) message))
   | _ \<Rightarrow> Inl InvalidData)"

definition one_message :: "(bytes \<Rightarrow> condition_with_args) \<Rightarrow> bytes list \<Rightarrow> error_kind + condition_with_args" where
  "one_message c args = (case args of
     [msg] \<Rightarrow> bind_res (message_new msg) (\<lambda>message. Inr (c message))
   | _ \<Rightarrow> Inl InvalidData)"

definition one_hash :: "(bytes \<Rightarrow> condition_with_args) \<Rightarrow> bytes list \<Rightarrow> error_kind + condition_with_args" where
  "one_hash c args = (case args of [h] \<Rightarrow> Inr (c (sized_from 32 h)) | _ \<Rightarrow> Inl InvalidData)"

definition one_u64 :: "(u64 \<Rightarrow> condition_with_args) \<Rightarrow> bytes list \<Rightarrow> error_kind + condition_with_args" where
  "one_u64 c args = (case args of
     [b] \<Rightarrow> bind_res (ok_or (u64_from_bigint (number_from_slice b)) InvalidData) (\<lambda>n. Inr (c n))
   | _ \<Rightarrow> Inl InvalidData)"

definition one_seconds :: "(u64 \<Rightarrow> condition_with_args) \<Rightarrow> bytes list \<Rightarrow> error_kind + condition_with_args" where
  "one_seconds c args = (case args of
     [b] \<Rightarrow> Inr (c (saturating_u64_from_bigint (number_from_slice b))) | _ \<Rightarrow> Inl InvalidData)"

definition one_height :: "(u32 \<Rightarrow> condition_with_args) \<Rightarrow> bytes list \<Rightarrow> error_kind + condition_with_args" where
  "one_height c args = (case args of
     [b] \<Rightarrow> Inr (c (saturating_u32_from_bigint (number_from_slice b))) | _ \<Rightarrow> Inl InvalidData)"

definition create_coin_args :: "bytes list \<Rightarrow> error_kind + condition_with_args" where
  "create_coin_args args = (case args of
     ph # amount_bytes # rest \<Rightarrow>
       bind_res (ok_or (u64_from_bigint (number_from_slice amount_bytes)) InvalidData) (\<lambda>amt.
         Inr (CreateCoin (sized_from 32 ph) amt
           (case rest of
              [] \<Rightarrow> []
            | [memo_bytes] \<Rightarrow> (case memos_from_bytes memo_bytes of Inr memos \<Rightarrow> memos | Inl _ \<Rightarrow> [memo_bytes])
            | _ \<Rightarrow> rest)))
   | _ \<Rightarrow> Inl InvalidData)"

definition mode_and_message ::
    "(u8 \<Rightarrow> bytes \<Rightarrow> message_args \<Rightarrow> condition_with_args) \<Rightarrow> (u8 \<Rightarrow> message_args_type) \<Rightarrow> bytes list \<Rightarrow>
       error_kind + condition_with_args" where
  "mode_and_message c typ args = (case args of
     mode_atom # msg # rest \<Rightarrow>
       if length mode_atom \<noteq> 1 then Inl InvalidData
       else let mode = mode_atom ! 0 in
         if mode AND 0xc0 \<noteq> 0 then Inl InvalidData
         else bind_res (message_new msg) (\<lambda>message.
              bind_res (message_args_of (typ mode) rest) (\<lambda>msg_args. Inr (c mode message msg_args)))
   | _ \<Rightarrow> Inl InvalidData)"

definition birth_height_args :: "bytes list \<Rightarrow> error_kind + condition_with_args" where
  "birth_height_args args = (case args of
     [b] \<Rightarrow> bind_res (ok_or (u32_from_slice b) InvalidData) (\<lambda>height. Inr (AssertMyBirthHeight height))
   | _ \<Rightarrow> Inl InvalidData)"

definition soft_fork_args :: "bytes list \<Rightarrow> error_kind + condition_with_args" where
  "soft_fork_args args = one_u64 (\<lambda>cost. SoftFork (cost * 10000)) args"

fun from_opcode_with_args :: "condition_opcode \<Rightarrow> bytes list \<Rightarrow> error_kind + condition_with_args" where
  "from_opcode_with_args OpUnknown args = Inr Unknown"
| "from_opcode_with_args OpRemark args = bind_res (message_new []) (\<lambda>m. Inr (Remark m))"
| "from_opcode_with_args OpAggSigParent args = key_and_message AggSigParent args"
| "from_opcode_with_args OpAggSigPuzzle args = key_and_message AggSigPuzzle args"
| "from_opcode_with_args OpAggSigAmount args = key_and_message AggSigAmount args"
| "from_opcode_with_args OpAggSigPuzzleAmount args = key_and_message AggSigPuzzleAmount args"
| "from_opcode_with_args OpAggSigParentAmount args = key_and_message AggSigParentAmount args"
| "from_opcode_with_args OpAggSigParentPuzzle args = key_and_message AggSigParentPuzzle args"
| "from_opcode_with_args OpAggSigUnsafe args = key_and_message AggSigUnsafe args"
| "from_opcode_with_args OpAggSigMe args = key_and_message AggSigMe args"
| "from_opcode_with_args OpCreateCoin args = create_coin_args args"
| "from_opcode_with_args OpReserveFee args = one_u64 ReserveFee args"
| "from_opcode_with_args OpCreateCoinAnnouncement args = one_message CreateCoinAnnouncement args"
| "from_opcode_with_args OpAssertCoinAnnouncement args = one_hash AssertCoinAnnouncement args"
| "from_opcode_with_args OpCreatePuzzleAnnouncement args = one_message CreatePuzzleAnnouncement args"
| "from_opcode_with_args OpAssertPuzzleAnnouncement args = one_hash AssertPuzzleAnnouncement args"
| "from_opcode_with_args OpAssertConcurrentSpend args = one_hash AssertConcurrentSpend args"
| "from_opcode_with_args OpAssertConcurrentPuzzle args = one_hash AssertConcurrentPuzzle args"
| "from_opcode_with_args OpSendMessage args = mode_and_message SendMessage send_message_mode args"
| "from_opcode_with_args OpReceiveMessage args = mode_and_message ReceiveMessage receive_message_mode args"
| "from_opcode_with_args OpAssertMyCoinId args = one_hash AssertMyCoinId args"
| "from_opcode_with_args OpAssertMyParentId args = one_hash AssertMyParentId args"
| "from_opcode_with_args OpAssertMyPuzzlehash args = one_hash AssertMyPuzzlehash args"
| "from_opcode_with_args OpAssertMyAmount args = one_u64 AssertMyAmount args"
| "from_opcode_with_args OpAssertMyBirthSeconds args = one_u64 AssertMyBirthSeconds args"
| "from_opcode_with_args OpAssertMyBirthHeight args = birth_height_args args"
| "from_opcode_with_args OpAssertEphemeral args = (if args \<noteq> [] then Inl InvalidData else Inr AssertEphemeral)"
| "from_opcode_with_args OpAssertSecondsRelative args = one_seconds AssertSecondsRelative args"
| "from_opcode_with_args OpAssertSecondsAbsolute args = one_seconds AssertSecondsAbsolute args"
| "from_opcode_with_args OpAssertHeightRelative args = one_height AssertHeightRelative args"
| "from_opcode_with_args OpAssertHeightAbsolute args = one_height AssertHeightAbsolute args"
| "from_opcode_with_args OpAssertBeforeSecondsRelative args = one_seconds AssertBeforeSecondsRelative args"
| "from_opcode_with_args OpAssertBeforeSecondsAbsolute args = one_seconds AssertBeforeSecondsAbsolute args"
| "from_opcode_with_args OpAssertBeforeHeightRelative args = one_height AssertBeforeHeightRelative args"
| "from_opcode_with_args OpAssertBeforeHeightAbsolute args = one_height AssertBeforeHeightAbsolute args"
| "from_opcode_with_args OpSoftFork args = soft_fork_args args"

text \<open>The loop over the items of a condition: the opcode so far, whether it was read, the arguments so far.\<close>

fun condition_items ::
    "nat \<Rightarrow> bool \<Rightarrow> condition_opcode \<Rightarrow> bytes list \<Rightarrow> sexp list \<Rightarrow> error_kind + condition_opcode \<times> bytes list" where
  "condition_items index first opcode vars [] = Inr (opcode, vars)"
| "condition_items index first opcode vars (Atom arg # items) =
     (if first
      then if length arg \<noteq> 1 then Inl InvalidData
           else condition_items (index + 1) False (opcode_from (arg ! 0)) vars items
      else condition_items (index + 1) False opcode (vars @ [arg]) items)"
| "condition_items index first opcode vars (Pair f r # items) =
     (if opcode = OpRemark \<or> index = 3 \<and> opcode = OpCreateCoin
      then (case sexp_to_bytes (Pair f r) of
              Inl (IoError k _) \<Rightarrow> Inl k
            | Inr bs \<Rightarrow> condition_items (index + 1) first opcode (vars @ [bs]) items)
      else Inr (opcode, vars))"

definition op_code_with_args_from_sexp :: "sexp \<Rightarrow> error_kind + condition_opcode \<times> bytes list" where
  "op_code_with_args_from_sexp sexp =
     bind_res (condition_items 0 True OpUnknown [] (sexp_iter sexp)) (\<lambda>(opcode, vars).
       if vars = [] \<and> opcode \<notin> {OpAssertEphemeral, OpRemark, OpUnknown} then Inl InvalidData
       else Inr (opcode, vars))"

definition condition_try_from :: "sexp \<Rightarrow> error_kind + condition_with_args" where
  "condition_try_from sexp =
     bind_res (op_code_with_args_from_sexp sexp) (\<lambda>(opcode, args). from_opcode_with_args opcode args)"

fun try_each :: "sexp list \<Rightarrow> error_kind + condition_with_args list" where
  "try_each [] = Inr []"
| "try_each (s # ss) = bind_res (condition_try_from s) (\<lambda>c. bind_res (try_each ss) (\<lambda>cs. Inr (c # cs)))"

definition conditions_try_from :: "sexp \<Rightarrow> error_kind + condition_with_args list" where
  "conditions_try_from sexp = try_each (sexp_iter sexp)"

section \<open>Writing\<close>

definition memos_to_sexp :: "bytes list \<Rightarrow> sexp" where
  "memos_to_sexp memos = sexp_of_list (map Atom memos)"

fun msg_args_sexp_ary :: "message_args \<Rightarrow> sexp list" where
  "msg_args_sexp_ary MsgNone = []"
| "msg_args_sexp_ary (MsgCoinId cid) = [Atom cid]"
| "msg_args_sexp_ary (MsgParent parent) = [Atom parent]"
| "msg_args_sexp_ary (MsgPuzzle puzzle) = [Atom puzzle]"
| "msg_args_sexp_ary (MsgAmount amt) = [sexp_of_uint amt]"
| "msg_args_sexp_ary (MsgParentPuzzle parent puzzle) = [Atom parent, Atom puzzle]"
| "msg_args_sexp_ary (MsgParentAmount parent amt) = [Atom parent, sexp_of_uint amt]"
| "msg_args_sexp_ary (MsgPuzzleAmount puzzle amt) = [Atom puzzle, sexp_of_uint amt]"

fun op_code_with_args :: "condition_with_args \<Rightarrow> condition_opcode \<times> sexp list" where
  "op_code_with_args Unknown = (OpUnknown, [])"
| "op_code_with_args (Remark msg) = (OpRemark, [Atom msg])"
| "op_code_with_args (AggSigParent key msg) = (OpAggSigParent, [Atom key, Atom msg])"
| "op_code_with_args (AggSigPuzzle key msg) = (OpAggSigPuzzle, [Atom key, Atom msg])"
| "op_code_with_args (AggSigAmount key msg) = (OpAggSigAmount, [Atom key, Atom msg])"
| "op_code_with_args (AggSigPuzzleAmount key msg) = (OpAggSigPuzzleAmount, [Atom key, Atom msg])"
| "op_code_with_args (AggSigParentAmount key msg) = (OpAggSigParentAmount, [Atom key, Atom msg])"
| "op_code_with_args (AggSigParentPuzzle key msg) = (OpAggSigParentPuzzle, [Atom key, Atom msg])"
| "op_code_with_args (AggSigUnsafe key msg) = (OpAggSigUnsafe, [Atom key, Atom msg])"
| "op_code_with_args (AggSigMe key msg) = (OpAggSigMe, [Atom key, Atom msg])"
| "op_code_with_args (CreateCoin ph amt memos) = (OpCreateCoin, [Atom ph, sexp_of_uint amt, memos_to_sexp memos])"
| "op_code_with_args (ReserveFee fee) = (OpReserveFee, [sexp_of_uint fee])"
| "op_code_with_args (CreateCoinAnnouncement msg) = (OpCreateCoinAnnouncement, [Atom msg])"
| "op_code_with_args (AssertCoinAnnouncement h) = (OpAssertCoinAnnouncement, [Atom h])"
| "op_code_with_args (CreatePuzzleAnnouncement msg) = (OpCreatePuzzleAnnouncement, [Atom msg])"
| "op_code_with_args (AssertPuzzleAnnouncement h) = (OpAssertPuzzleAnnouncement, [Atom h])"
| "op_code_with_args (AssertConcurrentSpend h) = (OpAssertConcurrentSpend, [Atom h])"
| "op_code_with_args (AssertConcurrentPuzzle h) = (OpAssertConcurrentPuzzle, [Atom h])"
| "op_code_with_args (SendMessage mode msg args) = (OpSendMessage, sexp_of_u8 mode # Atom msg # msg_args_sexp_ary args)"
| "op_code_with_args (ReceiveMessage mode msg args) =
     (OpReceiveMessage, sexp_of_u8 mode # Atom msg # msg_args_sexp_ary args)"
| "op_code_with_args (AssertMyCoinId h) = (OpAssertMyCoinId, [Atom h])"
| "op_code_with_args (AssertMyParentId h) = (OpAssertMyParentId, [Atom h])"
| "op_code_with_args (AssertMyPuzzlehash h) = (OpAssertMyPuzzlehash, [Atom h])"
| "op_code_with_args (AssertMyAmount amt) = (OpAssertMyAmount, [sexp_of_uint amt])"
| "op_code_with_args (AssertMyBirthSeconds seconds) = (OpAssertMyBirthSeconds, [sexp_of_uint seconds])"
| "op_code_with_args (AssertMyBirthHeight height) = (OpAssertMyBirthHeight, [sexp_of_uint height])"
| "op_code_with_args AssertEphemeral = (OpAssertEphemeral, [])"
| "op_code_with_args (AssertSecondsRelative seconds) = (OpAssertSecondsRelative, [sexp_of_uint seconds])"
| "op_code_with_args (AssertSecondsAbsolute seconds) = (OpAssertSecondsAbsolute, [sexp_of_uint seconds])"
| "op_code_with_args (AssertHeightRelative height) = (OpAssertHeightRelative, [sexp_of_uint height])"
| "op_code_with_args (AssertHeightAbsolute height) = (OpAssertHeightAbsolute, [sexp_of_uint height])"
| "op_code_with_args (AssertBeforeSecondsRelative seconds) = (OpAssertBeforeSecondsRelative, [sexp_of_uint seconds])"
| "op_code_with_args (AssertBeforeSecondsAbsolute seconds) = (OpAssertBeforeSecondsAbsolute, [sexp_of_uint seconds])"
| "op_code_with_args (AssertBeforeHeightRelative height) = (OpAssertBeforeHeightRelative, [sexp_of_uint height])"
| "op_code_with_args (AssertBeforeHeightAbsolute height) = (OpAssertBeforeHeightAbsolute, [sexp_of_uint height])"
| "op_code_with_args (SoftFork cost) = (OpSoftFork, [sexp_of_uint cost])"

definition condition_sexp :: "condition_with_args \<Rightarrow> sexp" where
  "condition_sexp c = (case op_code_with_args c of
     (opcode, vars) \<Rightarrow> Pair (sexp_of_u8 (opcode_value opcode)) (foldr Pair vars NULL_SEXP))"

section \<open>Signed messages\<close>

definition coin_name :: "hash_fn \<Rightarrow> coin \<Rightarrow> bytes" where
  "coin_name sha c = coin_id sha (parent_coin_info c) (puzzle_hash c) (amount c)"

definition created_outputs_for_conditions :: "condition_with_args list \<Rightarrow> bytes \<Rightarrow> coin list" where
  "created_outputs_for_conditions conditions input_coin_name =
     concat (map (\<lambda>c. case c of
       CreateCoin ph amt _ \<Rightarrow> [\<lparr>parent_coin_info = input_coin_name, puzzle_hash = ph, amount = amt\<rparr>] | _ \<Rightarrow> []) conditions)"

definition agg_sig_additional_data_for_opcode :: "hash_fn \<Rightarrow> bytes \<Rightarrow> condition_opcode \<Rightarrow> bytes" where
  "agg_sig_additional_data_for_opcode sha agg_sig_data opcode =
     (if opcode \<in> {OpAggSigParent, OpAggSigPuzzle, OpAggSigAmount, OpAggSigPuzzleAmount, OpAggSigParentAmount,
                   OpAggSigParentPuzzle}
      then sha (agg_sig_data @ [opcode_value opcode]) else agg_sig_data)"

text \<open>What is signed for a condition, before the length check of \<^verbatim>\<open>Message::new\<close>; \<open>None\<close> for other conditions.\<close>

definition signed_data :: "hash_fn \<Rightarrow> coin \<Rightarrow> bytes \<Rightarrow> condition_with_args \<Rightarrow> (bytes \<times> bytes) option" where
  "signed_data sha coin additional_data c =
     (let extra = agg_sig_additional_data_for_opcode sha additional_data (op_code c) in
      case c of
        AggSigParent key message \<Rightarrow> Some (key, message @ parent_coin_info coin @ extra)
      | AggSigPuzzle key message \<Rightarrow> Some (key, message @ puzzle_hash coin @ extra)
      | AggSigAmount key message \<Rightarrow> Some (key, message @ u64_to_bytes (amount coin) @ extra)
      | AggSigPuzzleAmount key message \<Rightarrow>
          Some (key, message @ puzzle_hash coin @ u64_to_bytes (amount coin) @ extra)
      | AggSigParentAmount key message \<Rightarrow>
          Some (key, message @ parent_coin_info coin @ u64_to_bytes (amount coin) @ extra)
      | AggSigParentPuzzle key message \<Rightarrow> Some (key, message @ parent_coin_info coin @ puzzle_hash coin @ extra)
      | AggSigMe key message \<Rightarrow> Some (key, message @ coin_name sha coin @ extra)
      | AggSigUnsafe key message \<Rightarrow> Some (key, message)
      | _ \<Rightarrow> None)"

fun pkm_loop :: "hash_fn \<Rightarrow> coin \<Rightarrow> bytes \<Rightarrow> condition_with_args list \<Rightarrow>
    error_kind + (condition_opcode \<times> bytes \<times> bytes) list" where
  "pkm_loop sha coin additional_data [] = Inr []"
| "pkm_loop sha coin additional_data (c # cs) = (case signed_data sha coin additional_data c of
     None \<Rightarrow> pkm_loop sha coin additional_data cs
   | Some (key, msg) \<Rightarrow>
       bind_res (message_new msg) (\<lambda>m.
       bind_res (pkm_loop sha coin additional_data cs) (\<lambda>ret. Inr ((op_code c, key, m) # ret))))"

definition pkm_pairs_for_conditions :: "hash_fn \<Rightarrow> condition_with_args list \<Rightarrow> coin \<Rightarrow> bytes \<Rightarrow>
    error_kind + (condition_opcode \<times> bytes \<times> bytes) list" where
  "pkm_pairs_for_conditions sha conditions coin additional_data =
     bind_res (ok_or (sized_parse 32 additional_data) Other) (\<lambda>data. pkm_loop sha coin data conditions)"

definition ends_with :: "bytes \<Rightarrow> bytes \<Rightarrow> bool" where
  "ends_with s t \<longleftrightarrow> length t \<le> length s \<and> drop (length s - length t) s = t"

definition verify_agg_sig_unsafe_message :: "hash_fn \<Rightarrow> bytes \<Rightarrow> consensus_constants \<Rightarrow> bool" where
  "verify_agg_sig_unsafe_message sha message constants =
     list_all (\<lambda>code. \<not> ends_with message (sha (agg_sig_me_additional_data constants @ [opcode_value code])))
       [OpAggSigParent, OpAggSigPuzzle, OpAggSigAmount, OpAggSigPuzzleAmount, OpAggSigParentAmount, OpAggSigParentPuzzle]"

end
