(* ===== verification/SpendConditions.thy ===== *)
theory SpendConditions
  imports Conditions
begin

text \<open>
  From the output of a puzzle to the record of a spend, the condition half of
  \<^verbatim>\<open>core/src/consensus/block_generator.rs\<close> with the records of \<^verbatim>\<open>core/src/blockchain/spend.rs\<close> and
  \<^verbatim>\<open>core/src/blockchain/spend_bundle_conditions.rs\<close>: conditions are read straight from the arena with bounded
  reads and applied one by one to the spend and to the totals of the block.
\<close>

section \<open>Errors\<close>

text \<open>The variants of \<^verbatim>\<open>ChiaError\<close> that the validation of a block's body raises.\<close>

datatype chia_error =
    InvalidBlockSolution
  | DuplicateOutput
  | DoubleSpend
  | BadAggregateSignature
  | WrongPuzzleHash
  | InvalidCondition
  | AssertAnnounceConsumedFailed
  | AssertHeightRelativeFailed
  | AssertHeightAbsoluteFailed
  | AssertSecondsAbsoluteFailed
  | AssertSecondsRelativeFailed
  | CoinAmountExceedsMaximum
  | BlockCostExceedsMax
  | BadAdditionRoot
  | BadRemovalRoot
  | InvalidBlockFeeAmount
  | InvalidTransactionsGeneratorHash
  | ReserveFeeConditionFailed
  | InvalidTransactionsInfoHash
  | InvalidBlockCost
  | TooManyGeneratorRefs
  | GeneratorRuntimeError
  | InvalidCostResult
  | FutureGeneratorRefs
  | GeneratorRefHasNoGenerator
  | CoinAmountNegative
  | AssertConcurrentSpendFailed
  | AssertConcurrentPuzzleFailed
  | AssertEphemeralFailed
  | MessageNotSentOrReceived
  | ComplexGeneratorReceived
  | TooManySpends

text \<open>
  \<^verbatim>\<open>ClvmError\<close> as conditions raise it: the variants of the interpreter and of the parser, and those that only
  conditions have, without message texts.
\<close>

datatype clvm_failure =
    Vm vm_error
  | ParseError clvm_error
  | IoFailure error_kind
  | AtomNotValidU64
  | ConditionFailure chia_error
  | DoubleSpendError
  | DuplicateCreate
  | InvalidPublicKey bytes
  | InvalidSpendbundle

definition map_err :: "('e \<Rightarrow> 'f) \<Rightarrow> 'e + 'a \<Rightarrow> 'f + 'a" where
  "map_err f r = map_sum f id r"

lemma map_err_simps [simp, res_simps]: "map_err f (Inl e) = Inl (f e)" "map_err f (Inr x) = Inr x"
  by (simp_all add: map_err_def)

lemma map_err_eq_Inr [simp]: "map_err f r = Inr x \<longleftrightarrow> r = Inr x"
  by (cases r) auto

section \<open>Records\<close>

definition CREATE_COIN_COST :: u64 where "CREATE_COIN_COST = 1800000"
definition AGG_SIG_COST :: u64 where "AGG_SIG_COST = 1200000"
definition ELIGIBLE_FOR_DEDUP :: u32 where "ELIGIBLE_FOR_DEDUP = 1"
definition ELIGIBLE_FOR_FF :: u32 where "ELIGIBLE_FOR_FF = 4"
definition MAX_CONDITION_ATOM :: nat where "MAX_CONDITION_ATOM = 1024"
definition MAX_CONDITION_NODES :: nat where "MAX_CONDITION_NODES = 2 ^ 16"

record new_coin =
  nc_puzzle_hash :: bytes
  nc_amount :: u64
  nc_hint :: "bytes option"

record spend_message =
  sm_mode :: u8
  sm_message :: bytes
  sm_args :: message_args

text \<open>The hash set of created coins is a list without repetitions.\<close>

record spend =
  sp_parent_id :: bytes
  sp_coin_amount :: u64
  sp_puzzle_hash :: bytes
  sp_coin_id :: bytes
  height_relative :: "u32 option"
  seconds_relative :: "u64 option"
  before_height_relative :: "u32 option"
  before_seconds_relative :: "u64 option"
  birth_height :: "u32 option"
  birth_seconds :: "u64 option"
  create_coin :: "new_coin list"
  agg_sig_me :: "(bytes \<times> bytes) list"
  agg_sig_parent :: "(bytes \<times> bytes) list"
  agg_sig_puzzle :: "(bytes \<times> bytes) list"
  agg_sig_amount :: "(bytes \<times> bytes) list"
  agg_sig_puzzle_amount :: "(bytes \<times> bytes) list"
  agg_sig_parent_amount :: "(bytes \<times> bytes) list"
  agg_sig_parent_puzzle :: "(bytes \<times> bytes) list"
  create_coin_announcements :: "bytes list"
  assert_coin_announcements :: "bytes list"
  create_puzzle_announcements :: "bytes list"
  assert_puzzle_announcements :: "bytes list"
  assert_concurrent_spend :: "bytes list"
  assert_concurrent_puzzle :: "bytes list"
  assert_ephemeral :: bool
  sent_messages :: "spend_message list"
  received_messages :: "spend_message list"
  sp_flags :: u32
  condition_cost :: u64
  execution_cost :: u64

record spend_bundle_conditions =
  sb_spends :: "spend list"
  reserve_fee :: u64
  height_absolute :: u32
  seconds_absolute :: u64
  before_height_absolute :: "u32 option"
  before_seconds_absolute :: "u64 option"
  agg_sig_unsafe :: "(bytes \<times> bytes) list"
  sb_cost :: u64
  removal_amount :: u128
  addition_amount :: u128

definition new_spend :: "hash_fn \<Rightarrow> coin \<Rightarrow> bool \<Rightarrow> spend" where
  "new_spend sha coin mempool = \<lparr>
     sp_parent_id = parent_coin_info coin,
     sp_coin_amount = amount coin,
     sp_puzzle_hash = puzzle_hash coin,
     sp_coin_id = coin_name sha coin,
     height_relative = None,
     seconds_relative = None,
     before_height_relative = None,
     before_seconds_relative = None,
     birth_height = None,
     birth_seconds = None,
     create_coin = [],
     agg_sig_me = [],
     agg_sig_parent = [],
     agg_sig_puzzle = [],
     agg_sig_amount = [],
     agg_sig_puzzle_amount = [],
     agg_sig_parent_amount = [],
     agg_sig_parent_puzzle = [],
     create_coin_announcements = [],
     assert_coin_announcements = [],
     create_puzzle_announcements = [],
     assert_puzzle_announcements = [],
     assert_concurrent_spend = [],
     assert_concurrent_puzzle = [],
     assert_ephemeral = False,
     sent_messages = [],
     received_messages = [],
     sp_flags = (if mempool then ELIGIBLE_FOR_DEDUP OR (if amount coin AND 1 = 1 then ELIGIBLE_FOR_FF else 0) else 0),
     condition_cost = 0,
     execution_cost = 0\<rparr>"

definition created_coin :: "spend \<Rightarrow> new_coin \<Rightarrow> coin" where
  "created_coin spend c = \<lparr>parent_coin_info = sp_coin_id spend, puzzle_hash = nc_puzzle_hash c, amount = nc_amount c\<rparr>"

section \<open>Integer arguments\<close>

datatype sanitized_uint = UintOk u64 | PositiveOverflow | NegativeOverflow | LeadingZero

definition sanitize_uint :: "bytes \<Rightarrow> nat \<Rightarrow> sanitized_uint" where
  "sanitize_uint buf max_size =
     (if buf = [] then UintOk 0
      else if buf ! 0 AND 0x80 \<noteq> 0 then NegativeOverflow
      else if buf = [0] \<or> length buf > 1 \<and> buf ! 0 = 0 \<and> buf ! 1 AND 0x80 = 0 then LeadingZero
      else if length buf > (if buf ! 0 = 0 then max_size + 1 else max_size) then PositiveOverflow
      else UintOk (foldl (\<lambda>v b. push_bit 8 v OR ucast b) 0 buf))"

definition sanitize_uint_from_arena :: "arena \<Rightarrow> node_ptr \<Rightarrow> nat \<Rightarrow> clvm_failure + sanitized_uint" where
  "sanitize_uint_from_arena arena node max_size =
     bind_res (ok_or (arena_atom arena node) (Vm ExpectedAtomGotPair)) (\<lambda>buf. Inr (sanitize_uint buf max_size))"

fun saturating_assert_u64 :: "sanitized_uint \<Rightarrow> u64 option" where
  "saturating_assert_u64 (UintOk v) = Some v"
| "saturating_assert_u64 NegativeOverflow = None"
| "saturating_assert_u64 PositiveOverflow = Some (- 1)"
| "saturating_assert_u64 LeadingZero = Some (- 1)"

definition narrow_u32 :: "u64 \<Rightarrow> u32" where
  "narrow_u32 v = (case try_narrow v of Some w \<Rightarrow> w | None \<Rightarrow> - 1)"

definition saturating_assert_u32 :: "sanitized_uint \<Rightarrow> u32 option" where
  "saturating_assert_u32 verdict = map_option narrow_u32 (saturating_assert_u64 verdict)"

fun saturating_before_u64 :: "sanitized_uint \<Rightarrow> u64 option" where
  "saturating_before_u64 (UintOk v) = Some v"
| "saturating_before_u64 PositiveOverflow = None"
| "saturating_before_u64 NegativeOverflow = Some 0"
| "saturating_before_u64 LeadingZero = Some 0"

definition saturating_before_u32 :: "sanitized_uint \<Rightarrow> u32 option" where
  "saturating_before_u32 verdict = map_option narrow_u32 (saturating_before_u64 verdict)"

section \<open>One condition\<close>

text \<open>The match of \<^verbatim>\<open>arena_uint_condition\<close> on a sanitized argument; another opcode is unreachable.\<close>

definition uint_condition :: "condition_opcode \<Rightarrow> (nat \<Rightarrow> sanitized_uint) \<Rightarrow> clvm_failure + condition_with_args option" where
  "uint_condition opcode arg = (case opcode of
     OpReserveFee \<Rightarrow> (case arg 8 of
       UintOk fee \<Rightarrow> Inr (Some (ReserveFee fee)) | _ \<Rightarrow> Inl (ConditionFailure ReserveFeeConditionFailed))
   | OpAssertHeightAbsolute \<Rightarrow> Inr (map_option AssertHeightAbsolute (saturating_assert_u32 (arg 4)))
   | OpAssertHeightRelative \<Rightarrow> Inr (map_option AssertHeightRelative (saturating_assert_u32 (arg 4)))
   | OpAssertSecondsAbsolute \<Rightarrow> Inr (map_option AssertSecondsAbsolute (saturating_assert_u64 (arg 8)))
   | OpAssertSecondsRelative \<Rightarrow> Inr (map_option AssertSecondsRelative (saturating_assert_u64 (arg 8)))
   | OpAssertBeforeHeightAbsolute \<Rightarrow> Inr (map_option AssertBeforeHeightAbsolute (saturating_before_u32 (arg 4)))
   | OpAssertBeforeHeightRelative \<Rightarrow> Inr (map_option AssertBeforeHeightRelative (saturating_before_u32 (arg 4)))
   | OpAssertBeforeSecondsAbsolute \<Rightarrow> Inr (map_option AssertBeforeSecondsAbsolute (saturating_before_u64 (arg 8)))
   | OpAssertBeforeSecondsRelative \<Rightarrow> Inr (map_option AssertBeforeSecondsRelative (saturating_before_u64 (arg 8)))
   | _ \<Rightarrow> Inl (Vm Panicked))"

definition arena_uint_condition ::
    "arena \<Rightarrow> condition_opcode \<Rightarrow> node_ptr \<Rightarrow> clvm_failure + condition_with_args option" where
  "arena_uint_condition arena opcode args = (case next_of arena args of
     None \<Rightarrow> Inl InvalidSpendbundle
   | Some (arg_node, _) \<Rightarrow>
       bind_res (ok_or (arena_atom arena arg_node) (Vm ExpectedAtomGotPair)) (\<lambda>buf. uint_condition opcode (sanitize_uint buf)))"

definition arena_create_coin :: "arena \<Rightarrow> node_ptr \<Rightarrow> clvm_failure + condition_with_args option" where
  "arena_create_coin arena args = (case next_of arena args of
     None \<Rightarrow> Inl InvalidSpendbundle
   | Some (ph_node, after_ph) \<Rightarrow> (case arena_atom arena ph_node of
       None \<Rightarrow> Inl InvalidSpendbundle
     | Some ph \<Rightarrow> if length ph \<noteq> 32 then Inl InvalidSpendbundle else
         (case next_of arena after_ph of
            None \<Rightarrow> Inl InvalidSpendbundle
          | Some (amount_node, after_amount) \<Rightarrow>
              bind_res (sanitize_uint_from_arena arena amount_node 8) (\<lambda>verdict. case verdict of
                NegativeOverflow \<Rightarrow> Inl (ConditionFailure CoinAmountNegative)
              | PositiveOverflow \<Rightarrow> Inl (ConditionFailure CoinAmountExceedsMaximum)
              | LeadingZero \<Rightarrow> Inl (ConditionFailure CoinAmountExceedsMaximum)
              | UintOk amt \<Rightarrow> Inr (Some (CreateCoin ph amt
                  (case next_of arena after_amount of
                     None \<Rightarrow> []
                   | Some (memo_list, _) \<Rightarrow> (case next_of arena memo_list of
                       None \<Rightarrow> []
                     | Some (first_memo, _) \<Rightarrow> (case arena_atom arena first_memo of
                         None \<Rightarrow> []
                       | Some memo \<Rightarrow> if length memo \<le> 32 then [memo] else []))))))))
     )"

text \<open>The pre-walk of \<^verbatim>\<open>export_bounded_condition\<close>, with the count of nodes so far.\<close>

function bounded_walk :: "arena \<Rightarrow> node_ptr list \<Rightarrow> nat \<Rightarrow> clvm_failure + unit" where
  "bounded_walk arena [] nodes = Inr ()"
| "bounded_walk arena (node # stack) nodes =
     (if nodes + 1 > MAX_CONDITION_NODES then Inl InvalidSpendbundle
      else case node_kind_of arena node of
        AtomNode \<Rightarrow>
          if (case atom_len arena node of Some len \<Rightarrow> len > MAX_CONDITION_ATOM | None \<Rightarrow> False)
          then Inl InvalidSpendbundle else bounded_walk arena stack (nodes + 1)
      | PairNode first rest \<Rightarrow> bounded_walk arena (rest # first # stack) (nodes + 1))"
  by pat_completeness auto
termination by (relation "measure (\<lambda>(_, _, nodes). MAX_CONDITION_NODES - nodes)") auto

declare bounded_walk.simps [simp del]

definition export_bounded_condition :: "arena \<Rightarrow> node_ptr \<Rightarrow> (clvm_failure + sexp) option" where
  "export_bounded_condition arena cond_ptr = (case bounded_walk arena [cond_ptr] 0 of
     Inl e \<Rightarrow> Some (Inl e)
   | Inr _ \<Rightarrow> map_option (map_err Vm) (export arena cond_ptr))"

definition uint_opcodes :: "condition_opcode list" where
  "uint_opcodes = [OpAssertHeightAbsolute, OpAssertHeightRelative, OpAssertSecondsAbsolute, OpAssertSecondsRelative,
     OpAssertBeforeHeightAbsolute, OpAssertBeforeHeightRelative, OpAssertBeforeSecondsAbsolute,
     OpAssertBeforeSecondsRelative, OpReserveFee]"

text \<open>The opcode when the operator is an atom of one byte; only such an opcode is dispatched here.\<close>

definition arena_condition :: "arena \<Rightarrow> node_ptr \<Rightarrow> (clvm_failure + condition_with_args option) option" where
  "arena_condition arena cond_ptr = (case next_of arena cond_ptr of
     None \<Rightarrow> Some (Inl InvalidSpendbundle)
   | Some (op_node, args) \<Rightarrow>
       let generic = bind_opt (export_bounded_condition arena cond_ptr) (\<lambda>bounded.
             Some (bind_res (map_err IoFailure (condition_try_from bounded)) (\<lambda>c. Inr (Some c))))
       in case arena_atom arena op_node of
         None \<Rightarrow> generic
       | Some atom \<Rightarrow>
           if length atom \<noteq> 1 then generic
           else let opcode = opcode_from (atom ! 0) in
             if opcode \<in> set uint_opcodes then Some (arena_uint_condition arena opcode args)
             else if opcode = OpCreateCoin then Some (arena_create_coin arena args)
             else if opcode = OpRemark then Some (Inr (Some (Remark [])))
             else if opcode = OpUnknown then Some (Inr (Some Unknown))
             else generic)"

section \<open>Eligibility of mempool spends\<close>

definition clear_flag :: "u32 \<Rightarrow> u32 \<Rightarrow> u32" where
  "clear_flag f flags = flags AND NOT f"

definition clear_eligibility_for_condition :: "u32 \<Rightarrow> condition_with_args \<Rightarrow> nat \<Rightarrow> u32" where
  "clear_eligibility_for_condition flags condition index = (case condition of
     AssertMyCoinId _ \<Rightarrow> clear_flag ELIGIBLE_FOR_FF flags
   | AssertHeightRelative _ \<Rightarrow> clear_flag ELIGIBLE_FOR_FF flags
   | AssertSecondsRelative _ \<Rightarrow> clear_flag ELIGIBLE_FOR_FF flags
   | AssertBeforeHeightRelative _ \<Rightarrow> clear_flag ELIGIBLE_FOR_FF flags
   | AssertBeforeSecondsRelative _ \<Rightarrow> clear_flag ELIGIBLE_FOR_FF flags
   | AssertMyBirthHeight _ \<Rightarrow> clear_flag ELIGIBLE_FOR_FF flags
   | AssertMyBirthSeconds _ \<Rightarrow> clear_flag ELIGIBLE_FOR_FF flags
   | AssertEphemeral \<Rightarrow> clear_flag ELIGIBLE_FOR_FF flags
   | AssertMyParentId _ \<Rightarrow> if index \<noteq> 1 then clear_flag ELIGIBLE_FOR_FF flags else flags
   | AggSigMe _ _ \<Rightarrow> clear_flag (ELIGIBLE_FOR_DEDUP OR ELIGIBLE_FOR_FF) flags
   | AggSigParent _ _ \<Rightarrow> clear_flag (ELIGIBLE_FOR_DEDUP OR ELIGIBLE_FOR_FF) flags
   | AggSigParentAmount _ _ \<Rightarrow> clear_flag (ELIGIBLE_FOR_DEDUP OR ELIGIBLE_FOR_FF) flags
   | AggSigParentPuzzle _ _ \<Rightarrow> clear_flag (ELIGIBLE_FOR_DEDUP OR ELIGIBLE_FOR_FF) flags
   | AggSigPuzzle _ _ \<Rightarrow> clear_flag ELIGIBLE_FOR_DEDUP flags
   | AggSigAmount _ _ \<Rightarrow> clear_flag ELIGIBLE_FOR_DEDUP flags
   | AggSigPuzzleAmount _ _ \<Rightarrow> clear_flag ELIGIBLE_FOR_DEDUP flags
   | AggSigUnsafe _ _ \<Rightarrow> clear_flag ELIGIBLE_FOR_DEDUP flags
   | SendMessage mode _ _ \<Rightarrow>
       clear_flag ELIGIBLE_FOR_DEDUP
         (if drop_bit 3 mode AND 4 \<noteq> 0 then clear_flag ELIGIBLE_FOR_FF flags else flags)
   | ReceiveMessage mode _ _ \<Rightarrow>
       clear_flag ELIGIBLE_FOR_DEDUP (if mode AND 4 \<noteq> 0 then clear_flag ELIGIBLE_FOR_FF flags else flags)
   | CreateCoinAnnouncement _ \<Rightarrow> clear_flag ELIGIBLE_FOR_FF flags
   | _ \<Rightarrow> flags)"

section \<open>Applying a condition\<close>

text \<open>The spend, the totals of the block, and the cost of conditions so far.\<close>

type_synonym apply_state = "spend \<times> spend_bundle_conditions \<times> u64"

definition min_opt :: "'a::linorder option \<Rightarrow> 'a \<Rightarrow> 'a option" where
  "min_opt existing v = Some (case existing of Some e \<Rightarrow> min e v | None \<Rightarrow> v)"

definition max_opt :: "'a::{linorder,zero} option \<Rightarrow> 'a \<Rightarrow> 'a option" where
  "max_opt existing v = Some (max (case existing of Some e \<Rightarrow> e | None \<Rightarrow> 0) v)"

definition charge_condition :: "u64 \<Rightarrow> u64 \<Rightarrow> clvm_failure + u64" where
  "charge_condition extra_cost c = ok_or (checked_add extra_cost c) (Vm Overflow)"

text \<open>The arm of \<^verbatim>\<open>CREATE_COIN\<close>: its cost, its amount, and at most one coin of each kind.\<close>

definition apply_create_coin :: "bytes \<Rightarrow> u64 \<Rightarrow> bytes list \<Rightarrow> apply_state \<Rightarrow> clvm_failure + apply_state" where
  "apply_create_coin ph amt memos st = (case st of (spend, conds, extra_cost) \<Rightarrow>
     bind_res (charge_condition extra_cost CREATE_COIN_COST) (\<lambda>extra_cost.
     bind_res (ok_or (checked_add (addition_amount conds) (ucast amt)) (Vm Overflow)) (\<lambda>total.
       let new_coin = \<lparr>nc_puzzle_hash = ph, nc_amount = amt, nc_hint = (case memos of [] \<Rightarrow> None | m # _ \<Rightarrow> Some m)\<rparr> in
       if new_coin \<in> set (create_coin spend) then Inl DuplicateCreate
       else Inr (spend\<lparr>create_coin := create_coin spend @ [new_coin]\<rparr>, conds\<lparr>addition_amount := total\<rparr>, extra_cost))))"

text \<open>The arms of the signature conditions: the cost of a signature, then the pair of key and message is kept.\<close>

definition apply_agg_sig :: "(spend \<Rightarrow> spend) \<Rightarrow> apply_state \<Rightarrow> clvm_failure + apply_state" where
  "apply_agg_sig keep st = (case st of (spend, conds, extra_cost) \<Rightarrow>
     bind_res (charge_condition extra_cost AGG_SIG_COST) (\<lambda>extra_cost. Inr (keep spend, conds, extra_cost)))"

definition apply_agg_sig_unsafe ::
    "hash_fn \<Rightarrow> consensus_constants \<Rightarrow> bytes \<Rightarrow> bytes \<Rightarrow> apply_state \<Rightarrow> clvm_failure + apply_state" where
  "apply_agg_sig_unsafe sha constants pk msg st = (case st of (spend, conds, extra_cost) \<Rightarrow>
     bind_res (charge_condition extra_cost AGG_SIG_COST) (\<lambda>extra_cost.
     bind_res (ensure (verify_agg_sig_unsafe_message sha msg constants) (Vm vm_error.InvalidSyntax)) (\<lambda>_.
       Inr (spend, conds\<lparr>agg_sig_unsafe := agg_sig_unsafe conds @ [(pk, msg)]\<rparr>, extra_cost))))"

definition apply_match :: "hash_fn \<Rightarrow> consensus_constants \<Rightarrow> coin \<Rightarrow> condition_with_args \<Rightarrow> apply_state \<Rightarrow>
    clvm_failure + apply_state" where
  "apply_match sha constants coin condition st = (case st of (spend, conds, extra_cost) \<Rightarrow> (case condition of
     CreateCoin ph amt memos \<Rightarrow> apply_create_coin ph amt memos st
   | ReserveFee fee \<Rightarrow> bind_res (ok_or (checked_add (reserve_fee conds) fee) (Vm Overflow)) (\<lambda>total.
       Inr (spend, conds\<lparr>reserve_fee := total\<rparr>, extra_cost))
   | AssertHeightAbsolute h \<Rightarrow> Inr (spend, conds\<lparr>height_absolute := max (height_absolute conds) h\<rparr>, extra_cost)
   | AssertSecondsAbsolute s \<Rightarrow> Inr (spend, conds\<lparr>seconds_absolute := max (seconds_absolute conds) s\<rparr>, extra_cost)
   | AssertBeforeHeightAbsolute h \<Rightarrow>
       Inr (spend, conds\<lparr>before_height_absolute := min_opt (before_height_absolute conds) h\<rparr>, extra_cost)
   | AssertBeforeSecondsAbsolute s \<Rightarrow>
       Inr (spend, conds\<lparr>before_seconds_absolute := min_opt (before_seconds_absolute conds) s\<rparr>, extra_cost)
   | AssertHeightRelative h \<Rightarrow> Inr (spend\<lparr>height_relative := max_opt (height_relative spend) h\<rparr>, conds, extra_cost)
   | AssertSecondsRelative s \<Rightarrow> Inr (spend\<lparr>seconds_relative := max_opt (seconds_relative spend) s\<rparr>, conds, extra_cost)
   | AssertBeforeHeightRelative h \<Rightarrow>
       Inr (spend\<lparr>before_height_relative := min_opt (before_height_relative spend) h\<rparr>, conds, extra_cost)
   | AssertBeforeSecondsRelative s \<Rightarrow>
       Inr (spend\<lparr>before_seconds_relative := min_opt (before_seconds_relative spend) s\<rparr>, conds, extra_cost)
   | AssertMyBirthHeight h \<Rightarrow> Inr (spend\<lparr>birth_height := Some h\<rparr>, conds, extra_cost)
   | AssertMyBirthSeconds s \<Rightarrow> Inr (spend\<lparr>birth_seconds := Some s\<rparr>, conds, extra_cost)
   | AggSigMe pk msg \<Rightarrow> apply_agg_sig (\<lambda>s. s\<lparr>agg_sig_me := agg_sig_me s @ [(pk, msg)]\<rparr>) st
   | AggSigParent pk msg \<Rightarrow> apply_agg_sig (\<lambda>s. s\<lparr>agg_sig_parent := agg_sig_parent s @ [(pk, msg)]\<rparr>) st
   | AggSigPuzzle pk msg \<Rightarrow> apply_agg_sig (\<lambda>s. s\<lparr>agg_sig_puzzle := agg_sig_puzzle s @ [(pk, msg)]\<rparr>) st
   | AggSigAmount pk msg \<Rightarrow> apply_agg_sig (\<lambda>s. s\<lparr>agg_sig_amount := agg_sig_amount s @ [(pk, msg)]\<rparr>) st
   | AggSigPuzzleAmount pk msg \<Rightarrow>
       apply_agg_sig (\<lambda>s. s\<lparr>agg_sig_puzzle_amount := agg_sig_puzzle_amount s @ [(pk, msg)]\<rparr>) st
   | AggSigParentAmount pk msg \<Rightarrow>
       apply_agg_sig (\<lambda>s. s\<lparr>agg_sig_parent_amount := agg_sig_parent_amount s @ [(pk, msg)]\<rparr>) st
   | AggSigParentPuzzle pk msg \<Rightarrow>
       apply_agg_sig (\<lambda>s. s\<lparr>agg_sig_parent_puzzle := agg_sig_parent_puzzle s @ [(pk, msg)]\<rparr>) st
   | AggSigUnsafe pk msg \<Rightarrow> apply_agg_sig_unsafe sha constants pk msg st
   | CreateCoinAnnouncement msg \<Rightarrow>
       Inr (spend\<lparr>create_coin_announcements := create_coin_announcements spend @ [msg]\<rparr>, conds, extra_cost)
   | AssertCoinAnnouncement a \<Rightarrow>
       Inr (spend\<lparr>assert_coin_announcements := assert_coin_announcements spend @ [a]\<rparr>, conds, extra_cost)
   | CreatePuzzleAnnouncement msg \<Rightarrow>
       Inr (spend\<lparr>create_puzzle_announcements := create_puzzle_announcements spend @ [msg]\<rparr>, conds, extra_cost)
   | AssertPuzzleAnnouncement a \<Rightarrow>
       Inr (spend\<lparr>assert_puzzle_announcements := assert_puzzle_announcements spend @ [a]\<rparr>, conds, extra_cost)
   | AssertMyCoinId i \<Rightarrow> if i \<noteq> coin_name sha coin then Inl InvalidSpendbundle else Inr st
   | AssertMyParentId i \<Rightarrow> if i \<noteq> parent_coin_info coin then Inl InvalidSpendbundle else Inr st
   | AssertMyPuzzlehash ph \<Rightarrow> if ph \<noteq> puzzle_hash coin then Inl InvalidSpendbundle else Inr st
   | AssertMyAmount amt \<Rightarrow> if amt \<noteq> amount coin then Inl InvalidSpendbundle else Inr st
   | SoftFork c \<Rightarrow> bind_res (charge_condition extra_cost c) (\<lambda>extra_cost. Inr (spend, conds, extra_cost))
   | AssertConcurrentSpend i \<Rightarrow>
       Inr (spend\<lparr>assert_concurrent_spend := assert_concurrent_spend spend @ [i]\<rparr>, conds, extra_cost)
   | AssertConcurrentPuzzle ph \<Rightarrow>
       Inr (spend\<lparr>assert_concurrent_puzzle := assert_concurrent_puzzle spend @ [ph]\<rparr>, conds, extra_cost)
   | AssertEphemeral \<Rightarrow> Inr (spend\<lparr>assert_ephemeral := True\<rparr>, conds, extra_cost)
   | SendMessage mode msg args \<Rightarrow>
       Inr (spend\<lparr>sent_messages := sent_messages spend @ [\<lparr>sm_mode = mode, sm_message = msg, sm_args = args\<rparr>]\<rparr>,
            conds, extra_cost)
   | ReceiveMessage mode msg args \<Rightarrow>
       Inr (spend\<lparr>received_messages := received_messages spend @ [\<lparr>sm_mode = mode, sm_message = msg, sm_args = args\<rparr>]\<rparr>,
            conds, extra_cost)
   | _ \<Rightarrow> Inr st))"

definition apply_parsed_condition :: "hash_fn \<Rightarrow> consensus_constants \<Rightarrow> bool \<Rightarrow> coin \<Rightarrow> condition_with_args \<Rightarrow> nat \<Rightarrow>
    apply_state \<Rightarrow> clvm_failure + apply_state" where
  "apply_parsed_condition sha constants mempool coin condition index st = (case st of (spend, conds, extra_cost) \<Rightarrow>
     let spend = (if mempool
                  then spend\<lparr>sp_flags := clear_eligibility_for_condition (sp_flags spend) condition index\<rparr> else spend)
     in case agg_sig_infinity_pubkey condition of
          Some public_key \<Rightarrow> Inl (InvalidPublicKey public_key)
        | None \<Rightarrow> apply_match sha constants coin condition (spend, conds, extra_cost))"

section \<open>A spend\<close>

definition looks_like_singleton :: "spend \<Rightarrow> bool" where
  "looks_like_singleton spend \<longleftrightarrow>
     (\<exists>c \<in> set (create_coin spend). nc_puzzle_hash c = sp_puzzle_hash spend \<and> nc_amount c = sp_coin_amount spend)"

text \<open>\<^verbatim>\<open>Iterator::sum\<close> over \<^verbatim>\<open>u128\<close>.\<close>

definition spend_additions :: "spend \<Rightarrow> u128" where
  "spend_additions spend = sum_list (map (\<lambda>c. ucast (nc_amount c)) (create_coin spend))"

definition finalize_spend :: "spend \<Rightarrow> u64 \<Rightarrow> u64 \<Rightarrow> bool \<Rightarrow> spend" where
  "finalize_spend spend extra_cost condition_cost_start mempool =
     (let spend = spend\<lparr>condition_cost := saturating_sub extra_cost condition_cost_start\<rparr> in
      if \<not> mempool then spend
      else
        let spend = (if sp_flags spend AND ELIGIBLE_FOR_FF \<noteq> 0 \<and> \<not> looks_like_singleton spend
                     then spend\<lparr>sp_flags := clear_flag ELIGIBLE_FOR_FF (sp_flags spend)\<rparr> else spend)
        in if sp_flags spend AND ELIGIBLE_FOR_DEDUP \<noteq> 0 \<and> ucast (sp_coin_amount spend) > spend_additions spend
           then spend\<lparr>sp_flags := clear_flag ELIGIBLE_FOR_DEDUP (sp_flags spend)\<rparr> else spend)"

text \<open>The removal is counted before the conditions are looked at.\<close>

definition start_spend :: "hash_fn \<Rightarrow> coin \<Rightarrow> bool \<Rightarrow> spend_bundle_conditions \<Rightarrow> u64 \<Rightarrow> clvm_failure + apply_state" where
  "start_spend sha coin mempool conds extra_cost =
     bind_res (ok_or (checked_add (removal_amount conds) (ucast (amount coin))) (Vm Overflow)) (\<lambda>total.
       Inr (new_spend sha coin mempool, conds\<lparr>removal_amount := total\<rparr>, extra_cost))"

text \<open>The walk over the list of conditions in the arena, with the check of the running cost after each.\<close>

partial_function (option) arena_conditions_loop :: "hash_fn \<Rightarrow> consensus_constants \<Rightarrow> bool \<Rightarrow> coin \<Rightarrow> u64 \<Rightarrow> arena \<Rightarrow>
    node_ptr \<Rightarrow> nat \<Rightarrow> apply_state \<Rightarrow> (clvm_failure + apply_state) option" where
  "arena_conditions_loop sha constants mempool coin max_cost arena cursor index st = (case next_of arena cursor of
     None \<Rightarrow> Some (Inr st)
   | Some (cond_ptr, rest) \<Rightarrow> Option.bind (arena_condition arena cond_ptr) (\<lambda>r. case r of
       Inl e \<Rightarrow> Some (Inl e)
     | Inr None \<Rightarrow> arena_conditions_loop sha constants mempool coin max_cost arena rest index st
     | Inr (Some condition) \<Rightarrow> (case apply_parsed_condition sha constants mempool coin condition index st of
         Inl e \<Rightarrow> Some (Inl e)
       | Inr (spend, conds, extra_cost) \<Rightarrow> (case checked_add (sb_cost conds) extra_cost of
           None \<Rightarrow> Some (Inl (Vm Overflow))
         | Some running \<Rightarrow>
             if running > max_cost then Some (Inl (Vm (CostExceeded max_cost running)))
             else arena_conditions_loop sha constants mempool coin max_cost arena rest (index + 1)
                    (spend, conds, extra_cost)))))"

definition parse_and_apply_spend_from_arena :: "hash_fn \<Rightarrow> consensus_constants \<Rightarrow> arena \<Rightarrow> node_ptr \<Rightarrow> coin \<Rightarrow>
    spend_bundle_conditions \<Rightarrow> u64 \<Rightarrow> u64 \<Rightarrow> bool \<Rightarrow> (clvm_failure + apply_state) option" where
  "parse_and_apply_spend_from_arena sha constants arena output coin conds extra_cost max_cost mempool =
     (case start_spend sha coin mempool conds extra_cost of
        Inl e \<Rightarrow> Some (Inl e)
      | Inr st \<Rightarrow> bind_opt (arena_conditions_loop sha constants mempool coin max_cost arena output 0 st)
          (\<lambda>(spend, conds, extra_cost'). Some (Inr (finalize_spend spend extra_cost' extra_cost mempool, conds, extra_cost'))))"

fun apply_all :: "hash_fn \<Rightarrow> consensus_constants \<Rightarrow> bool \<Rightarrow> coin \<Rightarrow> nat \<Rightarrow> condition_with_args list \<Rightarrow> apply_state \<Rightarrow>
    clvm_failure + apply_state" where
  "apply_all sha constants mempool coin index [] st = Inr st"
| "apply_all sha constants mempool coin index (c # cs) st =
     bind_res (apply_parsed_condition sha constants mempool coin c index st) (apply_all sha constants mempool coin (index + 1) cs)"

definition spend_from_conditions :: "hash_fn \<Rightarrow> consensus_constants \<Rightarrow> coin \<Rightarrow> condition_with_args list \<Rightarrow>
    spend_bundle_conditions \<Rightarrow> u64 \<Rightarrow> bool \<Rightarrow> clvm_failure + apply_state" where
  "spend_from_conditions sha constants coin conditions conds extra_cost mempool =
     bind_res (start_spend sha coin mempool conds extra_cost) (\<lambda>st.
     bind_res (apply_all sha constants mempool coin 0 conditions st) (\<lambda>(spend, conds, extra_cost').
       Inr (finalize_spend spend extra_cost' extra_cost mempool, conds, extra_cost')))"

end
