(* ===== verification/TreeHash.thy ===== *)
theory TreeHash
  imports ClvmSexp
begin

text \<open>
  Tree hashes: \<^verbatim>\<open>SExp::tree_hash\<close> of \<^verbatim>\<open>core/src/clvm/sexp.rs\<close>, and the memoizing computation of
  \<^verbatim>\<open>core/src/clvm/tree_hash_cache.rs\<close>, which recognises shared subtrees of a parsed generator by their address.
\<close>

fun tree_hash :: "hash_fn \<Rightarrow> sexp \<Rightarrow> bytes" where
  "tree_hash sha (Pair f r) = sha (2 # tree_hash sha f @ tree_hash sha r)"
| "tree_hash sha (Atom a) = sha (1 # a)"

section \<open>Trees in memory\<close>

text \<open>
  A tree whose pairs carry their addresses. \<open>erase\<close> is the value. Objects that are alive at the same time
  have different addresses, so pairs with one address are one pair: \<open>consistent\<close>, for a list of trees.
\<close>

datatype placed = PAtom bytes | PPair nat placed placed

fun erase :: "placed \<Rightarrow> sexp" where
  "erase (PAtom a) = Atom a"
| "erase (PPair _ f r) = Pair (erase f) (erase r)"

fun pairs_of :: "placed \<Rightarrow> placed set" where
  "pairs_of (PAtom _) = {}"
| "pairs_of (PPair i f r) = insert (PPair i f r) (pairs_of f \<union> pairs_of r)"

fun address_of :: "placed \<Rightarrow> nat" where
  "address_of (PPair i _ _) = i"
| "address_of (PAtom _) = 0"

definition consistent :: "placed set \<Rightarrow> bool" where
  "consistent N \<longleftrightarrow> (\<forall>x \<in> N. \<forall>y \<in> N. address_of x = address_of y \<longrightarrow> erase x = erase y)"

section \<open>The cache\<close>

record tree_hash_cache =
  thc_counts :: "nat \<rightharpoonup> u8"
  thc_hashes :: "nat \<rightharpoonup> bytes"

definition empty_cache :: tree_hash_cache where
  "empty_cache = \<lparr>thc_counts = Map.empty, thc_hashes = Map.empty\<rparr>"

definition atom_hash :: "hash_fn \<Rightarrow> bytes \<Rightarrow> bytes" where
  "atom_hash sha atom = sha (1 # atom)"

definition pair_hash :: "hash_fn \<Rightarrow> bytes \<Rightarrow> bytes \<Rightarrow> bytes" where
  "pair_hash sha first rest = sha (2 # first @ rest)"

datatype tree_op = NodeOp placed | ConsHash | ConsCache nat

function visit_loop :: "placed list \<Rightarrow> (nat \<rightharpoonup> u8) \<Rightarrow> (nat \<rightharpoonup> u8)" where
  "visit_loop [] cs = cs"
| "visit_loop (PAtom _ # stack) cs = visit_loop stack cs"
| "visit_loop (PPair i f r # stack) cs =
     (if (case cs i of Some c \<Rightarrow> c | None \<Rightarrow> 0) \<ge> 1 then visit_loop stack (cs(i \<mapsto> 2))
      else visit_loop (r # f # stack) (cs(i \<mapsto> 1)))"
  by pat_completeness auto
termination by (relation "measure (\<lambda>(stack, _). sum_list (map (\<lambda>n. 2 * size n + 1) stack))") auto

definition visit_tree :: "placed \<Rightarrow> tree_hash_cache \<Rightarrow> tree_hash_cache" where
  "visit_tree node cache = cache\<lparr>thc_counts := visit_loop [node] (thc_counts cache)\<rparr>"

text \<open>
  The operation machine: the cache of hashes and the stack of hashes. An empty stack of hashes at a
  \<^verbatim>\<open>Cons\<close> is a panic, \<open>None\<close>.
\<close>

function hash_loop :: "hash_fn \<Rightarrow> (nat \<rightharpoonup> u8) \<Rightarrow> tree_op list \<Rightarrow> (nat \<rightharpoonup> bytes) \<Rightarrow> bytes list \<Rightarrow>
    ((nat \<rightharpoonup> bytes) \<times> bytes list) option" where
  "hash_loop sha cs [] hs stack = Some (hs, stack)"
| "hash_loop sha cs (NodeOp (PAtom a) # ops) hs stack = hash_loop sha cs ops hs (atom_hash sha a # stack)"
| "hash_loop sha cs (NodeOp (PPair i f r) # ops) hs stack = (case hs i of
     Some h \<Rightarrow> hash_loop sha cs ops hs (h # stack)
   | None \<Rightarrow>
       hash_loop sha cs
         (NodeOp r # NodeOp f #
           (if (case cs i of Some c \<Rightarrow> c | None \<Rightarrow> 0) \<ge> 2 then ConsCache i else ConsHash) # ops) hs stack)"
| "hash_loop sha cs (ConsHash # ops) hs stack = (case stack of
     first # rest # stack' \<Rightarrow> hash_loop sha cs ops hs (pair_hash sha first rest # stack') | _ \<Rightarrow> None)"
| "hash_loop sha cs (ConsCache i # ops) hs stack = (case stack of
     first # rest # stack' \<Rightarrow>
       let h = pair_hash sha first rest in hash_loop sha cs ops (hs(i \<mapsto> h)) (h # stack')
   | _ \<Rightarrow> None)"
  by pat_completeness auto
termination
  by (relation "measure (\<lambda>(_, _, ops, _, _). sum_list (map (\<lambda>oper. case oper of
        NodeOp n \<Rightarrow> 4 * size n + 2 | ConsHash \<Rightarrow> 1 | ConsCache _ \<Rightarrow> 1) ops))") (auto split: if_splits)

definition cached_tree_hash :: "hash_fn \<Rightarrow> placed \<Rightarrow> tree_hash_cache \<Rightarrow> (tree_hash_cache \<times> bytes) option" where
  "cached_tree_hash sha node cache = (case hash_loop sha (thc_counts cache) [NodeOp node] (thc_hashes cache) [] of
     Some (hs, [h]) \<Rightarrow> Some (cache\<lparr>thc_hashes := hs\<rparr>, h)
   | _ \<Rightarrow> None)"

section \<open>The cache changes nothing\<close>

definition hashes_ok :: "hash_fn \<Rightarrow> placed set \<Rightarrow> (nat \<rightharpoonup> bytes) \<Rightarrow> bool" where
  "hashes_ok sha N hs \<longleftrightarrow> (\<forall>i h. hs i = Some h \<longrightarrow> (\<forall>x \<in> N. address_of x = i \<longrightarrow> h = tree_hash sha (erase x)))"

lemma hash_loop_node:
  assumes "consistent N"
  shows "pairs_of n \<subseteq> N \<Longrightarrow> hashes_ok sha N hs \<Longrightarrow>
    \<exists>hs'. hashes_ok sha N hs' \<and>
      hash_loop sha cs (NodeOp n # ops) hs stack = hash_loop sha cs ops hs' (tree_hash sha (erase n) # stack)"
proof (induction n arbitrary: ops hs stack)
  case (PAtom a)
  then show ?case by (auto simp: atom_hash_def)
next
  case (PPair i f r)
  show ?case
  proof (cases "hs i")
    case (Some h)
    with PPair.prems have "h = tree_hash sha (erase (PPair i f r))" by (fastforce simp: hashes_ok_def)
    with Some PPair.prems show ?thesis by auto
  next
    case None
    let ?c = "if (case cs i of Some c \<Rightarrow> c | None \<Rightarrow> 0) \<ge> 2 then ConsCache i else ConsHash"
    have sub: "pairs_of r \<subseteq> N" "pairs_of f \<subseteq> N" using PPair.prems(1) by auto
    from PPair.IH(2) [OF sub(1) PPair.prems(2), of "NodeOp f # ?c # ops" stack]
    obtain h1 where h1: "hashes_ok sha N h1"
      "hash_loop sha cs (NodeOp (PPair i f r) # ops) hs stack =
         hash_loop sha cs (NodeOp f # ?c # ops) h1 (tree_hash sha (erase r) # stack)"
      using None by auto
    from PPair.IH(1) [OF sub(2) h1(1), of "?c # ops" "tree_hash sha (erase r) # stack"]
    obtain h2 where h2: "hashes_ok sha N h2"
      "hash_loop sha cs (NodeOp f # ?c # ops) h1 (tree_hash sha (erase r) # stack) =
         hash_loop sha cs (?c # ops) h2 (tree_hash sha (erase f) # tree_hash sha (erase r) # stack)" by auto
    have "PPair i f r \<in> N" using PPair.prems(1) by simp
    with assms have "\<forall>x \<in> N. address_of x = address_of (PPair i f r) \<longrightarrow> erase x = erase (PPair i f r)"
      unfolding consistent_def by blast
    then have "\<forall>x \<in> N. address_of x = i \<longrightarrow> erase x = Pair (erase f) (erase r)" by simp
    then have h3: "hashes_ok sha N (h2(i \<mapsto> tree_hash sha (erase (PPair i f r))))"
      using h2(1) by (auto simp: hashes_ok_def)
    define h' where "h' = (if (case cs i of Some c \<Rightarrow> c | None \<Rightarrow> 0) \<ge> 2
      then h2(i \<mapsto> tree_hash sha (erase (PPair i f r))) else h2)"
    have "hash_loop sha cs (?c # ops) h2 (tree_hash sha (erase f) # tree_hash sha (erase r) # stack) =
        hash_loop sha cs ops h' (tree_hash sha (erase (PPair i f r)) # stack)"
      by (simp add: h'_def pair_hash_def Let_def)
    moreover have "hashes_ok sha N h'" using h2(1) h3 by (simp add: h'_def)
    ultimately show ?thesis using h1(2) h2(2) by metis
  qed
qed

text \<open>The hashes of a list of trees, with one cache threaded through.\<close>

fun hash_each :: "hash_fn \<Rightarrow> placed list \<Rightarrow> tree_hash_cache \<Rightarrow> bytes list option" where
  "hash_each sha [] cache = Some []"
| "hash_each sha (r # rs) cache = Option.bind (cached_tree_hash sha r cache) (\<lambda>(cache', h).
     map_option ((#) h) (hash_each sha rs cache'))"

definition memoized_hashes :: "hash_fn \<Rightarrow> placed list \<Rightarrow> bytes list option" where
  "memoized_hashes sha reveals = hash_each sha reveals (fold visit_tree reveals empty_cache)"

lemma hash_each_correct:
  assumes "consistent N"
  shows "(\<Union>r \<in> set rs. pairs_of r) \<subseteq> N \<Longrightarrow> hashes_ok sha N (thc_hashes cache) \<Longrightarrow>
    hash_each sha rs cache = Some (map (\<lambda>r. tree_hash sha (erase r)) rs)"
proof (induction rs arbitrary: cache)
  case (Cons r rs)
  from hash_loop_node [OF assms _ Cons.prems(2), of r "thc_counts cache" "[]" "[]"] Cons.prems(1)
  obtain hs where "hashes_ok sha N hs"
    "hash_loop sha (thc_counts cache) [NodeOp r] (thc_hashes cache) [] = Some (hs, [tree_hash sha (erase r)])" by auto
  with Cons show ?case by (simp add: cached_tree_hash_def)
qed simp

lemma visit_tree_hashes [simp]: "thc_hashes (visit_tree n cache) = thc_hashes cache"
  by (simp add: visit_tree_def)

lemma visited_hashes: "thc_hashes (fold visit_tree rs cache) = thc_hashes cache"
  by (induction rs arbitrary: cache) simp_all

lemma memoized_hashes_eq:
  "consistent (\<Union>r \<in> set reveals. pairs_of r) \<Longrightarrow>
     memoized_hashes sha reveals = Some (map (\<lambda>r. tree_hash sha (erase r)) reveals)"
  unfolding memoized_hashes_def
  by (rule hash_each_correct [OF _ order_refl]) (simp_all add: visited_hashes empty_cache_def hashes_ok_def)

text \<open>
  C0: hashing with the cache of shared subtrees gives the plain tree hash of every puzzle reveal: the operation
  machine never fails, and neither the marks left by the first pass nor the hashes remembered from earlier reveals
  change a result, as long as an address stands for one subtree.
\<close>

theorem memoized_hashes_correct:
  assumes "consistent (\<Union>r \<in> set reveals. pairs_of r)"
  shows "memoized_hashes sha reveals = Some (map (\<lambda>r. tree_hash sha (erase r)) reveals)"
  by (rule memoized_hashes_eq [OF assms])

text \<open>A tree that occurs twice, in a pair and on its own, with one address.\<close>

definition shared_leaf :: placed where
  "shared_leaf = PPair 7 (PAtom [1]) (PAtom [2])"

theorem memoized_hashes_correct_witness:
  "memoized_hashes (\<lambda>b. [of_nat (length b)]) [PPair 3 shared_leaf shared_leaf, shared_leaf] = Some [[3], [3]]"
proof -
  have "consistent (\<Union>r \<in> set [PPair 3 shared_leaf shared_leaf, shared_leaf]. pairs_of r)"
    by (auto simp: consistent_def shared_leaf_def)
  from memoized_hashes_correct [OF this, of "\<lambda>b. [of_nat (length b)]"] show ?thesis
    by (simp add: shared_leaf_def)
qed

end
