(* ===== verification/BlockGenerator.thy ===== *)
theory BlockGenerator
  imports SpendConditions TreeHash ClvmBackrefs BTree
begin

text \<open>
  Running the generator of a block, \<^verbatim>\<open>core/src/consensus/block_generator.rs\<close>: the flags of a height, the run of
  the generator under the cost that the block's bytes leave, the run of every puzzle, and the collection of the
  conditions. The interpreter's dialect (with SHA-256 and the operations of \<^verbatim>\<open>blst\<close>) and the addresses of the
  nodes of a parsed generator are arguments.
\<close>

section \<open>Flags\<close>

definition LIMIT_HEAP :: u32 where "LIMIT_HEAP = 0x00000004"
definition COST_CONDITIONS :: u32 where "COST_CONDITIONS = 0x00800000"
definition ENABLE_KECCAK_OPS_OUTSIDE_FORK :: u32 where "ENABLE_KECCAK_OPS_OUTSIDE_FORK = 0x00000100"
definition MEMPOOL_MODE :: u32 where "MEMPOOL_MODE = NO_UNKNOWN_OPS OR LIMIT_HEAP"

record block_generator_flags =
  clvm_flags :: u32
  simple_generator :: bool

definition flags_for_height :: "consensus_constants \<Rightarrow> u32 \<Rightarrow> block_generator_flags" where
  "flags_for_height c height =
     (let f = (if height \<ge> hard_fork2_height c
               then ENABLE_KECCAK_OPS_OUTSIDE_FORK OR COST_CONDITIONS OR NEW_COST_MODEL OR RELAXED_BLS
               else if height \<ge> soft_fork8_height c then DISABLE_OP else 0);
          f = (if height \<ge> soft_fork9_height c
               then (f OR CANONICAL_INTS) OR (if height < hard_fork2_height c then LIMITS else 0) else f)
      in \<lparr>clvm_flags = f, simple_generator = height \<ge> hard_fork_height c\<rparr>)"

section \<open>Inputs\<close>

record generator_reference =
  ref_height :: u32
  ref_index :: u32
  ref_generator :: bytes

record block_generator_input =
  transactions_generator :: bytes
  generator_refs :: "generator_reference list"
  gen_constants :: consensus_constants
  gen_height :: u32
  gen_flags :: block_generator_flags

record coin_spend =
  cs_coin :: coin
  cs_puzzle_reveal :: bytes
  cs_solution :: bytes

text \<open>\<^verbatim>\<open>Program::run\<close>.\<close>

definition program_run :: "('a1, 'p1, 'p2) dialect \<Rightarrow> u64 \<Rightarrow> u32 \<Rightarrow> sexp \<Rightarrow> sexp \<Rightarrow> (vm_error + u64 \<times> sexp) option" where
  "program_run d max_cost flags program args =
     map_option snd (run (new_runtime (d\<lparr>dialect_flags := flags\<rparr>) max_cost) program args)"

fun sexp_first :: "sexp \<Rightarrow> vm_error + sexp" where
  "sexp_first (Atom _) = Inl ExpectedPairGotAtom"
| "sexp_first (Pair f r) = Inr f"

fun sexp_atom_of :: "sexp \<Rightarrow> bytes option" where
  "sexp_atom_of (Atom a) = Some a"
| "sexp_atom_of (Pair _ _) = None"

text \<open>\<^verbatim>\<open>Bytes32::parse_atom\<close>, and an amount: \<^verbatim>\<open>as_int\<close>, then \<^verbatim>\<open>to_u64\<close>.\<close>

definition parse_atom32 :: "sexp \<Rightarrow> clvm_failure + bytes" where
  "parse_atom32 s = bind_res (ok_or (sexp_atom_of s) (Vm ExpectedAtomGotPair)) (\<lambda>a.
     ok_or (sized_parse 32 a) (Vm vm_error.InvalidInput))"

definition parse_amount :: "sexp \<Rightarrow> clvm_failure + u64" where
  "parse_amount s = bind_res (ok_or (sexp_atom_of s) (Vm ExpectedAtomGotPair)) (\<lambda>a.
     ok_or (num_to_u64 (sexp_number_from a)) AtomNotValidU64)"

section \<open>Error codes\<close>

definition generator_run_error :: "vm_error \<Rightarrow> chia_error" where
  "generator_run_error e = (case e of CostExceeded _ _ \<Rightarrow> BlockCostExceedsMax | _ \<Rightarrow> GeneratorRuntimeError)"

definition map_condition_error :: "clvm_failure \<Rightarrow> chia_error" where
  "map_condition_error e = (case e of
     InvalidPublicKey _ \<Rightarrow> InvalidCondition
   | Vm (CostExceeded _ _) \<Rightarrow> BlockCostExceedsMax
   | DoubleSpendError \<Rightarrow> DoubleSpend
   | DuplicateCreate \<Rightarrow> DuplicateOutput
   | ConditionFailure err \<Rightarrow> err
   | _ \<Rightarrow> InvalidBlockSolution)"

fun chia_error_code :: "chia_error \<Rightarrow> u16" where
  "chia_error_code InvalidBlockSolution = 2"
| "chia_error_code DuplicateOutput = 4"
| "chia_error_code DoubleSpend = 5"
| "chia_error_code BadAggregateSignature = 7"
| "chia_error_code InvalidCondition = 10"
| "chia_error_code AssertAnnounceConsumedFailed = 12"
| "chia_error_code AssertHeightRelativeFailed = 13"
| "chia_error_code AssertHeightAbsoluteFailed = 14"
| "chia_error_code AssertSecondsAbsoluteFailed = 15"
| "chia_error_code CoinAmountExceedsMaximum = 16"
| "chia_error_code BlockCostExceedsMax = 23"
| "chia_error_code BadAdditionRoot = 24"
| "chia_error_code BadRemovalRoot = 25"
| "chia_error_code ReserveFeeConditionFailed = 48"
| "chia_error_code TooManyGeneratorRefs = 113"
| "chia_error_code GeneratorRuntimeError = 117"
| "chia_error_code InvalidCostResult = 118"
| "chia_error_code FutureGeneratorRefs = 120"
| "chia_error_code GeneratorRefHasNoGenerator = 121"
| "chia_error_code CoinAmountNegative = 124"
| "chia_error_code AssertConcurrentSpendFailed = 132"
| "chia_error_code AssertConcurrentPuzzleFailed = 133"
| "chia_error_code AssertEphemeralFailed = 140"
| "chia_error_code MessageNotSentOrReceived = 147"
| "chia_error_code ComplexGeneratorReceived = 148"
| "chia_error_code _ = 1"

section \<open>Collecting spends\<close>

definition empty_conditions :: "u64 \<Rightarrow> spend_bundle_conditions" where
  "empty_conditions cost = \<lparr>sb_spends = [], reserve_fee = 0, height_absolute = 0, seconds_absolute = 0,
     before_height_absolute = None, before_seconds_absolute = None, agg_sig_unsafe = [], sb_cost = cost,
     removal_amount = 0, addition_amount = 0\<rparr>"

text \<open>The totals, the coins spent and created so far, and the cost of the conditions so far.\<close>

type_synonym collect_state = "spend_bundle_conditions \<times> bytes set \<times> bytes set \<times> u64"

text \<open>The loop over the created coins of a spend.\<close>

fun insert_created :: "hash_fn \<Rightarrow> spend \<Rightarrow> new_coin list \<Rightarrow> bytes set \<Rightarrow> clvm_failure + bytes set" where
  "insert_created sha spend [] created = Inr created"
| "insert_created sha spend (c # cs) created =
     (let name = coin_name sha (created_coin spend c) in
      if name \<in> created then Inl DuplicateCreate else insert_created sha spend cs (insert name created))"

definition push_spend :: "hash_fn \<Rightarrow> bytes set \<Rightarrow> bytes set \<Rightarrow> apply_state \<Rightarrow> clvm_failure + collect_state" where
  "push_spend sha spent created st = (case st of (spend, conds, conditions_cost) \<Rightarrow>
     bind_res (insert_created sha spend (create_coin spend) created) (\<lambda>created'.
       Inr (conds\<lparr>sb_spends := sb_spends conds @ [spend]\<rparr>, spent, created', conditions_cost)))"

text \<open>The end of the loop: the cost of all conditions is added, and the sum checked.\<close>

definition finish_conditions :: "u64 \<Rightarrow> collect_state \<Rightarrow> clvm_failure + spend_bundle_conditions" where
  "finish_conditions max_cost st = (case st of (conds, _, _, conditions_cost) \<Rightarrow>
     bind_res (ok_or (checked_add (sb_cost conds) conditions_cost) (Vm Overflow)) (\<lambda>cost.
       if cost > max_cost then Inl (Vm (CostExceeded max_cost cost)) else Inr (conds\<lparr>sb_cost := cost\<rparr>)))"

text \<open>The coin of a generator's spend, in the order in which the code looks at its parts.\<close>

definition generator_coin :: "hash_fn \<Rightarrow> bytes option \<Rightarrow> sexp list \<Rightarrow> clvm_failure + coin" where
  "generator_coin sha reveal_hash parts =
     bind_res (parse_atom32 (parts ! 0)) (\<lambda>parent_id.
     bind_res (parse_amount (parts ! 2)) (\<lambda>amt.
       Inr \<lparr>parent_coin_info = parent_id,
            puzzle_hash = (case reveal_hash of Some h \<Rightarrow> h | None \<Rightarrow> tree_hash sha (parts ! 1)), amount = amt\<rparr>))"

definition run_spend :: "('a1, 'p1, 'p2) dialect \<Rightarrow> u32 \<Rightarrow> consensus_constants \<Rightarrow> u64 \<Rightarrow> sexp list \<Rightarrow> coin \<Rightarrow> collect_state \<Rightarrow>
    (clvm_failure + collect_state) option" where
  "run_spend d flags constants max_cost parts coin st = (case st of (conds, spent, created, conditions_cost) \<Rightarrow>
     let sha = dialect_sha256 d in
     if coin_name sha coin \<in> spent then Some (Inl DoubleSpendError)
     else case checked_sub max_cost (sb_cost conds) of
       None \<Rightarrow> Some (Inl (Vm (CostExceeded max_cost (sb_cost conds))))
     | Some cost_left \<Rightarrow>
         Option.bind (run_in_arena (new_runtime (d\<lparr>dialect_flags := flags\<rparr>) cost_left) (parts ! 1) (parts ! 3))
           (\<lambda>(runtime, r). case r of
              Inl e \<Rightarrow> Some (Inl (Vm e))
            | Inr (puzzle_cost, output_ptr) \<Rightarrow> (case checked_add (sb_cost conds) puzzle_cost of
                None \<Rightarrow> Some (Inl (Vm Overflow))
              | Some cost \<Rightarrow>
                  bind_opt (parse_and_apply_spend_from_arena sha constants (rt_arena runtime) output_ptr coin
                      (conds\<lparr>sb_cost := cost\<rparr>) conditions_cost max_cost False)
                    (\<lambda>(spend, conds, conditions_cost).
                       Some (push_spend sha (insert (coin_name sha coin) spent) created
                         (spend\<lparr>execution_cost := puzzle_cost\<rparr>, conds, conditions_cost))))))"

text \<open>The spends that are left, with the reveal hashes that are left for them.\<close>

fun generator_loop :: "('a1, 'p1, 'p2) dialect \<Rightarrow> u32 \<Rightarrow> consensus_constants \<Rightarrow> u64 \<Rightarrow> bytes list \<Rightarrow> sexp list \<Rightarrow>
    collect_state \<Rightarrow> (clvm_failure + collect_state) option" where
  "generator_loop d flags constants max_cost hashes [] st = Some (Inr st)"
| "generator_loop d flags constants max_cost hashes (s # ss) st =
     (let parts = ref_list s in
      if length parts < 4 then Some (Inl InvalidSpendbundle)
      else bind_opt (Some (generator_coin (dialect_sha256 d) (case hashes of [] \<Rightarrow> None | h # _ \<Rightarrow> Some h) parts)) (\<lambda>coin.
           bind_opt (run_spend d flags constants max_cost parts coin st)
             (generator_loop d flags constants max_cost (tl hashes) ss)))"

definition conditions_from_generator_output :: "('a1, 'p1, 'p2) dialect \<Rightarrow> sexp \<Rightarrow> u64 \<Rightarrow> u64 \<Rightarrow> u32 \<Rightarrow>
    consensus_constants \<Rightarrow> bytes list option \<Rightarrow> (clvm_failure + spend_bundle_conditions) option" where
  "conditions_from_generator_output d output cost max_cost flags constants reveal_hashes =
     bind_opt (Some (map_err Vm (sexp_first output))) (\<lambda>all_spends.
     bind_opt (generator_loop d flags constants max_cost (case reveal_hashes of Some hs \<Rightarrow> hs | None \<Rightarrow> [])
         (ref_list all_spends) (empty_conditions cost, {}, {}, 0))
       (\<lambda>st. Some (finish_conditions max_cost st)))"

text \<open>The output of the bootstrap program: puzzle hashes and conditions instead of reveals and solutions.\<close>

fun processed_loop :: "hash_fn \<Rightarrow> consensus_constants \<Rightarrow> sexp list \<Rightarrow> collect_state \<Rightarrow> clvm_failure + collect_state" where
  "processed_loop sha constants [] st = Inr st"
| "processed_loop sha constants (s # ss) st = (case st of (conds, spent, created, conditions_cost) \<Rightarrow>
     let parts = ref_list s in
     if length parts < 4 then Inl InvalidSpendbundle
     else
       bind_res (parse_atom32 (parts ! 0)) (\<lambda>parent_id.
       bind_res (parse_atom32 (parts ! 1)) (\<lambda>ph.
       bind_res (parse_amount (parts ! 2)) (\<lambda>amt.
         let coin = \<lparr>parent_coin_info = parent_id, puzzle_hash = ph, amount = amt\<rparr> in
         if coin_name sha coin \<in> spent then Inl DoubleSpendError
         else
           bind_res (map_err IoFailure (conditions_try_from (parts ! 3))) (\<lambda>conditions.
           bind_res (spend_from_conditions sha constants coin conditions conds conditions_cost False) (\<lambda>st.
           bind_res (push_spend sha (insert (coin_name sha coin) spent) created st) (processed_loop sha constants ss)))))))"

definition conditions_from_processed_generator_output :: "hash_fn \<Rightarrow> sexp \<Rightarrow> u64 \<Rightarrow> u64 \<Rightarrow> consensus_constants \<Rightarrow>
    clvm_failure + spend_bundle_conditions" where
  "conditions_from_processed_generator_output sha output cost max_cost constants =
     bind_res (map_err Vm (sexp_first output)) (\<lambda>all_spends.
     bind_res (processed_loop sha constants (ref_list all_spends) (empty_conditions cost, {}, {}, 0))
       (finish_conditions max_cost))"

section \<open>Executing a generator\<close>

definition starts_with :: "bytes \<Rightarrow> bytes \<Rightarrow> bool" where
  "starts_with bs p \<longleftrightarrow> take (length p) bs = p"

definition check_simple_generator :: "bytes \<Rightarrow> sexp \<Rightarrow> bool" where
  "check_simple_generator serialized generator \<longleftrightarrow>
     starts_with serialized [0xff, 0x01] \<and> (case generator of Pair (Atom a) _ \<Rightarrow> a = [1] | _ \<Rightarrow> False)"

text \<open>
  The reveals of the leading well-formed spends of \<^verbatim>\<open>(q . REST)\<close>, as they lie in memory. The items of a placed list
  are those of \<^verbatim>\<open>ref_list\<close>.
\<close>

fun placed_list :: "placed \<Rightarrow> placed list" where
  "placed_list (PAtom a) = (if a \<noteq> [] then [PAtom a] else [])"
| "placed_list (PPair _ f r) = f # placed_list r"

definition simple_reveals :: "placed list \<Rightarrow> placed list" where
  "simple_reveals spends =
     map (\<lambda>s. placed_list s ! 1) (takeWhile (\<lambda>s. length (placed_list s) \<ge> 4) spends)"

definition simple_generator_reveal_hashes :: "hash_fn \<Rightarrow> placed \<Rightarrow> bytes list option" where
  "simple_generator_reveal_hashes sha generator = (case generator of
     PPair _ _ (PPair _ all_spends _) \<Rightarrow> memoized_hashes sha (simple_reveals (placed_list all_spends))
   | _ \<Rightarrow> None)"

definition generator_ref_atoms :: "block_generator_input \<Rightarrow> sexp" where
  "generator_ref_atoms input = sexp_of_list (map (\<lambda>r. Atom (ref_generator r)) (generator_refs input))"

definition ROM_BOOTSTRAP_GENERATOR :: bytes where
  "ROM_BOOTSTRAP_GENERATOR = be_bytes 737
     0xff02ffff01ff02ff0cffff04ff02ffff04ffff02ff05ffff04ff08ffff04ff13ff80808080ff80808080ffff04ffff01ffffff02ffff01ff05ffff02ff3effff04ff02ffff04ff05ff8080808080ffff04ffff01ffffff81ff7fff81df81bfffffff02ffff03ffff09ff0bffff01818080ffff01ff04ff80ffff04ff05ff808080ffff01ff02ffff03ffff0aff0bff1880ffff01ff02ff1affff04ff02ffff04ffff02ffff03ffff0aff0bff1c80ffff01ff02ffff03ffff0aff0bff1480ffff01ff0880ffff01ff04ffff0effff18ffff011fff0b80ffff0cff05ff80ffff01018080ffff04ffff0cff05ffff010180ff80808080ff0180ffff01ff04ffff18ffff013fff0b80ffff04ff05ff80808080ff0180ff80808080ffff01ff04ff0bffff04ff05ff80808080ff018080ff0180ff04ffff0cff15ff80ff0980ffff04ffff0cff15ff0980ff808080ffff04ffff04ff05ff1380ffff04ff2bff808080ffff02ff16ffff04ff02ffff04ff09ffff04ffff02ff3effff04ff02ffff04ff15ff80808080ff8080808080ff02ffff03ffff09ffff0cff05ff80ffff010180ff1080ffff01ff02ff2effff04ff02ffff04ffff02ff3effff04ff02ffff04ffff0cff05ffff010180ff80808080ff80808080ffff01ff02ff12ffff04ff02ffff04ffff0cff05ffff010180ffff04ffff0cff05ff80ffff010180ff808080808080ff0180ff018080ff04ffff02ff16ffff04ff02ffff04ff09ff80808080ff0d80ffff04ff09ffff04ffff02ff1effff04ff02ffff04ff15ff80808080ffff04ff2dffff04ffff02ff15ff5d80ff7d80808080ffff02ffff03ff05ffff01ff04ffff02ff0affff04ff02ffff04ff09ff80808080ffff02ff16ffff04ff02ffff04ff0dff8080808080ff8080ff0180ff02ffff03ffff07ff0580ffff01ff0bffff0102ffff02ff1effff04ff02ffff04ff09ff80808080ffff02ff1effff04ff02ffff04ff0dff8080808080ffff01ff0bffff0101ff058080ff0180ff018080"

fun check_refs :: "u32 \<Rightarrow> generator_reference list \<Rightarrow> chia_error + unit" where
  "check_refs height [] = Inr ()"
| "check_refs height (r # rs) =
     (if ref_height r \<ge> height then Inl FutureGeneratorRefs
      else case sexp_from_bytes_backrefs (ref_generator r) of
        Inl _ \<Rightarrow> Inl GeneratorRefHasNoGenerator | Inr _ \<Rightarrow> check_refs height rs)"

definition max_cost_of :: "block_generator_input \<Rightarrow> u64" where
  "max_cost_of input = max_block_cost_clvm (gen_constants input)"

text \<open>The cost of the bytes of the generator, and what it leaves of the cost of a block.\<close>

definition generator_budget :: "block_generator_input \<Rightarrow> chia_error + u64 \<times> u64" where
  "generator_budget input =
     bind_res (ok_or (checked_mul64 (of_nat (length (transactions_generator input))) (cost_per_byte (gen_constants input)))
         InvalidCostResult) (\<lambda>byte_cost.
     bind_res (ok_or (checked_sub (max_cost_of input) byte_cost) BlockCostExceedsMax) (\<lambda>cost_left.
       Inr (byte_cost, cost_left)))"

definition parse_generator :: "block_generator_input \<Rightarrow> chia_error + sexp" where
  "parse_generator input =
     bind_res (ensure (length (transactions_generator input) \<le> unat (max_generator_size (gen_constants input)))
         InvalidTransactionsGeneratorHash) (\<lambda>_.
     bind_res (ensure (length (generator_refs input) \<le> unat (max_generator_ref_list_size (gen_constants input)))
         TooManyGeneratorRefs) (\<lambda>_.
     bind_res (check_refs (gen_height input) (generator_refs input)) (\<lambda>_.
     bind_res (ensure (\<not> (simple_generator (gen_flags input) \<and> generator_refs input \<noteq> [])) TooManyGeneratorRefs) (\<lambda>_.
     bind_res (case sexp_from_bytes_backrefs (transactions_generator input) of
         Inl _ \<Rightarrow> Inl InvalidBlockSolution | Inr (generator, _) \<Rightarrow> Inr generator) (\<lambda>generator.
     bind_res (ensure (simple_generator (gen_flags input) \<longrightarrow>
         check_simple_generator (transactions_generator input) generator) ComplexGeneratorReceived) (\<lambda>_.
       Inr generator))))))"

text \<open>The generator itself after the fork, the bootstrap program on it and its references before.\<close>

definition run_generator :: "('a1, 'p1, 'p2) dialect \<Rightarrow> block_generator_input \<Rightarrow> sexp \<Rightarrow> u64 \<Rightarrow>
    (chia_error + u64 \<times> sexp) option" where
  "run_generator d input generator cost_left =
     (if simple_generator (gen_flags input)
      then map_option (map_err generator_run_error)
             (program_run d cost_left (clvm_flags (gen_flags input)) generator NULL_SEXP)
      else case sexp_from_bytes ROM_BOOTSTRAP_GENERATOR of
        Inl _ \<Rightarrow> Some (Inl GeneratorRuntimeError)
      | Inr (rom, _) \<Rightarrow>
          map_option (map_err generator_run_error)
            (program_run d cost_left (clvm_flags (gen_flags input)) rom
               (sexp_of_list [generator, sexp_of_list [generator_ref_atoms input]])))"

definition execute_block_generator_result :: "('a1, 'p1, 'p2) dialect \<Rightarrow> (sexp \<Rightarrow> placed) \<Rightarrow> block_generator_input \<Rightarrow>
    (chia_error + spend_bundle_conditions) option" where
  "execute_block_generator_result d layout input =
     bind_opt (Some (parse_generator input)) (\<lambda>generator.
     bind_opt (Some (generator_budget input)) (\<lambda>(byte_cost, cost_left).
     bind_opt (run_generator d input generator cost_left) (\<lambda>(run_cost, output).
     bind_opt (Some (ok_or (checked_add byte_cost run_cost) InvalidCostResult)) (\<lambda>cost.
       map_option (map_err map_condition_error)
         (if simple_generator (gen_flags input)
          then conditions_from_generator_output d output cost (max_cost_of input) (clvm_flags (gen_flags input))
                 (gen_constants input) (simple_generator_reveal_hashes (dialect_sha256 d) (layout generator))
          else Some (conditions_from_processed_generator_output (dialect_sha256 d) output cost (max_cost_of input)
                 (gen_constants input)))))))"

record npc_result =
  npc_error :: "u16 option"
  npc_conds :: "spend_bundle_conditions option"

definition execute_block_generator :: "('a1, 'p1, 'p2) dialect \<Rightarrow> (sexp \<Rightarrow> placed) \<Rightarrow> block_generator_input \<Rightarrow> npc_result option" where
  "execute_block_generator d layout input = map_option (\<lambda>r. case r of
     Inr conds \<Rightarrow> \<lparr>npc_error = None, npc_conds = Some conds\<rparr>
   | Inl e \<Rightarrow> \<lparr>npc_error = Some (chia_error_code e), npc_conds = None\<rparr>) (execute_block_generator_result d layout input)"

end
