(* ===== verification/BlockValidation.thy ===== *)
theory BlockValidation
  imports BlockGenerator MerkleSet
begin

text \<open>
  Validation of the body of a transaction block, \<^verbatim>\<open>core/src/consensus/block_generator.rs\<close>: the roots of its additions
  and removals, its fees, the conditions that need the whole block or the chain, the aggregated signature, and the
  order of all these checks. The key and signature operations of \<^verbatim>\<open>blst\<close> are an argument.
\<close>

section \<open>Coins\<close>

definition additions_for_conditions :: "spend_bundle_conditions \<Rightarrow> coin list \<Rightarrow> coin list" where
  "additions_for_conditions conds reward_claims =
     reward_claims @ concat (map (\<lambda>spend. map (created_coin spend) (create_coin spend)) (sb_spends conds))"

definition removals_for_conditions :: "spend_bundle_conditions \<Rightarrow> bytes list" where
  "removals_for_conditions conds = map sp_coin_id (sb_spends conds)"

definition hints_of_spend :: "hash_fn \<Rightarrow> spend \<Rightarrow> (bytes \<times> bytes) list" where
  "hints_of_spend sha spend = concat (map (\<lambda>created. case nc_hint created of
     None \<Rightarrow> []
   | Some hint \<Rightarrow> if length hint \<noteq> 32 then [] else [(hint, coin_name sha (created_coin spend created))]) (create_coin spend))"

definition hints_for_conditions :: "hash_fn \<Rightarrow> spend_bundle_conditions \<Rightarrow> (bytes \<times> bytes) list" where
  "hints_for_conditions sha conds = concat (map (hints_of_spend sha) (sb_spends conds))"

section \<open>Roots\<close>

text \<open>\<^verbatim>\<open>sort_unstable_by\<close> with the arguments swapped: descending.\<close>

definition hash_coin_ids :: "hash_fn \<Rightarrow> bytes list \<Rightarrow> bytes" where
  "hash_coin_ids sha coin_ids =
     (if length coin_ids = 1 then sha (coin_ids ! 0) else sha (concat (rev (sort coin_ids))))"

text \<open>\<^verbatim>\<open>entry(..).or_default().push(..)\<close>.\<close>

definition push_entry :: "'k::linorder \<Rightarrow> 'v \<Rightarrow> ('k, 'v list) btree \<Rightarrow> ('k, 'v list) btree" where
  "push_entry k v m = bt_insert k ((case bt_get m k of Some vs \<Rightarrow> vs | None \<Rightarrow> []) @ [v]) m"

definition group_by_puzzle_hash :: "hash_fn \<Rightarrow> coin list \<Rightarrow> (bytes, bytes list) btree" where
  "group_by_puzzle_hash sha additions = fold (\<lambda>coin m. push_entry (puzzle_hash coin) (coin_name sha coin) m) additions []"

definition canonical_additions_root :: "hash_fn \<Rightarrow> coin list \<Rightarrow> (merkle_fault + bytes) option" where
  "canonical_additions_root sha additions =
     merkle_set_root sha (concat (map (\<lambda>(ph, coin_ids). [ph, hash_coin_ids sha coin_ids]) (group_by_puzzle_hash sha additions)))"

definition canonical_removals_root :: "hash_fn \<Rightarrow> bytes list \<Rightarrow> (merkle_fault + bytes) option" where
  "canonical_removals_root sha removals = merkle_set_root sha removals"

definition additions_root_of :: "hash_fn \<Rightarrow> spend_bundle_conditions \<Rightarrow> coin list \<Rightarrow> (merkle_fault + bytes) option" where
  "additions_root_of sha conds reward_claims = canonical_additions_root sha (additions_for_conditions conds reward_claims)"

definition removals_root_of :: "hash_fn \<Rightarrow> spend_bundle_conditions \<Rightarrow> (merkle_fault + bytes) option" where
  "removals_root_of sha conds = canonical_removals_root sha (removals_for_conditions conds)"

definition transactions_generator_root :: "hash_fn \<Rightarrow> bytes \<Rightarrow> bytes" where
  "transactions_generator_root sha generator = sha generator"

definition transactions_generator_refs_root :: "hash_fn \<Rightarrow> u32 list \<Rightarrow> bytes" where
  "transactions_generator_refs_root sha ref_heights =
     (if ref_heights = [] then replicate 32 1 else sha (concat (map (\<lambda>h. be_bytes 4 (unat h)) ref_heights)))"

section \<open>Fees\<close>

record block_fee_summary =
  removals_total :: u128
  additions_total :: u128
  fee_reserve :: u64

definition fee_summary_of :: "spend_bundle_conditions \<Rightarrow> block_fee_summary" where
  "fee_summary_of conds = \<lparr>removals_total = removal_amount conds, additions_total = addition_amount conds,
     fee_reserve = reserve_fee conds\<rparr>"

definition block_fee_amount :: "block_fee_summary \<Rightarrow> chia_error + u64" where
  "block_fee_amount summary =
     bind_res (ok_or (checked_sub (removals_total summary) (additions_total summary)) InvalidBlockFeeAmount) (\<lambda>fee.
       ok_or (try_narrow fee) InvalidBlockFeeAmount)"

section \<open>Conditions on the block and on the chain\<close>

record coin_spend_context =
  ctx_birth_height :: "u32 option"
  ctx_birth_seconds :: "u64 option"
  ctx_spent_height :: "u32 option"
  ctx_spent_seconds :: "u64 option"

record condition_validation_context =
  ctx_block_height :: u32
  ctx_timestamp :: "u64 option"
  coin_context :: "bytes \<rightharpoonup> coin_spend_context"

text \<open>\<^verbatim>\<open>and_then(|h| h.checked_add(relative))\<close>, then \<^verbatim>\<open>is_some_and\<close>.\<close>

definition due_and :: "'a::len word option \<Rightarrow> 'a word \<Rightarrow> ('a word \<Rightarrow> bool) \<Rightarrow> bool" where
  "due_and base relative p = (case Option.bind base (\<lambda>h. checked_add h relative) of Some required \<Rightarrow> p required | None \<Rightarrow> False)"

definition opt_fails :: "'a option \<Rightarrow> ('a \<Rightarrow> bool) \<Rightarrow> bool" where
  "opt_fails x p = (case x of Some v \<Rightarrow> p v | None \<Rightarrow> False)"

definition validate_spend_context :: "spend \<Rightarrow> coin_spend_context \<Rightarrow> condition_validation_context \<Rightarrow> chia_error + unit" where
  "validate_spend_context spend context ctx =
     (if opt_fails (birth_height spend) (\<lambda>expected. ctx_birth_height context \<noteq> Some expected) then Inl InvalidCondition
      else if opt_fails (birth_seconds spend) (\<lambda>expected. ctx_birth_seconds context \<noteq> Some expected) then Inl InvalidCondition
      else if opt_fails (height_relative spend) (\<lambda>relative.
          due_and (ctx_spent_height context) relative (\<lambda>required. ctx_block_height ctx < required))
        then Inl AssertHeightRelativeFailed
      else if opt_fails (before_height_relative spend) (\<lambda>relative.
          due_and (ctx_spent_height context) relative (\<lambda>before. ctx_block_height ctx \<ge> before))
        then Inl AssertHeightRelativeFailed
      else case ctx_timestamp ctx of
        None \<Rightarrow> Inr ()
      | Some timestamp \<Rightarrow>
          if opt_fails (seconds_relative spend) (\<lambda>relative.
              due_and (ctx_spent_seconds context) relative (\<lambda>required. timestamp < required))
            then Inl AssertSecondsRelativeFailed
          else if opt_fails (before_seconds_relative spend) (\<lambda>relative.
              due_and (ctx_spent_seconds context) relative (\<lambda>before. timestamp \<ge> before))
            then Inl AssertSecondsRelativeFailed
          else Inr ())"

text \<open>The conditions on the height and time of the block.\<close>

definition validate_absolute :: "spend_bundle_conditions \<Rightarrow> condition_validation_context \<Rightarrow> chia_error + unit" where
  "validate_absolute conds ctx =
     (if height_absolute conds > ctx_block_height ctx then Inl AssertHeightAbsoluteFailed
      else if opt_fails (before_height_absolute conds) (\<lambda>before. ctx_block_height ctx \<ge> before) then Inl AssertHeightAbsoluteFailed
      else case ctx_timestamp ctx of
        None \<Rightarrow> Inr ()
      | Some timestamp \<Rightarrow>
          if seconds_absolute conds > timestamp then Inl AssertSecondsAbsoluteFailed
          else if opt_fails (before_seconds_absolute conds) (\<lambda>before. timestamp \<ge> before)
            then Inl AssertSecondsAbsoluteFailed
          else Inr ())"

text \<open>What the first pass over the spends collects.\<close>

record block_facts =
  spent_ids :: "bytes set"
  spent_puzzles :: "bytes set"
  coin_index :: "bytes \<rightharpoonup> nat"
  created_ids :: "bytes set"
  coin_announcements :: "bytes set"
  puzzle_announcements :: "bytes set"
  asserted_coin :: "bytes list"
  asserted_puzzle :: "bytes list"

definition no_facts :: block_facts where
  "no_facts = \<lparr>spent_ids = {}, spent_puzzles = {}, coin_index = Map.empty, created_ids = {}, coin_announcements = {},
     puzzle_announcements = {}, asserted_coin = [], asserted_puzzle = []\<rparr>"

definition collect_announcements :: "hash_fn \<Rightarrow> spend \<Rightarrow> block_facts \<Rightarrow> block_facts" where
  "collect_announcements sha spend f = f\<lparr>
     coin_announcements := coin_announcements f \<union> set (map (\<lambda>msg. sha (sp_coin_id spend @ msg)) (create_coin_announcements spend)),
     puzzle_announcements := puzzle_announcements f \<union> set (map (\<lambda>msg. sha (sp_puzzle_hash spend @ msg)) (create_puzzle_announcements spend)),
     asserted_coin := asserted_coin f @ assert_coin_announcements spend,
     asserted_puzzle := asserted_puzzle f @ assert_puzzle_announcements spend\<rparr>"

fun insert_outputs :: "hash_fn \<Rightarrow> spend \<Rightarrow> new_coin list \<Rightarrow> bytes set \<Rightarrow> chia_error + bytes set" where
  "insert_outputs sha spend [] created = Inr created"
| "insert_outputs sha spend (c # cs) created =
     (let name = coin_name sha (created_coin spend c) in
      if name \<in> created then Inl DuplicateOutput else insert_outputs sha spend cs (insert name created))"

fun first_pass :: "hash_fn \<Rightarrow> condition_validation_context \<Rightarrow> nat \<Rightarrow> spend list \<Rightarrow> block_facts \<Rightarrow> chia_error + block_facts" where
  "first_pass sha ctx index [] f = Inr f"
| "first_pass sha ctx index (spend # spends) f =
     (if sp_coin_id spend \<in> spent_ids f then Inl DoubleSpend
      else
        let f = f\<lparr>spent_ids := insert (sp_coin_id spend) (spent_ids f), spent_puzzles := insert (sp_puzzle_hash spend) (spent_puzzles f),
                  coin_index := (coin_index f)(sp_coin_id spend \<mapsto> index)\<rparr>
        in bind_res (case coin_context ctx (sp_coin_id spend) of
               Some context \<Rightarrow> validate_spend_context spend context ctx | None \<Rightarrow> Inr ()) (\<lambda>_.
           bind_res (insert_outputs sha spend (create_coin spend) (created_ids f)) (\<lambda>created.
             first_pass sha ctx (index + 1) spends (collect_announcements sha spend (f\<lparr>created_ids := created\<rparr>)))))"

definition is_ephemeral :: "spend \<Rightarrow> (bytes \<rightharpoonup> nat) \<Rightarrow> spend list \<Rightarrow> bool" where
  "is_ephemeral spend index spends = (case index (sp_parent_id spend) of
     None \<Rightarrow> False
   | Some i \<Rightarrow> (\<exists>coin \<in> set (create_coin (spends ! i)).
       nc_puzzle_hash coin = sp_puzzle_hash spend \<and> nc_amount coin = sp_coin_amount spend))"

definition own_message_id :: "u8 \<Rightarrow> spend \<Rightarrow> bytes" where
  "own_message_id bits spend =
     (let b = bits AND 7; amt = be_bytes 8 (unat (sp_coin_amount spend)) in
      if b = 0 then [0]
      else if b = 1 then 1 # amt
      else if b = 2 then 2 # sp_puzzle_hash spend
      else if b = 3 then 3 # sp_puzzle_hash spend @ amt
      else if b = 4 then 4 # sp_parent_id spend
      else if b = 5 then 5 # sp_parent_id spend @ amt
      else if b = 6 then 6 # sp_parent_id spend @ sp_puzzle_hash spend
      else 7 # sp_coin_id spend)"

fun args_message_id :: "message_args \<Rightarrow> bytes" where
  "args_message_id MsgNone = [0]"
| "args_message_id (MsgAmount amt) = 1 # be_bytes 8 (unat amt)"
| "args_message_id (MsgPuzzle ph) = 2 # ph"
| "args_message_id (MsgPuzzleAmount ph amt) = 3 # ph @ be_bytes 8 (unat amt)"
| "args_message_id (MsgParent parent) = 4 # parent"
| "args_message_id (MsgParentAmount parent amt) = 5 # parent @ be_bytes 8 (unat amt)"
| "args_message_id (MsgParentPuzzle parent ph) = 6 # parent @ ph"
| "args_message_id (MsgCoinId i) = 7 # i"

definition sent_key :: "spend \<Rightarrow> spend_message \<Rightarrow> bytes" where
  "sent_key spend m = own_message_id (drop_bit 3 (sm_mode m)) spend @ args_message_id (sm_args m) @ sm_message m"

definition received_key :: "spend \<Rightarrow> spend_message \<Rightarrow> bytes" where
  "received_key spend m = args_message_id (sm_args m) @ own_message_id (sm_mode m) spend @ sm_message m"

text \<open>
  \<^verbatim>\<open>message_counts\<close> as a total function: a key without an entry counts nothing. A counter of 64 bits cannot
  wrap around: a block would need more messages than memory holds.
\<close>

definition bump :: "int \<Rightarrow> bytes \<Rightarrow> (bytes \<Rightarrow> int) \<Rightarrow> (bytes \<Rightarrow> int)" where
  "bump i key counts = counts(key := counts key + i)"

definition count_messages :: "spend \<Rightarrow> (bytes \<Rightarrow> int) \<Rightarrow> (bytes \<Rightarrow> int)" where
  "count_messages spend counts =
     fold (\<lambda>m. bump (- 1) (received_key spend m)) (received_messages spend)
       (fold (\<lambda>m. bump 1 (sent_key spend m)) (sent_messages spend) counts)"

definition message_keys :: "spend \<Rightarrow> bytes list" where
  "message_keys spend = map (sent_key spend) (sent_messages spend) @ map (received_key spend) (received_messages spend)"

fun second_pass :: "block_facts \<Rightarrow> spend list \<Rightarrow> spend list \<Rightarrow> (bytes \<Rightarrow> int) \<Rightarrow> chia_error + (bytes \<Rightarrow> int)" where
  "second_pass f all [] counts = Inr counts"
| "second_pass f all (spend # spends) counts =
     (if \<not> list_all (\<lambda>i. i \<in> spent_ids f) (assert_concurrent_spend spend) then Inl AssertConcurrentSpendFailed
      else if \<not> list_all (\<lambda>ph. ph \<in> spent_puzzles f) (assert_concurrent_puzzle spend) then Inl AssertConcurrentPuzzleFailed
      else if assert_ephemeral spend \<and> \<not> is_ephemeral spend (coin_index f) all then Inl AssertEphemeralFailed
      else second_pass f all spends (count_messages spend counts))"

definition validate_block_conditions :: "hash_fn \<Rightarrow> spend_bundle_conditions \<Rightarrow> condition_validation_context \<Rightarrow> chia_error + unit" where
  "validate_block_conditions sha conds ctx =
     bind_res (validate_absolute conds ctx) (\<lambda>_.
     bind_res (first_pass sha ctx 0 (sb_spends conds) no_facts) (\<lambda>f.
     bind_res (ensure (list_all (\<lambda>a. a \<in> coin_announcements f) (asserted_coin f)) AssertAnnounceConsumedFailed) (\<lambda>_.
     bind_res (ensure (list_all (\<lambda>a. a \<in> puzzle_announcements f) (asserted_puzzle f)) AssertAnnounceConsumedFailed) (\<lambda>_.
     bind_res (second_pass f (sb_spends conds) (sb_spends conds) (\<lambda>_. 0)) (\<lambda>counts.
       ensure (list_all (\<lambda>key. counts key = 0) (concat (map message_keys (sb_spends conds)))) MessageNotSentOrReceived)))))"

section \<open>The aggregated signature\<close>

text \<open>What is called of \<^verbatim>\<open>blst::min_pk\<close>: keys, signatures, and the verification of an aggregate.\<close>

record ('pk, 'sig) blst_keys =
  pk_from_bytes :: "bytes \<Rightarrow> 'pk option"
  pk_validate :: "'pk \<Rightarrow> bool"
  pk_default :: 'pk
  sig_from_bytes :: "bytes \<Rightarrow> 'sig option"
  sig_aggregate_verify :: "'sig \<Rightarrow> bool \<Rightarrow> bytes list \<Rightarrow> bytes \<Rightarrow> 'pk list \<Rightarrow> bool \<Rightarrow> bool"

definition DEDUP_MAX_DISTINCT_KEYS :: nat where "DEDUP_MAX_DISTINCT_KEYS = 64"

definition AUG_SCHEME_DST :: bytes where
  "AUG_SCHEME_DST = map (\<lambda>c. of_nat (of_char c)) ''BLS_SIG_BLS12381G2_XMD:SHA-256_SSWU_RO_AUG_''"

text \<open>The loop that counts distinct keys stops above the limit; until then it counts them all.\<close>

fun distinct_keys :: "bytes list \<Rightarrow> bytes list \<Rightarrow> bytes list" where
  "distinct_keys [] seen = seen"
| "distinct_keys (key # keys) seen =
     (let seen = List.insert key seen in
      if length seen > DEDUP_MAX_DISTINCT_KEYS then seen else distinct_keys keys seen)"

definition aggregate_verify_deduped :: "('pk, 'sig) blst_keys \<Rightarrow> bytes list \<Rightarrow> bytes list \<Rightarrow> 'sig \<Rightarrow> bool" where
  "aggregate_verify_deduped b keys messages signature =
     (let augmented = map (\<lambda>(key, msg). key @ msg) (zip keys messages);
          seen = distinct_keys keys []
      in if length seen \<le> DEDUP_MAX_DISTINCT_KEYS \<and> length seen * 2 \<le> length keys
         then list_all (\<lambda>key. case pk_from_bytes b key of Some pk \<Rightarrow> pk_validate b pk | None \<Rightarrow> False) seen \<and>
              sig_aggregate_verify b signature True augmented AUG_SCHEME_DST
                (map (\<lambda>key. the (pk_from_bytes b key)) keys) False
         else sig_aggregate_verify b signature True augmented AUG_SCHEME_DST
                (map (\<lambda>key. case pk_from_bytes b key of Some pk \<Rightarrow> pk | None \<Rightarrow> pk_default b) keys) True)"

fun rebuild :: "(bytes \<Rightarrow> bytes \<Rightarrow> condition_with_args) \<Rightarrow> (bytes \<times> bytes) list \<Rightarrow> chia_error + condition_with_args list" where
  "rebuild c [] = Inr []"
| "rebuild c ((pk, msg) # ps) =
     bind_res (ok_or (sized_parse 48 pk) InvalidCondition) (\<lambda>key.
     bind_res (map_err (\<lambda>_. InvalidCondition) (message_new msg)) (\<lambda>message.
     bind_res (rebuild c ps) (\<lambda>cs. Inr (c key message # cs))))"

definition pkm_pairs_for_spend :: "hash_fn \<Rightarrow> spend \<Rightarrow> coin \<Rightarrow> consensus_constants \<Rightarrow>
    chia_error + (condition_opcode \<times> bytes \<times> bytes) list" where
  "pkm_pairs_for_spend sha spend coin constants =
     bind_res (rebuild AggSigMe (agg_sig_me spend)) (\<lambda>c1.
     bind_res (rebuild AggSigParent (agg_sig_parent spend)) (\<lambda>c2.
     bind_res (rebuild AggSigPuzzle (agg_sig_puzzle spend)) (\<lambda>c3.
     bind_res (rebuild AggSigAmount (agg_sig_amount spend)) (\<lambda>c4.
     bind_res (rebuild AggSigPuzzleAmount (agg_sig_puzzle_amount spend)) (\<lambda>c5.
     bind_res (rebuild AggSigParentAmount (agg_sig_parent_amount spend)) (\<lambda>c6.
     bind_res (rebuild AggSigParentPuzzle (agg_sig_parent_puzzle spend)) (\<lambda>c7.
       map_err (\<lambda>_. InvalidCondition)
         (pkm_pairs_for_conditions sha (c1 @ c2 @ c3 @ c4 @ c5 @ c6 @ c7) coin (agg_sig_me_additional_data constants)))))))))"

definition spend_coin :: "spend \<Rightarrow> coin" where
  "spend_coin spend = \<lparr>parent_coin_info = sp_parent_id spend, puzzle_hash = sp_puzzle_hash spend, amount = sp_coin_amount spend\<rparr>"

fun unsafe_pairs :: "(bytes \<times> bytes) list \<Rightarrow> chia_error + (bytes \<times> bytes) list" where
  "unsafe_pairs [] = Inr []"
| "unsafe_pairs ((pk, msg) # ps) =
     bind_res (ok_or (sized_parse 48 pk) InvalidCondition) (\<lambda>key.
     bind_res (map_err (\<lambda>_. InvalidCondition) (message_new msg)) (\<lambda>message.
     bind_res (unsafe_pairs ps) (\<lambda>kms. Inr ((key, message) # kms))))"

fun spend_pairs :: "hash_fn \<Rightarrow> consensus_constants \<Rightarrow> spend list \<Rightarrow> chia_error + (bytes \<times> bytes) list" where
  "spend_pairs sha constants [] = Inr []"
| "spend_pairs sha constants (spend # spends) =
     bind_res (pkm_pairs_for_spend sha spend (spend_coin spend) constants) (\<lambda>kms.
     bind_res (spend_pairs sha constants spends) (\<lambda>rest. Inr (map snd kms @ rest)))"

definition INFINITY_SIGNATURE :: bytes where
  "INFINITY_SIGNATURE = 0xc0 # replicate 95 0"

definition validate_block_aggregate_signature :: "hash_fn \<Rightarrow> ('pk, 'sig) blst_keys \<Rightarrow> spend_bundle_conditions \<Rightarrow> bytes \<Rightarrow>
    consensus_constants \<Rightarrow> chia_error + unit" where
  "validate_block_aggregate_signature sha b conds aggregated_signature constants =
     bind_res (unsafe_pairs (agg_sig_unsafe conds)) (\<lambda>unsafe.
     bind_res (spend_pairs sha constants (sb_spends conds)) (\<lambda>safe.
       let pairs = unsafe @ safe in
       if pairs = [] then ensure (aggregated_signature = INFINITY_SIGNATURE) BadAggregateSignature
       else bind_res (ok_or (sig_from_bytes b aggregated_signature) BadAggregateSignature) (\<lambda>signature.
         ensure (aggregate_verify_deduped b (map fst pairs) (map snd pairs) signature) BadAggregateSignature)))"

section \<open>A transaction block\<close>

record transactions_info =
  ti_generator_root :: bytes
  ti_generator_refs_root :: bytes
  ti_aggregated_signature :: bytes
  ti_fees :: u64
  ti_cost :: u64
  reward_claims_incorporated :: "coin list"

text \<open>The derived codec: the fields in order, a vector with its length in four bytes.\<close>

definition coin_to_bytes :: "coin encoder" where
  "coin_to_bytes c = Inr (parent_coin_info c @ puzzle_hash c @ be_bytes 8 (unat (amount c)))"

definition transactions_info_to_bytes :: "transactions_info encoder" where
  "transactions_info_to_bytes t =
     bind_res (vec_to_bytes coin_to_bytes (reward_claims_incorporated t)) (\<lambda>claims.
       Inr (ti_generator_root t @ ti_generator_refs_root t @ ti_aggregated_signature t @ be_bytes 8 (unat (ti_fees t)) @
            be_bytes 8 (unat (ti_cost t)) @ claims))"

definition transactions_info_hash_of :: "hash_fn \<Rightarrow> transactions_info \<Rightarrow> chia_error + bytes" where
  "transactions_info_hash_of sha t =
     bind_res (map_err (\<lambda>_. InvalidTransactionsInfoHash) (transactions_info_to_bytes t)) (\<lambda>serialized. Inr (sha serialized))"

record foliage_transaction_block =
  prev_transaction_block_hash :: bytes
  ftb_timestamp :: u64
  filter_hash :: bytes
  ftb_additions_root :: bytes
  ftb_removals_root :: bytes
  ftb_transactions_info_hash :: bytes

record transaction_block_input =
  generator_input :: block_generator_input
  block_info :: transactions_info
  block_foliage :: "foliage_transaction_block option"
  condition_context :: "condition_validation_context option"
  prev_transaction_block_height :: u32

record transaction_block_result =
  res_conditions :: spend_bundle_conditions
  res_additions_root :: bytes
  res_removals_root :: bytes
  res_generator_root :: bytes
  res_generator_refs_root :: bytes
  res_fee_summary :: block_fee_summary

definition MAX_SPENDS_PER_BLOCK :: nat where "MAX_SPENDS_PER_BLOCK = 6000"

definition sf9_active :: "transaction_block_input \<Rightarrow> bool" where
  "sf9_active input \<longleftrightarrow> prev_transaction_block_height input \<ge> soft_fork9_height (gen_constants (generator_input input))"

text \<open>The checks before the generator runs: no references, and a canonical serialization.\<close>

definition check_serialization :: "transaction_block_input \<Rightarrow> chia_error + unit" where
  "check_serialization input =
     bind_res (ensure (\<not> (sf9_active input \<and> generator_refs (generator_input input) \<noteq> [])) TooManyGeneratorRefs) (\<lambda>_.
       ensure (sf9_active input \<longrightarrow> is_canonical_serialization (transactions_generator (generator_input input)))
         ComplexGeneratorReceived)"

text \<open>The checks of the transactions info, in order: roots of the generator, signature, cost, fees.\<close>

definition check_info :: "hash_fn \<Rightarrow> ('pk, 'sig) blst_keys \<Rightarrow> transaction_block_input \<Rightarrow> spend_bundle_conditions \<Rightarrow>
    chia_error + bytes \<times> bytes" where
  "check_info sha b input conds =
     (let info = block_info input; gen = generator_input input;
          generator_root = transactions_generator_root sha (transactions_generator gen);
          refs_root = transactions_generator_refs_root sha (map ref_height (generator_refs gen))
      in bind_res (ensure (generator_root = ti_generator_root info) InvalidTransactionsGeneratorHash) (\<lambda>_.
         bind_res (ensure (refs_root = ti_generator_refs_root info) InvalidTransactionsGeneratorHash) (\<lambda>_.
         bind_res (validate_block_aggregate_signature sha b conds (ti_aggregated_signature info) (gen_constants gen)) (\<lambda>_.
         bind_res (ensure (sb_cost conds = ti_cost info) InvalidBlockCost) (\<lambda>_.
         bind_res (block_fee_amount (fee_summary_of conds)) (\<lambda>computed_fee.
         bind_res (ensure (computed_fee = ti_fees info) InvalidBlockFeeAmount) (\<lambda>_.
         bind_res (ensure (computed_fee \<ge> fee_reserve (fee_summary_of conds)) ReserveFeeConditionFailed) (\<lambda>_.
           Inr (generator_root, refs_root)))))))))"

definition check_foliage :: "hash_fn \<Rightarrow> transaction_block_input \<Rightarrow> bytes \<Rightarrow> bytes \<Rightarrow> chia_error + unit" where
  "check_foliage sha input additions_root removals_root = (case block_foliage input of
     None \<Rightarrow> Inr ()
   | Some foliage \<Rightarrow>
       bind_res (transactions_info_hash_of sha (block_info input)) (\<lambda>h.
       bind_res (ensure (ftb_transactions_info_hash foliage = h) InvalidTransactionsInfoHash) (\<lambda>_.
       bind_res (ensure (ftb_additions_root foliage = additions_root) BadAdditionRoot) (\<lambda>_.
         ensure (ftb_removals_root foliage = removals_root) BadRemovalRoot))))"

text \<open>A root computation is total; a panic in it would not be an error value of the source.\<close>

definition validate_transaction_block :: "('a1, 'p1, 'p2) dialect \<Rightarrow> (sexp \<Rightarrow> placed) \<Rightarrow> ('pk, 'sig) blst_keys \<Rightarrow>
    transaction_block_input \<Rightarrow> (chia_error + transaction_block_result) option" where
  "validate_transaction_block d layout b input =
     (let sha = dialect_sha256 d in
      bind_opt (Some (check_serialization input)) (\<lambda>_.
      bind_opt (execute_block_generator_result d layout (generator_input input)) (\<lambda>conds.
      bind_opt (Some (ensure (\<not> (sf9_active input \<and> length (sb_spends conds) > MAX_SPENDS_PER_BLOCK)) TooManySpends)) (\<lambda>_.
      bind_opt (Some (check_info sha b input conds)) (\<lambda>(generator_root, refs_root).
      bind_opt (map_option (map_err (\<lambda>_. BadAdditionRoot))
          (additions_root_of sha conds (reward_claims_incorporated (block_info input)))) (\<lambda>additions_root.
      bind_opt (map_option (map_err (\<lambda>_. BadRemovalRoot)) (removals_root_of sha conds)) (\<lambda>removals_root.
      bind_opt (Some (check_foliage sha input additions_root removals_root)) (\<lambda>_.
      bind_opt (Some (case condition_context input of
          Some ctx \<Rightarrow> validate_block_conditions sha conds ctx | None \<Rightarrow> Inr ())) (\<lambda>_.
        Some (Inr \<lparr>res_conditions = conds, res_additions_root = additions_root, res_removals_root = removals_root,
          res_generator_root = generator_root, res_generator_refs_root = refs_root,
          res_fee_summary = fee_summary_of conds\<rparr>))))))))))"

end
