(* ===== verification/SpendBundles.thy ===== *)
theory SpendBundles
  imports BlockGenerator
begin

text \<open>
  Building generators and reading them back, \<^verbatim>\<open>core/src/consensus/block_generator.rs\<close>: the generator of a list of
  spends and its length, the spends of a generator, and the conditions of a bundle that is not in a block yet.
\<close>

section \<open>Building a generator\<close>

fun parse_program :: "bytes \<Rightarrow> clvm_failure + sexp" where
  "parse_program bs = map_err ParseError (map_sum id fst (sexp_from_bytes bs))"

fun generator_items :: "coin_spend list \<Rightarrow> clvm_failure + sexp list" where
  "generator_items [] = Inr []"
| "generator_items (s # ss) =
     bind_res (parse_program (cs_puzzle_reveal s)) (\<lambda>puzzle.
     bind_res (parse_program (cs_solution s)) (\<lambda>solution.
     bind_res (generator_items ss) (\<lambda>items.
       Inr (sexp_of_list [Atom (parent_coin_info (cs_coin s)), puzzle,
              Atom (bigint_to_bytes (uint (amount (cs_coin s))) (amount (cs_coin s) \<noteq> 0)), solution] # items))))"

definition build_generator_tree :: "coin_spend list \<Rightarrow> clvm_failure + sexp" where
  "build_generator_tree spends =
     bind_res (generator_items spends) (\<lambda>items. Inr (Pair (Atom [1]) (sexp_of_list [sexp_of_list items])))"

definition simple_solution_generator :: "coin_spend list \<Rightarrow> clvm_failure + bytes" where
  "simple_solution_generator spends =
     bind_res (build_generator_tree spends) (\<lambda>tree. map_err (\<lambda>e. case e of IoError k _ \<Rightarrow> IoFailure k) (sexp_to_bytes tree))"

definition solution_generator_from_coin_spends :: "coin_spend list \<Rightarrow> clvm_failure + bytes" where
  "solution_generator_from_coin_spends spends = simple_solution_generator (rev spends)"

definition clvm_bytes_len :: "u64 \<Rightarrow> nat" where
  "clvm_bytes_len v =
     (if v < 0x80 then 1
      else if v < 0x8000 then 3
      else if v < 0x800000 then 4
      else if v < 0x80000000 then 5
      else if v < 0x8000000000 then 6
      else if v < 0x800000000000 then 7
      else if v < 0x80000000000000 then 8
      else if v < 0x8000000000000000 then 9
      else 10)"

definition spend_bundle_generator_length :: "coin_spend list \<Rightarrow> nat" where
  "spend_bundle_generator_length spends =
     fold (\<lambda>s size. size + (39 + length (cs_puzzle_reveal s) + clvm_bytes_len (amount (cs_coin s)) + length (cs_solution s)))
       spends 5"

section \<open>The spends of a generator\<close>

record raw_condition =
  raw_opcode :: bytes
  raw_vars :: "bytes list"

fun atoms_until_pair :: "sexp list \<Rightarrow> bytes list" where
  "atoms_until_pair (Atom a # ps) = a # atoms_until_pair ps"
| "atoms_until_pair _ = []"

fun parse_raw :: "sexp list \<Rightarrow> chia_error + raw_condition list" where
  "parse_raw [] = Inr []"
| "parse_raw (c # cs) = (case ref_list c of
     Atom opcode # parts \<Rightarrow>
       bind_res (parse_raw cs) (\<lambda>rest. Inr (\<lparr>raw_opcode = opcode, raw_vars = atoms_until_pair parts\<rparr> # rest))
   | _ \<Rightarrow> Inl InvalidBlockSolution)"

definition parse_raw_conditions :: "sexp \<Rightarrow> chia_error + raw_condition list" where
  "parse_raw_conditions output = parse_raw (ref_list output)"

text \<open>The run of a simple generator, up to its list of spends.\<close>

definition simple_spend_list :: "('a1, 'p1, 'p2) dialect \<Rightarrow> block_generator_input \<Rightarrow> (chia_error + u64 \<times> sexp list) option" where
  "simple_spend_list d input =
     bind_opt (Some (ensure (simple_generator (gen_flags input)) GeneratorRuntimeError)) (\<lambda>_.
     bind_opt (Some (ensure (length (transactions_generator input) \<le> unat (max_generator_size (gen_constants input)))
         InvalidTransactionsGeneratorHash)) (\<lambda>_.
     bind_opt (Some (case sexp_from_bytes_backrefs (transactions_generator input) of
         Inl _ \<Rightarrow> Inl InvalidBlockSolution | Inr (generator, _) \<Rightarrow> Inr generator)) (\<lambda>generator.
     bind_opt (Some (ensure (check_simple_generator (transactions_generator input) generator) ComplexGeneratorReceived)) (\<lambda>_.
     bind_opt (Some (generator_budget input)) (\<lambda>(byte_cost, cost_left).
     bind_opt (map_option (map_err generator_run_error)
         (program_run d cost_left (clvm_flags (gen_flags input)) generator NULL_SEXP)) (\<lambda>(_, output).
     bind_opt (Some (map_err (\<lambda>_. InvalidBlockSolution) (sexp_first output))) (\<lambda>all_spends.
       Some (Inr (cost_left, ref_list all_spends)))))))))"

text \<open>The coin of one spend; every failure is an invalid solution.\<close>

definition listed_coin :: "hash_fn \<Rightarrow> sexp list \<Rightarrow> chia_error + coin" where
  "listed_coin sha parts =
     (if length parts < 4 then Inl InvalidBlockSolution
      else map_err (\<lambda>_. InvalidBlockSolution) (generator_coin sha None parts))"

definition serialized :: "sexp \<Rightarrow> chia_error + bytes" where
  "serialized s = map_err (\<lambda>_. InvalidBlockSolution) (sexp_to_bytes s)"

definition listed_spend :: "coin \<Rightarrow> sexp list \<Rightarrow> chia_error + coin_spend" where
  "listed_spend coin parts =
     bind_res (serialized (parts ! 1)) (\<lambda>puzzle_reveal.
     bind_res (serialized (parts ! 3)) (\<lambda>solution.
       Inr \<lparr>cs_coin = coin, cs_puzzle_reveal = puzzle_reveal, cs_solution = solution\<rparr>))"

fun find_spend :: "hash_fn \<Rightarrow> bytes \<Rightarrow> sexp list \<Rightarrow> chia_error + coin_spend option" where
  "find_spend sha name [] = Inr None"
| "find_spend sha name (s # ss) =
     (let parts = ref_list s in
      bind_res (listed_coin sha parts) (\<lambda>coin.
        if coin_name sha coin = name then bind_res (listed_spend coin parts) (\<lambda>cs. Inr (Some cs))
        else find_spend sha name ss))"

definition coin_spend_from_generator :: "('a1, 'p1, 'p2) dialect \<Rightarrow> block_generator_input \<Rightarrow> bytes \<Rightarrow>
    (chia_error + coin_spend option) option" where
  "coin_spend_from_generator d input name =
     bind_opt (simple_spend_list d input) (\<lambda>(_, spends). Some (find_spend (dialect_sha256 d) name spends))"

fun list_spends :: "('a1, 'p1, 'p2) dialect \<Rightarrow> u64 \<Rightarrow> u32 \<Rightarrow> bool \<Rightarrow> sexp list \<Rightarrow>
    (chia_error + (coin_spend \<times> raw_condition list) list) option" where
  "list_spends d cost_left flags with_conditions [] = Some (Inr [])"
| "list_spends d cost_left flags with_conditions (s # ss) =
     (let parts = ref_list s in
      bind_opt (Some (listed_coin (dialect_sha256 d) parts)) (\<lambda>coin.
      bind_opt (if with_conditions
          then bind_opt (map_option (map_err generator_run_error) (program_run d cost_left flags (parts ! 1) (parts ! 3)))
                 (\<lambda>(_, output). Some (parse_raw_conditions output))
          else Some (Inr [])) (\<lambda>conditions.
      bind_opt (Some (listed_spend coin parts)) (\<lambda>cs.
      bind_opt (list_spends d cost_left flags with_conditions ss) (\<lambda>rest. Some (Inr ((cs, conditions) # rest)))))))"

definition run_simple_generator_spends :: "('a1, 'p1, 'p2) dialect \<Rightarrow> block_generator_input \<Rightarrow> bool \<Rightarrow>
    (chia_error + (coin_spend \<times> raw_condition list) list) option" where
  "run_simple_generator_spends d input with_conditions =
     bind_opt (simple_spend_list d input) (\<lambda>(cost_left, spends).
       list_spends d cost_left (clvm_flags (gen_flags input)) with_conditions spends)"

definition coin_spends_from_generator :: "('a1, 'p1, 'p2) dialect \<Rightarrow> block_generator_input \<Rightarrow>
    (chia_error + coin_spend list) option" where
  "coin_spends_from_generator d input =
     bind_opt (run_simple_generator_spends d input False) (\<lambda>spends. Some (Inr (map fst spends)))"

definition coin_spends_with_conditions_from_generator :: "('a1, 'p1, 'p2) dialect \<Rightarrow> block_generator_input \<Rightarrow>
    (chia_error + (coin_spend \<times> raw_condition list) list) option" where
  "coin_spends_with_conditions_from_generator d input = run_simple_generator_spends d input True"

section \<open>Bundles\<close>

record spend_bundle =
  bundle_spends :: "coin_spend list"
  bundle_signature :: bytes

definition clear_ff :: "spend \<Rightarrow> spend" where
  "clear_ff spend = spend\<lparr>sp_flags := clear_flag ELIGIBLE_FOR_FF (sp_flags spend)\<rparr>"

definition child_spent :: "hash_fn \<Rightarrow> bytes set \<Rightarrow> spend \<Rightarrow> bool" where
  "child_spent sha ids spend \<longleftrightarrow> (\<exists>c \<in> set (create_coin spend). coin_name sha (created_coin spend c) \<in> ids)"

text \<open>
  \<^verbatim>\<open>spent_coins\<close> maps the id of a spend to its position; on an id that occurs twice the last position wins. First the
  spends that another one asserts, then those with a child in the bundle.
\<close>

definition clear_ff_for_bundle_commitments :: "hash_fn \<Rightarrow> spend_bundle_conditions \<Rightarrow> spend_bundle_conditions" where
  "clear_ff_for_bundle_commitments sha conds =
     (let spends = sb_spends conds;
          ids = set (map sp_coin_id spends);
          spent_coins = map_of (rev (zip (map sp_coin_id spends) [0..<length spends]));
          committed = concat (map (\<lambda>spend. List.map_filter spent_coins (assert_concurrent_spend spend)) spends);
          spends = fold (\<lambda>i ss. ss[i := clear_ff (ss ! i)]) committed spends;
          spends = map (\<lambda>spend. if sp_flags spend AND ELIGIBLE_FOR_FF \<noteq> 0 \<and> child_spent sha ids spend
                               then clear_ff spend else spend) spends
      in conds\<lparr>sb_spends := spends\<rparr>)"

text \<open>The cost of a bundle's bytes: those of its generator without the quote. The product wraps around.\<close>

definition bundle_byte_cost :: "coin_spend list \<Rightarrow> consensus_constants \<Rightarrow> u64" where
  "bundle_byte_cost spends constants = of_nat (spend_bundle_generator_length spends - 2) * cost_per_byte constants"

fun bundle_loop :: "('a1, 'p1, 'p2) dialect \<Rightarrow> u32 \<Rightarrow> consensus_constants \<Rightarrow> (bytes \<rightharpoonup> bytes) \<Rightarrow> coin_spend list \<Rightarrow>
    collect_state \<Rightarrow> (chia_error + collect_state) option" where
  "bundle_loop d flags constants cache [] st = Some (Inr st)"
| "bundle_loop d flags constants cache (s # ss) st = (case st of (conds, spent, created, conditions_cost) \<Rightarrow>
     let sha = dialect_sha256 d; coin = cs_coin s; max_cost = max_block_cost_clvm constants in
     bind_opt (Some (map_err map_condition_error (parse_program (cs_puzzle_reveal s)))) (\<lambda>puzzle_reveal.
     bind_opt (Some (map_err map_condition_error (parse_program (cs_solution s)))) (\<lambda>solution.
       let reveal_hash = (case cache (cs_puzzle_reveal s) of Some h \<Rightarrow> h | None \<Rightarrow> tree_hash sha puzzle_reveal);
           cache = cache(cs_puzzle_reveal s \<mapsto> reveal_hash)
       in if reveal_hash \<noteq> puzzle_hash coin then Some (Inl WrongPuzzleHash)
          else if coin_name sha coin \<in> spent then Some (Inl (map_condition_error DoubleSpendError))
          else
            bind_opt (Some (ok_or (checked_sub max_cost (sb_cost conds)) BlockCostExceedsMax)) (\<lambda>cost_left.
            bind_opt (map_option (map_err (\<lambda>e. map_condition_error (Vm e)))
                (program_run d cost_left flags puzzle_reveal solution)) (\<lambda>(puzzle_cost, output).
            bind_opt (Some (ok_or (checked_add (sb_cost conds) puzzle_cost) BlockCostExceedsMax)) (\<lambda>cost.
            bind_opt (Some (map_err (\<lambda>e. map_condition_error (IoFailure e)) (conditions_try_from output))) (\<lambda>conditions.
            bind_opt (Some (map_err map_condition_error
                (spend_from_conditions sha constants coin conditions (conds\<lparr>sb_cost := cost\<rparr>) conditions_cost True)))
              (\<lambda>(spend, conds, conditions_cost).
            bind_opt (Some (map_err map_condition_error (push_spend sha (insert (coin_name sha coin) spent) created
                (spend\<lparr>execution_cost := puzzle_cost\<rparr>, conds, conditions_cost))))
              (bundle_loop d flags constants cache ss)))))))))"

definition conditions_from_spend_bundle :: "('a1, 'p1, 'p2) dialect \<Rightarrow> spend_bundle \<Rightarrow> u32 \<Rightarrow> consensus_constants \<Rightarrow>
    (chia_error + spend_bundle_conditions) option" where
  "conditions_from_spend_bundle d bundle height constants =
     (let flags = clvm_flags (flags_for_height constants height) OR MEMPOOL_MODE;
          max_cost = max_block_cost_clvm constants
      in bind_opt (bundle_loop d flags constants Map.empty (bundle_spends bundle)
             (empty_conditions (bundle_byte_cost (bundle_spends bundle) constants), {}, {}, 0))
           (\<lambda>(conds, _, _, conditions_cost).
             bind_opt (Some (ok_or (checked_add (sb_cost conds) conditions_cost) BlockCostExceedsMax)) (\<lambda>cost.
               if cost > max_cost then Some (Inl BlockCostExceedsMax)
               else Some (Inr (clear_ff_for_bundle_commitments (dialect_sha256 d) (conds\<lparr>sb_cost := cost\<rparr>))))))"

end
