(* ===== verification/SpendSound.thy ===== *)
theory SpendSound
  imports BlockValidation SpendBundles
begin

text \<open>
  What a spend keeps of its conditions: the amounts, fees and costs that are counted are exactly those of the
  conditions, and every assertion leaves its trace in the record that the validation of the block looks at.
\<close>

section \<open>The meaning of a condition for the books\<close>

fun created_amount :: "condition_with_args \<Rightarrow> nat" where
  "created_amount (CreateCoin _ amt _) = unat amt"
| "created_amount _ = 0"

fun fee_of :: "condition_with_args \<Rightarrow> nat" where
  "fee_of (ReserveFee fee) = unat fee"
| "fee_of _ = 0"

fun cost_of :: "condition_with_args \<Rightarrow> nat" where
  "cost_of (CreateCoin _ _ _) = unat CREATE_COIN_COST"
| "cost_of (AggSigMe _ _) = unat AGG_SIG_COST"
| "cost_of (AggSigParent _ _) = unat AGG_SIG_COST"
| "cost_of (AggSigPuzzle _ _) = unat AGG_SIG_COST"
| "cost_of (AggSigAmount _ _) = unat AGG_SIG_COST"
| "cost_of (AggSigPuzzleAmount _ _) = unat AGG_SIG_COST"
| "cost_of (AggSigParentAmount _ _) = unat AGG_SIG_COST"
| "cost_of (AggSigParentPuzzle _ _) = unat AGG_SIG_COST"
| "cost_of (AggSigUnsafe _ _) = unat AGG_SIG_COST"
| "cost_of (SoftFork c) = unat c"
| "cost_of _ = 0"

fun outputs_of :: "condition_with_args \<Rightarrow> (bytes \<times> u64) list" where
  "outputs_of (CreateCoin ph amt _) = [(ph, amt)]"
| "outputs_of _ = []"

definition coin_pair :: "new_coin \<Rightarrow> bytes \<times> u64" where
  "coin_pair c = (nc_puzzle_hash c, nc_amount c)"

text \<open>The ids of the coins that a spend creates.\<close>

definition output_ids :: "hash_fn \<Rightarrow> spend \<Rightarrow> bytes list" where
  "output_ids sha s = map (\<lambda>c. coin_name sha (created_coin s c)) (create_coin s)"

section \<open>The trace of a condition\<close>

fun kept :: "condition_with_args \<Rightarrow> spend \<Rightarrow> spend_bundle_conditions \<Rightarrow> bool" where
  "kept (CreateCoin ph amt _) s b = ((ph, amt) \<in> coin_pair ` set (create_coin s))"
| "kept (AssertHeightAbsolute h) s b = (h \<le> height_absolute b)"
| "kept (AssertSecondsAbsolute t) s b = (t \<le> seconds_absolute b)"
| "kept (AssertBeforeHeightAbsolute h) s b = (\<exists>x. before_height_absolute b = Some x \<and> x \<le> h)"
| "kept (AssertBeforeSecondsAbsolute t) s b = (\<exists>x. before_seconds_absolute b = Some x \<and> x \<le> t)"
| "kept (AssertHeightRelative h) s b = (\<exists>x. height_relative s = Some x \<and> h \<le> x)"
| "kept (AssertSecondsRelative t) s b = (\<exists>x. seconds_relative s = Some x \<and> t \<le> x)"
| "kept (AssertBeforeHeightRelative h) s b = (\<exists>x. before_height_relative s = Some x \<and> x \<le> h)"
| "kept (AssertBeforeSecondsRelative t) s b = (\<exists>x. before_seconds_relative s = Some x \<and> x \<le> t)"
| "kept (AggSigMe pk msg) s b = ((pk, msg) \<in> set (agg_sig_me s) \<and> pk \<noteq> BLS_G1_INFINITY)"
| "kept (AggSigParent pk msg) s b = ((pk, msg) \<in> set (agg_sig_parent s) \<and> pk \<noteq> BLS_G1_INFINITY)"
| "kept (AggSigPuzzle pk msg) s b = ((pk, msg) \<in> set (agg_sig_puzzle s) \<and> pk \<noteq> BLS_G1_INFINITY)"
| "kept (AggSigAmount pk msg) s b = ((pk, msg) \<in> set (agg_sig_amount s) \<and> pk \<noteq> BLS_G1_INFINITY)"
| "kept (AggSigPuzzleAmount pk msg) s b = ((pk, msg) \<in> set (agg_sig_puzzle_amount s) \<and> pk \<noteq> BLS_G1_INFINITY)"
| "kept (AggSigParentAmount pk msg) s b = ((pk, msg) \<in> set (agg_sig_parent_amount s) \<and> pk \<noteq> BLS_G1_INFINITY)"
| "kept (AggSigParentPuzzle pk msg) s b = ((pk, msg) \<in> set (agg_sig_parent_puzzle s) \<and> pk \<noteq> BLS_G1_INFINITY)"
| "kept (AggSigUnsafe pk msg) s b = ((pk, msg) \<in> set (agg_sig_unsafe b) \<and> pk \<noteq> BLS_G1_INFINITY)"
| "kept (CreateCoinAnnouncement msg) s b = (msg \<in> set (create_coin_announcements s))"
| "kept (AssertCoinAnnouncement a) s b = (a \<in> set (assert_coin_announcements s))"
| "kept (CreatePuzzleAnnouncement msg) s b = (msg \<in> set (create_puzzle_announcements s))"
| "kept (AssertPuzzleAnnouncement a) s b = (a \<in> set (assert_puzzle_announcements s))"
| "kept (AssertConcurrentSpend i) s b = (i \<in> set (assert_concurrent_spend s))"
| "kept (AssertConcurrentPuzzle ph) s b = (ph \<in> set (assert_concurrent_puzzle s))"
| "kept AssertEphemeral s b = assert_ephemeral s"
| "kept (SendMessage mode msg args) s b = (\<lparr>sm_mode = mode, sm_message = msg, sm_args = args\<rparr> \<in> set (sent_messages s))"
| "kept (ReceiveMessage mode msg args) s b = (\<lparr>sm_mode = mode, sm_message = msg, sm_args = args\<rparr> \<in> set (received_messages s))"
| "kept (AssertMyCoinId i) s b = (i = sp_coin_id s)"
| "kept (AssertMyParentId i) s b = (i = sp_parent_id s)"
| "kept (AssertMyPuzzlehash ph) s b = (ph = sp_puzzle_hash s)"
| "kept (AssertMyAmount amt) s b = (amt = sp_coin_amount s)"
| "kept _ s b = True"

text \<open>A coin's birth can be asserted more than once; the last assertion of each kind is the one that is kept.\<close>

fun birth_height_of :: "u32 option \<Rightarrow> condition_with_args \<Rightarrow> u32 option" where
  "birth_height_of x (AssertMyBirthHeight h) = Some h"
| "birth_height_of x _ = x"

fun birth_seconds_of :: "u64 option \<Rightarrow> condition_with_args \<Rightarrow> u64 option" where
  "birth_seconds_of x (AssertMyBirthSeconds t) = Some t"
| "birth_seconds_of x _ = x"

text \<open>What a condition announces, sends and receives, and the relative locks as a running maximum.\<close>

fun announces_coin :: "condition_with_args \<Rightarrow> bytes list" where
  "announces_coin (CreateCoinAnnouncement msg) = [msg]"
| "announces_coin _ = []"

fun announces_puzzle :: "condition_with_args \<Rightarrow> bytes list" where
  "announces_puzzle (CreatePuzzleAnnouncement msg) = [msg]"
| "announces_puzzle _ = []"

fun sends :: "condition_with_args \<Rightarrow> spend_message list" where
  "sends (SendMessage mode msg args) = [\<lparr>sm_mode = mode, sm_message = msg, sm_args = args\<rparr>]"
| "sends _ = []"

fun receives :: "condition_with_args \<Rightarrow> spend_message list" where
  "receives (ReceiveMessage mode msg args) = [\<lparr>sm_mode = mode, sm_message = msg, sm_args = args\<rparr>]"
| "receives _ = []"

fun height_lock_of :: "u32 option \<Rightarrow> condition_with_args \<Rightarrow> u32 option" where
  "height_lock_of x (AssertHeightRelative h) = max_opt x h"
| "height_lock_of x _ = x"

fun seconds_lock_of :: "u64 option \<Rightarrow> condition_with_args \<Rightarrow> u64 option" where
  "seconds_lock_of x (AssertSecondsRelative t) = max_opt x t"
| "seconds_lock_of x _ = x"

text \<open>The record of a spend after some conditions, from the record before them.\<close>

definition spoken :: "condition_with_args list \<Rightarrow> spend \<Rightarrow> spend \<Rightarrow> bool" where
  "spoken cs s s' \<longleftrightarrow>
     create_coin_announcements s' = create_coin_announcements s @ concat (map announces_coin cs) \<and>
     create_puzzle_announcements s' = create_puzzle_announcements s @ concat (map announces_puzzle cs) \<and>
     sent_messages s' = sent_messages s @ concat (map sends cs) \<and>
     received_messages s' = received_messages s @ concat (map receives cs) \<and>
     height_relative s' = foldl height_lock_of (height_relative s) cs \<and>
     seconds_relative s' = foldl seconds_lock_of (seconds_relative s) cs"

lemma spoken_Nil [simp]: "spoken [] s s"
  by (simp add: spoken_def)

lemma spoken_append: "spoken cs s s' \<Longrightarrow> spoken ds s' s'' \<Longrightarrow> spoken (cs @ ds) s s''"
  by (simp add: spoken_def)

section \<open>Growth\<close>

text \<open>The identity of a spend, and what no condition touches.\<close>

definition same_frame :: "apply_state \<Rightarrow> apply_state \<Rightarrow> bool" where
  "same_frame st st' = (case (st, st') of ((s, b, x), (s', b', x')) \<Rightarrow>
     spend_coin s' = spend_coin s \<and> sp_coin_id s' = sp_coin_id s \<and> condition_cost s' = condition_cost s \<and>
     execution_cost s' = execution_cost s \<and>
     sb_spends b' = sb_spends b \<and> sb_cost b' = sb_cost b \<and> removal_amount b' = removal_amount b)"

definition same_counts :: "condition_with_args list \<Rightarrow> apply_state \<Rightarrow> apply_state \<Rightarrow> bool" where
  "same_counts cs st st' = (case (st, st') of ((s, b, x), (s', b', x')) \<Rightarrow>
     unat (addition_amount b') = unat (addition_amount b) + sum_list (map created_amount cs) \<and>
     unat (reserve_fee b') = unat (reserve_fee b) + sum_list (map fee_of cs) \<and>
     unat x' = unat x + sum_list (map cost_of cs) \<and>
     map coin_pair (create_coin s') = map coin_pair (create_coin s) @ concat (map outputs_of cs) \<and>
     birth_height s' = foldl birth_height_of (birth_height s) cs \<and>
     birth_seconds s' = foldl birth_seconds_of (birth_seconds s) cs \<and> spoken cs s s' \<and>
     (distinct (create_coin s) \<longrightarrow> distinct (create_coin s')))"

lemma checked_add_Some: "checked_add a b = Some c \<longleftrightarrow> unat a + unat b < 2 ^ LENGTH('a) \<and> c = a + (b :: 'a::len word)"
  by (auto simp: checked_add_def)

lemma unat_checked_add: "checked_add a b = Some c \<Longrightarrow> unat c = unat a + unat (b :: 'a::len word)"
  by (auto simp: checked_add_Some unat_add_small)

lemma charge_condition_Inr: "charge_condition x c = Inr x' \<Longrightarrow> unat x' = unat x + unat c"
  by (auto simp: charge_condition_def unat_checked_add)

lemma unat_ucast_u128 [simp]: "unat (ucast (a :: u64) :: u128) = unat a"
  by simp

lemmas apply_defs = apply_match_def apply_create_coin_def apply_agg_sig_def apply_agg_sig_unsafe_def

lemma apply_match_frame: "apply_match sha k coin c st = Inr st' \<Longrightarrow> same_frame st st'"
  by (cases st; cases c)
    (auto simp: apply_defs same_frame_def spend_coin_def Let_def split: if_splits prod.splits)

lemma apply_match_counts: "apply_match sha k coin c st = Inr st' \<Longrightarrow> same_counts [c] st st'"
  by (cases st; cases c)
    (auto simp: apply_defs same_counts_def spoken_def coin_pair_def Let_def unat_checked_add dest!: charge_condition_Inr
      split: if_splits prod.splits)

definition tighter :: "('a::linorder \<Rightarrow> 'a \<Rightarrow> bool) \<Rightarrow> 'a option \<Rightarrow> 'a option \<Rightarrow> bool" where
  "tighter le x y = (\<forall>a. x = Some a \<longrightarrow> (\<exists>b. y = Some b \<and> le a b))"

definition grows_block :: "spend_bundle_conditions \<Rightarrow> spend_bundle_conditions \<Rightarrow> bool" where
  "grows_block b b' \<longleftrightarrow> height_absolute b \<le> height_absolute b' \<and> seconds_absolute b \<le> seconds_absolute b' \<and>
     tighter (\<ge>) (before_height_absolute b) (before_height_absolute b') \<and>
     tighter (\<ge>) (before_seconds_absolute b) (before_seconds_absolute b') \<and>
     set (agg_sig_unsafe b) \<subseteq> set (agg_sig_unsafe b')"

definition grows_locks :: "spend \<Rightarrow> spend \<Rightarrow> bool" where
  "grows_locks s s' \<longleftrightarrow>
     tighter (\<le>) (height_relative s) (height_relative s') \<and> tighter (\<le>) (seconds_relative s) (seconds_relative s') \<and>
     tighter (\<ge>) (before_height_relative s) (before_height_relative s') \<and>
     tighter (\<ge>) (before_seconds_relative s) (before_seconds_relative s')"

definition grows_sigs :: "spend \<Rightarrow> spend \<Rightarrow> bool" where
  "grows_sigs s s' \<longleftrightarrow>
     set (agg_sig_me s) \<subseteq> set (agg_sig_me s') \<and> set (agg_sig_parent s) \<subseteq> set (agg_sig_parent s') \<and>
     set (agg_sig_puzzle s) \<subseteq> set (agg_sig_puzzle s') \<and> set (agg_sig_amount s) \<subseteq> set (agg_sig_amount s') \<and>
     set (agg_sig_puzzle_amount s) \<subseteq> set (agg_sig_puzzle_amount s') \<and>
     set (agg_sig_parent_amount s) \<subseteq> set (agg_sig_parent_amount s') \<and>
     set (agg_sig_parent_puzzle s) \<subseteq> set (agg_sig_parent_puzzle s')"

definition grows_facts :: "spend \<Rightarrow> spend \<Rightarrow> bool" where
  "grows_facts s s' \<longleftrightarrow> set (create_coin s) \<subseteq> set (create_coin s') \<and>
     set (create_coin_announcements s) \<subseteq> set (create_coin_announcements s') \<and>
     set (assert_coin_announcements s) \<subseteq> set (assert_coin_announcements s') \<and>
     set (create_puzzle_announcements s) \<subseteq> set (create_puzzle_announcements s') \<and>
     set (assert_puzzle_announcements s) \<subseteq> set (assert_puzzle_announcements s')"

definition grows_links :: "spend \<Rightarrow> spend \<Rightarrow> bool" where
  "grows_links s s' \<longleftrightarrow> set (assert_concurrent_spend s) \<subseteq> set (assert_concurrent_spend s') \<and>
     set (assert_concurrent_puzzle s) \<subseteq> set (assert_concurrent_puzzle s') \<and>
     (assert_ephemeral s \<longrightarrow> assert_ephemeral s') \<and>
     set (sent_messages s) \<subseteq> set (sent_messages s') \<and> set (received_messages s) \<subseteq> set (received_messages s')"

definition grows :: "spend \<Rightarrow> spend_bundle_conditions \<Rightarrow> spend \<Rightarrow> spend_bundle_conditions \<Rightarrow> bool" where
  "grows s b s' b' \<longleftrightarrow> spend_coin s' = spend_coin s \<and> sp_coin_id s' = sp_coin_id s \<and> grows_block b b' \<and>
     grows_locks s s' \<and> grows_sigs s s' \<and> grows_facts s s' \<and> grows_links s s'"

lemma tighter_refl [simp]: "tighter (\<le>) x (x :: 'a::linorder option)" "tighter (\<ge>) x (x :: 'a::linorder option)"
  by (auto simp: tighter_def)

lemma tighter_opt [simp]:
  "tighter (\<ge>) x (min_opt x v)" "tighter (\<le>) y (max_opt y (w :: 'a::len word))"
  by (auto simp: tighter_def min_opt_def max_opt_def)

lemma opt_bound [simp]:
  "\<exists>b. min_opt x v = Some b \<and> b \<le> v" "\<exists>b. max_opt y w = Some b \<and> w \<le> (b :: 'a::len word)"
  by (auto simp: min_opt_def max_opt_def split: option.splits)

lemma apply_match_grows_block: "apply_match sha k coin c (s, b, x) = Inr (s', b', x') \<Longrightarrow> grows_block b b'"
  by (cases c) (auto simp: apply_defs grows_block_def Let_def split: if_splits prod.splits)

lemma apply_match_grows_locks: "apply_match sha k coin c (s, b, x) = Inr (s', b', x') \<Longrightarrow> grows_locks s s'"
  by (cases c) (auto simp: apply_defs grows_locks_def Let_def split: if_splits prod.splits)

lemma apply_match_grows_sigs: "apply_match sha k coin c (s, b, x) = Inr (s', b', x') \<Longrightarrow> grows_sigs s s'"
  by (cases c) (auto simp: apply_defs grows_sigs_def Let_def split: if_splits prod.splits)

lemma apply_match_grows_facts: "apply_match sha k coin c (s, b, x) = Inr (s', b', x') \<Longrightarrow> grows_facts s s'"
  by (cases c) (auto simp: apply_defs grows_facts_def Let_def split: if_splits prod.splits)

lemma apply_match_grows_links: "apply_match sha k coin c (s, b, x) = Inr (s', b', x') \<Longrightarrow> grows_links s s'"
  by (cases c) (auto simp: apply_defs grows_links_def Let_def split: if_splits prod.splits)

lemma apply_match_grows: "apply_match sha k coin c (s, b, x) = Inr (s', b', x') \<Longrightarrow> grows s b s' b'"
  using apply_match_frame [of sha k coin c "(s, b, x)" "(s', b', x')"]
  by (simp add: grows_def same_frame_def apply_match_grows_block apply_match_grows_locks apply_match_grows_sigs
      apply_match_grows_facts apply_match_grows_links)

lemma tighter_le: "tighter (\<le>) x y \<Longrightarrow> \<exists>a. x = Some a \<and> (h :: 'a::linorder) \<le> a \<Longrightarrow> \<exists>a. y = Some a \<and> h \<le> a"
  unfolding tighter_def by (metis order_trans)

lemma tighter_ge: "tighter (\<ge>) x y \<Longrightarrow> \<exists>a. x = Some a \<and> a \<le> (h :: 'a::linorder) \<Longrightarrow> \<exists>a. y = Some a \<and> a \<le> h"
  unfolding tighter_def by (metis order_trans)

lemma spend_coin_iff: "spend_coin s = spend_coin t \<longleftrightarrow> sp_parent_id s = sp_parent_id t \<and>
    sp_puzzle_hash s = sp_puzzle_hash t \<and> sp_coin_amount s = sp_coin_amount t"
  by (auto simp: spend_coin_def)

lemma grows_keeps:
  assumes g: "grows s b s' b'" and k: "kept c s b"
  shows "kept c s' b'"
  using k g [unfolded grows_def spend_coin_iff]
  by (cases c)
    (auto simp: grows_block_def grows_sigs_def grows_facts_def grows_links_def
      intro: tighter_le tighter_ge dest: grows_locks_def [THEN iffD1])

lemma apply_match_kept:
  assumes "apply_match sha k coin c (s, b, x) = Inr (s', b', x')" "agg_sig_infinity_pubkey c = None"
    "spend_coin s = coin" "sp_coin_id s = coin_name sha coin"
  shows "kept c s' b'"
  using assms
  by (cases c)
    (auto simp: apply_defs spend_coin_def coin_pair_def agg_sig_infinity_pubkey_def Let_def
      split: if_splits prod.splits)

section \<open>Sequences of conditions\<close>

definition applied :: "condition_with_args list \<Rightarrow> apply_state \<Rightarrow> apply_state \<Rightarrow> bool" where
  "applied cs st st' \<longleftrightarrow> same_frame st st' \<and> same_counts cs st st' \<and>
     grows (fst st) (fst (snd st)) (fst st') (fst (snd st')) \<and> (\<forall>c \<in> set cs. kept c (fst st') (fst (snd st')))"

lemma tighter_trans:
  "tighter (\<le>) x y \<Longrightarrow> tighter (\<le>) y z \<Longrightarrow> tighter (\<le>) x (z :: 'a::linorder option)"
  "tighter (\<ge>) x y \<Longrightarrow> tighter (\<ge>) y z \<Longrightarrow> tighter (\<ge>) x (z :: 'a::linorder option)"
  unfolding tighter_def by (metis order_trans)+

lemma grows_refl [simp]: "grows s b s b"
  by (simp add: grows_def grows_block_def grows_locks_def grows_sigs_def grows_facts_def grows_links_def)

lemma grows_block_trans: "grows_block b b' \<Longrightarrow> grows_block b' b'' \<Longrightarrow> grows_block b b''"
  unfolding grows_block_def by (elim conjE, intro conjI) (erule (1) order_trans tighter_trans subset_trans)+

lemma grows_locks_trans: "grows_locks s s' \<Longrightarrow> grows_locks s' s'' \<Longrightarrow> grows_locks s s''"
  unfolding grows_locks_def by (elim conjE, intro conjI) (erule (1) tighter_trans)+

lemma grows_sigs_trans: "grows_sigs s s' \<Longrightarrow> grows_sigs s' s'' \<Longrightarrow> grows_sigs s s''"
  unfolding grows_sigs_def by (elim conjE, intro conjI) (erule (1) subset_trans)+

lemma grows_facts_trans: "grows_facts s s' \<Longrightarrow> grows_facts s' s'' \<Longrightarrow> grows_facts s s''"
  unfolding grows_facts_def by (elim conjE, intro conjI) (erule (1) subset_trans)+

lemma grows_links_trans: "grows_links s s' \<Longrightarrow> grows_links s' s'' \<Longrightarrow> grows_links s s''"
  unfolding grows_links_def by (elim conjE, intro conjI) (erule (1) subset_trans | blast)+

lemma grows_trans: "grows s b s' b' \<Longrightarrow> grows s' b' s'' b'' \<Longrightarrow> grows s b s'' b''"
  unfolding grows_def
  using grows_block_trans grows_locks_trans grows_sigs_trans grows_facts_trans grows_links_trans by metis

lemma applied_Nil: "applied [] st st"
  by (cases st) (simp add: applied_def same_frame_def same_counts_def)

lemma applied_append:
  assumes "applied cs st st'" "applied ds st' st''"
  shows "applied (cs @ ds) st st''"
proof -
  obtain s b x s' b' x' s'' b'' x'' where st: "st = (s, b, x)" "st' = (s', b', x')" "st'' = (s'', b'', x'')"
    by (metis prod_cases3)
  have "same_frame st st''" using assms by (simp add: applied_def same_frame_def st)
  moreover have "same_counts (cs @ ds) st st''" 
    using assms by (auto simp: applied_def same_counts_def st intro: spoken_append)
  moreover have "grows s b s'' b''" using assms grows_trans by (simp add: applied_def st) blast
  moreover have "\<forall>c \<in> set (cs @ ds). kept c s'' b''"
    using assms grows_keeps by (simp add: applied_def st) blast
  ultimately show ?thesis by (simp add: applied_def st)
qed

lemma applied_flags: "applied cs (s\<lparr>sp_flags := f\<rparr>, b, x) st' \<longleftrightarrow> applied cs (s, b, x) st'"
  by (cases st') (simp add: applied_def same_frame_def same_counts_def spoken_def grows_def grows_block_def grows_locks_def
      grows_sigs_def grows_facts_def grows_links_def spend_coin_def)

definition frame_ok :: "hash_fn \<Rightarrow> coin \<Rightarrow> apply_state \<Rightarrow> bool" where
  "frame_ok sha coin st \<longleftrightarrow> spend_coin (fst st) = coin \<and> sp_coin_id (fst st) = coin_name sha coin"

lemma frame_ok_applied: "frame_ok sha coin st \<Longrightarrow> applied cs st st' \<Longrightarrow> frame_ok sha coin st'"
  by (auto simp: frame_ok_def applied_def grows_def)

lemma apply_match_applied:
  assumes "apply_match sha k coin c st = Inr st'" "agg_sig_infinity_pubkey c = None" "frame_ok sha coin st"
  shows "applied [c] st st'"
proof -
  obtain s b x s' b' x' where st: "st = (s, b, x)" "st' = (s', b', x')" by (metis prod_cases3)
  from assms show ?thesis
    using apply_match_frame [OF assms(1)] apply_match_counts [OF assms(1)] apply_match_grows [of sha k coin c s b x s' b' x']
      apply_match_kept [of sha k coin c s b x s' b' x']
    by (simp add: applied_def frame_ok_def st)
qed

lemma apply_parsed_condition_applied:
  assumes "apply_parsed_condition sha k mempool coin c i st = Inr st'" "frame_ok sha coin st"
  shows "applied [c] st st'"
proof -
  obtain s b x where st: "st = (s, b, x)" by (metis prod_cases3)
  define f where "f = (if mempool then clear_eligibility_for_condition (sp_flags s) c i else sp_flags s)"
  have f: "(if mempool then s\<lparr>sp_flags := clear_eligibility_for_condition (sp_flags s) c i\<rparr> else s) = s\<lparr>sp_flags := f\<rparr>"
    by (simp add: f_def)
  from assms have "agg_sig_infinity_pubkey c = None" "apply_match sha k coin c (s\<lparr>sp_flags := f\<rparr>, b, x) = Inr st'"
    by (auto simp: apply_parsed_condition_def st f Let_def split: option.splits)
  moreover have "frame_ok sha coin (s\<lparr>sp_flags := f\<rparr>, b, x)"
    using assms(2) by (simp add: frame_ok_def st spend_coin_def)
  ultimately have "applied [c] (s\<lparr>sp_flags := f\<rparr>, b, x) st'" by (blast intro: apply_match_applied)
  then show ?thesis by (simp add: applied_flags st)
qed

lemma apply_all_applied:
  "apply_all sha k mempool coin i cs st = Inr st' \<Longrightarrow> frame_ok sha coin st \<Longrightarrow> applied cs st st'"
proof (induction cs arbitrary: i st)
  case Nil
  then show ?case by (simp add: applied_Nil)
next
  case (Cons c cs)
  then obtain st1 where st1: "apply_parsed_condition sha k mempool coin c i st = Inr st1"
    "apply_all sha k mempool coin (i + 1) cs st1 = Inr st'" by auto
  from apply_parsed_condition_applied [OF st1(1) Cons.prems(2)] have a: "applied [c] st st1" .
  from Cons.IH [OF st1(2) frame_ok_applied [OF Cons.prems(2) a]] applied_append [OF a] show ?case by fastforce
qed

text \<open>The conditions in a list of the arena, in order; a negative lock is skipped.\<close>

inductive conditions_read :: "arena \<Rightarrow> node_ptr \<Rightarrow> condition_with_args list \<Rightarrow> bool" for a where
  read_end: "next_of a p = None \<Longrightarrow> conditions_read a p []"
| read_skip: "next_of a p = Some (c, r) \<Longrightarrow> arena_condition a c = Some (Inr None) \<Longrightarrow> conditions_read a r cs \<Longrightarrow>
    conditions_read a p cs"
| read_one: "next_of a p = Some (c, r) \<Longrightarrow> arena_condition a c = Some (Inr (Some x)) \<Longrightarrow> conditions_read a r cs \<Longrightarrow>
    conditions_read a p (x # cs)"

lemma arena_conditions_loop_applied:
  assumes "arena_conditions_loop sha k mempool coin max_cost a p i st = Some r"
  shows "\<forall>st'. r = Inr st' \<longrightarrow> frame_ok sha coin st \<longrightarrow> (\<exists>cs. conditions_read a p cs \<and> applied cs st st')"
  using assms
proof (induction rule: arena_conditions_loop.raw_induct [rotated, consumes 1])
  case (1 loop sha k mempool coin max_cost a p i st r)
  show ?case
  proof (cases "next_of a p")
    case None
    with 1(2) show ?thesis by (auto intro: read_end applied_Nil)
  next
    case (Some y)
    obtain c rest where y: "next_of a p = Some (c, rest)" using Some by (cases y) auto
    note body = 1(2) [unfolded y]
    show ?thesis
    proof (intro allI impI)
      fix st' assume r: "r = Inr st'" and f: "frame_ok sha coin st"
      from body r obtain z where z: "arena_condition a c = Some (Inr z)"
        by (auto split: Option.bind_splits sum.splits)
      show "\<exists>cs. conditions_read a p cs \<and> applied cs st st'"
      proof (cases z)
        case None
        with z body have "loop sha k mempool coin max_cost a rest i st = Some r" by simp
        from 1(1) [OF this] r f obtain cs where "conditions_read a rest cs" "applied cs st st'" by auto
        with y z None show ?thesis by (auto intro: read_skip)
      next
        case (Some x)
        with z body r obtain s1 b1 x1 run where st1: "apply_parsed_condition sha k mempool coin x i st = Inr (s1, b1, x1)"
          "checked_add (sb_cost b1) x1 = Some run" "\<not> run > max_cost"
          "loop sha k mempool coin max_cost a rest (i + 1) (s1, b1, x1) = Some r"
          by (auto split: sum.splits prod.splits option.splits if_splits)
        have a1: "applied [x] st (s1, b1, x1)" by (rule apply_parsed_condition_applied [OF st1(1) f])
        from 1(1) [OF st1(4)] r frame_ok_applied [OF f a1]
        obtain cs where "conditions_read a rest cs" "applied cs (s1, b1, x1) st'" by auto
        with y z Some applied_append [OF a1] show ?thesis by (fastforce intro: read_one)
      qed
    qed
  qed
qed

end
