(* ===== verification/Books.thy ===== *)
theory Books
  imports SpendSound
begin

text \<open>
  The books of a block: while spends are collected, the totals are the sums over the spends and over their
  conditions, and no coin is spent or created twice.
\<close>

text \<open>What the record of one spend says of its conditions.\<close>

definition accounted :: "hash_fn \<Rightarrow> spend \<Rightarrow> condition_with_args list \<Rightarrow> bool" where
  "accounted sha s cs \<longleftrightarrow> sp_coin_id s = coin_name sha (spend_coin s) \<and>
     map coin_pair (create_coin s) = concat (map outputs_of cs) \<and>
     unat (condition_cost s) = sum_list (map cost_of cs) \<and>
     birth_height s = foldl birth_height_of None cs \<and> birth_seconds s = foldl birth_seconds_of None cs \<and>
     spoken cs (new_spend sha (spend_coin s) False) s"

definition total :: "(condition_with_args \<Rightarrow> nat) \<Rightarrow> condition_with_args list list \<Rightarrow> nat" where
  "total f css = sum_list (map (\<lambda>cs. sum_list (map f cs)) css)"

lemma total_snoc [simp]: "total f (css @ [cs]) = total f css + sum_list (map f cs)"
  by (simp add: total_def)

lemma total_Nil [simp]: "total f [] = 0"
  by (simp add: total_def)

text \<open>The spends with their conditions, each pair satisfying \<open>src\<close>; \<open>base\<close> is the cost before the first spend.\<close>

definition books :: "hash_fn \<Rightarrow> (spend \<Rightarrow> condition_with_args list \<Rightarrow> bool) \<Rightarrow> nat \<Rightarrow> condition_with_args list list \<Rightarrow>
    collect_state \<Rightarrow> bool" where
  "books sha src base css st \<longleftrightarrow> (case st of (conds, spent, created, x) \<Rightarrow>
     list_all2 (\<lambda>s cs. accounted sha s cs \<and> src s cs \<and> (\<forall>c \<in> set cs. kept c s conds)) (sb_spends conds) css \<and>
     unat (removal_amount conds) = sum_list (map (\<lambda>s. unat (sp_coin_amount s)) (sb_spends conds)) \<and>
     unat (addition_amount conds) = total created_amount css \<and>
     unat (reserve_fee conds) = total fee_of css \<and>
     unat (sb_cost conds) = base + sum_list (map (\<lambda>s. unat (execution_cost s)) (sb_spends conds)) \<and>
     unat x = total cost_of css \<and>
     spent = set (map sp_coin_id (sb_spends conds)) \<and> distinct (map sp_coin_id (sb_spends conds)) \<and>
     created = set (concat (map (output_ids sha) (sb_spends conds))) \<and>
     distinct (concat (map (output_ids sha) (sb_spends conds))))"

lemma books_empty: "books sha src (unat cost) [] (empty_conditions cost, {}, {}, 0)"
  by (simp add: books_def empty_conditions_def)

lemma insert_created_Inr:
  "insert_created sha s cs created = Inr created' \<Longrightarrow>
     created' = created \<union> set (map (\<lambda>c. coin_name sha (created_coin s c)) cs) \<and>
     distinct (map (\<lambda>c. coin_name sha (created_coin s c)) cs) \<and>
     created \<inter> set (map (\<lambda>c. coin_name sha (created_coin s c)) cs) = {}"
  by (induction cs arbitrary: created) (auto simp: Let_def split: if_splits)

lemma finalize_spend_other:
  "kept c (finalize_spend s x x0 m) b = kept c s b" "create_coin (finalize_spend s x x0 m) = create_coin s"
  "spend_coin (finalize_spend s x x0 m) = spend_coin s" "sp_coin_id (finalize_spend s x x0 m) = sp_coin_id s"
  "birth_height (finalize_spend s x x0 m) = birth_height s" "birth_seconds (finalize_spend s x x0 m) = birth_seconds s"
  "execution_cost (finalize_spend s x x0 m) = execution_cost s"
  "condition_cost (finalize_spend s x x0 m) = saturating_sub x x0"
  "sp_parent_id (finalize_spend s x x0 m) = sp_parent_id s" "sp_puzzle_hash (finalize_spend s x x0 m) = sp_puzzle_hash s"
  "sp_coin_amount (finalize_spend s x x0 m) = sp_coin_amount s"
  "spoken cs s0 (finalize_spend s x x0 m) = spoken cs s0 s"
  by (cases c; simp add: finalize_spend_def Let_def spend_coin_def)
    (simp_all add: finalize_spend_def Let_def spend_coin_def spoken_def)

lemma kept_execution [simp]: "kept c (s\<lparr>execution_cost := e\<rparr>) b = kept c s b"
  by (cases c) simp_all

lemma sum_outputs:
  "map coin_pair ns = concat (map outputs_of cs) \<Longrightarrow> sum_list (map (\<lambda>n. unat (nc_amount n)) ns) = sum_list (map created_amount cs)"
proof -
  assume "map coin_pair ns = concat (map outputs_of cs)"
  then have "sum_list (map (unat \<circ> snd) (map coin_pair ns)) = sum_list (map (unat \<circ> snd) (concat (map outputs_of cs)))" by simp
  moreover have "sum_list (map (unat \<circ> snd) (outputs_of c)) = created_amount c" for c by (cases c) simp_all
  then have "sum_list (map (unat \<circ> snd) (concat (map outputs_of cs))) = sum_list (map created_amount cs)"
    by (induction cs) simp_all
  ultimately show ?thesis by (simp add: coin_pair_def comp_def)
qed

lemma new_spend_simps [simp]:
  "create_coin (new_spend sha coin m) = []" "birth_height (new_spend sha coin m) = None"
  "birth_seconds (new_spend sha coin m) = None" "spend_coin (new_spend sha coin m) = coin"
  "sp_coin_id (new_spend sha coin m) = coin_name sha coin"
  by (simp_all add: new_spend_def spend_coin_def)

lemma spoken_new: "spoken cs (new_spend sha coin m) s \<longleftrightarrow> spoken cs (new_spend sha coin m') s"
  by (simp add: spoken_def new_spend_def)

lemma spoken_execution [simp]: "spoken cs s0 (s\<lparr>execution_cost := e\<rparr>) = spoken cs s0 s"
  by (simp add: spoken_def)

text \<open>One more spend.\<close>

lemma books_step:
  assumes books: "books sha src base css (conds, spent, created, x)"
    and fresh: "coin_name sha coin \<notin> spent"
    and cost: "unat cost = unat (sb_cost conds) + unat e"
    and start: "start_spend sha coin mempool (conds\<lparr>sb_cost := cost\<rparr>) x = Inr st"
    and appl: "applied cs st (s, b, x')"
    and push: "push_spend sha (insert (coin_name sha coin) spent) created
      ((finalize_spend s x' x mempool)\<lparr>execution_cost := e\<rparr>, b, x') = Inr st'"
    and src: "src ((finalize_spend s x' x mempool)\<lparr>execution_cost := e\<rparr>) cs"
  shows "books sha src base (css @ [cs]) st'"
proof -
  define f where "f = (finalize_spend s x' x mempool)\<lparr>execution_cost := e\<rparr>"
  from start obtain rem where rem: "checked_add (removal_amount conds) (ucast (amount coin)) = Some rem"
    "st = (new_spend sha coin mempool, conds\<lparr>sb_cost := cost, removal_amount := rem\<rparr>, x)"
    by (auto simp: start_spend_def)
  have s: "spend_coin s = coin" "sp_coin_id s = coin_name sha coin"
    using appl by (simp_all add: applied_def grows_def rem(2))
  then have f: "spend_coin f = coin" "sp_coin_id f = coin_name sha coin" "create_coin f = create_coin s"
    "execution_cost f = e" "sp_coin_amount f = amount coin"
    by (auto simp: f_def finalize_spend_other spend_coin_def)
  have cnt: "same_counts cs st (s, b, x')" and fr: "same_frame st (s, b, x')" and g: "grows (fst st) (fst (snd st)) s b"
    and k: "\<forall>c \<in> set cs. kept c s b"
    using appl by (simp_all add: applied_def)
  have "spoken cs (new_spend sha coin mempool) s" using cnt by (simp add: same_counts_def rem(2))
  then have "spoken cs (new_spend sha coin False) f" 
    by (simp add: f_def finalize_spend_other spoken_new [of cs sha coin False _ mempool])
  then have acc: "accounted sha f cs"
    using cnt s by (simp add: accounted_def f f_def finalize_spend_other same_counts_def rem(2) unat_saturating_sub)
      (simp add: spend_coin_def finalize_spend_def Let_def)
  from push obtain created' where c': "insert_created sha f (create_coin s) created = Inr created'"
    "st' = (b\<lparr>sb_spends := sb_spends b @ [f]\<rparr>, insert (coin_name sha coin) spent, created', x')"
    by (auto simp: push_spend_def f_def [symmetric] f)
  have ids: "created' = created \<union> set (output_ids sha f)" "distinct (output_ids sha f)" "created \<inter> set (output_ids sha f) = {}"
    using insert_created_Inr [OF c'(1)] by (simp_all add: output_ids_def f)
  have sp: "sb_spends b = sb_spends conds" "sb_cost b = cost" "removal_amount b = rem"
    using fr by (simp_all add: same_frame_def rem(2))
  have gb: "grows_block conds b" using g by (simp add: grows_def grows_block_def rem(2))
  have old: "kept c s0 conds \<Longrightarrow> kept c s0 b" for c s0
  proof -
    assume "kept c s0 conds"
    moreover have "grows s0 conds s0 b"
      using gb by (simp add: grows_def grows_locks_def grows_sigs_def grows_facts_def grows_links_def)
    ultimately show ?thesis by (rule grows_keeps [rotated])
  qed
  have new: "\<forall>c \<in> set cs. kept c f b" using k by (simp add: f_def finalize_spend_other)
  have kb: "kept c s0 (b\<lparr>sb_spends := z\<rparr>) = kept c s0 b" for c s0 z by (cases c) simp_all
  have "list_all2 (\<lambda>s cs. accounted sha s cs \<and> src s cs \<and> (\<forall>c \<in> set cs. kept c s b)) (sb_spends conds) css"
    using books by (auto simp: books_def elim!: list_all2_mono intro: old)
  then show ?thesis
    using books acc new src cnt ids fresh cost unat_checked_add [OF rem(1)] rem(2)
    by (auto simp: books_def c'(2) sp kb f f_def [symmetric] list_all2_appendI same_counts_def)
qed

section \<open>The three ways to collect spends\<close>

text \<open>
  Where the conditions of a spend come from when its puzzle runs in a block: the puzzle and the solution, the run of
  the interpreter under some limit, and the conditions read from its arena. \<open>ok\<close> relates the spend and its puzzle.
\<close>

definition from_run :: "('a1, 'p1, 'p2) dialect \<Rightarrow> u32 \<Rightarrow> (spend \<Rightarrow> sexp \<Rightarrow> bool) \<Rightarrow> spend \<Rightarrow> condition_with_args list \<Rightarrow> bool" where
  "from_run d flags ok s cs \<longleftrightarrow> (\<exists>limit puzzle solution rt p. ok s puzzle \<and>
     run_in_arena (new_runtime (d\<lparr>dialect_flags := flags\<rparr>) limit) puzzle solution = Some (rt, Inr (execution_cost s, p)) \<and>
     conditions_read (rt_arena rt) p cs)"

text \<open>Where they come from when they are in the tree already.\<close>

definition from_tree :: "spend \<Rightarrow> condition_with_args list \<Rightarrow> bool" where
  "from_tree s cs \<longleftrightarrow> (\<exists>t. conditions_try_from t = Inr cs) \<and> execution_cost s = 0"

lemma start_frame: "start_spend sha coin m conds x = Inr st \<Longrightarrow> frame_ok sha coin st"
  by (auto simp: start_spend_def frame_ok_def)

lemma run_spend_books:
  assumes "run_spend d flags k max_cost parts coin st = Some (Inr st')"
    and "books (dialect_sha256 d) (from_run d flags ok) base css st"
    and "\<And>s. spend_coin s = coin \<Longrightarrow> ok s (parts ! 1)"
  shows "\<exists>cs. books (dialect_sha256 d) (from_run d flags ok) base (css @ [cs]) st'"
proof -
  define sha where "sha = dialect_sha256 d"
  obtain conds spent created x where st: "st = (conds, spent, created, x)" by (metis prod_cases4)
  from assms(1) obtain left rt e p cost s b x' where r: "coin_name sha coin \<notin> spent"
    "run_in_arena (new_runtime (d\<lparr>dialect_flags := flags\<rparr>) left) (parts ! 1) (parts ! 3) = Some (rt, Inr (e, p))"
    "checked_add (sb_cost conds) e = Some cost"
    "parse_and_apply_spend_from_arena sha k (rt_arena rt) p coin (conds\<lparr>sb_cost := cost\<rparr>) x max_cost False =
       Some (Inr (s, b, x'))"
    "push_spend sha (insert (coin_name sha coin) spent) created (s\<lparr>execution_cost := e\<rparr>, b, x') = Inr st'"
    by (auto simp: run_spend_def st sha_def [symmetric] Let_def bind_opt_eq_Inr split: if_splits option.splits
        Option.bind_splits sum.splits prod.splits)
  from r(4) obtain st0 s0 where st0: "start_spend sha coin False (conds\<lparr>sb_cost := cost\<rparr>) x = Inr st0"
    "arena_conditions_loop sha k False coin max_cost (rt_arena rt) p 0 st0 = Some (Inr (s0, b, x'))"
    "s = finalize_spend s0 x' x False"
    by (auto simp: parse_and_apply_spend_from_arena_def bind_opt_eq_Inr split: sum.splits)
  from arena_conditions_loop_applied [OF st0(2)] start_frame [OF st0(1)]
  obtain cs where cs: "conditions_read (rt_arena rt) p cs" "applied cs st0 (s0, b, x')" by auto
  have "spend_coin s0 = coin" using frame_ok_applied [OF start_frame [OF st0(1)] cs(2)] by (simp add: frame_ok_def)
  then have "spend_coin (s\<lparr>execution_cost := e\<rparr>) = coin" by (simp add: st0(3) spend_coin_def finalize_spend_other)
  from assms(3) [OF this] cs(1) r(2) have src: "from_run d flags ok (s\<lparr>execution_cost := e\<rparr>) cs"
    unfolding from_run_def by fastforce
  from books_step [OF assms(2) [unfolded st sha_def [symmetric]] r(1) unat_checked_add [OF r(3)] st0(1) cs(2)
      r(5) [unfolded st0(3)]] src st0(3)
  show ?thesis by (auto simp: sha_def)
qed

text \<open>The pairing of spends and reveal hashes: the hash that a spend takes is that of its reveal.\<close>

definition hashes_match :: "hash_fn \<Rightarrow> bytes list \<Rightarrow> sexp list \<Rightarrow> bool" where
  "hashes_match sha hs ss \<longleftrightarrow> (\<forall>i < min (length hs) (length ss). length (ref_list (ss ! i)) \<ge> 4 \<longrightarrow>
     hs ! i = tree_hash sha (ref_list (ss ! i) ! 1))"

lemma hashes_match_Cons:
  "hashes_match sha hs (s # ss) \<longleftrightarrow>
     (hs \<noteq> [] \<and> length (ref_list s) \<ge> 4 \<longrightarrow> hd hs = tree_hash sha (ref_list s ! 1)) \<and> hashes_match sha (tl hs) ss"
  by (cases hs) (auto simp: hashes_match_def All_less_Suc2 nth_Cons')

definition commits :: "hash_fn \<Rightarrow> spend \<Rightarrow> sexp \<Rightarrow> bool" where
  "commits sha s puzzle \<longleftrightarrow> sp_puzzle_hash s = tree_hash sha puzzle"

lemma generator_loop_books:
  "generator_loop d flags k max_cost hs ss st = Some (Inr st') \<Longrightarrow>
   books (dialect_sha256 d) (from_run d flags (commits (dialect_sha256 d))) base css st \<Longrightarrow>
   hashes_match (dialect_sha256 d) hs ss \<Longrightarrow>
   \<exists>css'. books (dialect_sha256 d) (from_run d flags (commits (dialect_sha256 d))) base css' st'"
proof (induction ss arbitrary: hs st css)
  case Nil
  then show ?case by auto
next
  case (Cons s ss)
  define sha where "sha = dialect_sha256 d"
  let ?h = "case hs of [] \<Rightarrow> None | h # _ \<Rightarrow> Some h"
  from Cons.prems(1) obtain coin st1 where c: "length (ref_list s) \<ge> 4" "generator_coin sha ?h (ref_list s) = Inr coin"
    "run_spend d flags k max_cost (ref_list s) coin st = Some (Inr st1)"
    "generator_loop d flags k max_cost (tl hs) ss st1 = Some (Inr st')"
    by (auto simp: Let_def sha_def bind_opt_eq_Inr split: if_splits)
  from c(1,2) Cons.prems(3) have ph: "puzzle_hash coin = tree_hash sha (ref_list s ! 1)"
    by (cases hs) (auto simp: generator_coin_def hashes_match_Cons sha_def)
  then have "spend_coin s' = coin \<Longrightarrow> commits sha s' (ref_list s ! 1)" for s' by (auto simp: commits_def spend_coin_def)
  from run_spend_books [OF c(3) Cons.prems(2), folded sha_def, OF this]
  obtain cs where "books (dialect_sha256 d) (from_run d flags (commits (dialect_sha256 d))) base (css @ [cs]) st1"
    by (auto simp: sha_def)
  from Cons.IH [OF c(4) this] Cons.prems(3) show ?case by (simp add: hashes_match_Cons)
qed

lemma processed_loop_books:
  "processed_loop sha k ss st = Inr st' \<Longrightarrow> books sha from_tree base css st \<Longrightarrow> \<exists>css'. books sha from_tree base css' st'"
proof (induction ss arbitrary: st css)
  case Nil
  then show ?case by auto
next
  case (Cons t ss)
  obtain conds spent created x where st: "st = (conds, spent, created, x)" by (metis prod_cases4)
  from Cons.prems(1) obtain coin cs s b x' st1 where c: "coin_name sha coin \<notin> spent"
    "conditions_try_from (ref_list t ! 3) = Inr cs"
    "spend_from_conditions sha k coin cs conds x False = Inr (s, b, x')"
    "push_spend sha (insert (coin_name sha coin) spent) created (s, b, x') = Inr st1"
    "processed_loop sha k ss st1 = Inr st'"
    by (auto simp: st Let_def split: if_splits)
  from c(3) obtain st0 s0 where st0: "start_spend sha coin False conds x = Inr st0"
    "apply_all sha k False coin 0 cs st0 = Inr (s0, b, x')" "s = finalize_spend s0 x' x False"
    by (auto simp: spend_from_conditions_def)
  have ap: "applied cs st0 (s0, b, x')" by (rule apply_all_applied [OF st0(2) start_frame [OF st0(1)]])
  have e: "execution_cost s = 0"
    using ap st0(1) by (auto simp: st0(3) finalize_spend_other applied_def same_frame_def start_spend_def new_spend_def)
  then have s: "s = s\<lparr>execution_cost := 0\<rparr>" by simp
  have conds: "conds = conds\<lparr>sb_cost := sb_cost conds\<rparr>" by simp
  have "from_tree (s\<lparr>execution_cost := 0\<rparr>) cs" using c(2) by (auto simp: from_tree_def)
  moreover have "unat (sb_cost conds) = unat (sb_cost conds) + unat (0 :: u64)" by simp
  moreover have "push_spend sha (insert (coin_name sha coin) spent) created (s\<lparr>execution_cost := 0\<rparr>, b, x') = Inr st1"
    using c(4) s by simp
  moreover have "start_spend sha coin False (conds\<lparr>sb_cost := sb_cost conds\<rparr>) x = Inr st0" using st0(1) by simp
  ultimately have "books sha from_tree base (css @ [cs]) st1"
    using books_step [OF Cons.prems(2) [unfolded st] c(1), of "sb_cost conds" 0 False st0 cs s0 b x' st1] ap st0(3) by auto
  from Cons.IH [OF c(5) this] show ?case .
qed

text \<open>Where the conditions of a bundle come from: the run of the reveal on the solution, read as a tree.\<close>

definition from_program :: "('a1, 'p1, 'p2) dialect \<Rightarrow> u32 \<Rightarrow> spend \<Rightarrow> condition_with_args list \<Rightarrow> bool" where
  "from_program d flags s cs \<longleftrightarrow> (\<exists>limit puzzle solution out. commits (dialect_sha256 d) s puzzle \<and>
     program_run d limit flags puzzle solution = Some (Inr (execution_cost s, out)) \<and> conditions_try_from out = Inr cs)"

definition cache_ok :: "hash_fn \<Rightarrow> (bytes \<rightharpoonup> bytes) \<Rightarrow> bool" where
  "cache_ok sha cache \<longleftrightarrow> (\<forall>bs h. cache bs = Some h \<longrightarrow> (\<forall>t. parse_program bs = Inr t \<longrightarrow> h = tree_hash sha t))"

lemma bundle_loop_books:
  "bundle_loop d flags k cache ss st = Some (Inr st') \<Longrightarrow> cache_ok (dialect_sha256 d) cache \<Longrightarrow>
   books (dialect_sha256 d) (from_program d flags) base css st \<Longrightarrow>
   \<exists>css'. books (dialect_sha256 d) (from_program d flags) base css' st'"
proof (induction ss arbitrary: cache st css)
  case Nil
  then show ?case by auto
next
  case (Cons c ss)
  define sha where "sha = dialect_sha256 d"
  obtain conds spent created x where st: "st = (conds, spent, created, x)" by (metis prod_cases4)
  let ?coin = "cs_coin c"
  from Cons.prems(1) obtain puzzle solution h left e out cost cs s b x' st1 where p: "parse_program (cs_puzzle_reveal c) = Inr puzzle"
    "h = (case cache (cs_puzzle_reveal c) of Some h \<Rightarrow> h | None \<Rightarrow> tree_hash sha puzzle)"
    "h = puzzle_hash ?coin" "coin_name sha ?coin \<notin> spent"
    "program_run d left flags puzzle solution = Some (Inr (e, out))"
    "checked_add (sb_cost conds) e = Some cost" "conditions_try_from out = Inr cs"
    "spend_from_conditions sha k ?coin cs (conds\<lparr>sb_cost := cost\<rparr>) x True = Inr (s, b, x')"
    "push_spend sha (insert (coin_name sha ?coin) spent) created (s\<lparr>execution_cost := e\<rparr>, b, x') = Inr st1"
    "bundle_loop d flags k (cache(cs_puzzle_reveal c \<mapsto> h)) ss st1 = Some (Inr st')"
    by (auto simp: st Let_def sha_def [symmetric] bind_opt_eq_Inr simp del: parse_program.simps split: if_splits)
  from p(1,2) Cons.prems(2) have h: "h = tree_hash sha puzzle"
    by (auto simp: cache_ok_def sha_def simp del: parse_program.simps split: option.splits)
  from p(8) obtain st0 s0 where st0: "start_spend sha ?coin True (conds\<lparr>sb_cost := cost\<rparr>) x = Inr st0"
    "apply_all sha k True ?coin 0 cs st0 = Inr (s0, b, x')" "s = finalize_spend s0 x' x True"
    by (auto simp: spend_from_conditions_def)
  have ap: "applied cs st0 (s0, b, x')" by (rule apply_all_applied [OF st0(2) start_frame [OF st0(1)]])
  have "spend_coin s0 = ?coin" using frame_ok_applied [OF start_frame [OF st0(1)] ap] by (simp add: frame_ok_def)
  then have "puzzle_hash (spend_coin s0) = puzzle_hash ?coin" by simp
  then have "sp_puzzle_hash (s\<lparr>execution_cost := e\<rparr>) = puzzle_hash ?coin"
    by (simp add: st0(3) spend_coin_def finalize_spend_other)
  with h p(3,5,7) have src: "from_program d flags (s\<lparr>execution_cost := e\<rparr>) cs"
    unfolding from_program_def commits_def sha_def
    by (intro exI [of _ left] exI [of _ puzzle] exI [of _ solution] exI [of _ out]) simp
  from books_step [OF Cons.prems(3) [unfolded st, folded sha_def] p(4) unat_checked_add [OF p(6)] st0(1) ap
      p(9) [unfolded st0(3)]] src st0(3)
  have b1: "books sha (from_program d flags) base (css @ [cs]) st1" by simp
  have "cache_ok sha (cache(cs_puzzle_reveal c \<mapsto> h))"
    using Cons.prems(2) h p(1) by (auto simp: cache_ok_def sha_def simp del: parse_program.simps)
  from Cons.IH [OF p(10) this [unfolded sha_def] b1 [unfolded sha_def]] show ?case .
qed

end
