(* ===== verification/BlockLaw.thy ===== *)
theory BlockLaw
  imports SpendSound
begin

text \<open>
  The conditions that need the whole block or the chain, as a specification without any order of checks, and
  the proof that \<^verbatim>\<open>validate_block_conditions\<close> decides it.
\<close>

section \<open>The specification\<close>

text \<open>
  Locks relative to the birth of the coin, in the arithmetic of natural numbers. A lower bound beyond the largest
  height or time is not enforced by the code, which is what the side conditions say.
\<close>

definition locks_open :: "spend \<Rightarrow> coin_spend_context \<Rightarrow> condition_validation_context \<Rightarrow> bool" where
  "locks_open s cc ctx \<longleftrightarrow>
     (\<forall>h. birth_height s = Some h \<longrightarrow> ctx_birth_height cc = Some h) \<and>
     (\<forall>t. birth_seconds s = Some t \<longrightarrow> ctx_birth_seconds cc = Some t) \<and>
     (\<forall>h b. height_relative s = Some h \<longrightarrow> ctx_spent_height cc = Some b \<longrightarrow> unat b + unat h < 2 ^ 32 \<longrightarrow>
        unat b + unat h \<le> unat (ctx_block_height ctx)) \<and>
     (\<forall>h b. before_height_relative s = Some h \<longrightarrow> ctx_spent_height cc = Some b \<longrightarrow>
        unat (ctx_block_height ctx) < unat b + unat h) \<and>
     (\<forall>now. ctx_timestamp ctx = Some now \<longrightarrow>
        (\<forall>t b. seconds_relative s = Some t \<longrightarrow> ctx_spent_seconds cc = Some b \<longrightarrow> unat b + unat t < 2 ^ 64 \<longrightarrow>
           unat b + unat t \<le> unat now) \<and>
        (\<forall>t b. before_seconds_relative s = Some t \<longrightarrow> ctx_spent_seconds cc = Some b \<longrightarrow> unat now < unat b + unat t))"

definition absolute_ok :: "spend_bundle_conditions \<Rightarrow> condition_validation_context \<Rightarrow> bool" where
  "absolute_ok conds ctx \<longleftrightarrow> height_absolute conds \<le> ctx_block_height ctx \<and>
     (\<forall>b. before_height_absolute conds = Some b \<longrightarrow> ctx_block_height ctx < b) \<and>
     (\<forall>now. ctx_timestamp ctx = Some now \<longrightarrow> seconds_absolute conds \<le> now \<and>
        (\<forall>b. before_seconds_absolute conds = Some b \<longrightarrow> now < b))"

definition announced :: "hash_fn \<Rightarrow> spend list \<Rightarrow> bool" where
  "announced sha ss \<longleftrightarrow>
     (\<forall>s \<in> set ss. \<forall>a \<in> set (assert_coin_announcements s). \<exists>s' \<in> set ss. \<exists>msg \<in> set (create_coin_announcements s').
        a = sha (sp_coin_id s' @ msg)) \<and>
     (\<forall>s \<in> set ss. \<forall>a \<in> set (assert_puzzle_announcements s). \<exists>s' \<in> set ss. \<exists>msg \<in> set (create_puzzle_announcements s').
        a = sha (sp_puzzle_hash s' @ msg))"

definition accompanied :: "spend list \<Rightarrow> bool" where
  "accompanied ss \<longleftrightarrow>
     (\<forall>s \<in> set ss. set (assert_concurrent_spend s) \<subseteq> sp_coin_id ` set ss) \<and>
     (\<forall>s \<in> set ss. set (assert_concurrent_puzzle s) \<subseteq> sp_puzzle_hash ` set ss) \<and>
     (\<forall>s \<in> set ss. assert_ephemeral s \<longrightarrow> (\<exists>s' \<in> set ss. sp_coin_id s' = sp_parent_id s \<and>
        (\<exists>c \<in> set (create_coin s'). nc_puzzle_hash c = sp_puzzle_hash s \<and> nc_amount c = sp_coin_amount s)))"

text \<open>Every message that is sent is received, and as often.\<close>

definition delivered :: "spend list \<Rightarrow> bool" where
  "delivered ss \<longleftrightarrow>
     mset (concat (map (\<lambda>s. map (sent_key s) (sent_messages s)) ss)) =
     mset (concat (map (\<lambda>s. map (received_key s) (received_messages s)) ss))"

definition lawful :: "hash_fn \<Rightarrow> spend_bundle_conditions \<Rightarrow> condition_validation_context \<Rightarrow> bool" where
  "lawful sha conds ctx \<longleftrightarrow> (let ss = sb_spends conds in
     absolute_ok conds ctx \<and> distinct (map sp_coin_id ss) \<and> distinct (concat (map (output_ids sha) ss)) \<and>
     (\<forall>s \<in> set ss. \<forall>cc. coin_context ctx (sp_coin_id s) = Some cc \<longrightarrow> locks_open s cc ctx) \<and>
     announced sha ss \<and> accompanied ss \<and> delivered ss)"

section \<open>Locks\<close>

lemma opt_fails_iff: "opt_fails x p \<longleftrightarrow> (\<exists>v. x = Some v \<and> p v)"
  by (cases x) (auto simp: opt_fails_def)

lemma due_and_Some:
  "due_and (Some b) h p \<longleftrightarrow> unat b + unat h < 2 ^ LENGTH('a) \<and> p (b + (h :: 'a::len word))"
  by (simp add: due_and_def checked_add_def)

lemma due_and_None [simp]: "\<not> due_and None h p"
  by (simp add: due_and_def)

lemma due_later: "due_and (Some b) h (\<lambda>r. now < r) \<longleftrightarrow>
    unat b + unat h < 2 ^ LENGTH('a) \<and> unat (now :: 'a::len word) < unat b + unat h"
  by (cases "unat b + unat h < 2 ^ LENGTH('a)") (simp_all add: due_and_Some word_less_nat_alt unat_add_small)

lemma due_now: "due_and (Some b) h (\<lambda>r. now \<ge> r) \<longleftrightarrow> unat b + unat h \<le> unat (now :: 'a::len word)"
proof -
  have "unat now < 2 ^ LENGTH('a)" by (rule unsigned_less)
  then have "unat b + unat h \<le> unat now \<Longrightarrow> unat b + unat h < 2 ^ LENGTH('a)" by linarith
  then show ?thesis
    by (cases "unat b + unat h < 2 ^ LENGTH('a)") (auto simp: due_and_Some word_le_nat_alt unat_add_small)
qed

lemma lower_lock:
  "opt_fails x (\<lambda>h. due_and base h (\<lambda>r. now < r)) \<longleftrightarrow>
     \<not> (\<forall>h b. x = Some h \<longrightarrow> base = Some b \<longrightarrow> unat b + unat h < 2 ^ LENGTH('a) \<longrightarrow> unat b + unat h \<le> unat (now :: 'a::len word))"
  by (cases x; cases base) (auto simp: opt_fails_def due_later not_le)

lemma upper_lock:
  "opt_fails x (\<lambda>h. due_and base h (\<lambda>r. now \<ge> r)) \<longleftrightarrow>
     \<not> (\<forall>h b. x = Some h \<longrightarrow> base = Some b \<longrightarrow> unat (now :: 'a::len word) < unat b + unat h)"
  by (cases x; cases base) (auto simp: opt_fails_def due_now not_le)

lemma birth_check: "opt_fails x (\<lambda>e. y \<noteq> Some e) \<longleftrightarrow> \<not> (\<forall>h. x = Some h \<longrightarrow> y = Some h)"
  by (auto simp: opt_fails_iff)

lemma validate_spend_context_iff: "validate_spend_context s cc ctx = Inr u \<longleftrightarrow> locks_open s cc ctx"
  unfolding validate_spend_context_def locks_open_def lower_lock upper_lock birth_check
  by (cases "ctx_timestamp ctx") simp_all

lemma validate_absolute_iff: "validate_absolute conds ctx = Inr u \<longleftrightarrow> absolute_ok conds ctx"
  by (cases "ctx_timestamp ctx") (auto simp: validate_absolute_def absolute_ok_def opt_fails_iff not_le not_less)

section \<open>The first pass\<close>

lemma insert_outputs_Inr:
  "insert_outputs sha s cs created = Inr created' \<longleftrightarrow>
     distinct (map (\<lambda>c. coin_name sha (created_coin s c)) cs) \<and>
     created \<inter> set (map (\<lambda>c. coin_name sha (created_coin s c)) cs) = {} \<and>
     created' = created \<union> set (map (\<lambda>c. coin_name sha (created_coin s c)) cs)"
  by (induction cs arbitrary: created) (auto simp: Let_def)

text \<open>What the pass gathers when it does not fail.\<close>

definition gathered :: "hash_fn \<Rightarrow> nat \<Rightarrow> spend list \<Rightarrow> block_facts \<Rightarrow> block_facts" where
  "gathered sha i ss f = f\<lparr>
     spent_ids := spent_ids f \<union> sp_coin_id ` set ss,
     spent_puzzles := spent_puzzles f \<union> sp_puzzle_hash ` set ss,
     coin_index := (coin_index f)(map sp_coin_id ss [\<mapsto>] [i..<i + length ss]),
     created_ids := created_ids f \<union> set (concat (map (output_ids sha) ss)),
     coin_announcements := coin_announcements f \<union> (\<Union>s \<in> set ss. (\<lambda>msg. sha (sp_coin_id s @ msg)) ` set (create_coin_announcements s)),
     puzzle_announcements := puzzle_announcements f \<union> (\<Union>s \<in> set ss. (\<lambda>msg. sha (sp_puzzle_hash s @ msg)) ` set (create_puzzle_announcements s)),
     asserted_coin := asserted_coin f @ concat (map assert_coin_announcements ss),
     asserted_puzzle := asserted_puzzle f @ concat (map assert_puzzle_announcements ss)\<rparr>"

lemma gathered_Nil: "gathered sha i [] f = f"
  by (simp add: gathered_def)

lemma upt_step: "[i..<i + length (s # ss)] = i # [i + 1..<i + 1 + length ss]"
  by (subst upt_conv_Cons) simp_all

lemma gathered_Cons:
  "gathered sha i (s # ss) f =
     gathered sha (i + 1) ss (collect_announcements sha s (f\<lparr>spent_ids := insert (sp_coin_id s) (spent_ids f),
       spent_puzzles := insert (sp_puzzle_hash s) (spent_puzzles f), coin_index := (coin_index f)(sp_coin_id s \<mapsto> i),
       created_ids := created_ids f \<union> set (output_ids sha s)\<rparr>))"
  unfolding gathered_def collect_announcements_def upt_step
  by (simp add: Un_assoc insert_def [symmetric] del: upt_Suc)

definition first_ok :: "hash_fn \<Rightarrow> condition_validation_context \<Rightarrow> spend list \<Rightarrow> block_facts \<Rightarrow> bool" where
  "first_ok sha ctx ss f \<longleftrightarrow> distinct (map sp_coin_id ss) \<and> spent_ids f \<inter> sp_coin_id ` set ss = {} \<and>
     distinct (concat (map (output_ids sha) ss)) \<and> created_ids f \<inter> set (concat (map (output_ids sha) ss)) = {} \<and>
     (\<forall>s \<in> set ss. \<forall>cc. coin_context ctx (sp_coin_id s) = Some cc \<longrightarrow> locks_open s cc ctx)"

lemma context_check:
  "(case coin_context ctx i of Some cc \<Rightarrow> validate_spend_context s cc ctx | None \<Rightarrow> Inr ()) = Inr u \<longleftrightarrow>
     (\<forall>cc. coin_context ctx i = Some cc \<longrightarrow> locks_open s cc ctx)"
  by (cases "coin_context ctx i") (simp_all add: validate_spend_context_iff)

lemma first_pass_iff:
  "first_pass sha ctx i ss f = Inr f' \<longleftrightarrow> first_ok sha ctx ss f \<and> f' = gathered sha i ss f"
proof (induction ss arbitrary: i f)
  case Nil
  show ?case by (auto simp: first_ok_def gathered_Nil)
next
  case (Cons s ss)
  let ?g = "collect_announcements sha s (f\<lparr>spent_ids := insert (sp_coin_id s) (spent_ids f),
       spent_puzzles := insert (sp_puzzle_hash s) (spent_puzzles f), coin_index := (coin_index f)(sp_coin_id s \<mapsto> i),
       created_ids := created_ids f \<union> set (output_ids sha s)\<rparr>)"
  have "first_pass sha ctx i (s # ss) f = Inr f' \<longleftrightarrow> sp_coin_id s \<notin> spent_ids f \<and>
      (\<forall>cc. coin_context ctx (sp_coin_id s) = Some cc \<longrightarrow> locks_open s cc ctx) \<and>
      distinct (output_ids sha s) \<and> created_ids f \<inter> set (output_ids sha s) = {} \<and>
      first_pass sha ctx (i + 1) ss ?g = Inr f'"
    by (simp add: Let_def bind_res_eq_Inr context_check insert_outputs_Inr output_ids_def)
  also have "\<dots> \<longleftrightarrow> first_ok sha ctx (s # ss) f \<and> f' = gathered sha i (s # ss) f"
    unfolding Cons.IH gathered_Cons by (auto simp: first_ok_def collect_announcements_def)
  finally show ?case .
qed


section \<open>The second pass\<close>

text \<open>A counter is the messages sent under a key, less those received.\<close>

definition balance :: "spend list \<Rightarrow> bytes \<Rightarrow> int" where
  "balance ss key = int (count_list (concat (map (\<lambda>s. map (sent_key s) (sent_messages s)) ss)) key) -
     int (count_list (concat (map (\<lambda>s. map (received_key s) (received_messages s)) ss)) key)"

lemma fold_bump: "fold (\<lambda>m. bump i (f m)) ms counts key = counts key + i * int (count_list (map f ms) key)"
  by (induction ms arbitrary: counts) (auto simp: bump_def algebra_simps)

lemma count_messages_balance: "count_messages s counts key = counts key + balance [s] key"
  by (simp add: count_messages_def fold_bump balance_def)

lemma balance_Cons: "balance (s # ss) key = balance [s] key + balance ss key"
  by (simp add: balance_def)

lemma count_messages_add: "count_messages s (\<lambda>k. counts k + g k) = (\<lambda>k. count_messages s counts k + g k)"
  by (simp add: fun_eq_iff count_messages_balance)

definition second_ok :: "block_facts \<Rightarrow> spend list \<Rightarrow> spend list \<Rightarrow> bool" where
  "second_ok f all ss \<longleftrightarrow>
     (\<forall>s \<in> set ss. set (assert_concurrent_spend s) \<subseteq> spent_ids f) \<and>
     (\<forall>s \<in> set ss. set (assert_concurrent_puzzle s) \<subseteq> spent_puzzles f) \<and>
     (\<forall>s \<in> set ss. assert_ephemeral s \<longrightarrow> is_ephemeral s (coin_index f) all)"

lemma second_pass_iff:
  "second_pass f all ss counts = Inr counts' \<longleftrightarrow> second_ok f all ss \<and> counts' = (\<lambda>key. counts key + balance ss key)"
proof (induction ss arbitrary: counts)
  case Nil
  show ?case by (auto simp: second_ok_def balance_def)
next
  case (Cons s ss)
  have "(\<lambda>key. count_messages s counts key + balance ss key) = (\<lambda>key. counts key + balance (s # ss) key)"
    by (simp add: fun_eq_iff count_messages_balance balance_Cons [of s ss])
  then show ?case
    by (auto simp: Cons.IH second_ok_def list_all_iff subset_iff)
qed

lemma delivered_iff: "delivered ss \<longleftrightarrow> (\<forall>key. balance ss key = 0)"
  by (simp add: delivered_def balance_def multiset_eq_iff count_mset)

lemma balance_other: "key \<notin> set (concat (map message_keys ss)) \<Longrightarrow> balance ss key = 0"
  by (auto simp: balance_def message_keys_def intro!: count_notin)

section \<open>The two passes together\<close>

lemma coin_index_find:
  assumes "distinct (map sp_coin_id ss)"
  shows "(Map.empty(map sp_coin_id ss [\<mapsto>] [0..<length ss])) i = Some j \<longleftrightarrow> j < length ss \<and> sp_coin_id (ss ! j) = i"
proof -
  let ?z = "rev (zip (map sp_coin_id ss) [0..<length ss])"
  have "distinct (map fst ?z)" using assms by (simp add: rev_map [symmetric])
  moreover have "(i, j) \<in> set ?z \<longleftrightarrow> j < length ss \<and> sp_coin_id (ss ! j) = i"
  proof
    assume "j < length ss \<and> sp_coin_id (ss ! j) = i"
    then show "(i, j) \<in> set ?z" by (auto simp: set_zip intro!: exI [of _ j])
  qed (auto simp: set_zip)
  ultimately show ?thesis using map_of_eq_Some_iff [of ?z i j] by (simp add: map_upds_def)
qed

lemma is_ephemeral_gathered:
  assumes "distinct (map sp_coin_id ss)"
  shows "is_ephemeral s (coin_index (gathered sha 0 ss no_facts)) ss \<longleftrightarrow>
    (\<exists>s' \<in> set ss. sp_coin_id s' = sp_parent_id s \<and>
        (\<exists>c \<in> set (create_coin s'). nc_puzzle_hash c = sp_puzzle_hash s \<and> nc_amount c = sp_coin_amount s))"
proof -
  let ?m = "Map.empty(map sp_coin_id ss [\<mapsto>] [0..<length ss])"
  let ?p = "\<lambda>s'. \<exists>c \<in> set (create_coin s'). nc_puzzle_hash c = sp_puzzle_hash s \<and> nc_amount c = sp_coin_amount s"
  have "coin_index (gathered sha 0 ss no_facts) = ?m" by (simp add: gathered_def no_facts_def)
  then have "is_ephemeral s (coin_index (gathered sha 0 ss no_facts)) ss \<longleftrightarrow> (\<exists>j. ?m (sp_parent_id s) = Some j \<and> ?p (ss ! j))"
    by (simp add: is_ephemeral_def split: option.split)
  also have "\<dots> \<longleftrightarrow> (\<exists>j < length ss. sp_coin_id (ss ! j) = sp_parent_id s \<and> ?p (ss ! j))"
    unfolding coin_index_find [OF assms] by blast
  finally show ?thesis by (metis in_set_conv_nth)
qed

lemma second_ok_gathered:
  "distinct (map sp_coin_id ss) \<Longrightarrow> second_ok (gathered sha 0 ss no_facts) ss ss \<longleftrightarrow> accompanied ss"
  by (simp add: second_ok_def accompanied_def is_ephemeral_gathered) (simp add: gathered_def no_facts_def)

lemma announced_gathered:
  "announced sha ss \<longleftrightarrow> (let f = gathered sha 0 ss no_facts in
     list_all (\<lambda>a. a \<in> coin_announcements f) (asserted_coin f) \<and>
     list_all (\<lambda>a. a \<in> puzzle_announcements f) (asserted_puzzle f))"
  by (simp add: announced_def gathered_def no_facts_def list_all_iff Let_def image_iff) 

lemma first_ok_empty:
  "first_ok sha ctx ss no_facts \<longleftrightarrow> distinct (map sp_coin_id ss) \<and> distinct (concat (map (output_ids sha) ss)) \<and>
     (\<forall>s \<in> set ss. \<forall>cc. coin_context ctx (sp_coin_id s) = Some cc \<longrightarrow> locks_open s cc ctx)"
  by (auto simp: first_ok_def no_facts_def)

lemma validate_block_conditions_iff:
  "validate_block_conditions sha conds ctx = Inr () \<longleftrightarrow> lawful sha conds ctx"
proof -
  let ?ss = "sb_spends conds"
  have keys: "list_all (\<lambda>key. balance ?ss key = 0) (concat (map message_keys ?ss)) \<longleftrightarrow> delivered ?ss"
    using balance_other [of _ ?ss] by (auto simp: delivered_iff list_all_iff)
  show ?thesis
    by (simp add: validate_block_conditions_def lawful_def bind_res_eq_Inr validate_absolute_iff first_pass_iff
        second_pass_iff keys Let_def ensure_eq_Inr announced_gathered first_ok_empty)
      (use second_ok_gathered in blast)
qed

end
