(* ===== verification/QuotedRuns.thy ===== *)
theory QuotedRuns
  imports ClvmEval
begin

text \<open>
  Runs of a quoted value: the interpreter returns the value at the cost of a quote, unless memory runs out; and a tree
  that fits below the ceilings of the arena does not run out of it.
\<close>

section \<open>Running a quoted value\<close>

lemma read_atom_kind: "den a p (Atom b) \<Longrightarrow> node_kind_of a p = AtomNode"
  by (erule den_AtomE) (auto simp: node_kind_of_def split: object_type.splits)

lemma run_in_arena_imported:
  assumes "import (reset_arena (rt_arena (new_runtime d m))) (Pair (Atom [1]) r) = (a1, Inr p)"
    "import a1 args = (a2, Inr q)" "contents_ok a2" "den a2 p (Pair (Atom [1]) r)"
  shows "\<exists>rt l. if 0 < m \<and> m < 20
    then run_in_arena (new_runtime d m) (Pair (Atom [1]) r) args = Some (rt, Inl (CostExceeded 20 m))
    else run_in_arena (new_runtime d m) (Pair (Atom [1]) r) args = Some (rt, Inr (20, l)) \<and> den (rt_arena rt) l r \<and>
      contents_ok (rt_arena rt)"
proof -
  let ?q = "Pair (Atom [1]) r"
  let ?rt = "new_runtime d m"
  from read_pair(1) [OF assms(4)] obtain f l where fl: "node_kind_of a2 p = PairNode f l" "den a2 f (Atom [1])" "den a2 l r" by auto
  have f: "node_kind_of a2 f = AtomNode" "arena_atom a2 f = Some quote_kw"
    using read_atom_kind [OF fl(2)] read_atom(1) [OF assms(3) fl(2)] by (auto simp: quote_kw_def)
  define rt0 where "rt0 = ?rt\<lparr>checkpoint_stack := [], rt_arena := a2, value_stack := [q, p], op_stack := [EvalOp]\<rparr>"
  define rt1 where "rt1 = ?rt\<lparr>checkpoint_stack := [], rt_arena := a2, value_stack := [l], op_stack := []\<rparr>"
  let ?m = "if m = 0 then - 1 else m"
  have step: "run_op EvalOp (rt0\<lparr>op_stack := []\<rparr>) x = Some (rt1, Inr QUOTE_COST)" for x
    using fl(1) f by (simp add: rt0_def rt1_def eval_op_def eval_pair_def eval_op_atom_def Let_def)
  have loop: "run_loop rt0 ?m 0 = (if QUOTE_COST > ?m then Some (rt1, Inl (CostExceeded QUOTE_COST m)) else Some (rt1, Inr QUOTE_COST))"
  proof -
    have "op_stack rt0 = [EvalOp]" "op_stack rt1 = []" "rt_max_cost rt1 = m" by (simp_all add: rt0_def rt1_def new_runtime_def)
    moreover from this have "run_loop rt1 ?m QUOTE_COST = Some (rt1, Inr QUOTE_COST)"
      by (subst run_loop.simps) (simp del: if_split)
    ultimately show ?thesis
      by (subst run_loop.simps) (simp only: list.case step option.case prod.case sum.case add_0)
  qed
  have "run_in_arena ?rt ?q args = map_option (\<lambda>(rt', r). case r of
      Inl e \<Rightarrow> (rt', Inl e) | Inr cost \<Rightarrow> (case value_stack rt' of [] \<Rightarrow> (rt', Inl ValueStackEmpty)
        | v # vs \<Rightarrow> (rt'\<lparr>value_stack := vs\<rparr>, Inr (cost, v)))) (run_loop rt0 ?m 0)"
    using assms(1,2)
    by (simp add: run_in_arena_def reset_runtime_def rt0_def Let_def new_runtime_def cong: if_cong)
  also have "\<dots> = (if QUOTE_COST > ?m then Some (rt1, Inl (CostExceeded QUOTE_COST m))
      else Some (rt1\<lparr>value_stack := []\<rparr>, Inr (QUOTE_COST, l)))"
    unfolding loop by (simp add: rt1_def)
  finally show ?thesis
    using fl(3) assms(3) by (auto simp: QUOTE_COST_def rt1_def word_neq_0_conv not_less split: if_splits)
qed

text \<open>The outcome of \<^verbatim>\<open>(q . r)\<close>: memory runs out, or the cost of a quote is too much, or the value is returned.\<close>

lemma run_in_arena_quote:
  "(\<exists>rt e. run_in_arena (new_runtime d m) (Pair (Atom [1]) r) args = Some (rt, Inl e) \<and> resource_error e) \<or>
   (\<exists>rt. run_in_arena (new_runtime d m) (Pair (Atom [1]) r) args = Some (rt, Inl (CostExceeded 20 m)) \<and> 0 < m \<and> m < 20) \<or>
   (\<exists>rt p. run_in_arena (new_runtime d m) (Pair (Atom [1]) r) args = Some (rt, Inr (20, p)) \<and> den (rt_arena rt) p r \<and>
      contents_ok (rt_arena rt))"
proof -
  let ?q = "Pair (Atom [1]) r"
  let ?rt = "new_runtime d m"
  let ?a0 = "reset_arena (rt_arena ?rt)"
  from import_outcome [OF new_arena_ok(1) [of "rt_arena ?rt"], of ?q] new_arena_ok(2) [of "rt_arena ?rt"]
  consider a1 e where "import ?a0 ?q = (a1, Inl e)" "resource_error e"
    | a1 p where "import ?a0 ?q = (a1, Inr p)" "indexed a1" "contents_ok a1" "den a1 p ?q" by blast
  then show ?thesis
  proof cases
    case 1
    then show ?thesis by (auto simp: run_in_arena_def reset_runtime_def Let_def)
  next
    case i1: 2
    from import_outcome [OF i1(2), of args] i1(3)
    consider a2 e where "import a1 args = (a2, Inl e)" "resource_error e"
      | a2 q where "import a1 args = (a2, Inr q)" "contents_ok a2" "grown a1 a2" by blast
    then show ?thesis
    proof cases
      case 1
      with i1 show ?thesis by (auto simp: run_in_arena_def reset_runtime_def Let_def)
    next
      case 2
      from run_in_arena_imported [OF i1(1) 2(1,2) grown_den [OF 2(3) i1(3,4)]] show ?thesis by (auto split: if_splits)
    qed
  qed
qed

lemma run_quote:
  assumes "run (new_runtime d m) (Pair (Atom [1]) r) args = Some (rt, Inr (cost, s))"
  shows "cost = 20" "s = r"
  using assms run_in_arena_quote [of d m r args] by (auto simp: run_def export_den)

section \<open>Trees that fit\<close>

text \<open>What a pool still has room for: atoms, pairs and bytes.\<close>

definition room :: "arena \<Rightarrow> nat \<Rightarrow> nat \<Rightarrow> nat \<Rightarrow> bool" where
  "room a da dp dh \<longleftrightarrow> length (atom_vec a) + ghost_atoms a + da \<le> MAX_NUM_ATOMS \<and>
     length (pair_vec a) + ghost_pairs a + dp \<le> MAX_NUM_PAIRS \<and> heap_used a + dh \<le> HEAP_LIMIT"

lemma room_charged: "charged a a' da dp dh \<Longrightarrow> room a' na np nh \<longleftrightarrow> room a (da + na) (dp + np) (dh + nh)"
  by (auto simp: room_def charged_def)

lemma room_mono: "room a da dp dh \<Longrightarrow> na \<le> da \<Longrightarrow> np \<le> dp \<Longrightarrow> nh \<le> dh \<Longrightarrow> room a na np nh"
  by (auto simp: room_def)

lemma atom_has_room: "room a 1 0 (length v) \<Longrightarrow> \<exists>r. new_atom a v = Inr r"
  by (auto simp: room_def new_atom_def Let_def check_atom_limit_def split: option.splits)

lemma new_pair_room: "room a 0 1 0 \<Longrightarrow> \<exists>r. new_pair a x y = Inr r"
  by (auto simp: room_def new_pair_def Let_def)

lemma import_loop_room:
  assumes "indexed a" "contents_ok a" "room a (n_atoms s) (n_pairs s) (n_bytes s)"
  shows "\<exists>a' p. import_loop (ImportVisit s # jobs) out a = import_loop jobs (p # out) a' \<and> indexed a' \<and> contents_ok a' \<and>
    grown a a' \<and> den a' p s \<and> charged a a' (n_atoms s) (n_pairs s) (n_bytes s)"
  using assms
proof (induction s arbitrary: jobs out a)
  case (Atom b)
  from Atom(3) obtain a' p where n: "new_atom a b = Inr (a', p)" using atom_has_room by fastforce
  from new_atom_counters [OF n] have "charged a a' 1 0 (length b)" by (simp add: charged_def counters_def)
  with n new_atom_indexed [OF n Atom(1)] new_atom_contents [OF n Atom(1) Atom(2)] show ?case by auto
next
  case (Pair s t)
  have "room a (n_atoms s) (n_pairs s) (n_bytes s)" using Pair.prems(3) by (rule room_mono) auto
  from Pair.IH(1) [OF Pair.prems(1,2) this, of "ImportVisit t # ImportBuild # jobs" out]
  obtain a1 p where one: "import_loop (ImportVisit s # ImportVisit t # ImportBuild # jobs) out a =
      import_loop (ImportVisit t # ImportBuild # jobs) (p # out) a1" "indexed a1" "contents_ok a1" "grown a a1"
      "den a1 p s" "charged a a1 (n_atoms s) (n_pairs s) (n_bytes s)" by blast
  have "room a1 (n_atoms t) (n_pairs t) (n_bytes t)"
    unfolding room_charged [OF one(6)] using Pair.prems(3) by (rule room_mono) auto
  from Pair.IH(2) [OF one(2,3) this, of "ImportBuild # jobs" "p # out"]
  obtain a2 q where two: "import_loop (ImportVisit t # ImportBuild # jobs) (p # out) a1 =
      import_loop (ImportBuild # jobs) (q # p # out) a2" "indexed a2" "contents_ok a2" "grown a1 a2"
      "den a2 q t" "charged a1 a2 (n_atoms t) (n_pairs t) (n_bytes t)" by blast
  have p: "den a2 p s" by (rule grown_den [OF two(4) one(3,5)])
  have "room a2 0 1 0"
    unfolding room_charged [OF two(6)] room_charged [OF one(6)] using Pair.prems(3) by (rule room_mono) auto
  from new_pair_room [OF this, of p q] obtain a3 z where n: "new_pair a2 p q = Inr (a3, z)" by fastforce
  have "charged a a3 (n_atoms s + n_atoms t) (n_pairs s + n_pairs t + 1) (n_bytes s + n_bytes t)"
    using one(6) two(6) new_pair_counters [OF n] by (simp add: charged_def counters_def)
  moreover have "import_loop (ImportVisit (Pair s t) # jobs) out a = import_loop jobs (z # out) a3"
    using one(1) two(1) n by simp
  moreover have "grown a a3" using one(4) two(4) new_pair_indexed [OF n two(2) den_live [OF p] den_live [OF two(5)]] grown_trans by blast
  ultimately show ?case
    using new_pair_indexed [OF n two(2) den_live [OF p] den_live [OF two(5)]] new_pair_contents [OF n two(2,3) p two(5)]
    by (auto simp del: import_loop.simps)
qed

lemma import_room:
  assumes "indexed a" "contents_ok a" "room a (n_atoms s) (n_pairs s) (n_bytes s)"
  shows "\<exists>a' p. import a s = (a', Inr p) \<and> indexed a' \<and> contents_ok a' \<and> charged a a' (n_atoms s) (n_pairs s) (n_bytes s) \<and>
    den a' p s \<and> grown a a'"
  using import_loop_room [OF assms, of "[]" "[]"] by (auto simp: import_def)

text \<open>A quoted value that fits, with the arguments, runs to the value.\<close>

definition tree_fits :: "sexp \<Rightarrow> sexp \<Rightarrow> bool" where
  "tree_fits s t \<longleftrightarrow> n_atoms s + n_atoms t + 2 \<le> MAX_NUM_ATOMS \<and> n_pairs s + n_pairs t \<le> MAX_NUM_PAIRS \<and>
     n_bytes s + n_bytes t + 1 \<le> HEAP_LIMIT"

lemma run_in_arena_quote_fits:
  assumes "tree_fits (Pair (Atom [1]) r) args" "m = 0 \<or> 20 \<le> m"
  shows "\<exists>rt p. run_in_arena (new_runtime d m) (Pair (Atom [1]) r) args = Some (rt, Inr (20, p)) \<and> den (rt_arena rt) p r \<and>
      contents_ok (rt_arena rt)"
proof -
  let ?q = "Pair (Atom [1]) r"
  let ?a0 = "reset_arena (rt_arena (new_runtime d m))"
  have a0: "length (atom_vec ?a0) + ghost_atoms ?a0 = 2" "length (pair_vec ?a0) + ghost_pairs ?a0 = 0" "heap_used ?a0 = 1"
    by (simp_all add: reset_arena_def)
  then have "room ?a0 (n_atoms ?q) (n_pairs ?q) (n_bytes ?q)" using assms(1) by (simp add: room_def tree_fits_def)
  from import_room [OF new_arena_ok this] obtain a1 p where i1: "import ?a0 ?q = (a1, Inr p)" "indexed a1" "contents_ok a1"
    "charged ?a0 a1 (n_atoms ?q) (n_pairs ?q) (n_bytes ?q)" "den a1 p ?q" by blast
  have "room a1 (n_atoms args) (n_pairs args) (n_bytes args)"
    using assms(1) a0 by (simp add: room_charged [OF i1(4)]) (simp add: room_def tree_fits_def)
  from import_room [OF i1(2,3) this] obtain a2 q where i2: "import a1 args = (a2, Inr q)" "contents_ok a2" "grown a1 a2" by blast
  from run_in_arena_imported [OF i1(1) i2(1,2) grown_den [OF i2(3) i1(3,5)]] assms(2) show ?thesis
    by (auto simp: not_less split: if_splits)
qed

end
