(* ===== verification/BlockSound.thy ===== *)
theory BlockSound
  imports Books BlockLaw QuotedRuns
begin

text \<open>
  What an accepted transaction block guarantees: the books of \<open>Books\<close> for the spends of its generator, and the
  meaning of every condition that its puzzles out.
\<close>

section \<open>The puzzle hashes of a generator\<close>

text \<open>Every tree lies somewhere in memory, and an address stands for one pair.\<close>

definition laid_out :: "(sexp \<Rightarrow> placed) \<Rightarrow> bool" where
  "laid_out layout \<longleftrightarrow> (\<forall>g. erase (layout g) = g \<and> consistent (pairs_of (layout g)))"

lemma placed_list_erase: "map erase (placed_list p) = ref_list (erase p)"
  by (induction p) auto

lemma placed_list_length: "length (placed_list p) = length (ref_list (erase p))"
  by (metis length_map placed_list_erase)

lemma placed_list_pairs: "(\<Union>x \<in> set (placed_list p). pairs_of x) \<subseteq> pairs_of p"
  by (induction p) auto

lemma consistent_mono: "consistent N \<Longrightarrow> M \<subseteq> N \<Longrightarrow> consistent M"
  by (auto simp: consistent_def)

lemma simple_reveals_pairs: "(\<Union>x \<in> set (simple_reveals (placed_list p)). pairs_of x) \<subseteq> pairs_of p"
proof -
  have "pairs_of (placed_list s ! 1) \<subseteq> pairs_of p" if "s \<in> set (placed_list p)" "length (placed_list s) \<ge> 4" for s
    using that placed_list_pairs [of p] placed_list_pairs [of s] nth_mem [of 1 "placed_list s"] by fastforce
  then show ?thesis by (force simp: simple_reveals_def dest: set_takeWhileD)
qed

text \<open>The hashes of a quoted list of spends, on trees.\<close>

definition spend_hashes :: "hash_fn \<Rightarrow> sexp list \<Rightarrow> bytes list" where
  "spend_hashes sha ss = map (\<lambda>s. tree_hash sha (ref_list s ! 1)) (takeWhile (\<lambda>s. length (ref_list s) \<ge> 4) ss)"

lemma simple_reveals_hashes:
  "map (\<lambda>r. tree_hash sha (erase r)) (simple_reveals ps) = spend_hashes sha (map erase ps)"
proof (induction ps)
  case (Cons p ps)
  have "length (ref_list (erase p)) \<ge> 4 \<Longrightarrow> erase (placed_list p ! 1) = ref_list (erase p) ! 1"
    by (simp add: placed_list_erase [symmetric])
  with Cons show ?case by (simp add: simple_reveals_def spend_hashes_def placed_list_length)
qed (simp add: simple_reveals_def spend_hashes_def)

lemma spend_hashes_match: "hashes_match sha (spend_hashes sha ss) ss"
  by (auto simp: hashes_match_def spend_hashes_def takeWhile_nth)

lemma reveal_hashes_eq:
  assumes "laid_out layout"
  shows "simple_generator_reveal_hashes sha (layout (Pair q (Pair all_spends rest))) = Some (spend_hashes sha (ref_list all_spends))"
proof -
  let ?p = "layout (Pair q (Pair all_spends rest))"
  from assms have e: "erase ?p = Pair q (Pair all_spends rest)" and c: "consistent (pairs_of ?p)"
    by (auto simp: laid_out_def)
  from e obtain i j p1 p2 p3 where l: "?p = PPair i p1 (PPair j p2 p3)" "erase p2 = all_spends"
    by (cases ?p) (auto elim!: erase.elims [of _ "Pair _ _"])
  have "consistent (\<Union>x \<in> set (simple_reveals (placed_list p2)). pairs_of x)"
    using c simple_reveals_pairs [of p2] by (auto simp: l elim!: consistent_mono)
  then show ?thesis
    by (simp add: simple_generator_reveal_hashes_def l memoized_hashes_eq simple_reveals_hashes placed_list_erase)
qed

lemma reveal_hashes_match:
  assumes "laid_out layout" "sexp_first rest = Inr all_spends"
  shows "hashes_match sha (case simple_generator_reveal_hashes sha (layout (Pair q rest)) of Some hs \<Rightarrow> hs | None \<Rightarrow> [])
    (ref_list all_spends)"
  using assms(2) by (cases rest) (simp_all add: reveal_hashes_eq [OF assms(1)] spend_hashes_match)

section \<open>The books of a generator\<close>

text \<open>Where the conditions of a spend come from: the run of its puzzle, or before the fork the bootstrap program.\<close>

definition block_source :: "('a1, 'p1, 'p2) dialect \<Rightarrow> block_generator_input \<Rightarrow> spend \<Rightarrow> condition_with_args list \<Rightarrow> bool" where
  "block_source d input = (if simple_generator (gen_flags input)
     then from_run d (clvm_flags (gen_flags input)) (commits (dialect_sha256 d)) else from_tree)"

text \<open>The cost of a block before its first spend: its bytes and the run of its generator.\<close>

definition generator_cost :: "('a1, 'p1, 'p2) dialect \<Rightarrow> block_generator_input \<Rightarrow> nat \<Rightarrow> bool" where
  "generator_cost d input n \<longleftrightarrow> (\<exists>generator left run_cost out.
     parse_generator input = Inr generator \<and>
     run_generator d input generator left = Some (Inr (run_cost, out)) \<and>
     n = length (transactions_generator input) * unat (cost_per_byte (gen_constants input)) + unat run_cost)"

lemma generator_budget_Inr:
  assumes "generator_budget input = Inr (byte_cost, left)" "parse_generator input = Inr g"
  shows "unat byte_cost = length (transactions_generator input) * unat (cost_per_byte (gen_constants input))"
proof -
  let ?n = "length (transactions_generator input)"
  from assms(2) have "?n \<le> unat (max_generator_size (gen_constants input))"
    by (auto simp: parse_generator_def)
  moreover have "unat (max_generator_size (gen_constants input)) < 2 ^ 32"
    using unsigned_less [of "max_generator_size (gen_constants input)"] by simp
  ultimately have "unat (of_nat ?n :: u64) = ?n" by (simp add: unat_of_nat take_bit_nat_eq_self)
  moreover have "unat (of_nat ?n :: u64) * unat (cost_per_byte (gen_constants input)) < 2 ^ LENGTH(64)"
    "byte_cost = of_nat ?n * cost_per_byte (gen_constants input)"
    using assms(1) by (auto simp: generator_budget_def checked_mul64_def split: if_splits)
  ultimately show ?thesis by (metis unat_mult_lem)
qed

lemma check_simple_shape: "check_simple_generator bs g \<Longrightarrow> \<exists>rest. g = Pair (Atom [1]) rest"
  by (auto simp: check_simple_generator_def split: sexp.splits)

lemma finish_Inr:
  "finish_conditions m (conds, spent, created, x) = Inr conds' \<Longrightarrow>
     \<exists>cost. conds' = conds\<lparr>sb_cost := cost\<rparr> \<and> unat cost = unat (sb_cost conds) + unat x \<and> cost \<le> m"
  by (auto simp: finish_conditions_def unat_checked_add split: if_splits)

text \<open>The totals of a block that was executed, over the conditions of its spends.\<close>

definition settled :: "('a1, 'p1, 'p2) dialect \<Rightarrow> block_generator_input \<Rightarrow> spend_bundle_conditions \<Rightarrow>
    condition_with_args list list \<Rightarrow> bool" where
  "settled d input conds css \<longleftrightarrow> (\<exists>base spent created x conds0. generator_cost d input base \<and>
     books (dialect_sha256 d) (block_source d input) base css (conds0, spent, created, x) \<and>
     conds = conds0\<lparr>sb_cost := sb_cost conds\<rparr> \<and> unat (sb_cost conds) = unat (sb_cost conds0) + unat x \<and>
     sb_cost conds \<le> max_cost_of input)"

lemma generator_output_books:
  assumes "conditions_from_generator_output d out cost m flags k hs = Some (Inr conds)"
    and "\<And>all_spends. sexp_first out = Inr all_spends \<Longrightarrow>
      hashes_match (dialect_sha256 d) (case hs of Some h \<Rightarrow> h | None \<Rightarrow> []) (ref_list all_spends)"
  shows "\<exists>css spent created x conds0.
    books (dialect_sha256 d) (from_run d flags (commits (dialect_sha256 d))) (unat cost) css (conds0, spent, created, x) \<and>
    finish_conditions m (conds0, spent, created, x) = Inr conds"
proof -
  from assms(1) obtain all_spends st where "sexp_first out = Inr all_spends"
    "generator_loop d flags k m (case hs of Some h \<Rightarrow> h | None \<Rightarrow> []) (ref_list all_spends) (empty_conditions cost, {}, {}, 0) =
       Some (Inr st)" "finish_conditions m st = Inr conds"
    by (auto simp: conditions_from_generator_output_def bind_opt_eq_Inr)
  from generator_loop_books [OF this(2) books_empty assms(2) [OF this(1)]] this(3) show ?thesis
    by (metis prod_cases4)
qed

lemma processed_output_books:
  assumes "conditions_from_processed_generator_output sha out cost m k = Inr conds"
  shows "\<exists>css spent created x conds0. books sha from_tree (unat cost) css (conds0, spent, created, x) \<and>
    finish_conditions m (conds0, spent, created, x) = Inr conds"
proof -
  from assms obtain all_spends st where
    "processed_loop sha k (ref_list all_spends) (empty_conditions cost, {}, {}, 0) = Inr st" "finish_conditions m st = Inr conds"
    by (auto simp: conditions_from_processed_generator_output_def)
  from processed_loop_books [OF this(1) books_empty] this(2) show ?thesis by (metis prod_cases4)
qed

lemma execute_settled:
  assumes "execute_block_generator_result d layout input = Some (Inr conds)" "laid_out layout"
  shows "\<exists>css. settled d input conds css"
proof -
  define sha where "sha = dialect_sha256 d"
  from assms(1) obtain generator byte_cost left run_cost out cost where g: "parse_generator input = Inr generator"
    "generator_budget input = Inr (byte_cost, left)" "run_generator d input generator left = Some (Inr (run_cost, out))"
    "checked_add byte_cost run_cost = Some cost"
    and c: "(if simple_generator (gen_flags input)
          then conditions_from_generator_output d out cost (max_cost_of input) (clvm_flags (gen_flags input))
                 (gen_constants input) (simple_generator_reveal_hashes sha (layout generator))
          else Some (conditions_from_processed_generator_output sha out cost (max_cost_of input)
                 (gen_constants input))) = Some (Inr conds)"
    unfolding sha_def by (auto simp: execute_block_generator_result_def bind_opt_eq_Inr simp del: if_split)
  have "\<exists>css spent created x conds0. books sha (block_source d input) (unat cost) css (conds0, spent, created, x) \<and>
    finish_conditions (max_cost_of input) (conds0, spent, created, x) = Inr conds"
  proof (cases "simple_generator (gen_flags input)")
    case True
    with g(1) have "\<exists>rest. generator = Pair (Atom [1]) rest"
      by (auto simp: parse_generator_def intro: check_simple_shape)
    then obtain rest where rest: "generator = Pair (Atom [1]) rest" by blast
    have "out = rest"
      using g(3) True rest by (auto simp: run_generator_def program_run_def map_err_eq_Inr dest!: run_quote)
    with reveal_hashes_match [OF assms(2)] rest
    have "sexp_first out = Inr all_spends \<Longrightarrow> hashes_match sha
        (case simple_generator_reveal_hashes sha (layout generator) of Some h \<Rightarrow> h | None \<Rightarrow> []) (ref_list all_spends)"
      for all_spends by blast
    from generator_output_books [OF _ this [unfolded sha_def]] c True show ?thesis
      by (simp add: block_source_def sha_def)
  next
    case False
    with c have "conditions_from_processed_generator_output sha out cost (max_cost_of input) (gen_constants input) = Inr conds"
      by simp
    from processed_output_books [OF this] False show ?thesis by (simp add: block_source_def)
  qed
  then obtain css spent created x conds0 where b: "books sha (block_source d input) (unat cost) css (conds0, spent, created, x)"
    "finish_conditions (max_cost_of input) (conds0, spent, created, x) = Inr conds" by blast
  have "generator_cost d input (unat cost)"
    using g generator_budget_Inr [OF g(2,1)] unat_checked_add [OF g(4)] unfolding generator_cost_def by auto
  moreover from finish_Inr [OF b(2)] have "conds = conds0\<lparr>sb_cost := sb_cost conds\<rparr>"
    "unat (sb_cost conds) = unat (sb_cost conds0) + unat x" "sb_cost conds \<le> max_cost_of input" by auto
  ultimately show ?thesis using b(1) unfolding settled_def sha_def by blast
qed

section \<open>Accepted blocks\<close>

lemma validate_transaction_block_Inr:
  assumes "validate_transaction_block d layout b input = Some (Inr r)"
  shows "execute_block_generator_result d layout (generator_input input) = Some (Inr (res_conditions r))"
    "check_info (dialect_sha256 d) b input (res_conditions r) = Inr (res_generator_root r, res_generator_refs_root r)"
    "condition_context input = Some ctx \<Longrightarrow> validate_block_conditions (dialect_sha256 d) (res_conditions r) ctx = Inr ()"
    "additions_root_of (dialect_sha256 d) (res_conditions r) (reward_claims_incorporated (block_info input)) = Some (Inr (res_additions_root r))"
    "removals_root_of (dialect_sha256 d) (res_conditions r) = Some (Inr (res_removals_root r))"
    "check_foliage (dialect_sha256 d) input (res_additions_root r) (res_removals_root r) = Inr ()"
  using assms by (auto simp: validate_transaction_block_def bind_opt_eq_Inr Let_def split: prod.splits)

lemma check_info_Inr:
  assumes "check_info sha b input conds = Inr z"
  shows "sb_cost conds = ti_cost (block_info input)" "reserve_fee conds \<le> ti_fees (block_info input)"
    "unat (removal_amount conds) = unat (addition_amount conds) + unat (ti_fees (block_info input))"
    "validate_block_aggregate_signature sha b conds (ti_aggregated_signature (block_info input))
       (gen_constants (generator_input input)) = Inr ()"
proof -
  from assms obtain fee where c: "sb_cost conds = ti_cost (block_info input)" "block_fee_amount (fee_summary_of conds) = Inr fee"
    "fee = ti_fees (block_info input)" "reserve_fee conds \<le> fee"
    "validate_block_aggregate_signature sha b conds (ti_aggregated_signature (block_info input))
       (gen_constants (generator_input input)) = Inr ()"
    by (auto simp: check_info_def Let_def fee_summary_of_def)
  then show "sb_cost conds = ti_cost (block_info input)" "reserve_fee conds \<le> ti_fees (block_info input)"
    "validate_block_aggregate_signature sha b conds (ti_aggregated_signature (block_info input))
       (gen_constants (generator_input input)) = Inr ()" by simp_all
  from c(2) obtain w where w: "checked_sub (removal_amount conds) (addition_amount conds) = Some w" "try_narrow w = Some fee"
    by (auto simp: block_fee_amount_def fee_summary_of_def)
  then have "unat w = unat (removal_amount conds) - unat (addition_amount conds)"
    "unat (addition_amount conds) \<le> unat (removal_amount conds)" "unat fee = unat w"
    by (auto simp: checked_sub_def try_narrow_def unat_sub word_le_nat_alt unsigned_ucast_eq take_bit_nat_eq_self split: if_splits)
  with c(3) show "unat (removal_amount conds) = unat (addition_amount conds) + unat (ti_fees (block_info input))" by simp
qed

lemma kept_cost [simp]: "kept c s (b\<lparr>sb_cost := z\<rparr>) = kept c s b"
  by (cases c) simp_all

text \<open>What \<open>settled\<close> says, written out over the totals of the block.\<close>

lemma settledD:
  assumes "settled d input conds css"
  shows "list_all2 (\<lambda>s cs. accounted (dialect_sha256 d) s cs \<and> block_source d input s cs \<and> (\<forall>c \<in> set cs. kept c s conds))
      (sb_spends conds) css"
    "unat (removal_amount conds) = sum_list (map (\<lambda>s. unat (sp_coin_amount s)) (sb_spends conds))"
    "unat (addition_amount conds) = total created_amount css" "unat (reserve_fee conds) = total fee_of css"
    "distinct (map sp_coin_id (sb_spends conds))" "distinct (concat (map (output_ids (dialect_sha256 d)) (sb_spends conds)))"
    "\<exists>base. generator_cost d input base \<and>
       unat (sb_cost conds) = base + sum_list (map (\<lambda>s. unat (execution_cost s)) (sb_spends conds)) + total cost_of css"
    "sb_cost conds \<le> max_cost_of input"
proof -
  from assms obtain base spent created x conds0 where b: "generator_cost d input base"
    "books (dialect_sha256 d) (block_source d input) base css (conds0, spent, created, x)"
    "conds = conds0\<lparr>sb_cost := sb_cost conds\<rparr>" "unat (sb_cost conds) = unat (sb_cost conds0) + unat x"
    "sb_cost conds \<le> max_cost_of input" unfolding settled_def by blast
  have sel: "sb_spends conds = sb_spends conds0" "removal_amount conds = removal_amount conds0"
    "addition_amount conds = addition_amount conds0" "reserve_fee conds = reserve_fee conds0"
    by (subst b(3), simp)+
  have "kept c s conds0 = kept c s conds" for c s by (subst b(3)) simp
  with b(2) sel show "list_all2 (\<lambda>s cs. accounted (dialect_sha256 d) s cs \<and> block_source d input s cs \<and>
      (\<forall>c \<in> set cs. kept c s conds)) (sb_spends conds) css"
    "unat (removal_amount conds) = sum_list (map (\<lambda>s. unat (sp_coin_amount s)) (sb_spends conds))"
    "unat (addition_amount conds) = total created_amount css" "unat (reserve_fee conds) = total fee_of css"
    "distinct (map sp_coin_id (sb_spends conds))" "distinct (concat (map (output_ids (dialect_sha256 d)) (sb_spends conds)))"
    by (simp_all add: books_def)
  show "\<exists>base. generator_cost d input base \<and>
       unat (sb_cost conds) = base + sum_list (map (\<lambda>s. unat (execution_cost s)) (sb_spends conds)) + total cost_of css"
    using b(1,2,4) sel by (auto simp: books_def)
  show "sb_cost conds \<le> max_cost_of input" by (fact b(5))
qed

lemma accepted_settled:
  assumes "validate_transaction_block d layout b input = Some (Inr r)" "laid_out layout"
  shows "\<exists>css. settled d (generator_input input) (res_conditions r) css"
  by (rule execute_settled [OF validate_transaction_block_Inr(1) [OF assms(1)] assms(2)])

section \<open>The meaning of the conditions\<close>

text \<open>The messages of a block, under their keys.\<close>

type_synonym spent_block = "(spend \<times> condition_with_args list) list"

definition sent_in :: "spent_block \<Rightarrow> bytes list" where
  "sent_in blk = concat (map (\<lambda>(s, cs). map (sent_key s) (concat (map sends cs))) blk)"

definition received_in :: "spent_block \<Rightarrow> bytes list" where
  "received_in blk = concat (map (\<lambda>(s, cs). map (received_key s) (concat (map receives cs))) blk)"

text \<open>
  What a condition of the spend \<open>s\<close>, among the conditions \<open>cs\<close> of that spend, says about the block and the chain.
  The birth of a coin is checked against the last assertion about it only; a lower bound relative to the coin's
  confirmation is checked only while no such bound of the spend exceeds the largest height or time.
\<close>

fun holds :: "hash_fn \<Rightarrow> condition_validation_context \<Rightarrow> spent_block \<Rightarrow> spend \<Rightarrow> condition_with_args list \<Rightarrow>
    condition_with_args \<Rightarrow> bool" where
  "holds sha ctx blk s cs (CreateCoin ph amt _) = ((ph, amt) \<in> coin_pair ` set (create_coin s))"
| "holds sha ctx blk s cs (AssertHeightAbsolute h) = (h \<le> ctx_block_height ctx)"
| "holds sha ctx blk s cs (AssertBeforeHeightAbsolute h) = (ctx_block_height ctx < h)"
| "holds sha ctx blk s cs (AssertSecondsAbsolute t) = (\<forall>now. ctx_timestamp ctx = Some now \<longrightarrow> t \<le> now)"
| "holds sha ctx blk s cs (AssertBeforeSecondsAbsolute t) = (\<forall>now. ctx_timestamp ctx = Some now \<longrightarrow> now < t)"
| "holds sha ctx blk s cs (AssertHeightRelative h) =
     (\<forall>cc b. coin_context ctx (sp_coin_id s) = Some cc \<longrightarrow> ctx_spent_height cc = Some b \<longrightarrow>
        (\<forall>h'. AssertHeightRelative h' \<in> set cs \<longrightarrow> unat b + unat h' < 2 ^ 32) \<longrightarrow>
        unat b + unat h \<le> unat (ctx_block_height ctx))"
| "holds sha ctx blk s cs (AssertBeforeHeightRelative h) =
     (\<forall>cc b. coin_context ctx (sp_coin_id s) = Some cc \<longrightarrow> ctx_spent_height cc = Some b \<longrightarrow>
        unat (ctx_block_height ctx) < unat b + unat h)"
| "holds sha ctx blk s cs (AssertSecondsRelative t) =
     (\<forall>cc b now. coin_context ctx (sp_coin_id s) = Some cc \<longrightarrow> ctx_spent_seconds cc = Some b \<longrightarrow>
        ctx_timestamp ctx = Some now \<longrightarrow> (\<forall>t'. AssertSecondsRelative t' \<in> set cs \<longrightarrow> unat b + unat t' < 2 ^ 64) \<longrightarrow>
        unat b + unat t \<le> unat now)"
| "holds sha ctx blk s cs (AssertBeforeSecondsRelative t) =
     (\<forall>cc b now. coin_context ctx (sp_coin_id s) = Some cc \<longrightarrow> ctx_spent_seconds cc = Some b \<longrightarrow>
        ctx_timestamp ctx = Some now \<longrightarrow> unat now < unat b + unat t)"
| "holds sha ctx blk s cs (AssertMyBirthHeight h) =
     (\<forall>cc. coin_context ctx (sp_coin_id s) = Some cc \<longrightarrow> foldl birth_height_of None cs = Some h \<longrightarrow>
        ctx_birth_height cc = Some h)"
| "holds sha ctx blk s cs (AssertMyBirthSeconds t) =
     (\<forall>cc. coin_context ctx (sp_coin_id s) = Some cc \<longrightarrow> foldl birth_seconds_of None cs = Some t \<longrightarrow>
        ctx_birth_seconds cc = Some t)"
| "holds sha ctx blk s cs (AssertMyCoinId i) = (i = coin_name sha (spend_coin s))"
| "holds sha ctx blk s cs (AssertMyParentId i) = (i = sp_parent_id s)"
| "holds sha ctx blk s cs (AssertMyPuzzlehash ph) = (ph = sp_puzzle_hash s)"
| "holds sha ctx blk s cs (AssertMyAmount amt) = (amt = sp_coin_amount s)"
| "holds sha ctx blk s cs (AssertCoinAnnouncement a) =
     (\<exists>(s', cs') \<in> set blk. \<exists>msg. CreateCoinAnnouncement msg \<in> set cs' \<and> a = sha (coin_name sha (spend_coin s') @ msg))"
| "holds sha ctx blk s cs (AssertPuzzleAnnouncement a) =
     (\<exists>(s', cs') \<in> set blk. \<exists>msg. CreatePuzzleAnnouncement msg \<in> set cs' \<and> a = sha (sp_puzzle_hash s' @ msg))"
| "holds sha ctx blk s cs (AssertConcurrentSpend i) = (\<exists>(s', cs') \<in> set blk. i = coin_name sha (spend_coin s'))"
| "holds sha ctx blk s cs (AssertConcurrentPuzzle ph) = (\<exists>(s', cs') \<in> set blk. ph = sp_puzzle_hash s')"
| "holds sha ctx blk s cs AssertEphemeral = (\<exists>(s', cs') \<in> set blk. coin_name sha (spend_coin s') = sp_parent_id s \<and>
     (\<exists>memos. CreateCoin (sp_puzzle_hash s) (sp_coin_amount s) memos \<in> set cs'))"
| "holds sha ctx blk s cs (SendMessage mode msg args) =
     (let key = sent_key s \<lparr>sm_mode = mode, sm_message = msg, sm_args = args\<rparr>
      in count_list (received_in blk) key = count_list (sent_in blk) key)"
| "holds sha ctx blk s cs (ReceiveMessage mode msg args) =
     (let key = received_key s \<lparr>sm_mode = mode, sm_message = msg, sm_args = args\<rparr>
      in count_list (received_in blk) key = count_list (sent_in blk) key)"
| "holds sha ctx blk s cs _ = True"

text \<open>The relative lock of a spend is one of those asserted.\<close>

lemma max_opt_member: "max_opt x v = Some (w :: 'a::len word) \<Longrightarrow> w = v \<or> x = Some w"
  by (cases x) (auto simp: max_opt_def max_def split: if_splits)

lemma height_lock_step: "height_lock_of x c = Some h \<Longrightarrow> c = AssertHeightRelative h \<or> x = Some h"
  by (cases c) (auto dest: max_opt_member)

lemma seconds_lock_step: "seconds_lock_of x c = Some t \<Longrightarrow> c = AssertSecondsRelative t \<or> x = Some t"
  by (cases c) (auto dest: max_opt_member)

lemma foldl_member:
  assumes "\<And>x c. f x c = Some v \<Longrightarrow> c = K \<or> x = Some v"
  shows "foldl f x cs = Some v \<Longrightarrow> K \<in> set cs \<or> x = Some v"
  by (induction cs arbitrary: x) (use assms in fastforce)+

lemma height_lock_member: "foldl height_lock_of None cs = Some h \<Longrightarrow> AssertHeightRelative h \<in> set cs"
  using foldl_member [OF height_lock_step] by blast

lemma seconds_lock_member: "foldl seconds_lock_of None cs = Some t \<Longrightarrow> AssertSecondsRelative t \<in> set cs"
  using foldl_member [OF seconds_lock_step] by blast

lemma one_source:
  "msg \<in> set (announces_coin c) \<Longrightarrow> c = CreateCoinAnnouncement msg"
  "msg \<in> set (announces_puzzle c) \<Longrightarrow> c = CreatePuzzleAnnouncement msg"
  "out \<in> set (outputs_of c) \<Longrightarrow> \<exists>memos. c = CreateCoin (fst out) (snd out) memos"
  by (cases c; simp)+

lemma announces_mem:
  "msg \<in> set (concat (map announces_coin cs)) \<Longrightarrow> CreateCoinAnnouncement msg \<in> set cs"
  "msg \<in> set (concat (map announces_puzzle cs)) \<Longrightarrow> CreatePuzzleAnnouncement msg \<in> set cs"
  "out \<in> set (concat (map outputs_of cs)) \<Longrightarrow> \<exists>memos. CreateCoin (fst out) (snd out) memos \<in> set cs"
  by (auto dest!: one_source)

text \<open>A block in which every spend is accounted for and whose conditions all left their trace.\<close>

definition recorded :: "hash_fn \<Rightarrow> spend_bundle_conditions \<Rightarrow> condition_with_args list list \<Rightarrow> bool" where
  "recorded sha conds css \<longleftrightarrow>
     list_all2 (\<lambda>s cs. accounted sha s cs \<and> (\<forall>c \<in> set cs. kept c s conds)) (sb_spends conds) css"

lemma recorded_zip:
  assumes "recorded sha conds css" "(s, cs) \<in> set (zip (sb_spends conds) css)"
  shows "accounted sha s cs" "\<And>c. c \<in> set cs \<Longrightarrow> kept c s conds" "s \<in> set (sb_spends conds)"
  using assms by (auto simp: recorded_def list_all2_iff dest: set_zip_leftD)

lemma recorded_spend:
  assumes "recorded sha conds css" "s \<in> set (sb_spends conds)"
  shows "\<exists>cs. (s, cs) \<in> set (zip (sb_spends conds) css)"
proof -
  have "length (sb_spends conds) = length css" using assms(1) by (simp add: recorded_def list_all2_lengthD)
  from in_set_impl_in_set_zip1 [OF this assms(2)] show ?thesis by blast
qed

lemma accounted_said:
  assumes "accounted sha s cs"
  shows "sp_coin_id s = coin_name sha (spend_coin s)"
    "msg \<in> set (create_coin_announcements s) \<Longrightarrow> CreateCoinAnnouncement msg \<in> set cs"
    "msg \<in> set (create_puzzle_announcements s) \<Longrightarrow> CreatePuzzleAnnouncement msg \<in> set cs"
    "c \<in> set (create_coin s) \<Longrightarrow> \<exists>memos. CreateCoin (nc_puzzle_hash c) (nc_amount c) memos \<in> set cs"
    "sent_messages s = concat (map sends cs)" "received_messages s = concat (map receives cs)"
    "height_relative s = foldl height_lock_of None cs" "seconds_relative s = foldl seconds_lock_of None cs"
    "birth_height s = foldl birth_height_of None cs" "birth_seconds s = foldl birth_seconds_of None cs"
proof -
  note a = assms [unfolded accounted_def spoken_def]
  show "sp_coin_id s = coin_name sha (spend_coin s)" "sent_messages s = concat (map sends cs)"
    "received_messages s = concat (map receives cs)"
    "height_relative s = foldl height_lock_of None cs" "seconds_relative s = foldl seconds_lock_of None cs"
    "birth_height s = foldl birth_height_of None cs" "birth_seconds s = foldl birth_seconds_of None cs"
    using a by (simp_all add: new_spend_def)
  show "msg \<in> set (create_coin_announcements s) \<Longrightarrow> CreateCoinAnnouncement msg \<in> set cs"
    "msg \<in> set (create_puzzle_announcements s) \<Longrightarrow> CreatePuzzleAnnouncement msg \<in> set cs"
    using a announces_mem(1,2) by (simp_all add: new_spend_def)
  assume "c \<in> set (create_coin s)"
  then have "coin_pair c \<in> set (concat (map outputs_of cs))" using a by (metis image_eqI image_set)
  from announces_mem(3) [OF this] show "\<exists>memos. CreateCoin (nc_puzzle_hash c) (nc_amount c) memos \<in> set cs"
    by (simp add: coin_pair_def)
qed

lemma recorded_messages:
  assumes "recorded sha conds css"
  shows "concat (map (\<lambda>s. map (sent_key s) (sent_messages s)) (sb_spends conds)) = sent_in (zip (sb_spends conds) css)"
    "concat (map (\<lambda>s. map (received_key s) (received_messages s)) (sb_spends conds)) = received_in (zip (sb_spends conds) css)"
  using assms [unfolded recorded_def]
  by (induction rule: list_all2_induct) (auto simp: sent_in_def received_in_def dest: accounted_said(5,6))

text \<open>The conditions on the height and time of the block.\<close>

lemma absolute_hold:
  assumes "absolute_ok conds ctx"
  shows "h \<le> height_absolute conds \<Longrightarrow> holds sha ctx blk s cs (AssertHeightAbsolute h)"
    "t \<le> seconds_absolute conds \<Longrightarrow> holds sha ctx blk s cs (AssertSecondsAbsolute t)"
    "\<exists>x. before_height_absolute conds = Some x \<and> x \<le> h \<Longrightarrow> holds sha ctx blk s cs (AssertBeforeHeightAbsolute h)"
    "\<exists>x. before_seconds_absolute conds = Some x \<and> x \<le> t \<Longrightarrow> holds sha ctx blk s cs (AssertBeforeSecondsAbsolute t)"
  using assms by (auto simp: absolute_ok_def)

text \<open>The locks of one spend.\<close>

lemma locks_hold:
  assumes l: "\<forall>cc. coin_context ctx (sp_coin_id s) = Some cc \<longrightarrow> locks_open s cc ctx" and a: "accounted sha s cs"
  shows "\<exists>x. height_relative s = Some x \<and> h \<le> x \<Longrightarrow> holds sha ctx blk s cs (AssertHeightRelative h)"
    "\<exists>x. seconds_relative s = Some x \<and> t \<le> x \<Longrightarrow> holds sha ctx blk s cs (AssertSecondsRelative t)"
    "\<exists>x. before_height_relative s = Some x \<and> x \<le> h \<Longrightarrow> holds sha ctx blk s cs (AssertBeforeHeightRelative h)"
    "\<exists>x. before_seconds_relative s = Some x \<and> x \<le> t \<Longrightarrow> holds sha ctx blk s cs (AssertBeforeSecondsRelative t)"
    "holds sha ctx blk s cs (AssertMyBirthHeight h)" "holds sha ctx blk s cs (AssertMyBirthSeconds t)"
proof -
  note l = l [unfolded locks_open_def]
  show "holds sha ctx blk s cs (AssertMyBirthHeight h)" "holds sha ctx blk s cs (AssertMyBirthSeconds t)"
    using l accounted_said(9,10) [OF a] by auto
  show "\<exists>x. before_height_relative s = Some x \<and> x \<le> h \<Longrightarrow> holds sha ctx blk s cs (AssertBeforeHeightRelative h)"
    using l by (fastforce simp: word_le_nat_alt)
  show "\<exists>x. before_seconds_relative s = Some x \<and> x \<le> t \<Longrightarrow> holds sha ctx blk s cs (AssertBeforeSecondsRelative t)"
    using l by (fastforce simp: word_le_nat_alt)
  assume "\<exists>x. height_relative s = Some x \<and> h \<le> x"
  then obtain x where x: "height_relative s = Some x" "h \<le> x" by blast
  then have "AssertHeightRelative x \<in> set cs" using accounted_said(7) [OF a] height_lock_member by simp
  with x l show "holds sha ctx blk s cs (AssertHeightRelative h)" by (fastforce simp: word_le_nat_alt)
next
  note l = l [unfolded locks_open_def]
  assume "\<exists>x. seconds_relative s = Some x \<and> t \<le> x"
  then obtain x where x: "seconds_relative s = Some x" "t \<le> x" by blast
  then have "AssertSecondsRelative x \<in> set cs" using accounted_said(8) [OF a] seconds_lock_member by simp
  with x l show "holds sha ctx blk s cs (AssertSecondsRelative t)" by (fastforce simp: word_le_nat_alt)
qed

text \<open>The conditions about other spends.\<close>

lemma facts_hold:
  assumes r: "recorded sha conds css" and l: "lawful sha conds ctx" and s: "s \<in> set (sb_spends conds)"
  defines "blk \<equiv> zip (sb_spends conds) css"
  shows "a \<in> set (assert_coin_announcements s) \<Longrightarrow> holds sha ctx blk s cs (AssertCoinAnnouncement a)"
    "a \<in> set (assert_puzzle_announcements s) \<Longrightarrow> holds sha ctx blk s cs (AssertPuzzleAnnouncement a)"
    "i \<in> set (assert_concurrent_spend s) \<Longrightarrow> holds sha ctx blk s cs (AssertConcurrentSpend i)"
    "ph \<in> set (assert_concurrent_puzzle s) \<Longrightarrow> holds sha ctx blk s cs (AssertConcurrentPuzzle ph)"
    "assert_ephemeral s \<Longrightarrow> holds sha ctx blk s cs AssertEphemeral"
proof -
  have partner: "\<exists>cs'. (s', cs') \<in> set blk \<and> accounted sha s' cs'" if "s' \<in> set (sb_spends conds)" for s'
    using recorded_spend [OF r that] recorded_zip(1) [OF r] unfolding blk_def by blast
  note l = l [unfolded lawful_def Let_def]
  show "holds sha ctx blk s cs (AssertCoinAnnouncement a)" if "a \<in> set (assert_coin_announcements s)"
  proof -
    from that s l obtain s' msg where "s' \<in> set (sb_spends conds)" "msg \<in> set (create_coin_announcements s')"
      "a = sha (sp_coin_id s' @ msg)" unfolding announced_def by blast
    with partner accounted_said(1,2) show ?thesis by fastforce
  qed
  show "holds sha ctx blk s cs (AssertPuzzleAnnouncement a)" if "a \<in> set (assert_puzzle_announcements s)"
  proof -
    from that s l obtain s' msg where "s' \<in> set (sb_spends conds)" "msg \<in> set (create_puzzle_announcements s')"
      "a = sha (sp_puzzle_hash s' @ msg)" unfolding announced_def by blast
    with partner accounted_said(3) show ?thesis by fastforce
  qed
  show "holds sha ctx blk s cs (AssertConcurrentSpend i)" if "i \<in> set (assert_concurrent_spend s)"
  proof -
    from that s l obtain s' where "s' \<in> set (sb_spends conds)" "i = sp_coin_id s'" unfolding accompanied_def by blast
    with partner accounted_said(1) show ?thesis by fastforce
  qed
  show "holds sha ctx blk s cs (AssertConcurrentPuzzle ph)" if "ph \<in> set (assert_concurrent_puzzle s)"
  proof -
    from that s l obtain s' where "s' \<in> set (sb_spends conds)" "ph = sp_puzzle_hash s'" unfolding accompanied_def by blast
    with partner show ?thesis by fastforce
  qed
  show "holds sha ctx blk s cs AssertEphemeral" if "assert_ephemeral s"
  proof -
    from that s l obtain s' c where "s' \<in> set (sb_spends conds)" "sp_coin_id s' = sp_parent_id s" "c \<in> set (create_coin s')"
      "nc_puzzle_hash c = sp_puzzle_hash s" "nc_amount c = sp_coin_amount s" unfolding accompanied_def by blast
    with partner accounted_said(1,4) show ?thesis by fastforce
  qed
qed

lemma recorded_lawful_holds:
  assumes r: "recorded sha conds css" and l: "lawful sha conds ctx"
    and m: "(s, cs) \<in> set (zip (sb_spends conds) css)" "c \<in> set cs"
  shows "holds sha ctx (zip (sb_spends conds) css) s cs c"
proof -
  note rz = recorded_zip [OF r m(1)]
  from rz(2) [OF m(2)] have k: "kept c s conds" .
  have locks: "\<forall>cc. coin_context ctx (sp_coin_id s) = Some cc \<longrightarrow> locks_open s cc ctx"
    and abs: "absolute_ok conds ctx" and del: "delivered (sb_spends conds)"
    using l rz(3) by (simp_all add: lawful_def Let_def)
  have msgs: "count_list (received_in (zip (sb_spends conds) css)) key = count_list (sent_in (zip (sb_spends conds) css)) key" for key
    using del by (simp add: delivered_def recorded_messages [OF r] multiset_eq_iff count_mset)
  note lk = locks_hold [OF locks rz(1)] and fh = facts_hold [OF r l rz(3)] and id = accounted_said(1) [OF rz(1)]
  show ?thesis
    using k id fh lk msgs absolute_hold [OF abs]
    by (cases c) (simp_all add: Let_def del: holds.simps(2-11,16-20))
qed

lemma settled_recorded: "settled d input conds css \<Longrightarrow> recorded (dialect_sha256 d) conds css"
  unfolding recorded_def by (erule settledD(1) [THEN list_all2_mono]) simp


end
