(* ===== verification/ArenaConditions.thy ===== *)
theory ArenaConditions
  imports SpendSound ClvmEval
begin

text \<open>
  The conditions of a block are read from the interpreter's arena. Here they are read from the tree that a handle
  stands for, and the two agree.
\<close>

section \<open>The specification on trees\<close>

fun n_nodes :: "sexp \<Rightarrow> nat" where
  "n_nodes (Atom _) = 1"
| "n_nodes (Pair f r) = n_nodes f + n_nodes r + 1"

fun atoms_within :: "nat \<Rightarrow> sexp \<Rightarrow> bool" where
  "atoms_within n (Atom a) \<longleftrightarrow> length a \<le> n"
| "atoms_within n (Pair f r) \<longleftrightarrow> atoms_within n f \<and> atoms_within n r"

definition bounded :: "sexp \<Rightarrow> bool" where
  "bounded t \<longleftrightarrow> n_nodes t \<le> MAX_CONDITION_NODES \<and> atoms_within MAX_CONDITION_ATOM t"

fun tree_uint :: "condition_opcode \<Rightarrow> sexp \<Rightarrow> clvm_failure + condition_with_args option" where
  "tree_uint opcode (Pair (Atom buf) _) = uint_condition opcode (sanitize_uint buf)"
| "tree_uint opcode (Pair (Pair _ _) _) = Inl (Vm ExpectedAtomGotPair)"
| "tree_uint opcode (Atom _) = Inl InvalidSpendbundle"

text \<open>The hint: the first memo, when it is an atom of at most 32 bytes.\<close>

fun tree_memos :: "sexp \<Rightarrow> bytes list" where
  "tree_memos (Pair (Pair (Atom memo) _) _) = (if length memo \<le> 32 then [memo] else [])"
| "tree_memos _ = []"

fun tree_create_coin :: "sexp \<Rightarrow> clvm_failure + condition_with_args option" where
  "tree_create_coin (Pair (Atom ph) (Pair (Atom amt) rest)) =
     (if length ph \<noteq> 32 then Inl InvalidSpendbundle
      else case sanitize_uint amt 8 of
        UintOk v \<Rightarrow> Inr (Some (CreateCoin ph v (tree_memos rest)))
      | NegativeOverflow \<Rightarrow> Inl (ConditionFailure CoinAmountNegative)
      | _ \<Rightarrow> Inl (ConditionFailure CoinAmountExceedsMaximum))"
| "tree_create_coin (Pair (Atom ph) (Pair (Pair _ _) rest)) =
     (if length ph \<noteq> 32 then Inl InvalidSpendbundle else Inl (Vm ExpectedAtomGotPair))"
| "tree_create_coin _ = Inl InvalidSpendbundle"

definition tree_generic :: "sexp \<Rightarrow> clvm_failure + condition_with_args option" where
  "tree_generic t = bind_res (ensure (bounded t) InvalidSpendbundle) (\<lambda>_.
     map_sum id Some (map_err IoFailure (condition_try_from t)))"

fun tree_condition :: "sexp \<Rightarrow> clvm_failure + condition_with_args option" where
  "tree_condition (Atom _) = Inl InvalidSpendbundle"
| "tree_condition (Pair oper args) = (case oper of
     Atom [code] \<Rightarrow>
       (let opcode = opcode_from code in
        if opcode \<in> set uint_opcodes then tree_uint opcode args
        else if opcode = OpCreateCoin then tree_create_coin args
        else if opcode = OpRemark then Inr (Some (Remark []))
        else if opcode = OpUnknown then Inr (Some Unknown)
        else tree_generic (Pair oper args))
   | _ \<Rightarrow> tree_generic (Pair oper args))"

text \<open>A list of conditions; a condition that cannot fail and means nothing is left out.\<close>

fun tree_conditions :: "sexp \<Rightarrow> clvm_failure + condition_with_args list" where
  "tree_conditions (Atom _) = Inr []"
| "tree_conditions (Pair c r) =
     bind_res (tree_condition c) (\<lambda>x.
     bind_res (tree_conditions r) (\<lambda>cs. Inr (case x of None \<Rightarrow> cs | Some c \<Rightarrow> c # cs)))"

text \<open>The walk of the source, which applies a condition as soon as it is read.\<close>

fun walk_conditions :: "hash_fn \<Rightarrow> consensus_constants \<Rightarrow> bool \<Rightarrow> coin \<Rightarrow> u64 \<Rightarrow> sexp \<Rightarrow> nat \<Rightarrow> apply_state \<Rightarrow>
    clvm_failure + apply_state" where
  "walk_conditions sha k mempool coin max_cost (Atom _) i st = Inr st"
| "walk_conditions sha k mempool coin max_cost (Pair c r) i st =
     bind_res (tree_condition c) (\<lambda>x. case x of
       None \<Rightarrow> walk_conditions sha k mempool coin max_cost r i st
     | Some c \<Rightarrow> bind_res (apply_parsed_condition sha k mempool coin c i st) (\<lambda>(s, b, cost).
         bind_res (ok_or (checked_add (sb_cost b) cost) (Vm Overflow)) (\<lambda>running.
           if running > max_cost then Inl (Vm (CostExceeded max_cost running))
           else walk_conditions sha k mempool coin max_cost r (i + 1) (s, b, cost))))"

section \<open>Reading handles\<close>

lemma den_next: "den a p (Pair s t) \<Longrightarrow> \<exists>x y. next_of a p = Some (x, y) \<and> den a x s \<and> den a y t"
  using read_pair(1) by blast

lemma bounded_walk_den:
  assumes "contents_ok a" "list_all2 (den a) ps ts" "n \<le> MAX_CONDITION_NODES"
  shows "bounded_walk a ps n =
    (if n + sum_list (map n_nodes ts) \<le> MAX_CONDITION_NODES \<and> (\<forall>t \<in> set ts. atoms_within MAX_CONDITION_ATOM t)
     then Inr () else Inl InvalidSpendbundle)"
  using assms
proof (induction a ps n arbitrary: ts rule: bounded_walk.induct)
  case (1 a n)
  then show ?case by (simp add: bounded_walk.simps)
next
  case (2 a p ps n)
  from 2(4) obtain t ts' where ts: "ts = t # ts'" "den a p t" "list_all2 (den a) ps ts'"
    by (auto simp: list_all2_Cons1)
  have pos: "1 \<le> n_nodes t" by (cases t) auto
  show ?case
  proof (cases "n + 1 > MAX_CONDITION_NODES")
    case True
    with pos show ?thesis by (simp add: bounded_walk.simps ts(1))
  next
    case False
    show ?thesis
    proof (cases t)
      case (Atom b)
      with ts(2) have k: "node_kind_of a p = AtomNode" "atom_len a p = Some (length b)"
        using read_atom(2) [OF 2(3)] by (auto simp: node_kind_atom elim: den_AtomE)
      show ?thesis
        using 2(1) [OF False k(1) _ 2(3) ts(3)] False k
        by (simp add: bounded_walk.simps ts(1) Atom not_less)
    next
      case (Pair f r)
      with ts(2) obtain x y where k: "node_kind_of a p = PairNode x y" "den a x f" "den a y r"
        using read_pair(1) by blast
      have "list_all2 (den a) (y # x # ps) (r # f # ts')" using k ts(3) by simp
      from 2(2) [OF False k(1) 2(3) this] False k show ?thesis
        by (simp add: bounded_walk.simps ts(1) Pair)
    qed
  qed
qed

lemma export_bounded_den:
  "contents_ok a \<Longrightarrow> den a p t \<Longrightarrow>
     export_bounded_condition a p = Some (if bounded t then Inr t else Inl InvalidSpendbundle)"
  by (simp add: export_bounded_condition_def bounded_walk_den [of a "[p]" "[t]"] bounded_def export_den)

lemma arena_uint_den:
  "contents_ok a \<Longrightarrow> den a p t \<Longrightarrow> arena_uint_condition a opcode p = tree_uint opcode t"
proof (cases "(opcode, t)" rule: tree_uint.cases)
  case (1 opc buf r)
  assume ok: "contents_ok a" and "den a p t"
  with 1 obtain x y where "next_of a p = Some (x, y)" "den a x (Atom buf)" using den_next by blast
  with 1 read_atom(1) [OF ok] show ?thesis by (simp add: arena_uint_condition_def)
next
  case (2 opc u v r)
  assume "den a p t"
  with 2 obtain x y where "next_of a p = Some (x, y)" "den a x (Pair u v)" using den_next by blast
  with 2 read_pair(2) show ?thesis by (simp add: arena_uint_condition_def)
next
  case (3 opc b)
  assume "contents_ok a" "den a p t"
  with 3 read_atom(4) show ?thesis by (simp add: arena_uint_condition_def)
qed

lemma memos_den:
  assumes ok: "contents_ok a" and d: "den a p t"
  shows "(case next_of a p of
       None \<Rightarrow> []
     | Some (memo_list, _) \<Rightarrow> (case next_of a memo_list of
         None \<Rightarrow> []
       | Some (first_memo, _) \<Rightarrow> (case arena_atom a first_memo of
           None \<Rightarrow> []
         | Some memo \<Rightarrow> if length memo \<le> 32 then [memo] else []))) = tree_memos t"
proof (cases t)
  case (Atom b)
  with d read_atom(4) [OF ok] show ?thesis by simp
next
  case (Pair u v)
  with d obtain x y where x: "next_of a p = Some (x, y)" "den a x u" using den_next by blast
  show ?thesis
  proof (cases u)
    case (Atom b)
    with x read_atom(4) [OF ok] Pair show ?thesis by simp
  next
    case (Pair m n)
    with x obtain z w where z: "next_of a x = Some (z, w)" "den a z m" using den_next by blast
    with x \<open>t = Pair u v\<close> Pair show ?thesis using read_atom(1) [OF ok] read_pair(2) by (cases m) simp_all
  qed
qed

lemma arena_create_coin_den:
  assumes ok: "contents_ok a" and d: "den a p t"
  shows "arena_create_coin a p = tree_create_coin t"
proof (cases t)
  case (Atom b)
  with d read_atom(4) [OF ok] show ?thesis by (simp add: arena_create_coin_def)
next
  case (Pair u v)
  with d obtain x y where x: "next_of a p = Some (x, y)" "den a x u" "den a y v" using den_next by blast
  show ?thesis
  proof (cases u)
    case u: (Pair m n)
    with x Pair read_pair(2) show ?thesis by (simp add: arena_create_coin_def)
  next
    case u: (Atom ph)
    with x have ph: "arena_atom a x = Some ph" using read_atom(1) [OF ok] by simp
    show ?thesis
    proof (cases v)
      case (Atom b)
      with x read_atom(4) [OF ok] have "next_of a y = None" by simp
      with x ph u Pair Atom show ?thesis by (simp add: arena_create_coin_def)
    next
      case v: (Pair w rest)
      with x obtain z m where z: "next_of a y = Some (z, m)" "den a z w" "den a m rest" using den_next by blast
      show ?thesis
      proof (cases w)
        case (Pair g h)
        with z read_pair(2) have "arena_atom a z = None" by simp
        with x ph u z v Pair \<open>t = sexp.Pair u v\<close> show ?thesis
          by (simp add: arena_create_coin_def sanitize_uint_from_arena_def)
      next
        case (Atom amt)
        with z have "arena_atom a z = Some amt" using read_atom(1) [OF ok] by simp
        with x ph u z v Atom Pair memos_den [OF ok z(3)] show ?thesis
          by (simp add: arena_create_coin_def sanitize_uint_from_arena_def split: sanitized_uint.split)
      qed
    qed
  qed
qed

lemma arena_condition_den:
  assumes ok: "contents_ok a" and d: "den a p t"
  shows "arena_condition a p = Some (tree_condition t)"
proof (cases t)
  case (Atom b)
  with d read_atom(4) [OF ok] show ?thesis by (simp add: arena_condition_def)
next
  case (Pair u v)
  with d obtain x y where x: "next_of a p = Some (x, y)" "den a x u" "den a y v" using den_next by blast
  have g: "bind_opt (export_bounded_condition a p) (\<lambda>bounded.
      Some (bind_res (map_err IoFailure (condition_try_from bounded)) (\<lambda>c. Inr (Some c)))) = Some (tree_generic t)"
    by (cases "condition_try_from t") (simp_all add: export_bounded_den [OF ok d] tree_generic_def bind_opt_def)
  show ?thesis
  proof (cases u)
    case (Pair m n)
    with x read_pair(2) g \<open>t = sexp.Pair u v\<close> show ?thesis by (simp add: arena_condition_def)
  next
    case (Atom b)
    with x have b: "arena_atom a x = Some b" using read_atom(1) [OF ok] by simp
    show ?thesis
    proof (cases "\<exists>code. b = [code]")
      case True
      with b x g Atom Pair arena_uint_den [OF ok x(3)] arena_create_coin_den [OF ok x(3)] show ?thesis
        by (auto simp: arena_condition_def Let_def)
    next
      case False
      then have "length b \<noteq> 1" by (auto simp: length_Suc_conv)
      with False b x g Atom Pair show ?thesis
        by (auto simp: arena_condition_def Let_def split: list.splits)
    qed
  qed
qed

lemma arena_conditions_loop_den:
  assumes ok: "contents_ok a"
  shows "den a p t \<Longrightarrow>
    arena_conditions_loop sha k mempool coin max_cost a p i st = Some (walk_conditions sha k mempool coin max_cost t i st)"
proof (induction t arbitrary: p i st)
  case (Atom b)
  with read_atom(4) [OF ok] show ?case by (subst arena_conditions_loop.simps) simp
next
  case (Pair c r)
  then obtain x y where x: "next_of a p = Some (x, y)" "den a x c" "den a y r" using den_next by blast
  from Pair.IH(2) [OF x(3)] show ?case
    by (subst arena_conditions_loop.simps)
      (simp add: x(1) arena_condition_den [OF ok x(2)] bind_res_def split: sum.split option.split prod.split)
qed

lemma conditions_read_den:
  assumes ok: "contents_ok a"
  shows "den a p t \<Longrightarrow> conditions_read a p cs \<longleftrightarrow> tree_conditions t = Inr cs"
proof (induction t arbitrary: p cs)
  case (Atom b)
  with read_atom(4) [OF ok] have n: "next_of a p = None" by simp
  then show ?case by (auto elim: conditions_read.cases intro: read_end)
next
  case (Pair c r)
  then obtain x y where x: "next_of a p = Some (x, y)" "den a x c" "den a y r" using den_next by blast
  note IH = Pair.IH(2) [OF x(3)]
  show ?case
  proof
    assume "conditions_read a p cs"
    then show "tree_conditions (Pair c r) = Inr cs"
    proof (cases rule: conditions_read.cases)
      case read_end
      with x show ?thesis by simp
    next
      case (read_skip c' r')
      with x have "tree_condition c = Inr None" "conditions_read a y cs" using arena_condition_den [OF ok x(2)] by simp_all
      with IH show ?thesis by simp
    next
      case (read_one c' r' z cs')
      with x have "tree_condition c = Inr (Some z)" "conditions_read a y cs'" using arena_condition_den [OF ok x(2)] by simp_all
      with IH read_one(1) show ?thesis by simp
    qed
  next
    assume "tree_conditions (Pair c r) = Inr cs"
    then obtain z cs' where z: "tree_condition c = Inr z" "tree_conditions r = Inr cs'"
      "cs = (case z of None \<Rightarrow> cs' | Some c \<Rightarrow> c # cs')" by auto
    with IH have "conditions_read a y cs'" by simp
    with z x arena_condition_den [OF ok x(2)] show "conditions_read a p cs"
      by (cases z) (auto intro: read_skip read_one)
  qed
qed

end
