(* ===== verification/BlockSigned.thy ===== *)
theory BlockSigned
  imports BlockSound ArenaConditions
begin

text \<open>
  The signatures of an accepted block: every signature condition of every puzzle is among the pairs of key and message
  that the aggregated signature was verified for.
\<close>

section \<open>Keys of conditions\<close>

fun signing_key :: "condition_with_args \<Rightarrow> bytes option" where
  "signing_key (AggSigMe pk _) = Some pk"
| "signing_key (AggSigParent pk _) = Some pk"
| "signing_key (AggSigPuzzle pk _) = Some pk"
| "signing_key (AggSigAmount pk _) = Some pk"
| "signing_key (AggSigPuzzleAmount pk _) = Some pk"
| "signing_key (AggSigParentAmount pk _) = Some pk"
| "signing_key (AggSigParentPuzzle pk _) = Some pk"
| "signing_key (AggSigUnsafe pk _) = Some pk"
| "signing_key _ = None"

definition keyed :: "condition_with_args \<Rightarrow> bool" where
  "keyed c \<longleftrightarrow> (\<forall>pk. signing_key c = Some pk \<longrightarrow> length pk = 48)"

lemma length_sized_from [simp]: "length (sized_from n v) = n"
  by (simp add: sized_from_def)

lemma from_opcode_keyed: "from_opcode_with_args opcode args = Inr c \<Longrightarrow> keyed c"
  by (cases opcode)
    (auto simp: keyed_def key_and_message_def one_message_def one_hash_def one_u64_def one_seconds_def one_height_def
      create_coin_args_def mode_and_message_def birth_height_args_def soft_fork_args_def Let_def
      split: list.splits if_splits)

lemma condition_try_from_keyed: "condition_try_from t = Inr c \<Longrightarrow> keyed c"
  by (auto simp: condition_try_from_def intro: from_opcode_keyed)

lemma try_each_keyed: "try_each ts = Inr cs \<Longrightarrow> c \<in> set cs \<Longrightarrow> keyed c"
  by (induction ts arbitrary: cs) (auto intro: condition_try_from_keyed)

lemma uint_condition_keyed: "uint_condition opcode arg = Inr (Some c) \<Longrightarrow> keyed c"
  by (cases opcode) (auto simp: uint_condition_def keyed_def split: sanitized_uint.splits)

lemma arena_create_coin_keyed: "arena_create_coin a p = Inr (Some c) \<Longrightarrow> keyed c"
  by (auto simp: arena_create_coin_def keyed_def split: option.splits prod.splits if_splits sanitized_uint.splits)

lemma arena_uint_keyed: "arena_uint_condition a opcode p = Inr (Some c) \<Longrightarrow> keyed c"
  by (auto simp: arena_uint_condition_def intro: uint_condition_keyed split: option.splits prod.splits)

lemma arena_condition_keyed: "arena_condition a p = Some (Inr (Some c)) \<Longrightarrow> keyed c"
  by (auto simp: arena_condition_def Let_def bind_opt_eq_Inr keyed_def [of "Remark []"] keyed_def [of Unknown]
      intro: arena_create_coin_keyed arena_uint_keyed condition_try_from_keyed split: option.splits prod.splits if_splits)

lemma conditions_read_keyed: "conditions_read a p cs \<Longrightarrow> c \<in> set cs \<Longrightarrow> keyed c"
  by (induction rule: conditions_read.induct) (auto intro: arena_condition_keyed)

lemma block_source_keyed: "block_source d input s cs \<Longrightarrow> c \<in> set cs \<Longrightarrow> keyed c"
  by (auto simp: block_source_def from_run_def from_tree_def conditions_try_from_def
      intro: conditions_read_keyed try_each_keyed split: if_splits)

section \<open>The pairs that are verified\<close>

lemma sized_parse_same: "length v = n \<Longrightarrow> sized_parse n v = Some v"
  by (simp add: sized_parse_def)

lemma rebuild_mem:
  "rebuild con ps = Inr cs \<Longrightarrow> (pk, msg) \<in> set ps \<Longrightarrow> length pk = 48 \<Longrightarrow> con pk msg \<in> set cs"
  by (induction con ps arbitrary: cs rule: rebuild.induct)
    (auto simp: sized_parse_same message_new_def split: if_splits)

lemma unsafe_pairs_mem:
  "unsafe_pairs ps = Inr kms \<Longrightarrow> (pk, msg) \<in> set ps \<Longrightarrow> length pk = 48 \<Longrightarrow> (pk, msg) \<in> set kms"
  by (induction ps arbitrary: kms rule: unsafe_pairs.induct)
    (auto simp: sized_parse_same message_new_def split: if_splits)

lemma pkm_loop_mem:
  "pkm_loop sha coin data cs = Inr kms \<Longrightarrow> c \<in> set cs \<Longrightarrow> signed_data sha coin data c = Some km \<Longrightarrow> km \<in> snd ` set kms"
  by (induction cs arbitrary: kms) (auto simp: message_new_def split: option.splits if_splits prod.splits)

lemma pkm_pairs_for_spend_mem:
  assumes "pkm_pairs_for_spend sha s coin k = Inr kms" "kept c s conds" "keyed c" "\<forall>pk msg. c \<noteq> AggSigUnsafe pk msg"
    "sized_parse 32 (agg_sig_me_additional_data k) = Some data" "signed_data sha coin data c = Some km"
  shows "km \<in> snd ` set kms"
proof -
  from assms(1,5) obtain c1 c2 c3 c4 c5 c6 c7 where r: "rebuild AggSigMe (agg_sig_me s) = Inr c1"
    "rebuild AggSigParent (agg_sig_parent s) = Inr c2" "rebuild AggSigPuzzle (agg_sig_puzzle s) = Inr c3"
    "rebuild AggSigAmount (agg_sig_amount s) = Inr c4" "rebuild AggSigPuzzleAmount (agg_sig_puzzle_amount s) = Inr c5"
    "rebuild AggSigParentAmount (agg_sig_parent_amount s) = Inr c6"
    "rebuild AggSigParentPuzzle (agg_sig_parent_puzzle s) = Inr c7"
    and p: "pkm_loop sha coin data (c1 @ c2 @ c3 @ c4 @ c5 @ c6 @ c7) = Inr kms"
    by (auto simp: pkm_pairs_for_spend_def pkm_pairs_for_conditions_def)
  have "c \<in> set (c1 @ c2 @ c3 @ c4 @ c5 @ c6 @ c7)"
    using assms(2,3,4,6) r [THEN rebuild_mem]
    by (cases c) (auto simp: keyed_def signed_data_def Let_def)
  from pkm_loop_mem [OF p this assms(6)] show ?thesis .
qed

lemma spend_pairs_mem:
  "spend_pairs sha k ss = Inr kms \<Longrightarrow> s \<in> set ss \<Longrightarrow>
     \<exists>own. pkm_pairs_for_spend sha s (spend_coin s) k = Inr own \<and> snd ` set own \<subseteq> set kms"
  by (induction ss arbitrary: kms) (auto, fastforce)

text \<open>The outcome of the check for a list of pairs.\<close>

definition verified :: "('pk, 'sig) blst_keys \<Rightarrow> (bytes \<times> bytes) list \<Rightarrow> bytes \<Rightarrow> bool" where
  "verified b pairs sg \<longleftrightarrow> (if pairs = [] then sg = INFINITY_SIGNATURE
     else \<exists>signature. sig_from_bytes b sg = Some signature \<and>
       aggregate_verify_deduped b (map fst pairs) (map snd pairs) signature)"

lemma signature_pairs:
  assumes "validate_block_aggregate_signature sha b conds sg k = Inr ()"
  shows "\<exists>unsafe safe. unsafe_pairs (agg_sig_unsafe conds) = Inr unsafe \<and> spend_pairs sha k (sb_spends conds) = Inr safe \<and>
    verified b (unsafe @ safe) sg"
proof -
  from assms obtain unsafe safe where p: "unsafe_pairs (agg_sig_unsafe conds) = Inr unsafe" "spend_pairs sha k (sb_spends conds) = Inr safe"
    by (auto simp: validate_block_aggregate_signature_def)
  from assms p have "verified b (unsafe @ safe) sg"
    by (cases unsafe; cases safe) (auto simp: validate_block_aggregate_signature_def verified_def Let_def)
  with p show ?thesis by blast
qed

lemma signed_data_key: "signed_data sha coin data c = Some (key, msg) \<Longrightarrow> kept c s conds \<Longrightarrow> key \<noteq> BLS_G1_INFINITY"
  by (cases c) (auto simp: signed_data_def Let_def)

lemma recorded_signed:
  assumes r: "recorded sha conds css" and "validate_block_aggregate_signature sha b conds sg k = Inr ()"
    and "sized_parse 32 (agg_sig_me_additional_data k) = Some data"
    and m: "(s, cs) \<in> set (zip (sb_spends conds) css)" "c \<in> set cs" "keyed c"
    and "signed_data sha (spend_coin s) data c = Some km"
  shows "unsafe_pairs (agg_sig_unsafe conds) = Inr unsafe \<Longrightarrow> spend_pairs sha k (sb_spends conds) = Inr safe \<Longrightarrow>
    km \<in> set (unsafe @ safe)"
proof -
  assume u: "unsafe_pairs (agg_sig_unsafe conds) = Inr unsafe" and s: "spend_pairs sha k (sb_spends conds) = Inr safe"
  note rz = recorded_zip [OF r m(1)]
  from rz(2) [OF m(2)] have kept: "kept c s conds" .
  show ?thesis
  proof (cases "\<exists>pk msg. c = AggSigUnsafe pk msg")
    case True
    with assms(7) m(3) kept show ?thesis by (auto simp: signed_data_def keyed_def dest: unsafe_pairs_mem [OF u])
  next
    case False
    from spend_pairs_mem [OF s rz(3)] obtain own where own: "pkm_pairs_for_spend sha s (spend_coin s) k = Inr own"
      "snd ` set own \<subseteq> set safe" by blast
    from pkm_pairs_for_spend_mem [OF own(1) kept m(3) _ assms(3,7)] False own(2) show ?thesis by auto
  qed
qed

end
