(* ===== verification/BlockLayout.thy ===== *)
theory BlockLayout
  imports BlockSigned QuotedRuns
begin

text \<open>
  A layout of trees in memory in which every pair has its own address, so that the hypothesis about addresses of
  the theorems on blocks can be met; and the run of a program that quotes a value.
\<close>

section \<open>A layout\<close>

text \<open>Every pair gets its own address: the root is \<open>i\<close>, the children of the pair at \<open>n\<close> are at \<open>2 n\<close> and \<open>2 n + 1\<close>.\<close>

fun place :: "nat \<Rightarrow> sexp \<Rightarrow> placed" where
  "place i (Atom a) = PAtom a"
| "place i (Pair f r) = PPair i (place (2 * i) f) (place (2 * i + 1) r)"

lemma erase_place [simp]: "erase (place i s) = s"
  by (induction s arbitrary: i) simp_all

lemma place_below: "x \<in> pairs_of (place i s) \<Longrightarrow> \<exists>k. address_of x div 2 ^ k = i"
proof (induction s arbitrary: i)
  case (Pair f r)
  from Pair.prems consider "address_of x = i" | "x \<in> pairs_of (place (2 * i) f)" | "x \<in> pairs_of (place (2 * i + 1) r)" by auto
  then show ?case
  proof cases
    case 1
    then show ?thesis by (intro exI [of _ 0]) simp
  next
    case 2
    from Pair.IH(1) [OF this] obtain k where "address_of x div 2 ^ k = 2 * i" by blast
    then have "address_of x div 2 ^ k div 2 = i" by simp
    then have "address_of x div 2 ^ Suc k = i" by (simp add: div_mult2_eq [symmetric] mult.commute)
    then show ?thesis by blast
  next
    case 3
    from Pair.IH(2) [OF this] obtain k where "address_of x div 2 ^ k = 2 * i + 1" by blast
    then have "address_of x div 2 ^ k div 2 = i" by simp
    then have "address_of x div 2 ^ Suc k = i" by (simp add: div_mult2_eq [symmetric] mult.commute)
    then show ?thesis by blast
  qed
qed simp

lemma div_power_ge: "a div 2 ^ k = i \<Longrightarrow> (a :: nat) \<ge> i"
  by (metis div_le_dividend)

lemma paths_differ:
  assumes "(a :: nat) div 2 ^ k = 2 * i" "a div 2 ^ l = 2 * i + 1" "i > 0"
  shows False
proof -
  have "k \<noteq> l" using assms by auto
  then consider m where "l = k + m" "m > 0" | m where "k = l + m" "m > 0"
    by (metis less_imp_add_positive nat_neq_iff)
  then show False
  proof cases
    case 1
    then have "a div 2 ^ l = 2 * i div 2 ^ m" using assms(1) by (simp add: power_add div_mult2_eq)
    also have "\<dots> \<le> 2 * i" by simp
    finally show False using assms(2) by simp
  next
    case 2
    then have "a div 2 ^ k = (2 * i + 1) div 2 ^ m" using assms(2) by (simp add: power_add div_mult2_eq)
    also have "\<dots> \<le> (2 * i + 1) div 2" using 2(2) by (intro div_le_mono2) (auto simp: self_le_power)
    also have "\<dots> < 2 * i" using assms(3) by simp
    finally show False using assms(1) by simp
  qed
qed

lemma root_differs: "x \<in> pairs_of (place (2 * i) f) \<union> pairs_of (place (2 * i + 1) r) \<Longrightarrow> i > 0 \<Longrightarrow> address_of x \<noteq> i"
  using place_below [of x "2 * i" f] place_below [of x "2 * i + 1" r] by (auto dest!: div_power_ge)

lemma place_inj:
  "i > 0 \<Longrightarrow> x \<in> pairs_of (place i s) \<Longrightarrow> y \<in> pairs_of (place i s) \<Longrightarrow> address_of x = address_of y \<Longrightarrow> x = y"
proof (induction s arbitrary: i)
  case (Pair f r)
  let ?F = "pairs_of (place (2 * i) f)" and ?R = "pairs_of (place (2 * i + 1) r)"
  have apart: "u \<in> ?F \<Longrightarrow> v \<in> ?R \<Longrightarrow> address_of u \<noteq> address_of v" for u v
    using place_below [of u "2 * i" f] place_below [of v "2 * i + 1" r] paths_differ [OF _ _ Pair.prems(1)] by metis
  have root: "u \<in> ?F \<union> ?R \<Longrightarrow> address_of u \<noteq> i" for u by (rule root_differs [OF _ Pair.prems(1)])
  from Pair.prems(2,3) consider "x \<in> ?F" "y \<in> ?F" | "x \<in> ?R" "y \<in> ?R" | "x \<in> ?F" "y \<in> ?R" | "x \<in> ?R" "y \<in> ?F"
    | "x = place i (Pair f r)" "y = place i (Pair f r)" | "x = place i (Pair f r)" "y \<in> ?F \<union> ?R"
    | "y = place i (Pair f r)" "x \<in> ?F \<union> ?R" by auto
  then show ?case
    by cases (use Pair.IH(1) [of "2 * i"] Pair.IH(2) [of "2 * i + 1"] Pair.prems(1,4) apart root in fastforce)+
qed simp

lemma laid_out_place: "laid_out (place 1)"
  using place_inj [of 1] by (fastforce simp: laid_out_def consistent_def)

section \<open>Programs that quote\<close>

lemma run_quote_fits:
  assumes "tree_fits (Pair (Atom [1]) r) args" "m = 0 \<or> 20 \<le> m"
  shows "program_run d m flags (Pair (Atom [1]) r) args = Some (Inr (20, r))"
  using run_in_arena_quote_fits [OF assms, of "d\<lparr>dialect_flags := flags\<rparr>"]
  by (auto simp: program_run_def run_def export_den)

end
