(* ===== verification/BlockExample.thy ===== *)
theory BlockExample
  imports BlockLayout
begin

text \<open>
  A small block that is accepted, for the examples of the theorems: one spend whose puzzle quotes four conditions.
\<close>

definition zeros :: bytes where "zeros = replicate 32 0"
definition some_key :: bytes where "some_key = replicate 48 1"

definition ex_conditions :: sexp where
  "ex_conditions = sexp_of_list [
     sexp_of_list [Atom [51], Atom zeros, Atom [3]],
     sexp_of_list [Atom [52], Atom [2]],
     sexp_of_list [Atom [83], Atom [7]],
     sexp_of_list [Atom [50], Atom some_key, Atom [9]]]"

definition ex_spends :: sexp where
  "ex_spends = sexp_of_list [sexp_of_list [NULL_SEXP, Pair (Atom [1]) ex_conditions, Atom [5], NULL_SEXP]]"

definition ex_generator :: sexp where
  "ex_generator = Pair (Atom [1]) (sexp_of_list [ex_spends])"

definition ex_bytes :: bytes where
  "ex_bytes = [0xff, 0x01, 0xff, 0xff, 0xff, 0x80, 0xff, 0xff, 0x01,
     0xff, 0xff, 0x33, 0xff, 0xa0] @ zeros @ [0xff, 0x03, 0x80,
     0xff, 0xff, 0x34, 0xff, 0x02, 0x80, 0xff, 0xff, 0x53, 0xff, 0x07, 0x80,
     0xff, 0xff, 0x32, 0xff, 0xb0] @ some_key @ [0xff, 0x09, 0x80, 0x80,
     0xff, 0x05, 0xff, 0x80, 0x80, 0x80, 0x80]"

lemma ex_lengths [simp]: "length zeros = 32" "length some_key = 48" "zeros \<noteq> []" "some_key \<noteq> []"
  by (simp_all add: zeros_def some_key_def)

lemmas ex_tree = ex_generator_def ex_spends_def ex_conditions_def NULL_SEXP_def

lemma ex_encoded: "sexp_bytes ex_generator = Inr ex_bytes"
  by (simp add: ex_tree ex_bytes_def atom_bytes_def markers encode_size_def sexp_of_list_def)


definition ex_constants :: consensus_constants where
  "ex_constants = MAINNET\<lparr>agg_sig_me_additional_data := zeros\<rparr>"

definition ex_input :: transaction_block_input where
  "ex_input = \<lparr>generator_input = \<lparr>transactions_generator = ex_bytes, generator_refs = [], gen_constants = ex_constants,
       gen_height = 10, gen_flags = \<lparr>clvm_flags = 0, simple_generator = True\<rparr>\<rparr>,
     block_info = \<lparr>ti_generator_root = zeros, ti_generator_refs_root = replicate 32 1, ti_aggregated_signature = [],
       ti_fees = 2, ti_cost = 4500040, reward_claims_incorporated = []\<rparr>,
     block_foliage = None,
     condition_context = Some \<lparr>ctx_block_height = 10, ctx_timestamp = None, coin_context = Map.empty\<rparr>,
     prev_transaction_block_height = 0\<rparr>"

definition ex_keys :: "(bytes, unit) blst_keys" where
  "ex_keys = \<lparr>pk_from_bytes = Some, pk_validate = (\<lambda>pk. pk \<noteq> []), pk_default = [], sig_from_bytes = (\<lambda>_. Some ()),
     sig_aggregate_verify = (\<lambda>_ _ _ _ pks validate. validate \<longrightarrow> list_all (\<lambda>pk. pk \<noteq> []) pks)\<rparr>"

lemma ex_parsed: "sexp_from_bytes_backrefs ex_bytes = Inr (ex_generator, [])"
proof -
  have "sexp_from_bytes ex_bytes = Inr (ex_generator, [])"
    using loop_roundtrip [OF ex_encoded, of "[]" "[]" "[]"] sexp_bytes_nonempty [OF ex_encoded]
    by (simp add: sexp_from_bytes_def ex_tree sexp_of_list_def)
  then show ?thesis by (rule backrefs_extend_plain)
qed

lemma ex_bytes_length: "length ex_bytes = 125"
  by (simp add: ex_bytes_def)

lemma ex_generator_ok: "parse_generator (generator_input ex_input) = Inr ex_generator"
  by (simp add: parse_generator_def ex_input_def ex_parsed ex_bytes_length ex_constants_def MAINNET_def)
    (simp add: check_simple_generator_def starts_with_def ex_bytes_def ex_generator_def)

lemma ex_budget: "generator_budget (generator_input ex_input) = Inr (1500000, 10998500000)"
  by (simp add: generator_budget_def ex_input_def ex_bytes_length ex_constants_def MAINNET_def checked_mul64_def
      checked_sub_def max_cost_of_def)

lemma ex_fits: "tree_fits ex_generator NULL_SEXP" "tree_fits (Pair (Atom [1]) ex_conditions) NULL_SEXP"
  by (simp_all add: tree_fits_def ex_tree sexp_of_list_def MAX_NUM_ATOMS_def MAX_NUM_PAIRS_def HEAP_LIMIT_def)

lemma ex_run: "run_generator d (generator_input ex_input) ex_generator 10998500000 = Some (Inr (20, sexp_of_list [ex_spends]))"
  using run_quote_fits [OF ex_fits(1) [unfolded ex_generator_def], of 10998500000 d 0]
  by (simp add: run_generator_def ex_input_def ex_generator_def)


text \<open>The conditions of the spend, applied.\<close>

definition ex_dialect :: "('a1, 'p1, 'p2) blst \<Rightarrow> ('a1, 'p1, 'p2) dialect" where
  "ex_dialect bl = \<lparr>dialect_flags = 0, dialect_sha256 = (\<lambda>_. zeros), dialect_blst = bl\<rparr>"

definition ex_coin :: coin where
  "ex_coin = \<lparr>parent_coin_info = zeros, puzzle_hash = zeros, amount = 5\<rparr>"

definition ex_spend :: spend where
  "ex_spend = (new_spend (\<lambda>_. zeros) ex_coin False)\<lparr>create_coin := [\<lparr>nc_puzzle_hash = zeros, nc_amount = 3, nc_hint = None\<rparr>],
     agg_sig_me := [(some_key, [9])]\<rparr>"

definition ex_totals :: spend_bundle_conditions where
  "ex_totals = (empty_conditions 1500040)\<lparr>removal_amount := 5, addition_amount := 3, reserve_fee := 2, height_absolute := 7\<rparr>"

lemma ex_tree_conditions:
  "tree_condition (sexp_of_list [Atom [51], Atom zeros, Atom [3]]) = Inr (Some (CreateCoin zeros 3 []))"
  "tree_condition (sexp_of_list [Atom [52], Atom [2]]) = Inr (Some (ReserveFee 2))"
  "tree_condition (sexp_of_list [Atom [83], Atom [7]]) = Inr (Some (AssertHeightAbsolute 7))"
  "tree_condition (sexp_of_list [Atom [50], Atom some_key, Atom [9]]) = Inr (Some (AggSigMe some_key [9]))"
  by (simp_all add: sexp_of_list_def NULL_SEXP_def opcode_from_def uint_opcodes_def uint_condition_def sanitize_uint_def
      saturating_assert_u32_def narrow_u32_def try_narrow_def tree_generic_def bounded_def MAX_CONDITION_NODES_def MAX_CONDITION_ATOM_def
      condition_try_from_def op_code_with_args_from_sexp_def key_and_message_def message_new_def sized_from_def)

lemma some_key_finite: "some_key \<noteq> BLS_G1_INFINITY" "BLS_G1_INFINITY \<noteq> some_key"
proof -
  have "hd some_key \<noteq> hd BLS_G1_INFINITY" by (simp add: some_key_def BLS_G1_INFINITY_def)
  then show "some_key \<noteq> BLS_G1_INFINITY" "BLS_G1_INFINITY \<noteq> some_key" by auto
qed

lemma ex_applied:
  "walk_conditions (\<lambda>_. zeros) ex_constants False ex_coin 11000000000 ex_conditions 0
     (new_spend (\<lambda>_. zeros) ex_coin False, (empty_conditions 1500040)\<lparr>removal_amount := 5\<rparr>, 0) =
   Inr (ex_spend, ex_totals, 3000000)"
  unfolding ex_conditions_def sexp_of_list_def [of "[_, _, _, _]"]
  by (simp add: ex_tree_conditions NULL_SEXP_def apply_parsed_condition_def apply_defs charge_condition_def checked_add_def
      CREATE_COIN_COST_def AGG_SIG_COST_def agg_sig_infinity_pubkey_def some_key_finite
      ex_spend_def ex_totals_def new_spend_def empty_conditions_def)


definition ex_final :: spend where
  "ex_final = ex_spend\<lparr>condition_cost := 3000000, execution_cost := 20\<rparr>"

definition ex_result :: spend_bundle_conditions where
  "ex_result = ex_totals\<lparr>sb_spends := [ex_final], sb_cost := 4500040\<rparr>"

lemma ex_started: "start_spend (\<lambda>_. zeros) ex_coin False (empty_conditions 1500040) 0 =
    Inr (new_spend (\<lambda>_. zeros) ex_coin False, (empty_conditions 1500040)\<lparr>removal_amount := 5\<rparr>, 0)"
  by (simp add: start_spend_def checked_add_def ex_coin_def empty_conditions_def)

lemma ex_puzzle_applied:
  assumes "contents_ok a" "den a p ex_conditions"
  shows "parse_and_apply_spend_from_arena (\<lambda>_. zeros) ex_constants a p ex_coin (empty_conditions 1500040) 0 11000000000 False =
    Some (Inr (ex_spend\<lparr>condition_cost := 3000000\<rparr>, ex_totals, 3000000))"
  by (simp add: parse_and_apply_spend_from_arena_def ex_started arena_conditions_loop_den [OF assms] ex_applied bind_opt_def
      finalize_spend_def saturating_sub_def)

lemma ex_run_spend:
  "run_spend (ex_dialect bl) 0 ex_constants 11000000000 [NULL_SEXP, Pair (Atom [1]) ex_conditions, Atom [5], NULL_SEXP] ex_coin
     (empty_conditions 1500020, {}, {}, 0) = Some (Inr (ex_totals\<lparr>sb_spends := [ex_final]\<rparr>, {zeros}, {zeros}, 3000000))"
proof -
  from run_in_arena_quote_fits [OF ex_fits(2), of 10998499980 "ex_dialect bl"]
  obtain rt p where r: "run_in_arena (new_runtime (ex_dialect bl) 10998499980) (Pair (Atom [1]) ex_conditions) NULL_SEXP =
      Some (rt, Inr (20, p))" "den (rt_arena rt) p ex_conditions" "contents_ok (rt_arena rt)" by auto
  have d: "(ex_dialect bl)\<lparr>dialect_flags := 0\<rparr> = ex_dialect bl" by (simp add: ex_dialect_def)
  have c: "(empty_conditions 1500020)\<lparr>sb_cost := 1500040\<rparr> = empty_conditions 1500040" by (simp add: empty_conditions_def)
  have sb: "sb_cost (empty_conditions x) = x" for x by (simp add: empty_conditions_def)
  have sha: "dialect_sha256 (ex_dialect bl) = (\<lambda>_. zeros)" by (simp add: ex_dialect_def)
  have fin: "create_coin ex_spend = [\<lparr>nc_puzzle_hash = zeros, nc_amount = 3, nc_hint = None\<rparr>]" by (simp add: ex_spend_def)
  show ?thesis
    by (simp add: run_spend_def sha checked_sub_def checked_add_def sb d r(1) c ex_puzzle_applied [OF r(3,2)] bind_opt_def
        coin_name_def coin_id_def push_spend_def ex_final_def [symmetric] fin)
      (simp add: ex_totals_def empty_conditions_def)
qed


lemma ex_fields:
  "gen_flags (generator_input ex_input) = \<lparr>clvm_flags = 0, simple_generator = True\<rparr>"
  "gen_constants (generator_input ex_input) = ex_constants" "max_cost_of (generator_input ex_input) = 11000000000"
  "generator_refs (generator_input ex_input) = []" "sf9_active ex_input = False"
  by (simp_all add: ex_input_def max_cost_of_def sf9_active_def ex_constants_def MAINNET_def)

lemma ex_executed:
  "execute_block_generator_result (ex_dialect bl) (place 1) (generator_input ex_input) = Some (Inr ex_result)"
proof -
  have sha: "dialect_sha256 (ex_dialect bl) = (\<lambda>_. zeros)" by (simp add: ex_dialect_def)
  have parts: "ref_list ex_spends = [sexp_of_list [NULL_SEXP, Pair (Atom [1]) ex_conditions, Atom [5], NULL_SEXP]]"
    "ref_list (sexp_of_list [NULL_SEXP, Pair (Atom [1]) ex_conditions, Atom [5], NULL_SEXP]) =
       [NULL_SEXP, Pair (Atom [1]) ex_conditions, Atom [5], NULL_SEXP]"
    by (simp_all add: ex_spends_def sexp_of_list_def NULL_SEXP_def)
  have amt: "parse_amount (Atom [5]) = Inr 5"
  proof -
    have "be_nat (replicate 15 0 @ [5]) = 5" by (simp add: be_nat_def foldl_append) (simp add: be_nat_def [symmetric])
    then show ?thesis by (simp add: parse_amount_def sexp_number_from_def num_to_u64_def)
  qed
  have coin: "generator_coin (\<lambda>_. zeros) h [NULL_SEXP, Pair (Atom [1]) ex_conditions, Atom [5], NULL_SEXP] = Inr ex_coin"
    if "h = None \<or> h = Some zeros" for h
    using that by (auto simp: generator_coin_def parse_atom32_def sized_parse_def NULL_SEXP_def amt ex_coin_def zeros_def)
  have "sexp_of_list [ex_spends] = Pair ex_spends NULL_SEXP" by (simp add: sexp_of_list_def)
  then have hashes: "simple_generator_reveal_hashes (\<lambda>_. zeros) (place 1 ex_generator) = Some [zeros]"
    and out: "sexp_first (sexp_of_list [ex_spends]) = Inr ex_spends"
    using reveal_hashes_eq [OF laid_out_place, of "\<lambda>_. zeros" "Atom [1]" ex_spends NULL_SEXP]
    by (simp_all add: ex_generator_def spend_hashes_def parts)
  have "generator_loop (ex_dialect bl) 0 ex_constants 11000000000 [zeros] (ref_list ex_spends) (empty_conditions 1500020, {}, {}, 0) =
      Some (Inr (ex_totals\<lparr>sb_spends := [ex_final]\<rparr>, {zeros}, {zeros}, 3000000))"
    using coin [of "Some zeros"] by (simp add: parts sha ex_run_spend bind_opt_def)
  moreover have "finish_conditions 11000000000 (ex_totals\<lparr>sb_spends := [ex_final]\<rparr>, {zeros}, {zeros}, 3000000) = Inr ex_result"
    by (simp add: finish_conditions_def checked_add_def ex_result_def ex_totals_def empty_conditions_def)
  ultimately have "conditions_from_generator_output (ex_dialect bl) (sexp_of_list [ex_spends]) 1500020 11000000000 0 ex_constants
      (Some [zeros]) = Some (Inr ex_result)"
    by (simp add: conditions_from_generator_output_def out bind_opt_def)
  then show ?thesis
    by (simp add: execute_block_generator_result_def ex_generator_ok ex_budget ex_run checked_add_def sha hashes bind_opt_def
        ex_fields del: One_nat_def)
qed


lemma ex_signature: "validate_block_aggregate_signature (\<lambda>_. zeros) ex_keys ex_result [] ex_constants = Inr ()"
proof -
  have "agg_sig_unsafe ex_result = []" "sb_spends ex_result = [ex_final]"
    by (simp_all add: ex_result_def ex_totals_def empty_conditions_def)
  moreover have "pkm_pairs_for_spend (\<lambda>_. zeros) ex_final (spend_coin ex_final) ex_constants =
      Inr [(OpAggSigMe, some_key, 9 # zeros @ zeros)]"
    by (simp add: pkm_pairs_for_spend_def ex_final_def ex_spend_def new_spend_def sized_parse_def message_new_def
        pkm_pairs_for_conditions_def ex_constants_def signed_data_def agg_sig_additional_data_for_opcode_def coin_name_def
        coin_id_def Let_def)
  ultimately show ?thesis
    by (simp add: validate_block_aggregate_signature_def ex_keys_def aggregate_verify_deduped_def Let_def)
qed

lemma ex_info: "check_info (\<lambda>_. zeros) ex_keys ex_input ex_result = Inr (zeros, replicate 32 1)"
proof -
  have b: "block_info ex_input = \<lparr>ti_generator_root = zeros, ti_generator_refs_root = replicate 32 1, ti_aggregated_signature = [],
       ti_fees = 2, ti_cost = 4500040, reward_claims_incorporated = []\<rparr>" by (simp add: ex_input_def)
  have f: "block_fee_amount (fee_summary_of ex_result) = Inr 2" "reserve_fee ex_result = 2" "sb_cost ex_result = 4500040"
    by (simp_all add: block_fee_amount_def fee_summary_of_def ex_result_def ex_totals_def checked_sub_def try_narrow_def)
  show ?thesis
    by (simp add: check_info_def b f ex_fields ex_signature transactions_generator_root_def transactions_generator_refs_root_def)
      (simp add: fee_summary_of_def f)
qed

lemma ex_root: "merkle_set_root (\<lambda>_. zeros) [zeros, zeros] = Some (Inr zeros)" "merkle_set_root (\<lambda>_. zeros) [zeros] = Some (Inr zeros)"
  by (simp_all add: merkle_set_root_def bind_opt_def merkle_set_recurse.simps)

lemma ex_coins: "additions_root_of (\<lambda>_. zeros) ex_result [] = Some (Inr zeros)" "removals_root_of (\<lambda>_. zeros) ex_result = Some (Inr zeros)"
proof -
  have s: "sb_spends ex_result = [ex_final]" by (simp add: ex_result_def)
  have c: "create_coin ex_final = [\<lparr>nc_puzzle_hash = zeros, nc_amount = 3, nc_hint = None\<rparr>]" "sp_coin_id ex_final = zeros"
    by (simp_all add: ex_final_def ex_spend_def new_spend_def coin_name_def coin_id_def)
  show "additions_root_of (\<lambda>_. zeros) ex_result [] = Some (Inr zeros)"
    by (simp add: additions_root_of_def additions_for_conditions_def s c canonical_additions_root_def group_by_puzzle_hash_def
        push_entry_def created_coin_def hash_coin_ids_def ex_root bt_get_def)
  show "removals_root_of (\<lambda>_. zeros) ex_result = Some (Inr zeros)"
    by (simp add: removals_root_of_def removals_for_conditions_def s c canonical_removals_root_def ex_root)
qed


definition ex_context :: condition_validation_context where
  "ex_context = \<lparr>ctx_block_height = 10, ctx_timestamp = None, coin_context = Map.empty\<rparr>"

lemma ex_lawful: "validate_block_conditions (\<lambda>_. zeros) ex_result ex_context = Inr ()"
proof -
  have s: "sb_spends ex_result = [ex_final]" "absolute_ok ex_result ex_context"
    by (simp_all add: ex_result_def absolute_ok_def ex_totals_def ex_context_def empty_conditions_def)
  have f: "create_coin ex_final = [\<lparr>nc_puzzle_hash = zeros, nc_amount = 3, nc_hint = None\<rparr>]"
    "assert_coin_announcements ex_final = []" "assert_puzzle_announcements ex_final = []" "assert_concurrent_spend ex_final = []"
    "assert_concurrent_puzzle ex_final = []" "\<not> assert_ephemeral ex_final" "sent_messages ex_final = []" "received_messages ex_final = []"
    by (simp_all add: ex_final_def ex_spend_def new_spend_def)
  show ?thesis
    unfolding validate_block_conditions_iff lawful_def Let_def s(1)
    by (simp add: s(2) output_ids_def f announced_def accompanied_def delivered_def) (simp add: ex_context_def)
qed

definition ex_block_result :: transaction_block_result where
  "ex_block_result = \<lparr>res_conditions = ex_result, res_additions_root = zeros, res_removals_root = zeros,
     res_generator_root = zeros, res_generator_refs_root = replicate 32 1, res_fee_summary = fee_summary_of ex_result\<rparr>"

lemma ex_accepted:
  "validate_transaction_block (ex_dialect bl) (place 1) ex_keys ex_input = Some (Inr ex_block_result)"
proof -
  have sha: "dialect_sha256 (ex_dialect bl) = (\<lambda>_. zeros)" by (simp add: ex_dialect_def)
  have i: "condition_context ex_input = Some ex_context" "block_foliage ex_input = None"
    "reward_claims_incorporated (block_info ex_input) = []" by (simp_all add: ex_input_def ex_context_def)
  show ?thesis
    unfolding validate_transaction_block_def sha Let_def
    by (simp add: ex_executed ex_info ex_coins ex_lawful ex_fields i check_serialization_def check_foliage_def bind_opt_def
        ex_block_result_def del: One_nat_def)
qed

lemma ex_res [simp]: "res_conditions ex_block_result = ex_result" "sb_spends ex_result = [ex_final]" "ti_fees (block_info ex_input) = 2"
    "condition_context ex_input = Some ex_context" "ti_cost (block_info ex_input) = 4500040"
    "gen_constants (generator_input ex_input) = ex_constants"
  by (simp_all add: ex_block_result_def ex_result_def ex_input_def ex_context_def)


end
