(* ===== verification/AcceptedBlocks.thy ===== *)
theory AcceptedBlocks
  imports BlockExample
begin

text \<open>
  What the acceptance of a transaction block guarantees: value, conditions, signatures and cost.
\<close>

text \<open>
  C0: a block neither creates nor destroys value. When a transaction block is accepted, every spend of the result
  carries the conditions that its own puzzle, the one whose tree hash the coin names, produced when it was run (before
  the fork: those that the bootstrap program produced for it); the coins it is recorded to create are exactly those of
  its conditions; and what the spent coins hold is what the conditions create plus the claimed fees, which cover all
  reserved fees. No coin is spent twice and none is created twice.
\<close>

theorem block_value_conserved:
  assumes "validate_transaction_block d layout b input = Some (Inr r)" "laid_out layout"
  shows "\<exists>css. list_all2 (\<lambda>s cs. block_source d (generator_input input) s cs \<and>
        sp_coin_id s = coin_name (dialect_sha256 d) (spend_coin s) \<and>
        map coin_pair (create_coin s) = concat (map outputs_of cs)) (sb_spends (res_conditions r)) css \<and>
      sum_list (map (\<lambda>s. unat (sp_coin_amount s)) (sb_spends (res_conditions r))) =
        total created_amount css + unat (ti_fees (block_info input)) \<and>
      total fee_of css \<le> unat (ti_fees (block_info input)) \<and>
      distinct (map sp_coin_id (sb_spends (res_conditions r))) \<and>
      distinct (concat (map (output_ids (dialect_sha256 d)) (sb_spends (res_conditions r))))"
proof -
  from accepted_settled [OF assms] obtain css where "settled d (generator_input input) (res_conditions r) css" by blast
  note s = settledD [OF this]
  note i = check_info_Inr [OF validate_transaction_block_Inr(2) [OF assms(1)]]
  have "list_all2 (\<lambda>s cs. block_source d (generator_input input) s cs \<and>
        sp_coin_id s = coin_name (dialect_sha256 d) (spend_coin s) \<and>
        map coin_pair (create_coin s) = concat (map outputs_of cs)) (sb_spends (res_conditions r)) css"
    using s(1) by (rule list_all2_mono) (simp add: accounted_def)
  with s i(2,3) show ?thesis by (auto simp: word_le_nat_alt)
qed

theorem block_value_conserved_witness:
  "\<forall>bl :: (unit, unit, unit) blst. \<exists>cs. block_source (ex_dialect bl) (generator_input ex_input) ex_final cs \<and>
     5 = sum_list (map created_amount cs) + 2 \<and> sum_list (map fee_of cs) \<le> 2"
proof
  fix bl :: "(unit, unit, unit) blst"
  have "sp_coin_amount ex_final = 5" by (simp add: ex_final_def ex_spend_def new_spend_def ex_coin_def)
  with block_value_conserved [OF ex_accepted [of bl] laid_out_place] show "\<exists>cs. block_source (ex_dialect bl) (generator_input ex_input) ex_final cs \<and>
     5 = sum_list (map created_amount cs) + 2 \<and> sum_list (map fee_of cs) \<le> 2"
    by (auto simp: list_all2_Cons1 total_def)
qed

text \<open>
  C0: every condition of an accepted block holds. When a block is accepted together with what the chain knows
  about its coins, every condition that one of its puzzles output is true: heights and times lie within the asserted
  bounds, announcements and coins and puzzles that are asserted are in the block, an ephemeral coin was created by
  a spend of the block, a message is received as often as it is sent, and a coin's own data are what is asserted.
\<close>

theorem block_conditions_hold:
  assumes "validate_transaction_block d layout b input = Some (Inr r)" "laid_out layout"
    and "condition_context input = Some ctx"
  shows "\<exists>css. list_all2 (block_source d (generator_input input)) (sb_spends (res_conditions r)) css \<and>
    (\<forall>(s, cs) \<in> set (zip (sb_spends (res_conditions r)) css). \<forall>c \<in> set cs.
       holds (dialect_sha256 d) ctx (zip (sb_spends (res_conditions r)) css) s cs c)"
proof -
  from accepted_settled [OF assms(1,2)] obtain css where s: "settled d (generator_input input) (res_conditions r) css" by blast
  have "lawful (dialect_sha256 d) (res_conditions r) ctx"
    using validate_transaction_block_Inr(3) [OF assms(1,3)] validate_block_conditions_iff by blast
  from recorded_lawful_holds [OF settled_recorded [OF s] this]
  have "\<forall>(s, cs) \<in> set (zip (sb_spends (res_conditions r)) css). \<forall>c \<in> set cs.
      holds (dialect_sha256 d) ctx (zip (sb_spends (res_conditions r)) css) s cs c" by blast
  moreover have "list_all2 (block_source d (generator_input input)) (sb_spends (res_conditions r)) css"
    using settledD(1) [OF s] by (rule list_all2_mono) simp
  ultimately show ?thesis by blast
qed
theorem block_conditions_hold_witness:
  "\<forall>bl :: (unit, unit, unit) blst. \<exists>cs. block_source (ex_dialect bl) (generator_input ex_input) ex_final cs \<and>
     (\<forall>c \<in> set cs. holds (\<lambda>_. zeros) ex_context [(ex_final, cs)] ex_final cs c)"
proof
  fix bl :: "(unit, unit, unit) blst"
  have "dialect_sha256 (ex_dialect bl) = (\<lambda>_. zeros)" by (simp add: ex_dialect_def)
  with block_conditions_hold [OF ex_accepted [of bl] laid_out_place, of ex_context]
  show "\<exists>cs. block_source (ex_dialect bl) (generator_input ex_input) ex_final cs \<and>
     (\<forall>c \<in> set cs. holds (\<lambda>_. zeros) ex_context [(ex_final, cs)] ex_final cs c)"
    by (auto simp: list_all2_Cons1)
qed
text \<open>
  C0: every signature condition is verified. For an accepted block there is one list of keys and messages, which the
  aggregated signature was checked against, and it contains, for every signature condition of every puzzle, the key
  and the message bound to the coin and to the network; no such key is the point at infinity. Without any signature
  condition the signature is the one of nothing.
\<close>

theorem block_signatures_verified:
  assumes "validate_transaction_block d layout b input = Some (Inr r)" "laid_out layout"
    and "length (agg_sig_me_additional_data (gen_constants (generator_input input))) = 32"
  shows "\<exists>css pairs. list_all2 (block_source d (generator_input input)) (sb_spends (res_conditions r)) css \<and>
    (\<forall>(s, cs) \<in> set (zip (sb_spends (res_conditions r)) css). \<forall>c \<in> set cs. \<forall>key msg.
       signed_data (dialect_sha256 d) (spend_coin s) (agg_sig_me_additional_data (gen_constants (generator_input input))) c =
         Some (key, msg) \<longrightarrow> (key, msg) \<in> set pairs \<and> key \<noteq> BLS_G1_INFINITY) \<and>
    (if pairs = [] then ti_aggregated_signature (block_info input) = INFINITY_SIGNATURE
     else \<exists>signature. sig_from_bytes b (ti_aggregated_signature (block_info input)) = Some signature \<and>
       aggregate_verify_deduped b (map fst pairs) (map snd pairs) signature)"
proof -
  let ?conds = "res_conditions r" and ?k = "gen_constants (generator_input input)"
  from accepted_settled [OF assms(1,2)] obtain css where s: "settled d (generator_input input) ?conds css" by blast
  have src: "list_all2 (block_source d (generator_input input)) (sb_spends ?conds) css"
    using settledD(1) [OF s] by (rule list_all2_mono) simp
  note rec = settled_recorded [OF s]
  note sig = check_info_Inr(4) [OF validate_transaction_block_Inr(2) [OF assms(1)]]
  from signature_pairs [OF sig] obtain unsafe safe where p: "unsafe_pairs (agg_sig_unsafe ?conds) = Inr unsafe"
    "spend_pairs (dialect_sha256 d) ?k (sb_spends ?conds) = Inr safe" "verified b (unsafe @ safe) (ti_aggregated_signature (block_info input))"
    by blast
  have "(key, msg) \<in> set (unsafe @ safe) \<and> key \<noteq> BLS_G1_INFINITY"
    if m: "(s, cs) \<in> set (zip (sb_spends ?conds) css)" "c \<in> set cs"
      and d: "signed_data (dialect_sha256 d) (spend_coin s) (agg_sig_me_additional_data ?k) c = Some (key, msg)" for s cs c key msg
  proof -
    have "keyed c" using src m by (auto simp: list_all2_iff intro: block_source_keyed)
    from recorded_signed [OF rec sig sized_parse_same [OF assms(3)] m this d p(1,2)] signed_data_key [OF d]
      recorded_zip(2) [OF rec m] show ?thesis by blast
  qed
  with src p(3) show ?thesis unfolding verified_def by (intro exI [of _ css] exI [of _ "unsafe @ safe"]) blast
qed

theorem block_signatures_verified_witness:
  "\<forall>bl :: (unit, unit, unit) blst. \<exists>cs pairs. block_source (ex_dialect bl) (generator_input ex_input) ex_final cs \<and>
     (\<forall>c \<in> set cs. \<forall>key msg. signed_data (\<lambda>_. zeros) (spend_coin ex_final) zeros c = Some (key, msg) \<longrightarrow> (key, msg) \<in> set pairs)"
proof
  fix bl :: "(unit, unit, unit) blst"
  have "dialect_sha256 (ex_dialect bl) = (\<lambda>_. zeros)" "agg_sig_me_additional_data ex_constants = zeros"
    by (simp_all add: ex_dialect_def ex_constants_def)
  with block_signatures_verified [OF ex_accepted [of bl] laid_out_place]
  show "\<exists>cs pairs. block_source (ex_dialect bl) (generator_input ex_input) ex_final cs \<and>
     (\<forall>c \<in> set cs. \<forall>key msg. signed_data (\<lambda>_. zeros) (spend_coin ex_final) zeros c = Some (key, msg) \<longrightarrow> (key, msg) \<in> set pairs)"
    by (auto simp: list_all2_Cons1) blast
qed

text \<open>
  C0: the claimed cost of an accepted block is the whole of its cost: the bytes of the generator at the price of a
  byte, the run of the generator, the run of every puzzle, and the price of every condition; and it is within the
  limit of a block. Nothing is left out when a counter of 64 bits wraps around, and each puzzle's cost is recorded
  with its spend.
\<close>

theorem block_cost_accounted:
  assumes "validate_transaction_block d layout b input = Some (Inr r)" "laid_out layout"
  shows "\<exists>css base. list_all2 (\<lambda>s cs. block_source d (generator_input input) s cs \<and>
        unat (condition_cost s) = sum_list (map cost_of cs)) (sb_spends (res_conditions r)) css \<and>
      generator_cost d (generator_input input) base \<and>
      unat (ti_cost (block_info input)) =
        base + sum_list (map (\<lambda>s. unat (execution_cost s)) (sb_spends (res_conditions r))) + total cost_of css \<and>
      ti_cost (block_info input) \<le> max_block_cost_clvm (gen_constants (generator_input input))"
proof -
  from accepted_settled [OF assms] obtain css where "settled d (generator_input input) (res_conditions r) css" by blast
  note s = settledD [OF this]
  note i = check_info_Inr(1) [OF validate_transaction_block_Inr(2) [OF assms(1)]]
  have "list_all2 (\<lambda>s cs. block_source d (generator_input input) s cs \<and>
      unat (condition_cost s) = sum_list (map cost_of cs)) (sb_spends (res_conditions r)) css"
    using s(1) by (rule list_all2_mono) (simp add: accounted_def)
  with s(7,8) show ?thesis unfolding i max_cost_of_def by blast
qed

theorem block_cost_accounted_witness:
  "\<forall>bl :: (unit, unit, unit) blst. \<exists>cs base. block_source (ex_dialect bl) (generator_input ex_input) ex_final cs \<and>
     generator_cost (ex_dialect bl) (generator_input ex_input) base \<and> 4500040 = base + 20 + sum_list (map cost_of cs)"
proof
  fix bl :: "(unit, unit, unit) blst"
  have "execution_cost ex_final = 20" by (simp add: ex_final_def)
  from block_cost_accounted [OF ex_accepted [of bl] laid_out_place] this
  obtain cs base where "block_source (ex_dialect bl) (generator_input ex_input) ex_final cs"
    "generator_cost (ex_dialect bl) (generator_input ex_input) base" "4500040 = base + 20 + sum_list (map cost_of cs)"
    by (auto simp: list_all2_Cons1 total_def)
  then show "\<exists>cs base. block_source (ex_dialect bl) (generator_input ex_input) ex_final cs \<and>
     generator_cost (ex_dialect bl) (generator_input ex_input) base \<and> 4500040 = base + 20 + sum_list (map cost_of cs)" by blast
qed

text \<open>
  C0: the checks that need the whole block decide exactly the stated law. \<^verbatim>\<open>validate_block_conditions\<close> accepts if and
  only if the height and time are within the bounds, no coin is spent or created twice, the locks of every coin that
  the chain knows are open, every asserted announcement was made, every asserted coin and puzzle is spent in the
  block, every ephemeral coin has its parent, and the messages sent are the messages received, as multisets.
\<close>

theorem block_conditions_decided:
  "validate_block_conditions sha conds ctx = Inr () \<longleftrightarrow> lawful sha conds ctx"
  by (rule validate_block_conditions_iff)

section \<open>Verification with deduplicated keys\<close>

lemma distinct_keys_set:
  "length (distinct_keys keys seen) \<le> DEDUP_MAX_DISTINCT_KEYS \<Longrightarrow> set (distinct_keys keys seen) = set keys \<union> set seen"
  by (induction keys seen rule: distinct_keys.induct) (auto simp: Let_def split: if_splits)

text \<open>The verification without the cache: every occurrence of a key is parsed and validated by the library.\<close>

definition verify_each :: "('pk, 'sig) blst_keys \<Rightarrow> bytes list \<Rightarrow> bytes list \<Rightarrow> 'sig \<Rightarrow> bool" where
  "verify_each b keys messages signature =
     sig_aggregate_verify b signature True (map2 (@) keys messages) AUG_SCHEME_DST
       (map (\<lambda>key. case pk_from_bytes b key of Some pk \<Rightarrow> pk | None \<Rightarrow> pk_default b) keys) True"

text \<open>
  C0: checking each distinct key once changes no verdict. Under what \<^verbatim>\<open>blst\<close> documents, that verifying with validation
  is validating every key and verifying without, and that the default key is not valid, the verification that
  deduplicates keys gives the verdict of the one that parses and validates every occurrence, for every list of keys
  and messages.
\<close>

theorem deduplication_invisible:
  assumes "\<And>signature group messages dst pks. sig_aggregate_verify b signature group messages dst pks True \<longleftrightarrow>
      list_all (pk_validate b) pks \<and> sig_aggregate_verify b signature group messages dst pks False"
    and "\<not> pk_validate b (pk_default b)"
  shows "aggregate_verify_deduped b keys messages signature \<longleftrightarrow> verify_each b keys messages signature"
proof -
  let ?seen = "distinct_keys keys []"
  let ?ok = "\<lambda>key. case pk_from_bytes b key of Some pk \<Rightarrow> pk_validate b pk | None \<Rightarrow> False"
  let ?pk = "\<lambda>key. case pk_from_bytes b key of Some pk \<Rightarrow> pk | None \<Rightarrow> pk_default b"
  have ok: "?ok key \<longleftrightarrow> pk_validate b (?pk key)" for key using assms(2) by (simp split: option.split)
  show ?thesis
  proof (cases "length ?seen \<le> DEDUP_MAX_DISTINCT_KEYS \<and> length ?seen * 2 \<le> length keys")
    case True
    then have s: "set ?seen = set keys" using distinct_keys_set [of keys "[]"] by simp
    have m: "list_all ?ok ?seen \<Longrightarrow> map (\<lambda>key. the (pk_from_bytes b key)) keys = map ?pk keys"
      by (auto simp: list_all_iff s split: option.splits)
    have v: "list_all ?ok ?seen \<longleftrightarrow> list_all (pk_validate b) (map ?pk keys)"
      by (simp add: list_all_iff s ok)
    have d: "aggregate_verify_deduped b keys messages signature \<longleftrightarrow> list_all ?ok ?seen \<and>
        sig_aggregate_verify b signature True (map2 (@) keys messages) AUG_SCHEME_DST (map (\<lambda>key. the (pk_from_bytes b key)) keys) False"
      using True by (simp add: aggregate_verify_deduped_def Let_def)
    show ?thesis unfolding d verify_each_def assms(1) using m v by metis
  next
    case False
    then show ?thesis by (auto simp: aggregate_verify_deduped_def verify_each_def Let_def)
  qed
qed

theorem deduplication_invisible_witness:
  "aggregate_verify_deduped ex_keys [some_key, some_key] [[1], [2]] () \<longleftrightarrow> verify_each ex_keys [some_key, some_key] [[1], [2]] ()"
  by (rule deduplication_invisible) (auto simp: ex_keys_def)

section \<open>Conditions in the arena\<close>

text \<open>
  C0: reading a puzzle's conditions out of the interpreter's memory is reading them from the tree it denotes. The
  walk always ends, applies the conditions in order with the running cost checked after each, and differs in nothing
  from the recursive walk over the value; in particular sharing and inlined atoms of the arena do not matter.
\<close>

theorem arena_conditions_agree:
  assumes "contents_ok a" "den a p t"
  shows "parse_and_apply_spend_from_arena sha k a p coin conds x max_cost mempool =
    Some (bind_res (start_spend sha coin mempool conds x) (\<lambda>st.
      bind_res (walk_conditions sha k mempool coin max_cost t 0 st) (\<lambda>(s, b, x').
        Inr (finalize_spend s x' x mempool, b, x'))))"
  by (cases "start_spend sha coin mempool conds x")
    (auto simp: parse_and_apply_spend_from_arena_def arena_conditions_loop_den [OF assms] bind_opt_def bind_res_def
      split: sum.split)

text \<open>A quoted list of conditions after its run.\<close>

theorem arena_conditions_agree_witness:
  "\<forall>bl :: (unit, unit, unit) blst. \<exists>rt p. run_in_arena (new_runtime (ex_dialect bl) 1000) (Pair (Atom [1]) ex_conditions) NULL_SEXP =
      Some (rt, Inr (20, p)) \<and>
    parse_and_apply_spend_from_arena (\<lambda>_. zeros) ex_constants (rt_arena rt) p ex_coin (empty_conditions 1500040) 0 11000000000 False =
      Some (Inr (finalize_spend ex_spend 3000000 0 False, ex_totals, 3000000))"
proof
  fix bl :: "(unit, unit, unit) blst"
  from run_in_arena_quote_fits [OF ex_fits(2), of 1000 "ex_dialect bl"]
  obtain rt p where r: "run_in_arena (new_runtime (ex_dialect bl) 1000) (Pair (Atom [1]) ex_conditions) NULL_SEXP =
      Some (rt, Inr (20, p))" "contents_ok (rt_arena rt)" "den (rt_arena rt) p ex_conditions" by auto
  from arena_conditions_agree [OF r(2,3), of "\<lambda>_. zeros" ex_constants ex_coin "empty_conditions 1500040" 0 11000000000 False] r(1)
  show "\<exists>rt p. run_in_arena (new_runtime (ex_dialect bl) 1000) (Pair (Atom [1]) ex_conditions) NULL_SEXP =
      Some (rt, Inr (20, p)) \<and>
    parse_and_apply_spend_from_arena (\<lambda>_. zeros) ex_constants (rt_arena rt) p ex_coin (empty_conditions 1500040) 0 11000000000 False =
      Some (Inr (finalize_spend ex_spend 3000000 0 False, ex_totals, 3000000))"
    by (auto simp: ex_started ex_applied)
qed

end
