(* ===== verification/ConditionCodec.thy ===== *)
theory ConditionCodec
  imports Conditions
begin

text \<open>
  Conditions as values: what \<^verbatim>\<open>op_code_with_args\<close> writes, \<^verbatim>\<open>TryFrom<&SExp>\<close> reads back.
\<close>

section \<open>Numbers\<close>

definition uint_atom :: "'a::len word \<Rightarrow> bytes" where
  "uint_atom num = (if num = 0 then [] else trim_i128 (be_bytes (LENGTH('a) div 8) (unat num)))"

lemma sexp_of_uint_atom: "sexp_of_uint num = Atom (uint_atom num)"
  by (simp add: sexp_of_uint_def uint_atom_def NULL_SEXP_def)

lemma from_signed_small:
  assumes "bs \<noteq> []" "be_nat bs < 128 * 256 ^ (length bs - 1)"
  shows "from_signed_bytes_be bs = int (be_nat bs)"
proof -
  obtain b cs where bs: "bs = b # cs" using assms(1) by (cases bs) auto
  let ?v = "from_signed_bytes_be bs" and ?m = "256 ^ length cs :: int"
  have r: "- (128 * ?m) \<le> ?v" "?v < 128 * ?m" using from_signed_range [OF assms(1)] by (simp_all add: bs)
  have n: "int (be_nat bs) < 128 * ?m"
    using assms(2) unfolding bs by (simp only: length_Cons diff_Suc_1 flip: of_nat_less_iff [where ?'a = int]) simp
  have mod: "?v mod (256 * ?m) = int (be_nat bs)" using from_signed_mod [of bs] by (simp add: bs)
  have pos: "0 < ?m" by simp
  show ?thesis
  proof (cases "0 \<le> ?v")
    case True
    with r pos have "?v mod (256 * ?m) = ?v" by (intro mod_pos_pos_trivial) linarith+
    with mod show ?thesis by simp
  next
    case False
    have "?v mod (256 * ?m) = (?v + 256 * ?m) mod (256 * ?m)" by simp
    also have "\<dots> = ?v + 256 * ?m" using r False pos by (intro mod_pos_pos_trivial) linarith+
    finally show ?thesis using mod n r by linarith
  qed
qed

lemma uint_atom_value:
  fixes num :: "'a::len word"
  assumes len: "LENGTH('a) = 8 * Suc n" and small: "unat num < 2 ^ (LENGTH('a) - 1)"
  shows "number_from_slice (uint_atom num) = int (unat num)"
proof (cases "num = 0")
  case True
  then show ?thesis by (simp add: uint_atom_def number_from_slice_def)
next
  case False
  let ?bs = "be_bytes (Suc n) (unat num)"
  have "unat num < 2 ^ (8 * Suc n)" unfolding len [symmetric] by (rule unsigned_less)
  then have "unat num < 256 ^ Suc n" by (simp add: power_mult del: power_Suc mult_Suc_right)
  then have v: "be_nat ?bs = unat num" by (simp only: be_nat_be_bytes mod_less)
  have "128 * 256 ^ n = (2 :: nat) ^ (LENGTH('a) - 1)"
    by (simp add: len power_add power_mult)
  with small v have "from_signed_bytes_be ?bs = int (unat num)" by (subst from_signed_small) auto
  moreover have "uint_atom num = strip_sign ?bs" using False by (simp add: uint_atom_def len trim_i128_strip)
  moreover have "?bs \<noteq> []" by (metis length_be_bytes list.size(3) nat.distinct(1))
  ultimately show ?thesis using strip_sign_spec(1,3) [of ?bs] by (simp add: number_from_slice_def)
qed


lemma u64_atom: "unat num < 2 ^ 63 \<Longrightarrow> u64_from_bigint (number_from_slice (uint_atom num)) = Some (num :: u64)"
  "unat num < 2 ^ 63 \<Longrightarrow> saturating_u64_from_bigint (number_from_slice (uint_atom num)) = num"
  using uint_atom_value [of 7 num] uint_bounded [of num]
  by (simp_all add: u64_from_bigint_def saturating_u64_from_bigint_def)

lemma u32_atom: "unat num < 2 ^ 31 \<Longrightarrow> saturating_u32_from_bigint (number_from_slice (uint_atom num)) = (num :: u32)"
  using uint_atom_value [of 3 num] uint_bounded [of num] by (simp add: saturating_u32_from_bigint_def)

text \<open>The unsigned reader of four bytes.\<close>

lemma shift_or: "push_bit 8 r OR ucast (b :: u8) = r * 256 + (ucast b :: 'a::len word)"
proof -
  have "push_bit 8 r + ucast b = push_bit 8 r OR (ucast b :: 'a word)"
    by (rule disjunctive_add) (auto simp: bit_push_bit_iff bit_ucast_iff dest: bit_imp_le_length)
  then show ?thesis by (simp add: push_bit_eq_mult)
qed

lemma fold_bytes: "foldl (\<lambda>r b. push_bit 8 r OR ucast (b :: u8)) (of_nat n) bs = (of_nat (n * 256 ^ length bs + be_nat bs) :: 'a::len word)"
proof (induction bs arbitrary: n)
  case (Cons b bs)
  have "push_bit 8 (of_nat n) OR ucast b = (of_nat (n * 256 + unat b) :: 'a word)" by (simp add: shift_or)
  with Cons.IH [of "n * 256 + unat b"] show ?case by (simp add: algebra_simps)
qed simp

lemma u32_from_slice_eq: "length bs \<le> 4 \<Longrightarrow> u32_from_slice bs = Some (of_nat (be_nat bs))"
  using fold_bytes [of 0 bs, where ?'a = 32] by (auto simp: u32_from_slice_def u32_from_slice_impl_def Let_def)

lemma u32_slice: "unat num < 2 ^ 31 \<Longrightarrow> u32_from_slice (uint_atom num) = Some (num :: u32)"
proof (cases "num = 0")
  case True
  then show ?thesis by (simp add: uint_atom_def u32_from_slice_eq)
next
  case False
  assume small: "unat num < 2 ^ 31"
  let ?a = "uint_atom num"
  have a: "?a = strip_sign (be_bytes 4 (unat num))" using False by (simp add: uint_atom_def trim_i128_strip)
  then have l: "length ?a \<le> 4" using strip_sign_spec(4) [of "be_bytes 4 (unat num)"] by simp
  have v: "number_from_slice ?a = int (unat num)" using uint_atom_value [of 3 num] small by simp
  have "?a \<noteq> []" unfolding a strip_sign_spec(3) by (metis length_be_bytes list.size(3) zero_neq_numeral)
  then have "from_signed_bytes_be ?a = int (unat num)" using v by (simp add: number_from_slice_def)
  with from_signed_mod [of ?a] have m: "int (be_nat ?a) = int (unat num) mod 256 ^ length ?a" by simp
  have "0 < length ?a" using \<open>?a \<noteq> []\<close> by simp
  then have "int (unat num) < 128 * 256 ^ (length ?a - 1)"
    using from_signed_range(2) [OF \<open>?a \<noteq> []\<close>] v \<open>?a \<noteq> []\<close> by (simp add: number_from_slice_def)
  also have "\<dots> < 256 * 256 ^ (length ?a - 1)" by simp
  also have "\<dots> = 256 ^ length ?a" using \<open>0 < length ?a\<close> by (simp add: power_eq_if)
  finally have "int (be_nat ?a) = int (unat num)" using m by simp
  then have "be_nat ?a = unat num" by (simp only: of_nat_eq_iff)
  with l show ?thesis by (simp add: u32_from_slice_eq)
qed

section \<open>Conditions\<close>

lemma opcode_roundtrip: "opcode_from (opcode_value opcode) = opcode"
  by (cases opcode) (simp_all add: opcode_from_def)

lemma opcode_value_0: "opcode_value opcode = 0 \<longleftrightarrow> opcode = OpUnknown"
  by (cases opcode) simp_all

lemma sexp_iter_list: "sexp_iter (foldr Pair ts NULL_SEXP) = ts"
  by (induction ts) (simp_all add: NULL_SEXP_def)

lemma condition_items_atoms: "condition_items i False opcode vars (map Atom xs) = Inr (opcode, vars @ xs)"
  by (induction xs arbitrary: i vars) simp_all


fun atom_data :: "sexp \<Rightarrow> bytes" where
  "atom_data (Atom a) = a"
| "atom_data (Pair _ _) = []"

fun is_atom_sexp :: "sexp \<Rightarrow> bool" where
  "is_atom_sexp (Atom a) \<longleftrightarrow> True"
| "is_atom_sexp (Pair _ _) \<longleftrightarrow> False"

lemma atoms_data: "list_all is_atom_sexp ts \<Longrightarrow> map Atom (map atom_data ts) = ts"
proof (induction ts)
  case (Cons t ts)
  then show ?case by (cases t) simp_all
qed simp

lemma condition_from_atoms:
  assumes "op_code_with_args c = (opcode, vars)" "list_all is_atom_sexp vars" "opcode \<noteq> OpUnknown"
    "vars \<noteq> [] \<or> opcode \<in> {OpAssertEphemeral, OpRemark}"
  shows "condition_try_from (condition_sexp c) = from_opcode_with_args opcode (map atom_data vars)"
proof -
  define xs where "xs = map atom_data vars"
  have "vars = map Atom xs" using atoms_data [OF assms(2)] by (simp add: xs_def)
  with assms(1,3,4) show ?thesis
    by (auto simp: condition_try_from_def op_code_with_args_from_sexp_def condition_sexp_def sexp_iter_list sexp_of_u8_def
      opcode_value_0 opcode_roundtrip condition_items_atoms comp_def)
qed

text \<open>The arguments of a message fit its mode.\<close>

fun args_fit :: "message_args_type \<Rightarrow> message_args \<Rightarrow> bool" where
  "args_fit TyNone MsgNone \<longleftrightarrow> True"
| "args_fit TyCoinId (MsgCoinId i) \<longleftrightarrow> length i = 32"
| "args_fit TyParent (MsgParent p) \<longleftrightarrow> length p = 32"
| "args_fit TyPuzzle (MsgPuzzle h) \<longleftrightarrow> length h = 32"
| "args_fit TyAmount (MsgAmount a) \<longleftrightarrow> unat a < 2 ^ 63"
| "args_fit TyParentPuzzle (MsgParentPuzzle p h) \<longleftrightarrow> length p = 32 \<and> length h = 32"
| "args_fit TyParentAmount (MsgParentAmount p a) \<longleftrightarrow> length p = 32 \<and> unat a < 2 ^ 63"
| "args_fit TyPuzzleAmount (MsgPuzzleAmount h a) \<longleftrightarrow> length h = 32 \<and> unat a < 2 ^ 63"
| "args_fit _ _ \<longleftrightarrow> False"

fun args_atoms :: "message_args \<Rightarrow> bytes list" where
  "args_atoms MsgNone = []"
| "args_atoms (MsgCoinId i) = [i]"
| "args_atoms (MsgParent p) = [p]"
| "args_atoms (MsgPuzzle h) = [h]"
| "args_atoms (MsgAmount a) = [uint_atom a]"
| "args_atoms (MsgParentPuzzle p h) = [p, h]"
| "args_atoms (MsgParentAmount p a) = [p, uint_atom a]"
| "args_atoms (MsgPuzzleAmount h a) = [h, uint_atom a]"

lemma msg_args_atoms: "msg_args_sexp_ary args = map Atom (args_atoms args)"
  by (cases args) (simp_all add: sexp_of_uint_atom)

lemma sized_from_same: "length v = n \<Longrightarrow> sized_from n v = v"
  by (simp add: sized_from_def)

lemma message_args_roundtrip: "args_fit ty args \<Longrightarrow> message_args_of ty (args_atoms args) = Inr args"
  by (cases "(ty, args)" rule: args_fit.cases) (simp_all add: sized_from_same u64_atom)

text \<open>
  The conditions that can be written and read: hashes and keys of their sizes, messages within the limit, numbers
  without the sign bit, at least one memo, a remark without content, a mode that is not zero.
\<close>

fun writable :: "condition_with_args \<Rightarrow> bool" where
  "writable Unknown \<longleftrightarrow> False"
| "writable (Remark msg) \<longleftrightarrow> msg = []"
| "writable (AggSigParent key msg) \<longleftrightarrow> length key = 48 \<and> length msg \<le> 1024"
| "writable (AggSigPuzzle key msg) \<longleftrightarrow> length key = 48 \<and> length msg \<le> 1024"
| "writable (AggSigAmount key msg) \<longleftrightarrow> length key = 48 \<and> length msg \<le> 1024"
| "writable (AggSigPuzzleAmount key msg) \<longleftrightarrow> length key = 48 \<and> length msg \<le> 1024"
| "writable (AggSigParentAmount key msg) \<longleftrightarrow> length key = 48 \<and> length msg \<le> 1024"
| "writable (AggSigParentPuzzle key msg) \<longleftrightarrow> length key = 48 \<and> length msg \<le> 1024"
| "writable (AggSigUnsafe key msg) \<longleftrightarrow> length key = 48 \<and> length msg \<le> 1024"
| "writable (AggSigMe key msg) \<longleftrightarrow> length key = 48 \<and> length msg \<le> 1024"
| "writable (CreateCoin ph amt memos) \<longleftrightarrow> length ph = 32 \<and> unat amt < 2 ^ 63 \<and> memos \<noteq> [] \<and> (\<forall>m \<in> set memos. length m < 2 ^ 34)"
| "writable (ReserveFee fee) \<longleftrightarrow> unat fee < 2 ^ 63"
| "writable (CreateCoinAnnouncement msg) \<longleftrightarrow> length msg \<le> 1024"
| "writable (CreatePuzzleAnnouncement msg) \<longleftrightarrow> length msg \<le> 1024"
| "writable (AssertCoinAnnouncement h) \<longleftrightarrow> length h = 32"
| "writable (AssertPuzzleAnnouncement h) \<longleftrightarrow> length h = 32"
| "writable (AssertConcurrentSpend h) \<longleftrightarrow> length h = 32"
| "writable (AssertConcurrentPuzzle h) \<longleftrightarrow> length h = 32"
| "writable (SendMessage mode msg args) \<longleftrightarrow> mode \<noteq> 0 \<and> mode AND 0xc0 = 0 \<and> length msg \<le> 1024 \<and> args_fit (send_message_mode mode) args"
| "writable (ReceiveMessage mode msg args) \<longleftrightarrow>
     mode \<noteq> 0 \<and> mode AND 0xc0 = 0 \<and> length msg \<le> 1024 \<and> args_fit (receive_message_mode mode) args"
| "writable (AssertMyCoinId h) \<longleftrightarrow> length h = 32"
| "writable (AssertMyParentId h) \<longleftrightarrow> length h = 32"
| "writable (AssertMyPuzzlehash h) \<longleftrightarrow> length h = 32"
| "writable (AssertMyAmount amt) \<longleftrightarrow> unat amt < 2 ^ 63"
| "writable (AssertMyBirthSeconds t) \<longleftrightarrow> unat t < 2 ^ 63"
| "writable (AssertMyBirthHeight h) \<longleftrightarrow> unat h < 2 ^ 31"
| "writable AssertEphemeral \<longleftrightarrow> True"
| "writable (AssertSecondsRelative t) \<longleftrightarrow> unat t < 2 ^ 63"
| "writable (AssertSecondsAbsolute t) \<longleftrightarrow> unat t < 2 ^ 63"
| "writable (AssertHeightRelative h) \<longleftrightarrow> unat h < 2 ^ 31"
| "writable (AssertHeightAbsolute h) \<longleftrightarrow> unat h < 2 ^ 31"
| "writable (AssertBeforeSecondsRelative t) \<longleftrightarrow> unat t < 2 ^ 63"
| "writable (AssertBeforeSecondsAbsolute t) \<longleftrightarrow> unat t < 2 ^ 63"
| "writable (AssertBeforeHeightRelative h) \<longleftrightarrow> unat h < 2 ^ 31"
| "writable (AssertBeforeHeightAbsolute h) \<longleftrightarrow> unat h < 2 ^ 31"
| "writable (SoftFork _) \<longleftrightarrow> False"


lemma memo_atoms_list: "memo_atoms (map Atom ms) = Inr ms"
  by (induction ms) simp_all

lemma ref_list_list: "ref_list (foldr Pair ts NULL_SEXP) = ts"
  by (induction ts) (simp_all add: NULL_SEXP_def)

lemma atoms_below_list: "atoms_below n (foldr Pair ts NULL_SEXP) \<longleftrightarrow> (\<forall>t \<in> set ts. atoms_below n t) \<and> 0 < n"
  by (induction ts) (auto simp: NULL_SEXP_def)

lemma memos_roundtrip:
  assumes "memos \<noteq> []" "\<forall>m \<in> set memos. length m < 2 ^ 34"
  shows "\<exists>bs. sexp_to_bytes (memos_to_sexp memos) = Inr bs \<and> memos_from_bytes bs = Inr memos"
proof -
  let ?s = "memos_to_sexp memos"
  have s: "?s = foldr Pair (map Atom memos) NULL_SEXP" using assms(1) by (cases memos) (simp_all add: memos_to_sexp_def sexp_of_list_def)
  have "atoms_below (2 ^ 34) ?s" "atoms_below (2 ^ 63) ?s" using assms(2) by (auto simp: s atoms_below_list)
  with sexp_bytes_total [of ?s] obtain bs where bs: "sexp_bytes ?s = Inr bs" by (auto simp: is_ok_def split: sum.splits)
  have "sexp_from_bytes bs = Inr (?s, [])"
    using loop_roundtrip [OF bs \<open>atoms_below (2 ^ 63) ?s\<close>, of "[]" "[]" "[]"] sexp_bytes_nonempty [OF bs]
    by (simp add: sexp_from_bytes_def)
  then have "memos_from_bytes bs = Inr memos"
    by (simp add: memos_from_bytes_def memos_from_sexp_def s ref_list_list memo_atoms_list)
  with bs show ?thesis by (simp add: sexp_to_bytes_eq)
qed

lemma create_coin_roundtrip:
  assumes "writable (CreateCoin ph amt memos)"
  shows "condition_try_from (condition_sexp (CreateCoin ph amt memos)) = Inr (CreateCoin ph amt memos)"
proof -
  from assms obtain bs where bs: "sexp_to_bytes (memos_to_sexp memos) = Inr bs" "memos_from_bytes bs = Inr memos"
    using memos_roundtrip by auto
  obtain f r where p: "memos_to_sexp memos = Pair f r"
    using assms by (cases memos) (simp_all add: memos_to_sexp_def sexp_of_list_def)
  show ?thesis
    using assms bs p
    by (simp add: condition_try_from_def op_code_with_args_from_sexp_def condition_sexp_def sexp_of_u8_def sexp_of_uint_atom
        opcode_from_def NULL_SEXP_def create_coin_args_def sized_from_same u64_atom)
qed

lemmas reader_defs = key_and_message_def one_message_def one_hash_def one_u64_def one_seconds_def one_height_def
  mode_and_message_def birth_height_args_def message_new_def

text \<open>
  C0: a condition that is written is read back. For every condition with well-sized fields, parsing the value that
  \<^verbatim>\<open>op_code_with_args\<close> builds gives the condition: the opcode, the order of the arguments, the encoding of numbers,
  the mode bits of messages and the list of memos survive.
\<close>

theorem condition_roundtrip:
  assumes "writable c"
  shows "condition_try_from (condition_sexp c) = Inr c"
proof (cases "\<exists>ph amt memos. c = CreateCoin ph amt memos")
  case True
  with assms create_coin_roundtrip show ?thesis by blast
next
  case False
  obtain opcode vars where o: "op_code_with_args c = (opcode, vars)" by (cases "op_code_with_args c")
  have "list_all is_atom_sexp vars \<and> opcode \<noteq> OpUnknown \<and> (vars \<noteq> [] \<or> opcode \<in> {OpAssertEphemeral, OpRemark})"
    using False assms o by (cases c) (auto simp: sexp_of_uint_atom msg_args_atoms sexp_of_u8_def list_all_iff)
  then have "condition_try_from (condition_sexp c) = from_opcode_with_args opcode (map atom_data vars)"
    using condition_from_atoms [OF o] by blast
  also have "\<dots> = Inr c"
    using False assms o
    by (cases c) (auto simp: reader_defs sexp_of_uint_atom msg_args_atoms sexp_of_u8_def sized_from_same u64_atom u32_atom u32_slice
        comp_def message_args_roundtrip)
  finally show ?thesis .
qed

theorem condition_roundtrip_witness:
  "condition_try_from (condition_sexp (CreateCoin (replicate 32 7) 128 [[1, 2], []])) =
     Inr (CreateCoin (replicate 32 7) 128 [[1, 2], []])"
  by (rule condition_roundtrip) simp

end
