(* ===== verification/GeneratorCodec.thy ===== *)
theory GeneratorCodec
  imports BlockLayout ConditionCodec
begin

text \<open>
  Generators: the generator built for a list of spends has the predicted length, and gives the spends back.
\<close>

section \<open>Amounts\<close>

definition amount_atom :: "u64 \<Rightarrow> bytes" where
  "amount_atom a = bigint_to_bytes (uint a) (a \<noteq> 0)"

lemma amount_atom_number: "amount_atom a = number_bytes (BigInt (uint a))"
  by (simp add: amount_atom_def number_bytes_def bigint_to_bytes_def sgn_0_0)

lemma num_to_u64_val: "num_to_u64 n = (if 0 \<le> num_val n \<and> num_val n < 2 ^ 64 then Some (word_of_int (num_val n)) else None)"
proof (cases n)
  case (I128 i)
  have "0 \<le> sint i \<Longrightarrow> sint i = uint i"
    using sint_less [of i] by (simp add: uint_sint take_bit_int_eq_self)
  then show ?thesis by (auto simp: I128 num_to_u64_def ucast_eq)
qed (simp add: num_to_u64_def)

lemma parse_amount_atom: "parse_amount (Atom (amount_atom a)) = Inr a"
  using uint_bounded [of a] by (simp add: parse_amount_def num_to_u64_val num_val_from amount_atom_number)

lemma amount_atom_bounds:
  assumes "a \<noteq> 0"
  shows "amount_atom a \<noteq> []" "unat a < 128 * 256 ^ (length (amount_atom a) - 1)"
    "2 \<le> length (amount_atom a) \<Longrightarrow> 128 * 256 ^ (length (amount_atom a) - 2) \<le> unat a"
proof -
  let ?b = "amount_atom a"
  have s: "from_signed_bytes_be ?b = uint a" "\<not> redundant ?b" "?b \<noteq> []"
    using number_bytes_spec [of "BigInt (uint a)"] assms by (simp_all add: amount_atom_number uint_0_iff)
  then show "?b \<noteq> []" by simp
  have "uint a < 128 * 256 ^ (length ?b - 1)" using from_signed_range(2) [OF s(3)] s(1) by simp
  then have "int (unat a) < int (128 * 256 ^ (length ?b - 1))" by simp
  then show "unat a < 128 * 256 ^ (length ?b - 1)" by (simp only: of_nat_less_iff)
  assume "2 \<le> length ?b"
  from not_redundant_range [OF s(2) this] have "uint a < - (128 * 256 ^ (length ?b - 2)) \<or> 128 * 256 ^ (length ?b - 2) \<le> uint a"
    by (simp only: s(1))
  moreover have "0 \<le> uint a" "(0 :: int) < 128 * 256 ^ (length ?b - 2)" by simp_all
  ultimately have "128 * 256 ^ (length ?b - 2) \<le> uint a" by linarith
  then have "int (128 * 256 ^ (length ?b - 2)) \<le> int (unat a)" by simp
  then show "128 * 256 ^ (length ?b - 2) \<le> unat a" by (simp only: of_nat_le_iff)
qed

lemma amount_atom_length:
  assumes "unat a \<ge> 128"
  shows "2 \<le> length (amount_atom a)" "length (amount_atom a) \<le> 9"
proof -
  let ?k = "length (amount_atom a)"
  have nz: "a \<noteq> 0" using assms by auto
  note b = amount_atom_bounds [OF nz]
  have "?k \<noteq> 0" "?k \<noteq> 1" using b(1,2) assms by auto
  then show two: "2 \<le> ?k" by linarith
  show "?k \<le> 9"
  proof (rule ccontr)
    assume "\<not> ?k \<le> 9"
    then have "(256 :: nat) ^ 8 \<le> 256 ^ (?k - 2)" by (intro power_increasing) auto
    with b(3) [OF two] have "128 * 256 ^ 8 \<le> unat a" by linarith
    moreover have "unat a < 2 ^ 64" using unsigned_less [of a, where ?'a = nat] by simp
    ultimately show False by simp
  qed
qed

lemma clvm_bytes_len_correct:
  "\<exists>bs. atom_bytes (amount_atom a) = Inr bs \<and> length bs = clvm_bytes_len a"
proof (cases "unat a < 128")
  case True
  then have c: "clvm_bytes_len a = 1" by (simp add: clvm_bytes_len_def word_less_nat_alt)
  show ?thesis
  proof (cases "a = 0")
    case True
    then show ?thesis using c by (simp add: atom_bytes_def amount_atom_def bigint_to_bytes_def)
  next
    case False
    note b = amount_atom_bounds [OF False]
    have "length (amount_atom a) = 1"
    proof (rule ccontr)
      assume "length (amount_atom a) \<noteq> 1"
      then have two: "2 \<le> length (amount_atom a)" using b(1) by (cases "amount_atom a") (auto simp: Suc_le_eq)
      have "(1 :: nat) \<le> 256 ^ (length (amount_atom a) - 2)" by simp
      with b(3) [OF two] True show False by linarith
    qed
    then obtain x where x: "amount_atom a = [x]" by (auto simp: length_Suc_conv)
    have "from_signed_bytes_be [x] = uint a"
      using number_bytes_spec(1) [of "BigInt (uint a)"] x by (simp add: amount_atom_number)
    then have "sbyte x = uint a" by (simp add: from_signed_Cons)
    then have "unat x < 128" using sbyte_cases [of x] uint_ge_0 [of a] by linarith
    then show ?thesis by (simp add: c x atom_bytes_def markers word_le_nat_alt)
  qed
next
  case False
  let ?k = "length (amount_atom a)"
  note k = amount_atom_length [of a] and b = amount_atom_bounds [of a]
  have nz: "a \<noteq> 0" using False by auto
  have len: "2 \<le> ?k" "?k \<le> 9" using k False by auto
  then have ab: "atom_bytes (amount_atom a) = Inr (ucast (0x80 OR (of_nat ?k :: u64)) # amount_atom a)"
    using b(1) [OF nz] by (auto simp: atom_bytes_def encode_size_def word_less_nat_alt unat_of_nat take_bit_nat_eq_self)
  have lo: "128 * 256 ^ (?k - 2) \<le> unat a" and hi: "unat a < 128 * 256 ^ (?k - 1)" using b(2,3) nz len by auto
  have "?k = 2 \<or> ?k = 3 \<or> ?k = 4 \<or> ?k = 5 \<or> ?k = 6 \<or> ?k = 7 \<or> ?k = 8 \<or> ?k = 9" using len by linarith
  then have "clvm_bytes_len a = ?k + 1"
    using lo hi by (elim disjE) (simp_all add: clvm_bytes_len_def word_less_nat_alt)
  with ab show ?thesis by simp
qed


section \<open>The generator of a list of spends\<close>

text \<open>The serialized programs are canonical, the coin names its parent in full and commits to the puzzle.\<close>

definition spends_with :: "hash_fn \<Rightarrow> coin_spend \<Rightarrow> sexp \<Rightarrow> sexp \<Rightarrow> bool" where
  "spends_with sha s p q \<longleftrightarrow> sexp_bytes p = Inr (cs_puzzle_reveal s) \<and> sexp_bytes q = Inr (cs_solution s) \<and>
     atoms_below (2 ^ 63) p \<and> atoms_below (2 ^ 63) q \<and> length (parent_coin_info (cs_coin s)) = 32 \<and>
     puzzle_hash (cs_coin s) = tree_hash sha p"

definition spend_item :: "coin_spend \<Rightarrow> sexp \<Rightarrow> sexp \<Rightarrow> sexp" where
  "spend_item s p q = sexp_of_list [Atom (parent_coin_info (cs_coin s)), p, Atom (amount_atom (amount (cs_coin s))), q]"

lemma sexp_from_bytes_canonical: "sexp_bytes t = Inr bs \<Longrightarrow> atoms_below (2 ^ 63) t \<Longrightarrow> sexp_from_bytes bs = Inr (t, [])"
  using loop_roundtrip [of t bs "[]" "[]" "[]"] sexp_bytes_nonempty [of t bs] by (simp add: sexp_from_bytes_def)

lemma generator_items_spends:
  "list_all2 (\<lambda>s (p, q). spends_with sha s p q) ss ts \<Longrightarrow>
     generator_items ss = Inr (map2 (\<lambda>s (p, q). spend_item s p q) ss ts)"
  by (induction rule: list_all2_induct)
    (auto simp: spends_with_def sexp_from_bytes_canonical spend_item_def amount_atom_def)

lemma foldr_list: "sexp_of_list ts = foldr Pair ts NULL_SEXP"
  by (cases ts) (simp_all add: sexp_of_list_def)

text \<open>The bytes of an item, with the mark of the list that holds it.\<close>

lemma item_bytes:
  assumes "spends_with sha s p q"
  shows "\<exists>bs. sexp_bytes (spend_item s p q) = Inr bs \<and>
    Suc (length bs) = 39 + length (cs_puzzle_reveal s) + clvm_bytes_len (amount (cs_coin s)) + length (cs_solution s)"
proof -
  obtain am where am: "atom_bytes (amount_atom (amount (cs_coin s))) = Inr am" "length am = clvm_bytes_len (amount (cs_coin s))"
    using clvm_bytes_len_correct by blast
  have par: "atom_bytes (parent_coin_info (cs_coin s)) = Inr (0xa0 # parent_coin_info (cs_coin s))"
    using assms by (auto simp: spends_with_def atom_bytes_def encode_size_def)
  show ?thesis
    using assms am par by (auto simp: spends_with_def spend_item_def sexp_of_list_def NULL_SEXP_def atom_bytes_def [of "[]"])
qed

lemma fold_add: "fold (\<lambda>s n. n + f s) ss m = m + sum_list (map f ss)" for m :: nat
  by (induction ss arbitrary: m) simp_all

lemma generator_length_Cons:
  "spend_bundle_generator_length (s # ss) = 39 + length (cs_puzzle_reveal s) + clvm_bytes_len (amount (cs_coin s)) +
     length (cs_solution s) + spend_bundle_generator_length ss"
  by (simp add: spend_bundle_generator_length_def fold_add del: fold_simps)

lemma items_bytes:
  "list_all2 (\<lambda>s (p, q). spends_with sha s p q) ss ts \<Longrightarrow>
     \<exists>bs. sexp_bytes (foldr Pair (map2 (\<lambda>s (p, q). spend_item s p q) ss ts) NULL_SEXP) = Inr bs \<and>
       length bs + 4 = spend_bundle_generator_length ss"
proof (induction rule: list_all2_induct)
  case Nil
  show ?case by (simp add: NULL_SEXP_def atom_bytes_def spend_bundle_generator_length_def)
next
  case (Cons s ss t ts)
  obtain p q where t: "t = (p, q)" by (cases t)
  from Cons obtain bs where bs: "sexp_bytes (foldr Pair (map2 (\<lambda>s (p, q). spend_item s p q) ss ts) NULL_SEXP) = Inr bs"
    "length bs + 4 = spend_bundle_generator_length ss" by blast
  from item_bytes [of sha s p q] Cons t obtain ib where "sexp_bytes (spend_item s p q) = Inr ib"
    "Suc (length ib) = 39 + length (cs_puzzle_reveal s) + clvm_bytes_len (amount (cs_coin s)) + length (cs_solution s)" by auto
  with bs show ?case by (auto simp: t generator_length_Cons)
qed


definition all_items :: "coin_spend list \<Rightarrow> (sexp \<times> sexp) list \<Rightarrow> sexp" where
  "all_items ss ts = foldr Pair (map2 (\<lambda>s (p, q). spend_item s p q) ss ts) NULL_SEXP"

definition generator_of :: "coin_spend list \<Rightarrow> (sexp \<times> sexp) list \<Rightarrow> sexp" where
  "generator_of ss ts = Pair (Atom [1]) (Pair (all_items ss ts) NULL_SEXP)"

lemma simple_solution_generator_of:
  assumes "list_all2 (\<lambda>s (p, q). spends_with sha s p q) ss ts"
  shows "\<exists>bs. simple_solution_generator ss = Inr bs \<and> sexp_bytes (generator_of ss ts) = Inr bs \<and>
    length bs = spend_bundle_generator_length ss \<and> take 2 bs = [0xff, 0x01]"
proof -
  from items_bytes [OF assms] obtain ib where ib: "sexp_bytes (all_items ss ts) = Inr ib"
    "length ib + 4 = spend_bundle_generator_length ss" by (auto simp: all_items_def)
  have "sexp_bytes (generator_of ss ts) = Inr (0xff # 0x01 # 0xff # ib @ [0x80])"
    by (simp add: generator_of_def ib(1) atom_bytes_def markers NULL_SEXP_def)
  moreover have "build_generator_tree ss = Inr (generator_of ss ts)"
    by (simp add: build_generator_tree_def generator_items_spends [OF assms] generator_of_def all_items_def foldr_list)
  ultimately show ?thesis using ib(2) by (auto simp: simple_solution_generator_def sexp_to_bytes_eq)
qed

lemma tree_sizes: "sexp_bytes t = Inr bs \<Longrightarrow> n_atoms t \<le> length bs \<and> n_pairs t \<le> length bs \<and> n_bytes t \<le> length bs"
proof (induction t arbitrary: bs)
  case (Atom a)
  then show ?case by (auto simp: atom_bytes_def Suc_le_eq split: if_splits)
qed fastforce

lemma atoms_below_item: "spends_with sha s p q \<Longrightarrow> atoms_below (2 ^ 63) (spend_item s p q)"
proof -
  assume s: "spends_with sha s p q"
  have "length (amount_atom a) \<le> 9" for a
  proof (cases "unat a < 128")
    case True
    show ?thesis
    proof (cases "a = 0")
      case False
      have "\<not> 2 \<le> length (amount_atom a)"
      proof
        assume "2 \<le> length (amount_atom a)"
        from amount_atom_bounds(3) [OF False this] True
        have "128 * 256 ^ (length (amount_atom a) - 2) < (128 :: nat)" by linarith
        then show False by simp
      qed
      then show ?thesis by simp
    qed (simp add: amount_atom_def bigint_to_bytes_def)
  next
    case False
    then show ?thesis using amount_atom_length(2) by simp
  qed
  then have "length (amount_atom (amount (cs_coin s))) < 2 ^ 63" by (rule le_less_trans) simp
  with s show ?thesis by (simp add: spends_with_def spend_item_def sexp_of_list_def NULL_SEXP_def)
qed

lemma atoms_below_generator:
  assumes "list_all2 (\<lambda>s (p, q). spends_with sha s p q) ss ts"
  shows "atoms_below (2 ^ 63) (generator_of ss ts)"
proof -
  have "atoms_below (2 ^ 63) (all_items ss ts)"
    using assms unfolding all_items_def
    by (induction rule: list_all2_induct) (auto simp: NULL_SEXP_def dest: atoms_below_item)
  then show ?thesis by (simp add: generator_of_def NULL_SEXP_def)
qed

section \<open>Reading a generator\<close>

lemma listed_item:
  assumes "spends_with sha s p q"
  shows "listed_coin sha (ref_list (spend_item s p q)) = Inr (cs_coin s)"
    "listed_spend (cs_coin s) (ref_list (spend_item s p q)) = Inr s"
proof -
  have parts: "ref_list (spend_item s p q) = [Atom (parent_coin_info (cs_coin s)), p, Atom (amount_atom (amount (cs_coin s))), q]"
    by (simp only: spend_item_def foldr_list ref_list_list)
  show "listed_coin sha (ref_list (spend_item s p q)) = Inr (cs_coin s)"
    using assms unfolding parts
    by (simp add: listed_coin_def generator_coin_def parse_atom32_def sized_parse_same parse_amount_atom spends_with_def)
  show "listed_spend (cs_coin s) (ref_list (spend_item s p q)) = Inr s"
    using assms unfolding parts by (simp add: listed_spend_def serialized_def sexp_to_bytes_eq spends_with_def)
qed

lemma list_spends_items:
  "list_all2 (\<lambda>s (p, q). spends_with (dialect_sha256 d) s p q) ss ts \<Longrightarrow>
     list_spends d left flags False (map2 (\<lambda>s (p, q). spend_item s p q) ss ts) = Some (Inr (map (\<lambda>s. (s, [])) ss))"
  by (induction rule: list_all2_induct) (auto simp: bind_opt_def listed_item Let_def)

text \<open>
  C0: a generator gives its spends back. For spends whose programs are serialized canonically and whose coins commit
  to their puzzles, the generator that is built has exactly the length that was predicted for it, it is accepted as a
  simple generator, and reading the block that carries it, within the limits of size and cost, lists the very spends
  that went in, in order, with amounts and programs byte for byte.
\<close>

theorem generator_roundtrip:
  assumes "list_all2 (\<lambda>s (p, q). spends_with (dialect_sha256 d) s p q) ss ts"
    and "simple_solution_generator ss = Inr (transactions_generator input)"
    and "simple_generator (gen_flags input)"
    and "length (transactions_generator input) \<le> min 60000000 (unat (max_generator_size (gen_constants input)))"
    and "generator_budget input = Inr (byte_cost, left)" "left = 0 \<or> 20 \<le> left"
  shows "length (transactions_generator input) = spend_bundle_generator_length ss \<and>
    coin_spends_from_generator d input = Some (Inr ss)"
proof -
  let ?bs = "transactions_generator input" and ?g = "generator_of ss ts"
  from simple_solution_generator_of [OF assms(1)] assms(2) have g: "sexp_bytes ?g = Inr ?bs"
    "length ?bs = spend_bundle_generator_length ss" "take 2 ?bs = [0xff, 0x01]" by auto
  have parsed: "sexp_from_bytes_backrefs ?bs = Inr (?g, [])"
    by (rule backrefs_extend_plain [OF sexp_from_bytes_canonical [OF g(1) atoms_below_generator [OF assms(1)]]])
  have simple: "check_simple_generator ?bs ?g"
    using g(3) by (simp add: check_simple_generator_def starts_with_def generator_of_def numeral_2_eq_2)
  have "tree_fits ?g NULL_SEXP"
    using tree_sizes [OF g(1)] assms(4) by (simp add: tree_fits_def NULL_SEXP_def MAX_NUM_ATOMS_def MAX_NUM_PAIRS_def HEAP_LIMIT_def)
  from run_quote_fits [OF this [unfolded generator_of_def] assms(6), of d "clvm_flags (gen_flags input)"]
  have run: "program_run d left (clvm_flags (gen_flags input)) ?g NULL_SEXP = Some (Inr (20, Pair (all_items ss ts) NULL_SEXP))"
    by (simp add: generator_of_def)
  have "simple_spend_list d input = Some (Inr (left, map2 (\<lambda>s (p, q). spend_item s p q) ss ts))"
    using assms(3,4,5) parsed simple run by (simp add: simple_spend_list_def bind_opt_def all_items_def ref_list_list)
  then have "coin_spends_from_generator d input = Some (Inr ss)"
    by (simp add: coin_spends_from_generator_def run_simple_generator_spends_def list_spends_items [OF assms(1)] bind_opt_def comp_def)
  with g(2) show ?thesis by simp
qed


text \<open>A spend of 128 mojos, an amount whose encoding needs a sign byte.\<close>

definition listed_example :: coin_spend where
  "listed_example = \<lparr>cs_coin = \<lparr>parent_coin_info = replicate 32 3, puzzle_hash = replicate 32 0, amount = 128\<rparr>,
     cs_puzzle_reveal = [0xff, 0x01, 0x80], cs_solution = [0x80]\<rparr>"

definition listed_dialect :: "('a1, 'p1, 'p2) blst \<Rightarrow> ('a1, 'p1, 'p2) dialect" where
  "listed_dialect bl = \<lparr>dialect_flags = 0, dialect_sha256 = (\<lambda>_. replicate 32 0), dialect_blst = bl\<rparr>"

theorem generator_roundtrip_witness:
  "\<forall>bl :: (unit, unit, unit) blst. \<exists>input. length (transactions_generator input) = 51 \<and>
     coin_spends_from_generator (listed_dialect bl) input = Some (Inr [listed_example])"
proof
  fix bl :: "(unit, unit, unit) blst"
  let ?ts = "[(Pair (Atom [1]) NULL_SEXP, NULL_SEXP)]"
  have w: "list_all2 (\<lambda>s (p, q). spends_with (dialect_sha256 (listed_dialect bl)) s p q) [listed_example] ?ts"
    by (simp add: spends_with_def listed_example_def listed_dialect_def NULL_SEXP_def atom_bytes_def markers)
  from simple_solution_generator_of [OF w] obtain bs where bs: "simple_solution_generator [listed_example] = Inr bs"
    "length bs = spend_bundle_generator_length [listed_example]" by blast
  then have len: "length bs = 51" by (simp add: spend_bundle_generator_length_def listed_example_def clvm_bytes_len_def)
  define inp where "inp = \<lparr>transactions_generator = bs, generator_refs = [], gen_constants = MAINNET, gen_height = 10,
    gen_flags = \<lparr>clvm_flags = 0, simple_generator = True\<rparr>\<rparr>"
  have i: "transactions_generator inp = bs" "simple_generator (gen_flags inp)" "gen_constants inp = MAINNET" by (simp_all add: inp_def)
  have "generator_budget inp = Inr (612000, 10999388000)"
    by (simp add: generator_budget_def i len MAINNET_def checked_mul64_def checked_sub_def max_cost_of_def)
  from generator_roundtrip [OF w bs(1) [folded i(1)] i(2) _ this] have
    "length (transactions_generator inp) = 51 \<and> coin_spends_from_generator (listed_dialect bl) inp = Some (Inr [listed_example])"
    by (simp add: i len MAINNET_def)
  then show "\<exists>input. length (transactions_generator input) = 51 \<and>
     coin_spends_from_generator (listed_dialect bl) input = Some (Inr [listed_example])" by blast
qed

end
