(* ===== verification/AmountBytes.thy ===== *)
theory AmountBytes
  imports GeneratorCodec
begin

text \<open>
  Two encodings of an amount: the one that enters the id of a coin, and the one that enters a signed message.
\<close>

lemma bit_len_bounds: "n > 0 \<Longrightarrow> 0 < bit_len n \<and> 2 ^ (bit_len n - 1) \<le> n \<and> n < 2 ^ bit_len n"
proof (induction n rule: bit_len.induct)
  case (1 n)
  show ?case
  proof (cases "n div 2 = 0")
    case True
    then have "n = 1" using 1(2) by simp
    then show ?thesis by (simp add: bit_len.simps)
  next
    case False
    from 1(1) 1(2) False have IH: "0 < bit_len (n div 2)" "2 ^ (bit_len (n div 2) - 1) \<le> n div 2" "n div 2 < 2 ^ bit_len (n div 2)"
      by simp_all
    have l: "bit_len n = Suc (bit_len (n div 2))" using 1(2) by (simp add: bit_len.simps [of n])
    obtain k where k: "bit_len (n div 2) = Suc k" using IH(1) by (cases "bit_len (n div 2)") auto
    have "2 ^ k \<le> n div 2" "n div 2 < 2 * 2 ^ k" using IH(2,3) k by simp_all
    then have "2 * 2 ^ k \<le> n" "n < 2 * (2 * 2 ^ k)" by linarith+
    then show ?thesis using l k by simp
  qed
qed

text \<open>Big-endian bytes of the length of the minimal encoding are that encoding.\<close>

lemma amount_atom_be_bytes:
  assumes "a \<noteq> 0" "0 < n" "unat a < 128 * 256 ^ (n - 1)" "2 \<le> n \<Longrightarrow> 128 * 256 ^ (n - 2) \<le> unat a"
  shows "be_bytes n (unat a) = amount_atom a"
proof -
  let ?b = "be_bytes n (unat a)"
  note b = amount_atom_bounds [OF assms(1)]
  have pow: "(256 :: nat) ^ n = 256 * 256 ^ (n - 1)" using assms(2) by (cases n) simp_all
  have ne: "?b \<noteq> []" using assms(2) by (metis length_be_bytes list.size(3) less_irrefl)
  have "unat a < 256 ^ n" using assms(3) pow by linarith
  then have v: "be_nat ?b = unat a" by simp
  then have "from_signed_bytes_be ?b = int (unat a)" using from_signed_small [OF ne] assms(3) by simp
  then have val: "from_signed_bytes_be ?b = from_signed_bytes_be (amount_atom a)"
    using number_bytes_spec(1) [of "BigInt (uint a)"] by (simp add: amount_atom_number)
  have "length (amount_atom a) \<le> n"
    using minimal_length [of "amount_atom a" ?b] number_bytes_spec(2) [of "BigInt (uint a)"] val ne by (simp add: amount_atom_number)
  moreover have "n \<le> length (amount_atom a)"
  proof (cases "2 \<le> n")
    case True
    from le_less_trans [OF assms(4) [OF True] b(2)]
    have "(256 :: nat) ^ (n - 2) < 256 ^ (length (amount_atom a) - 1)" by simp
    then have "n - 2 < length (amount_atom a) - 1" by (rule power_less_imp_less_exp [rotated]) simp
    then show ?thesis by linarith
  next
    case False
    then show ?thesis using b(1) by (cases "amount_atom a") auto
  qed
  ultimately show ?thesis using from_signed_inj [OF _ val] by simp
qed

lemma coin_amount_atom: "coin_amount_bytes a = amount_atom a"
proof (cases "a = 0")
  case True
  then show ?thesis by (simp add: coin_amount_bytes_def amount_atom_def bigint_to_bytes_def)
next
  case False
  show ?thesis
  proof (cases "a \<ge> 0x8000000000000000")
    case True
    have "unat a < 2 ^ 64" using unsigned_less [of a, where ?'a = nat] by simp
    then have "be_bytes 9 (unat a) = 0 # be_bytes 8 (unat a)" by (simp add: be_bytes_numeral)
    moreover have "be_bytes 9 (unat a) = amount_atom a"
      using amount_atom_be_bytes [OF False, of 9] True \<open>unat a < 2 ^ 64\<close> by (simp add: word_le_nat_alt)
    ultimately show ?thesis using True by (simp add: coin_amount_bytes_def)
  next
    case small: False
    let ?l = "bit_len (unat a)"
    have pos: "unat a > 0" using False by (simp add: unat_gt_0)
    note bl = bit_len_bounds [OF pos]
    have "unat a < 2 ^ 63" using small by (simp add: word_le_nat_alt)
    then have "(2 :: nat) ^ (?l - 1) < 2 ^ 63" using bl by linarith
    then have "?l - 1 < 63" by (rule power_less_imp_less_exp [rotated]) simp
    then have l: "?l \<le> 63" "1 \<le> ?l" using bl by auto
    define start where "start = (64 - ?l + 7) div 8 - 1"
    define n where "n = 8 - start"
    have dv: "8 * ((71 - ?l) div 8) \<le> 71 - ?l" "71 - ?l < 8 * ((71 - ?l) div 8) + 8" by simp_all
    have "start = (71 - ?l) div 8 - 1" using l by (simp add: start_def)
    with dv l have n: "0 < n" "n + start = 8" "?l \<le> 8 * n - 1" "8 * n \<le> ?l + 8" unfolding n_def by linarith+
    have "(2 :: nat) ^ ?l \<le> 2 ^ (8 * n - 1)" using n(3) by (rule power_increasing) simp
    then have "unat a < 2 ^ (8 * n - 1)" using bl by linarith
    also have "\<dots> = 128 * 256 ^ (n - 1)"
    proof -
      have "8 * n - 1 = 7 + 8 * (n - 1)" using n(1) by linarith
      then show ?thesis by (simp add: power_add power_mult)
    qed
    finally have hi: "unat a < 128 * 256 ^ (n - 1)" .
    have lo: "128 * 256 ^ (n - 2) \<le> unat a" if "2 \<le> n"
    proof -
      have "128 * 256 ^ (n - 2) = (2 :: nat) ^ (7 + 8 * (n - 2))" by (simp add: power_add power_mult)
      also have "\<dots> \<le> 2 ^ (?l - 1)" using n(4) that by (intro power_increasing) linarith+
      also have "\<dots> \<le> unat a" using bl by simp
      finally show ?thesis .
    qed
    have "drop start (be_bytes 8 (unat a)) = be_bytes n (unat a)"
      using drop_be_bytes [of start n "unat a"] n(2) by (simp add: add.commute)
    also have "\<dots> = amount_atom a" by (rule amount_atom_be_bytes [OF False n(1) hi lo])
    finally show ?thesis using False small by (simp add: coin_amount_bytes_def start_def Let_def)
  qed
qed


lemma dropWhile_be_bytes:
  "0 < v \<Longrightarrow> v < 256 ^ k \<Longrightarrow>
     \<exists>m. 0 < m \<and> m \<le> k \<and> 256 ^ (m - 1) \<le> v \<and> v < 256 ^ m \<and> dropWhile (\<lambda>b. b = 0) (be_bytes k v) = be_bytes m v"
proof (induction k)
  case (Suc k)
  show ?case
  proof (cases "v < 256 ^ k")
    case True
    from Suc.IH [OF Suc.prems(1) True] True show ?thesis by (auto intro: le_SucI)
  next
    case False
    have "v div 256 ^ k < 256" using Suc.prems(2) by (simp add: less_mult_imp_div_less)
    moreover have "0 < v div 256 ^ k" using False by (simp add: div_greater_zero_iff)
    ultimately have "unat (of_nat (v div 256 ^ k) :: byte) \<noteq> 0" by (simp add: unat_of_nat take_bit_nat_eq_self)
    then have "(of_nat (v div 256 ^ k) :: byte) \<noteq> 0" by (metis unat_0)
    with False Suc.prems show ?thesis by (intro exI [of _ "Suc k"]) simp
  qed
qed simp

lemma top_bit: "bit a 63 \<longleftrightarrow> 2 ^ 63 \<le> unat (a :: u64)"
proof -
  have "unat a < 2 ^ 64" using unsigned_less [of a, where ?'a = nat] by simp
  then have "unat a div 2 ^ 63 = (if 2 ^ 63 \<le> unat a then 1 else 0)" by (simp add: div_nat_eqI)
  moreover have "bit a 63 \<longleftrightarrow> odd (unat a div 2 ^ 63)"
    unfolding bit_iff_odd [symmetric] by (simp add: bit_unsigned_iff)
  ultimately show ?thesis by simp
qed

text \<open>Both encodings below the top bit: big-endian bytes of the lengths the two rules give.\<close>

lemma u64_to_bytes_small:
  assumes "a \<noteq> 0" "unat a < 2 ^ 63"
  shows "\<exists>m. 0 < m \<and> m \<le> 8 \<and> 256 ^ (m - 1) \<le> unat a \<and> unat a < 256 ^ m \<and> u64_to_bytes a = be_bytes m (unat a)"
proof -
  have "0 < unat a" "unat a < 256 ^ 8" using assms by (simp_all add: unat_gt_0)
  from dropWhile_be_bytes [OF this] obtain m where "0 < m" "m \<le> 8" "256 ^ (m - 1) \<le> unat a" "unat a < 256 ^ m"
    "dropWhile (\<lambda>b. b = 0) (be_bytes 8 (unat a)) = be_bytes m (unat a)" by blast
  with assms(2) show ?thesis by (intro exI [of _ m]) (simp add: u64_to_bytes_def top_bit)
qed

lemma unsigned_length:
  assumes "0 < m" "256 ^ (m - 1) \<le> unat a" "unat a < 256 ^ m"
  shows "length (amount_atom a) = m \<longleftrightarrow> unat a < 128 * 256 ^ (m - 1)"
proof -
  have nz: "a \<noteq> 0" using assms(2) by (metis less_numeral_extra(3) not_less unat_0 zero_less_numeral zero_less_power)
  note b = amount_atom_bounds [OF nz]
  show ?thesis
  proof
    assume "length (amount_atom a) = m"
    with b(2) show "unat a < 128 * 256 ^ (m - 1)" by simp
  next
    assume hi: "unat a < 128 * 256 ^ (m - 1)"
    have "128 * 256 ^ (m - 2) \<le> unat a" if "2 \<le> m"
    proof -
      have "(256 :: nat) ^ (m - 1) = 256 * 256 ^ (m - 2)" using that by (cases m; cases "m - 1") simp_all
      with assms(2) show ?thesis by linarith
    qed
    from amount_atom_be_bytes [OF nz assms(1) hi this] show "length (amount_atom a) = m" by (metis length_be_bytes)
  qed
qed


text \<open>
  C0: the id of a coin holds its amount as a number is encoded, without a redundant byte and with a sign byte where
  the first byte needs one; the messages that signature conditions bind to an amount use an encoding that agrees
  with it exactly when the leading byte of the amount is below 0x80, or there is none, or all eight bytes are used:
  from 128 to 255 mojos, for instance, the two differ.
\<close>

theorem amount_encodings:
  "coin_amount_bytes a = number_bytes (BigInt (uint a)) \<and>
   (u64_to_bytes a = coin_amount_bytes a \<longleftrightarrow> \<not> (\<exists>k < 7. 128 * 256 ^ k \<le> unat a \<and> unat a < 256 ^ (k + 1)))"
proof (intro conjI)
  show "coin_amount_bytes a = number_bytes (BigInt (uint a))" by (simp add: coin_amount_atom amount_atom_number)
  show "u64_to_bytes a = coin_amount_bytes a \<longleftrightarrow> \<not> (\<exists>k < 7. 128 * 256 ^ k \<le> unat a \<and> unat a < 256 ^ (k + 1))"
  proof (cases "a \<noteq> 0 \<and> unat a < 2 ^ 63")
    case True
    then obtain m where m: "0 < m" "m \<le> 8" "256 ^ (m - 1) \<le> unat a" "unat a < 256 ^ m" "u64_to_bytes a = be_bytes m (unat a)"
      using u64_to_bytes_small by blast
    have only: "m = k + 1" if "128 * 256 ^ k \<le> unat a" "unat a < 256 ^ (k + 1)" for k
    proof -
      have p: "(256 :: nat) ^ (m - 1) < 256 ^ (k + 1)" "(256 :: nat) ^ k < 256 ^ m" using m(3,4) that by linarith+
      have "m - 1 < k + 1" "k < m" using power_less_imp_less_exp [OF _ p(1)] power_less_imp_less_exp [OF _ p(2)] by simp_all
      then show ?thesis by linarith
    qed
    have "u64_to_bytes a = coin_amount_bytes a \<longleftrightarrow> length (amount_atom a) = m"
    proof
      assume "length (amount_atom a) = m"
      with amount_atom_be_bytes [of a m] amount_atom_bounds [of a] True m(1,5) show "u64_to_bytes a = coin_amount_bytes a"
        by (simp add: coin_amount_atom)
    qed (metis coin_amount_atom length_be_bytes m(5))
    also have "\<dots> \<longleftrightarrow> unat a < 128 * 256 ^ (m - 1)" by (rule unsigned_length [OF m(1,3,4)])
    also have "\<dots> \<longleftrightarrow> \<not> (\<exists>k < 7. 128 * 256 ^ k \<le> unat a \<and> unat a < 256 ^ (k + 1))"
    proof
      assume "unat a < 128 * 256 ^ (m - 1)"
      then show "\<not> (\<exists>k < 7. 128 * 256 ^ k \<le> unat a \<and> unat a < 256 ^ (k + 1))" using only by fastforce
    next
      assume no: "\<not> (\<exists>k < 7. 128 * 256 ^ k \<le> unat a \<and> unat a < 256 ^ (k + 1))"
      show "unat a < 128 * 256 ^ (m - 1)"
      proof (cases "m = 8")
        case True
        then show ?thesis using \<open>a \<noteq> 0 \<and> unat a < 2 ^ 63\<close> by simp
      next
        case False
        with m have "m - 1 < 7" "m - 1 + 1 = m" by linarith+
        with no m(4) show ?thesis by (metis not_less)
      qed
    qed
    finally show ?thesis .
  next
    case False
    have "\<not> (\<exists>k < 7. 128 * 256 ^ k \<le> unat a \<and> unat a < 256 ^ (k + 1))"
    proof
      assume "\<exists>k < 7. 128 * 256 ^ k \<le> unat a \<and> unat a < 256 ^ (k + 1)"
      then obtain k where k: "k < 7" "128 * 256 ^ k \<le> unat a" "unat a < 256 ^ (k + 1)" by blast
      have "(256 :: nat) ^ (k + 1) \<le> 256 ^ 7" using k(1) by (intro power_increasing) auto
      moreover have "(256 :: nat) ^ 7 < 2 ^ 63" "0 < (128 :: nat) * 256 ^ k" by simp_all
      ultimately have "unat a < 2 ^ 63" "0 < unat a" using k by linarith+
      with False show False by auto
    qed
    moreover have "u64_to_bytes a = coin_amount_bytes a"
    proof (cases "a = 0")
      case False
      with \<open>\<not> (a \<noteq> 0 \<and> unat a < 2 ^ 63)\<close> have "2 ^ 63 \<le> unat a" by simp
      then show ?thesis by (simp add: u64_to_bytes_def coin_amount_bytes_def top_bit word_le_nat_alt)
    qed (simp add: u64_to_bytes_def coin_amount_bytes_def be_bytes_zero)
    ultimately show ?thesis by simp
  qed
qed


section \<open>Messages without a coin\<close>

lemma ends_with_append: "ends_with (s @ t) t"
  by (simp add: ends_with_def)

text \<open>
  C0: a message that is accepted for \<^verbatim>\<open>AGG_SIG_UNSAFE\<close> is never the message signed for one of the six conditions
  that bind a signature to parts of a coin, whatever the coin and whatever is signed: a signature for one cannot be
  replayed as the other. For \<^verbatim>\<open>AGG_SIG_ME\<close> there is no such protection: when its domain data does not happen to
  end in the suffix of another opcode, all its messages are accepted as unsafe ones.
\<close>

theorem unsafe_messages_separate:
  "(verify_agg_sig_unsafe_message sha msg k \<and>
      c \<in> {AggSigParent key m, AggSigPuzzle key m, AggSigAmount key m, AggSigPuzzleAmount key m, AggSigParentAmount key m,
        AggSigParentPuzzle key m} \<longrightarrow>
      signed_data sha coin (agg_sig_me_additional_data k) c \<noteq> Some (key', msg)) \<and>
   ((\<forall>b. length (sha b) = length (agg_sig_me_additional_data k) \<and> sha b \<noteq> agg_sig_me_additional_data k) \<longrightarrow>
      signed_data sha coin (agg_sig_me_additional_data k) (AggSigMe key m) = Some (key', msg) \<longrightarrow>
      verify_agg_sig_unsafe_message sha msg k)"
proof (intro conjI impI, goal_cases)
  case 1
  then have no: "\<not> ends_with msg (sha (agg_sig_me_additional_data k @ [opcode_value code]))"
    if "code \<in> {OpAggSigParent, OpAggSigPuzzle, OpAggSigAmount, OpAggSigPuzzleAmount, OpAggSigParentAmount, OpAggSigParentPuzzle}"
    for code using that by (auto simp: verify_agg_sig_unsafe_message_def)
  have app: "ends_with (u @ v @ w @ t) t" "ends_with (u @ v @ t) t" for u v w t :: bytes
    using ends_with_append [of "u @ v @ w" t] ends_with_append [of "u @ v" t] by simp_all
  show ?case
    using 1 no [of OpAggSigParent] no [of OpAggSigPuzzle] no [of OpAggSigAmount] no [of OpAggSigPuzzleAmount]
      no [of OpAggSigParentAmount] no [of OpAggSigParentPuzzle] app
    by (auto simp: signed_data_def agg_sig_additional_data_for_opcode_def Let_def)
next
  case 2
  then have "msg = m @ coin_name sha coin @ agg_sig_me_additional_data k"
    by (simp add: signed_data_def agg_sig_additional_data_for_opcode_def Let_def)
  then have "ends_with msg (sha b) \<Longrightarrow> sha b = agg_sig_me_additional_data k" for b
    using 2(1) by (simp add: ends_with_def)
  with 2(1) show ?case by (auto simp: verify_agg_sig_unsafe_message_def)
qed


text \<open>A toy network: domain data of one byte, and a hash that never is that byte.\<close>

theorem unsafe_messages_separate_witness:
  "\<exists>k. agg_sig_me_additional_data k = [0] \<and> verify_agg_sig_unsafe_message (\<lambda>_. [1]) [5, 1, 0] k \<and>
     signed_data (\<lambda>_. [1]) \<lparr>parent_coin_info = [1], puzzle_hash = [], amount = 3\<rparr> [0] (AggSigMe [] [5]) = Some ([], [5, 1, 0]) \<and>
     signed_data (\<lambda>_. [1]) \<lparr>parent_coin_info = [1], puzzle_hash = [], amount = 3\<rparr> [0] (AggSigParent [] [5]) \<noteq> Some ([], [5, 1, 0])"
proof -
  define k where "k = MAINNET\<lparr>agg_sig_me_additional_data := [0]\<rparr>"
  let ?coin = "\<lparr>parent_coin_info = [1], puzzle_hash = [], amount = 3\<rparr> :: coin"
  have k: "agg_sig_me_additional_data k = [0]" by (simp add: k_def)
  have me: "signed_data (\<lambda>_. [1]) ?coin [0] (AggSigMe [] [5]) = Some ([], [5, 1, 0])"
    by (simp add: signed_data_def agg_sig_additional_data_for_opcode_def coin_name_def coin_id_def)
  note sep = unsafe_messages_separate [of "\<lambda>_. [1]" "[5, 1, 0]" k "AggSigParent [] [5]" "[]" "[5]" ?coin "[]", unfolded k]
  from sep me have "verify_agg_sig_unsafe_message (\<lambda>_. [1]) [5, 1, 0] k" by simp
  with sep me k show ?thesis by (intro exI [of _ k]) simp
qed

end
