(* ===== verification/BundleSound.thy ===== *)
theory BundleSound
  imports BlockExample
begin

text \<open>
  The conditions of a bundle that is not in a block yet: the same books as for a block, with the reveal of every
  spend checked against the puzzle hash of its coin.
\<close>

section \<open>Only flags change after the loop\<close>

definition flagged :: "spend \<Rightarrow> spend \<Rightarrow> bool" where
  "flagged s s' \<longleftrightarrow> (\<exists>f. s' = s\<lparr>sp_flags := f\<rparr>)"

lemma flagged_refl [simp]: "flagged s s"
  unfolding flagged_def by (intro exI [of _ "sp_flags s"]) simp

lemma flagged_clear: "flagged s s' \<Longrightarrow> flagged s (clear_ff s')"
  by (auto simp: flagged_def clear_ff_def)

lemma fold_clear:
  "list_all2 flagged ss ss' \<Longrightarrow> list_all2 flagged ss (fold (\<lambda>i ss. ss[i := clear_ff (ss ! i)]) is ss')"
proof (induction "is" arbitrary: ss')
  case (Cons i ks)
  have "list_all2 flagged ss (ss'[i := clear_ff (ss' ! i)])"
  proof (cases "i < length ss'")
    case True
    with Cons.prems show ?thesis
      by (auto simp: list_all2_conv_all_nth nth_list_update intro: flagged_clear)
  next
    case False
    with Cons.prems show ?thesis by (simp add: list_update_beyond)
  qed
  from Cons.IH [OF this] show ?case by simp
qed simp

lemma clear_ff_flagged:
  "list_all2 flagged (sb_spends conds) (sb_spends (clear_ff_for_bundle_commitments sha conds))"
  "clear_ff_for_bundle_commitments sha conds = conds\<lparr>sb_spends := sb_spends (clear_ff_for_bundle_commitments sha conds)\<rparr>"
proof -
  have "list_all2 flagged ss (map (\<lambda>s. if P s then clear_ff s else s) ss')" if "list_all2 flagged ss ss'" for ss ss' P
    using that by (auto simp: list_all2_conv_all_nth flagged_clear)
  then show "list_all2 flagged (sb_spends conds) (sb_spends (clear_ff_for_bundle_commitments sha conds))"
    by (simp add: clear_ff_for_bundle_commitments_def Let_def fold_clear list_all2_refl)
  show "clear_ff_for_bundle_commitments sha conds = conds\<lparr>sb_spends := sb_spends (clear_ff_for_bundle_commitments sha conds)\<rparr>"
    by (simp add: clear_ff_for_bundle_commitments_def Let_def)
qed

lemma flagged_keeps:
  assumes "flagged s s'"
  shows "kept c s' b = kept c s b" "accounted sha s' cs = accounted sha s cs" "from_program d fl s' cs = from_program d fl s cs"
    "sp_coin_id s' = sp_coin_id s" "spend_coin s' = spend_coin s" "output_ids sha s' = output_ids sha s"
    "sp_coin_amount s' = sp_coin_amount s" "execution_cost s' = execution_cost s"
proof -
  from assms obtain f where f: "s' = s\<lparr>sp_flags := f\<rparr>" by (auto simp: flagged_def)
  show "kept c s' b = kept c s b" by (cases c) (simp_all add: f)
  show "accounted sha s' cs = accounted sha s cs" "from_program d fl s' cs = from_program d fl s cs"
    "sp_coin_id s' = sp_coin_id s" "spend_coin s' = spend_coin s" "output_ids sha s' = output_ids sha s"
    "sp_coin_amount s' = sp_coin_amount s" "execution_cost s' = execution_cost s"
    by (simp_all add: f accounted_def spoken_def from_program_def commits_def spend_coin_def output_ids_def created_coin_def)
qed

lemma flagged_lists:
  assumes "list_all2 flagged ss ss'"
  shows "list_all2 (\<lambda>s cs. accounted sha s cs \<and> from_program d fl s cs \<and> (\<forall>c \<in> set cs. kept c s b)) ss css \<Longrightarrow>
      list_all2 (\<lambda>s cs. accounted sha s cs \<and> from_program d fl s cs \<and> (\<forall>c \<in> set cs. kept c s b)) ss' css"
    "map sp_coin_id ss' = map sp_coin_id ss" "map (output_ids sha) ss' = map (output_ids sha) ss"
    "map (\<lambda>s. unat (sp_coin_amount s)) ss' = map (\<lambda>s. unat (sp_coin_amount s)) ss"
    "map (\<lambda>s. unat (execution_cost s)) ss' = map (\<lambda>s. unat (execution_cost s)) ss"
  using assms
  by (auto simp: list_all2_conv_all_nth list_eq_iff_nth_eq flagged_keeps [of "ss ! _" "ss' ! _"])


section \<open>Accepted bundles\<close>

lemma kept_spends [simp]: "kept c s (b\<lparr>sb_spends := z\<rparr>) = kept c s b"
  by (cases c) simp_all

text \<open>
  C0: a bundle that is accepted for the mempool is recorded in full. Every spend of the result carries the conditions
  of the run of a puzzle that hashes to the puzzle hash of its coin, every one of them left its trace in the record,
  the amounts, fees and costs are the sums over the conditions and the runs without wrapping around, the cost starts
  from the price of the bytes and is within the limit of a block, and no coin is spent or created twice. Clearing the
  eligibility flags afterwards changes none of this.
\<close>

theorem bundle_recorded:
  assumes "conditions_from_spend_bundle d bundle height k = Some (Inr conds)"
  shows "\<exists>css. list_all2 (\<lambda>s cs. accounted (dialect_sha256 d) s cs \<and>
        from_program d (clvm_flags (flags_for_height k height) OR MEMPOOL_MODE) s cs \<and> (\<forall>c \<in> set cs. kept c s conds)) (sb_spends conds) css \<and>
      unat (removal_amount conds) = sum_list (map (\<lambda>s. unat (sp_coin_amount s)) (sb_spends conds)) \<and>
      unat (addition_amount conds) = total created_amount css \<and> unat (reserve_fee conds) = total fee_of css \<and>
      unat (sb_cost conds) = unat (bundle_byte_cost (bundle_spends bundle) k) +
        sum_list (map (\<lambda>s. unat (execution_cost s)) (sb_spends conds)) + total cost_of css \<and>
      sb_cost conds \<le> max_block_cost_clvm k \<and> distinct (map sp_coin_id (sb_spends conds)) \<and>
      distinct (concat (map (output_ids (dialect_sha256 d)) (sb_spends conds)))"
proof -
  define sha where "sha = dialect_sha256 d"
  let ?fl = "clvm_flags (flags_for_height k height) OR MEMPOOL_MODE"
  let ?base = "bundle_byte_cost (bundle_spends bundle) k"
  from assms obtain c0 spent created x cost where
    l: "bundle_loop d ?fl k Map.empty (bundle_spends bundle) (empty_conditions ?base, {}, {}, 0) = Some (Inr (c0, spent, created, x))"
    and cost: "checked_add (sb_cost c0) x = Some cost" "\<not> cost > max_block_cost_clvm k"
    and conds: "conds = clear_ff_for_bundle_commitments sha (c0\<lparr>sb_cost := cost\<rparr>)"
    by (auto simp: conditions_from_spend_bundle_def Let_def bind_opt_eq_Inr sha_def split: if_splits)
  from bundle_loop_books [OF l _ books_empty] obtain css where
    b: "books sha (from_program d ?fl) (unat ?base) css (c0, spent, created, x)" by (auto simp: cache_ok_def sha_def)
  define ss where "ss = sb_spends conds"
  from clear_ff_flagged(1) [of "c0\<lparr>sb_cost := cost\<rparr>" sha] clear_ff_flagged(2) [of sha "c0\<lparr>sb_cost := cost\<rparr>"] conds have f: "list_all2 flagged (sb_spends c0) ss"
    and c1: "conds = c0\<lparr>sb_cost := cost, sb_spends := ss\<rparr>" by (simp_all add: ss_def)
  note fl = flagged_lists [OF f]
  have sel: "removal_amount conds = removal_amount c0" "addition_amount conds = addition_amount c0"
    "reserve_fee conds = reserve_fee c0" "sb_cost conds = cost" "sb_spends conds = ss" by (simp_all add: c1)
  have kept: "kept c s conds = kept c s c0" for c s unfolding c1 by (cases c) simp_all
  show ?thesis
    using b fl(1) [of sha d ?fl c0 css] fl(2-5) unat_checked_add [OF cost(1)] cost(2)
    unfolding sel kept sha_def [symmetric] books_def by (intro exI [of _ css]) auto
qed

text \<open>The spend of the example block, as a bundle.\<close>

definition ex_reveal :: bytes where
  "ex_reveal = [0xff, 0x01] @ [0xff, 0xff, 0x33, 0xff, 0xa0] @ zeros @ [0xff, 0x03, 0x80, 0x80]"

definition ex_bundle :: spend_bundle where
  "ex_bundle = \<lparr>bundle_spends = [\<lparr>cs_coin = ex_coin,
     cs_puzzle_reveal = ex_reveal, cs_solution = [0x80]\<rparr>],
     bundle_signature = []\<rparr>"

lemma ex_bundle_parsed:
  "parse_program ex_reveal =
     Inr (Pair (Atom [1]) (sexp_of_list [sexp_of_list [Atom [51], Atom zeros, Atom [3]]]))"
  "parse_program [0x80] = Inr NULL_SEXP"
proof -
  let ?t = "Pair (Atom [1]) (sexp_of_list [sexp_of_list [Atom [51], Atom zeros, Atom [3]]])"
  have e: "sexp_bytes ?t = Inr ex_reveal"
    by (simp add: sexp_of_list_def NULL_SEXP_def atom_bytes_def markers encode_size_def ex_reveal_def)
  have "atoms_below (2 ^ 63) ?t" by (simp add: sexp_of_list_def NULL_SEXP_def)
  from loop_roundtrip [OF e this, of "[]" "[]" "[]"]
  show "parse_program ex_reveal = Inr ?t"
    by (simp add: sexp_from_bytes_def) (simp add: ex_reveal_def)
  show "parse_program [0x80] = Inr NULL_SEXP"
    by (simp add: sexp_from_bytes_def sexp_from_bytes_loop.simps(2) markers)
qed


lemma ex_bundle_conditions:
  "conditions_try_from (sexp_of_list [sexp_of_list [Atom [51], Atom zeros, Atom [3]]]) = Inr [CreateCoin zeros 3 []]"
proof -
  have "number_from_slice [3] = 3" by (simp add: number_from_slice_def from_signed_Cons sbyte_def)
  then have "condition_try_from (sexp_of_list [Atom [51], Atom zeros, Atom [3]]) = Inr (CreateCoin zeros 3 [])"
    by (simp add: condition_try_from_def op_code_with_args_from_sexp_def sexp_of_list_def NULL_SEXP_def opcode_from_def
        create_coin_args_def sized_from_def u64_from_bigint_def)
  then show ?thesis by (simp add: conditions_try_from_def sexp_of_list_def [of "[_]"] NULL_SEXP_def)
qed

lemma ex_bundle_accepted: "\<exists>conds. conditions_from_spend_bundle (ex_dialect bl) ex_bundle 10 ex_constants = Some (Inr conds)"
proof -
  let ?fl = "clvm_flags (flags_for_height ex_constants 10) OR MEMPOOL_MODE"
  let ?p = "Pair (Atom [1]) (sexp_of_list [sexp_of_list [Atom [51], Atom zeros, Atom [3]]])"
  have sha: "dialect_sha256 (ex_dialect bl) = (\<lambda>_. zeros)" by (simp add: ex_dialect_def)
  have m: "max_block_cost_clvm ex_constants = 11000000000" by (simp add: ex_constants_def MAINNET_def)
  have base: "bundle_byte_cost (bundle_spends ex_bundle) ex_constants = 1044000"
    by (simp add: bundle_byte_cost_def ex_bundle_def ex_reveal_def spend_bundle_generator_length_def clvm_bytes_len_def ex_coin_def ex_constants_def MAINNET_def)
  have "tree_fits ?p NULL_SEXP" by (simp add: tree_fits_def sexp_of_list_def NULL_SEXP_def MAX_NUM_ATOMS_def MAX_NUM_PAIRS_def HEAP_LIMIT_def)
  from run_quote_fits [OF this, of 10998956000 "ex_dialect bl" ?fl]
  have run: "program_run (ex_dialect bl) 10998956000 ?fl ?p NULL_SEXP =
      Some (Inr (20, sexp_of_list [sexp_of_list [Atom [51], Atom zeros, Atom [3]]]))" by simp
  have sb: "sb_cost (empty_conditions x) = x" for x by (simp add: empty_conditions_def)
  obtain s b where st: "spend_from_conditions (\<lambda>_. zeros) ex_constants ex_coin [CreateCoin zeros 3 []] ((empty_conditions 1044000)\<lparr>sb_cost := 1044020\<rparr>) 0 True =
      Inr (s, b, 1800000)" "create_coin s = [\<lparr>nc_puzzle_hash = zeros, nc_amount = 3, nc_hint = None\<rparr>]" "sb_cost b = 1044020"
    by (simp add: spend_from_conditions_def start_spend_def apply_parsed_condition_def apply_defs charge_condition_def checked_add_def
        CREATE_COIN_COST_def agg_sig_infinity_pubkey_def clear_eligibility_for_condition_def new_spend_def empty_conditions_def
        ex_coin_def finalize_spend_other finalize_spend_def Let_def)
  have spends: "bundle_spends ex_bundle = [\<lparr>cs_coin = ex_coin,
     cs_puzzle_reveal = ex_reveal, cs_solution = [0x80]\<rparr>]"
    by (simp add: ex_bundle_def)
  have hash: "tree_hash (\<lambda>_. zeros) t = zeros" for t by (cases t) simp_all
  have push: "push_spend (\<lambda>_. zeros) z {} (s\<lparr>execution_cost := e\<rparr>, b, 1800000) =
      Inr (b\<lparr>sb_spends := sb_spends b @ [s\<lparr>execution_cost := e\<rparr>]\<rparr>, z, {zeros}, 1800000)" for z e
    by (simp add: push_spend_def st(2) coin_name_def coin_id_def)
  have "\<exists>st'. bundle_loop (ex_dialect bl) ?fl ex_constants Map.empty (bundle_spends ex_bundle) (empty_conditions 1044000, {}, {}, 0) =
      Some (Inr (b\<lparr>sb_spends := st'\<rparr>, {zeros}, {zeros}, 1800000))"
    unfolding spends
    by (simp add: ex_bundle_parsed sha m sb bind_opt_def Let_def hash checked_sub_def checked_add_def run ex_bundle_conditions st(1) push
        coin_name_def coin_id_def del: parse_program.simps) (auto simp: ex_coin_def)
  then show ?thesis
    by (auto simp: conditions_from_spend_bundle_def base Let_def bind_opt_def checked_add_def st(3) m)
qed

theorem bundle_recorded_witness:
  "\<forall>bl :: (unit, unit, unit) blst. \<exists>conds. conditions_from_spend_bundle (ex_dialect bl) ex_bundle 10 ex_constants = Some (Inr conds) \<and>
     sb_cost conds \<le> 11000000000 \<and> distinct (map sp_coin_id (sb_spends conds))"
proof
  fix bl :: "(unit, unit, unit) blst"
  obtain conds where c: "conditions_from_spend_bundle (ex_dialect bl) ex_bundle 10 ex_constants = Some (Inr conds)"
    using ex_bundle_accepted by blast
  have "max_block_cost_clvm ex_constants = 11000000000" by (simp add: ex_constants_def MAINNET_def)
  with bundle_recorded [OF c] c show "\<exists>conds. conditions_from_spend_bundle (ex_dialect bl) ex_bundle 10 ex_constants = Some (Inr conds) \<and>
     sb_cost conds \<le> 11000000000 \<and> distinct (map sp_coin_id (sb_spends conds))" by auto
qed

end
