(* ===== verification/Spec2Isabelle.thy ===== *)
theory Spec2Isabelle
  imports ClvmBackrefs ClvmCanonical ClvmEval MerkleSound Retarget QueueSound SyncWindow RecordCache TxQueueSound RateSound WindowSound BanRegistry AcceptedBlocks AmountBytes BundleSound
begin

text \<open>
  A verification development for \<^verbatim>\<open>dg_xch_utils\<close>, a Rust implementation of the Chia protocol: a full node with
  its consensus rules, the CLVM interpreter that runs the programs locking coins, the wire formats, and the
  synchronisation and peer-to-peer machinery around them. All paths below are relative to \<^verbatim>\<open>src/\<close>.

  \<^bold>\<open>How the parts interact.\<close> Peers exchange messages in the streamable format (\<^verbatim>\<open>serialize\<close>). A peer is subject
  to the rate limits and in-flight windows of \<^verbatim>\<open>core/src/protocols\<close> and may be put on the ban list. During a sync
  the reservation window hands out heights, the reorder buffer collects the blocks and releases them in order, and
  the record cache keeps the recent block records. Block records drive the proof-of-time arithmetic, the retarget of
  difficulty and iterations, and the choice of challenges. A block carries a generator, a CLVM program in serialized
  form: it is parsed (with back-references), imported into the arena of the interpreter and run; its output is read
  as spends, every spend runs its own puzzle, and the conditions the puzzles return decide whether the block is valid.
  The coins a block adds and removes are committed to by Merkle sets. Transactions that are not yet in a block wait
  in the gossip inbox.

  \<^bold>\<open>Conventions.\<close> A Rust integer of \<open>w\<close> bits is a word of \<open>w\<close> bits; arithmetic written with plain operators wraps
  around, as in a release build, while \<^verbatim>\<open>checked_\<close> and \<^verbatim>\<open>saturating_\<close> operations are the definitions of
  \<open>XchPrelude\<close>. The big integers of the \<^verbatim>\<open>num-bigint\<close> crate are the integers of HOL. Fallible code returns a
  sum with the error on the left; a panic is an error value of its own. Loops whose end is not evident are partial
  functions into an option type: \<open>None\<close> means that the loop never ends, so a statement that such a function returns
  \<open>Some\<close> is a statement of termination. Clocks are arguments. Mutable state is a record that every operation
  returns updated; tasks that interleave are sequences of operations. Code outside the repository is a parameter:
  SHA-256 (\<open>hash_fn\<close>), and the elliptic-curve operations of the \<^verbatim>\<open>blst\<close> crate (the record \<open>blst\<close>).

  \<^bold>\<open>Theories.\<close>
  \<^item> \<open>XchPrelude\<close>: words, results, checked operations, big-endian bytes, and the collections of simplification
    rules the components share.
  \<^item> \<open>ChiaSerialize\<close> (\<^verbatim>\<open>serialize/src/lib.rs\<close>): the codecs of integers, arrays, options, tuples and vectors. The
    locale \<open>chia_codec\<close> states what a codec promises (a value is read back from its bytes, and only from them); its
    combinators are proved once in it, and every codec is an interpretation. \<open>fixed_codec\<close> extends it by codecs of a
    fixed size.
  \<^item> \<open>ClvmSize\<close>, \<open>ClvmSexp\<close>, \<open>ClvmBackrefs\<close>, \<open>ClvmCanonical\<close> (\<^verbatim>\<open>core/src/clvm/parser.rs\<close>): length prefixes, the
    parser and printer of expressions, the parser with back-references (which computes path lookups in a list of
    everything parsed so far), and the two checks of canonical form.
  \<^item> \<open>ClvmNumber\<close> (\<^verbatim>\<open>core/src/clvm/sexp_ext.rs\<close>, \<^verbatim>\<open>core/src/formatting.rs\<close>): numbers with a machine and a big
    representation; arithmetic agrees with the integers and bytes are read back.
  \<^item> \<open>ClvmArena\<close>, \<open>ArenaSound\<close> (\<^verbatim>\<open>core/src/clvm/arena.rs\<close>): handles, small atoms, pools, interning, limits and
    checkpoints. \<open>den\<close> is the tree a handle denotes; growth of the arena and a restore to a checkpoint keep what is
    still live, and importing then exporting a tree is the identity.
  \<^item> \<open>ClvmOps\<close>, \<open>ClvmBls\<close> (\<^verbatim>\<open>core_ops.rs\<close>, \<^verbatim>\<open>more_ops.rs\<close>, \<^verbatim>\<open>pure_ops.rs\<close>, \<^verbatim>\<open>utils.rs\<close>, \<^verbatim>\<open>bls_ops.rs\<close> and
    \<^verbatim>\<open>dialect.rs\<close> of \<^verbatim>\<open>core/src/clvm\<close>): every operator with its cost and errors, over a view of nodes, and the
    dispatch by operator atom.
  \<^item> \<open>ClvmRuntime\<close> (\<^verbatim>\<open>core/src/clvm/runtime.rs\<close>): the machine with its operation, value and environment stacks.
  \<^item> \<open>OpsSound\<close>, \<open>RuntimeTree\<close>, \<open>ClvmEval\<close>: operators do on a node what they do on the tree it denotes (the
    transfer rules, and the locale \<open>view_sim\<close> with the arena and plain trees as instances); the machine on the arena
    simulates the same machine on trees, although it rewinds the arena after applications; and the machine on trees
    computes the recursive evaluator \<open>evaluate\<close>. The fuel of \<open>evaluate\<close> bounds the depth of calls: a run that
    returns gives a fuel that is enough, and any fuel that gives a result makes the run return it. The remaining
    hypothesis is that the run on the arena does not end in a memory error, which trees do not have.
  \<^item> \<open>MerkleSet\<close>, \<open>MerkleTree\<close>, \<open>MerkleProof\<close>, \<open>MerkleSound\<close> (\<^verbatim>\<open>core/src/consensus/merkle_set.rs\<close> and the root
    computation of \<^verbatim>\<open>block_generator.rs\<close>): construction, proofs and their validation; soundness is relative to the
    absence of collisions among the strings hashed.
  \<^item> \<open>Constants\<close>, \<open>Consensus\<close>, \<open>Difficulty\<close>, \<open>Retarget\<close> (\<^verbatim>\<open>constants.rs\<close>, \<^verbatim>\<open>pot_iterations.rs\<close>, \<^verbatim>\<open>deficit.rs\<close>,
    \<^verbatim>\<open>block_rewards.rs\<close>, \<^verbatim>\<open>coinbase.rs\<close>, \<^verbatim>\<open>difficulty_adjustment.rs\<close>, \<^verbatim>\<open>get_block_challenge.rs\<close> of
    \<^verbatim>\<open>core/src/consensus\<close>): the networks, proof-of-time arithmetic, deficits, retargets and challenge walks.
  \<^item> \<open>BTree\<close>: the ordered maps of the standard library behind the locale \<open>ordered_map\<close>.
  \<^item> \<open>SyncQueue\<close>, \<open>QueueSound\<close> (\<^verbatim>\<open>node/src/sync/queue.rs\<close>, \<^verbatim>\<open>watchdog.rs\<close>), \<open>SyncWindow\<close>
    (\<^verbatim>\<open>node/src/sync/window.rs\<close>), \<open>RecordCache\<close> (\<^verbatim>\<open>node/src/cache.rs\<close>): invariants over all sequences of operations,
    order of delivery, wake-ups, conservation of heights, and the cache as a window of the chain.
  \<^item> \<open>TxQueue\<close>, \<open>TxQueueSound\<close> (\<^verbatim>\<open>full-node/src/tx_queue.rs\<close>): the inbox, its bounds, and that a drain ends.
  \<^item> \<open>Protocol\<close>, \<open>RateLimits\<close>, \<open>RateSound\<close>, \<open>WindowLimits\<close>, \<open>WindowSound\<close>, \<open>BanRegistry\<close>
    (\<^verbatim>\<open>core/src/protocols\<close>): message codes, rate limits and the self-throttle, in-flight windows, correlation ids
    and the ban list.
  \<^bold>\<open>Not modelled.\<close> BLS pairings and key derivation (the \<^verbatim>\<open>blst\<close> crate); proofs of space (generated tables, ChaCha8,
  Blake3 and AES) and proofs of time (class groups over a big-integer crate); weight proofs and the fee estimator
  (they sample and compute in floating point); SQL and file stores; sockets, servers, RPC, the command line, the
  graphical interface and the simulator (I/O); derive macros, which run in the compiler; the assembler and compiler
  of the developer tools; wallets and serialized puzzles; the header rules of \<^verbatim>\<open>block_header_validation.rs\<close>, which
  are field comparisons around the verification of proofs of space and time; and log lines everywhere. Of the
  streamable codecs the instances for strings, hash maps and date-times are left out.
\<close>

end
